(* ===== verification/Panvex_Prelude.thy ===== *)
theory Panvex_Prelude
  imports
    Main
    "HOL-Library.Word"
    "HOL-Library.Multiset"
    "HOL-Library.Char_ord"
    "HOL-Library.List_Lexorder"
    "HOL-Library.Product_Lexorder"
begin

section \<open>Shared vocabulary of the development\<close>

text \<open>
  This theory fixes how values of the Go program are represented and collects the lemmas
  that every component uses:
  \<^item> an instant (\<^verbatim>\<open>time.Time\<close>) is the number of nanoseconds since Go's zero instant, so
    \<^verbatim>\<open>IsZero\<close> is equality with 0 and \<^verbatim>\<open>UTC()\<close> is the identity;
  \<^item> a \<^verbatim>\<open>time.Duration\<close> is a number of nanoseconds; \<^verbatim>\<open>Time.Sub\<close> saturates at the bounds of
    a signed 64-bit value, as the standard library does;
  \<^item> a \<^verbatim>\<open>uint64\<close> counter is a 64-bit word;
  \<^item> a Go map is a partial function. Iterating over a Go map visits the keys in an
    unspecified order, so an operation that ranges over a map takes the visiting order as
    an argument, and the theorems hold for every order.
\<close>

type_synonym gotime = int
type_synonym duration = int
type_synonym uint64 = "64 word"

named_theorems inv_intros
  \<open>introduction rules for the invariants of the components\<close>
named_theorems frame_simps
  \<open>which fields of a state an operation leaves unchanged\<close>

subsection \<open>Instants and durations\<close>

definition is_zero_time :: "gotime \<Rightarrow> bool" where
  "is_zero_time t \<longleftrightarrow> t = 0"

definition second_ns :: int where
  "second_ns = 1000000000"

definition minute_ns :: int where
  "minute_ns = 60 * second_ns"

definition max_duration :: duration where
  "max_duration = 2 ^ 63 - 1"

definition min_duration :: duration where
  "min_duration = - (2 ^ 63)"

text \<open>\<^verbatim>\<open>t.Sub(u)\<close>: the difference, clamped to the range of \<^verbatim>\<open>time.Duration\<close>.\<close>

definition time_sub :: "gotime \<Rightarrow> gotime \<Rightarrow> duration" where
  "time_sub t u = max min_duration (min max_duration (t - u))"

definition valid_duration :: "duration \<Rightarrow> bool" where
  "valid_duration d \<longleftrightarrow> min_duration \<le> d \<and> d \<le> max_duration"

lemma time_sub_ge_iff:
  assumes "d \<le> max_duration" and "min_duration < d"
  shows "d \<le> time_sub t u \<longleftrightarrow> d \<le> t - u"
  using assms unfolding time_sub_def by (auto simp: max_def min_def)

lemma time_sub_mono: "t \<le> t' \<Longrightarrow> time_sub t u \<le> time_sub t' u"
  unfolding time_sub_def by (auto simp: max_def min_def)

lemma time_sub_self [simp]: "time_sub t t = 0"
  by (simp add: time_sub_def max_duration_def min_duration_def)

text \<open>Go's integer division and remainder truncate towards zero.\<close>

definition go_div :: "int \<Rightarrow> int \<Rightarrow> int" where
  "go_div a b = (if 0 \<le> a then a div b else - ((- a) div b))"

subsection \<open>Go maps\<close>

text \<open>Reading a missing key gives the zero value of the element type.\<close>

definition map_get :: "'v \<Rightarrow> ('k \<rightharpoonup> 'v) \<Rightarrow> 'k \<Rightarrow> 'v" where
  "map_get z m k = (case m k of None \<Rightarrow> z | Some v \<Rightarrow> v)"

lemma map_get_simps [simp]:
  "m k = None \<Longrightarrow> map_get z m k = z"
  "m k = Some v \<Longrightarrow> map_get z m k = v"
  by (simp_all add: map_get_def)

text \<open>A visiting order of a map: every key exactly once.\<close>

definition range_order :: "('k \<rightharpoonup> 'v) \<Rightarrow> 'k list \<Rightarrow> bool" where
  "range_order m ks \<longleftrightarrow> distinct ks \<and> set ks = dom m"

lemma range_order_distinct: "range_order m ks \<Longrightarrow> distinct ks"
  and range_order_set: "range_order m ks \<Longrightarrow> set ks = dom m"
  by (simp_all add: range_order_def)

lemma range_orderI: "distinct ks \<Longrightarrow> set ks = dom m \<Longrightarrow> range_order m ks"
  by (simp add: range_order_def)

lemma range_order_dom_cong: "range_order m ks \<Longrightarrow> dom m' = dom m \<Longrightarrow> range_order m' ks"
  by (simp add: range_order_def)

subsection \<open>Folds\<close>

text \<open>An invariant of the body is an invariant of the loop.\<close>

lemma fold_invariant:
  assumes "P s" and "\<And>x s. x \<in> set xs \<Longrightarrow> P s \<Longrightarrow> P (f x s)"
  shows "P (fold f xs s)"
  using assms
proof (induction xs arbitrary: s)
  case Nil
  then show ?case by simp
next
  case (Cons x xs)
  then have "P (f x s)" by simp
  with Cons show ?case by (simp add: Cons.IH)
qed

text \<open>A fold whose body changes nothing is the identity.\<close>

lemma fold_unchanged:
  assumes "\<And>x. x \<in> set xs \<Longrightarrow> f x s = s"
  shows "fold f xs s = s"
  using assms by (induction xs) auto

text \<open>
  A loop that visits every key once and whose body rewrites only its own key acts on each
  key exactly as one call of the body does.
\<close>

lemma fold_pointwise:
  assumes "distinct ks"
    and own: "\<And>k s. k \<in> set ks \<Longrightarrow> g (f k s) k = h k (g s k)"
    and other: "\<And>k k' s. k \<in> set ks \<Longrightarrow> k' \<noteq> k \<Longrightarrow> g (f k s) k' = g s k'"
  shows "g (fold f ks s) k = (if k \<in> set ks then h k (g s k) else g s k)"
  using assms
proof (induction ks arbitrary: s)
  case Nil
  then show ?case by simp
next
  case (Cons x xs)
  have IH: "g (fold f xs (f x s)) k = (if k \<in> set xs then h k (g (f x s) k) else g (f x s) k)"
    using Cons.prems by (intro Cons.IH) auto
  show ?case
  proof (cases "k = x")
    case True
    with Cons.prems have "k \<notin> set xs" by simp
    with IH True Cons.prems(2) [of x s] show ?thesis by simp
  next
    case False
    with IH Cons.prems(3) [of x k s] show ?thesis by simp
  qed
qed

subsection \<open>Finite domains\<close>

lemma finite_dom_fun_upd [simp]: "finite (dom m) \<Longrightarrow> finite (dom (m(k := v)))"
  by (cases v) (auto simp: dom_def intro: rev_finite_subset)

lemma dom_delete: "dom (m(k := None)) = dom m - {k}"
  by auto

subsection \<open>Words\<close>

lemma unat_inc:
  fixes w :: "'a::len word"
  assumes "w \<noteq> - 1"
  shows "unat (w + 1) = Suc (unat w)"
proof -
  have "w + 1 \<noteq> 0"
    using assms by (metis eq_neg_iff_add_eq_0)
  then show ?thesis
    by (metis unatSuc add.commute)
qed

lemma word_inc_greater:
  fixes w :: "'a::len word"
  assumes "w \<noteq> - 1"
  shows "w < w + 1"
  using unat_inc [OF assms] by (simp add: word_less_nat_alt)

lemma word_le_inc_iff:
  fixes w :: "'a::len word"
  assumes "w \<noteq> - 1"
  shows "n \<le> w + 1 \<longleftrightarrow> n \<le> w \<or> n = w + 1"
  using unat_inc [OF assms] by (auto simp: word_le_nat_alt word_unat_eq_iff)

end
