(* ===== verification/Seqid.thy ===== *)
theory Seqid
  imports Panvex_Prelude
begin

section \<open>Prefixed sequence identifiers (internal/seqid)\<close>

text \<open>
  Several domains mint identifiers of the form \<^verbatim>\<open><prefix>-<digits>\<close> from a 64-bit counter
  and recover the counter from persisted rows after a restart. This theory models the
  decimal rendering (\<^verbatim>\<open>fmt.Sprintf("%0*d")\<close>), the decimal parser the code relies on
  (\<^verbatim>\<open>strconv.ParseUint(s, 10, 64)\<close>) and \<^verbatim>\<open>seqid.MaxPrefixed\<close>, and shows that the parser
  inverts the rendering, that identifiers are injective, and that zero padding makes byte
  order agree with numeric order.
\<close>

subsection \<open>Decimal digits\<close>

definition digit_char :: "nat \<Rightarrow> char" where
  "digit_char d = char_of (48 + d)"

definition digit_val :: "char \<Rightarrow> nat" where
  "digit_val c = of_char c - 48"

definition is_digit :: "char \<Rightarrow> bool" where
  "is_digit c \<longleftrightarrow> 48 \<le> (of_char c :: nat) \<and> (of_char c :: nat) \<le> 57"

fun dec_digits :: "nat \<Rightarrow> string" where
  "dec_digits n = (if n < 10 then [digit_char n]
                   else dec_digits (n div 10) @ [digit_char (n mod 10)])"

declare dec_digits.simps [simp del]

definition dec_value :: "string \<Rightarrow> nat" where
  "dec_value s = foldl (\<lambda>acc c. acc * 10 + digit_val c) 0 s"

text \<open>The verb \<^verbatim>\<open>%0wd\<close> on an unsigned value: decimal digits, zero-padded on the left.\<close>

definition pad_zero :: "nat \<Rightarrow> nat \<Rightarrow> string" where
  "pad_zero w n = (let ds = dec_digits n in replicate (w - length ds) (digit_char 0) @ ds)"

text \<open>\<^verbatim>\<open>strconv.ParseUint(s, 10, 64)\<close>: decimal digits only, non-empty, below \<open>2 ^ 64\<close>.\<close>

definition parse_uint64 :: "string \<Rightarrow> uint64 option" where
  "parse_uint64 s =
     (if s = [] \<or> \<not> list_all is_digit s then None
      else let v = dec_value s in if v < 2 ^ 64 then Some (of_nat v) else None)"

text \<open>\<^verbatim>\<open>strings.CutPrefix\<close>.\<close>

definition cut_prefix :: "string \<Rightarrow> string \<Rightarrow> string option" where
  "cut_prefix s p = (if take (length p) s = p then Some (drop (length p) s) else None)"

subsection \<open>MaxPrefixed\<close>

definition MaxPrefixed :: "uint64 \<Rightarrow> string \<Rightarrow> string \<Rightarrow> uint64" where
  "MaxPrefixed current prefix v =
     (case cut_prefix v (prefix @ ''-'') of
        None \<Rightarrow> current
      | Some digits \<Rightarrow>
          (case parse_uint64 digits of
             None \<Rightarrow> current
           | Some parsed \<Rightarrow> if parsed \<le> current then current else parsed))"

subsection \<open>The parser inverts the rendering\<close>

lemma digit_char_props [simp]:
  assumes "d < 10"
  shows "is_digit (digit_char d)" and "digit_val (digit_char d) = d"
  using assms by (simp_all add: is_digit_def digit_char_def digit_val_def)

lemma digit_val_less: "is_digit c \<Longrightarrow> digit_val c < 10"
  by (auto simp: is_digit_def digit_val_def)

lemma digit_val_less_iff:
  assumes "is_digit c" and "is_digit d"
  shows "c < d \<longleftrightarrow> digit_val c < digit_val d"
  using assms by (auto simp: is_digit_def digit_val_def less_char_def)

lemma dec_value_Nil [simp]: "dec_value [] = 0"
  by (simp add: dec_value_def)

lemma dec_value_snoc [simp]: "dec_value (s @ [c]) = dec_value s * 10 + digit_val c"
  by (simp add: dec_value_def)

lemma foldl_zeros: "foldl (\<lambda>acc c. acc * 10 + digit_val c) 0 (replicate k (digit_char 0)) = 0"
  by (induction k) simp_all

lemma dec_value_replicate_zero: "dec_value (replicate k (digit_char 0) @ s) = dec_value s"
  by (simp add: dec_value_def foldl_zeros)

lemma dec_digits_props:
  "dec_digits n \<noteq> [] \<and> list_all is_digit (dec_digits n) \<and> dec_value (dec_digits n) = n"
proof (induction n rule: less_induct)
  case (less n)
  show ?case
  proof (cases "n < 10")
    case True
    have "dec_value [digit_char n] = n"
      using True by (simp add: dec_value_def)
    with True show ?thesis by (simp add: dec_digits.simps [of n])
  next
    case False
    then have "n div 10 < n" by simp
    from less.IH [OF this] False show ?thesis
      by (subst (1 2 3) dec_digits.simps) (simp add: list_all_append)
  qed
qed

lemma pad_zero_props:
  "pad_zero w n \<noteq> []" "list_all is_digit (pad_zero w n)" "dec_value (pad_zero w n) = n"
  using dec_digits_props [of n]
  by (auto simp: pad_zero_def Let_def list_all_append dec_value_replicate_zero
      list_all_iff)

lemma parse_pad_zero: "parse_uint64 (pad_zero w (unat n)) = Some n"
  using pad_zero_props [of w "unat n"] unsigned_less [of n, where 'a = nat]
  by (simp add: parse_uint64_def)

lemma cut_prefix_append [simp]: "cut_prefix (p @ s) p = Some s"
  by (simp add: cut_prefix_def)

lemma MaxPrefixed_pad:
  "MaxPrefixed c p (p @ ''-'' @ pad_zero w (unat n)) = max c n"
  using cut_prefix_append [of "p @ ''-''" "pad_zero w (unat n)"]
  by (auto simp: MaxPrefixed_def parse_pad_zero max_def not_le intro: order.asym)

lemma pad_zero_inject: "pad_zero w n = pad_zero w m \<longleftrightarrow> n = m"
  using pad_zero_props(3) by metis

lemma MaxPrefixed_ge: "c \<le> MaxPrefixed c p v"
  by (auto simp: MaxPrefixed_def split: option.splits)

subsection \<open>Padding and byte order\<close>

lemma dec_value_append: "dec_value (s @ t) = dec_value s * 10 ^ length t + dec_value t"
proof (induction t rule: rev_induct)
  case Nil
  then show ?case by simp
next
  case (snoc c t)
  have "dec_value (s @ t @ [c]) = dec_value (s @ t) * 10 + digit_val c"
    by (metis append_assoc dec_value_snoc)
  with snoc show ?case by (simp add: algebra_simps)
qed

lemma dec_value_less_pow: "list_all is_digit s \<Longrightarrow> dec_value s < 10 ^ length s"
proof (induction s rule: rev_induct)
  case Nil
  then show ?case by simp
next
  case (snoc c s)
  then have "dec_value s < 10 ^ length s" and "digit_val c < 10"
    by (simp_all add: list_all_append digit_val_less)
  then show ?case by simp
qed

lemma dec_value_less_iff:
  assumes "length s = length t" and "list_all is_digit s" and "list_all is_digit t"
  shows "s < t \<longleftrightarrow> dec_value s < dec_value t"
  using assms
proof (induction s t rule: list_induct2)
  case Nil
  then show ?case by simp
next
  case (Cons c s d t)
  have vals: "dec_value (c # s) = digit_val c * 10 ^ length s + dec_value s"
      "dec_value (d # t) = digit_val d * 10 ^ length s + dec_value t"
    using dec_value_append [of "[c]" s] dec_value_append [of "[d]" t] Cons.hyps
    by (simp_all add: dec_value_def)
  have bounds: "dec_value s < 10 ^ length s" "dec_value t < 10 ^ length s"
    using dec_value_less_pow [of s] dec_value_less_pow [of t] Cons by auto
  have IH: "s < t \<longleftrightarrow> dec_value s < dec_value t"
    using Cons by simp
  consider (lt) "digit_val c < digit_val d" | (eq) "digit_val c = digit_val d"
    | (gt) "digit_val d < digit_val c" by linarith
  then show ?case
  proof cases
    case lt
    then have "Suc (digit_val c) * 10 ^ length s \<le> digit_val d * 10 ^ length s"
      by (intro mult_le_mono1) simp
    with bounds have "dec_value (c # s) < dec_value (d # t)" unfolding vals by simp
    moreover have "c < d" using lt Cons.prems by (simp add: digit_val_less_iff)
    ultimately show ?thesis by simp
  next
    case eq
    then have "\<not> c < d" and "\<not> d < c" using Cons.prems by (simp_all add: digit_val_less_iff)
    then have "c = d" by simp
    with eq IH show ?thesis unfolding vals by simp
  next
    case gt
    then have "Suc (digit_val d) * 10 ^ length s \<le> digit_val c * 10 ^ length s"
      by (intro mult_le_mono1) simp
    with bounds have "\<not> dec_value (c # s) < dec_value (d # t)" unfolding vals by simp
    moreover have "d < c" using gt Cons.prems by (simp add: digit_val_less_iff)
    ultimately show ?thesis by auto
  qed
qed

lemma length_dec_digits: "0 < k \<Longrightarrow> n < 10 ^ k \<Longrightarrow> length (dec_digits n) \<le> k"
proof (induction k arbitrary: n)
  case 0
  then show ?case by simp
next
  case (Suc k)
  show ?case
  proof (cases "n < 10")
    case True
    then show ?thesis by (simp add: dec_digits.simps [of n])
  next
    case False
    with Suc.prems have "0 < k" by (cases k) auto
    moreover have "n div 10 < 10 ^ k" using Suc.prems by (simp add: less_mult_imp_div_less mult.commute)
    ultimately have "length (dec_digits (n div 10)) \<le> k" by (rule Suc.IH)
    with False show ?thesis by (simp add: dec_digits.simps [of n])
  qed
qed

lemma length_pad_zero: "0 < w \<Longrightarrow> n < 10 ^ w \<Longrightarrow> length (pad_zero w n) = w"
  using length_dec_digits [of w n] by (simp add: pad_zero_def Let_def)

lemma pad_zero_less_iff:
  assumes "0 < w" and "n < 10 ^ w" and "m < 10 ^ w"
  shows "pad_zero w n < pad_zero w m \<longleftrightarrow> n < m"
  using assms dec_value_less_iff [of "pad_zero w n" "pad_zero w m"]
  by (simp add: length_pad_zero pad_zero_props)

end
