(* ===== verification/Job_Types.thy ===== *)
theory Job_Types
  imports Seqid
begin

section \<open>Data of the job queue (internal/controlplane/jobs)\<close>

text \<open>
  The data the job service works on: actions, job and target statuses, jobs, targets and
  the rows they are stored as. The status types of the program are strings that a database
  row may fill with any text, so each status is a datatype with the program's constants
  and one constructor for every other text. The theory also holds the pure functions on
  this data: the status roll-up \<^verbatim>\<open>deriveJobStatus\<close>, the validity tests and the
  row conversions, with the lemmas that characterise them.
\<close>

subsection \<open>Actions\<close>

datatype action =
    ActionClientCreate
  | ActionClientUpdate
  | ActionClientDelete
  | ActionClientRotateSecret
  | ActionClientResetQuota
  | ActionTelemetryRefreshDiagnostics
  | ActionAgentSelfUpdate
  | ActionSwitchTransportMode
  | ActionConfigApply
  | ActionTelemtUpdate
  | OtherAction string

fun action_string :: "action \<Rightarrow> string" where
  "action_string ActionClientCreate = ''client.create''"
| "action_string ActionClientUpdate = ''client.update''"
| "action_string ActionClientDelete = ''client.delete''"
| "action_string ActionClientRotateSecret = ''client.rotate_secret''"
| "action_string ActionClientResetQuota = ''client.reset_quota''"
| "action_string ActionTelemetryRefreshDiagnostics = ''telemetry.refresh_diagnostics''"
| "action_string ActionAgentSelfUpdate = ''agent.self-update''"
| "action_string ActionSwitchTransportMode = ''switch_transport_mode''"
| "action_string ActionConfigApply = ''config.apply''"
| "action_string ActionTelemtUpdate = ''telemt.update''"
| "action_string (OtherAction s) = s"

definition known_actions :: "action list" where
  "known_actions =
     [ActionClientCreate, ActionClientUpdate, ActionClientDelete, ActionClientRotateSecret,
      ActionClientResetQuota, ActionTelemetryRefreshDiagnostics, ActionAgentSelfUpdate,
      ActionSwitchTransportMode, ActionConfigApply, ActionTelemtUpdate]"

text \<open>The conversion \<^verbatim>\<open>Action(s)\<close> from a stored text.\<close>

definition action_of_string :: "string \<Rightarrow> action" where
  "action_of_string s =
     (case filter (\<lambda>a. action_string a = s) known_actions of
        [] \<Rightarrow> OtherAction s | a # _ \<Rightarrow> a)"

fun IsValidAction :: "action \<Rightarrow> bool" where
  "IsValidAction (OtherAction _) = False"
| "IsValidAction _ = True"

fun isMutatingAction :: "action \<Rightarrow> bool" where
  "isMutatingAction ActionClientCreate = True"
| "isMutatingAction ActionClientUpdate = True"
| "isMutatingAction ActionClientDelete = True"
| "isMutatingAction ActionClientRotateSecret = True"
| "isMutatingAction _ = False"

subsection \<open>Statuses\<close>

datatype status =
    StatusQueued
  | StatusRunning
  | StatusSucceeded
  | StatusFailed
  | StatusExpired
  | StatusPartial
  | OtherStatus string

fun status_string :: "status \<Rightarrow> string" where
  "status_string StatusQueued = ''queued''"
| "status_string StatusRunning = ''running''"
| "status_string StatusSucceeded = ''succeeded''"
| "status_string StatusFailed = ''failed''"
| "status_string StatusExpired = ''expired''"
| "status_string StatusPartial = ''partial''"
| "status_string (OtherStatus s) = s"

definition known_statuses :: "status list" where
  "known_statuses = [StatusQueued, StatusRunning, StatusSucceeded, StatusFailed, StatusExpired,
                     StatusPartial]"

definition status_of_string :: "string \<Rightarrow> status" where
  "status_of_string s =
     (case filter (\<lambda>a. status_string a = s) known_statuses of
        [] \<Rightarrow> OtherStatus s | a # _ \<Rightarrow> a)"

datatype target_status =
    TargetStatusQueued
  | TargetStatusSent
  | TargetStatusAcknowledged
  | TargetStatusSucceeded
  | TargetStatusFailed
  | TargetStatusExpired
  | OtherTargetStatus string

fun target_status_string :: "target_status \<Rightarrow> string" where
  "target_status_string TargetStatusQueued = ''queued''"
| "target_status_string TargetStatusSent = ''sent''"
| "target_status_string TargetStatusAcknowledged = ''acknowledged''"
| "target_status_string TargetStatusSucceeded = ''succeeded''"
| "target_status_string TargetStatusFailed = ''failed''"
| "target_status_string TargetStatusExpired = ''expired''"
| "target_status_string (OtherTargetStatus s) = s"

definition known_target_statuses :: "target_status list" where
  "known_target_statuses =
     [TargetStatusQueued, TargetStatusSent, TargetStatusAcknowledged, TargetStatusSucceeded,
      TargetStatusFailed, TargetStatusExpired]"

definition target_status_of_string :: "string \<Rightarrow> target_status" where
  "target_status_of_string s =
     (case filter (\<lambda>a. target_status_string a = s) known_target_statuses of
        [] \<Rightarrow> OtherTargetStatus s | a # _ \<Rightarrow> a)"

fun isTerminalStatus :: "status \<Rightarrow> bool" where
  "isTerminalStatus StatusSucceeded = True"
| "isTerminalStatus StatusFailed = True"
| "isTerminalStatus StatusExpired = True"
| "isTerminalStatus StatusPartial = True"
| "isTerminalStatus _ = False"

text \<open>The test \<^verbatim>\<open>status == StatusQueued || status == StatusRunning\<close> that guards every expiry path.\<close>

definition is_live :: "status \<Rightarrow> bool" where
  "is_live st \<longleftrightarrow> st = StatusQueued \<or> st = StatusRunning"

text \<open>The targets the dispatch index keeps: queued, sent or acknowledged.\<close>

definition is_active :: "target_status \<Rightarrow> bool" where
  "is_active ts \<longleftrightarrow>
     ts = TargetStatusQueued \<or> ts = TargetStatusSent \<or> ts = TargetStatusAcknowledged"

text \<open>The targets no expiry path touches: succeeded, failed or expired.\<close>

definition is_final :: "target_status \<Rightarrow> bool" where
  "is_final ts \<longleftrightarrow>
     ts = TargetStatusSucceeded \<or> ts = TargetStatusFailed \<or> ts = TargetStatusExpired"

lemma is_live_not_terminal: "is_live st \<Longrightarrow> \<not> isTerminalStatus st"
  by (auto simp: is_live_def)

lemma is_final_not_active: "is_final ts \<Longrightarrow> \<not> is_active ts"
  by (auto simp: is_final_def is_active_def)

subsection \<open>Jobs and targets\<close>

record job_target =
  t_agentID :: string
  t_status :: target_status
  t_resultText :: string
  t_resultJSON :: string
  t_updatedAt :: gotime

record job =
  j_id :: string
  j_action :: action
  j_targetAgentIDs :: "string list"
  j_targets :: "job_target list"
  j_ttl :: duration
  j_key :: string
  j_actorID :: string
  j_status :: status
  j_createdAt :: gotime
  j_payload :: string

record create_job_input =
  in_action :: action
  in_targetAgentIDs :: "string list"
  in_ttl :: duration
  in_key :: string
  in_actorID :: string
  in_readOnlyAgents :: "string \<Rightarrow> bool"
  in_payload :: string

subsection \<open>Rolling target statuses up into a job status\<close>

record status_flags =
  anySucceeded :: bool
  anyFailed :: bool
  anyExpired :: bool
  anyInFlight :: bool
  anyQueued :: bool

fun flag_target :: "target_status \<Rightarrow> status_flags \<Rightarrow> status_flags" where
  "flag_target TargetStatusSucceeded f = f\<lparr>anySucceeded := True\<rparr>"
| "flag_target TargetStatusFailed f = f\<lparr>anyFailed := True\<rparr>"
| "flag_target TargetStatusExpired f = f\<lparr>anyExpired := True\<rparr>"
| "flag_target TargetStatusSent f = f\<lparr>anyInFlight := True\<rparr>"
| "flag_target TargetStatusAcknowledged f = f\<lparr>anyInFlight := True\<rparr>"
| "flag_target TargetStatusQueued f = f\<lparr>anyQueued := True\<rparr>"
| "flag_target (OtherTargetStatus _) f = f\<lparr>anyInFlight := True\<rparr>"

definition no_flags :: status_flags where
  "no_flags = \<lparr>anySucceeded = False, anyFailed = False, anyExpired = False,
               anyInFlight = False, anyQueued = False\<rparr>"

definition deriveJobStatus :: "job_target list \<Rightarrow> status" where
  "deriveJobStatus targets =
     (if targets = [] then StatusQueued
      else
        let f = fold (\<lambda>t. flag_target (t_status t)) targets no_flags;
            anyUnsuccessful = anyFailed f \<or> anyExpired f;
            anyTerminal = anySucceeded f \<or> anyUnsuccessful
        in if anySucceeded f \<and> \<not> anyUnsuccessful \<and> \<not> anyInFlight f \<and> \<not> anyQueued f
           then StatusSucceeded
           else if anyInFlight f \<or> (anyQueued f \<and> anyTerminal) then StatusRunning
           else if anySucceeded f \<and> anyUnsuccessful then StatusPartial
           else if anyFailed f then StatusFailed
           else if anyExpired f then StatusExpired
           else StatusQueued)"

text \<open>The flags after the scan say which statuses occur.\<close>

abbreviation has_status :: "job_target list \<Rightarrow> target_status \<Rightarrow> bool" where
  "has_status ts s \<equiv> \<exists>t \<in> set ts. t_status t = s"

definition in_flight :: "target_status \<Rightarrow> bool" where
  "in_flight s \<longleftrightarrow> (\<not> is_final s \<and> s \<noteq> TargetStatusQueued)"

lemma flag_target_fields:
  "anySucceeded (flag_target s f) = (anySucceeded f \<or> s = TargetStatusSucceeded)"
  "anyFailed (flag_target s f) = (anyFailed f \<or> s = TargetStatusFailed)"
  "anyExpired (flag_target s f) = (anyExpired f \<or> s = TargetStatusExpired)"
  "anyInFlight (flag_target s f) = (anyInFlight f \<or> in_flight s)"
  "anyQueued (flag_target s f) = (anyQueued f \<or> s = TargetStatusQueued)"
  by (cases s; simp add: in_flight_def is_final_def)+

lemma fold_flags:
  "anySucceeded (fold (\<lambda>t. flag_target (t_status t)) ts f) =
     (anySucceeded f \<or> has_status ts TargetStatusSucceeded)"
  "anyFailed (fold (\<lambda>t. flag_target (t_status t)) ts f) =
     (anyFailed f \<or> has_status ts TargetStatusFailed)"
  "anyExpired (fold (\<lambda>t. flag_target (t_status t)) ts f) =
     (anyExpired f \<or> has_status ts TargetStatusExpired)"
  "anyInFlight (fold (\<lambda>t. flag_target (t_status t)) ts f) =
     (anyInFlight f \<or> (\<exists>t \<in> set ts. in_flight (t_status t)))"
  "anyQueued (fold (\<lambda>t. flag_target (t_status t)) ts f) =
     (anyQueued f \<or> has_status ts TargetStatusQueued)"
  by (induction ts arbitrary: f) (auto simp: flag_target_fields)

lemma no_flags_fields [simp]:
  "\<not> anySucceeded no_flags" "\<not> anyFailed no_flags" "\<not> anyExpired no_flags"
  "\<not> anyInFlight no_flags" "\<not> anyQueued no_flags"
  by (simp_all add: no_flags_def)

lemmas derive_flags = deriveJobStatus_def Let_def fold_flags

lemma some_target_status:
  assumes "ts \<noteq> []"
  obtains t where "t \<in> set ts"
  using assms by (cases ts) auto

lemma derive_terminal_iff:
  "isTerminalStatus (deriveJobStatus ts) \<longleftrightarrow> ts \<noteq> [] \<and> (\<forall>t \<in> set ts. is_final (t_status t))"
proof (cases "ts = []")
  case True
  then show ?thesis by (simp add: deriveJobStatus_def)
next
  case False
  show ?thesis
  proof (cases "\<forall>t \<in> set ts. is_final (t_status t)")
    case True
    from False obtain t where t: "t \<in> set ts" by (rule some_target_status)
    with True have "has_status ts TargetStatusSucceeded \<or> has_status ts TargetStatusFailed
        \<or> has_status ts TargetStatusExpired"
      by (auto simp: is_final_def)
    moreover have "\<not> (\<exists>t \<in> set ts. in_flight (t_status t))" "\<not> has_status ts TargetStatusQueued"
      using True by (auto simp: in_flight_def is_final_def)
    ultimately show ?thesis using False True by (auto simp: derive_flags)
  next
    case nf: False
    then obtain t where "t \<in> set ts" "\<not> is_final (t_status t)" by blast
    then have "(\<exists>t \<in> set ts. in_flight (t_status t)) \<or> has_status ts TargetStatusQueued"
      by (auto simp: in_flight_def)
    with nf show ?thesis by (auto simp: derive_flags)
  qed
qed

lemma derive_live_or_terminal: "is_live (deriveJobStatus ts) \<longleftrightarrow> \<not> isTerminalStatus (deriveJobStatus ts)"
  by (simp add: deriveJobStatus_def Let_def is_live_def)

lemma derive_perm: "mset ts = mset us \<Longrightarrow> deriveJobStatus ts = deriveJobStatus us"
  using mset_eq_setD [of ts us] by (auto simp: derive_flags)

subsection \<open>Stored rows\<close>

record job_record =
  r_id :: string
  r_action :: string
  r_actorID :: string
  r_status :: string
  r_createdAt :: gotime
  r_ttl :: duration
  r_key :: string
  r_payload :: string

record job_target_record =
  tr_jobID :: string
  tr_agentID :: string
  tr_status :: string
  tr_resultText :: string
  tr_resultJSON :: string
  tr_updatedAt :: gotime

definition jobToRecord :: "job \<Rightarrow> job_record" where
  "jobToRecord job =
     \<lparr>r_id = j_id job, r_action = action_string (j_action job), r_actorID = j_actorID job,
      r_status = status_string (j_status job), r_createdAt = j_createdAt job,
      r_ttl = j_ttl job, r_key = j_key job, r_payload = j_payload job\<rparr>"

definition jobFromRecord :: "job_record \<Rightarrow> job" where
  "jobFromRecord rec =
     \<lparr>j_id = r_id rec, j_action = action_of_string (r_action rec), j_targetAgentIDs = [],
      j_targets = [], j_ttl = r_ttl rec, j_key = r_key rec, j_actorID = r_actorID rec,
      j_status = status_of_string (r_status rec), j_createdAt = r_createdAt rec,
      j_payload = r_payload rec\<rparr>"

definition jobTargetToRecord :: "string \<Rightarrow> job_target \<Rightarrow> job_target_record" where
  "jobTargetToRecord jobID target =
     \<lparr>tr_jobID = jobID, tr_agentID = t_agentID target,
      tr_status = target_status_string (t_status target), tr_resultText = t_resultText target,
      tr_resultJSON = t_resultJSON target, tr_updatedAt = t_updatedAt target\<rparr>"

definition normalizedTargetStatus :: "target_status \<Rightarrow> target_status" where
  "normalizedTargetStatus st =
     (if target_status_string st = ''delivered'' then TargetStatusSent else st)"

definition jobTargetFromRecord :: "job_target_record \<Rightarrow> job_target" where
  "jobTargetFromRecord rec =
     \<lparr>t_agentID = tr_agentID rec,
      t_status = normalizedTargetStatus (target_status_of_string (tr_status rec)),
      t_resultText = tr_resultText rec, t_resultJSON = tr_resultJSON rec,
      t_updatedAt = tr_updatedAt rec\<rparr>"

definition buildJobWithTargets :: "job_record \<Rightarrow> job_target_record list \<Rightarrow> job" where
  "buildJobWithTargets rec targetRecords =
     (let targets = map jobTargetFromRecord targetRecords
      in (jobFromRecord rec)\<lparr>j_targets := targets, j_targetAgentIDs := map t_agentID targets\<rparr>)"

text \<open>A value written with the program's own constants, not a foreign text.\<close>

definition canonical_action :: "action \<Rightarrow> bool" where
  "canonical_action a \<longleftrightarrow> action_of_string (action_string a) = a"

definition canonical_status :: "status \<Rightarrow> bool" where
  "canonical_status st \<longleftrightarrow> status_of_string (status_string st) = st"

definition canonical_target :: "job_target \<Rightarrow> bool" where
  "canonical_target t \<longleftrightarrow>
     target_status_of_string (target_status_string (t_status t)) = t_status t \<and>
     target_status_string (t_status t) \<noteq> ''delivered''"

definition canonical_job :: "job \<Rightarrow> bool" where
  "canonical_job j \<longleftrightarrow> canonical_action (j_action j) \<and> canonical_status (j_status j) \<and>
     list_all canonical_target (j_targets j) \<and> j_targetAgentIDs j = map t_agentID (j_targets j)"

lemma canonical_valid_action: "IsValidAction a \<Longrightarrow> canonical_action a"
  by (cases a) (simp_all add: canonical_action_def action_of_string_def known_actions_def)

lemma canonical_known_status: "(\<forall>s. st \<noteq> OtherStatus s) \<Longrightarrow> canonical_status st"
  by (cases st) (simp_all add: canonical_status_def status_of_string_def known_statuses_def)

lemma canonical_known_target: "(\<forall>s. t_status t \<noteq> OtherTargetStatus s) \<Longrightarrow> canonical_target t"
  by (cases "t_status t")
    (simp_all add: canonical_target_def target_status_of_string_def known_target_statuses_def)

lemma target_record_roundtrip:
  "canonical_target t \<Longrightarrow> jobTargetFromRecord (jobTargetToRecord jid t) = t"
  by (simp add: jobTargetFromRecord_def jobTargetToRecord_def normalizedTargetStatus_def
      canonical_target_def)

lemma job_record_roundtrip:
  assumes "canonical_job j"
  shows "buildJobWithTargets (jobToRecord j) (map (jobTargetToRecord (j_id j)) (j_targets j)) = j"
proof -
  have "map (jobTargetFromRecord \<circ> jobTargetToRecord (j_id j)) (j_targets j) = j_targets j"
    using assms by (intro map_idI) (auto simp: canonical_job_def list_all_iff target_record_roundtrip)
  with assms show ?thesis
    by (simp add: buildJobWithTargets_def jobFromRecord_def jobToRecord_def Let_def
        canonical_job_def canonical_action_def canonical_status_def)
qed

end
