(* ===== verification/Job_Store.thy ===== *)
theory Job_Store
  imports Job_Types
begin

section \<open>The job tables (internal/controlplane/storage/sqlite/jobs.go)\<close>

text \<open>
  The SQLite store of jobs and job targets. A table is the list of its rows; a query is a
  filter, a sort and a limit over it, in the order the SQL text states. The constraints of
  the schema (primary keys, the unique idempotency key, the status checks and the foreign
  key from \<^verbatim>\<open>job_targets\<close> to \<^verbatim>\<open>jobs\<close>, which has no delete action) are error results of the
  statements that can violate them. \<^verbatim>\<open>json_valid\<close> is the database's own function and a
  parameter.
\<close>

subsection \<open>Tables\<close>

record job_row =
  jr_id :: string
  jr_action :: string
  jr_actor_id :: string
  jr_status :: string
  jr_created_at_unix :: int
  jr_ttl_nanos :: int
  jr_idempotency_key :: string
  jr_payload_json :: string

record target_row =
  tg_job_id :: string
  tg_agent_id :: string
  tg_status :: string
  tg_result_text :: string
  tg_result_json :: string
  tg_updated_at_unix :: int

record job_db =
  db_jobs :: "job_row list"
  db_targets :: "target_row list"

datatype store_error = ErrNotFound | CheckViolation | UniqueViolation | ForeignKeyViolation | ScanError

definition unix_epoch_seconds :: int where
  "unix_epoch_seconds = 62135596800"

definition toUnix :: "gotime \<Rightarrow> int" where
  "toUnix t = t div second_ns - unix_epoch_seconds"

definition fromUnix :: "int \<Rightarrow> gotime" where
  "fromUnix s = (s + unix_epoch_seconds) * second_ns"

lemma toUnix_fromUnix [simp]: "toUnix (fromUnix s) = s"
  by (simp add: toUnix_def fromUnix_def second_ns_def)

definition job_status_check :: "string list" where
  "job_status_check = [''queued'', ''running'', ''succeeded'', ''failed'', ''expired'', ''partial'']"

definition target_status_check :: "string list" where
  "target_status_check =
     [''queued'', ''sent'', ''acknowledged'', ''succeeded'', ''failed'', ''expired'']"

subsection \<open>Statements\<close>

definition row_of_job :: "job_record \<Rightarrow> job_row" where
  "row_of_job rec =
     \<lparr>jr_id = r_id rec, jr_action = r_action rec, jr_actor_id = r_actorID rec,
      jr_status = r_status rec, jr_created_at_unix = toUnix (r_createdAt rec),
      jr_ttl_nanos = r_ttl rec, jr_idempotency_key = r_key rec, jr_payload_json = r_payload rec\<rparr>"

definition job_of_row :: "job_row \<Rightarrow> job_record" where
  "job_of_row row =
     \<lparr>r_id = jr_id row, r_action = jr_action row, r_actorID = jr_actor_id row,
      r_status = jr_status row, r_createdAt = fromUnix (jr_created_at_unix row),
      r_ttl = jr_ttl_nanos row, r_key = jr_idempotency_key row, r_payload = jr_payload_json row\<rparr>"

definition row_of_target :: "job_target_record \<Rightarrow> target_row" where
  "row_of_target rec =
     \<lparr>tg_job_id = tr_jobID rec, tg_agent_id = tr_agentID rec, tg_status = tr_status rec,
      tg_result_text = tr_resultText rec, tg_result_json = tr_resultJSON rec,
      tg_updated_at_unix = toUnix (tr_updatedAt rec)\<rparr>"

definition target_of_row :: "target_row \<Rightarrow> job_target_record" where
  "target_of_row row =
     \<lparr>tr_jobID = tg_job_id row, tr_agentID = tg_agent_id row, tr_status = tg_status row,
      tr_resultText = tg_result_text row, tr_resultJSON = tg_result_json row,
      tr_updatedAt = fromUnix (tg_updated_at_unix row)\<rparr>"

text \<open>
  \<^verbatim>\<open>INSERT ... ON CONFLICT(key) DO UPDATE\<close>: replace the row with the same key in place, or
  append a new one.
\<close>

fun upsert :: "('r \<Rightarrow> 'k) \<Rightarrow> 'r \<Rightarrow> 'r list \<Rightarrow> 'r list" where
  "upsert key r [] = [r]"
| "upsert key r (x # xs) = (if key x = key r then r # xs else x # upsert key r xs)"

definition PutJob ::
    "(string \<Rightarrow> bool) \<Rightarrow> job_record \<Rightarrow> job_db \<Rightarrow> store_error + job_db" where
  "PutJob json_valid rec db =
     (if r_status rec \<notin> set job_status_check then Inl CheckViolation
      else if \<not> (r_payload rec = [] \<or> json_valid (r_payload rec)) then Inl CheckViolation
      else if list_ex (\<lambda>x. jr_id x \<noteq> r_id rec \<and> jr_idempotency_key x = r_key rec) (db_jobs db)
        then Inl UniqueViolation
      else Inr (db\<lparr>db_jobs := upsert jr_id (row_of_job rec) (db_jobs db)\<rparr>))"

definition GetJob :: "string \<Rightarrow> job_db \<Rightarrow> store_error + job_record" where
  "GetJob jid db =
     (case filter (\<lambda>x. jr_id x = jid) (db_jobs db) of
        [] \<Rightarrow> Inl ErrNotFound | row # _ \<Rightarrow> Inr (job_of_row row))"

definition DefaultListLimit :: nat where
  "DefaultListLimit = 1000"

definition recency :: "job_row \<Rightarrow> int \<times> string" where
  "recency x = (jr_created_at_unix x, jr_id x)"

definition ListJobs :: "job_db \<Rightarrow> job_record list" where
  "ListJobs db = map job_of_row (take DefaultListLimit (sort_key recency (db_jobs db)))"

record list_jobs_cursor =
  c_limit :: int
  c_afterCreatedAt :: gotime
  c_afterID :: string

definition NormalizeCursorLimit :: "int \<Rightarrow> int" where
  "NormalizeCursorLimit limit = (if limit \<le> 0 then 100 else if limit > 500 then 500 else limit)"

definition no_cursor :: list_jobs_cursor where
  "no_cursor = \<lparr>c_limit = 0, c_afterCreatedAt = 0, c_afterID = []\<rparr>"

definition ListJobsCursor ::
    "list_jobs_cursor \<Rightarrow> job_db \<Rightarrow> job_record list \<times> list_jobs_cursor" where
  "ListJobsCursor params db =
     (let limit = nat (NormalizeCursorLimit (c_limit params));
          sel = (if c_afterID params = [] \<and> is_zero_time (c_afterCreatedAt params)
                 then db_jobs db
                 else filter (\<lambda>x. recency x < (toUnix (c_afterCreatedAt params), c_afterID params))
                        (db_jobs db));
          result = map job_of_row (take (limit + 1) (rev (sort_key recency sel)))
      in if length result > limit
         then let page = take limit result; row = last page
              in (page, \<lparr>c_limit = int limit, c_afterCreatedAt = r_createdAt row,
                         c_afterID = r_id row\<rparr>)
         else (result, no_cursor))"

definition target_key :: "target_row \<Rightarrow> string \<times> string" where
  "target_key x = (tg_job_id x, tg_agent_id x)"

definition PutJobTarget :: "job_target_record \<Rightarrow> job_db \<Rightarrow> store_error + job_db" where
  "PutJobTarget rec db =
     (if tr_status rec \<notin> set target_status_check then Inl CheckViolation
      else if \<not> list_ex (\<lambda>x. jr_id x = tr_jobID rec) (db_jobs db) then Inl ForeignKeyViolation
      else Inr (db\<lparr>db_targets := upsert target_key (row_of_target rec) (db_targets db)\<rparr>))"

definition ListJobTargets :: "string \<Rightarrow> job_db \<Rightarrow> job_target_record list" where
  "ListJobTargets jid db =
     map target_of_row (sort_key tg_agent_id (filter (\<lambda>x. tg_job_id x = jid) (db_targets db)))"

definition ListAllJobTargets :: "job_db \<Rightarrow> job_target_record list" where
  "ListAllJobTargets db = map target_of_row (sort_key target_key (db_targets db))"

definition prunable :: "gotime \<Rightarrow> job_row \<Rightarrow> bool" where
  "prunable before x \<longleftrightarrow>
     jr_status x \<in> {''succeeded'', ''failed'', ''expired''} \<and> jr_created_at_unix x < toUnix before"

definition PruneTerminalJobs :: "gotime \<Rightarrow> job_db \<Rightarrow> store_error + (nat \<times> job_db)" where
  "PruneTerminalJobs before db =
     (let doomed = filter (prunable before) (db_jobs db)
      in if list_ex (\<lambda>x. list_ex (\<lambda>t. tg_job_id t = jr_id x) (db_targets db)) doomed
         then Inl ForeignKeyViolation
         else Inr (length doomed,
                   db\<lparr>db_jobs := filter (\<lambda>x. \<not> prunable before x) (db_jobs db)\<rparr>))"

subsection \<open>The schema's keys as an invariant\<close>

definition db_inv :: "job_db \<Rightarrow> bool" where
  "db_inv db \<longleftrightarrow>
     distinct (map jr_id (db_jobs db)) \<and>
     distinct (map jr_idempotency_key (db_jobs db)) \<and>
     distinct (map target_key (db_targets db)) \<and>
     (\<forall>t \<in> set (db_targets db). tg_job_id t \<in> jr_id ` set (db_jobs db))"

lemma set_upsert:
  "distinct (map key xs) \<Longrightarrow> set (upsert key r xs) = insert r {x \<in> set xs. key x \<noteq> key r}"
  by (induction xs) (auto split: if_splits intro: rev_image_eqI)

lemma keys_upsert: "key ` set (upsert key r xs) = insert (key r) (key ` set xs)"
  by (induction xs) auto

lemma distinct_upsert:
  "distinct (map key xs) \<Longrightarrow> distinct (map key (upsert key r xs))"
proof (induction xs)
  case Nil
  then show ?case by simp
next
  case (Cons x xs)
  then show ?case
    using keys_upsert [of key r xs] by (auto simp: image_iff)
qed

lemma row_of_job_sel [simp]:
  "jr_id (row_of_job rec) = r_id rec" "jr_idempotency_key (row_of_job rec) = r_key rec"
  "jr_status (row_of_job rec) = r_status rec"
  by (simp_all add: row_of_job_def)

lemma row_of_target_sel [simp]:
  "tg_job_id (row_of_target rec) = tr_jobID rec" "tg_agent_id (row_of_target rec) = tr_agentID rec"
  by (simp_all add: row_of_target_def)

lemma PutJob_inv:
  assumes inv: "db_inv db" and ok: "PutJob jv rec db = Inr db'"
  shows "db_inv db'"
proof -
  let ?r = "row_of_job rec"
  have uniq: "\<And>x. x \<in> set (db_jobs db) \<Longrightarrow> jr_id x \<noteq> r_id rec \<Longrightarrow> jr_idempotency_key x \<noteq> r_key rec"
    and db': "db' = db\<lparr>db_jobs := upsert jr_id ?r (db_jobs db)\<rparr>"
    using ok by (auto simp: PutJob_def list_ex_iff split: if_splits)
  have ids: "distinct (map jr_id (upsert jr_id ?r (db_jobs db)))"
    using inv by (intro distinct_upsert) (simp add: db_inv_def)
  have "set (upsert jr_id ?r (db_jobs db)) = insert ?r {x \<in> set (db_jobs db). jr_id x \<noteq> jr_id ?r}"
    using inv by (intro set_upsert) (simp add: db_inv_def)
  then have "inj_on jr_idempotency_key (set (upsert jr_id ?r (db_jobs db)))"
    using inv uniq by (auto simp: db_inv_def distinct_map inj_on_def dest: sym)
  with ids have "distinct (map jr_idempotency_key (upsert jr_id ?r (db_jobs db)))"
    by (simp add: distinct_map)
  with ids inv show ?thesis
    unfolding db' db_inv_def by (auto simp: keys_upsert)
qed

lemma PutJobTarget_inv:
  assumes inv: "db_inv db" and ok: "PutJobTarget rec db = Inr db'"
  shows "db_inv db'"
proof -
  have fk: "tr_jobID rec \<in> jr_id ` set (db_jobs db)"
    and db': "db' = db\<lparr>db_targets := upsert target_key (row_of_target rec) (db_targets db)\<rparr>"
    using ok by (auto simp: PutJobTarget_def list_ex_iff split: if_splits intro: rev_image_eqI)
  have "distinct (map target_key (upsert target_key (row_of_target rec) (db_targets db)))"
    using inv by (intro distinct_upsert) (simp add: db_inv_def)
  moreover have "set (upsert target_key (row_of_target rec) (db_targets db))
      \<subseteq> insert (row_of_target rec) (set (db_targets db))"
    using inv by (subst set_upsert) (auto simp: db_inv_def)
  ultimately show ?thesis
    using inv fk unfolding db' db_inv_def by fastforce
qed

lemma PruneTerminalJobs_Inr:
  assumes "PruneTerminalJobs before db = Inr (n, db')"
  shows "db' = db\<lparr>db_jobs := filter (\<lambda>x. \<not> prunable before x) (db_jobs db)\<rparr>"
    and "n = length (filter (prunable before) (db_jobs db))"
    and "\<And>x t. x \<in> set (db_jobs db) \<Longrightarrow> prunable before x \<Longrightarrow> t \<in> set (db_targets db) \<Longrightarrow>
           tg_job_id t \<noteq> jr_id x"
  using assms by (auto simp: PruneTerminalJobs_def Let_def list_ex_iff split: if_splits)

lemma PruneTerminalJobs_inv:
  assumes inv: "db_inv db" and ok: "PruneTerminalJobs before db = Inr (n, db')"
  shows "db_inv db'"
proof -
  have "tg_job_id t \<in> jr_id ` {x \<in> set (db_jobs db). \<not> prunable before x}"
    if "t \<in> set (db_targets db)" for t
  proof -
    from that inv obtain x where "x \<in> set (db_jobs db)" and "tg_job_id t = jr_id x"
      by (auto simp: db_inv_def)
    with that PruneTerminalJobs_Inr(3) [OF ok] show ?thesis by blast
  qed
  then show ?thesis
    using inv unfolding PruneTerminalJobs_Inr(1) [OF ok] db_inv_def
    by (auto simp: distinct_map intro: inj_on_subset)
qed

subsection \<open>Reading back what was written\<close>

text \<open>The precision of a stored instant: whole seconds.\<close>

definition stored_time :: "gotime \<Rightarrow> gotime" where
  "stored_time t = fromUnix (toUnix t)"

definition stored_job :: "job_record \<Rightarrow> job_record" where
  "stored_job rec = rec\<lparr>r_createdAt := stored_time (r_createdAt rec)\<rparr>"

definition stored_target :: "job_target_record \<Rightarrow> job_target_record" where
  "stored_target rec = rec\<lparr>tr_updatedAt := stored_time (tr_updatedAt rec)\<rparr>"

lemma stored_time_eq: "stored_time t = t - t mod second_ns"
  by (simp add: stored_time_def fromUnix_def toUnix_def minus_mod_eq_div_mult)

lemma job_of_row_of_job [simp]: "job_of_row (row_of_job rec) = stored_job rec"
  by (simp add: job_of_row_def row_of_job_def stored_job_def stored_time_def)

lemma target_of_row_of_target [simp]: "target_of_row (row_of_target rec) = stored_target rec"
  by (simp add: target_of_row_def row_of_target_def stored_target_def stored_time_def)

lemma filter_key_upsert:
  "distinct (map key xs) \<Longrightarrow>
   filter (\<lambda>x. key x = k) (upsert key r xs) =
     (if key r = k then [r] else filter (\<lambda>x. key x = k) xs)"
proof (induction xs)
  case Nil
  then show ?case by simp
next
  case (Cons x xs)
  have "key x \<notin> key ` set xs" using Cons.prems by simp
  then have "key r = key x \<Longrightarrow> filter (\<lambda>y. key y = key x) xs = []"
    by (auto simp: filter_empty_conv image_iff)
  with Cons show ?case by auto
qed

lemma GetJob_PutJob:
  assumes "db_inv db" and "PutJob jv rec db = Inr db'"
  shows "GetJob jid db' = (if jid = r_id rec then Inr (stored_job rec) else GetJob jid db)"
proof -
  have "distinct (map jr_id (db_jobs db))" using assms(1) by (simp add: db_inv_def)
  moreover have "db_jobs db' = upsert jr_id (row_of_job rec) (db_jobs db)"
    using assms(2) by (auto simp: PutJob_def split: if_splits)
  ultimately show ?thesis
    by (auto simp: GetJob_def filter_key_upsert)
qed

lemma GetJob_PutJobTarget: "PutJobTarget rec db = Inr db' \<Longrightarrow> GetJob jid db' = GetJob jid db"
  by (auto simp: PutJobTarget_def GetJob_def split: if_splits)

lemma set_ListJobTargets:
  "set (ListJobTargets jid db) = target_of_row ` {x \<in> set (db_targets db). tg_job_id x = jid}"
  by (simp add: ListJobTargets_def)

lemma set_ListJobTargets_PutJobTarget:
  assumes "db_inv db" and "PutJobTarget rec db = Inr db'"
  shows "set (ListJobTargets jid db') =
    (if jid = tr_jobID rec
     then insert (stored_target rec) {t \<in> set (ListJobTargets jid db). tr_agentID t \<noteq> tr_agentID rec}
     else set (ListJobTargets jid db))"
proof -
  have "distinct (map target_key (db_targets db))" using assms(1) by (simp add: db_inv_def)
  then have "set (upsert target_key (row_of_target rec) (db_targets db)) =
      insert (row_of_target rec) {x \<in> set (db_targets db). target_key x \<noteq> target_key (row_of_target rec)}"
    by (rule set_upsert)
  moreover have "db_targets db' = upsert target_key (row_of_target rec) (db_targets db)"
    using assms(2) by (auto simp: PutJobTarget_def split: if_splits)
  ultimately have rows: "{x \<in> set (db_targets db'). tg_job_id x = jid} =
      (if jid = tr_jobID rec
       then insert (row_of_target rec)
         {x \<in> set (db_targets db). tg_job_id x = jid \<and> tg_agent_id x \<noteq> tr_agentID rec}
       else {x \<in> set (db_targets db). tg_job_id x = jid})"
    by (auto simp: target_key_def)
  have "target_of_row ` {x \<in> set (db_targets db). tg_job_id x = jid \<and> tg_agent_id x \<noteq> tr_agentID rec}
      = {t \<in> target_of_row ` {x \<in> set (db_targets db). tg_job_id x = jid}. tr_agentID t \<noteq> tr_agentID rec}"
    by (auto simp: target_of_row_def)
  then show ?thesis
    unfolding set_ListJobTargets rows by (cases "jid = tr_jobID rec") simp_all
qed

lemma ListJobTargets_PutJob:
  "PutJob jv rec db = Inr db' \<Longrightarrow> ListJobTargets jid db' = ListJobTargets jid db"
  by (auto simp: PutJob_def ListJobTargets_def split: if_splits)

end
