(* ===== verification/Job_Service.thy ===== *)
theory Job_Service
  imports Job_Store
begin

section \<open>The job service (internal/controlplane/jobs/service.go)\<close>

text \<open>
  The in-memory job queue of the control plane. The state is the \<^verbatim>\<open>Service\<close> struct: the
  resident jobs, the per-agent dispatch index, the idempotency keys with the instants at
  which their jobs became terminal, the version counters and the expiry watermark. Each
  critical section of the code is one function on this state; \<^verbatim>\<open>Enqueue\<close>, which drops the lock
  around its database write, is the three functions \<open>enqueue_reserve\<close>, \<open>enqueue_rollback\<close>
  and \<open>enqueue_finalize\<close>.

  A loop over a Go map takes the visiting order as its first argument. Mutations through a
  slice that aliases the stored job are always followed by the commit of that same job, so
  the model updates the job value and commits it.
\<close>

subsection \<open>State\<close>

record persist_candidate =
  pc_jobID :: string
  pc_version :: uint64
  pc_job :: job

record expired_target =
  et_job :: job
  et_agentID :: string

record service =
  sv_sequence :: uint64
  sv_updateSeq :: uint64
  sv_jobs :: "string \<rightharpoonup> job"
  sv_agentJobs :: "string \<rightharpoonup> string set"
  sv_keys :: "string \<rightharpoonup> string"
  sv_keyTerminalAt :: "string \<rightharpoonup> gotime"
  sv_jobVersion :: "string \<rightharpoonup> uint64"
  sv_nextExpiryAt :: gotime
  sv_hasStore :: bool
  sv_supersedeKey :: "(action \<Rightarrow> string \<Rightarrow> string) option"
  sv_hookSet :: bool
  sv_hookCalls :: "expired_target list list"
  sv_failedMetric :: nat

definition NewService :: service where
  "NewService =
     \<lparr>sv_sequence = 0, sv_updateSeq = 0, sv_jobs = Map.empty, sv_agentJobs = Map.empty,
      sv_keys = Map.empty, sv_keyTerminalAt = Map.empty, sv_jobVersion = Map.empty,
      sv_nextExpiryAt = 0, sv_hasStore = False, sv_supersedeKey = None, sv_hookSet = False,
      sv_hookCalls = [], sv_failedMetric = 0\<rparr>"

definition SetSupersedeKeyFunc :: "(action \<Rightarrow> string \<Rightarrow> string) option \<Rightarrow> service \<Rightarrow> service" where
  "SetSupersedeKeyFunc fn s = s\<lparr>sv_supersedeKey := fn\<rparr>"

definition SetExpiryHook :: "bool \<Rightarrow> service \<Rightarrow> service" where
  "SetExpiryHook hook s = s\<lparr>sv_hookSet := hook\<rparr>"

definition invokeExpiryHook :: "expired_target list \<Rightarrow> service \<Rightarrow> service" where
  "invokeExpiryHook expired s =
     (if expired = [] then s
      else if sv_hookSet s then s\<lparr>sv_hookCalls := sv_hookCalls s @ [expired]\<rparr> else s)"

definition supersedeKeyLocked :: "service \<Rightarrow> action \<Rightarrow> string \<Rightarrow> string" where
  "supersedeKeyLocked s a payload =
     (case sv_supersedeKey s of None \<Rightarrow> [] | Some f \<Rightarrow> f a payload)"

subsection \<open>Idempotency-key bookkeeping\<close>

definition markKeyTerminalLocked :: "string \<Rightarrow> gotime \<Rightarrow> service \<Rightarrow> service" where
  "markKeyTerminalLocked key now s =
     (if key = [] then s
      else case sv_keys s key of
        None \<Rightarrow> s
      | Some _ \<Rightarrow> s\<lparr>sv_keyTerminalAt := (sv_keyTerminalAt s)(key \<mapsto> now)\<rparr>)"

definition clearKeyTerminalLocked :: "string \<Rightarrow> service \<Rightarrow> service" where
  "clearKeyTerminalLocked key s =
     (if key = [] then s
      else s\<lparr>sv_keyTerminalAt := (sv_keyTerminalAt s)(key := None)\<rparr>)"

definition evict_key :: "string \<Rightarrow> service \<Rightarrow> service" where
  "evict_key key s =
     (let jobID = map_get [] (sv_keys s) key;
          s1 = s\<lparr>sv_keys := (sv_keys s)(key := None),
                 sv_keyTerminalAt := (sv_keyTerminalAt s)(key := None)\<rparr>
      in if jobID \<noteq> []
         then s1\<lparr>sv_jobs := (sv_jobs s1)(jobID := None),
                  sv_jobVersion := (sv_jobVersion s1)(jobID := None)\<rparr>
         else s1)"

definition prune_step :: "gotime \<Rightarrow> string \<Rightarrow> nat \<times> service \<Rightarrow> nat \<times> service" where
  "prune_step cutoff key ns =
     (let (n, s) = ns in
      case sv_keyTerminalAt s key of
        None \<Rightarrow> (n, s)
      | Some terminalAt \<Rightarrow> if terminalAt > cutoff then (n, s) else (Suc n, evict_key key s))"

definition PruneKeys :: "string list \<Rightarrow> duration \<Rightarrow> gotime \<Rightarrow> service \<Rightarrow> nat \<times> service" where
  "PruneKeys order olderThan now s =
     (if olderThan \<le> 0 then (0, s) else fold (prune_step (now - olderThan)) order (0, s))"

definition QueueDepth :: "string list \<Rightarrow> service \<Rightarrow> nat" where
  "QueueDepth order s =
     fold (\<lambda>k n. case sv_jobs s k of
             None \<Rightarrow> n
           | Some j \<Rightarrow> if is_live (j_status j) then Suc n else n) order 0"

subsection \<open>The dispatch index\<close>

definition sync_target :: "string \<Rightarrow> job_target \<Rightarrow> service \<Rightarrow> service" where
  "sync_target jid t s =
     (if t_agentID t = [] then s
      else if is_active (t_status t)
        then s\<lparr>sv_agentJobs :=
                 (sv_agentJobs s)(t_agentID t \<mapsto> insert jid (map_get {} (sv_agentJobs s) (t_agentID t)))\<rparr>
      else case sv_agentJobs s (t_agentID t) of
          None \<Rightarrow> s
        | Some js \<Rightarrow>
            let js' = js - {jid}
            in s\<lparr>sv_agentJobs :=
                   (sv_agentJobs s)(t_agentID t := (if js' = {} then None else Some js'))\<rparr>)"

definition syncJobTargetsIndexLocked :: "job \<Rightarrow> service \<Rightarrow> service" where
  "syncJobTargetsIndexLocked job s = fold (sync_target (j_id job)) (j_targets job) s"

subsection \<open>The expiry watermark\<close>

definition noteJobExpiryLocked :: "job \<Rightarrow> service \<Rightarrow> service" where
  "noteJobExpiryLocked job s =
     (if j_ttl job \<le> 0 then s
      else if \<not> is_live (j_status job) then s
      else let expiresAt = j_createdAt job + j_ttl job
           in if is_zero_time (sv_nextExpiryAt s) \<or> expiresAt < sv_nextExpiryAt s
              then s\<lparr>sv_nextExpiryAt := expiresAt\<rparr> else s)"

definition anyJobNeedsExpiryLocked :: "gotime \<Rightarrow> service \<Rightarrow> bool" where
  "anyJobNeedsExpiryLocked now s \<longleftrightarrow>
     \<not> is_zero_time (sv_nextExpiryAt s) \<and> now > sv_nextExpiryAt s"

definition next_expiry_step :: "service \<Rightarrow> string \<Rightarrow> gotime \<Rightarrow> gotime" where
  "next_expiry_step s k acc =
     (case sv_jobs s k of
        None \<Rightarrow> acc
      | Some job \<Rightarrow>
          if j_ttl job \<le> 0 then acc
          else if \<not> is_live (j_status job) then acc
          else let expiresAt = j_createdAt job + j_ttl job
               in if is_zero_time acc \<or> expiresAt < acc then expiresAt else acc)"

definition recomputeNextExpiryLocked :: "string list \<Rightarrow> service \<Rightarrow> service" where
  "recomputeNextExpiryLocked order s = s\<lparr>sv_nextExpiryAt := fold (next_expiry_step s) order 0\<rparr>"

subsection \<open>Committing a mutated job\<close>

record job_commit =
  forceStatus :: "status option"
  keepKeyOwner :: bool
  noteExpiry :: bool
  clearKeyTerminalOnNonTerminal :: bool

definition default_commit :: job_commit where
  "default_commit = \<lparr>forceStatus = None, keepKeyOwner = False, noteExpiry = False,
                     clearKeyTerminalOnNonTerminal = False\<rparr>"

definition commit_status :: "job_commit \<Rightarrow> job \<Rightarrow> status" where
  "commit_status opts job =
     (case forceStatus opts of Some st \<Rightarrow> st | None \<Rightarrow> deriveJobStatus (j_targets job))"

definition commitJobLocked ::
    "job \<Rightarrow> gotime \<Rightarrow> job_commit \<Rightarrow> service \<Rightarrow> persist_candidate option \<times> service" where
  "commitJobLocked job0 now opts s0 =
     (let prevStatus = j_status job0;
          job = job0\<lparr>j_status := commit_status opts job0\<rparr>;
          s1 = (if j_status job = StatusFailed \<and> prevStatus \<noteq> StatusFailed
                then s0\<lparr>sv_failedMetric := Suc (sv_failedMetric s0)\<rparr> else s0);
          s2 = s1\<lparr>sv_jobs := (sv_jobs s1)(j_id job \<mapsto> job)\<rparr>;
          s3 = syncJobTargetsIndexLocked job s2;
          s4 = (if keepKeyOwner opts then s3
                else s3\<lparr>sv_keys := (sv_keys s3)(j_key job \<mapsto> j_id job)\<rparr>);
          s5 = (if isTerminalStatus (j_status job) then markKeyTerminalLocked (j_key job) now s4
                else if clearKeyTerminalOnNonTerminal opts
                  then clearKeyTerminalLocked (j_key job) s4
                else s4);
          s6 = (if noteExpiry opts then noteJobExpiryLocked job s5 else s5)
      in if \<not> sv_hasStore s6 then (None, s6)
         else let v = sv_updateSeq s6 + 1;
                  s7 = s6\<lparr>sv_updateSeq := v,
                          sv_jobVersion := (sv_jobVersion s6)(j_id job \<mapsto> v)\<rparr>
              in (Some \<lparr>pc_jobID = j_id job, pc_version = v, pc_job = job\<rparr>, s7))"

definition add_candidate ::
    "persist_candidate option \<Rightarrow> persist_candidate list \<Rightarrow> persist_candidate list" where
  "add_candidate c cs = (case c of None \<Rightarrow> cs | Some x \<Rightarrow> cs @ [x])"

subsection \<open>Superseding older jobs\<close>

definition supersededByNewerLocked :: "service \<Rightarrow> string \<Rightarrow> job \<Rightarrow> job \<Rightarrow> string \<Rightarrow> bool" where
  "supersededByNewerLocked s jobID job newJob key =
     (if jobID = j_id newJob then False
      else if j_createdAt job > j_createdAt newJob then False
      else if j_createdAt job = j_createdAt newJob \<and> jobID > j_id newJob then False
      else if \<not> is_live (j_status job) then False
      else supersedeKeyLocked s (j_action job) (j_payload job) = key)"

definition expire_covered :: "string set \<Rightarrow> string \<Rightarrow> gotime \<Rightarrow> job_target \<Rightarrow> job_target" where
  "expire_covered newTargets supersederID now t =
     (if t_agentID t \<in> newTargets \<and> is_active (t_status t)
      then t\<lparr>t_status := TargetStatusExpired,
             t_resultText := ''superseded by '' @ supersederID, t_updatedAt := now\<rparr>
      else t)"

definition expireCoveredTargets ::
    "job_target list \<Rightarrow> string set \<Rightarrow> string \<Rightarrow> gotime \<Rightarrow> job_target list \<times> bool" where
  "expireCoveredTargets targets newTargets supersederID now =
     (map (expire_covered newTargets supersederID now) targets,
      list_ex (\<lambda>t. t_agentID t \<in> newTargets \<and> is_active (t_status t)) targets)"

definition targetAgentSet :: "job \<Rightarrow> string set" where
  "targetAgentSet job = set (j_targetAgentIDs job)"

definition supersede_step ::
    "job \<Rightarrow> string \<Rightarrow> gotime \<Rightarrow> string \<Rightarrow> persist_candidate list \<times> service
     \<Rightarrow> persist_candidate list \<times> service" where
  "supersede_step newJob key now jobID cs =
     (let (cands, s) = cs in
      case sv_jobs s jobID of
        None \<Rightarrow> (cands, s)
      | Some job \<Rightarrow>
          if \<not> supersededByNewerLocked s jobID job newJob key then (cands, s)
          else let (targets, changed) =
                     expireCoveredTargets (j_targets job) (targetAgentSet newJob) (j_id newJob) now
               in if \<not> changed then (cands, s)
                  else let (c, s') = commitJobLocked (job\<lparr>j_targets := targets\<rparr>) now
                                       (default_commit\<lparr>keepKeyOwner := True\<rparr>) s
                       in (add_candidate c cands, s'))"

definition supersedePendingJobsLocked ::
    "string list \<Rightarrow> job \<Rightarrow> gotime \<Rightarrow> service \<Rightarrow> persist_candidate list \<times> service" where
  "supersedePendingJobsLocked order newJob now s =
     (let key = supersedeKeyLocked s (j_action newJob) (j_payload newJob)
      in if key = [] then ([], s)
         else fold (supersede_step newJob key now) order ([], s))"

subsection \<open>Enqueue\<close>

datatype enqueue_error = ErrDuplicateIdempotencyKey | ErrReadOnlyTarget

definition job_id_of :: "uint64 \<Rightarrow> string" where
  "job_id_of n = ''job-'' @ pad_zero 12 (unat n)"

definition enqueue_key :: "create_job_input \<Rightarrow> string \<Rightarrow> string" where
  "enqueue_key input generated = (if in_key input = [] then generated else in_key input)"

definition new_job :: "create_job_input \<Rightarrow> string \<Rightarrow> string \<Rightarrow> gotime \<Rightarrow> job" where
  "new_job input key jobID now =
     \<lparr>j_id = jobID, j_action = in_action input, j_targetAgentIDs = in_targetAgentIDs input,
      j_targets = map (\<lambda>a. \<lparr>t_agentID = a, t_status = TargetStatusQueued, t_resultText = [],
                            t_resultJSON = [], t_updatedAt = now\<rparr>) (in_targetAgentIDs input),
      j_ttl = in_ttl input, j_key = key, j_actorID = in_actorID input,
      j_status = StatusQueued, j_createdAt = now, j_payload = in_payload input\<rparr>"

text \<open>
  Phase 1, under the lock. The generated key stands for the result of
  \<^verbatim>\<open>NewIdempotencyKey\<close>, which the code calls when the input has no key.
\<close>

definition enqueue_reserve ::
    "create_job_input \<Rightarrow> string \<Rightarrow> gotime \<Rightarrow> service \<Rightarrow> (enqueue_error + job) \<times> service" where
  "enqueue_reserve input generated now s =
     (let key = enqueue_key input generated
      in if sv_keys s key \<noteq> None then (Inl ErrDuplicateIdempotencyKey, s)
         else if isMutatingAction (in_action input) \<and>
                 list_ex (in_readOnlyAgents input) (in_targetAgentIDs input)
           then (Inl ErrReadOnlyTarget, s)
         else let n = sv_sequence s + 1;
                  job = new_job input key (job_id_of n) now
              in (Inr job, s\<lparr>sv_sequence := n, sv_keys := (sv_keys s)(key \<mapsto> [])\<rparr>))"

text \<open>Phase 3 when the write failed: the reservation is dropped.\<close>

definition enqueue_rollback :: "job \<Rightarrow> service \<Rightarrow> service" where
  "enqueue_rollback job s =
     (if sv_keys s (j_key job) = Some []
      then s\<lparr>sv_keys := (sv_keys s)(j_key job := None)\<rparr> else s)"

text \<open>Phase 3 when the write succeeded: publish, then supersede.\<close>

definition publish_job :: "job \<Rightarrow> service \<Rightarrow> service" where
  "publish_job job s =
     (let s1 = s\<lparr>sv_jobs := (sv_jobs s)(j_id job \<mapsto> job)\<rparr>;
          s2 = syncJobTargetsIndexLocked job s1;
          s3 = s2\<lparr>sv_keys := (sv_keys s2)(j_key job \<mapsto> j_id job)\<rparr>;
          s4 = s3\<lparr>sv_updateSeq := sv_updateSeq s3 + 1\<rparr>;
          s5 = s4\<lparr>sv_jobVersion := (sv_jobVersion s4)(j_id job \<mapsto> sv_updateSeq s4)\<rparr>
      in noteJobExpiryLocked job s5)"

definition enqueue_finalize ::
    "string list \<Rightarrow> job \<Rightarrow> gotime \<Rightarrow> service \<Rightarrow> persist_candidate list \<times> service" where
  "enqueue_finalize order job now s = supersedePendingJobsLocked order job now (publish_job job s)"

subsection \<open>Target updates\<close>

definition jobShouldExpire :: "job \<Rightarrow> gotime \<Rightarrow> bool" where
  "jobShouldExpire job now =
     (if j_ttl job \<le> 0 then False
      else if \<not> is_live (j_status job) then False
      else now > j_createdAt job + j_ttl job)"

definition expire_target :: "gotime \<Rightarrow> job_target \<Rightarrow> job_target" where
  "expire_target now t =
     (if is_final (t_status t) then t
      else t\<lparr>t_status := TargetStatusExpired, t_updatedAt := now\<rparr>)"

definition expireJobTargets :: "job \<Rightarrow> gotime \<Rightarrow> (job \<times> string list) option" where
  "expireJobTargets job now =
     (let hit = filter (\<lambda>t. \<not> is_final (t_status t)) (j_targets job);
          job' = job\<lparr>j_targets := map (expire_target now) (j_targets job)\<rparr>
      in if hit = [] \<and> j_status job = StatusExpired then None
         else Some (job'\<lparr>j_status := StatusExpired\<rparr>, map t_agentID hit))"

definition expireJobAndCollectCandidatesLocked ::
    "job \<Rightarrow> gotime \<Rightarrow> service
     \<Rightarrow> persist_candidate list \<times> expired_target list \<times> service" where
  "expireJobAndCollectCandidatesLocked job now s =
     (case expireJobTargets job now of
        None \<Rightarrow> ([], [], s)
      | Some (expired, agents) \<Rightarrow>
          let (c, s') = commitJobLocked expired now
                          (default_commit\<lparr>forceStatus := Some StatusExpired\<rparr>) s
          in (add_candidate c [], map (\<lambda>a. \<lparr>et_job = expired, et_agentID = a\<rparr>) agents, s'))"

text \<open>
  A target mutation is a partial function: \<open>None\<close> is the callback returning false, a no-op.
  The loop stops at the first target of the agent.
\<close>

type_synonym target_mutation = "job_target \<Rightarrow> job_target option"

fun mutate_targets ::
    "string \<Rightarrow> gotime \<Rightarrow> target_mutation \<Rightarrow> job_target list \<Rightarrow> job_target list option" where
  "mutate_targets agentID now f [] = None"
| "mutate_targets agentID now f (t # ts) =
     (if t_agentID t \<noteq> agentID then map_option ((#) t) (mutate_targets agentID now f ts)
      else case f t of
             None \<Rightarrow> None
           | Some t' \<Rightarrow> Some (t'\<lparr>t_updatedAt := now\<rparr> # ts))"

definition applyTargetMutationLocked ::
    "job \<Rightarrow> string \<Rightarrow> gotime \<Rightarrow> target_mutation \<Rightarrow> service
     \<Rightarrow> persist_candidate list \<times> bool \<times> service" where
  "applyTargetMutationLocked job agentID now f s =
     (case mutate_targets agentID now f (j_targets job) of
        None \<Rightarrow> ([], False, s)
      | Some targets \<Rightarrow>
          let (c, s') = commitJobLocked (job\<lparr>j_targets := targets\<rparr>) now
                (default_commit\<lparr>noteExpiry := True, clearKeyTerminalOnNonTerminal := True\<rparr>) s
          in (add_candidate c [], True, s'))"

definition updateTarget ::
    "string \<Rightarrow> string \<Rightarrow> target_mutation \<Rightarrow> gotime \<Rightarrow> service
     \<Rightarrow> persist_candidate list \<times> bool \<times> service" where
  "updateTarget agentID jobID f now s =
     (case sv_jobs s jobID of
        None \<Rightarrow> ([], False, s)
      | Some job \<Rightarrow>
          if jobShouldExpire job now
          then let (cs, expired, s') = expireJobAndCollectCandidatesLocked job now s
               in (cs, True, invokeExpiryHook expired s')
          else applyTargetMutationLocked job agentID now f s)"

definition mark_delivered_target :: target_mutation where
  "mark_delivered_target t =
     (if is_final (t_status t) then Some t
      else if t_status t = TargetStatusAcknowledged then Some t
      else Some (t\<lparr>t_status := TargetStatusSent\<rparr>))"

definition mark_acknowledged_target :: target_mutation where
  "mark_acknowledged_target t =
     (if is_final (t_status t) then Some t
      else if t_status t \<noteq> TargetStatusSent \<and> t_status t \<noteq> TargetStatusAcknowledged then Some t
      else Some (t\<lparr>t_status := TargetStatusAcknowledged\<rparr>))"

definition record_result_target :: "bool \<Rightarrow> string \<Rightarrow> string \<Rightarrow> target_mutation" where
  "record_result_target success message resultJSON t =
     (if t_status t = TargetStatusExpired then None
      else Some (t\<lparr>t_status := (if success then TargetStatusSucceeded else TargetStatusFailed),
                    t_resultText := message, t_resultJSON := resultJSON\<rparr>))"

definition MarkDelivered ::
    "string \<Rightarrow> string \<Rightarrow> gotime \<Rightarrow> service \<Rightarrow> persist_candidate list \<times> bool \<times> service" where
  "MarkDelivered agentID jobID now s = updateTarget agentID jobID mark_delivered_target now s"

definition MarkAcknowledged ::
    "string \<Rightarrow> string \<Rightarrow> gotime \<Rightarrow> service \<Rightarrow> persist_candidate list \<times> bool \<times> service" where
  "MarkAcknowledged agentID jobID now s = updateTarget agentID jobID mark_acknowledged_target now s"

definition RecordResult ::
    "string \<Rightarrow> string \<Rightarrow> bool \<Rightarrow> string \<Rightarrow> string \<Rightarrow> gotime \<Rightarrow> service
     \<Rightarrow> persist_candidate list \<times> bool \<times> service" where
  "RecordResult agentID jobID success message resultJSON now s =
     updateTarget agentID jobID (record_result_target success message resultJSON) now s"

subsection \<open>Sweeps\<close>

definition expire_acknowledged :: "gotime \<Rightarrow> gotime \<Rightarrow> job_target \<Rightarrow> job_target" where
  "expire_acknowledged cutoff now t =
     (if t_status t \<noteq> TargetStatusAcknowledged then t
      else if is_zero_time (t_updatedAt t) \<or> t_updatedAt t > cutoff then t
      else t\<lparr>t_status := TargetStatusExpired, t_updatedAt := now\<rparr>)"

definition expireAcknowledgedTargets :: "job \<Rightarrow> gotime \<Rightarrow> gotime \<Rightarrow> job \<times> nat" where
  "expireAcknowledgedTargets job cutoff now =
     (job\<lparr>j_targets := map (expire_acknowledged cutoff now) (j_targets job)\<rparr>,
      length (filter (\<lambda>t. t_status t = TargetStatusAcknowledged \<and>
                \<not> (is_zero_time (t_updatedAt t) \<or> t_updatedAt t > cutoff)) (j_targets job)))"

definition prune_ack_step ::
    "gotime \<Rightarrow> gotime \<Rightarrow> string \<Rightarrow> persist_candidate list \<times> nat \<times> service
     \<Rightarrow> persist_candidate list \<times> nat \<times> service" where
  "prune_ack_step cutoff now jobID cns =
     (let (cands, n, s) = cns in
      case sv_jobs s jobID of
        None \<Rightarrow> (cands, n, s)
      | Some job \<Rightarrow>
          let (job', k) = expireAcknowledgedTargets job cutoff now
          in if k = 0 then (cands, n, s)
             else let (c, s') = commitJobLocked job' now (default_commit\<lparr>noteExpiry := True\<rparr>) s
                  in (add_candidate c cands, n + k, s'))"

definition PruneAcknowledgedTargets ::
    "string list \<Rightarrow> duration \<Rightarrow> gotime \<Rightarrow> service \<Rightarrow> persist_candidate list \<times> nat \<times> service" where
  "PruneAcknowledgedTargets order olderThan now s =
     (if olderThan \<le> 0 then ([], 0, s)
      else fold (prune_ack_step (now - olderThan) now) order ([], 0, s))"

definition expire_step ::
    "gotime \<Rightarrow> string \<Rightarrow> persist_candidate list \<times> expired_target list \<times> service
     \<Rightarrow> persist_candidate list \<times> expired_target list \<times> service" where
  "expire_step now jobID ces =
     (let (cands, es, s) = ces in
      case sv_jobs s jobID of
        None \<Rightarrow> (cands, es, s)
      | Some job \<Rightarrow>
          if \<not> jobShouldExpire job now then (cands, es, s)
          else let (cs, es', s') = expireJobAndCollectCandidatesLocked job now s
               in (cands @ cs, es @ es', s'))"

definition expireJobsLocked ::
    "string list \<Rightarrow> gotime \<Rightarrow> service
     \<Rightarrow> persist_candidate list \<times> expired_target list \<times> service" where
  "expireJobsLocked order now s =
     (let (cands, es, s') = fold (expire_step now) order ([], [], s)
      in (cands, es, recomputeNextExpiryLocked order s'))"

subsection \<open>Restore\<close>

definition installRestoredJob :: "job \<Rightarrow> service \<Rightarrow> service" where
  "installRestoredJob job s =
     (let s1 = syncJobTargetsIndexLocked job (s\<lparr>sv_jobs := (sv_jobs s)(j_id job \<mapsto> job)\<rparr>);
          s2 = (if j_key job \<noteq> []
                then let s2a = s1\<lparr>sv_keys := (sv_keys s1)(j_key job \<mapsto> j_id job)\<rparr>
                     in if isTerminalStatus (j_status job)
                        then s2a\<lparr>sv_keyTerminalAt := (sv_keyTerminalAt s2a)(j_key job \<mapsto> j_createdAt job)\<rparr>
                        else s2a
                else s1);
          s3 = s2\<lparr>sv_sequence := MaxPrefixed (sv_sequence s2) ''job'' (j_id job)\<rparr>;
          s4 = s3\<lparr>sv_updateSeq := sv_updateSeq s3 + 1\<rparr>;
          s5 = s4\<lparr>sv_jobVersion := (sv_jobVersion s4)(j_id job \<mapsto> sv_updateSeq s4)\<rparr>
      in noteJobExpiryLocked job s5)"

definition restore :: "job_record list \<Rightarrow> job_target_record list \<Rightarrow> service \<Rightarrow> service" where
  "restore jobsFromStore allTargets s =
     fold (\<lambda>rec. installRestoredJob
             (buildJobWithTargets rec (filter (\<lambda>t. tr_jobID t = r_id rec) allTargets)))
       jobsFromStore s"

definition NewServiceWithStore :: "job_db \<Rightarrow> service" where
  "NewServiceWithStore db =
     restore (ListJobs db) (ListAllJobTargets db) (NewService\<lparr>sv_hasStore := True\<rparr>)"

end
