(* ===== verification/Job_Invariant.thy ===== *)
theory Job_Invariant
  imports Job_Service
begin

section \<open>The invariant of the job service\<close>

text \<open>
  What the maps of the service keep true of each other, and that every critical section
  preserves it. The invariant says, of every resident job: it is filed under its own
  identifier, which the sequence counter already covers; its status is the roll-up of its
  targets, or it is expired with no target left to run; its idempotency key points back to
  it, and the key carries a terminal instant exactly when the job is terminal; every active
  target is in the dispatch index; and the expiry watermark is not later than its deadline.
\<close>

subsection \<open>Definition\<close>

definition indexed :: "service \<Rightarrow> string \<Rightarrow> string set" where
  "indexed s a = map_get {} (sv_agentJobs s) a"

definition status_ok :: "job \<Rightarrow> bool" where
  "status_ok j \<longleftrightarrow> j_status j = deriveJobStatus (j_targets j) \<or>
     (j_status j = StatusExpired \<and> (\<forall>t \<in> set (j_targets j). is_final (t_status t)))"

definition job_ok :: "service \<Rightarrow> string \<Rightarrow> job \<Rightarrow> bool" where
  "job_ok s jid j \<longleftrightarrow>
     j_id j = jid \<and> jid \<noteq> [] \<and> 0 < j_createdAt j \<and>
     distinct (map t_agentID (j_targets j)) \<and>
     j_targetAgentIDs j = map t_agentID (j_targets j) \<and> status_ok j \<and>
     MaxPrefixed (sv_sequence s) ''job'' jid = sv_sequence s"

definition key_ok :: "service \<Rightarrow> string \<Rightarrow> job \<Rightarrow> bool" where
  "key_ok s jid j \<longleftrightarrow>
     (j_key j \<noteq> [] \<longrightarrow> sv_keys s (j_key j) = Some jid \<and>
        (sv_keyTerminalAt s (j_key j) \<noteq> None \<longleftrightarrow> isTerminalStatus (j_status j)))"

definition index_ok :: "service \<Rightarrow> string \<Rightarrow> job \<Rightarrow> bool" where
  "index_ok s jid j \<longleftrightarrow>
     (\<forall>t \<in> set (j_targets j). is_active (t_status t) \<longrightarrow> t_agentID t \<noteq> [] \<longrightarrow>
        jid \<in> indexed s (t_agentID t))"

definition watermark_ok :: "service \<Rightarrow> job \<Rightarrow> bool" where
  "watermark_ok s j \<longleftrightarrow>
     (is_live (j_status j) \<longrightarrow> 0 < j_ttl j \<longrightarrow>
        sv_nextExpiryAt s \<noteq> 0 \<and> sv_nextExpiryAt s \<le> j_createdAt j + j_ttl j)"

definition keys_owned :: "service \<Rightarrow> bool" where
  "keys_owned s \<longleftrightarrow>
     (\<forall>k jid. sv_keys s k = Some jid \<longrightarrow> jid \<noteq> [] \<longrightarrow> k \<noteq> [] \<longrightarrow>
        (\<exists>j. sv_jobs s jid = Some j \<and> j_key j = k))"

definition terminal_keys_owned :: "service \<Rightarrow> bool" where
  "terminal_keys_owned s \<longleftrightarrow>
     (\<forall>k. sv_keyTerminalAt s k \<noteq> None \<longrightarrow>
        k \<noteq> [] \<and> (\<exists>jid. jid \<noteq> [] \<and> sv_keys s k = Some jid))"

definition job_inv :: "service \<Rightarrow> string \<Rightarrow> job \<Rightarrow> bool" where
  "job_inv s jid j \<longleftrightarrow> job_ok s jid j \<and> key_ok s jid j \<and> index_ok s jid j \<and> watermark_ok s j"

definition service_inv :: "service \<Rightarrow> bool" where
  "service_inv s \<longleftrightarrow>
     (\<forall>jid j. sv_jobs s jid = Some j \<longrightarrow> job_inv s jid j) \<and>
     keys_owned s \<and> terminal_keys_owned s"

lemma service_invD:
  assumes "service_inv s" and "sv_jobs s jid = Some j"
  shows "job_ok s jid j" "key_ok s jid j" "index_ok s jid j" "watermark_ok s j"
  using assms by (auto simp: service_inv_def job_inv_def)

lemma service_inv_keys: "service_inv s \<Longrightarrow> keys_owned s"
  and service_inv_terminal: "service_inv s \<Longrightarrow> terminal_keys_owned s"
  by (simp_all add: service_inv_def)

lemma NewService_inv [inv_intros]: "service_inv NewService"
  by (simp add: service_inv_def NewService_def keys_owned_def terminal_keys_owned_def)

lemma status_ok_terminal_final:
  assumes "status_ok j" and "isTerminalStatus (j_status j)" and "t \<in> set (j_targets j)"
  shows "is_final (t_status t)"
  using assms derive_terminal_iff [of "j_targets j"] by (auto simp: status_ok_def)

lemma status_ok_live_iff: "status_ok j \<Longrightarrow> is_live (j_status j) \<longleftrightarrow> \<not> isTerminalStatus (j_status j)"
  by (auto simp: status_ok_def derive_live_or_terminal) (simp_all add: is_live_def)

subsection \<open>What each helper leaves unchanged\<close>

lemma sync_target_frame [frame_simps]:
  "sv_jobs (sync_target jid t s) = sv_jobs s"
  "sv_keys (sync_target jid t s) = sv_keys s"
  "sv_keyTerminalAt (sync_target jid t s) = sv_keyTerminalAt s"
  "sv_sequence (sync_target jid t s) = sv_sequence s"
  "sv_updateSeq (sync_target jid t s) = sv_updateSeq s"
  "sv_jobVersion (sync_target jid t s) = sv_jobVersion s"
  "sv_nextExpiryAt (sync_target jid t s) = sv_nextExpiryAt s"
  "sv_hasStore (sync_target jid t s) = sv_hasStore s"
  "sv_supersedeKey (sync_target jid t s) = sv_supersedeKey s"
  "sv_hookSet (sync_target jid t s) = sv_hookSet s"
  "sv_hookCalls (sync_target jid t s) = sv_hookCalls s"
  by (auto simp: sync_target_def Let_def split: option.splits)

lemma fold_sync_frame [frame_simps]:
  "sv_jobs (fold (sync_target jid) ts s) = sv_jobs s"
  "sv_keys (fold (sync_target jid) ts s) = sv_keys s"
  "sv_keyTerminalAt (fold (sync_target jid) ts s) = sv_keyTerminalAt s"
  "sv_sequence (fold (sync_target jid) ts s) = sv_sequence s"
  "sv_updateSeq (fold (sync_target jid) ts s) = sv_updateSeq s"
  "sv_jobVersion (fold (sync_target jid) ts s) = sv_jobVersion s"
  "sv_nextExpiryAt (fold (sync_target jid) ts s) = sv_nextExpiryAt s"
  "sv_hasStore (fold (sync_target jid) ts s) = sv_hasStore s"
  "sv_supersedeKey (fold (sync_target jid) ts s) = sv_supersedeKey s"
  "sv_hookSet (fold (sync_target jid) ts s) = sv_hookSet s"
  "sv_hookCalls (fold (sync_target jid) ts s) = sv_hookCalls s"
  by (induction ts arbitrary: s) (simp_all add: frame_simps)

lemma note_frame [frame_simps]:
  "sv_jobs (noteJobExpiryLocked j s) = sv_jobs s"
  "sv_keys (noteJobExpiryLocked j s) = sv_keys s"
  "sv_keyTerminalAt (noteJobExpiryLocked j s) = sv_keyTerminalAt s"
  "sv_sequence (noteJobExpiryLocked j s) = sv_sequence s"
  "sv_agentJobs (noteJobExpiryLocked j s) = sv_agentJobs s"
  "sv_updateSeq (noteJobExpiryLocked j s) = sv_updateSeq s"
  "sv_jobVersion (noteJobExpiryLocked j s) = sv_jobVersion s"
  "sv_hasStore (noteJobExpiryLocked j s) = sv_hasStore s"
  "sv_supersedeKey (noteJobExpiryLocked j s) = sv_supersedeKey s"
  by (simp_all add: noteJobExpiryLocked_def Let_def)

lemma mark_frame [frame_simps]:
  "sv_jobs (markKeyTerminalLocked k now s) = sv_jobs s"
  "sv_keys (markKeyTerminalLocked k now s) = sv_keys s"
  "sv_sequence (markKeyTerminalLocked k now s) = sv_sequence s"
  "sv_agentJobs (markKeyTerminalLocked k now s) = sv_agentJobs s"
  "sv_nextExpiryAt (markKeyTerminalLocked k now s) = sv_nextExpiryAt s"
  "sv_updateSeq (markKeyTerminalLocked k now s) = sv_updateSeq s"
  "sv_jobVersion (markKeyTerminalLocked k now s) = sv_jobVersion s"
  "sv_hasStore (markKeyTerminalLocked k now s) = sv_hasStore s"
  "sv_supersedeKey (markKeyTerminalLocked k now s) = sv_supersedeKey s"
  by (auto simp: markKeyTerminalLocked_def split: option.splits)

lemma clear_frame [frame_simps]:
  "sv_jobs (clearKeyTerminalLocked k s) = sv_jobs s"
  "sv_keys (clearKeyTerminalLocked k s) = sv_keys s"
  "sv_sequence (clearKeyTerminalLocked k s) = sv_sequence s"
  "sv_agentJobs (clearKeyTerminalLocked k s) = sv_agentJobs s"
  "sv_nextExpiryAt (clearKeyTerminalLocked k s) = sv_nextExpiryAt s"
  "sv_updateSeq (clearKeyTerminalLocked k s) = sv_updateSeq s"
  "sv_jobVersion (clearKeyTerminalLocked k s) = sv_jobVersion s"
  "sv_hasStore (clearKeyTerminalLocked k s) = sv_hasStore s"
  "sv_supersedeKey (clearKeyTerminalLocked k s) = sv_supersedeKey s"
  by (simp_all add: clearKeyTerminalLocked_def)

lemma hook_frame [frame_simps]:
  "sv_jobs (invokeExpiryHook es s) = sv_jobs s"
  "sv_keys (invokeExpiryHook es s) = sv_keys s"
  "sv_keyTerminalAt (invokeExpiryHook es s) = sv_keyTerminalAt s"
  "sv_sequence (invokeExpiryHook es s) = sv_sequence s"
  "sv_agentJobs (invokeExpiryHook es s) = sv_agentJobs s"
  "sv_nextExpiryAt (invokeExpiryHook es s) = sv_nextExpiryAt s"
  "sv_supersedeKey (invokeExpiryHook es s) = sv_supersedeKey s"
  by (simp_all add: invokeExpiryHook_def)

lemma indexed_cong: "sv_agentJobs s' = sv_agentJobs s \<Longrightarrow> indexed s' = indexed s"
  by (rule ext) (simp add: indexed_def)

text \<open>The invariant reads only these fields.\<close>

lemma service_inv_cong:
  assumes "service_inv s"
    and "sv_jobs s' = sv_jobs s" "sv_keys s' = sv_keys s" "sv_keyTerminalAt s' = sv_keyTerminalAt s"
      "sv_sequence s' = sv_sequence s" "sv_agentJobs s' = sv_agentJobs s"
      "sv_nextExpiryAt s' = sv_nextExpiryAt s"
  shows "service_inv s'"
  using assms indexed_cong [OF assms(6)]
  by (simp add: service_inv_def job_inv_def job_ok_def key_ok_def index_ok_def watermark_ok_def
      keys_owned_def terminal_keys_owned_def)

lemma invokeExpiryHook_inv [inv_intros]: "service_inv s \<Longrightarrow> service_inv (invokeExpiryHook es s)"
  by (erule service_inv_cong) (simp_all add: frame_simps)

subsection \<open>The dispatch index\<close>

lemma indexed_sync_target:
  "indexed (sync_target jid t s) a =
     (if t_agentID t = a \<and> a \<noteq> []
      then (if is_active (t_status t) then insert jid (indexed s a) else indexed s a - {jid})
      else indexed s a)"
  by (auto simp: sync_target_def indexed_def map_get_def Let_def split: option.splits if_splits)

lemma indexed_fold_sync_other:
  "x \<noteq> jid \<Longrightarrow> x \<in> indexed (fold (sync_target jid) ts s) a \<longleftrightarrow> x \<in> indexed s a"
  by (induction ts arbitrary: s) (auto simp: indexed_sync_target)

lemma indexed_fold_sync_absent:
  "a \<notin> t_agentID ` set ts \<Longrightarrow> indexed (fold (sync_target jid) ts s) a = indexed s a"
  by (induction ts arbitrary: s) (auto simp: indexed_sync_target)

lemma indexed_fold_sync_own:
  assumes "distinct (map t_agentID ts)" and "t \<in> set ts" and "t_agentID t \<noteq> []"
  shows "jid \<in> indexed (fold (sync_target jid) ts s) (t_agentID t) \<longleftrightarrow> is_active (t_status t)"
  using assms
proof (induction ts arbitrary: s)
  case Nil
  then show ?case by simp
next
  case (Cons u us)
  show ?case
  proof (cases "t = u")
    case True
    with Cons.prems have "t_agentID t \<notin> t_agentID ` set us" by simp
    with True Cons.prems(3) show ?thesis
      by (simp add: indexed_fold_sync_absent indexed_sync_target)
  next
    case False
    with Cons show ?thesis by simp
  qed
qed

lemma sync_index_ok:
  assumes "distinct (map t_agentID (j_targets j))"
  shows "index_ok (syncJobTargetsIndexLocked j s) (j_id j) j"
  using assms by (auto simp: index_ok_def syncJobTargetsIndexLocked_def indexed_fold_sync_own)

lemma sync_index_ok_other:
  assumes "index_ok s jid j" and "jid \<noteq> j_id j'"
  shows "index_ok (syncJobTargetsIndexLocked j' s) jid j"
  using assms by (auto simp: index_ok_def syncJobTargetsIndexLocked_def indexed_fold_sync_other)

lemma index_ok_cong: "sv_agentJobs s' = sv_agentJobs s \<Longrightarrow> index_ok s' jid j = index_ok s jid j"
  using indexed_cong [of s' s] by (simp add: index_ok_def)

subsection \<open>The watermark\<close>

lemma note_watermark:
  "sv_nextExpiryAt (noteJobExpiryLocked j s) =
     (if 0 < j_ttl j \<and> is_live (j_status j) \<and>
         (sv_nextExpiryAt s = 0 \<or> j_createdAt j + j_ttl j < sv_nextExpiryAt s)
      then j_createdAt j + j_ttl j else sv_nextExpiryAt s)"
  by (auto simp: noteJobExpiryLocked_def Let_def is_zero_time_def)

lemma note_watermark_own: "0 < j_createdAt j \<Longrightarrow> watermark_ok (noteJobExpiryLocked j s) j"
  by (auto simp: watermark_ok_def note_watermark)

lemma note_watermark_other:
  assumes "watermark_ok s j" and "0 < j_createdAt j'"
  shows "watermark_ok (noteJobExpiryLocked j' s) j"
  using assms by (auto simp: watermark_ok_def note_watermark)

lemma watermark_ok_cong:
  "sv_nextExpiryAt s' = sv_nextExpiryAt s \<Longrightarrow> watermark_ok s' j = watermark_ok s j"
  by (simp add: watermark_ok_def)

end
