(* ===== verification/Job_Preservation.thy ===== *)
theory Job_Preservation
  imports Job_Invariant
begin

section \<open>Every critical section keeps the invariant\<close>

text \<open>
  First the effect of \<^verbatim>\<open>commitJobLocked\<close> on each field and the one lemma through which every
  mutator keeps the invariant (\<open>commit_inv\<close>); then one preservation lemma per operation of
  the service, and the facts about single targets that the operations share.
\<close>

subsection \<open>The effect of a commit\<close>

lemma sync_target_agentJobs_cong:
  "sv_agentJobs s = sv_agentJobs r \<Longrightarrow> sv_agentJobs (sync_target jid t s) = sv_agentJobs (sync_target jid t r)"
  by (auto simp: sync_target_def Let_def split: option.splits)

lemma fold_sync_agentJobs_cong:
  "sv_agentJobs s = sv_agentJobs r \<Longrightarrow>
   sv_agentJobs (fold (sync_target jid) ts s) = sv_agentJobs (fold (sync_target jid) ts r)"
proof (induction ts arbitrary: s r)
  case Nil
  then show ?case by simp
next
  case (Cons t ts)
  then have "sv_agentJobs (sync_target jid t s) = sv_agentJobs (sync_target jid t r)"
    by (intro sync_target_agentJobs_cong)
  then have "sv_agentJobs (fold (sync_target jid) ts (sync_target jid t s)) =
      sv_agentJobs (fold (sync_target jid) ts (sync_target jid t r))"
    by (rule Cons.IH)
  then show ?case by simp
qed

abbreviation committed :: "job_commit \<Rightarrow> job \<Rightarrow> job" where
  "committed opts j \<equiv> j\<lparr>j_status := commit_status opts j\<rparr>"

lemma commit_fields:
  fixes job :: job and opts :: job_commit and now :: gotime and s :: service
  defines "s' \<equiv> snd (commitJobLocked job now opts s)"
  shows commit_jobs: "sv_jobs s' = (sv_jobs s)(j_id job \<mapsto> committed opts job)"
    and commit_keys: "sv_keys s' =
          (if keepKeyOwner opts then sv_keys s else (sv_keys s)(j_key job \<mapsto> j_id job))"
    and commit_sequence: "sv_sequence s' = sv_sequence s"
    and commit_supersedeKey: "sv_supersedeKey s' = sv_supersedeKey s"
    and commit_hasStore: "sv_hasStore s' = sv_hasStore s"
  by (simp_all add: s'_def commitJobLocked_def Let_def frame_simps syncJobTargetsIndexLocked_def)

lemma commit_agentJobs:
  "sv_agentJobs (snd (commitJobLocked job now opts s)) =
     sv_agentJobs (syncJobTargetsIndexLocked (committed opts job) s)"
  by (simp add: commitJobLocked_def Let_def frame_simps syncJobTargetsIndexLocked_def
      cong: if_cong) (auto intro!: fold_sync_agentJobs_cong)

lemma commit_keyTerminalAt:
  "sv_keyTerminalAt (snd (commitJobLocked job now opts s)) =
     (if j_key job = [] then sv_keyTerminalAt s
      else if isTerminalStatus (commit_status opts job)
        then (if keepKeyOwner opts \<and> sv_keys s (j_key job) = None then sv_keyTerminalAt s
              else (sv_keyTerminalAt s)(j_key job \<mapsto> now))
      else if clearKeyTerminalOnNonTerminal opts then (sv_keyTerminalAt s)(j_key job := None)
      else sv_keyTerminalAt s)"
  by (auto simp: commitJobLocked_def Let_def frame_simps syncJobTargetsIndexLocked_def
      markKeyTerminalLocked_def clearKeyTerminalLocked_def split: option.splits)

lemma commit_nextExpiryAt:
  "sv_nextExpiryAt (snd (commitJobLocked job now opts s)) =
     (if noteExpiry opts then sv_nextExpiryAt (noteJobExpiryLocked (committed opts job) s)
      else sv_nextExpiryAt s)"
  by (auto simp: commitJobLocked_def Let_def frame_simps syncJobTargetsIndexLocked_def note_watermark)

lemmas commit_effects = commit_fields commit_keyTerminalAt commit_nextExpiryAt

subsection \<open>One lemma for every mutator\<close>

text \<open>
  What a mutator may change of a job before it commits it: targets (not their agents) and
  the status. A status that stops being terminal must clear the key, a status that becomes
  live must note the deadline.
\<close>

definition mutation_ok :: "job \<Rightarrow> job \<Rightarrow> job_commit \<Rightarrow> bool" where
  "mutation_ok old job opts \<longleftrightarrow>
     j_id job = j_id old \<and> j_key job = j_key old \<and> j_createdAt job = j_createdAt old \<and>
     j_ttl job = j_ttl old \<and> j_targetAgentIDs job = j_targetAgentIDs old \<and>
     map t_agentID (j_targets job) = map t_agentID (j_targets old) \<and>
     status_ok (committed opts job) \<and>
     (\<not> isTerminalStatus (commit_status opts job) \<longrightarrow>
        clearKeyTerminalOnNonTerminal opts \<or> \<not> isTerminalStatus (j_status old)) \<and>
     (is_live (commit_status opts job) \<longrightarrow> noteExpiry opts \<or> is_live (j_status old))"

lemma commit_job_inv_own:
  assumes inv: "job_inv s (j_id old) old" and "mutation_ok old job opts"
  shows "job_inv (snd (commitJobLocked job now opts s)) (j_id old) (committed opts job)"
proof -
  let ?s = "snd (commitJobLocked job now opts s)" and ?j = "committed opts job"
  have dist: "distinct (map t_agentID (j_targets ?j))" and pos: "0 < j_createdAt ?j"
    using assms by (auto simp: job_inv_def job_ok_def mutation_ok_def)
  have "job_ok ?s (j_id old) ?j"
    using assms by (simp add: job_inv_def job_ok_def mutation_ok_def commit_effects)
  moreover have "key_ok ?s (j_id old) ?j"
    using assms by (auto simp: job_inv_def key_ok_def mutation_ok_def commit_effects)
  moreover have "index_ok ?s (j_id old) ?j"
    using sync_index_ok [OF dist, of s] assms(2)
    by (simp add: index_ok_cong [OF commit_agentJobs] mutation_ok_def)
  moreover have "watermark_ok ?s ?j"
    using assms note_watermark_own [OF pos, of s]
    by (auto simp: job_inv_def mutation_ok_def watermark_ok_def commit_nextExpiryAt)
  ultimately show ?thesis by (simp add: job_inv_def)
qed

lemma commit_job_inv_other:
  assumes inv: "service_inv s" and old: "sv_jobs s (j_id old) = Some old" and mut: "mutation_ok old job opts"
    and j: "sv_jobs s jid = Some j" and neq: "jid \<noteq> j_id old"
  shows "job_inv (snd (commitJobLocked job now opts s)) jid j"
proof -
  let ?s = "snd (commitJobLocked job now opts s)"
  have key: "j_key j = [] \<or> j_key j \<noteq> j_key job"
    using service_invD(2) [OF inv j] service_invD(2) [OF inv old] mut neq
    by (auto simp: key_ok_def mutation_ok_def)
  have pos: "0 < j_createdAt (committed opts job)"
    using service_invD(1) [OF inv old] mut by (simp add: job_ok_def mutation_ok_def)
  have "job_ok ?s jid j"
    using service_invD(1) [OF inv j] by (simp add: job_ok_def commit_effects)
  moreover have "key_ok ?s jid j"
    using service_invD(2) [OF inv j] key by (auto simp: key_ok_def commit_effects)
  moreover have "index_ok ?s jid j"
    using sync_index_ok_other [OF service_invD(3) [OF inv j], of "committed opts job"] mut neq
    by (simp add: index_ok_cong [OF commit_agentJobs] mutation_ok_def)
  moreover have "watermark_ok ?s j"
    using service_invD(4) [OF inv j] note_watermark_other [OF service_invD(4) [OF inv j] pos]
    by (simp add: watermark_ok_def commit_nextExpiryAt)
  ultimately show ?thesis by (simp add: job_inv_def)
qed

lemma commit_keys_owned:
  assumes "service_inv s" and old: "sv_jobs s (j_id old) = Some old" and mut: "mutation_ok old job opts"
  shows "keys_owned (snd (commitJobLocked job now opts s))"
  unfolding keys_owned_def
proof (intro allI impI)
  fix k jid
  assume k: "sv_keys (snd (commitJobLocked job now opts s)) k = Some jid" "jid \<noteq> []" "k \<noteq> []"
  have ids: "j_id job = j_id old" "j_key job = j_key old" using mut by (simp_all add: mutation_ok_def)
  show "\<exists>j. sv_jobs (snd (commitJobLocked job now opts s)) jid = Some j \<and> j_key j = k"
  proof (cases "sv_keys s k = Some jid")
    case True
    then obtain j where "sv_jobs s jid = Some j" "j_key j = k"
      using service_inv_keys [OF assms(1)] k(2,3) by (auto simp: keys_owned_def)
    with ids old show ?thesis by (cases "jid = j_id old") (auto simp: commit_jobs)
  next
    case False
    with k(1) ids have "k = j_key old" "jid = j_id old"
      by (auto simp: commit_keys split: if_splits)
    with ids show ?thesis by (simp add: commit_jobs)
  qed
qed

lemma commit_terminal_keys_owned:
  assumes "service_inv s" and "sv_jobs s (j_id old) = Some old" and "mutation_ok old job opts"
  shows "terminal_keys_owned (snd (commitJobLocked job now opts s))"
proof -
  have ids: "j_id job = j_id old" "j_key job = j_key old" "j_id old \<noteq> []"
    using assms(3) service_invD(1) [OF assms(1,2)] by (simp_all add: mutation_ok_def job_ok_def)
  have own: "j_key old \<noteq> [] \<Longrightarrow> sv_keys s (j_key old) = Some (j_id old)"
    using service_invD(2) [OF assms(1,2)] by (simp add: key_ok_def)
  show ?thesis
    using service_inv_terminal [OF assms(1)] ids own
    by (auto simp: terminal_keys_owned_def commit_keyTerminalAt commit_keys split: if_splits)
qed

lemma commit_inv [inv_intros]:
  assumes inv: "service_inv s" and old: "sv_jobs s (j_id old) = Some old" and mut: "mutation_ok old job opts"
  shows "service_inv (snd (commitJobLocked job now opts s))"
proof -
  have "job_inv s (j_id old) old" using inv old by (simp add: service_inv_def)
  then have "job_inv (snd (commitJobLocked job now opts s)) (j_id old) (committed opts job)"
    using mut by (rule commit_job_inv_own)
  moreover have "j_id job = j_id old" using mut by (simp add: mutation_ok_def)
  ultimately show ?thesis
    using commit_job_inv_other [OF inv old mut] commit_keys_owned [OF inv old mut]
      commit_terminal_keys_owned [OF inv old mut]
    by (auto simp: service_inv_def commit_jobs)
qed

subsection \<open>Reservations of enqueues in flight\<close>

text \<open>
  Between the first and the last phase of an enqueue the key is reserved with the empty job
  identifier and the job itself is known only to the enqueuing goroutine. \<open>queue_inv P s\<close>
  is the invariant of the service together with the jobs \<open>P\<close> that are being persisted.
\<close>

definition fresh_job :: "job \<Rightarrow> bool" where
  "fresh_job p \<longleftrightarrow>
     j_id p \<noteq> [] \<and> j_key p \<noteq> [] \<and> 0 < j_createdAt p \<and> j_status p = StatusQueued \<and>
     distinct (map t_agentID (j_targets p)) \<and> j_targetAgentIDs p = map t_agentID (j_targets p) \<and>
     (\<forall>t \<in> set (j_targets p). t_status t = TargetStatusQueued)"

definition reserved :: "service \<Rightarrow> job \<Rightarrow> bool" where
  "reserved s p \<longleftrightarrow>
     fresh_job p \<and> sv_keys s (j_key p) = Some [] \<and> sv_jobs s (j_id p) = None \<and>
     MaxPrefixed (sv_sequence s) ''job'' (j_id p) = sv_sequence s"

definition queue_inv :: "job list \<Rightarrow> service \<Rightarrow> bool" where
  "queue_inv P s \<longleftrightarrow>
     service_inv s \<and> distinct (map j_key P) \<and> distinct (map j_id P) \<and> (\<forall>p \<in> set P. reserved s p)"

lemma queue_invD: "queue_inv P s \<Longrightarrow> service_inv s"
  by (simp add: queue_inv_def)

lemma commit_queue_inv:
  assumes inv: "queue_inv P s" and old: "sv_jobs s (j_id old) = Some old" and mut: "mutation_ok old job opts"
  shows "queue_inv P (snd (commitJobLocked job now opts s))"
proof -
  have s: "service_inv s" using inv by (rule queue_invD)
  have ids: "j_id job = j_id old" "j_key job = j_key old" using mut by (simp_all add: mutation_ok_def)
  have "reserved (snd (commitJobLocked job now opts s)) p" if "p \<in> set P" for p
  proof -
    have p: "reserved s p" using inv that by (simp add: queue_inv_def)
    then have "j_id p \<noteq> j_id old" using old by (auto simp: reserved_def)
    moreover have "j_key p \<noteq> j_key old"
      using p service_invD(1,2) [OF s old] by (auto simp: reserved_def fresh_job_def key_ok_def job_ok_def)
    ultimately show ?thesis
      using p ids by (simp add: reserved_def commit_fields)
  qed
  with inv commit_inv [OF s old mut] show ?thesis by (simp add: queue_inv_def)
qed

lemma queue_inv_cong:
  assumes "queue_inv P s"
    and "sv_jobs s' = sv_jobs s" "sv_keys s' = sv_keys s" "sv_keyTerminalAt s' = sv_keyTerminalAt s"
      "sv_sequence s' = sv_sequence s" "sv_agentJobs s' = sv_agentJobs s"
      "sv_nextExpiryAt s' = sv_nextExpiryAt s"
  shows "queue_inv P s'"
  using assms service_inv_cong [OF queue_invD [OF assms(1)] assms(2-7)]
  by (simp add: queue_inv_def reserved_def)

subsection \<open>Mutators\<close>

text \<open>Mutators change targets in place: the agents stay where they are.\<close>

lemma agents_expire_covered [simp]: "t_agentID (expire_covered A i now t) = t_agentID t"
  by (simp add: expire_covered_def)

lemma agents_expire_target [simp]: "t_agentID (expire_target now t) = t_agentID t"
  by (simp add: expire_target_def)

lemma agents_expire_acknowledged [simp]: "t_agentID (expire_acknowledged c now t) = t_agentID t"
  by (simp add: expire_acknowledged_def)

lemma final_expire_target [simp]: "is_final (t_status (expire_target now t))"
  by (simp add: expire_target_def is_final_def)

lemma status_ok_derived: "forceStatus opts = None \<Longrightarrow> status_ok (committed opts j)"
  by (simp add: status_ok_def commit_status_def)

lemma default_commit_sel [simp]:
  "forceStatus default_commit = None" "keepKeyOwner default_commit = False"
  "noteExpiry default_commit = False" "clearKeyTerminalOnNonTerminal default_commit = False"
  by (simp_all add: default_commit_def)

lemma mutation_ok_live:
  assumes "is_live (j_status old)" and "forceStatus opts = None"
    and "map t_agentID ts = map t_agentID (j_targets old)"
  shows "mutation_ok old (old\<lparr>j_targets := ts\<rparr>) opts"
  using assms is_live_not_terminal [OF assms(1)] status_ok_derived [OF assms(2)]
  by (simp add: mutation_ok_def)

lemma supersededByNewer_live: "supersededByNewerLocked s jid j nj key \<Longrightarrow> is_live (j_status j)"
  by (simp add: supersededByNewerLocked_def split: if_splits)

lemma job_id_of_resident:
  "queue_inv P s \<Longrightarrow> sv_jobs s jid = Some j \<Longrightarrow> j_id j = jid"
  using service_invD(1) [of s jid j] by (simp add: queue_inv_def job_ok_def)

abbreviation superseded_job :: "job \<Rightarrow> gotime \<Rightarrow> job \<Rightarrow> job" where
  "superseded_job nj now job \<equiv>
     job\<lparr>j_targets := map (expire_covered (targetAgentSet nj) (j_id nj) now) (j_targets job)\<rparr>"

definition covers :: "job \<Rightarrow> job \<Rightarrow> bool" where
  "covers nj job \<longleftrightarrow>
     (\<exists>t \<in> set (j_targets job). t_agentID t \<in> targetAgentSet nj \<and> is_active (t_status t))"

lemma supersede_step_None:
  "sv_jobs s jid = None \<Longrightarrow> supersede_step nj key now jid (cands, s) = (cands, s)"
  by (simp add: supersede_step_def)

lemma supersede_step_Some:
  assumes "sv_jobs s jid = Some job"
  shows "supersede_step nj key now jid (cands, s) =
    (if supersededByNewerLocked s jid job nj key \<and> covers nj job
     then let r = commitJobLocked (superseded_job nj now job) now (default_commit\<lparr>keepKeyOwner := True\<rparr>) s
          in (add_candidate (fst r) cands, snd r)
     else (cands, s))"
  using assms
  by (simp add: supersede_step_def expireCoveredTargets_def Let_def split_def list_ex_iff covers_def)

lemma supersede_step_inv:
  assumes "queue_inv P (snd cs)"
  shows "queue_inv P (snd (supersede_step nj key now jid cs))"
proof (cases cs)
  case (Pair cands s)
  with assms have inv: "queue_inv P s" by simp
  show ?thesis
  proof (cases "sv_jobs s jid")
    case None
    with Pair inv show ?thesis by (simp add: supersede_step_None)
  next
    case (Some job)
    have id: "j_id job = jid" using inv Some by (rule job_id_of_resident)
    have "queue_inv P (snd (commitJobLocked (superseded_job nj now job) now
        (default_commit\<lparr>keepKeyOwner := True\<rparr>) s))"
      if "supersededByNewerLocked s jid job nj key"
      using inv Some id supersededByNewer_live [OF that]
      by (intro commit_queue_inv [of P s job]) (auto intro!: mutation_ok_live simp: comp_def)
    with Pair inv Some show ?thesis by (simp add: supersede_step_Some Let_def)
  qed
qed

lemma supersede_inv:
  "queue_inv P s \<Longrightarrow> queue_inv P (snd (supersedePendingJobsLocked order nj now s))"
  unfolding supersedePendingJobsLocked_def Let_def
  by (auto intro: fold_invariant [where P = "\<lambda>cs. queue_inv P (snd cs)"] supersede_step_inv)

abbreviation ack_expired_job :: "gotime \<Rightarrow> gotime \<Rightarrow> job \<Rightarrow> job" where
  "ack_expired_job cutoff now job \<equiv>
     job\<lparr>j_targets := map (expire_acknowledged cutoff now) (j_targets job)\<rparr>"

definition stale_ack :: "gotime \<Rightarrow> job_target \<Rightarrow> bool" where
  "stale_ack cutoff t \<longleftrightarrow> t_status t = TargetStatusAcknowledged \<and>
     \<not> (is_zero_time (t_updatedAt t) \<or> t_updatedAt t > cutoff)"

lemma prune_ack_step_None:
  "sv_jobs s jid = None \<Longrightarrow> prune_ack_step cutoff now jid (cands, n, s) = (cands, n, s)"
  by (simp add: prune_ack_step_def)

lemma prune_ack_step_Some:
  assumes "sv_jobs s jid = Some job"
  shows "prune_ack_step cutoff now jid (cands, n, s) =
    (if \<exists>t \<in> set (j_targets job). stale_ack cutoff t
     then let r = commitJobLocked (ack_expired_job cutoff now job) now (default_commit\<lparr>noteExpiry := True\<rparr>) s
          in (add_candidate (fst r) cands, n + length (filter (stale_ack cutoff) (j_targets job)), snd r)
     else (cands, n, s))"
proof -
  have "filter (stale_ack cutoff) (j_targets job) = [] \<longleftrightarrow> \<not> (\<exists>t \<in> set (j_targets job). stale_ack cutoff t)"
    by (auto simp: filter_empty_conv)
  with assms show ?thesis
    unfolding prune_ack_step_def expireAcknowledgedTargets_def stale_ack_def
    by (auto simp: Let_def split_def)
qed

lemma unfinished_live:
  assumes "status_ok j" and "t \<in> set (j_targets j)" and "\<not> is_final (t_status t)"
  shows "is_live (j_status j)"
  using assms status_ok_terminal_final [OF assms(1) _ assms(2)] status_ok_live_iff [OF assms(1)] by auto

lemma status_ok_resident: "queue_inv P s \<Longrightarrow> sv_jobs s jid = Some j \<Longrightarrow> status_ok j"
  using service_invD(1) [of s jid j] by (simp add: queue_inv_def job_ok_def)

lemma prune_ack_step_inv:
  assumes "queue_inv P (snd (snd cns))"
  shows "queue_inv P (snd (snd (prune_ack_step cutoff now jid cns)))"
proof (cases cns)
  case (fields cands n s)
  with assms have inv: "queue_inv P s" by simp
  show ?thesis
  proof (cases "sv_jobs s jid")
    case None
    with fields inv show ?thesis by (simp add: prune_ack_step_None)
  next
    case (Some job)
    have id: "j_id job = jid" using inv Some by (rule job_id_of_resident)
    have "queue_inv P (snd (commitJobLocked (ack_expired_job cutoff now job) now
        (default_commit\<lparr>noteExpiry := True\<rparr>) s))"
      if "t \<in> set (j_targets job)" "stale_ack cutoff t" for t
    proof -
      have "is_live (j_status job)"
        using that status_ok_resident [OF inv Some]
        by (intro unfinished_live) (auto simp: stale_ack_def is_final_def)
      then show ?thesis
        using inv Some id
        by (intro commit_queue_inv [of P s job]) (auto intro!: mutation_ok_live simp: comp_def)
    qed
    with fields inv Some show ?thesis by (auto simp: prune_ack_step_Some Let_def)
  qed
qed

lemma PruneAcknowledgedTargets_inv:
  "queue_inv P s \<Longrightarrow> queue_inv P (snd (snd (PruneAcknowledgedTargets order d now s)))"
  unfolding PruneAcknowledgedTargets_def
  by (auto intro: fold_invariant [where P = "\<lambda>cns. queue_inv P (snd (snd cns))"] prune_ack_step_inv)

subsection \<open>Expiry\<close>

abbreviation expired_job :: "gotime \<Rightarrow> job \<Rightarrow> job" where
  "expired_job now job \<equiv>
     job\<lparr>j_targets := map (expire_target now) (j_targets job), j_status := StatusExpired\<rparr>"

abbreviation expire_commit :: job_commit where
  "expire_commit \<equiv> default_commit\<lparr>forceStatus := Some StatusExpired\<rparr>"

abbreviation unfinished_agents :: "job \<Rightarrow> string list" where
  "unfinished_agents job \<equiv> map t_agentID (filter (\<lambda>t. \<not> is_final (t_status t)) (j_targets job))"

lemma jobShouldExpire_live: "jobShouldExpire job now \<Longrightarrow> is_live (j_status job)"
  by (simp add: jobShouldExpire_def split: if_splits)

lemma expireJob_eq:
  assumes "jobShouldExpire job now"
  shows "expireJobAndCollectCandidatesLocked job now s =
    (add_candidate (fst (commitJobLocked (expired_job now job) now expire_commit s)) [],
     map (\<lambda>a. \<lparr>et_job = expired_job now job, et_agentID = a\<rparr>) (unfinished_agents job),
     snd (commitJobLocked (expired_job now job) now expire_commit s))"
  using jobShouldExpire_live [OF assms]
  by (auto simp: expireJobAndCollectCandidatesLocked_def expireJobTargets_def Let_def split_def is_live_def)

lemma expire_mutation_ok:
  assumes "is_live (j_status job)"
  shows "mutation_ok job (expired_job now job) expire_commit"
  using is_live_not_terminal [OF assms]
  by (auto simp: mutation_ok_def commit_status_def status_ok_def is_live_def comp_def)

lemma expire_commit_inv:
  assumes "queue_inv P s" and "sv_jobs s jid = Some job" and "jobShouldExpire job now"
  shows "queue_inv P (snd (commitJobLocked (expired_job now job) now expire_commit s))"
  using assms job_id_of_resident [OF assms(1,2)] jobShouldExpire_live [OF assms(3)]
  by (intro commit_queue_inv [of P s job] expire_mutation_ok) auto

lemma expire_step_None:
  "sv_jobs s jid = None \<Longrightarrow> expire_step now jid (cands, es, s) = (cands, es, s)"
  by (simp add: expire_step_def)

lemma expire_step_Some:
  assumes "sv_jobs s jid = Some job"
  shows "expire_step now jid (cands, es, s) =
    (if jobShouldExpire job now
     then let (cs, es', s') = expireJobAndCollectCandidatesLocked job now s in (cands @ cs, es @ es', s')
     else (cands, es, s))"
  using assms by (simp add: expire_step_def)

lemma expire_step_inv:
  assumes "queue_inv P (snd (snd ces))"
  shows "queue_inv P (snd (snd (expire_step now jid ces)))"
proof (cases ces)
  case (fields cands es s)
  with assms have inv: "queue_inv P s" by simp
  show ?thesis
  proof (cases "sv_jobs s jid")
    case None
    with fields inv show ?thesis by (simp add: expire_step_None)
  next
    case (Some job)
    with fields inv expire_commit_inv [OF inv Some] show ?thesis
      by (simp add: expire_step_Some expireJob_eq)
  qed
qed

lemma commit_dom: "sv_jobs s (j_id job) \<noteq> None \<Longrightarrow>
    dom (sv_jobs (snd (commitJobLocked job now opts s))) = dom (sv_jobs s)"
  by (auto simp: commit_jobs)

lemma expire_step_dom:
  assumes "queue_inv P (snd (snd ces))"
  shows "dom (sv_jobs (snd (snd (expire_step now jid ces)))) = dom (sv_jobs (snd (snd ces)))"
proof (cases ces)
  case (fields cands es s)
  with assms have inv: "queue_inv P s" by simp
  show ?thesis
  proof (cases "sv_jobs s jid")
    case None
    with fields show ?thesis by (simp add: expire_step_None)
  next
    case (Some job)
    with job_id_of_resident [OF inv Some] have "sv_jobs s (j_id job) \<noteq> None" by simp
    with fields Some show ?thesis by (auto simp: expire_step_Some expireJob_eq commit_dom)
  qed
qed

lemma expire_fold_inv:
  assumes "queue_inv P s"
  shows "queue_inv P (snd (snd (fold (expire_step now) order (cs, es, s)))) \<and>
    dom (sv_jobs (snd (snd (fold (expire_step now) order (cs, es, s))))) = dom (sv_jobs s)"
  (is "?I (fold _ _ _)")
proof (rule fold_invariant [where P = ?I])
  show "?I (cs, es, s)" using assms by simp
next
  fix k x
  assume "?I x"
  then show "?I (expire_step now k x)"
    using expire_step_inv [of P x now k] expire_step_dom [of P x now k] by simp
qed

text \<open>The recomputed watermark is a lower bound of every deadline it has seen.\<close>

lemma next_expiry_fold:
  assumes pos: "\<And>k j. sv_jobs s k = Some j \<Longrightarrow> 0 < j_createdAt j" and "0 \<le> acc"
  shows "0 \<le> fold (next_expiry_step s) order acc \<and>
    (acc \<noteq> 0 \<longrightarrow> fold (next_expiry_step s) order acc \<noteq> 0 \<and> fold (next_expiry_step s) order acc \<le> acc) \<and>
    (\<forall>k \<in> set order. \<forall>j. sv_jobs s k = Some j \<longrightarrow> is_live (j_status j) \<longrightarrow> 0 < j_ttl j \<longrightarrow>
       fold (next_expiry_step s) order acc \<noteq> 0 \<and>
       fold (next_expiry_step s) order acc \<le> j_createdAt j + j_ttl j)"
  using assms(2)
proof (induction order arbitrary: acc)
  case Nil
  then show ?case by simp
next
  case (Cons k ks)
  let ?acc = "next_expiry_step s k acc"
  have step: "0 \<le> ?acc \<and> (acc \<noteq> 0 \<longrightarrow> ?acc \<noteq> 0 \<and> ?acc \<le> acc) \<and>
      (\<forall>j. sv_jobs s k = Some j \<longrightarrow> is_live (j_status j) \<longrightarrow> 0 < j_ttl j \<longrightarrow>
         ?acc \<noteq> 0 \<and> ?acc \<le> j_createdAt j + j_ttl j)"
    using Cons.prems pos [of k]
    by (auto simp: next_expiry_step_def Let_def is_zero_time_def split: option.splits)
  have "0 \<le> ?acc" using step by simp
  from Cons.IH [OF this] step show ?case by fastforce
qed

lemma recompute_inv:
  assumes inv: "queue_inv P s" and ord: "set order = dom (sv_jobs s)"
  shows "queue_inv P (recomputeNextExpiryLocked order s)"
proof -
  let ?s = "recomputeNextExpiryLocked order s"
  have s: "service_inv s" using inv by (rule queue_invD)
  have pos: "0 < j_createdAt j" if "sv_jobs s k = Some j" for k j
    using service_invD(1) [OF s that] by (simp add: job_ok_def)
  have wm: "watermark_ok ?s j" if "sv_jobs s k = Some j" for k j
  proof -
    have "k \<in> set order" using that ord by auto
    with that next_expiry_fold [of s 0 order] pos show ?thesis
      by (auto simp: watermark_ok_def recomputeNextExpiryLocked_def)
  qed
  have idx: "indexed ?s = indexed s"
    by (rule indexed_cong) (simp add: recomputeNextExpiryLocked_def)
  have fields: "sv_jobs ?s = sv_jobs s" "sv_keys ?s = sv_keys s" "sv_sequence ?s = sv_sequence s"
      "sv_keyTerminalAt ?s = sv_keyTerminalAt s"
    by (simp_all add: recomputeNextExpiryLocked_def)
  have "service_inv ?s"
    using s wm by (simp add: service_inv_def job_inv_def job_ok_def key_ok_def index_ok_def
        keys_owned_def terminal_keys_owned_def idx fields)
  with inv show ?thesis by (simp add: queue_inv_def reserved_def fields)
qed

lemma expireJobsLocked_inv:
  assumes "queue_inv P s" and "range_order (sv_jobs s) order"
  shows "queue_inv P (snd (snd (expireJobsLocked order now s)))"
  using expire_fold_inv [OF assms(1), of now order "[]" "[]"] assms(2)
  by (auto simp: expireJobsLocked_def split_def Let_def range_order_def intro!: recompute_inv)

subsection \<open>Target updates\<close>

definition keeps_agent :: "target_mutation \<Rightarrow> bool" where
  "keeps_agent f \<longleftrightarrow> (\<forall>t t'. f t = Some t' \<longrightarrow> t_agentID t' = t_agentID t)"

lemma mutate_targets_agents:
  "keeps_agent f \<Longrightarrow> mutate_targets a now f ts = Some us \<Longrightarrow> map t_agentID us = map t_agentID ts"
  by (induction ts arbitrary: us) (auto simp: keeps_agent_def split: if_splits option.splits)

abbreviation target_commit :: job_commit where
  "target_commit \<equiv> default_commit\<lparr>noteExpiry := True, clearKeyTerminalOnNonTerminal := True\<rparr>"

lemma applyTargetMutation_eq:
  "applyTargetMutationLocked job a now f s =
     (case mutate_targets a now f (j_targets job) of
        None \<Rightarrow> ([], False, s)
      | Some ts \<Rightarrow> (add_candidate (fst (commitJobLocked (job\<lparr>j_targets := ts\<rparr>) now target_commit s)) [],
                    True, snd (commitJobLocked (job\<lparr>j_targets := ts\<rparr>) now target_commit s)))"
  by (simp add: applyTargetMutationLocked_def split_def Let_def split: option.splits)

lemma updateTarget_None: "sv_jobs s jid = None \<Longrightarrow> updateTarget a jid f now s = ([], False, s)"
  by (simp add: updateTarget_def)

lemma updateTarget_expire:
  assumes "sv_jobs s jid = Some job" and "jobShouldExpire job now"
  shows "updateTarget a jid f now s =
    (let (cs, es, s') = expireJobAndCollectCandidatesLocked job now s
     in (cs, True, invokeExpiryHook es s'))"
  using assms by (simp add: updateTarget_def)

lemma updateTarget_apply:
  assumes "sv_jobs s jid = Some job" and "\<not> jobShouldExpire job now"
  shows "updateTarget a jid f now s = applyTargetMutationLocked job a now f s"
  using assms by (simp add: updateTarget_def)

lemma target_mutation_ok:
  assumes "map t_agentID ts = map t_agentID (j_targets job)"
  shows "mutation_ok job (job\<lparr>j_targets := ts\<rparr>) target_commit"
  using assms by (simp add: mutation_ok_def status_ok_def commit_status_def)

lemma updateTarget_inv:
  assumes inv: "queue_inv P s" and f: "keeps_agent f"
  shows "queue_inv P (snd (snd (updateTarget a jid f now s)))"
proof (cases "sv_jobs s jid")
  case None
  with inv show ?thesis by (simp add: updateTarget_None)
next
  case (Some job)
  have id: "j_id job = jid" using inv Some by (rule job_id_of_resident)
  show ?thesis
  proof (cases "jobShouldExpire job now")
    case True
    have "queue_inv P (invokeExpiryHook es (snd (commitJobLocked (expired_job now job) now expire_commit s)))"
      for es
      by (rule queue_inv_cong [OF expire_commit_inv [OF inv Some True]]) (simp_all add: frame_simps)
    with True Some show ?thesis by (simp add: updateTarget_expire expireJob_eq)
  next
    case False
    have "queue_inv P (snd (commitJobLocked (job\<lparr>j_targets := ts\<rparr>) now target_commit s))"
      if "mutate_targets a now f (j_targets job) = Some ts" for ts
      using inv Some id target_mutation_ok [OF mutate_targets_agents [OF f that]]
      by (intro commit_queue_inv [of P s job]) auto
    with inv False Some show ?thesis
      by (simp add: updateTarget_apply applyTargetMutation_eq split: option.splits)
  qed
qed

lemma mutations_keep_agent [simp]:
  "keeps_agent mark_delivered_target" "keeps_agent mark_acknowledged_target"
  "keeps_agent (record_result_target ok m r)"
  by (auto simp: keeps_agent_def mark_delivered_target_def mark_acknowledged_target_def
      record_result_target_def split: if_splits)

lemma target_ops_inv:
  assumes "queue_inv P s"
  shows "queue_inv P (snd (snd (MarkDelivered a jid now s)))"
    and "queue_inv P (snd (snd (MarkAcknowledged a jid now s)))"
    and "queue_inv P (snd (snd (RecordResult a jid ok m r now s)))"
  using assms by (simp_all add: MarkDelivered_def MarkAcknowledged_def RecordResult_def updateTarget_inv)

subsection \<open>Key eviction\<close>

lemma evict_key_owned:
  assumes inv: "service_inv s" and t: "sv_keyTerminalAt s key = Some t"
  obtains jid j where "sv_keys s key = Some jid" "jid \<noteq> []" "key \<noteq> []" "sv_jobs s jid = Some j"
    "j_key j = key" "isTerminalStatus (j_status j)"
proof -
  obtain jid where jid: "sv_keys s key = Some jid" "jid \<noteq> []" "key \<noteq> []"
    using service_inv_terminal [OF inv] t by (auto simp: terminal_keys_owned_def)
  then obtain j where j: "sv_jobs s jid = Some j" "j_key j = key"
    using service_inv_keys [OF inv] by (auto simp: keys_owned_def)
  with t jid service_invD(2) [OF inv j(1)] have "isTerminalStatus (j_status j)"
    by (auto simp: key_ok_def)
  with jid j that show ?thesis by blast
qed

lemma evict_key_fields:
  assumes "sv_keys s key = Some jid" and "jid \<noteq> []"
  shows "evict_key key s =
    s\<lparr>sv_keys := (sv_keys s)(key := None), sv_keyTerminalAt := (sv_keyTerminalAt s)(key := None),
      sv_jobs := (sv_jobs s)(jid := None), sv_jobVersion := (sv_jobVersion s)(jid := None)\<rparr>"
  using assms by (simp add: evict_key_def Let_def)

lemma evict_key_inv:
  assumes inv: "queue_inv P s" and t: "sv_keyTerminalAt s key = Some t"
  shows "queue_inv P (evict_key key s)"
proof -
  have s: "service_inv s" using inv by (rule queue_invD)
  obtain jid j where own: "sv_keys s key = Some jid" "jid \<noteq> []" "key \<noteq> []" "sv_jobs s jid = Some j"
    "j_key j = key" "isTerminalStatus (j_status j)"
    using evict_key_owned [OF s t] by metis
  let ?s = "evict_key key s"
  have eq: "?s = s\<lparr>sv_keys := (sv_keys s)(key := None), sv_keyTerminalAt := (sv_keyTerminalAt s)(key := None),
      sv_jobs := (sv_jobs s)(jid := None), sv_jobVersion := (sv_jobVersion s)(jid := None)\<rparr>"
    using own(1,2) by (rule evict_key_fields)
  have other: "j_key i = [] \<or> j_key i \<noteq> key" if "sv_jobs s k = Some i" "k \<noteq> jid" for k i
    using service_invD(2) [OF s that(1)] own that(2) by (auto simp: key_ok_def)
  have idx: "indexed ?s = indexed s" by (rule indexed_cong) (simp add: eq)
  have "service_inv ?s"
    unfolding service_inv_def
  proof (intro conjI allI impI)
    fix k i
    assume "sv_jobs ?s k = Some i"
    then have i: "sv_jobs s k = Some i" "k \<noteq> jid" by (auto simp: eq split: if_splits)
    have "index_ok ?s k i" using service_invD(3) [OF s i(1)] by (simp add: index_ok_def idx)
    then show "job_inv ?s k i"
      using service_invD(1,2,4) [OF s i(1)] other [OF i] own(3)
      by (auto simp: job_inv_def job_ok_def key_ok_def watermark_ok_def eq)
  next
    have "\<exists>i. sv_jobs ?s k' = Some i \<and> j_key i = k"
      if "sv_keys ?s k = Some k'" "k' \<noteq> []" "k \<noteq> []" for k k'
    proof -
      have "sv_keys s k = Some k'" "k \<noteq> key" using that(1) by (auto simp: eq split: if_splits)
      moreover from this that obtain i where "sv_jobs s k' = Some i" "j_key i = k"
        using service_inv_keys [OF s] by (auto simp: keys_owned_def)
      ultimately show ?thesis using own by (auto simp: eq)
    qed
    then show "keys_owned ?s" by (simp add: keys_owned_def)
  next
    show "terminal_keys_owned ?s"
      using service_inv_terminal [OF s] by (auto simp: terminal_keys_owned_def eq)
  qed
  moreover have "reserved ?s p" if "p \<in> set P" for p
    using inv that own by (auto simp: queue_inv_def reserved_def eq)
  ultimately show ?thesis using inv by (simp add: queue_inv_def)
qed

lemma prune_step_inv: "queue_inv P (snd ns) \<Longrightarrow> queue_inv P (snd (prune_step cutoff key ns))"
  by (cases ns) (auto simp: prune_step_def evict_key_inv split: option.splits)

lemma PruneKeys_inv: "queue_inv P s \<Longrightarrow> queue_inv P (snd (PruneKeys order d now s))"
  unfolding PruneKeys_def
  by (auto intro: fold_invariant [where P = "\<lambda>ns. queue_inv P (snd ns)"] prune_step_inv)

subsection \<open>Enqueue\<close>

lemma MaxPrefixed_le_iff: "MaxPrefixed c p v = c \<Longrightarrow> c \<le> c' \<Longrightarrow> MaxPrefixed c' p v = c'"
  by (auto simp: MaxPrefixed_def split: option.splits if_splits)

lemma MaxPrefixed_job_id: "MaxPrefixed c ''job'' (job_id_of n) = max c n"
  using MaxPrefixed_pad [of c "''job''" 12 n] by (simp add: job_id_of_def)

lemma job_id_of_inject: "job_id_of n = job_id_of m \<longleftrightarrow> n = m"
  by (simp add: job_id_of_def pad_zero_inject word_unat_eq_iff)

lemma job_id_of_nonempty [simp]: "job_id_of n \<noteq> []"
  by (simp add: job_id_of_def)

lemma word_less_inc: "w \<noteq> - 1 \<Longrightarrow> (w :: uint64) < w + 1"
  using unat_inc [of w] by (simp add: word_less_nat_alt)

lemma enqueue_reserve_Inr:
  assumes "enqueue_reserve input gen now s = (Inr job, s')"
  shows "sv_keys s (enqueue_key input gen) = None"
    and "job = new_job input (enqueue_key input gen) (job_id_of (sv_sequence s + 1)) now"
    and "s' = s\<lparr>sv_sequence := sv_sequence s + 1, sv_keys := (sv_keys s)(enqueue_key input gen \<mapsto> [])\<rparr>"
  using assms by (auto simp: enqueue_reserve_def Let_def split: if_splits)

lemma enqueue_reserve_Inl:
  "enqueue_reserve input gen now s = (Inl e, s') \<Longrightarrow> s' = s"
  by (auto simp: enqueue_reserve_def Let_def split: if_splits)

lemma service_inv_sequence:
  assumes "service_inv s" and "sv_sequence s \<le> n"
  shows "service_inv (s\<lparr>sv_sequence := n\<rparr>)"
proof -
  have "indexed (s\<lparr>sv_sequence := n\<rparr>) = indexed s" by (rule indexed_cong) simp
  with assms show ?thesis
    by (auto simp: service_inv_def job_inv_def job_ok_def key_ok_def index_ok_def watermark_ok_def
        keys_owned_def terminal_keys_owned_def intro: MaxPrefixed_le_iff)
qed

lemma service_inv_reserve_key:
  assumes inv: "service_inv s" and free: "sv_keys s k = None"
  shows "service_inv (s\<lparr>sv_keys := (sv_keys s)(k \<mapsto> [])\<rparr>)"
proof -
  let ?s = "s\<lparr>sv_keys := (sv_keys s)(k \<mapsto> [])\<rparr>"
  have idx: "indexed ?s = indexed s" by (rule indexed_cong) simp
  have "key_ok ?s jid j" if "sv_jobs s jid = Some j" for jid j
    using service_invD(2) [OF inv that] free by (auto simp: key_ok_def)
  moreover have "terminal_keys_owned ?s"
    using service_inv_terminal [OF inv] free by (auto simp: terminal_keys_owned_def)
  moreover have "keys_owned ?s"
    using service_inv_keys [OF inv] by (auto simp: keys_owned_def)
  ultimately show ?thesis
    using inv idx
    by (simp add: service_inv_def job_inv_def job_ok_def index_ok_def watermark_ok_def)
qed

lemma fresh_new_job:
  assumes "key \<noteq> []" and "jid \<noteq> []" and "0 < now" and "distinct (in_targetAgentIDs input)"
  shows "fresh_job (new_job input key jid now)"
  using assms by (simp add: fresh_job_def new_job_def comp_def)

lemma new_job_sel [simp]:
  "j_key (new_job input key jid now) = key" "j_id (new_job input key jid now) = jid"
  by (simp_all add: new_job_def)

lemma fresh_id:
  assumes inv: "queue_inv P s" and "sv_sequence s \<noteq> - 1"
  shows "sv_jobs s (job_id_of (sv_sequence s + 1)) = None"
    and "job_id_of (sv_sequence s + 1) \<notin> j_id ` set P"
proof -
  have lt: "sv_sequence s < sv_sequence s + 1" using assms(2) by (rule word_less_inc)
  then have new: "MaxPrefixed (sv_sequence s) ''job'' (job_id_of (sv_sequence s + 1)) \<noteq> sv_sequence s"
    by (auto simp: MaxPrefixed_job_id max_def)
  with service_invD(1) [OF queue_invD [OF inv], of "job_id_of (sv_sequence s + 1)"]
  show "sv_jobs s (job_id_of (sv_sequence s + 1)) = None"
    by (cases "sv_jobs s (job_id_of (sv_sequence s + 1))") (auto simp: job_ok_def)
  show "job_id_of (sv_sequence s + 1) \<notin> j_id ` set P"
    using inv new by (auto simp: queue_inv_def reserved_def)
qed

lemma enqueue_reserve_inv:
  assumes inv: "queue_inv P s" and res: "enqueue_reserve input gen now s = (Inr job, s')"
    and "enqueue_key input gen \<noteq> []" and "0 < now" and "distinct (in_targetAgentIDs input)"
    and seq: "sv_sequence s \<noteq> - 1"
  shows "queue_inv (job # P) s'"
proof -
  let ?k = "enqueue_key input gen" and ?n = "sv_sequence s + 1"
  note res' = enqueue_reserve_Inr [OF res]
  have lt: "sv_sequence s < ?n" using seq by (rule word_less_inc)
  have "service_inv ((s\<lparr>sv_sequence := ?n\<rparr>)\<lparr>sv_keys := (sv_keys (s\<lparr>sv_sequence := ?n\<rparr>))(?k \<mapsto> [])\<rparr>)"
    using res'(1) lt queue_invD [OF inv]
    by (intro service_inv_reserve_key service_inv_sequence) auto
  then have "service_inv s'" by (simp add: res'(3))
  moreover have "reserved s' p" if "p \<in> set P" for p
    using inv that res'(1) lt MaxPrefixed_le_iff [of "sv_sequence s" "''job''" "j_id p" ?n]
    by (auto simp: queue_inv_def reserved_def res'(3))
  moreover have "reserved s' job"
    using fresh_new_job [of ?k "job_id_of ?n" now input] fresh_id(1) [OF inv seq] assms(3-5)
    by (simp add: reserved_def res'(2,3) MaxPrefixed_job_id)
  moreover have "?k \<notin> j_key ` set P"
    using inv res'(1) by (auto simp: queue_inv_def reserved_def)
  ultimately show ?thesis
    using inv fresh_id(2) [OF inv seq] by (simp add: queue_inv_def res'(2))
qed

lemma enqueue_rollback_inv:
  assumes inv: "queue_inv (p # P) s"
  shows "queue_inv P (enqueue_rollback p s)"
proof -
  have p: "reserved s p" and s: "service_inv s" using inv by (simp_all add: queue_inv_def)
  let ?s = "s\<lparr>sv_keys := (sv_keys s)(j_key p := None)\<rparr>"
  have eq: "enqueue_rollback p s = ?s" using p by (simp add: enqueue_rollback_def reserved_def)
  have idx: "indexed ?s = indexed s" by (rule indexed_cong) simp
  have "key_ok ?s jid j" if "sv_jobs s jid = Some j" for jid j
    using service_invD(1,2) [OF s that] p by (auto simp: key_ok_def job_ok_def reserved_def)
  moreover have "keys_owned ?s" using service_inv_keys [OF s] by (auto simp: keys_owned_def)
  moreover have "terminal_keys_owned ?s"
    using service_inv_terminal [OF s] p by (auto simp: terminal_keys_owned_def reserved_def)
  ultimately have "service_inv ?s"
    using s idx by (simp add: service_inv_def job_inv_def job_ok_def index_ok_def watermark_ok_def)
  moreover have "reserved ?s q" if "q \<in> set P" for q
    using inv that by (auto simp: queue_inv_def reserved_def) (metis imageI)
  ultimately show ?thesis using inv by (simp add: queue_inv_def eq)
qed

lemma publish_fields:
  "sv_jobs (publish_job p s) = (sv_jobs s)(j_id p \<mapsto> p)"
  "sv_keys (publish_job p s) = (sv_keys s)(j_key p \<mapsto> j_id p)"
  "sv_keyTerminalAt (publish_job p s) = sv_keyTerminalAt s"
  "sv_sequence (publish_job p s) = sv_sequence s"
  "sv_supersedeKey (publish_job p s) = sv_supersedeKey s"
  by (simp_all add: publish_job_def Let_def frame_simps syncJobTargetsIndexLocked_def)

lemma publish_agentJobs:
  "sv_agentJobs (publish_job p s) = sv_agentJobs (syncJobTargetsIndexLocked p s)"
  unfolding publish_job_def Let_def syncJobTargetsIndexLocked_def
  by (simp add: frame_simps) (rule fold_sync_agentJobs_cong, simp)

lemma publish_nextExpiryAt:
  "sv_nextExpiryAt (publish_job p s) = sv_nextExpiryAt (noteJobExpiryLocked p s)"
  by (auto simp: publish_job_def Let_def note_watermark frame_simps syncJobTargetsIndexLocked_def)

lemma fresh_status_ok: "fresh_job p \<Longrightarrow> status_ok p"
  by (auto simp: fresh_job_def status_ok_def derive_flags in_flight_def is_final_def)

lemma publish_job_inv_own:
  assumes "service_inv s" and p: "reserved s p"
  shows "job_inv (publish_job p s) (j_id p) p"
proof -
  have fresh: "fresh_job p" using p by (simp add: reserved_def)
  then have facts: "distinct (map t_agentID (j_targets p))" "0 < j_createdAt p" "j_status p = StatusQueued"
    by (simp_all add: fresh_job_def)
  have none: "sv_keyTerminalAt s (j_key p) = None"
    using service_inv_terminal [OF assms(1)] p by (auto simp: terminal_keys_owned_def reserved_def)
  have "job_ok (publish_job p s) (j_id p) p"
    using p fresh fresh_status_ok [OF fresh]
    by (simp add: job_ok_def reserved_def fresh_job_def publish_fields)
  moreover have "key_ok (publish_job p s) (j_id p) p"
    using none facts(3) by (simp add: key_ok_def publish_fields)
  moreover have "index_ok (publish_job p s) (j_id p) p"
    using sync_index_ok [OF facts(1)] by (simp add: index_ok_cong [OF publish_agentJobs])
  moreover have "watermark_ok (publish_job p s) p"
    using note_watermark_own [OF facts(2), of s] by (simp add: watermark_ok_def publish_nextExpiryAt)
  ultimately show ?thesis by (simp add: job_inv_def)
qed

lemma publish_job_inv_other:
  assumes s: "service_inv s" and p: "reserved s p" and j: "sv_jobs s jid = Some j"
  shows "job_inv (publish_job p s) jid j"
proof -
  have pos: "0 < j_createdAt p" using p by (simp add: reserved_def fresh_job_def)
  have neq: "jid \<noteq> j_id p" using p j by (auto simp: reserved_def)
  have key: "j_key j = [] \<or> j_key j \<noteq> j_key p"
    using service_invD(1,2) [OF s j] p by (auto simp: key_ok_def reserved_def job_ok_def)
  have "index_ok (publish_job p s) jid j"
    using sync_index_ok_other [OF service_invD(3) [OF s j] neq]
    by (simp add: index_ok_cong [OF publish_agentJobs])
  moreover have "watermark_ok (publish_job p s) j"
    using note_watermark_other [OF service_invD(4) [OF s j] pos]
    by (simp add: watermark_ok_def publish_nextExpiryAt)
  ultimately show ?thesis
    using service_invD(1,2) [OF s j] key p
    by (auto simp: job_inv_def job_ok_def key_ok_def publish_fields reserved_def fresh_job_def)
qed

lemma publish_job_inv:
  assumes inv: "queue_inv (p # P) s"
  shows "queue_inv P (publish_job p s)"
proof -
  have p: "reserved s p" and s: "service_inv s" using inv by (simp_all add: queue_inv_def)
  have "keys_owned (publish_job p s)"
    using service_inv_keys [OF s] p
    by (fastforce simp: keys_owned_def publish_fields reserved_def split: if_splits)
  moreover have "terminal_keys_owned (publish_job p s)"
    using service_inv_terminal [OF s] p
    by (auto simp: terminal_keys_owned_def publish_fields reserved_def fresh_job_def)
  ultimately have "service_inv (publish_job p s)"
    using publish_job_inv_own [OF s p] publish_job_inv_other [OF s p]
    by (auto simp: service_inv_def publish_fields)
  moreover have "reserved (publish_job p s) q" if "q \<in> set P" for q
    using inv that by (auto simp: queue_inv_def reserved_def publish_fields) (metis imageI)+
  ultimately show ?thesis using inv by (simp add: queue_inv_def)
qed

lemma enqueue_finalize_inv:
  "queue_inv (p # P) s \<Longrightarrow> queue_inv P (snd (enqueue_finalize order p now s))"
  unfolding enqueue_finalize_def by (intro supersede_inv publish_job_inv)

end
