(* ===== verification/Job_Queue.thy ===== *)
theory Job_Queue
  imports Job_Preservation
begin

section \<open>Interleaved use of the job service\<close>

text \<open>
  The service is called by HTTP handlers, by one dispatch loop per agent and by background
  workers. Each critical section is atomic; between the phases of an enqueue any other
  section may run. \<open>queue_step\<close> is one such atomic section on the service and the list of
  jobs whose enqueue is in flight. This theory lifts the invariant to every interleaving
  and shows how a target may move through its statuses.
\<close>

subsection \<open>Steps\<close>

type_synonym queue_state = "service \<times> job list"

inductive queue_step :: "queue_state \<Rightarrow> queue_state \<Rightarrow> bool" where
  reserve: "enqueue_reserve input gen now s = (Inr job, s') \<Longrightarrow> enqueue_key input gen \<noteq> [] \<Longrightarrow>
     0 < now \<Longrightarrow> distinct (in_targetAgentIDs input) \<Longrightarrow> sv_sequence s \<noteq> - 1 \<Longrightarrow>
     queue_step (s, P) (s', job # P)"
| finalize: "p \<in> set P \<Longrightarrow> range_order (sv_jobs (publish_job p s)) order \<Longrightarrow>
     queue_step (s, P) (snd (enqueue_finalize order p now s), remove1 p P)"
| rollback: "p \<in> set P \<Longrightarrow> queue_step (s, P) (enqueue_rollback p s, remove1 p P)"
| deliver: "queue_step (s, P) (snd (snd (MarkDelivered a jid now s)), P)"
| acknowledge: "queue_step (s, P) (snd (snd (MarkAcknowledged a jid now s)), P)"
| result: "queue_step (s, P) (snd (snd (RecordResult a jid ok m r now s)), P)"
| prune_keys: "range_order (sv_keyTerminalAt s) order \<Longrightarrow>
     queue_step (s, P) (snd (PruneKeys order d now s), P)"
| prune_acknowledged: "range_order (sv_jobs s) order \<Longrightarrow>
     queue_step (s, P) (snd (snd (PruneAcknowledgedTargets order d now s)), P)"
| expire: "range_order (sv_jobs s) order \<Longrightarrow>
     queue_step (s, P)
       (let (cs, es, s') = expireJobsLocked order now s in invokeExpiryHook es s', P)"

inductive_cases queue_stepE: "queue_step (s, P) (s', P')"

text \<open>A freshly constructed service, with its rules and store wired at boot.\<close>

definition boot_service :: "(action \<Rightarrow> string \<Rightarrow> string) option \<Rightarrow> bool \<Rightarrow> bool \<Rightarrow> service" where
  "boot_service fn hook store =
     SetExpiryHook hook (SetSupersedeKeyFunc fn (NewService\<lparr>sv_hasStore := store\<rparr>))"

inductive queue_reachable :: "queue_state \<Rightarrow> bool" where
  boot: "queue_reachable (boot_service fn hook store, [])"
| step: "queue_reachable x \<Longrightarrow> queue_step x y \<Longrightarrow> queue_reachable y"

lemma queue_inv_remove1:
  "queue_inv P s \<Longrightarrow> p \<in> set P \<Longrightarrow> queue_inv (p # remove1 p P) s"
proof -
  assume inv: "queue_inv P s" and p: "p \<in> set P"
  have "mset (p # remove1 p P) = mset P" using p by simp
  then have perm: "set (p # remove1 p P) = set P"
      "distinct (map j_key (p # remove1 p P)) = distinct (map j_key P)"
      "distinct (map j_id (p # remove1 p P)) = distinct (map j_id P)"
    using mset_eq_setD mset_eq_imp_distinct_iff mset_map by (metis, metis, metis)
  then show ?thesis using inv unfolding queue_inv_def perm by simp
qed

lemma queue_step_inv:
  assumes "queue_step x y" and "queue_inv (snd x) (fst x)"
  shows "queue_inv (snd y) (fst y)"
  using assms
proof cases
  case (reserve input gen now s job s' P)
  with assms(2) show ?thesis by (auto intro: enqueue_reserve_inv)
next
  case (finalize p P s order now)
  with assms(2) show ?thesis by (auto intro: enqueue_finalize_inv queue_inv_remove1)
next
  case (rollback p P s)
  with assms(2) show ?thesis by (auto intro: enqueue_rollback_inv queue_inv_remove1)
next
  case (expire s order P now)
  have "queue_inv P (snd (snd (expireJobsLocked order now s)))"
    using assms(2) expire by (auto intro: expireJobsLocked_inv)
  then have "queue_inv P (invokeExpiryHook es (snd (snd (expireJobsLocked order now s))))" for es
    by (rule queue_inv_cong) (simp_all add: frame_simps)
  with expire show ?thesis by (simp add: split_def Let_def)
qed (use assms(2) in \<open>auto intro: target_ops_inv PruneKeys_inv PruneAcknowledgedTargets_inv\<close>)

lemma boot_inv: "queue_inv [] (boot_service fn hook store)"
proof -
  have "service_inv (boot_service fn hook store)"
    by (rule service_inv_cong [OF NewService_inv])
      (simp_all add: boot_service_def SetExpiryHook_def SetSupersedeKeyFunc_def)
  then show ?thesis by (simp add: queue_inv_def)
qed

lemma queue_reachable_inv: "queue_reachable x \<Longrightarrow> queue_inv (snd x) (fst x)"
  by (induction rule: queue_reachable.induct) (auto simp: boot_inv intro: queue_step_inv)

subsection \<open>How a target moves\<close>

text \<open>
  Progress of a target: statuses the program does not know, queued, sent, acknowledged,
  then finished. A step either leaves the status, raises it, or replaces one recorded
  result by another; an expired target stays expired with the text it carries.
\<close>

fun target_rank :: "target_status \<Rightarrow> nat" where
  "target_rank (OtherTargetStatus _) = 0"
| "target_rank TargetStatusQueued = 0"
| "target_rank TargetStatusSent = 1"
| "target_rank TargetStatusAcknowledged = 2"
| "target_rank _ = 3"

definition target_moves :: "target_status \<Rightarrow> target_status \<Rightarrow> bool" where
  "target_moves a b \<longleftrightarrow>
     a = b \<or> target_rank a < target_rank b \<or>
     (a \<in> {TargetStatusSucceeded, TargetStatusFailed} \<and> b \<in> {TargetStatusSucceeded, TargetStatusFailed})"

definition evolves :: "job_target \<Rightarrow> job_target \<Rightarrow> bool" where
  "evolves t t' \<longleftrightarrow>
     t_agentID t' = t_agentID t \<and> target_moves (t_status t) (t_status t') \<and>
     (t_status t = TargetStatusExpired \<longrightarrow> t_resultText t' = t_resultText t)"

lemma target_rank_3: "target_rank a = 3 \<longleftrightarrow> is_final a"
  by (cases a) (simp_all add: is_final_def)

lemma target_rank_le: "target_rank a \<le> 3"
  by (cases a) simp_all

lemma target_moves_trans: "target_moves a b \<Longrightarrow> target_moves b c \<Longrightarrow> target_moves a c"
  using target_rank_le [of c] by (auto simp: target_moves_def)

lemma evolves_refl [simp]: "evolves t t"
  by (simp add: evolves_def target_moves_def)

lemma target_moves_expired: "target_moves TargetStatusExpired b \<longleftrightarrow> b = TargetStatusExpired"
  by (cases b) (simp_all add: target_moves_def)

lemma target_moves_to:
  "\<not> is_final a \<Longrightarrow> is_final b \<Longrightarrow> target_moves a b"
  "\<not> is_final a \<Longrightarrow> a \<noteq> TargetStatusAcknowledged \<Longrightarrow> target_moves a TargetStatusSent"
  "a = TargetStatusSent \<or> a = TargetStatusAcknowledged \<Longrightarrow> target_moves a TargetStatusAcknowledged"
  by (cases a; cases b; simp add: target_moves_def is_final_def)
    (cases a; simp add: target_moves_def is_final_def; fail)+

lemma evolves_trans: "evolves t u \<Longrightarrow> evolves u v \<Longrightarrow> evolves t v"
  using target_moves_trans [of "t_status t" "t_status u" "t_status v"]
  by (cases "t_status t = TargetStatusExpired") (simp_all add: evolves_def target_moves_expired)

lemma all2_evolves_refl [simp]: "list_all2 evolves ts ts"
  by (simp add: list_all2_refl)

lemma all2_evolves_trans: "list_all2 evolves a b \<Longrightarrow> list_all2 evolves b c \<Longrightarrow> list_all2 evolves a c"
  by (rule list_all2_trans [of evolves]) (auto intro: evolves_trans)

lemma all2_evolves_map: "(\<And>t. evolves t (f t)) \<Longrightarrow> list_all2 evolves ts (map f ts)"
  by (simp add: list_all2_map2 list_all2_refl)

lemma active_not_final: "is_active a \<Longrightarrow> \<not> is_final a"
  by (auto simp: is_active_def is_final_def)

lemma expired_is_final [simp]: "is_final TargetStatusExpired"
  by (simp add: is_final_def)

lemma evolves_expire:
  assumes "\<not> is_final (t_status t)"
  shows "evolves t (t\<lparr>t_status := TargetStatusExpired, t_resultText := x, t_updatedAt := now\<rparr>)"
    and "evolves t (t\<lparr>t_status := TargetStatusExpired, t_updatedAt := now\<rparr>)"
  using assms by (auto simp: evolves_def intro: target_moves_to(1))

lemma evolves_mutators:
  "evolves t (expire_covered A i now t)" "evolves t (expire_target now t)"
  "evolves t (expire_acknowledged cutoff now t)"
  by (auto simp: expire_covered_def expire_target_def expire_acknowledged_def is_final_def
      intro!: evolves_expire dest: active_not_final)

definition evolving :: "target_mutation \<Rightarrow> bool" where
  "evolving f \<longleftrightarrow> (\<forall>t t' now. f t = Some t' \<longrightarrow> evolves t (t'\<lparr>t_updatedAt := now\<rparr>))"

lemma target_moves_refl [simp]: "target_moves a a"
  by (simp add: target_moves_def)

lemma mutations_evolving:
  "evolving mark_delivered_target" "evolving mark_acknowledged_target"
  "evolving (record_result_target ok m r)"
proof -
  show "evolving mark_delivered_target"
    by (auto simp: evolving_def mark_delivered_target_def evolves_def
        intro: target_moves_to(2) split: if_splits)
  show "evolving mark_acknowledged_target"
    by (auto simp: evolving_def mark_acknowledged_target_def evolves_def
        intro: target_moves_to(3) split: if_splits)
  have "target_moves a (if ok then TargetStatusSucceeded else TargetStatusFailed)"
    if "a \<noteq> TargetStatusExpired" for a
    using that by (cases a) (simp_all add: target_moves_def)
  then show "evolving (record_result_target ok m r)"
    by (auto simp: evolving_def record_result_target_def evolves_def split: if_splits)
qed

lemma mutate_targets_evolve:
  "evolving f \<Longrightarrow> mutate_targets a now f ts = Some us \<Longrightarrow> list_all2 evolves ts us"
proof (induction ts arbitrary: us)
  case Nil
  then show ?case by simp
next
  case (Cons t ts)
  then show ?case
    by (auto simp: evolving_def split: if_splits option.splits)
qed

subsection \<open>Targets along a run\<close>

text \<open>No resident job disappears and comes back, and its targets evolve in place.\<close>

definition jobs_evolve :: "service \<Rightarrow> service \<Rightarrow> bool" where
  "jobs_evolve s s' \<longleftrightarrow> sv_sequence s' = sv_sequence s \<and>
     (\<forall>jid j'. sv_jobs s' jid = Some j' \<longrightarrow>
        (\<exists>j. sv_jobs s jid = Some j \<and> list_all2 evolves (j_targets j) (j_targets j')))"

lemma jobs_evolve_refl [simp]: "jobs_evolve s s"
  by (simp add: jobs_evolve_def)

lemma jobs_evolve_trans: "jobs_evolve a b \<Longrightarrow> jobs_evolve b c \<Longrightarrow> jobs_evolve a c"
  by (fastforce simp: jobs_evolve_def intro: all2_evolves_trans)

lemma commit_evolves:
  assumes "queue_inv P s" and "sv_jobs s jid = Some old" and "j_id job = jid"
    and "list_all2 evolves (j_targets old) (j_targets job)"
  shows "jobs_evolve s (snd (commitJobLocked job now opts s))"
  using assms by (auto simp: jobs_evolve_def commit_jobs commit_sequence split: if_splits)

lemma supersede_step_evolves:
  assumes "queue_inv P (snd cs)"
  shows "jobs_evolve (snd cs) (snd (supersede_step nj key now jid cs))"
proof (cases cs)
  case (Pair cands s)
  with assms have inv: "queue_inv P s" by simp
  show ?thesis
  proof (cases "sv_jobs s jid")
    case None
    with Pair show ?thesis by (simp add: supersede_step_None)
  next
    case (Some job)
    with Pair job_id_of_resident [OF inv Some] show ?thesis
      by (auto simp: supersede_step_Some Let_def
          intro!: commit_evolves [OF inv Some] all2_evolves_map evolves_mutators)
  qed
qed

lemma prune_ack_step_evolves:
  assumes "queue_inv P (snd (snd cns))"
  shows "jobs_evolve (snd (snd cns)) (snd (snd (prune_ack_step cutoff now jid cns)))"
proof (cases cns)
  case (fields cands n s)
  with assms have inv: "queue_inv P s" by simp
  show ?thesis
  proof (cases "sv_jobs s jid")
    case None
    with fields show ?thesis by (simp add: prune_ack_step_None)
  next
    case (Some job)
    with fields job_id_of_resident [OF inv Some] show ?thesis
      by (auto simp: prune_ack_step_Some Let_def
          intro!: commit_evolves [OF inv Some] all2_evolves_map evolves_mutators)
  qed
qed

lemma expire_commit_evolves:
  assumes "queue_inv P s" and "sv_jobs s jid = Some job"
  shows "jobs_evolve s (snd (commitJobLocked (expired_job now job) now expire_commit s))"
  using assms job_id_of_resident [OF assms]
  by (auto intro!: commit_evolves all2_evolves_map evolves_mutators)

lemma expire_step_evolves:
  assumes "queue_inv P (snd (snd ces))"
  shows "jobs_evolve (snd (snd ces)) (snd (snd (expire_step now jid ces)))"
proof (cases ces)
  case (fields cands es s)
  with assms have inv: "queue_inv P s" by simp
  show ?thesis
  proof (cases "sv_jobs s jid")
    case None
    with fields show ?thesis by (simp add: expire_step_None)
  next
    case (Some job)
    with fields expire_commit_evolves [OF inv Some] show ?thesis
      by (simp add: expire_step_Some expireJob_eq)
  qed
qed

text \<open>A loop whose body keeps the invariant and evolves the jobs evolves them as a whole.\<close>

lemma fold_evolves:
  assumes "queue_inv P (g x)"
    and inv: "\<And>k y. queue_inv P (g y) \<Longrightarrow> queue_inv P (g (f k y))"
    and ev: "\<And>k y. queue_inv P (g y) \<Longrightarrow> jobs_evolve (g y) (g (f k y))"
  shows "jobs_evolve (g x) (g (fold f ks x))"
proof -
  have "queue_inv P (g (fold f ks x)) \<and> jobs_evolve (g x) (g (fold f ks x))"
  proof (rule fold_invariant [where P = "\<lambda>y. queue_inv P (g y) \<and> jobs_evolve (g x) (g y)"])
    show "queue_inv P (g x) \<and> jobs_evolve (g x) (g x)" using assms(1) by simp
  next
    fix k y
    assume "queue_inv P (g y) \<and> jobs_evolve (g x) (g y)"
    then show "queue_inv P (g (f k y)) \<and> jobs_evolve (g x) (g (f k y))"
      using inv [of y k] ev [of y k] jobs_evolve_trans by blast
  qed
  then show ?thesis by simp
qed

lemma supersede_evolves:
  "queue_inv P s \<Longrightarrow> jobs_evolve s (snd (supersedePendingJobsLocked order nj now s))"
  using fold_evolves [of P snd "([], s)" "supersede_step nj key now" order for key]
    supersede_step_inv supersede_step_evolves
  by (simp add: supersedePendingJobsLocked_def Let_def)

lemma PruneAcknowledgedTargets_evolves:
  "queue_inv P s \<Longrightarrow> jobs_evolve s (snd (snd (PruneAcknowledgedTargets order d now s)))"
  using fold_evolves [of P "\<lambda>x. snd (snd x)" "([], 0, s)" "prune_ack_step (now - d) now" order]
    prune_ack_step_inv prune_ack_step_evolves
  by (simp add: PruneAcknowledgedTargets_def)

lemma expireJobsLocked_evolves:
  assumes "queue_inv P s"
  shows "jobs_evolve s (snd (snd (expireJobsLocked order now s)))"
proof -
  have "jobs_evolve s (snd (snd (fold (expire_step now) order ([], [], s))))"
    using fold_evolves [of P "\<lambda>x. snd (snd x)" "([], [], s)" "expire_step now" order] assms
      expire_step_inv expire_step_evolves by simp
  then show ?thesis
    by (simp add: expireJobsLocked_def split_def Let_def jobs_evolve_def recomputeNextExpiryLocked_def)
qed

lemma updateTarget_evolves:
  assumes inv: "queue_inv P s" and f: "evolving f"
  shows "jobs_evolve s (snd (snd (updateTarget a jid f now s)))"
proof (cases "sv_jobs s jid")
  case None
  then show ?thesis by (simp add: updateTarget_None)
next
  case (Some job)
  show ?thesis
  proof (cases "jobShouldExpire job now")
    case True
    with Some expire_commit_evolves [OF inv Some] show ?thesis
      by (simp add: updateTarget_expire expireJob_eq jobs_evolve_def frame_simps)
  next
    case False
    have "jobs_evolve s (snd (commitJobLocked (job\<lparr>j_targets := ts\<rparr>) now target_commit s))"
      if "mutate_targets a now f (j_targets job) = Some ts" for ts
      using that f job_id_of_resident [OF inv Some]
      by (intro commit_evolves [OF inv Some]) (auto intro: mutate_targets_evolve)
    with False Some show ?thesis
      by (simp add: updateTarget_apply applyTargetMutation_eq split: option.splits)
  qed
qed

lemma PruneKeys_evolves: "jobs_evolve s (snd (PruneKeys order d now s))"
proof -
  have "jobs_evolve s (snd (fold (prune_step c) order (0, s)))" for c
  proof (rule fold_invariant [where P = "\<lambda>ns. jobs_evolve s (snd ns)"])
    fix k and ns :: "nat \<times> service"
    assume "jobs_evolve s (snd ns)"
    moreover have "jobs_evolve (snd ns) (snd (prune_step c k ns))"
      by (cases ns) (auto simp: prune_step_def evict_key_def Let_def jobs_evolve_def split: option.splits)
    ultimately show "jobs_evolve s (snd (prune_step c k ns))" by (rule jobs_evolve_trans)
  qed simp
  then show ?thesis by (simp add: PruneKeys_def)
qed

text \<open>Publishing adds one job that was not resident.\<close>

lemma enqueue_finalize_evolves:
  assumes "queue_inv (p # P) s"
  shows "sv_sequence (snd (enqueue_finalize order p now s)) = sv_sequence s"
    and "jid \<noteq> j_id p \<Longrightarrow> sv_jobs (snd (enqueue_finalize order p now s)) jid = Some j' \<Longrightarrow>
      \<exists>j. sv_jobs s jid = Some j \<and> list_all2 evolves (j_targets j) (j_targets j')"
proof -
  have ev: "jobs_evolve (publish_job p s) (snd (enqueue_finalize order p now s))"
    unfolding enqueue_finalize_def
    using publish_job_inv [OF assms(1)] by (rule supersede_evolves)
  then show "sv_sequence (snd (enqueue_finalize order p now s)) = sv_sequence s"
    by (simp add: jobs_evolve_def publish_fields)
  assume "jid \<noteq> j_id p" and "sv_jobs (snd (enqueue_finalize order p now s)) jid = Some j'"
  with ev obtain j where "sv_jobs (publish_job p s) jid = Some j"
      and "list_all2 evolves (j_targets j) (j_targets j')"
    by (auto simp: jobs_evolve_def)
  with \<open>jid \<noteq> j_id p\<close> show "\<exists>j. sv_jobs s jid = Some j \<and> list_all2 evolves (j_targets j) (j_targets j')"
    by (simp add: publish_fields)
qed

text \<open>An identifier that is spent is never given to another job.\<close>

definition spent :: "string \<Rightarrow> queue_state \<Rightarrow> bool" where
  "spent jid x \<longleftrightarrow>
     MaxPrefixed (sv_sequence (fst x)) ''job'' jid = sv_sequence (fst x) \<and> jid \<notin> j_id ` set (snd x)"

definition follows :: "string \<Rightarrow> queue_state \<Rightarrow> queue_state \<Rightarrow> bool" where
  "follows jid x y \<longleftrightarrow> spent jid y \<and>
     (\<forall>j'. sv_jobs (fst y) jid = Some j' \<longrightarrow>
        (\<exists>j. sv_jobs (fst x) jid = Some j \<and> list_all2 evolves (j_targets j) (j_targets j')))"

lemma jobs_evolve_follows: "jobs_evolve s s' \<Longrightarrow> spent jid (s, P) \<Longrightarrow> follows jid (s, P) (s', P)"
  by (auto simp: jobs_evolve_def follows_def spent_def)

lemma target_ops_evolve:
  assumes "queue_inv P s"
  shows "jobs_evolve s (snd (snd (MarkDelivered a jid now s)))"
    and "jobs_evolve s (snd (snd (MarkAcknowledged a jid now s)))"
    and "jobs_evolve s (snd (snd (RecordResult a jid ok m r now s)))"
  using assms mutations_evolving
  by (simp_all add: MarkDelivered_def MarkAcknowledged_def RecordResult_def updateTarget_evolves)

lemma reserve_follows:
  assumes "enqueue_reserve input gen now s = (Inr job, s')" and "sv_sequence s \<noteq> - 1"
    and "spent jid (s, P)"
  shows "follows jid (s, P) (s', job # P)"
proof -
  note res = enqueue_reserve_Inr [OF assms(1)]
  have "sv_sequence s < sv_sequence s + 1" using assms(2) by (rule word_less_inc)
  with assms(3) MaxPrefixed_le_iff [of "sv_sequence s" "''job''" jid "sv_sequence s + 1"]
  show ?thesis
    by (auto simp: follows_def spent_def res MaxPrefixed_job_id max_def split: if_splits)
qed

lemma queue_step_follows:
  assumes "queue_step x y" and inv: "queue_inv (snd x) (fst x)" and sp: "spent jid x"
  shows "follows jid x y"
  using assms(1)
proof cases
  case (reserve input gen now s job s' P)
  with sp show ?thesis by (auto intro: reserve_follows)
next
  case (finalize p P s order now)
  have inv': "queue_inv (p # remove1 p P) s" using finalize inv by (auto intro: queue_inv_remove1)
  have "jid \<noteq> j_id p" using sp finalize by (auto simp: spent_def)
  with enqueue_finalize_evolves [OF inv'] sp finalize show ?thesis
    by (auto simp: follows_def spent_def dest: in_set_remove1 [THEN iffD1] set_remove1_subset [THEN subsetD])
next
  case (rollback p P s)
  with sp show ?thesis
    by (auto simp: follows_def spent_def enqueue_rollback_def dest: set_remove1_subset [THEN subsetD])
next
  case (expire s order P now)
  have "jobs_evolve s (snd (snd (expireJobsLocked order now s)))"
    using inv expire by (auto intro: expireJobsLocked_evolves)
  with expire sp show ?thesis
    by (auto simp: split_def Let_def jobs_evolve_def frame_simps intro!: jobs_evolve_follows)
qed (use inv sp in \<open>auto intro!: jobs_evolve_follows
      intro: target_ops_evolve PruneKeys_evolves PruneAcknowledgedTargets_evolves\<close>)

lemma resident_spent:
  assumes "queue_inv P s" and "sv_jobs s jid = Some j"
  shows "spent jid (s, P)"
  using assms service_invD(1) [OF queue_invD [OF assms(1)] assms(2)]
  by (auto simp: spent_def job_ok_def queue_inv_def reserved_def)

lemma queue_run_follows:
  assumes "queue_step\<^sup>*\<^sup>* x y" and "queue_inv (snd x) (fst x)" and "spent jid x"
  shows "queue_inv (snd y) (fst y) \<and> follows jid x y"
  using assms(1)
proof (induction rule: rtranclp_induct)
  case base
  with assms show ?case by (auto simp: follows_def intro: all2_evolves_refl)
next
  case (step y z)
  have "spent jid y" using step.IH by (simp add: follows_def)
  with step queue_step_follows [of y z jid] have "follows jid y z" by simp
  with step.IH have "follows jid x z"
    by (fastforce simp: follows_def intro: all2_evolves_trans)
  with step queue_step_inv show ?case by blast
qed

end
