(* ===== verification/Recency_Heap.thy ===== *)
theory Recency_Heap
  imports Panvex_Prelude
begin

section \<open>Bounded top-K selection with a binary heap\<close>

text \<open>
  The selection at the core of \<^verbatim>\<open>ListRecentWithContext\<close> (internal/controlplane/jobs/service.go)
  keeps the K newest job keys in a \<^verbatim>\<open>container/heap\<close> min-heap. This theory has the heap
  operations on the backing slice (sift up, sift down, push and fix at the root), the
  selection loop over them, the heap-order and permutation lemmas, and the equivalence of
  the loop with sorting everything and keeping the K largest keys.
\<close>

subsection \<open>The heap on a slice\<close>

definition heap_parent :: "nat \<Rightarrow> nat" where
  "heap_parent j = (j - 1) div 2"

definition heap_swap :: "nat \<Rightarrow> nat \<Rightarrow> 'a list \<Rightarrow> 'a list" where
  "heap_swap i j h = h[i := h ! j, j := h ! i]"

function heap_up :: "'a::linorder list \<Rightarrow> nat \<Rightarrow> 'a list" where
  "heap_up h j =
     (let i = heap_parent j
      in if i = j \<or> \<not> h ! j < h ! i then h else heap_up (heap_swap i j h) i)"
  by pat_completeness auto
termination
proof (relation "measure snd")
  fix h :: "'a list" and j i
  assume "i = heap_parent j" and "\<not> (i = j \<or> \<not> h ! j < h ! i)"
  then have "i < j" by (auto simp: heap_parent_def)
  then show "((heap_swap i j h, i), (h, j)) \<in> measure snd" by simp
qed simp

definition heap_child :: "'a::linorder list \<Rightarrow> nat \<Rightarrow> nat" where
  "heap_child h i =
     (let j1 = 2 * i + 1; j2 = j1 + 1
      in if j2 < length h \<and> h ! j2 < h ! j1 then j2 else j1)"

function heap_down :: "'a::linorder list \<Rightarrow> nat \<Rightarrow> 'a list \<times> nat" where
  "heap_down h i =
     (if 2 * i + 1 \<ge> length h then (h, i)
      else let j = heap_child h i
           in if \<not> h ! j < h ! i then (h, i) else heap_down (heap_swap i j h) j)"
  by pat_completeness auto
termination
proof (relation "measure (\<lambda>(h, i). length h - i)")
  fix h :: "'a list" and i j
  assume "\<not> length h \<le> 2 * i + 1" and "j = heap_child h i"
  then show "((heap_swap i j h, j), (h, i)) \<in> measure (\<lambda>(h, i). length h - i)"
    by (auto simp: heap_child_def heap_swap_def Let_def)
qed simp

declare heap_up.simps [simp del] heap_down.simps [simp del]

definition heap_push :: "'a::linorder \<Rightarrow> 'a list \<Rightarrow> 'a list" where
  "heap_push x h = heap_up (h @ [x]) (length h)"

definition heap_fix :: "'a::linorder list \<Rightarrow> nat \<Rightarrow> 'a list" where
  "heap_fix h i = (let (h', i') = heap_down h i in if i' > i then h' else heap_up h' i)"

definition select_step :: "nat \<Rightarrow> 'a::linorder \<Rightarrow> 'a list \<Rightarrow> 'a list" where
  "select_step limit key h =
     (if length h < limit then heap_push key h
      else if h ! 0 < key then heap_fix (h[0 := key]) 0
      else h)"

definition select_recent :: "nat \<Rightarrow> 'a::linorder list \<Rightarrow> 'a list" where
  "select_recent limit keys = fold (select_step limit) keys []"

subsection \<open>Heap order\<close>

definition heap_ordered :: "'a::linorder list \<Rightarrow> bool" where
  "heap_ordered h \<longleftrightarrow> (\<forall>k < length h. 0 < k \<longrightarrow> h ! heap_parent k \<le> h ! k)"

text \<open>Heap order broken only above, respectively only below, one position.\<close>

definition ordered_but_up :: "'a::linorder list \<Rightarrow> nat \<Rightarrow> bool" where
  "ordered_but_up h j \<longleftrightarrow>
     (\<forall>k < length h. 0 < k \<longrightarrow> k \<noteq> j \<longrightarrow> h ! heap_parent k \<le> h ! k) \<and>
     (\<forall>k < length h. 0 < k \<longrightarrow> 0 < j \<longrightarrow> heap_parent k = j \<longrightarrow> h ! heap_parent j \<le> h ! k)"

definition ordered_but_down :: "'a::linorder list \<Rightarrow> nat \<Rightarrow> bool" where
  "ordered_but_down h i \<longleftrightarrow>
     (\<forall>k < length h. 0 < k \<longrightarrow> heap_parent k \<noteq> i \<longrightarrow> h ! heap_parent k \<le> h ! k) \<and>
     (\<forall>k < length h. 0 < k \<longrightarrow> 0 < i \<longrightarrow> heap_parent k = i \<longrightarrow> h ! heap_parent i \<le> h ! k)"

lemma heap_parent_less: "0 < k \<Longrightarrow> heap_parent k < k"
  by (auto simp: heap_parent_def)

lemma heap_parent_eq_iff: "0 < k \<Longrightarrow> heap_parent k = i \<longleftrightarrow> k = 2 * i + 1 \<or> k = 2 * i + 2"
  by (auto simp: heap_parent_def)

lemma length_heap_swap [simp]: "length (heap_swap i j h) = length h"
  by (simp add: heap_swap_def)

lemma nth_heap_swap:
  "i < length h \<Longrightarrow> j < length h \<Longrightarrow>
     heap_swap i j h ! k = (if k = j then h ! i else if k = i then h ! j else h ! k)"
  by (auto simp: heap_swap_def nth_list_update)

lemma mset_heap_swap [simp]: "i < length h \<Longrightarrow> j < length h \<Longrightarrow> mset (heap_swap i j h) = mset h"
  by (simp add: heap_swap_def mset_swap)

lemma heap_up_mset: "j < length h \<Longrightarrow> mset (heap_up h j) = mset h"
proof (induction h j rule: heap_up.induct)
  case (1 h j)
  have "heap_parent j \<le> j" by (simp add: heap_parent_def)
  with 1 show ?case by (subst heap_up.simps) (simp add: Let_def)
qed

lemma swap_up:
  assumes "ordered_but_up h j" and "j < length h" and "0 < j"
    and less: "h ! j < h ! heap_parent j"
  shows "ordered_but_up (heap_swap (heap_parent j) j h) (heap_parent j)"
proof -
  let ?i = "heap_parent j"
  have i: "?i < j" using \<open>0 < j\<close> by (rule heap_parent_less)
  have le: "h ! heap_parent k \<le> h ! k" if "k < length h" "0 < k" "k \<noteq> j" for k
    using assms(1) that by (simp add: ordered_but_up_def)
  have grand: "h ! ?i \<le> h ! k" if "k < length h" "0 < k" "heap_parent k = j" for k
    using assms(1,3) that by (simp add: ordered_but_up_def)
  have nth: "heap_swap ?i j h ! k = (if k = j then h ! ?i else if k = ?i then h ! j else h ! k)" for k
    using i assms(2) by (simp add: nth_heap_swap)
  show ?thesis
    unfolding ordered_but_up_def length_heap_swap nth
  proof (intro conjI allI impI)
    fix k
    assume k: "k < length h" "0 < k" "k \<noteq> ?i"
    then show "(if heap_parent k = j then h ! ?i else if heap_parent k = ?i then h ! j else h ! heap_parent k)
      \<le> (if k = j then h ! ?i else if k = ?i then h ! j else h ! k)"
      using heap_parent_less [of k] le [of k] grand [of k] less i by auto
  next
    fix k
    assume k: "k < length h" "0 < k" "0 < ?i" "heap_parent k = ?i"
    have "h ! heap_parent ?i \<le> h ! ?i" using le [of ?i] k i assms(2) by simp
    then show "(if heap_parent ?i = j then h ! ?i else if heap_parent ?i = ?i then h ! j else h ! heap_parent ?i)
      \<le> (if k = j then h ! ?i else if k = ?i then h ! j else h ! k)"
      using k heap_parent_less [of ?i] heap_parent_less [of k] le [of k] i by auto
  qed
qed

lemma heap_up_ordered: "ordered_but_up h j \<Longrightarrow> j < length h \<Longrightarrow> heap_ordered (heap_up h j)"
proof (induction h j rule: heap_up.induct)
  case (1 h j)
  show ?case
  proof (cases "heap_parent j = j \<or> \<not> h ! j < h ! heap_parent j")
    case True
    then have "j = 0 \<or> h ! heap_parent j \<le> h ! j" using heap_parent_less [of j] by fastforce
    with 1 have "heap_ordered h" by (auto simp: heap_ordered_def ordered_but_up_def)
    with True show ?thesis by (subst heap_up.simps) (auto simp: Let_def)
  next
    case False
    then have "0 < j" by (auto simp: heap_parent_def intro: gr0I)
    with False 1 swap_up [of h j] heap_parent_less [of j] show ?thesis
      by (subst heap_up.simps) (simp add: Let_def)
  qed
qed

lemma heap_child_props:
  assumes "2 * i + 1 < length h"
  shows "heap_child h i < length h" and "i < heap_child h i" and "heap_parent (heap_child h i) = i"
    and "k < length h \<Longrightarrow> 0 < k \<Longrightarrow> heap_parent k = i \<Longrightarrow> h ! heap_child h i \<le> h ! k"
proof -
  show "heap_child h i < length h" "i < heap_child h i" "heap_parent (heap_child h i) = i"
    using assms by (auto simp: heap_child_def Let_def heap_parent_def)
  assume "k < length h" "0 < k" "heap_parent k = i"
  then show "h ! heap_child h i \<le> h ! k"
    using heap_parent_eq_iff [of k i] by (auto simp: heap_child_def Let_def)
qed

lemma swap_down:
  assumes "ordered_but_down h i" and "2 * i + 1 < length h" and less: "h ! heap_child h i < h ! i"
  shows "ordered_but_down (heap_swap i (heap_child h i) h) (heap_child h i)"
proof -
  let ?j = "heap_child h i"
  note child = heap_child_props [OF assms(2)]
  have le: "h ! heap_parent k \<le> h ! k" if "k < length h" "0 < k" "heap_parent k \<noteq> i" for k
    using assms(1) that by (simp add: ordered_but_down_def)
  have grand: "h ! heap_parent i \<le> h ! k" if "k < length h" "0 < k" "0 < i" "heap_parent k = i" for k
    using assms(1) that by (simp add: ordered_but_down_def)
  have nth: "heap_swap i ?j h ! k = (if k = ?j then h ! i else if k = i then h ! ?j else h ! k)" for k
    using child(1,2) by (simp add: nth_heap_swap)
  show ?thesis
    unfolding ordered_but_down_def length_heap_swap nth
  proof (intro conjI allI impI)
    fix k
    assume k: "k < length h" "0 < k" "heap_parent k \<noteq> ?j"
    show "(if heap_parent k = ?j then h ! i else if heap_parent k = i then h ! ?j else h ! heap_parent k)
      \<le> (if k = ?j then h ! i else if k = i then h ! ?j else h ! k)"
      using k child(1-3) child(4) [of k] le [of k] grand [of ?j] less heap_parent_less [of k] by auto
  next
    fix k
    assume k: "k < length h" "0 < k" "0 < ?j" "heap_parent k = ?j"
    then have "h ! ?j \<le> h ! k" using le [of k] child(2) by auto
    then show "(if heap_parent ?j = ?j then h ! i else if heap_parent ?j = i then h ! ?j else h ! heap_parent ?j)
      \<le> (if k = ?j then h ! i else if k = i then h ! ?j else h ! k)"
      using k child(2,3) heap_parent_less [of k] by auto
  qed
qed

lemma heap_down_props:
  "ordered_but_down h i \<Longrightarrow> i < length h \<Longrightarrow>
     heap_ordered (fst (heap_down h i)) \<and> mset (fst (heap_down h i)) = mset h"
proof (induction h i rule: heap_down.induct)
  case (1 h i)
  show ?case
  proof (cases "2 * i + 1 \<ge> length h \<or> \<not> h ! heap_child h i < h ! i")
    case True
    have "h ! i \<le> h ! k" if k: "k < length h" "0 < k" "heap_parent k = i" for k
    proof -
      have "2 * i + 1 < length h" using k heap_parent_eq_iff [of k i] by auto
      with True heap_child_props(4) [OF this k] show ?thesis by (simp add: not_less)
    qed
    then have "h ! heap_parent k \<le> h ! k" if "k < length h" "0 < k" for k
      using that 1(2) by (cases "heap_parent k = i") (simp_all add: ordered_but_down_def)
    then have "heap_ordered h" by (simp add: heap_ordered_def)
    moreover have "heap_down h i = (h, i)" using True by (subst heap_down.simps) (auto simp: Let_def)
    ultimately show ?thesis by simp
  next
    case False
    then have "heap_down h i = heap_down (heap_swap i (heap_child h i) h) (heap_child h i)"
      by (subst heap_down.simps) (auto simp: Let_def)
    with 1 False swap_down [of h i] heap_child_props [of i h] show ?thesis by simp
  qed
qed

subsection \<open>Push, fix at the root, minimum\<close>

lemma heap_push_props:
  assumes "heap_ordered h"
  shows "heap_ordered (heap_push x h)" and "mset (heap_push x h) = add_mset x (mset h)"
proof -
  have "ordered_but_up (h @ [x]) (length h)"
    using assms by (auto simp: ordered_but_up_def heap_ordered_def nth_append heap_parent_def)
  then show "heap_ordered (heap_push x h)" by (simp add: heap_push_def heap_up_ordered)
  show "mset (heap_push x h) = add_mset x (mset h)" by (simp add: heap_push_def heap_up_mset)
qed

lemma heap_up_root: "heap_up h 0 = h"
  by (subst heap_up.simps) (simp add: heap_parent_def)

lemma heap_fix_root_props:
  assumes "heap_ordered h" and "h \<noteq> []"
  shows "heap_ordered (heap_fix (h[0 := x]) 0)"
    and "mset (heap_fix (h[0 := x]) 0) = add_mset x (mset h - {#h ! 0#})"
proof -
  have "ordered_but_down (h[0 := x]) 0"
    using assms by (auto simp: ordered_but_down_def heap_ordered_def nth_list_update)
  moreover have "heap_fix (h[0 := x]) 0 = fst (heap_down (h[0 := x]) 0)"
    by (simp add: heap_fix_def split_def Let_def heap_up_root)
  ultimately show "heap_ordered (heap_fix (h[0 := x]) 0)"
      and "mset (heap_fix (h[0 := x]) 0) = add_mset x (mset h - {#h ! 0#})"
    using heap_down_props [of "h[0 := x]" 0] assms(2) by (simp_all add: mset_update)
qed

lemma heap_root_le: "heap_ordered h \<Longrightarrow> k < length h \<Longrightarrow> h ! 0 \<le> h ! k"
proof (induction k rule: less_induct)
  case (less k)
  show ?case
  proof (cases "k = 0")
    case False
    then have "h ! 0 \<le> h ! heap_parent k" and "h ! heap_parent k \<le> h ! k"
      using less heap_parent_less [of k] by (auto simp: heap_ordered_def)
    then show ?thesis by (rule order_trans)
  qed simp
qed

subsection \<open>The selection loop\<close>

text \<open>
  What the loop keeps: the keys seen so far split into the heap and the discarded ones,
  none of which exceeds a kept key, and nothing is discarded before the heap is full.
\<close>

definition selected :: "nat \<Rightarrow> 'a::linorder multiset \<Rightarrow> 'a list \<Rightarrow> bool" where
  "selected limit seen h \<longleftrightarrow> heap_ordered h \<and> length h \<le> limit \<and>
     (\<exists>rest. seen = rest + mset h \<and> (\<forall>x \<in># rest. \<forall>y \<in> set h. x \<le> y) \<and>
        (length h < limit \<longrightarrow> rest = {#}))"

lemma selected_push:
  assumes "selected limit seen h" and "length h < limit"
  shows "selected limit (add_mset x seen) (heap_push x h)"
proof -
  have h: "heap_ordered h" and "seen = mset h" using assms by (auto simp: selected_def)
  moreover have "length (heap_push x h) = Suc (length h)"
    using heap_push_props(2) [OF h, of x] by (metis size_add_mset size_mset)
  ultimately show ?thesis
    using heap_push_props [OF h, of x] assms(2) by (simp add: selected_def)
qed

lemma selected_replace:
  assumes sel: "selected limit seen h" and full: "length h = limit" "0 < limit" and less: "h ! 0 < x"
  shows "selected limit (add_mset x seen) (heap_fix (h[0 := x]) 0)"
proof -
  have h: "heap_ordered h" "h \<noteq> []" using sel full by (auto simp: selected_def)
  obtain rest where rest: "seen = rest + mset h" "\<forall>x \<in># rest. \<forall>y \<in> set h. x \<le> y"
    using sel by (auto simp: selected_def)
  note root_fix = heap_fix_root_props [OF h, of x]
  have root: "h ! 0 \<in># mset h" using h(2) by (simp add: hd_conv_nth [symmetric])
  have min: "h ! 0 \<le> y" if "y \<in> set h" for y
    using that heap_root_le [OF h(1)] by (auto simp: in_set_conv_nth)
  have "size (mset (heap_fix (h[0 := x]) 0)) = length h"
    unfolding root_fix(2) using root by (simp add: size_Diff_singleton h(2))
  then have len: "length (heap_fix (h[0 := x]) 0) = limit" using full by simp
  have kept: "y = x \<or> y \<in> set h" if "y \<in> set (heap_fix (h[0 := x]) 0)" for y
    using that root_fix(2) by (metis add_mset_remove_trivial in_diffD insert_iff set_mset_add_mset_insert set_mset_mset)
  have "add_mset x seen = add_mset (h ! 0) rest + mset (heap_fix (h[0 := x]) 0)"
    unfolding root_fix(2) rest(1) using root by (simp add: multiset_eq_iff)
  moreover have "\<forall>u \<in># add_mset (h ! 0) rest. \<forall>y \<in> set (heap_fix (h[0 := x]) 0). u \<le> y"
  proof (intro ballI)
    fix u y
    assume u: "u \<in># add_mset (h ! 0) rest" and y: "y \<in> set (heap_fix (h[0 := x]) 0)"
    have "u \<le> h ! 0" using u rest(2) root by auto
    also have "h ! 0 \<le> y" using kept [OF y] min less by auto
    finally show "u \<le> y" .
  qed
  ultimately show ?thesis using root_fix(1) len by (fastforce simp: selected_def)
qed

lemma selected_skip:
  assumes sel: "selected limit seen h" and full: "length h = limit" and nless: "\<not> h ! 0 < x" 
  shows "selected limit (add_mset x seen) h"
proof -
  obtain rest where rest: "seen = rest + mset h" "\<forall>x \<in># rest. \<forall>y \<in> set h. x \<le> y"
    using sel by (auto simp: selected_def)
  have "x \<le> y" if "y \<in> set h" for y
    using that heap_root_le [of h] sel nless
    by (auto simp: in_set_conv_nth selected_def not_less intro: order_trans)
  with rest have "add_mset x seen = add_mset x rest + mset h"
      and "\<forall>u \<in># add_mset x rest. \<forall>y \<in> set h. u \<le> y" by auto
  with sel full show ?thesis unfolding selected_def by (metis nat_neq_iff)
qed

lemma selected_step:
  assumes "selected limit seen h" and "0 < limit"
  shows "selected limit (add_mset x seen) (select_step limit x h)"
proof -
  have "length h < limit \<or> length h = limit" using assms by (auto simp: selected_def)
  with assms show ?thesis
    using selected_push [OF assms(1)] selected_replace [OF assms(1)] selected_skip [OF assms(1)]
    by (auto simp: select_step_def)
qed

lemma selected_fold:
  "selected limit seen h \<Longrightarrow> 0 < limit \<Longrightarrow>
     selected limit (seen + mset xs) (fold (select_step limit) xs h)"
proof (induction xs arbitrary: seen h)
  case (Cons x xs)
  show ?case using Cons.IH [OF selected_step [OF Cons.prems] Cons.prems(2)] by simp
qed simp

lemma sort_append_split:
  assumes "\<forall>x \<in> set xs. \<forall>y \<in> set ys. x \<le> y"
  shows "sort (xs @ ys) = sort xs @ sort (ys :: 'a::linorder list)"
  using assms by (intro properties_for_sort) (auto simp: sorted_append)

text \<open>The kept keys, newest first, are the first \<open>limit\<close> keys of the whole collection newest first.\<close>

lemma select_recent_top:
  assumes "0 < limit"
  shows "rev (sort (select_recent limit keys)) = take limit (rev (sort keys))"
proof -
  let ?h = "select_recent limit keys"
  have "selected limit ({#} + mset keys) ?h"
    unfolding select_recent_def
    by (rule selected_fold) (simp_all add: assms selected_def heap_ordered_def)
  then obtain rest where rest: "mset keys = rest + mset ?h" "\<forall>x \<in># rest. \<forall>y \<in> set ?h. x \<le> y"
      "length ?h < limit \<longrightarrow> rest = {#}" and len: "length ?h \<le> limit"
    by (auto simp: selected_def)
  obtain rs where rs: "rest = mset rs" by (metis ex_mset)
  have "sort keys = sort (rs @ ?h)"
    using rest(1) rs by (intro properties_for_sort) (simp_all add: mset_append)
  also have "\<dots> = sort rs @ sort ?h" using rest(2) rs by (intro sort_append_split) simp
  finally have "rev (sort keys) = rev (sort ?h) @ rev (sort rs)" by simp
  moreover have "length ?h = limit \<or> rs = []" using len rest(3) rs by auto
  ultimately show ?thesis using len by auto
qed

end
