(* ===== verification/Job_Dispatch.thy ===== *)
theory Job_Dispatch
  imports Job_Queue Recency_Heap
begin

section \<open>Reading the job queue\<close>

text \<open>
  The read paths of internal/controlplane/jobs/service.go: the lookup by identifier, the
  full and the newest-first listings and the dispatch query of one agent. Each of the
  listings first checks the expiry watermark under the read lock and escalates to the
  expiry pass only when it is passed. The second clock value is the one the code reads
  after it has taken the write lock. The results carry the persistence candidates of the
  expiry pass and the service after it.
\<close>

subsection \<open>Operations\<close>

definition Get :: "string \<Rightarrow> service \<Rightarrow> job option" where
  "Get jobID s = sv_jobs s jobID"

definition job_recency :: "job \<Rightarrow> gotime \<times> string" where
  "job_recency j = (j_createdAt j, j_id j)"

definition sortJobsByCreatedAt :: "job list \<Rightarrow> job list" where
  "sortJobsByCreatedAt = sort_key job_recency"

definition snapshot :: "string list \<Rightarrow> service \<Rightarrow> job list" where
  "snapshot order s = List.map_filter (sv_jobs s) order"

definition expiry_pass ::
    "string list \<Rightarrow> gotime \<Rightarrow> service \<Rightarrow> persist_candidate list \<times> service" where
  "expiry_pass order now s =
     (let (candidates, expired, s') = expireJobsLocked order now s
      in (candidates, invokeExpiryHook expired s'))"

definition ListWithContext ::
    "string list \<Rightarrow> gotime \<Rightarrow> gotime \<Rightarrow> service \<Rightarrow> job list \<times> persist_candidate list \<times> service" where
  "ListWithContext order now now' s =
     (if \<not> anyJobNeedsExpiryLocked now s
      then (sortJobsByCreatedAt (snapshot order s), [], s)
      else let (candidates, s') = expiry_pass order now' s
           in (sortJobsByCreatedAt (snapshot order s'), candidates, s'))"

definition targetIsPending :: "job_target \<Rightarrow> gotime \<Rightarrow> duration \<Rightarrow> bool" where
  "targetIsPending t now retryAfter =
     (case t_status t of
        TargetStatusQueued \<Rightarrow> True
      | TargetStatusSent \<Rightarrow> is_zero_time (t_updatedAt t) \<or> \<not> now < t_updatedAt t + retryAfter
      | TargetStatusAcknowledged \<Rightarrow> is_zero_time (t_updatedAt t) \<or> \<not> now < t_updatedAt t + retryAfter
      | _ \<Rightarrow> False)"

definition jobIsPendingForAgent :: "job \<Rightarrow> string \<Rightarrow> gotime \<Rightarrow> duration \<Rightarrow> bool" where
  "jobIsPendingForAgent job agentID now retryAfter =
     (case List.find (\<lambda>t. t_agentID t = agentID) (j_targets job) of
        None \<Rightarrow> False
      | Some t \<Rightarrow> targetIsPending t now retryAfter)"

definition pending_jobs :: "string list \<Rightarrow> string \<Rightarrow> gotime \<Rightarrow> duration \<Rightarrow> service \<Rightarrow> job list" where
  "pending_jobs jobsForAgent agentID now retryAfter s =
     filter (\<lambda>job. jobIsPendingForAgent job agentID now retryAfter) (snapshot jobsForAgent s)"

text \<open>
  The visiting order of the agent's index entry depends on the state it is read in, so it
  is a function of that entry.
\<close>

definition PendingForAgent ::
    "(string set \<Rightarrow> string list) \<Rightarrow> string list \<Rightarrow> string \<Rightarrow> duration \<Rightarrow> gotime \<Rightarrow> gotime \<Rightarrow> service
     \<Rightarrow> job list \<times> persist_candidate list \<times> service" where
  "PendingForAgent visit order agentID retryAfter now now' s =
     (if \<not> anyJobNeedsExpiryLocked now s
      then (sortJobsByCreatedAt (pending_jobs (visit (indexed s agentID)) agentID now retryAfter s), [], s)
      else let (candidates, s') = expiry_pass order now' s
           in (sortJobsByCreatedAt (pending_jobs (visit (indexed s' agentID)) agentID now' retryAfter s'),
               candidates, s'))"

definition DefaultListRecentLimit :: int where
  "DefaultListRecentLimit = 200"

definition maxListRecentLimit :: int where
  "maxListRecentLimit = DefaultListRecentLimit * 5"

definition recent_limit :: "int \<Rightarrow> nat" where
  "recent_limit limit =
     (let l = (if limit \<le> 0 then DefaultListRecentLimit else limit)
      in nat (if l > maxListRecentLimit then maxListRecentLimit else l))"

definition olderThan :: "gotime \<times> string \<Rightarrow> gotime \<times> string \<Rightarrow> bool" where
  "olderThan a b = (if fst a = fst b then snd a < snd b else fst a < fst b)"

definition ListRecentWithContext ::
    "string list \<Rightarrow> int \<Rightarrow> gotime \<Rightarrow> gotime \<Rightarrow> service \<Rightarrow> job list \<times> persist_candidate list \<times> service" where
  "ListRecentWithContext order limit now now' s =
     (let (candidates, s') = (if anyJobNeedsExpiryLocked now s then expiry_pass order now' s else ([], s));
          keys = select_recent (recent_limit limit)
                   (List.map_filter (\<lambda>i. map_option (\<lambda>j. (j_createdAt j, i)) (sv_jobs s' i)) order)
      in (snapshot (map snd (rev (sort keys))) s', candidates, s'))"

subsection \<open>The expiry pass\<close>

lemma expire_step_jobs:
  assumes "queue_inv P (snd (snd ces))"
  shows "sv_jobs (snd (snd (expire_step now jid ces))) k =
    (if k = jid
     then map_option (\<lambda>j. if jobShouldExpire j now then expired_job now j else j) (sv_jobs (snd (snd ces)) k)
     else sv_jobs (snd (snd ces)) k)"
proof (cases ces)
  case (fields cands es s)
  with assms have inv: "queue_inv P s" by simp
  show ?thesis
  proof (cases "sv_jobs s jid")
    case None
    with fields show ?thesis by (simp add: expire_step_None)
  next
    case (Some job)
    with fields job_id_of_resident [OF inv Some] show ?thesis
      by (simp add: expire_step_Some expireJob_eq commit_jobs commit_status_def)
  qed
qed

text \<open>The pass rewrites exactly the overdue jobs, each as one expiry of it does.\<close>

lemma expire_fold_jobs:
  assumes "queue_inv P (snd (snd ces))" and "distinct order"
  shows "sv_jobs (snd (snd (fold (expire_step now) order ces))) k =
    (if k \<in> set order
     then map_option (\<lambda>j. if jobShouldExpire j now then expired_job now j else j) (sv_jobs (snd (snd ces)) k)
     else sv_jobs (snd (snd ces)) k)"
  using assms
proof (induction order arbitrary: ces)
  case (Cons x xs)
  then show ?case
    using Cons.IH [OF expire_step_inv [OF Cons.prems(1)]] expire_step_jobs [OF Cons.prems(1), of now x]
    by auto
qed simp

lemma expire_jobs:
  assumes "queue_inv P s" and "range_order (sv_jobs s) order"
  shows "sv_jobs (snd (expiry_pass order now s)) k =
    map_option (\<lambda>j. if jobShouldExpire j now then expired_job now j else j) (sv_jobs s k)"
proof -
  have "k \<notin> set order \<Longrightarrow> sv_jobs s k = None"
    using range_order_set [OF assms(2)] by auto
  then show ?thesis
    using expire_fold_jobs [of P "([], [], s)" order now k] assms range_order_distinct [OF assms(2)]
    by (auto simp: expiry_pass_def expireJobsLocked_def split_def Let_def frame_simps
        recomputeNextExpiryLocked_def)
qed

lemma expiry_pass_inv:
  assumes "queue_inv P s" and "range_order (sv_jobs s) order"
  shows "queue_inv P (snd (expiry_pass order now s))"
proof -
  have "queue_inv P (snd (snd (expireJobsLocked order now s)))"
    using assms by (rule expireJobsLocked_inv)
  then show ?thesis
    by (rule queue_inv_cong) (simp_all add: expiry_pass_def split_def Let_def frame_simps)
qed

text \<open>The watermark is never later than the earliest deadline.\<close>

lemma watermark_sound:
  assumes "service_inv s" and "\<not> anyJobNeedsExpiryLocked now s" and "sv_jobs s jid = Some j"
  shows "\<not> jobShouldExpire j now"
  using assms(2) service_invD(4) [OF assms(1,3)]
  by (auto simp: jobShouldExpire_def watermark_ok_def anyJobNeedsExpiryLocked_def is_zero_time_def
      split: if_splits)

subsection \<open>The dispatch query\<close>

lemma set_snapshot: "set (snapshot order s) = {j. \<exists>k \<in> set order. sv_jobs s k = Some j}"
  by (auto simp: snapshot_def List.map_filter_def image_iff) force

lemma pending_find:
  assumes "jobIsPendingForAgent j a now r"
  obtains t where "t \<in> set (j_targets j)" and "t_agentID t = a" and "targetIsPending t now r"
proof -
  from assms obtain t where t: "List.find (\<lambda>t. t_agentID t = a) (j_targets j) = Some t"
      and "targetIsPending t now r"
    by (auto simp: jobIsPendingForAgent_def split: option.splits)
  moreover from t have "t \<in> set (j_targets j)" and "t_agentID t = a"
    by (auto simp: find_Some_iff)
  ultimately show ?thesis using that by blast
qed

lemma targetIsPending_active: "targetIsPending t now r \<Longrightarrow> is_active (t_status t)"
  by (auto simp: targetIsPending_def is_active_def split: target_status.splits)

lemma pending_indexed:
  assumes "queue_inv P s" and "sv_jobs s jid = Some j" and "jobIsPendingForAgent j a now r" and "a \<noteq> []"
  shows "jid \<in> indexed s a"
  using service_invD(3) [OF queue_invD [OF assms(1)] assms(2)] assms(3,4)
  by (auto simp: index_ok_def elim!: pending_find dest: targetIsPending_active)

lemma pending_jobs_complete:
  assumes "queue_inv P s" and "set ks = indexed s a" and "a \<noteq> []"
  shows "set (pending_jobs ks a now r s) =
    {j. \<exists>jid. sv_jobs s jid = Some j \<and> jobIsPendingForAgent j a now r}"
  using assms pending_indexed [OF assms(1)] by (auto simp: pending_jobs_def set_snapshot)

lemma expired_not_pending: "\<not> jobIsPendingForAgent (expired_job now j) a now' r"
proof
  assume "jobIsPendingForAgent (expired_job now j) a now' r"
  then obtain t where "t \<in> set (map (expire_target now) (j_targets j))" and "targetIsPending t now' r"
    by (auto elim: pending_find)
  then have "is_final (t_status t)" and "is_active (t_status t)"
    by (auto dest: targetIsPending_active)
  then show False by (simp add: is_final_not_active)
qed

lemma sortJobs_set [simp]: "set (sortJobsByCreatedAt js) = set js"
  by (simp add: sortJobsByCreatedAt_def)

lemma sortJobs_sorted: "sorted (map job_recency (sortJobsByCreatedAt js))"
  by (simp add: sortJobsByCreatedAt_def)

lemma snapshot_ids:
  assumes "queue_inv P s"
  shows "map j_id (snapshot ks s) = filter (\<lambda>k. k \<in> dom (sv_jobs s)) ks"
  using job_id_of_resident [OF assms] by (induction ks) (auto simp: snapshot_def List.map_filter_def)

lemma snapshot_distinct: "queue_inv P s \<Longrightarrow> distinct ks \<Longrightarrow> distinct (map j_id (snapshot ks s))"
  by (simp add: snapshot_ids)

lemma distinct_map_sortJobs [simp]: "distinct (map j_id (sortJobsByCreatedAt js)) = distinct (map j_id js)"
  by (simp add: sortJobsByCreatedAt_def distinct_map)

text \<open>A listing of a set: every element once.\<close>

definition visits :: "('k set \<Rightarrow> 'k list) \<Rightarrow> 'k set \<Rightarrow> bool" where
  "visits visit J \<longleftrightarrow> distinct (visit J) \<and> set (visit J) = J"

lemma PendingForAgent_exact:
  assumes inv: "queue_inv P s" and a: "a \<noteq> []" and order: "range_order (sv_jobs s) order"
    and v: "visits visit (indexed s a)" "visits visit (indexed (snd (expiry_pass order now' s)) a)"
    and t: "t = (if anyJobNeedsExpiryLocked now s then now' else now)"
    and js: "js = fst (PendingForAgent visit order a r now now' s)"
  shows "set js = {j. \<exists>jid. sv_jobs s jid = Some j \<and> \<not> jobShouldExpire j t \<and> jobIsPendingForAgent j a t r}"
    and "sorted (map job_recency js)" and "distinct (map j_id js)"
proof -
  note inv' = expiry_pass_inv [OF inv order]
  show "sorted (map job_recency js)"
    unfolding js by (simp add: PendingForAgent_def split_def Let_def sortJobs_sorted)
  show "distinct (map j_id js)"
    using v snapshot_distinct [OF inv] snapshot_distinct [OF inv']
    by (auto simp: js PendingForAgent_def split_def Let_def pending_jobs_def visits_def
        distinct_map_filter)
  show "set js = {j. \<exists>jid. sv_jobs s jid = Some j \<and> \<not> jobShouldExpire j t \<and> jobIsPendingForAgent j a t r}"
  proof (cases "anyJobNeedsExpiryLocked now s")
    case False
    with v watermark_sound [OF queue_invD [OF inv] False] t show ?thesis
      unfolding js PendingForAgent_def
      by (auto simp: pending_jobs_complete [OF inv _ a] visits_def)
  next
    case True
    have "set js = {j. \<exists>jid. sv_jobs (snd (expiry_pass order now' s)) jid = Some j \<and>
        jobIsPendingForAgent j a now' r}"
      using True v(2) unfolding js PendingForAgent_def
      by (simp add: split_def Let_def pending_jobs_complete [OF inv' _ a] visits_def)
    also have "\<dots> = {j. \<exists>jid. sv_jobs s jid = Some j \<and> \<not> jobShouldExpire j now' \<and>
        jobIsPendingForAgent j a now' r}"
      by (auto simp: expire_jobs [OF inv order] expired_not_pending)
        (metis expired_not_pending)
    finally show ?thesis using True t by simp
  qed
qed

subsection \<open>The newest-first listing\<close>

lemma olderThan_less: "olderThan a b \<longleftrightarrow> a < b"
  by (cases a; cases b) (auto simp: olderThan_def less_prod_def)

lemma sort_map_key: "sort (map f xs) = map f (sort_key f xs)"
  by (intro properties_for_sort) simp_all

lemma recency_keys:
  assumes "queue_inv P s"
  shows "List.map_filter (\<lambda>i. map_option (\<lambda>j. (j_createdAt j, i)) (sv_jobs s i)) order =
    map job_recency (snapshot order s)"
  using job_id_of_resident [OF assms]
  by (induction order) (auto simp: snapshot_def List.map_filter_def job_recency_def)

lemma snapshot_of_ids:
  assumes "queue_inv P s" and "\<forall>j \<in> set js. \<exists>k. sv_jobs s k = Some j"
  shows "snapshot (map j_id js) s = js"
  using assms(2) job_id_of_resident [OF assms(1)]
  by (induction js) (auto simp: snapshot_def List.map_filter_def)

lemma recent_limit_pos: "0 < recent_limit limit"
  by (simp add: recent_limit_def Let_def DefaultListRecentLimit_def maxListRecentLimit_def)

lemma top_snapshot:
  assumes "queue_inv P s"
  shows "snapshot (map snd (rev (sort (select_recent (recent_limit l)
      (List.map_filter (\<lambda>i. map_option (\<lambda>j. (j_createdAt j, i)) (sv_jobs s i)) order))))) s =
    take (recent_limit l) (rev (sortJobsByCreatedAt (snapshot order s)))"
proof -
  let ?top = "take (recent_limit l) (rev (sortJobsByCreatedAt (snapshot order s)))"
  have "rev (sort (select_recent (recent_limit l) (map job_recency (snapshot order s)))) = map job_recency ?top"
    by (simp add: select_recent_top [OF recent_limit_pos] sort_map_key sortJobsByCreatedAt_def
        rev_map take_map)
  moreover have "map snd (map job_recency ?top) = map j_id ?top"
    by (simp add: job_recency_def)
  moreover have "snapshot (map j_id ?top) s = ?top"
    by (rule snapshot_of_ids [OF assms]) (auto simp: set_snapshot dest!: in_set_takeD)
  ultimately show ?thesis by (simp only: recency_keys [OF assms])
qed

lemma ListRecent_top:
  assumes "queue_inv P s" and "range_order (sv_jobs s) order"
  shows "fst (ListRecentWithContext order limit now now' s) =
    take (recent_limit limit) (rev (fst (ListWithContext order now now' s)))"
  using top_snapshot [OF assms(1)] top_snapshot [OF expiry_pass_inv [OF assms]]
  by (simp add: ListRecentWithContext_def ListWithContext_def Let_def split_def)

end
