(* ===== verification/Job_Persist.thy ===== *)
theory Job_Persist
  imports Job_Dispatch
begin

section \<open>The job service and its store\<close>

text \<open>
  The service writes jobs through the \<^verbatim>\<open>Store\<close> interface (service.go) and reads them back when
  a job is no longer in memory. The interface is the locale \<open>job_store\<close>: what a read returns
  after a write, up to the precision of the stored instants. The SQLite tables of
  \<open>Job_Store\<close> are an instance. The theory has the write path of one job, the retry loop
  that brings the store up to the latest version, the whole \<^verbatim>\<open>Enqueue\<close> and the lookup that
  falls back to the store.
\<close>

subsection \<open>Writing a job\<close>

fun persist_targets ::
    "(job_target_record \<Rightarrow> 'db \<Rightarrow> store_error + 'db) \<Rightarrow> string \<Rightarrow> job_target list \<Rightarrow> 'db
     \<Rightarrow> store_error option \<times> 'db" where
  "persist_targets putT jobID [] db = (None, db)"
| "persist_targets putT jobID (t # ts) db =
     (case putT (jobTargetToRecord jobID t) db of
        Inl e \<Rightarrow> (Some e, db)
      | Inr db' \<Rightarrow> persist_targets putT jobID ts db')"

definition persistJob ::
    "(job_record \<Rightarrow> 'db \<Rightarrow> store_error + 'db) \<Rightarrow> (job_target_record \<Rightarrow> 'db \<Rightarrow> store_error + 'db)
     \<Rightarrow> job \<Rightarrow> 'db \<Rightarrow> store_error option \<times> 'db" where
  "persistJob put putT job db =
     (case put (jobToRecord job) db of
        Inl e \<Rightarrow> (Some e, db)
      | Inr db' \<Rightarrow> persist_targets putT (j_id job) (j_targets job) db')"

datatype persist_outcome = PersistFailed store_error | PersistDone | PersistRunning

text \<open>
  One element of the list per pass of the loop: the service as the pass sees it when it
  takes the lock. \<open>PersistRunning\<close> is a loop that has not returned after these passes.
\<close>

fun persistLatestJobVersion ::
    "(job \<Rightarrow> 'db \<Rightarrow> store_error option \<times> 'db) \<Rightarrow> service list \<Rightarrow> string \<Rightarrow> uint64 \<Rightarrow> job \<Rightarrow> 'db
     \<Rightarrow> persist_outcome \<times> 'db" where
  "persistLatestJobVersion persist [] jobID version job db = (PersistRunning, db)"
| "persistLatestJobVersion persist (s # ss) jobID version job db =
     (case persist job db of
        (Some e, db') \<Rightarrow> (PersistFailed e, db')
      | (None, db') \<Rightarrow>
          (case sv_jobVersion s jobID of
             None \<Rightarrow> (PersistDone, db')
           | Some current \<Rightarrow>
               if current = version then (PersistDone, db')
               else case sv_jobs s jobID of
                      None \<Rightarrow> (PersistDone, db')
                    | Some latest \<Rightarrow>
                        persistLatestJobVersion persist ss jobID current latest db'))"

subsection \<open>Enqueue\<close>

datatype enqueue_failure = EnqueueRejected enqueue_error | EnqueueNotPersisted store_error

definition persist_candidates ::
    "(job \<Rightarrow> 'db \<Rightarrow> store_error option \<times> 'db) \<Rightarrow> service \<Rightarrow> persist_candidate list \<Rightarrow> 'db \<Rightarrow> 'db" where
  "persist_candidates persist s cs db =
     fold (\<lambda>c d. snd (persistLatestJobVersion persist [s, s] (pc_jobID c) (pc_version c) (pc_job c) d)) cs db"

definition Enqueue ::
    "(job \<Rightarrow> 'db \<Rightarrow> store_error option \<times> 'db) \<Rightarrow> string list \<Rightarrow> create_job_input \<Rightarrow> string \<Rightarrow> gotime
     \<Rightarrow> service \<Rightarrow> 'db \<Rightarrow> (enqueue_failure + job) \<times> service \<times> 'db" where
  "Enqueue persist order input generated now s db =
     (case enqueue_reserve input generated now s of
        (Inl e, s1) \<Rightarrow> (Inl (EnqueueRejected e), s1, db)
      | (Inr job, s1) \<Rightarrow>
          (case (if sv_hasStore s1 then persist job db else (None, db)) of
             (Some e, db1) \<Rightarrow> (Inl (EnqueueNotPersisted e), enqueue_rollback job s1, db1)
           | (None, db1) \<Rightarrow>
               let (cands, s2) = enqueue_finalize order job now s1
               in (Inr job, s2, persist_candidates persist s2 cands db1)))"

subsection \<open>Lookup with the store behind it\<close>

definition GetWithContext ::
    "(string \<Rightarrow> store_error + job_record) \<Rightarrow> (string \<Rightarrow> store_error + job_target_record list)
     \<Rightarrow> string \<Rightarrow> service \<Rightarrow> store_error + job option" where
  "GetWithContext getJob listTargets jobID s =
     (case Get jobID s of
        Some job \<Rightarrow> Inr (Some job)
      | None \<Rightarrow>
          if \<not> sv_hasStore s \<or> jobID = [] then Inr None
          else case getJob jobID of
                 Inl e \<Rightarrow> if e = ErrNotFound then Inr None else Inl e
               | Inr record \<Rightarrow>
                   (case listTargets jobID of
                      Inl e \<Rightarrow> Inl e
                    | Inr targets \<Rightarrow> Inr (Some (buildJobWithTargets record targets))))"

subsection \<open>The interface\<close>

locale job_store =
  fixes put :: "job_record \<Rightarrow> 'db \<Rightarrow> store_error + 'db"
    and get :: "string \<Rightarrow> 'db \<Rightarrow> store_error + job_record"
    and put_target :: "job_target_record \<Rightarrow> 'db \<Rightarrow> store_error + 'db"
    and list_targets :: "string \<Rightarrow> 'db \<Rightarrow> job_target_record list"
    and db_ok :: "'db \<Rightarrow> bool"
    and trunc :: "gotime \<Rightarrow> gotime"
  assumes put_ok: "db_ok db \<Longrightarrow> put rec db = Inr db' \<Longrightarrow> db_ok db'"
    and put_target_ok: "db_ok db \<Longrightarrow> put_target trec db = Inr db' \<Longrightarrow> db_ok db'"
    and get_put: "db_ok db \<Longrightarrow> put rec db = Inr db' \<Longrightarrow>
      get jid db' = (if jid = r_id rec then Inr (rec\<lparr>r_createdAt := trunc (r_createdAt rec)\<rparr>) else get jid db)"
    and get_put_target: "put_target trec db = Inr db' \<Longrightarrow> get jid db' = get jid db"
    and targets_put: "put rec db = Inr db' \<Longrightarrow> list_targets jid db' = list_targets jid db"
    and targets_put_target: "db_ok db \<Longrightarrow> put_target trec db = Inr db' \<Longrightarrow>
      set (list_targets jid db') =
        (if jid = tr_jobID trec
         then insert (trec\<lparr>tr_updatedAt := trunc (tr_updatedAt trec)\<rparr>)
           {t \<in> set (list_targets jid db). tr_agentID t \<noteq> tr_agentID trec}
         else set (list_targets jid db))"
begin

definition stored_row :: "string \<Rightarrow> job_target \<Rightarrow> job_target_record" where
  "stored_row jid t = jobTargetToRecord jid (t\<lparr>t_updatedAt := trunc (t_updatedAt t)\<rparr>)"

lemma persist_targets_rows:
  assumes "db_ok db" and "persist_targets put_target jid ts db = (None, db')" and "distinct (map t_agentID ts)"
  shows "db_ok db' \<and> (\<forall>k. get k db' = get k db) \<and>
    set (list_targets jid db') =
      stored_row jid ` set ts \<union> {r \<in> set (list_targets jid db). tr_agentID r \<notin> t_agentID ` set ts}"
  using assms
proof (induction ts arbitrary: db)
  case (Cons t ts)
  then obtain db1 where db1: "put_target (jobTargetToRecord jid t) db = Inr db1"
      and rest: "persist_targets put_target jid ts db1 = (None, db')"
    by (auto split: sum.splits)
  have "db_ok db1" using Cons.prems(1) db1 by (rule put_target_ok)
  note IH = Cons.IH [OF this rest]
  show ?case
    using IH Cons.prems(3) targets_put_target [OF Cons.prems(1) db1, of jid] get_put_target [OF db1]
    by (auto simp: stored_row_def jobTargetToRecord_def)
qed simp

text \<open>A job that was written and then dropped from memory is read back from the store.\<close>

lemma persisted_readable:
  assumes ok: "db_ok db" and written: "persistJob put put_target job db = (None, db')"
    and job: "canonical_job job" "distinct (map t_agentID (j_targets job))" "j_id job \<noteq> []"
    and old: "tr_agentID ` set (list_targets (j_id job) db) \<subseteq> t_agentID ` set (j_targets job)"
    and gone: "Get (j_id job) s = None" "sv_hasStore s"
  shows "\<exists>job'. GetWithContext (\<lambda>i. get i db') (\<lambda>i. Inr (list_targets i db')) (j_id job) s = Inr (Some job') \<and>
    job'\<lparr>j_targets := [], j_targetAgentIDs := []\<rparr> =
      job\<lparr>j_createdAt := trunc (j_createdAt job), j_targets := [], j_targetAgentIDs := []\<rparr> \<and>
    set (j_targets job') = (\<lambda>t. t\<lparr>t_updatedAt := trunc (t_updatedAt t)\<rparr>) ` set (j_targets job)"
proof -
  from written obtain db1 where db1: "put (jobToRecord job) db = Inr db1"
      and ts: "persist_targets put_target (j_id job) (j_targets job) db1 = (None, db')"
    by (auto simp: persistJob_def split: sum.splits)
  note rows = persist_targets_rows [OF put_ok [OF ok db1] ts job(2)]
  have "set (list_targets (j_id job) db') = stored_row (j_id job) ` set (j_targets job)"
    using rows old unfolding targets_put [OF db1] by auto
  moreover have "jobTargetFromRecord (stored_row (j_id job) t) = t\<lparr>t_updatedAt := trunc (t_updatedAt t)\<rparr>"
    if "t \<in> set (j_targets job)" for t
    using job(1) that unfolding stored_row_def
    by (intro target_record_roundtrip) (simp add: canonical_job_def canonical_target_def list_all_iff)
  ultimately have "jobTargetFromRecord ` set (list_targets (j_id job) db') =
      (\<lambda>t. t\<lparr>t_updatedAt := trunc (t_updatedAt t)\<rparr>) ` set (j_targets job)"
    by (simp add: image_image)
  moreover have "get (j_id job) db' = Inr ((jobToRecord job)\<lparr>r_createdAt := trunc (j_createdAt job)\<rparr>)"
    using rows get_put [OF ok db1, of "j_id job"] by (simp add: jobToRecord_def)
  ultimately show ?thesis
    using gone job(1,3)
    by (simp add: GetWithContext_def buildJobWithTargets_def jobFromRecord_def jobToRecord_def Let_def
        canonical_job_def canonical_action_def canonical_status_def)
qed

end

interpretation sqlite: job_store "PutJob json_valid" GetJob PutJobTarget ListJobTargets db_inv stored_time
proof unfold_locales
  show "db_inv db'" if "db_inv db" "PutJob json_valid rec db = Inr db'" for db db' rec
    using that by (rule PutJob_inv)
  show "db_inv db'" if "db_inv db" "PutJobTarget rec db = Inr db'" for db db' rec
    using that by (rule PutJobTarget_inv)
  show "GetJob jid db' = GetJob jid db" if "PutJobTarget rec db = Inr db'" for db db' rec jid
    using that by (rule GetJob_PutJobTarget)
  show "ListJobTargets jid db' = ListJobTargets jid db" if "PutJob json_valid rec db = Inr db'" for db db' rec jid
    using that by (rule ListJobTargets_PutJob)
qed (simp_all only: GetJob_PutJob set_ListJobTargets_PutJobTarget stored_job_def stored_target_def)

subsection \<open>The retry loop\<close>

text \<open>A pass that sees the version it has just written is the last one.\<close>

lemma persistLatest_same_version:
  "sv_jobVersion s jid = Some v \<Longrightarrow> fst (persistLatestJobVersion persist (s # ss) jid v job db) \<noteq> PersistRunning"
  by (auto split: option.splits prod.splits)

lemma persistLatest_stops:
  assumes "sv_jobVersion s jid = sv_jobVersion s' jid"
  shows "fst (persistLatestJobVersion persist (ss @ [s, s']) jid v job db) \<noteq> PersistRunning"
proof (induction ss arbitrary: v job db)
  case Nil
  show ?case
    using assms by (auto split: option.splits prod.splits)
next
  case (Cons x xs)
  then show ?case by (auto split: option.splits prod.splits)
qed

subsection \<open>Outcomes of Enqueue\<close>

lemma rollback_restores:
  assumes "enqueue_reserve input gen now s = (Inr job, s1)"
  shows "enqueue_rollback job s1 = s\<lparr>sv_sequence := sv_sequence s + 1\<rparr>"
proof -
  note res = enqueue_reserve_Inr [OF assms]
  have "(sv_keys s)(enqueue_key input gen := None) = sv_keys s"
    using res(1) by (rule fun_upd_idem)
  then show ?thesis by (simp add: enqueue_rollback_def res)
qed

lemma enqueue_key_taken:
  assumes inv: "queue_inv P s" and "sv_jobs s jid = Some j \<or> j \<in> set P"
    and "j_key j = enqueue_key input gen" and "enqueue_key input gen \<noteq> []"
  shows "enqueue_reserve input gen now s = (Inl ErrDuplicateIdempotencyKey, s)"
proof -
  have "sv_keys s (enqueue_key input gen) \<noteq> None"
    using assms(2)
  proof
    assume "sv_jobs s jid = Some j"
    from service_invD(2) [OF queue_invD [OF inv] this] assms(3,4) show ?thesis by (simp add: key_ok_def)
  next
    assume "j \<in> set P"
    then show ?thesis using inv assms(3) by (auto simp: queue_inv_def reserved_def)
  qed
  then show ?thesis by (simp add: enqueue_reserve_def Let_def)
qed

subsection \<open>Superseding\<close>

lemma supersede_step_jobs:
  assumes "queue_inv P (snd cs)"
  shows "sv_jobs (snd (supersede_step nj key now jid cs)) k =
    (if k = jid
     then map_option (\<lambda>j. if supersededByNewerLocked (snd cs) jid j nj key \<and> covers nj j
        then (superseded_job nj now j)\<lparr>j_status := deriveJobStatus (j_targets (superseded_job nj now j))\<rparr>
        else j) (sv_jobs (snd cs) k)
     else sv_jobs (snd cs) k)"
proof (cases cs)
  case (Pair cands s)
  with assms have inv: "queue_inv P s" by simp
  show ?thesis
  proof (cases "sv_jobs s jid")
    case None
    with Pair show ?thesis by (simp add: supersede_step_None)
  next
    case (Some job)
    with Pair job_id_of_resident [OF inv Some] show ?thesis
      by (simp add: supersede_step_Some commit_jobs commit_status_def Let_def)
  qed
qed

lemma superseded_cong:
  "sv_supersedeKey s = sv_supersedeKey r \<Longrightarrow>
     supersededByNewerLocked s jid j nj key = supersededByNewerLocked r jid j nj key"
  by (simp add: supersededByNewerLocked_def supersedeKeyLocked_def)

lemma supersede_step_rule: "sv_supersedeKey (snd (supersede_step nj key now jid cs)) = sv_supersedeKey (snd cs)"
  by (cases cs; cases "sv_jobs (snd cs) jid")
    (auto simp: supersede_step_None supersede_step_Some Let_def commit_supersedeKey)

lemma supersede_fold_jobs:
  assumes "queue_inv P (snd cs)" and "distinct order"
  shows "sv_jobs (snd (fold (supersede_step nj key now) order cs)) k =
    (if k \<in> set order
     then map_option (\<lambda>j. if supersededByNewerLocked (snd cs) k j nj key \<and> covers nj j
        then (superseded_job nj now j)\<lparr>j_status := deriveJobStatus (j_targets (superseded_job nj now j))\<rparr>
        else j) (sv_jobs (snd cs) k)
     else sv_jobs (snd cs) k)"
  using assms
proof (induction order arbitrary: cs)
  case (Cons x xs)
  then show ?case
    using Cons.IH [OF supersede_step_inv [OF Cons.prems(1)]] supersede_step_jobs [OF Cons.prems(1), of nj key now x]
      superseded_cong [OF supersede_step_rule, of nj key now x cs]
    by auto
qed simp

text \<open>What publishing a job does to every job of the queue.\<close>

lemma finalize_jobs:
  assumes inv: "queue_inv (p # P) s" and order: "range_order (sv_jobs (publish_job p s)) order"
    and key: "key = supersedeKeyLocked s (j_action p) (j_payload p)"
  shows "sv_jobs (snd (enqueue_finalize order p now s)) k =
    (if k = j_id p then Some p
     else map_option (\<lambda>j. if key \<noteq> [] \<and> supersededByNewerLocked s k j p key \<and> covers p j
        then (superseded_job p now j)\<lparr>j_status := deriveJobStatus (j_targets (superseded_job p now j))\<rparr>
        else j) (sv_jobs s k))"
proof -
  have inv': "queue_inv P (publish_job p s)" using inv by (rule publish_job_inv)
  have rule: "sv_supersedeKey (publish_job p s) = sv_supersedeKey s" by (simp add: publish_fields)
  have key': "supersedeKeyLocked (publish_job p s) (j_action p) (j_payload p) = key"
    using key rule by (simp add: supersedeKeyLocked_def)
  have self: "\<not> supersededByNewerLocked r (j_id p) j p key" for r j
    by (simp add: supersededByNewerLocked_def)
  have dom: "k \<notin> set order \<Longrightarrow> k \<noteq> j_id p \<and> sv_jobs s k = None"
    using range_order_set [OF order] by (auto simp: publish_fields split: if_splits)
  show ?thesis
    using supersede_fold_jobs [of P "([], publish_job p s)" order p key now k] inv' dom self
      range_order_distinct [OF order] superseded_cong [OF rule]
    by (auto simp: enqueue_finalize_def supersedePendingJobsLocked_def key' Let_def publish_fields
        option.map_ident)
qed

lemma covered_not_active:
  "t_agentID (expire_covered A i now t) \<in> A \<Longrightarrow> \<not> is_active (t_status (expire_covered A i now t))"
  by (auto simp: expire_covered_def is_active_def split: if_splits)

lemma finalize_supersedes:
  assumes inv: "queue_inv (p # P) s" and order: "range_order (sv_jobs (publish_job p s)) order"
    and key: "key = supersedeKeyLocked s (j_action p) (j_payload p)" "key \<noteq> []"
    and j: "sv_jobs (snd (enqueue_finalize order p now s)) k = Some j"
      "supersededByNewerLocked s k j p key"
    and t: "t \<in> set (j_targets j)" "t_agentID t \<in> set (j_targetAgentIDs p)"
  shows "\<not> is_active (t_status t)"
proof -
  have "k \<noteq> j_id p" using j(2) by (auto simp: supersededByNewerLocked_def)
  with j(1) finalize_jobs [OF inv order key(1), of now k] key(2) obtain j0 where
    j0: "sv_jobs s k = Some j0" "j = (if supersededByNewerLocked s k j0 p key \<and> covers p j0
        then (superseded_job p now j0)\<lparr>j_status := deriveJobStatus (j_targets (superseded_job p now j0))\<rparr>
        else j0)" by auto
  show ?thesis
  proof (cases "supersededByNewerLocked s k j0 p key \<and> covers p j0")
    case True
    with j0 t show ?thesis by (auto simp: targetAgentSet_def dest: covered_not_active)
  next
    case False
    with j0(2) have "j = j0" by simp
    with False j(2) t show ?thesis by (auto simp: covers_def targetAgentSet_def)
  qed
qed

end
