(* ===== verification/Job_Scenario.thy ===== *)
theory Job_Scenario
  imports Job_Persist
begin

section \<open>A concrete run of the job queue\<close>

text \<open>
  Two jobs on the same domain object: the first is published for two agents, the second is
  reserved and then published for one of them. The states of this run are where the
  properties of the queue are applied.
\<close>

definition demo_rule :: "action \<Rightarrow> string \<Rightarrow> string" where
  "demo_rule a payload = payload"

definition demo_input :: "string \<Rightarrow> string list \<Rightarrow> create_job_input" where
  "demo_input key agents =
     \<lparr>in_action = ActionClientUpdate, in_targetAgentIDs = agents, in_ttl = 100, in_key = key,
      in_actorID = ''admin'', in_readOnlyAgents = (\<lambda>_. False), in_payload = ''c1''\<rparr>"

definition demo_boot :: service where
  "demo_boot = boot_service (Some demo_rule) True False"

definition demo_first :: job where
  "demo_first = new_job (demo_input ''k1'' [''a'', ''b'']) ''k1'' (job_id_of 1) 1000"

definition demo_second :: job where
  "demo_second = new_job (demo_input ''k2'' [''a'']) ''k2'' (job_id_of 2) 1010"

definition demo_reserved1 :: service where
  "demo_reserved1 = snd (enqueue_reserve (demo_input ''k1'' [''a'', ''b'']) [] 1000 demo_boot)"

definition demo_one :: service where
  "demo_one = snd (enqueue_finalize [job_id_of 1] demo_first 1000 demo_reserved1)"

definition demo_reserved2 :: service where
  "demo_reserved2 = snd (enqueue_reserve (demo_input ''k2'' [''a'']) [] 1010 demo_one)"

definition demo_two :: service where
  "demo_two = snd (enqueue_finalize [job_id_of 1, job_id_of 2] demo_second 1010 demo_reserved2)"

lemmas demo_defs = demo_boot_def boot_service_def SetExpiryHook_def SetSupersedeKeyFunc_def NewService_def

lemma demo_input_sel [simp]:
  "enqueue_key (demo_input k as) g = (if k = [] then g else k)"
  "in_targetAgentIDs (demo_input k as) = as"
  "isMutatingAction (in_action (demo_input k as))"
  "in_readOnlyAgents (demo_input k as) = (\<lambda>_. False)"
  by (simp_all add: demo_input_def enqueue_key_def)

lemma demo_reserve1:
  "enqueue_reserve (demo_input ''k1'' [''a'', ''b'']) [] 1000 demo_boot = (Inr demo_first, demo_reserved1)"
  by (simp add: demo_reserved1_def enqueue_reserve_def demo_defs demo_first_def Let_def list_ex_iff)

lemma demo_reserved1_eq:
  "demo_reserved1 = demo_boot\<lparr>sv_sequence := 1, sv_keys := [''k1'' \<mapsto> []]\<rparr>"
  by (simp add: demo_reserved1_def enqueue_reserve_def demo_defs Let_def list_ex_iff)

lemma demo_job_sel [simp]:
  "j_id demo_first = job_id_of 1" "j_id demo_second = job_id_of 2"
  "j_key demo_first = ''k1''" "j_key demo_second = ''k2''"
  by (simp_all add: demo_first_def demo_second_def)

lemma demo_reachable_reserved1: "queue_reachable (demo_reserved1, [demo_first])"
proof (rule queue_reachable.step)
  show "queue_reachable (demo_boot, [])" by (simp add: demo_boot_def queue_reachable.boot)
  show "queue_step (demo_boot, []) (demo_reserved1, [demo_first])"
    by (rule queue_step.reserve [OF demo_reserve1]) (simp_all add: demo_defs)
qed

lemma demo_one_order: "range_order (sv_jobs (publish_job demo_first demo_reserved1)) [job_id_of 1]"
  by (rule range_orderI) (auto simp: publish_fields demo_reserved1_eq demo_defs)

lemma demo_reachable_one: "queue_reachable (demo_one, [])"
proof (rule queue_reachable.step [OF demo_reachable_reserved1])
  have "queue_step (demo_reserved1, [demo_first])
      (snd (enqueue_finalize [job_id_of 1] demo_first 1000 demo_reserved1), remove1 demo_first [demo_first])"
    by (rule queue_step.finalize) (simp_all add: demo_one_order)
  then show "queue_step (demo_reserved1, [demo_first]) (demo_one, [])" by (simp add: demo_one_def)
qed

lemma demo_one_jobs: "sv_jobs demo_one = [job_id_of 1 \<mapsto> demo_first]"
proof
  fix k
  have inv: "queue_inv [demo_first] demo_reserved1"
    using queue_reachable_inv [OF demo_reachable_reserved1] by simp
  show "sv_jobs demo_one k = [job_id_of 1 \<mapsto> demo_first] k"
    unfolding demo_one_def finalize_jobs [OF inv demo_one_order refl]
    by (simp add: demo_reserved1_eq demo_defs)
qed

lemma demo_one_eq: "demo_one = publish_job demo_first demo_reserved1"
  by (simp add: demo_one_def enqueue_finalize_def supersedePendingJobsLocked_def supersede_step_def
      publish_fields supersededByNewerLocked_def Let_def)

lemma demo_one_fields:
  "sv_keys demo_one = [''k1'' \<mapsto> job_id_of 1]" "sv_sequence demo_one = 1"
  "sv_keyTerminalAt demo_one = Map.empty" "sv_supersedeKey demo_one = Some demo_rule"
  "sv_nextExpiryAt demo_one = 1100"
  by (simp_all add: demo_one_eq publish_fields publish_nextExpiryAt note_watermark demo_reserved1_eq
      demo_defs demo_first_def new_job_def demo_input_def is_live_def)

lemma demo_one_index: "indexed demo_one a = (if a \<in> {''a'', ''b''} then {job_id_of 1} else {})"
proof -
  have "indexed demo_one = indexed (syncJobTargetsIndexLocked demo_first demo_reserved1)"
    unfolding demo_one_eq by (rule indexed_cong) (rule publish_agentJobs)
  moreover have "indexed demo_reserved1 a = {}"
    by (simp add: indexed_def demo_reserved1_eq demo_defs)
  ultimately show ?thesis
    by (auto simp: syncJobTargetsIndexLocked_def indexed_sync_target demo_first_def new_job_def
        demo_input_def is_active_def)
qed

lemma demo_reserve2:
  "enqueue_reserve (demo_input ''k2'' [''a'']) [] 1010 demo_one = (Inr demo_second, demo_reserved2)"
  by (simp add: demo_reserved2_def enqueue_reserve_def demo_one_fields demo_second_def Let_def list_ex_iff)

lemma demo_reserved2_eq:
  "demo_reserved2 = demo_one\<lparr>sv_sequence := 2, sv_keys := [''k1'' \<mapsto> job_id_of 1, ''k2'' \<mapsto> []]\<rparr>"
  by (simp add: demo_reserved2_def enqueue_reserve_def demo_one_fields Let_def list_ex_iff)

lemma demo_reachable_reserved2: "queue_reachable (demo_reserved2, [demo_second])"
  by (rule queue_reachable.step [OF demo_reachable_one], rule queue_step.reserve [OF demo_reserve2])
    (simp_all add: demo_one_fields)

lemma demo_ids [simp]: "job_id_of 1 \<noteq> job_id_of 2" "job_id_of 2 \<noteq> job_id_of 1"
  by (simp_all add: job_id_of_inject)

lemma demo_two_order:
  "range_order (sv_jobs (publish_job demo_second demo_reserved2)) [job_id_of 1, job_id_of 2]"
  by (rule range_orderI) (auto simp: publish_fields demo_reserved2_eq demo_one_jobs)

lemma demo_step_two: "queue_step (demo_reserved2, [demo_second]) (demo_two, [])"
proof -
  have "queue_step (demo_reserved2, [demo_second])
      (snd (enqueue_finalize [job_id_of 1, job_id_of 2] demo_second 1010 demo_reserved2),
       remove1 demo_second [demo_second])"
    by (rule queue_step.finalize) (simp_all add: demo_two_order)
  then show ?thesis by (simp add: demo_two_def)
qed

lemma demo_reachable_two: "queue_reachable (demo_two, [])"
  using demo_reachable_reserved2 demo_step_two by (rule queue_reachable.step)

text \<open>The first job after the second superseded it on agent a.\<close>

definition demo_superseded :: job where
  "demo_superseded = demo_first\<lparr>j_status := StatusRunning, j_targets :=
     [\<lparr>t_agentID = ''a'', t_status = TargetStatusExpired, t_resultText = ''superseded by '' @ job_id_of 2,
       t_resultJSON = [], t_updatedAt = 1010\<rparr>,
      \<lparr>t_agentID = ''b'', t_status = TargetStatusQueued, t_resultText = [], t_resultJSON = [],
       t_updatedAt = 1000\<rparr>]\<rparr>"

lemma demo_inv_reserved2: "queue_inv [demo_second] demo_reserved2"
  using queue_reachable_inv [OF demo_reachable_reserved2] by simp

lemma demo_superseded_by: "supersededByNewerLocked demo_reserved2 (job_id_of 1) demo_first demo_second ''c1''"
  by (simp add: supersededByNewerLocked_def supersedeKeyLocked_def demo_reserved2_eq demo_one_fields
      demo_rule_def demo_first_def demo_second_def new_job_def demo_input_def is_live_def)

lemma demo_key2: "supersedeKeyLocked demo_reserved2 (j_action demo_second) (j_payload demo_second) = ''c1''"
  by (simp add: supersedeKeyLocked_def demo_reserved2_eq demo_one_fields demo_rule_def demo_second_def
      new_job_def demo_input_def)

lemma demo_reserved2_jobs: "sv_jobs demo_reserved2 = [job_id_of 1 \<mapsto> demo_first]"
  by (simp add: demo_reserved2_eq demo_one_jobs)

lemma demo_two_jobs: "sv_jobs demo_two = [job_id_of 1 \<mapsto> demo_superseded, job_id_of 2 \<mapsto> demo_second]"
proof
  fix k
  have "covers demo_second demo_first"
    by (simp add: covers_def targetAgentSet_def demo_first_def demo_second_def new_job_def demo_input_def
        is_active_def)
  moreover have "(superseded_job demo_second 1010 demo_first)\<lparr>j_status :=
      deriveJobStatus (j_targets (superseded_job demo_second 1010 demo_first))\<rparr> = demo_superseded"
    by (simp add: demo_superseded_def demo_first_def demo_second_def new_job_def demo_input_def
        expire_covered_def targetAgentSet_def is_active_def deriveJobStatus_def no_flags_def)
  ultimately show "sv_jobs demo_two k = [job_id_of 1 \<mapsto> demo_superseded, job_id_of 2 \<mapsto> demo_second] k"
    using demo_superseded_by
    unfolding demo_two_def finalize_jobs [OF demo_inv_reserved2 demo_two_order refl] demo_key2
      demo_reserved2_jobs by simp
qed

end
