(* ===== verification/Job_Properties.thy ===== *)
theory Job_Properties
  imports Job_Scenario
begin

section \<open>Properties of the job queue\<close>

text \<open>
  The properties of internal/controlplane/jobs: the invariant of every interleaving, the
  exactness of the dispatch query, the rules about idempotency keys, superseding, expiry
  and eviction, and what the store gives back. Each is applied to the run of
  \<open>Job_Scenario\<close>.
\<close>

subsection \<open>Helper lemmas\<close>

lemma reachable_inv: "queue_reachable (s, P) \<Longrightarrow> queue_inv P s"
  using queue_reachable_inv by fastforce

text \<open>What one eviction and the whole sweep do to the resident jobs.\<close>

definition key_due :: "gotime \<Rightarrow> service \<Rightarrow> string \<Rightarrow> bool" where
  "key_due cutoff s k \<longleftrightarrow> (\<exists>t. sv_keyTerminalAt s k = Some t \<and> t \<le> cutoff)"

lemma prune_step_jobs:
  assumes "queue_inv P (snd ns)"
  shows "sv_jobs (snd (prune_step c k ns)) jid =
      (case sv_jobs (snd ns) jid of
         None \<Rightarrow> None
       | Some j \<Rightarrow> if j_key j = k \<and> key_due c (snd ns) k then None else Some j)"
    and "sv_keyTerminalAt (snd (prune_step c k ns)) =
      (if key_due c (snd ns) k then (sv_keyTerminalAt (snd ns))(k := None) else sv_keyTerminalAt (snd ns))"
proof -
  obtain n s where ns: "ns = (n, s)" by (cases ns)
  have s: "service_inv s" using assms ns by (simp add: queue_invD)
  have "sv_jobs (snd (prune_step c k (n, s))) jid =
      (case sv_jobs s jid of None \<Rightarrow> None | Some j \<Rightarrow> if j_key j = k \<and> key_due c s k then None else Some j) \<and>
    sv_keyTerminalAt (snd (prune_step c k (n, s))) =
      (if key_due c s k then (sv_keyTerminalAt s)(k := None) else sv_keyTerminalAt s)"
  proof (cases "key_due c s k")
    case True
    then obtain t where t: "sv_keyTerminalAt s k = Some t" "t \<le> c" by (auto simp: key_due_def)
    obtain i j where own: "sv_keys s k = Some i" "i \<noteq> []" "k \<noteq> []" "sv_jobs s i = Some j" "j_key j = k"
      using evict_key_owned [OF s t(1)] by metis
    have "j_key j' = k \<longleftrightarrow> jid = i" if "sv_jobs s jid = Some j'" for j'
      using service_invD(2) [OF s that] own that by (auto simp: key_ok_def)
    with True t own show ?thesis
      by (auto simp: prune_step_def evict_key_fields split: option.splits)
  next
    case False
    then show ?thesis by (auto simp: prune_step_def key_due_def split: option.splits)
  qed
  then show "sv_jobs (snd (prune_step c k ns)) jid =
      (case sv_jobs (snd ns) jid of
         None \<Rightarrow> None
       | Some j \<Rightarrow> if j_key j = k \<and> key_due c (snd ns) k then None else Some j)"
    and "sv_keyTerminalAt (snd (prune_step c k ns)) =
      (if key_due c (snd ns) k then (sv_keyTerminalAt (snd ns))(k := None) else sv_keyTerminalAt (snd ns))"
    unfolding ns snd_conv by simp_all
qed

lemma prune_fold_jobs:
  assumes "queue_inv P (snd ns)" and "distinct order"
  shows "sv_jobs (snd (fold (prune_step c) order ns)) jid =
    (case sv_jobs (snd ns) jid of
       None \<Rightarrow> None
     | Some j \<Rightarrow> if j_key j \<in> set order \<and> key_due c (snd ns) (j_key j) then None else Some j)"
  using assms
proof (induction order arbitrary: ns)
  case (Cons k ks)
  let ?ns = "prune_step c k ns"
  have due: "key_due c (snd ?ns) x \<longleftrightarrow> key_due c (snd ns) x" if "x \<in> set ks" for x
    using that Cons.prems(2) prune_step_jobs(2) [OF Cons.prems(1), of c k] by (auto simp: key_due_def)
  have "sv_jobs (snd (fold (prune_step c) ks ?ns)) jid =
      (case sv_jobs (snd ?ns) jid of
         None \<Rightarrow> None
       | Some j \<Rightarrow> if j_key j \<in> set ks \<and> key_due c (snd ?ns) (j_key j) then None else Some j)"
    using Cons.prems by (intro Cons.IH prune_step_inv) simp_all
  moreover have "k \<notin> set ks" using Cons.prems(2) by simp
  ultimately show ?case
    using prune_step_jobs(1) [OF Cons.prems(1), of c k jid]
    by (cases "sv_jobs (snd ns) jid") (auto simp: due split: if_splits)
qed (simp split: option.splits)

lemma PruneKeys_jobs:
  assumes "queue_inv P s" and "range_order (sv_keyTerminalAt s) order" and "0 < d"
  shows "sv_jobs (snd (PruneKeys order d now s)) jid =
    (case sv_jobs s jid of
       None \<Rightarrow> None | Some j \<Rightarrow> if key_due (now - d) s (j_key j) then None else Some j)"
proof -
  have "key_due (now - d) s k \<Longrightarrow> k \<in> set order" for k
    using range_order_set [OF assms(2)] by (auto simp: key_due_def)
  then show ?thesis
    using prune_fold_jobs [of P "(0, s)" order "now - d" jid] assms range_order_distinct [OF assms(2)]
    by (auto simp: PruneKeys_def split: option.splits)
qed

subsection \<open>The queue\<close>



text \<open>
  C2: The dispatch query of an agent, which reads the per-agent index and skips the expiry
  pass when the watermark is not passed, returns exactly the resident jobs that are not
  past their time to live and whose target for the agent is queued or due for redelivery,
  each once, ordered by creation instant and identifier.
\<close>

theorem pending_for_agent_exact:
  assumes "queue_reachable (s, P)" and "agentID \<noteq> []" and "range_order (sv_jobs s) order"
    and "visits visit (indexed s agentID)"
    and "visits visit (indexed (snd (expiry_pass order now' s)) agentID)"
    and "t = (if anyJobNeedsExpiryLocked now s then now' else now)"
    and "js = fst (PendingForAgent visit order agentID retryAfter now now' s)"
  shows "set js = {j. \<exists>jid. sv_jobs s jid = Some j \<and> \<not> jobShouldExpire j t \<and>
      jobIsPendingForAgent j agentID t retryAfter} \<and>
    sorted (map job_recency js) \<and> distinct (map j_id js)"
  using PendingForAgent_exact [OF reachable_inv [OF assms(1)] assms(2-7)] by simp

definition demo_visit :: "string set \<Rightarrow> string list" where
  "demo_visit J = (if job_id_of 1 \<in> J then [job_id_of 1] else [])"

lemma demo_one_fresh: "\<not> anyJobNeedsExpiryLocked 1050 demo_one"
  by (simp add: anyJobNeedsExpiryLocked_def demo_one_fields)

lemma demo_one_pending: "jobIsPendingForAgent demo_first ''b'' t r"
  by (simp add: jobIsPendingForAgent_def demo_first_def new_job_def demo_input_def targetIsPending_def)

lemma demo_one_range: "range_order (sv_jobs demo_one) [job_id_of 1]"
  by (rule range_orderI) (auto simp: demo_one_jobs)

lemma demo_expiry_unchanged: "indexed (snd (expiry_pass [job_id_of 1] 1050 demo_one)) = indexed demo_one"
proof -
  have "\<not> jobShouldExpire demo_first 1050"
    by (simp add: jobShouldExpire_def demo_first_def new_job_def demo_input_def)
  then show ?thesis
    by (intro indexed_cong)
      (simp add: expiry_pass_def expireJobsLocked_def expire_step_def demo_one_jobs frame_simps
        recomputeNextExpiryLocked_def)
qed

theorem pending_for_agent_exact_witness:
  "set (fst (PendingForAgent demo_visit [job_id_of 1] ''b'' 30 1050 1050 demo_one)) = {demo_first}"
proof -
  have "visits demo_visit (indexed demo_one ''b'')"
    by (simp add: visits_def demo_visit_def demo_one_index)
  moreover have "visits demo_visit (indexed (snd (expiry_pass [job_id_of 1] 1050 demo_one)) ''b'')"
    unfolding demo_expiry_unchanged by (simp add: visits_def demo_visit_def demo_one_index)
  ultimately have "set (fst (PendingForAgent demo_visit [job_id_of 1] ''b'' 30 1050 1050 demo_one)) =
      {j. \<exists>jid. sv_jobs demo_one jid = Some j \<and> \<not> jobShouldExpire j 1050 \<and> jobIsPendingForAgent j ''b'' 1050 30}"
    using pending_for_agent_exact [OF demo_reachable_one _ demo_one_range _ _ refl refl,
        where agentID = "''b''" and visit = demo_visit and now = 1050 and now' = 1050 and retryAfter = 30]
    by simp
  also have "\<dots> = {demo_first}"
    using demo_one_pending
    by (auto simp: demo_one_jobs jobShouldExpire_def demo_first_def new_job_def demo_input_def
        split: if_splits)
  finally show ?thesis .
qed

text \<open>
  C10: While a job is resident its idempotency key is taken: no other resident job and no job
  whose enqueue is in flight has it, and an enqueue with that key is rejected as a duplicate
  without changing the service. So is an enqueue that races one still being written.
\<close>

theorem idempotency_key_unique:
  assumes "queue_reachable (s, P)" and "sv_jobs s a = Some i \<or> i \<in> set P"
    and "enqueue_key input gen = j_key i" and "j_key i \<noteq> []"
  shows "enqueue_reserve input gen now s = (Inl ErrDuplicateIdempotencyKey, s) \<and>
    (\<forall>b j. sv_jobs s a = Some i \<and> sv_jobs s b = Some j \<and> j_key j = j_key i \<longrightarrow> b = a) \<and>
    (\<forall>p \<in> set P. sv_jobs s a = Some i \<longrightarrow> j_key p \<noteq> j_key i)"
proof -
  have inv: "queue_inv P s" using assms(1) by (rule reachable_inv)
  note s = queue_invD [OF inv]
  have "b = a" if "sv_jobs s a = Some i" "sv_jobs s b = Some j" "j_key j = j_key i" for b j
    using service_invD(2) [OF s that(1)] service_invD(2) [OF s that(2)] that(3) assms(4)
    by (simp add: key_ok_def)
  moreover have "j_key p \<noteq> j_key i" if "p \<in> set P" "sv_jobs s a = Some i" for p
    using inv that(1) service_invD(1,2) [OF s that(2)] assms(4)
    by (auto simp: queue_inv_def reserved_def key_ok_def job_ok_def)
  ultimately show ?thesis
    using enqueue_key_taken [OF inv assms(2), of input gen now] assms(3,4) by auto
qed

theorem idempotency_key_unique_witness:
  "enqueue_reserve (demo_input ''k2'' [''z'']) [] 1020 demo_reserved2 =
     (Inl ErrDuplicateIdempotencyKey, demo_reserved2)"
  using idempotency_key_unique [OF demo_reachable_reserved2, of "[]" demo_second "demo_input ''k2'' [''z'']" "[]" 1020]
  by simp



text \<open>
  C12: When an enqueue publishes a job that carries the full state of a domain object (its
  supersede key is not empty), no older live job with the same key has a target left to
  deliver on an agent the new job covers, so a late redelivery cannot overwrite the newer
  state. The new job itself is published untouched.
\<close>

theorem enqueue_supersedes_older:
  assumes "queue_reachable (s, P)" and "p \<in> set P"
    and "range_order (sv_jobs (publish_job p s)) order"
    and "supersedeKeyLocked s (j_action p) (j_payload p) = key" and "key \<noteq> []"
    and "s' = snd (enqueue_finalize order p now s)"
  shows "sv_jobs s' (j_id p) = Some p \<and>
    (\<forall>jid j t. sv_jobs s' jid = Some j \<and> supersededByNewerLocked s jid j p key \<and> t \<in> set (j_targets j) \<and>
       t_agentID t \<in> set (j_targetAgentIDs p) \<longrightarrow> \<not> is_active (t_status t))"
proof -
  have inv: "queue_inv (p # remove1 p P) s"
    using reachable_inv [OF assms(1)] assms(2) by (rule queue_inv_remove1)
  show ?thesis
    using finalize_supersedes [OF inv assms(3) assms(4) [symmetric] assms(5)]
      finalize_jobs [OF inv assms(3) refl, of now "j_id p"]
    unfolding assms(6) by auto
qed

theorem enqueue_supersedes_older_witness:
  "sv_jobs demo_two (job_id_of 2) = Some demo_second \<and> j_status demo_superseded = StatusRunning"
  using enqueue_supersedes_older [OF demo_reachable_reserved2 _ demo_two_order demo_key2 _ demo_two_def]
  by (simp add: demo_superseded_def)

text \<open>
  C13: The newest-first listing, which keeps the K newest keys in a bounded binary heap under
  the read lock, returns exactly the first K jobs of the full listing in reverse order, with
  K the requested limit, 200 when it is not positive and at most 1000.
\<close>

theorem list_recent_is_top_of_list:
  assumes "queue_reachable (s, P)" and "range_order (sv_jobs s) order"
  shows "fst (ListRecentWithContext order limit now now' s) =
    take (recent_limit limit) (rev (fst (ListWithContext order now now' s)))"
  using ListRecent_top [OF reachable_inv [OF assms(1)] assms(2)] .

theorem list_recent_is_top_of_list_witness:
  "fst (ListRecentWithContext [job_id_of 1] 1 1050 1050 demo_one) = [demo_first]"
  unfolding list_recent_is_top_of_list [OF demo_reachable_one demo_one_range]
  using demo_one_fresh
  by (simp add: ListWithContext_def snapshot_def List.map_filter_def demo_one_jobs sortJobsByCreatedAt_def
      recent_limit_def maxListRecentLimit_def DefaultListRecentLimit_def)

text \<open>
  The eviction sweep drops a resident job exactly when its idempotency key became
  terminal at least the given duration ago; the job is then terminal, and every other job
  stays as it is.
\<close>

theorem prune_keys_exact:
  assumes "queue_reachable (s, P)" and "range_order (sv_keyTerminalAt s) order" and "0 < age"
  shows "\<forall>jid. sv_jobs (snd (PruneKeys order age now s)) jid =
    (case sv_jobs s jid of
       None \<Rightarrow> None
     | Some j \<Rightarrow> (case sv_keyTerminalAt s (j_key j) of
           None \<Rightarrow> Some j
         | Some t \<Rightarrow> if isTerminalStatus (j_status j) \<and> t \<le> now - age then None else Some j))"
proof
  fix jid
  have inv: "queue_inv P s" using assms(1) by (rule reachable_inv)
  have "isTerminalStatus (j_status j)"
    if "sv_jobs s jid = Some j" "sv_keyTerminalAt s (j_key j) = Some t" for j t
    using service_invD(2) [OF queue_invD [OF inv] that(1)] that(2) service_inv_terminal [OF queue_invD [OF inv]]
    by (auto simp: key_ok_def terminal_keys_owned_def)
  then show "sv_jobs (snd (PruneKeys order age now s)) jid =
    (case sv_jobs s jid of
       None \<Rightarrow> None
     | Some j \<Rightarrow> (case sv_keyTerminalAt s (j_key j) of
           None \<Rightarrow> Some j
         | Some t \<Rightarrow> if isTerminalStatus (j_status j) \<and> t \<le> now - age then None else Some j))"
    unfolding PruneKeys_jobs [OF inv assms(2,3)]
    by (auto simp: key_due_def split: option.splits)
qed

definition demo_done :: service where
  "demo_done = snd (snd (RecordResult ''a'' (job_id_of 2) True [] [] 1020 demo_two))"

lemma demo_second_live: "\<not> jobShouldExpire demo_second 1020"
  by (simp add: jobShouldExpire_def demo_second_def new_job_def demo_input_def)

lemma demo_done_eq:
  "demo_done = snd (commitJobLocked
     (demo_second\<lparr>j_targets := [\<lparr>t_agentID = ''a'', t_status = TargetStatusSucceeded, t_resultText = [],
        t_resultJSON = [], t_updatedAt = 1020\<rparr>]\<rparr>) 1020 target_commit demo_two)"
proof -
  have "j_targets demo_second = [\<lparr>t_agentID = ''a'', t_status = TargetStatusQueued, t_resultText = [],
      t_resultJSON = [], t_updatedAt = 1010\<rparr>]"
    by (simp add: demo_second_def new_job_def demo_input_def)
  then show ?thesis
    using demo_second_live
    by (simp add: demo_done_def RecordResult_def updateTarget_apply [of demo_two _ demo_second] demo_two_jobs
        applyTargetMutation_eq record_result_target_def)
qed

lemma demo_two_terminal: "sv_keyTerminalAt demo_two = Map.empty"
proof
  fix k
  show "sv_keyTerminalAt demo_two k = Map.empty k"
  proof (cases "sv_keyTerminalAt demo_two k")
    case (Some t)
    have s: "service_inv demo_two" using queue_invD [OF reachable_inv [OF demo_reachable_two]] .
    obtain jid j where "sv_jobs demo_two jid = Some j" "isTerminalStatus (j_status j)"
      using evict_key_owned [OF s Some] by metis
    then show ?thesis
      by (auto simp: demo_two_jobs demo_superseded_def demo_second_def new_job_def split: if_splits)
  qed simp
qed

lemma demo_done_fields:
  "sv_keyTerminalAt demo_done = [''k2'' \<mapsto> 1020]"
  "sv_jobs demo_done (job_id_of 1) = Some demo_superseded"
  "\<exists>j. sv_jobs demo_done (job_id_of 2) = Some j \<and> j_key j = ''k2'' \<and> j_status j = StatusSucceeded"
  by (simp_all add: demo_done_eq commit_keyTerminalAt commit_jobs commit_status_def deriveJobStatus_def
      no_flags_def demo_two_terminal demo_two_jobs)

lemma demo_reachable_done: "queue_reachable (demo_done, [])"
  unfolding demo_done_def by (rule queue_reachable.step [OF demo_reachable_two queue_step.result])

theorem prune_keys_exact_witness:
  "sv_jobs (snd (PruneKeys [''k2''] 60 1100 demo_done)) (job_id_of 2) = None \<and>
   sv_jobs (snd (PruneKeys [''k2''] 60 1100 demo_done)) (job_id_of 1) = Some demo_superseded"
proof -
  have order: "range_order (sv_keyTerminalAt demo_done) [''k2'']"
    by (rule range_orderI) (simp_all add: demo_done_fields)
  obtain j where j: "sv_jobs demo_done (job_id_of 2) = Some j" "j_key j = ''k2''" "j_status j = StatusSucceeded"
    using demo_done_fields(3) by blast
  have "j_key demo_superseded = ''k1''" by (simp add: demo_superseded_def)
  with j prune_keys_exact [OF demo_reachable_done order, of 60 1100] show ?thesis
    by (simp add: demo_done_fields(1,2))
qed

lemma enqueue_success:
  assumes "queue_reachable (s, [])" and "enqueue_key input gen \<noteq> []" and "0 < now"
    and "distinct (in_targetAgentIDs input)" and "sv_sequence s \<noteq> - 1"
    and res: "enqueue_reserve input gen now s = (Inr job, s1)"
    and ord: "range_order (sv_jobs (publish_job job s1)) order"
    and s': "s' = snd (enqueue_finalize order job now s1)"
  shows "queue_reachable (s', [])" and "Get (j_id job) s' = Some job" and "Get (j_id job) s = None"
    and "enqueue_key input g = enqueue_key input gen \<Longrightarrow>
      enqueue_reserve input g n s' = (Inl ErrDuplicateIdempotencyKey, s')"
proof -
  have step1: "queue_reachable (s1, [job])"
    by (rule queue_reachable.step [OF assms(1) queue_step.reserve [OF res assms(2-5)]])
  have "queue_step (s1, [job]) (s', remove1 job [job])"
    unfolding s' by (rule queue_step.finalize) (simp_all add: ord)
  then show step2: "queue_reachable (s', [])" using step1 queue_reachable.step by fastforce
  have job: "sv_jobs s' (j_id job) = Some job"
    unfolding s' finalize_jobs [OF reachable_inv [OF step1] ord refl] by simp
  then show "Get (j_id job) s' = Some job" by (simp add: Get_def)
  note new = enqueue_reserve_Inr [OF res]
  show "Get (j_id job) s = None"
    using fresh_id(1) [OF reachable_inv [OF assms(1)] assms(5)] by (simp add: Get_def new(2))
  show "enqueue_reserve input g n s' = (Inl ErrDuplicateIdempotencyKey, s')"
    if "enqueue_key input g = enqueue_key input gen"
    using enqueue_key_taken [OF reachable_inv [OF step2], of "j_id job" job input g n] job that assms(2)
    by (simp add: new(2))
qed

text \<open>
  An enqueue that is rejected changes nothing. One whose database write fails leaves no
  trace but the consumed sequence number. One that succeeds makes the job resident, queued
  for every target, and its key is taken from then on.
\<close>

theorem enqueue_outcomes:
  assumes "queue_reachable (s, [])" and "enqueue_key input gen \<noteq> []" and "0 < now"
    and "distinct (in_targetAgentIDs input)" and "sv_sequence s \<noteq> - 1"
    and "\<And>job s1. enqueue_reserve input gen now s = (Inr job, s1) \<Longrightarrow>
      range_order (sv_jobs (publish_job job s1)) order"
    and "Enqueue persist order input gen now s db = (result, s', db')"
  shows "case result of
      Inl (EnqueueRejected e) \<Rightarrow> s' = s \<and> db' = db
    | Inl (EnqueueNotPersisted e) \<Rightarrow> s' = s\<lparr>sv_sequence := sv_sequence s + 1\<rparr>
    | Inr job \<Rightarrow> queue_reachable (s', []) \<and> Get (j_id job) s' = Some job \<and> Get (j_id job) s = None \<and>
        j_status job = StatusQueued \<and> map t_agentID (j_targets job) = in_targetAgentIDs input \<and>
        (\<forall>g n. enqueue_key input g = enqueue_key input gen \<longrightarrow>
           enqueue_reserve input g n s' = (Inl ErrDuplicateIdempotencyKey, s'))"
proof (cases "enqueue_reserve input gen now s")
  case (Pair r s1)
  show ?thesis
  proof (cases r)
    case (Inl e)
    with Pair assms(7) enqueue_reserve_Inl [of input gen now s e s1] show ?thesis
      by (auto simp: Enqueue_def)
  next
    case (Inr job)
    with Pair have res: "enqueue_reserve input gen now s = (Inr job, s1)" by simp
    obtain err db1 where pers: "(if sv_hasStore s1 then persist job db else (None, db)) = (err, db1)"
      by (metis surj_pair)
    show ?thesis
    proof (cases err)
      case (Some e)
      with res pers assms(7) rollback_restores [OF res] show ?thesis
        by (auto simp: Enqueue_def split: if_splits)
    next
      case None
      then have s': "s' = snd (enqueue_finalize order job now s1)" and result: "result = Inr job"
        using res pers assms(7) by (auto simp: Enqueue_def split_def Let_def)
      from enqueue_success [OF assms(1-5) res assms(6) [OF res] s'] show ?thesis
        by (simp add: result enqueue_reserve_Inr(2) [OF res] new_job_def comp_def)
    qed
  qed
qed

definition demo_persist :: "job \<Rightarrow> unit \<Rightarrow> store_error option \<times> unit" where
  "demo_persist job db = (None, db)"

theorem enqueue_outcomes_witness:
  "fst (Enqueue demo_persist [job_id_of 1] (demo_input ''k1'' [''a'', ''b'']) [] 1000 demo_boot ()) = Inr demo_first \<and>
   Get (job_id_of 1) (fst (snd (Enqueue demo_persist [job_id_of 1] (demo_input ''k1'' [''a'', ''b'']) [] 1000 demo_boot ())))
     = Some demo_first"
proof -
  let ?e = "Enqueue demo_persist [job_id_of 1] (demo_input ''k1'' [''a'', ''b'']) [] 1000 demo_boot ()"
  have store: "\<not> sv_hasStore demo_reserved1" and seq: "sv_sequence demo_boot \<noteq> - 1"
    by (simp_all add: demo_reserved1_eq demo_defs)
  have fst: "fst ?e = Inr demo_first"
    unfolding Enqueue_def demo_reserve1 by (simp add: store split_def Let_def)
  have "queue_reachable (demo_boot, [])" by (simp add: demo_boot_def queue_reachable.boot)
  moreover obtain s' where "?e = (Inr demo_first, s', ())"
    using fst by (cases ?e) auto
  ultimately show ?thesis
    using enqueue_outcomes [of demo_boot "demo_input ''k1'' [''a'', ''b'']" "[]" 1000 "[job_id_of 1]"
        demo_persist "()" "Inr demo_first" s' "()"] seq demo_one_order
    by (simp add: demo_reserve1)
qed

text \<open>
  The roll-up of target statuses, computed by one pass that sets flags, is: queued
  without targets; when every target is finished, succeeded if all succeeded, partial if
  some did, failed if none succeeded and one failed, expired otherwise; while a target is
  unfinished, queued if all are queued and running otherwise. It does not depend on the
  order of the targets.
\<close>

theorem derive_status_spec:
  "deriveJobStatus ts =
     (if ts = [] then StatusQueued
      else if \<forall>t \<in> set ts. is_final (t_status t)
        then (if \<forall>t \<in> set ts. t_status t = TargetStatusSucceeded then StatusSucceeded
              else if \<exists>t \<in> set ts. t_status t = TargetStatusSucceeded then StatusPartial
              else if \<exists>t \<in> set ts. t_status t = TargetStatusFailed then StatusFailed
              else StatusExpired)
      else if \<forall>t \<in> set ts. t_status t = TargetStatusQueued then StatusQueued
      else StatusRunning)"
proof (cases "ts = []")
  case False
  then obtain t where t: "t \<in> set ts" by (rule some_target_status)
  show ?thesis
  proof (cases "\<forall>t \<in> set ts. is_final (t_status t)")
    case True
    then have "\<forall>t \<in> set ts. \<not> in_flight (t_status t)" "\<not> has_status ts TargetStatusQueued"
      by (auto simp: in_flight_def is_final_def)
    with True False t show ?thesis
      by (auto simp: derive_flags is_final_def)
  next
    case unfinished: False
    then obtain u where u: "u \<in> set ts" "\<not> is_final (t_status u)" by blast
    show ?thesis
    proof (cases "\<forall>t \<in> set ts. t_status t = TargetStatusQueued")
      case True
      then have "\<forall>t \<in> set ts. \<not> in_flight (t_status t)" by (simp add: in_flight_def)
      with True False unfinished show ?thesis by (auto simp: derive_flags)
    next
      case nq: False
      then obtain v where v: "v \<in> set ts" "t_status v \<noteq> TargetStatusQueued" by blast
      have "in_flight (t_status v) \<or> is_final (t_status v)" using v(2) by (auto simp: in_flight_def)
      moreover have "in_flight (t_status u) \<or> t_status u = TargetStatusQueued"
        using u(2) by (auto simp: in_flight_def)
      ultimately show ?thesis
        using False unfinished nq u v by (auto simp: derive_flags is_final_def in_flight_def)
    qed
  qed
qed (simp add: deriveJobStatus_def)

text \<open>One target succeeded, one expired: partial. With a queued one besides: still running.\<close>

definition demo_target :: "target_status \<Rightarrow> job_target" where
  "demo_target st = \<lparr>t_agentID = ''a'', t_status = st, t_resultText = [], t_resultJSON = [], t_updatedAt = 0\<rparr>"

theorem derive_status_spec_witness:
  "deriveJobStatus [demo_target TargetStatusSucceeded, demo_target TargetStatusExpired] = StatusPartial \<and>
   deriveJobStatus [demo_target TargetStatusSucceeded, demo_target TargetStatusExpired,
     demo_target TargetStatusQueued] = StatusRunning"
  unfolding derive_status_spec by (simp add: demo_target_def is_final_def)

text \<open>
  A job that was written to the SQLite store and later dropped from memory is still
  found: the lookup falls back to the store and rebuilds it with every field, its creation
  instant and the instants of its targets to the second, and exactly its targets.
\<close>

theorem evicted_job_still_readable:
  assumes "db_inv db" and "persistJob (PutJob json_valid) PutJobTarget job db = (None, db')"
    and "canonical_job job" and "distinct (map t_agentID (j_targets job))" and "j_id job \<noteq> []"
    and "tr_agentID ` set (ListJobTargets (j_id job) db) \<subseteq> t_agentID ` set (j_targets job)"
    and "Get (j_id job) s = None" and "sv_hasStore s"
  shows "\<exists>job'. GetWithContext (\<lambda>i. GetJob i db') (\<lambda>i. Inr (ListJobTargets i db')) (j_id job) s = Inr (Some job') \<and>
    job'\<lparr>j_targets := [], j_targetAgentIDs := []\<rparr> =
      job\<lparr>j_createdAt := stored_time (j_createdAt job), j_targets := [], j_targetAgentIDs := []\<rparr> \<and>
    set (j_targets job') = (\<lambda>t. t\<lparr>t_updatedAt := stored_time (t_updatedAt t)\<rparr>) ` set (j_targets job)"
  by (rule sqlite.persisted_readable [OF assms])

definition empty_db :: job_db where
  "empty_db = \<lparr>db_jobs = [], db_targets = []\<rparr>"

lemma demo_first_targets:
  "j_targets demo_first =
     [\<lparr>t_agentID = ''a'', t_status = TargetStatusQueued, t_resultText = [], t_resultJSON = [], t_updatedAt = 1000\<rparr>,
      \<lparr>t_agentID = ''b'', t_status = TargetStatusQueued, t_resultText = [], t_resultJSON = [], t_updatedAt = 1000\<rparr>]"
  by (simp add: demo_first_def new_job_def demo_input_def)

lemma demo_first_canonical: "canonical_job demo_first"
proof -
  have "canonical_action (j_action demo_first)" "canonical_status (j_status demo_first)"
    by (auto intro: canonical_valid_action canonical_known_status simp: demo_first_def new_job_def demo_input_def)
  moreover have "list_all canonical_target (j_targets demo_first)"
    by (simp add: demo_first_targets canonical_known_target)
  ultimately show ?thesis
    by (simp add: canonical_job_def demo_first_targets) (simp add: demo_first_def new_job_def demo_input_def)
qed

lemma demo_persisted: "fst (persistJob (PutJob (\<lambda>_. True)) PutJobTarget demo_first empty_db) = None"
  by (simp add: persistJob_def PutJob_def PutJobTarget_def empty_db_def demo_first_targets
      jobToRecord_def jobTargetToRecord_def job_status_check_def target_status_check_def row_of_job_def)
    (simp add: demo_first_def new_job_def)

theorem evicted_job_still_readable_witness:
  "\<exists>job'. GetWithContext (\<lambda>i. GetJob i (snd (persistJob (PutJob (\<lambda>_. True)) PutJobTarget demo_first empty_db)))
       (\<lambda>i. Inr (ListJobTargets i (snd (persistJob (PutJob (\<lambda>_. True)) PutJobTarget demo_first empty_db))))
       (job_id_of 1) (NewService\<lparr>sv_hasStore := True\<rparr>) = Inr (Some job') \<and>
     t_agentID ` set (j_targets job') = {''a'', ''b''}"
proof -
  let ?db = "snd (persistJob (PutJob (\<lambda>_. True)) PutJobTarget demo_first empty_db)"
  have "persistJob (PutJob (\<lambda>_. True)) PutJobTarget demo_first empty_db = (None, ?db)"
    using demo_persisted by (metis prod.collapse)
  moreover have "db_inv empty_db" by (simp add: db_inv_def empty_db_def)
  moreover have "ListJobTargets (j_id demo_first) empty_db = []"
    by (simp add: ListJobTargets_def empty_db_def)
  ultimately obtain job' where
    "GetWithContext (\<lambda>i. GetJob i ?db) (\<lambda>i. Inr (ListJobTargets i ?db)) (job_id_of 1)
       (NewService\<lparr>sv_hasStore := True\<rparr>) = Inr (Some job')"
    and "set (j_targets job') = (\<lambda>t. t\<lparr>t_updatedAt := stored_time (t_updatedAt t)\<rparr>) ` set (j_targets demo_first)"
    using evicted_job_still_readable [of empty_db "\<lambda>_. True" demo_first ?db "NewService\<lparr>sv_hasStore := True\<rparr>"]
      demo_first_canonical
    by (auto simp: demo_first_targets Get_def NewService_def)
  then show ?thesis by (auto simp: demo_first_targets image_image)
qed

end
