(* ===== verification/Job_Store_Properties.thy ===== *)
theory Job_Store_Properties
  imports Job_Properties
begin

section \<open>Properties of the job tables\<close>

text \<open>
  Cursor pagination over the jobs table, the limits of the full listing that start-up relies
  on, retention, and the identifiers that order and name the rows.
\<close>

subsection \<open>Following the cursor\<close>

text \<open>A client that asks for page after page until the cursor comes back empty.\<close>

fun follow_cursor :: "nat \<Rightarrow> list_jobs_cursor \<Rightarrow> job_db \<Rightarrow> job_record list option" where
  "follow_cursor 0 params db = None"
| "follow_cursor (Suc n) params db =
     (let (page, next) = ListJobsCursor params db
      in if next = no_cursor then Some page
         else map_option (\<lambda>rest. page @ rest) (follow_cursor n next db))"

definition first_page :: "int \<Rightarrow> list_jobs_cursor" where
  "first_page limit = \<lparr>c_limit = limit, c_afterCreatedAt = 0, c_afterID = []\<rparr>"

definition page_after :: "nat \<Rightarrow> job_row \<Rightarrow> list_jobs_cursor" where
  "page_after limit x =
     \<lparr>c_limit = int limit, c_afterCreatedAt = fromUnix (jr_created_at_unix x), c_afterID = jr_id x\<rparr>"

definition newest_first :: "job_db \<Rightarrow> job_row list" where
  "newest_first db = rev (sort_key recency (db_jobs db))"

lemma NormalizeCursorLimit_range: "1 \<le> NormalizeCursorLimit l" "NormalizeCursorLimit l \<le> 500"
  by (simp_all add: NormalizeCursorLimit_def)

lemma NormalizeCursorLimit_id: "1 \<le> l \<Longrightarrow> l \<le> 500 \<Longrightarrow> NormalizeCursorLimit l = l"
  by (simp add: NormalizeCursorLimit_def)

lemma newest_first_sorted:
  assumes "db_inv db"
  shows "sorted_wrt (>) (map recency (newest_first db))"
proof -
  have "distinct (map jr_id (db_jobs db))" using assms by (simp add: db_inv_def)
  then have "distinct (map recency (db_jobs db))"
    by (auto simp: distinct_map inj_on_def recency_def)
  then have "sorted_wrt (<) (map recency (sort_key recency (db_jobs db)))"
    by (simp add: strict_sorted_iff distinct_map)
  then show ?thesis by (simp add: newest_first_def rev_map [symmetric] sorted_wrt_rev)
qed

lemma filter_after_cursor:
  assumes "sorted_wrt (>) (map recency (pre @ rest))" and "pre \<noteq> []"
  shows "filter (\<lambda>x. recency x < recency (last pre)) (pre @ rest) = rest"
proof -
  obtain xs x where pre: "pre = xs @ [x]" using assms(2) by (metis rev_exhaust)
  have "\<not> recency y < recency x" if "y \<in> set pre" for y
    using that assms(1) by (auto simp: pre sorted_wrt_append)
  moreover have "recency y < recency x" if "y \<in> set rest" for y
    using that assms(1) by (auto simp: pre sorted_wrt_append)
  ultimately show ?thesis by (simp add: pre filter_empty_conv)
qed

lemma cursor_page:
  assumes inv: "db_inv db" and rows: "newest_first db = pre @ rest" and ids: "\<forall>x \<in> set (db_jobs db). jr_id x \<noteq> []"
    and limit: "limit = nat (NormalizeCursorLimit l)"
    and params: "params = (if pre = [] then first_page l else page_after limit (last pre))"
  shows "ListJobsCursor params db =
    (if limit < length rest
     then (map job_of_row (take limit rest), page_after limit (last (take limit rest)))
     else (map job_of_row rest, no_cursor))"
proof -
  have lim: "nat (NormalizeCursorLimit (c_limit params)) = limit" "0 < limit"
    using NormalizeCursorLimit_range [of l] limit params
    by (auto simp: first_page_def page_after_def NormalizeCursorLimit_id)
  have sel: "(if c_afterID params = [] \<and> is_zero_time (c_afterCreatedAt params) then db_jobs db
      else filter (\<lambda>x. recency x < (toUnix (c_afterCreatedAt params), c_afterID params)) (db_jobs db)) =
    (if pre = [] then db_jobs db else filter (\<lambda>x. recency x < recency (last pre)) (db_jobs db))"
  proof (cases "pre = []")
    case True
    then show ?thesis by (simp add: params first_page_def is_zero_time_def)
  next
    case False
    then have "last pre \<in> set (newest_first db)" by (simp add: rows)
    then have "jr_id (last pre) \<noteq> []" using ids by (simp add: newest_first_def)
    with False show ?thesis by (simp add: params page_after_def recency_def)
  qed
  have rest: "rev (sort_key recency (if pre = [] then db_jobs db
      else filter (\<lambda>x. recency x < recency (last pre)) (db_jobs db))) = rest"
  proof (cases "pre = []")
    case False
    have "rev (sort_key recency (filter (\<lambda>x. recency x < recency (last pre)) (db_jobs db))) =
        filter (\<lambda>x. recency x < recency (last pre)) (newest_first db)"
      by (simp add: newest_first_def rev_filter [symmetric] filter_sort)
    also have "\<dots> = rest"
      unfolding rows using newest_first_sorted [OF inv] False
      by (intro filter_after_cursor) (simp_all add: rows)
    finally show ?thesis using False by simp
  qed (use rows in \<open>simp add: newest_first_def\<close>)
  have "r_createdAt (job_of_row x) = fromUnix (jr_created_at_unix x)" "r_id (job_of_row x) = jr_id x" for x
    by (simp_all add: job_of_row_def)
  moreover have "limit < length rest \<Longrightarrow>
      last (map job_of_row (take limit rest)) = job_of_row (last (take limit rest))"
    using lim(2) by (intro last_map) auto
  ultimately show ?thesis
    unfolding ListJobsCursor_def Let_def lim(1) sel rest
    by (auto simp: page_after_def take_map min_def)
qed

lemma follow_cursor_all:
  assumes "db_inv db" and "\<forall>x \<in> set (db_jobs db). jr_id x \<noteq> []" and "limit = nat (NormalizeCursorLimit l)"
    and "newest_first db = pre @ rest" and "length rest < n"
    and "params = (if pre = [] then first_page l else page_after limit (last pre))"
  shows "follow_cursor n params db = Some (map job_of_row rest)"
  using assms(4-6)
proof (induction n arbitrary: pre rest params)
  case (Suc n)
  have pos: "0 < limit" using NormalizeCursorLimit_range(1) [of l] assms(3) by simp
  note page = cursor_page [OF assms(1) Suc.prems(1) assms(2,3) Suc.prems(3)]
  show ?case
  proof (cases "limit < length rest")
    case True
    let ?x = "last (take limit rest)"
    have ne: "take limit rest \<noteq> []" using True pos by auto
    then have "?x \<in> set rest" by (meson in_set_takeD last_in_set)
    then have "?x \<in> set (newest_first db)" using Suc.prems(1) by simp
    then have "jr_id ?x \<noteq> []" using assms(2) by (simp add: newest_first_def)
    then have "page_after limit ?x \<noteq> no_cursor" by (simp add: page_after_def no_cursor_def)
    moreover have "follow_cursor n (page_after limit ?x) db = Some (map job_of_row (drop limit rest))"
      using Suc.prems True pos ne
      by (intro Suc.IH [of "pre @ take limit rest"]) (auto simp: last_append)
    ultimately show ?thesis
      by (simp add: page True) (metis append_take_drop_id map_append)
  next
    case False
    then show ?thesis by (simp add: page)
  qed
qed simp

text \<open>
  C14: A client that follows the cursor of the job listing from the first page until it comes
  back empty reads every row of the table exactly once, newest first, in at most one request
  more than there are rows, whatever the page size.
\<close>

theorem cursor_reads_every_row_once:
  assumes "db_inv db" and "\<forall>x \<in> set (db_jobs db). jr_id x \<noteq> []"
  shows "follow_cursor (Suc (length (db_jobs db))) (first_page limit) db =
    Some (map job_of_row (rev (sort_key recency (db_jobs db))))"
  using follow_cursor_all [OF assms refl, of "[]" "newest_first db" "Suc (length (db_jobs db))" "first_page limit" limit]
  by (simp add: newest_first_def)

definition demo_row :: "string \<Rightarrow> int \<Rightarrow> job_row" where
  "demo_row jid created =
     \<lparr>jr_id = jid, jr_action = ''client.update'', jr_actor_id = [], jr_status = ''queued'',
      jr_created_at_unix = created, jr_ttl_nanos = 0, jr_idempotency_key = jid, jr_payload_json = []\<rparr>"

definition demo_rows :: job_db where
  "demo_rows = \<lparr>db_jobs = [demo_row ''a'' 2, demo_row ''b'' 1, demo_row ''c'' 2], db_targets = []\<rparr>"

theorem cursor_reads_every_row_once_witness:
  "map_option (map r_id) (follow_cursor 4 (first_page 1) demo_rows) = Some [''c'', ''a'', ''b'']"
proof -
  have "db_inv demo_rows" by (simp add: db_inv_def demo_rows_def demo_row_def)
  moreover have "\<forall>x \<in> set (db_jobs demo_rows). jr_id x \<noteq> []" by (simp add: demo_rows_def demo_row_def)
  ultimately have "follow_cursor (Suc (length (db_jobs demo_rows))) (first_page 1) demo_rows =
      Some (map job_of_row (rev (sort_key recency (db_jobs demo_rows))))"
    by (rule cursor_reads_every_row_once)
  then show ?thesis
    by (simp add: demo_rows_def demo_row_def recency_def job_of_row_def numeral_eq_Suc)
qed

subsection \<open>Retention\<close>


definition demo_target_row :: "string \<Rightarrow> target_row" where
  "demo_target_row jid =
     \<lparr>tg_job_id = jid, tg_agent_id = ''a'', tg_status = ''succeeded'', tg_result_text = [],
      tg_result_json = [], tg_updated_at_unix = 1\<rparr>"

definition demo_finished :: job_db where
  "demo_finished = \<lparr>db_jobs = [(demo_row ''a'' 1)\<lparr>jr_status := ''succeeded''\<rparr>], db_targets = [demo_target_row ''a'']\<rparr>"


subsection \<open>Start-up\<close>

lemma install_fields:
  "sv_jobs (installRestoredJob j s) = (sv_jobs s)(j_id j \<mapsto> j)"
  "sv_sequence (installRestoredJob j s) = MaxPrefixed (sv_sequence s) ''job'' (j_id j)"
  "sv_keys (installRestoredJob j s) = (if j_key j = [] then sv_keys s else (sv_keys s)(j_key j \<mapsto> j_id j))"
  by (simp_all add: installRestoredJob_def Let_def frame_simps syncJobTargetsIndexLocked_def)

lemma build_fields [simp]:
  "j_id (buildJobWithTargets rec ts) = r_id rec" "j_key (buildJobWithTargets rec ts) = r_key rec"
  by (simp_all add: buildJobWithTargets_def Let_def jobFromRecord_def)

lemma restore_sequence:
  "sv_sequence (restore recs ts s) = fold (\<lambda>rec c. MaxPrefixed c ''job'' (r_id rec)) recs (sv_sequence s)"
  unfolding restore_def by (induction recs arbitrary: s) (simp_all add: install_fields)

lemma restore_jobs_dom: "dom (sv_jobs (restore recs ts s)) = dom (sv_jobs s) \<union> r_id ` set recs"
  unfolding restore_def by (induction recs arbitrary: s) (auto simp: install_fields)

lemma restore_keys_dom: "dom (sv_keys (restore recs ts s)) \<subseteq> dom (sv_keys s) \<union> r_key ` set recs"
  unfolding restore_def
  by (induction recs arbitrary: s) (force simp: install_fields split: if_splits)+

text \<open>A table with N finished jobs in the order they were created.\<close>

definition history_row :: "nat \<Rightarrow> job_row" where
  "history_row n = (demo_row (job_id_of (of_nat (Suc n))) (int n))\<lparr>jr_status := ''succeeded''\<rparr>"

definition history :: "nat \<Rightarrow> job_db" where
  "history N = \<lparr>db_jobs = map history_row [0..<N], db_targets = []\<rparr>"

lemma ListJobs_history: "ListJobs (history N) = map (job_of_row \<circ> history_row) [0..<min DefaultListLimit N]"
proof -
  have "sorted (map recency (map history_row [0..<N]))"
    unfolding map_map
    by (rule sorted_map_mono [OF sorted_upt]) (auto simp: monotone_on_def mono_on_def recency_def history_row_def demo_row_def less_eq_prod_def le_less)
  then have "sort_key recency (map history_row [0..<N]) = map history_row [0..<N]"
    by (rule sort_key_id_if_sorted)
  moreover have "take DefaultListLimit [0..<N] = [0..<min DefaultListLimit N]"
    by (cases "DefaultListLimit \<le> N") simp_all
  ultimately show ?thesis by (simp add: ListJobs_def history_def take_map)
qed

lemma history_sequence:
  "m < 2 ^ 64 \<Longrightarrow>
   fold (\<lambda>rec c. MaxPrefixed c ''job'' (r_id rec)) (map (job_of_row \<circ> history_row) [0..<m]) 0 = of_nat m"
proof (induction m)
  case (Suc m)
  then have "(of_nat m :: uint64) \<le> of_nat (Suc m)"
    by (simp add: word_le_nat_alt unat_of_nat del: of_nat_Suc)
  with Suc show ?case
    by (simp add: job_of_row_def history_row_def demo_row_def MaxPrefixed_job_id max_def)
qed simp



subsection \<open>Identifiers\<close>

text \<open>
  Job identifiers are unique per sequence number, the text comparison that superseding
  and the listings use agrees with the order of the numbers below a million million, and
  reading the number back from an identifier at start-up raises the sequence exactly to it.
\<close>

theorem job_ids_order:
  assumes "unat n < 10 ^ 12" and "unat m < 10 ^ 12"
  shows "(job_id_of n < job_id_of m \<longleftrightarrow> n < m) \<and> (job_id_of n = job_id_of m \<longleftrightarrow> n = m) \<and>
    MaxPrefixed c ''job'' (job_id_of n) = max c n"
  using pad_zero_less_iff [OF _ assms]
  by (simp add: job_id_of_inject MaxPrefixed_job_id) (simp add: job_id_of_def word_less_nat_alt)

theorem job_ids_order_witness:
  "job_id_of 999999 < job_id_of 1000000 \<and> MaxPrefixed 7 ''job'' (job_id_of 999999) = 999999"
  using job_ids_order [of 999999 1000000 7] by simp

subsection \<open>Late results and late writes\<close>

text \<open>
  When a result arrives for a job that is past its time to live, the call expires the job
  instead: every unfinished target becomes expired and the result is dropped, yet the call
  reports that the result was applied.
\<close>

theorem late_result_is_dropped_but_reported:
  assumes "queue_reachable (s, P)" and "sv_jobs s jobID = Some job" and "jobShouldExpire job now"
    and "RecordResult agentID jobID success message resultJSON now s = (cands, applied, s')"
  shows "applied \<and> (\<exists>job'. sv_jobs s' jobID = Some job' \<and> j_status job' = StatusExpired \<and>
    j_targets job' = map (expire_target now) (j_targets job))"
proof -
  have inv: "queue_inv P s" using assms(1) by (rule reachable_inv)
  have "updateTarget agentID jobID (record_result_target success message resultJSON) now s = (cands, applied, s')"
    using assms(4) by (simp add: RecordResult_def)
  then show ?thesis
    using assms(2,3) job_id_of_resident [OF inv assms(2)]
    by (auto simp: updateTarget_def expireJob_eq split_def Let_def frame_simps commit_jobs commit_status_def)
qed

theorem late_result_is_dropped_but_reported_witness:
  "fst (snd (RecordResult ''b'' (job_id_of 1) True [] [] 2000 demo_one)) \<and>
   (\<exists>job'. sv_jobs (snd (snd (RecordResult ''b'' (job_id_of 1) True [] [] 2000 demo_one))) (job_id_of 1) = Some job' \<and>
      j_status job' = StatusExpired)"
proof -
  have "jobShouldExpire demo_first 2000"
    by (simp add: jobShouldExpire_def demo_first_def new_job_def demo_input_def is_live_def)
  then show ?thesis
    using late_result_is_dropped_but_reported [OF demo_reachable_one, of "job_id_of 1" demo_first 2000 "''b''" True "[]" "[]"
        "fst (RecordResult ''b'' (job_id_of 1) True [] [] 2000 demo_one)"
        "fst (snd (RecordResult ''b'' (job_id_of 1) True [] [] 2000 demo_one))"
        "snd (snd (RecordResult ''b'' (job_id_of 1) True [] [] 2000 demo_one))"]
    by (auto simp: demo_one_jobs)
qed

text \<open>
  The loop that writes a job until the stored version is the latest returns as soon as
  two successive passes see the same version, however the job changed before: it cannot
  spin once the job is quiet.
\<close>

theorem persist_loop_stops:
  assumes "sv_jobVersion s jobID = sv_jobVersion s' jobID"
  shows "fst (persistLatestJobVersion persist (ss @ [s, s']) jobID version job db) \<noteq> PersistRunning"
  using assms by (rule persistLatest_stops)

lemma demo_one_version: "sv_jobVersion demo_one (job_id_of 1) = Some 1"
  by (simp add: demo_one_eq publish_job_def Let_def frame_simps syncJobTargetsIndexLocked_def demo_reserved1_eq
      demo_defs)

theorem persist_loop_stops_witness:
  "fst (persistLatestJobVersion demo_persist [demo_one, demo_one] (job_id_of 1) 0 demo_first ()) = PersistDone"
proof -
  have "fst (persistLatestJobVersion demo_persist ([] @ [demo_one, demo_one]) (job_id_of 1) 0 demo_first ())
      \<noteq> PersistRunning"
    by (rule persist_loop_stops) (rule refl)
  then show ?thesis by (simp add: demo_persist_def demo_one_version demo_one_jobs)
qed

end
