(* ===== verification/Guess_Limit.thy ===== *)
theory Guess_Limit
  imports Panvex_Prelude
begin

section \<open>What a limiter promises\<close>

text \<open>
  The contract shared by the login lockouts and the rate limiter: an attempt is either
  rejected or admitted, an admitted attempt consumes budget of its key, and within the span
  that starts at an admissible instant the budget a key has consumed is never given back.
  From these laws follows the bound the program relies on: however the attempts of all keys
  interleave, at most \<open>budget\<close> attempts of one tracked key are admitted inside the span.
\<close>

text \<open>
  A run: attempts with their instants and the visiting orders of the sweeps they trigger;
  the result lists which attempts were admitted.
\<close>

fun attempts ::
    "('o \<Rightarrow> 'k \<Rightarrow> gotime \<Rightarrow> 's \<Rightarrow> bool \<times> 's) \<Rightarrow> ('o \<times> 'k \<times> gotime) list \<Rightarrow> 's \<Rightarrow> bool list" where
  "attempts admit [] s = []"
| "attempts admit ((ord, k, now) # es) s =
     (let (ok, s') = admit ord k now s in ok # attempts admit es s')"

definition admitted :: "'k \<Rightarrow> ('o \<times> 'k \<times> gotime) list \<Rightarrow> bool list \<Rightarrow> nat" where
  "admitted k es oks = length (filter (\<lambda>((ord, k', now), ok). k' = k \<and> ok) (zip es oks))"

locale guess_limit =
  fixes admit :: "'o \<Rightarrow> 'k \<Rightarrow> gotime \<Rightarrow> 's \<Rightarrow> bool \<times> 's"
    and valid :: "'s \<Rightarrow> bool"
    and tracked :: "'k \<Rightarrow> bool"
    and starts :: "gotime \<Rightarrow> bool"
    and span :: duration
    and budget :: nat
    and used :: "gotime \<Rightarrow> 's \<Rightarrow> 'k \<Rightarrow> nat"
  assumes valid_admit: "valid s \<Longrightarrow> valid (snd (admit ord k now s))"
    and used_budget: "valid s \<Longrightarrow> used t0 s k \<le> budget"
    and used_mono: "valid s \<Longrightarrow> starts t0 \<Longrightarrow> t0 \<le> now \<Longrightarrow> now < t0 + span \<Longrightarrow>
      used t0 s k' \<le> used t0 (snd (admit ord k now s)) k'"
    and used_admitted: "valid s \<Longrightarrow> starts t0 \<Longrightarrow> t0 \<le> now \<Longrightarrow> now < t0 + span \<Longrightarrow>
      tracked k \<Longrightarrow> fst (admit ord k now s) \<Longrightarrow> used t0 s k < used t0 (snd (admit ord k now s)) k"
begin

lemma admitted_plus_used:
  assumes "valid s" and "starts t0" and "tracked k" and "\<forall>(ord, k', now) \<in> set es. t0 \<le> now \<and> now < t0 + span"
  shows "used t0 s k + admitted k es (attempts admit es s) \<le> budget"
  using assms(1,4)
proof (induction es arbitrary: s)
  case Nil
  then show ?case using used_budget by (simp add: admitted_def)
next
  case (Cons e es)
  obtain ord k' now where e: "e = (ord, k', now)" by (cases e)
  obtain ok s' where step: "admit ord k' now s = (ok, s')" by fastforce
  have valid': "valid s'" using valid_admit [OF Cons.prems(1), of ord k' now] step by simp
  have IH: "used t0 s' k + admitted k es (attempts admit es s') \<le> budget"
    using Cons.prems(2) by (intro Cons.IH valid') simp
  have now: "t0 \<le> now" "now < t0 + span" using Cons.prems(2) e by auto
  have mono: "used t0 s k \<le> used t0 s' k"
    using used_mono [OF Cons.prems(1) assms(2) now, of k ord k'] step by simp
  have strict: "used t0 s k < used t0 s' k" if "ok" "k' = k"
    using used_admitted [OF Cons.prems(1) assms(2) now, of k' ord] step that assms(3) by simp
  have "admitted k (e # es) (attempts admit (e # es) s) =
      (if k' = k \<and> ok then 1 else 0) + admitted k es (attempts admit es s')"
    by (simp add: e step admitted_def)
  with IH mono strict show ?case by (auto split: if_splits)
qed

text \<open>The bound.\<close>

lemma admitted_at_most:
  assumes "valid s" and "starts t0" and "tracked k" and "\<forall>(ord, k', now) \<in> set es. t0 \<le> now \<and> now < t0 + span"
  shows "admitted k es (attempts admit es s) \<le> budget"
  using admitted_plus_used [OF assms] by simp

end

end
