(* ===== verification/Lockout.thy ===== *)
theory Lockout
  imports Guess_Limit Job_Store
begin

section \<open>Login lockouts (internal/controlplane/sessions)\<close>

text \<open>
  The consecutive-failure counter behind the password and the second-factor lockout
  (lockout_core.go), the persistent password tracker over it (lockout.go), the in-memory
  second-factor tracker (totp_lockout.go) and the SQLite table the password tracker mirrors
  to (storage/sqlite/lockouts.go). The operations return the work for the store beside the
  new tracker, as the code collects it under the mutex and runs it after. The visiting order
  of the clean-up loop is an argument, and its length is the size of the map. The live
  threshold getters are the values they return.
\<close>

subsection \<open>The counter\<close>

record lockout_entry =
  le_failures :: int
  le_lockedAt :: gotime

definition zero_entry :: lockout_entry where
  "zero_entry = \<lparr>le_failures = 0, le_lockedAt = 0\<rparr>"

record counter_lockout =
  cl_entries :: "string \<rightharpoonup> lockout_entry"
  cl_maxAttempts :: int
  cl_window :: duration
  cl_maxAttemptsFn :: "int option"
  cl_windowFn :: "duration option"

definition newCounterLockout :: "int \<Rightarrow> duration \<Rightarrow> counter_lockout" where
  "newCounterLockout maxAttempts window =
     \<lparr>cl_entries = Map.empty, cl_maxAttempts = maxAttempts, cl_window = window,
      cl_maxAttemptsFn = None, cl_windowFn = None\<rparr>"

definition maxAttemptsLocked :: "counter_lockout \<Rightarrow> int" where
  "maxAttemptsLocked t = (case cl_maxAttemptsFn t of Some n \<Rightarrow> n | None \<Rightarrow> cl_maxAttempts t)"

definition windowLocked :: "counter_lockout \<Rightarrow> duration" where
  "windowLocked t = (case cl_windowFn t of Some w \<Rightarrow> w | None \<Rightarrow> cl_window t)"

text \<open>The shard of a key: FNV-1a over its bytes, modulo the number of shards.\<close>

unbundle bit_operations_syntax

definition lockoutShardCount :: "32 word" where
  "lockoutShardCount = 16"

definition fnv_step :: "char \<Rightarrow> 32 word \<Rightarrow> 32 word" where
  "fnv_step c hash = (hash XOR of_nat (of_char c)) * 16777619"

definition lockoutShardFor :: "string \<Rightarrow> 32 word" where
  "lockoutShardFor key = fold fnv_step key 2166136261 mod lockoutShardCount"

record store_ops =
  so_persist :: "(string \<times> lockout_entry) option"
  so_deletes :: "string list"

definition no_ops :: store_ops where
  "no_ops = \<lparr>so_persist = None, so_deletes = []\<rparr>"

definition lapsed :: "counter_lockout \<Rightarrow> gotime \<Rightarrow> lockout_entry \<Rightarrow> bool" where
  "lapsed t now e \<longleftrightarrow>
     le_failures e \<ge> maxAttemptsLocked t \<and> time_sub now (le_lockedAt e) \<ge> windowLocked t"

definition IsLockedWithContext ::
    "string \<Rightarrow> gotime \<Rightarrow> counter_lockout \<Rightarrow> bool \<times> store_ops \<times> counter_lockout" where
  "IsLockedWithContext key now t =
     (case cl_entries t key of
        None \<Rightarrow> (False, no_ops, t)
      | Some e \<Rightarrow>
          if le_failures e < maxAttemptsLocked t then (False, no_ops, t)
          else if time_sub now (le_lockedAt e) \<ge> windowLocked t
            then (False, no_ops\<lparr>so_deletes := [key]\<rparr>, t\<lparr>cl_entries := (cl_entries t)(key := None)\<rparr>)
          else (True, no_ops, t))"

definition bumpLocked ::
    "string \<Rightarrow> lockout_entry \<Rightarrow> gotime \<Rightarrow> counter_lockout \<Rightarrow> store_ops \<times> counter_lockout" where
  "bumpLocked key entry now t =
     (let e1 = entry\<lparr>le_failures := le_failures entry + 1\<rparr>;
          e2 = (if le_failures e1 \<ge> maxAttemptsLocked t then e1\<lparr>le_lockedAt := now\<rparr> else e1)
      in (no_ops\<lparr>so_persist := Some (key, e2)\<rparr>, t\<lparr>cl_entries := (cl_entries t)(key \<mapsto> e2)\<rparr>))"

definition cleanup_step ::
    "gotime \<Rightarrow> string \<Rightarrow> string list \<times> counter_lockout \<Rightarrow> string list \<times> counter_lockout" where
  "cleanup_step now key ct =
     (let (evicted, t) = ct in
      case cl_entries t key of
        None \<Rightarrow> (evicted, t)
      | Some e \<Rightarrow>
          if lapsed t now e
          then (evicted @ [key], t\<lparr>cl_entries := (cl_entries t)(key := None)\<rparr>)
          else (evicted, t))"

definition cleanupLocked :: "string list \<Rightarrow> gotime \<Rightarrow> counter_lockout \<Rightarrow> string list \<times> counter_lockout" where
  "cleanupLocked order now t =
     (if length order < 64 then ([], t) else fold (cleanup_step now) order ([], t))"

definition bump_and_clean ::
    "string list \<Rightarrow> string \<Rightarrow> lockout_entry \<Rightarrow> gotime \<Rightarrow> counter_lockout \<Rightarrow> store_ops \<times> counter_lockout" where
  "bump_and_clean order key entry now t =
     (let (ops, t1) = bumpLocked key entry now t;
          (evicted, t2) = cleanupLocked order now t1
      in (ops\<lparr>so_deletes := so_deletes ops @ evicted\<rparr>, t2))"

definition RecordFailureWithContext ::
    "string list \<Rightarrow> string \<Rightarrow> gotime \<Rightarrow> counter_lockout \<Rightarrow> store_ops \<times> counter_lockout" where
  "RecordFailureWithContext order key now t =
     bump_and_clean order key (map_get zero_entry (cl_entries t) key) now t"

definition CheckAndRecordFailureWithContext ::
    "string list \<Rightarrow> string \<Rightarrow> gotime \<Rightarrow> counter_lockout \<Rightarrow> bool \<times> store_ops \<times> counter_lockout" where
  "CheckAndRecordFailureWithContext order key now t =
     (let entry = map_get zero_entry (cl_entries t) key;
          tripped = (cl_entries t key \<noteq> None \<and> le_failures entry \<ge> maxAttemptsLocked t)
      in if tripped \<and> time_sub now (le_lockedAt entry) < windowLocked t then (True, no_ops, t)
         else (False, bump_and_clean order key (if tripped then zero_entry else entry) now t))"

definition RecordSuccessWithContext :: "string \<Rightarrow> counter_lockout \<Rightarrow> store_ops \<times> counter_lockout" where
  "RecordSuccessWithContext key t =
     (no_ops\<lparr>so_deletes := [key]\<rparr>, t\<lparr>cl_entries := (cl_entries t)(key := None)\<rparr>)"

definition ActiveCount :: "string list \<Rightarrow> gotime \<Rightarrow> counter_lockout \<Rightarrow> nat" where
  "ActiveCount order now t =
     fold (\<lambda>k n. case cl_entries t k of
             None \<Rightarrow> n
           | Some e \<Rightarrow> if le_failures e \<ge> maxAttemptsLocked t \<and> time_sub now (le_lockedAt e) < windowLocked t
               then Suc n else n) order 0"

subsection \<open>The two trackers\<close>

definition LockoutMaxAttempts :: int where "LockoutMaxAttempts = 5"

definition LockoutDuration :: duration where "LockoutDuration = 15 * minute_ns"

definition TOTPLockoutMaxAttempts :: int where "TOTPLockoutMaxAttempts = 3"

definition TOTPLockoutDuration :: duration where "TOTPLockoutDuration = 5 * minute_ns"

definition NewLockoutTracker :: counter_lockout where
  "NewLockoutTracker = newCounterLockout LockoutMaxAttempts LockoutDuration"

definition NewTOTPLockoutTracker :: counter_lockout where
  "NewTOTPLockoutTracker = newCounterLockout TOTPLockoutMaxAttempts TOTPLockoutDuration"

definition SetThresholds :: "int option \<Rightarrow> duration option \<Rightarrow> counter_lockout \<Rightarrow> counter_lockout" where
  "SetThresholds maxAttempts duration t = t\<lparr>cl_maxAttemptsFn := maxAttempts, cl_windowFn := duration\<rparr>"

definition SetTOTPThresholds :: "int \<Rightarrow> duration option \<Rightarrow> counter_lockout \<Rightarrow> counter_lockout" where
  "SetTOTPThresholds maxAttempts window t = t\<lparr>cl_maxAttempts := maxAttempts, cl_windowFn := window\<rparr>"

subsection \<open>The mirror in the database\<close>

record lockout_record =
  lr_username :: string
  lr_failures :: int
  lr_lockedAt :: "gotime option"
  lr_updatedAt :: gotime

record lockout_row =
  lw_failures :: int
  lw_locked_at_unix :: "int option"
  lw_updated_at_unix :: int

type_synonym lockout_table = "string \<rightharpoonup> lockout_row"

definition toNullableUnix :: "gotime option \<Rightarrow> int option" where
  "toNullableUnix t = (case t of None \<Rightarrow> None | Some u \<Rightarrow> if is_zero_time u then None else Some (toUnix u))"

definition fromNullableUnix :: "int option \<Rightarrow> gotime option" where
  "fromNullableUnix v = map_option fromUnix v"

definition UpsertLoginLockout :: "lockout_record \<Rightarrow> lockout_table \<Rightarrow> lockout_table" where
  "UpsertLoginLockout rec db =
     db(lr_username rec \<mapsto>
          \<lparr>lw_failures = lr_failures rec, lw_locked_at_unix = toNullableUnix (lr_lockedAt rec),
           lw_updated_at_unix = toUnix (lr_updatedAt rec)\<rparr>)"

definition lockout_of_row :: "string \<Rightarrow> lockout_row \<Rightarrow> lockout_record" where
  "lockout_of_row username row =
     \<lparr>lr_username = username, lr_failures = lw_failures row,
      lr_lockedAt = fromNullableUnix (lw_locked_at_unix row), lr_updatedAt = fromUnix (lw_updated_at_unix row)\<rparr>"

definition GetLoginLockout :: "string \<Rightarrow> lockout_table \<Rightarrow> store_error + lockout_record" where
  "GetLoginLockout username db =
     (case db username of None \<Rightarrow> Inl ErrNotFound | Some row \<Rightarrow> Inr (lockout_of_row username row))"

definition DeleteLoginLockout :: "string \<Rightarrow> lockout_table \<Rightarrow> lockout_table" where
  "DeleteLoginLockout username db = db(username := None)"

definition ListLoginLockouts :: "string list \<Rightarrow> lockout_table \<Rightarrow> lockout_record list" where
  "ListLoginLockouts order db = List.map_filter (\<lambda>u. map_option (lockout_of_row u) (db u)) order"

definition DeleteExpiredLoginLockouts :: "gotime \<Rightarrow> lockout_table \<Rightarrow> lockout_table" where
  "DeleteExpiredLoginLockouts before db =
     (\<lambda>u. case db u of
            None \<Rightarrow> None
          | Some row \<Rightarrow> if lw_updated_at_unix row < toUnix before then None else Some row)"

text \<open>
  The hooks of the password tracker. \<open>up\<close> says whether the statement succeeds: a failing one
  is logged and changes nothing.
\<close>

definition persistEntry :: "bool \<Rightarrow> gotime \<Rightarrow> string \<Rightarrow> lockout_entry \<Rightarrow> lockout_table \<Rightarrow> lockout_table" where
  "persistEntry up clock username entry db =
     (if up then UpsertLoginLockout
        \<lparr>lr_username = username, lr_failures = le_failures entry,
         lr_lockedAt = (if is_zero_time (le_lockedAt entry) then None else Some (le_lockedAt entry)),
         lr_updatedAt = clock\<rparr> db
      else db)"

definition deletePersisted :: "bool \<Rightarrow> string \<Rightarrow> lockout_table \<Rightarrow> lockout_table" where
  "deletePersisted up username db = (if up then DeleteLoginLockout username db else db)"

definition runOps :: "bool \<Rightarrow> gotime \<Rightarrow> store_ops \<Rightarrow> lockout_table \<Rightarrow> lockout_table" where
  "runOps up clock ops db =
     fold (deletePersisted up) (so_deletes ops)
       (case so_persist ops of None \<Rightarrow> db | Some (key, e) \<Rightarrow> persistEntry up clock key e db)"

definition restore_record :: "duration \<Rightarrow> gotime \<Rightarrow> lockout_record \<Rightarrow> counter_lockout \<Rightarrow> counter_lockout" where
  "restore_record window now rec t =
     (case lr_lockedAt rec of
        Some l \<Rightarrow>
          if time_sub now l \<ge> window then t
          else t\<lparr>cl_entries := (cl_entries t)(lr_username rec \<mapsto> \<lparr>le_failures = lr_failures rec, le_lockedAt = l\<rparr>)\<rparr>
      | None \<Rightarrow>
          t\<lparr>cl_entries := (cl_entries t)(lr_username rec \<mapsto> \<lparr>le_failures = lr_failures rec, le_lockedAt = 0\<rparr>)\<rparr>)"

definition Restore :: "lockout_record list \<Rightarrow> gotime \<Rightarrow> counter_lockout \<Rightarrow> counter_lockout" where
  "Restore records now t = fold (restore_record (windowLocked t) now) records t"

subsection \<open>What the operations leave alone\<close>

lemma cleanup_step_frame [frame_simps]:
  "maxAttemptsLocked (snd (cleanup_step now k ct)) = maxAttemptsLocked (snd ct)"
  "windowLocked (snd (cleanup_step now k ct)) = windowLocked (snd ct)"
  by (cases ct; auto simp: cleanup_step_def maxAttemptsLocked_def windowLocked_def split: option.splits)+

lemma thresholds_entries [simp]:
  "maxAttemptsLocked (t\<lparr>cl_entries := m\<rparr>) = maxAttemptsLocked t"
  "windowLocked (t\<lparr>cl_entries := m\<rparr>) = windowLocked t"
  by (simp_all add: maxAttemptsLocked_def windowLocked_def split: option.splits)

lemma cleanup_step_entry:
  "cl_entries (snd (cleanup_step now k ct)) x =
     (if x = k then (case cl_entries (snd ct) x of None \<Rightarrow> None
        | Some e \<Rightarrow> if lapsed (snd ct) now e then None else Some e)
      else cl_entries (snd ct) x)"
  by (cases ct) (auto simp: cleanup_step_def split: option.splits)

lemma cleanup_fold:
  "maxAttemptsLocked (snd (fold (cleanup_step now) ks ct)) = maxAttemptsLocked (snd ct) \<and>
   windowLocked (snd (fold (cleanup_step now) ks ct)) = windowLocked (snd ct) \<and>
   cl_entries (snd (fold (cleanup_step now) ks ct)) x =
     (case cl_entries (snd ct) x of
        None \<Rightarrow> None | Some e \<Rightarrow> if x \<in> set ks \<and> lapsed (snd ct) now e then None else Some e)"
proof (induction ks arbitrary: ct)
  case Nil
  then show ?case by (simp split: option.splits)
next
  case (Cons k ks)
  have lap: "lapsed (snd (cleanup_step now k ct)) now e = lapsed (snd ct) now e" for e
    by (simp add: lapsed_def frame_simps)
  show ?case
    using Cons [of "cleanup_step now k ct"]
    by (auto simp: frame_simps cleanup_step_entry lap split: option.splits if_splits)
qed

lemma cleanup_thresholds [simp]:
  "maxAttemptsLocked (snd (cleanupLocked order now t)) = maxAttemptsLocked t"
  "windowLocked (snd (cleanupLocked order now t)) = windowLocked t"
  using cleanup_fold [of now order "([], t)"] by (simp_all add: cleanupLocked_def)

lemma cleanup_entries:
  "cl_entries (snd (cleanupLocked order now t)) x = cl_entries t x \<or>
   (cl_entries (snd (cleanupLocked order now t)) x = None \<and> (\<exists>e. cl_entries t x = Some e \<and> lapsed t now e))"
  using cleanup_fold [of now order "([], t)" x] by (auto simp: cleanupLocked_def split: option.splits if_splits)

definition bumped :: "counter_lockout \<Rightarrow> lockout_entry \<Rightarrow> gotime \<Rightarrow> lockout_entry" where
  "bumped t e now =
     (if le_failures e + 1 \<ge> maxAttemptsLocked t then \<lparr>le_failures = le_failures e + 1, le_lockedAt = now\<rparr>
      else e\<lparr>le_failures := le_failures e + 1\<rparr>)"

lemma bump_entries: "snd (bumpLocked key e now t) = t\<lparr>cl_entries := (cl_entries t)(key \<mapsto> bumped t e now)\<rparr>"
  by (cases e) (simp add: bumpLocked_def bumped_def Let_def)

lemma bump_and_clean_snd:
  "snd (bump_and_clean order key e now t) =
     snd (cleanupLocked order now (t\<lparr>cl_entries := (cl_entries t)(key \<mapsto> bumped t e now)\<rparr>))"
  by (simp add: bump_and_clean_def split_def Let_def bump_entries)

lemma not_lapsed_bumped: "0 < windowLocked t \<Longrightarrow> \<not> lapsed t now (bumped t e now)"
  by (simp add: lapsed_def bumped_def)

lemma bump_and_clean_own:
  assumes "0 < windowLocked t"
  shows "cl_entries (snd (bump_and_clean order key e now t)) key = Some (bumped t e now)"
  using cleanup_entries [of order now "t\<lparr>cl_entries := (cl_entries t)(key \<mapsto> bumped t e now)\<rparr>" key]
    not_lapsed_bumped [OF assms, of now e]
  by (auto simp: bump_and_clean_snd lapsed_def)

lemma bump_and_clean_other:
  assumes "x \<noteq> key"
  shows "cl_entries (snd (bump_and_clean order key e now t)) x = cl_entries t x \<or>
   (cl_entries (snd (bump_and_clean order key e now t)) x = None \<and> (\<exists>e'. cl_entries t x = Some e' \<and> lapsed t now e'))"
  using cleanup_entries [of order now "t\<lparr>cl_entries := (cl_entries t)(key \<mapsto> bumped t e now)\<rparr>" x] assms
  by (auto simp: bump_and_clean_snd lapsed_def)

lemma bump_and_clean_thresholds [simp]:
  "maxAttemptsLocked (snd (bump_and_clean order key e now t)) = maxAttemptsLocked t"
  "windowLocked (snd (bump_and_clean order key e now t)) = windowLocked t"
  by (simp_all add: bump_and_clean_snd)

subsection \<open>The counter as a limiter of guesses\<close>

definition counter_admit ::
    "string list \<Rightarrow> string \<Rightarrow> gotime \<Rightarrow> counter_lockout \<Rightarrow> bool \<times> counter_lockout" where
  "counter_admit order key now t =
     (let (locked, ops, t') = CheckAndRecordFailureWithContext order key now t in (\<not> locked, t'))"

definition counter_valid :: "int \<Rightarrow> duration \<Rightarrow> counter_lockout \<Rightarrow> bool" where
  "counter_valid n w t \<longleftrightarrow>
     maxAttemptsLocked t = n \<and> windowLocked t = w \<and> 1 \<le> n \<and> 0 < w \<and> w \<le> max_duration \<and>
     (\<forall>k e. cl_entries t k = Some e \<longrightarrow> 0 \<le> le_failures e)"

definition counter_used :: "int \<Rightarrow> gotime \<Rightarrow> counter_lockout \<Rightarrow> string \<Rightarrow> nat" where
  "counter_used n t0 t key =
     (case cl_entries t key of
        None \<Rightarrow> 0
      | Some e \<Rightarrow> if le_failures e \<ge> n then (if le_lockedAt e \<ge> t0 then nat n else 0) else nat (le_failures e))"

abbreviation live_entry :: "counter_lockout \<Rightarrow> string \<Rightarrow> lockout_entry" where
  "live_entry t key \<equiv>
     (case cl_entries t key of
        None \<Rightarrow> zero_entry | Some e \<Rightarrow> if le_failures e \<ge> maxAttemptsLocked t then zero_entry else e)"

lemma counter_admit_cases:
  "counter_admit order key now t =
     (if \<exists>e. cl_entries t key = Some e \<and> le_failures e \<ge> maxAttemptsLocked t \<and>
         time_sub now (le_lockedAt e) < windowLocked t
      then (False, t) else (True, snd (bump_and_clean order key (live_entry t key) now t)))"
  by (cases "cl_entries t key")
    (auto simp: counter_admit_def CheckAndRecordFailureWithContext_def Let_def split_def map_get_def)

lemma live_entry_bounds:
  "counter_valid n w t \<Longrightarrow> 0 \<le> le_failures (live_entry t key) \<and> le_failures (live_entry t key) < n"
  by (auto simp: counter_valid_def zero_entry_def split: option.splits)

lemma bumped_failures: "le_failures (bumped t e now) = le_failures e + 1"
  by (simp add: bumped_def)

lemma counter_admit_valid:
  assumes v: "counter_valid n w t"
  shows "counter_valid n w (snd (counter_admit order key now t))"
proof -
  let ?t = "snd (bump_and_clean order key (live_entry t key) now t)"
  have "0 \<le> le_failures e" if "cl_entries ?t x = Some e" for x e
  proof (cases "x = key")
    case True
    with that v live_entry_bounds [OF v, of key]
      bump_and_clean_own [of t order key "live_entry t key" now] show ?thesis
      by (auto simp: counter_valid_def bumped_failures)
  next
    case False
    from bump_and_clean_other [OF False, of order "live_entry t key" now t] that v show ?thesis
      by (auto simp: counter_valid_def)
  qed
  with v show ?thesis by (simp add: counter_admit_cases counter_valid_def)
qed

lemma not_lapsed_in_span:
  assumes "counter_valid n w t" and "t0 \<le> now" and "now < t0 + w" and "lapsed t now e"
  shows "le_lockedAt e < t0"
  using assms time_sub_ge_iff [of w now "le_lockedAt e"]
  by (auto simp: lapsed_def counter_valid_def min_duration_def)

lemma counter_used_other:
  assumes v: "counter_valid n w t" and now: "t0 \<le> now" "now < t0 + w" and "x \<noteq> key"
  shows "counter_used n t0 t x \<le> counter_used n t0 (snd (bump_and_clean order key e now t)) x"
  using bump_and_clean_other [OF assms(4), of order e now t] v not_lapsed_in_span [OF v now]
  by (fastforce simp: counter_used_def counter_valid_def lapsed_def)

lemma counter_used_own:
  assumes v: "counter_valid n w t" and now: "t0 \<le> now" "now < t0 + w"
    and "\<not> (\<exists>e. cl_entries t key = Some e \<and> le_failures e \<ge> maxAttemptsLocked t \<and>
         time_sub now (le_lockedAt e) < windowLocked t)"
  shows "counter_used n t0 t key < counter_used n t0 (snd (bump_and_clean order key (live_entry t key) now t)) key"
proof -
  let ?e = "live_entry t key"
  have w: "0 < windowLocked t" using v by (simp add: counter_valid_def)
  have "counter_used n t0 t key \<le> nat (le_failures ?e)"
  proof (cases "cl_entries t key")
    case (Some e)
    show ?thesis
    proof (cases "n \<le> le_failures e")
      case True
      with assms(4) Some v have "lapsed t now e"
        by (auto simp: lapsed_def counter_valid_def not_less)
      from not_lapsed_in_span [OF v now this] True Some show ?thesis by (simp add: counter_used_def)
    next
      case False
      with Some v show ?thesis by (simp add: counter_used_def counter_valid_def)
    qed
  qed (simp add: counter_used_def)
  moreover have "counter_used n t0 (snd (bump_and_clean order key ?e now t)) key = nat (le_failures ?e + 1)"
    using bump_and_clean_own [OF w, of order key ?e now] v now live_entry_bounds [OF v, of key]
    by (auto simp: counter_used_def bumped_def counter_valid_def split: if_splits)
  ultimately show ?thesis using live_entry_bounds [OF v, of key] by linarith
qed

interpretation counter: guess_limit counter_admit "counter_valid n w" "\<lambda>_. True" "\<lambda>_. True" w "nat n" "counter_used n"
  for n w
proof
  show "counter_valid n w (snd (counter_admit order key now t))" if "counter_valid n w t" for t order key now
    using that by (rule counter_admit_valid)
  show "counter_used n t0 t k \<le> nat n" if "counter_valid n w t" for t t0 k
    using that by (auto simp: counter_used_def split: option.splits)
  fix t t0 now order key
  assume v: "counter_valid n w t" and now: "t0 \<le> now" "now < t0 + w"
  show strict: "counter_used n t0 t key < counter_used n t0 (snd (counter_admit order key now t)) key"
    if "fst (counter_admit order key now t)"
    using that counter_used_own [OF v now, of key order] by (auto simp: counter_admit_cases split: if_splits)
  show "counter_used n t0 t x \<le> counter_used n t0 (snd (counter_admit order key now t)) x" for x
  proof (cases "fst (counter_admit order key now t)")
    case True
    show ?thesis
    proof (cases "x = key")
      case True
      with \<open>fst _\<close> strict show ?thesis by simp
    next
      case False
      with True counter_used_other [OF v now False] show ?thesis
        by (auto simp: counter_admit_cases split: if_splits)
    qed
  next
    case False
    then show ?thesis by (auto simp: counter_admit_cases split: if_splits)
  qed
qed

subsection \<open>The mirror follows the tracker\<close>

definition row_matches :: "lockout_entry \<Rightarrow> lockout_row \<Rightarrow> bool" where
  "row_matches e row \<longleftrightarrow> lw_failures row = le_failures e \<and>
     lw_locked_at_unix row = (if le_lockedAt e = 0 then None else Some (toUnix (le_lockedAt e)))"

definition mirrors :: "counter_lockout \<Rightarrow> lockout_table \<Rightarrow> bool" where
  "mirrors t db \<longleftrightarrow> (\<forall>k. rel_option row_matches (cl_entries t k) (db k))"

lemma fold_deletePersisted:
  "fold (deletePersisted True) ks db = (\<lambda>k. if k \<in> set ks then None else db k)"
  by (induction ks arbitrary: db) (auto simp: deletePersisted_def DeleteLoginLockout_def fun_eq_iff)

lemma evicted_fold:
  "set (fst (fold (cleanup_step now) ks ct)) =
     set (fst ct) \<union> {k \<in> set ks. \<exists>e. cl_entries (snd ct) k = Some e \<and> lapsed (snd ct) now e}"
proof (induction ks arbitrary: ct)
  case (Cons k ks)
  have lap: "lapsed (snd (cleanup_step now k ct)) now e = lapsed (snd ct) now e" for e
    by (simp add: lapsed_def frame_simps)
  have "set (fst (cleanup_step now k ct)) =
      set (fst ct) \<union> {x. x = k \<and> (\<exists>e. cl_entries (snd ct) k = Some e \<and> lapsed (snd ct) now e)}"
    by (cases ct) (auto simp: cleanup_step_def split: option.splits)
  then show ?case
    by (auto simp: Cons.IH lap cleanup_step_entry split: if_splits option.splits)
qed simp

lemma cleanup_evicts:
  "cl_entries (snd (cleanupLocked order now t)) =
     (\<lambda>k. if k \<in> set (fst (cleanupLocked order now t)) then None else cl_entries t k)"
proof
  fix k
  show "cl_entries (snd (cleanupLocked order now t)) k =
      (if k \<in> set (fst (cleanupLocked order now t)) then None else cl_entries t k)"
    using cleanup_fold [of now order "([], t)" k] evicted_fold [of now order "([], t)"]
    by (auto simp: cleanupLocked_def split: option.splits if_splits)
qed

lemma persistEntry_upd: "\<exists>row. persistEntry True clock key e db = db(key \<mapsto> row) \<and> row_matches e row"
  by (auto simp: persistEntry_def UpsertLoginLockout_def row_matches_def toNullableUnix_def is_zero_time_def)

lemma bump_and_clean_mirrors:
  assumes "mirrors t db"
  shows "mirrors (snd (bump_and_clean order key e now t)) (runOps True clock (fst (bump_and_clean order key e now t)) db)"
proof -
  let ?t = "t\<lparr>cl_entries := (cl_entries t)(key \<mapsto> bumped t e now)\<rparr>"
  obtain row where row: "persistEntry True clock key (bumped t e now) db = db(key \<mapsto> row)"
      "row_matches (bumped t e now) row"
    using persistEntry_upd by blast
  have ops: "fst (bump_and_clean order key e now t) =
      \<lparr>so_persist = Some (key, bumped t e now), so_deletes = fst (cleanupLocked order now ?t)\<rparr>"
    by (cases e) (simp add: bump_and_clean_def split_def Let_def bump_entries,
      simp add: bumpLocked_def bumped_def Let_def no_ops_def)
  show ?thesis
    using assms row
    by (auto simp: mirrors_def ops runOps_def fold_deletePersisted bump_and_clean_snd cleanup_evicts)
qed

text \<open>Every operation of the tracker, with its work for the store done, keeps the mirror.\<close>

lemma operations_mirror:
  assumes "mirrors t db"
  shows "mirrors (snd (snd (IsLockedWithContext key now t))) (runOps True clock (fst (snd (IsLockedWithContext key now t))) db)"
    and "mirrors (snd (RecordFailureWithContext order key now t)) (runOps True clock (fst (RecordFailureWithContext order key now t)) db)"
    and "mirrors (snd (snd (CheckAndRecordFailureWithContext order key now t)))
      (runOps True clock (fst (snd (CheckAndRecordFailureWithContext order key now t))) db)"
    and "mirrors (snd (RecordSuccessWithContext key t)) (runOps True clock (fst (RecordSuccessWithContext key t)) db)"
proof -
  have idle: "mirrors t (runOps True clock no_ops db)" using assms by (simp add: runOps_def no_ops_def)
  have drop: "mirrors (t\<lparr>cl_entries := (cl_entries t)(key := None)\<rparr>) (runOps True clock (no_ops\<lparr>so_deletes := [key]\<rparr>) db)"
    using assms by (auto simp: runOps_def no_ops_def mirrors_def deletePersisted_def DeleteLoginLockout_def)
  from idle drop show "mirrors (snd (snd (IsLockedWithContext key now t)))
      (runOps True clock (fst (snd (IsLockedWithContext key now t))) db)"
    by (simp add: IsLockedWithContext_def split: option.splits)
  show "mirrors (snd (RecordFailureWithContext order key now t)) (runOps True clock (fst (RecordFailureWithContext order key now t)) db)"
    unfolding RecordFailureWithContext_def by (rule bump_and_clean_mirrors [OF assms])
  show "mirrors (snd (snd (CheckAndRecordFailureWithContext order key now t)))
      (runOps True clock (fst (snd (CheckAndRecordFailureWithContext order key now t))) db)"
    using idle bump_and_clean_mirrors [OF assms]
    by (simp add: CheckAndRecordFailureWithContext_def Let_def)
  from drop show "mirrors (snd (RecordSuccessWithContext key t)) (runOps True clock (fst (RecordSuccessWithContext key t)) db)"
    by (simp add: RecordSuccessWithContext_def)
qed

subsection \<open>Restart\<close>

lemma is_locked_iff:
  "fst (IsLockedWithContext key now t) \<longleftrightarrow>
     (\<exists>e. cl_entries t key = Some e \<and> maxAttemptsLocked t \<le> le_failures e \<and>
        time_sub now (le_lockedAt e) < windowLocked t)"
  by (auto simp: IsLockedWithContext_def split: option.splits)

definition restored_entry :: "duration \<Rightarrow> gotime \<Rightarrow> lockout_row \<Rightarrow> lockout_entry option" where
  "restored_entry w now row =
     (case lw_locked_at_unix row of
        None \<Rightarrow> Some \<lparr>le_failures = lw_failures row, le_lockedAt = 0\<rparr>
      | Some l \<Rightarrow> if time_sub now (fromUnix l) \<ge> w then None
          else Some \<lparr>le_failures = lw_failures row, le_lockedAt = fromUnix l\<rparr>)"

lemma restore_fold:
  assumes "distinct order"
  shows "cl_entries (fold (restore_record w now) (ListLoginLockouts order db) t) k =
    (if k \<in> set order \<and> db k \<noteq> None then (case restored_entry w now (the (db k)) of None \<Rightarrow> cl_entries t k | Some e \<Rightarrow> Some e)
     else cl_entries t k)"
  using assms
proof (induction order arbitrary: t)
  case (Cons u us)
  have "cl_entries (restore_record w now (lockout_of_row u row) t) k =
      (if k = u then (case restored_entry w now row of None \<Rightarrow> cl_entries t k | Some e \<Rightarrow> Some e) else cl_entries t k)" for row t
    by (auto simp: restore_record_def lockout_of_row_def restored_entry_def fromNullableUnix_def split: option.splits)
  with Cons show ?case
    by (cases "db u") (auto simp: ListLoginLockouts_def List.map_filter_def split: option.splits)
qed (simp add: ListLoginLockouts_def List.map_filter_def)

lemma restore_entries:
  assumes "range_order db order" and "cl_entries t = Map.empty"
  shows "cl_entries (Restore (ListLoginLockouts order db) now t) k = Option.bind (db k) (restored_entry (windowLocked t) now)"
proof -
  have "k \<in> set order \<longleftrightarrow> db k \<noteq> None" using range_order_set [OF assms(1)] by auto
  then show ?thesis
    using restore_fold [OF range_order_distinct [OF assms(1)]] assms(2)
    by (cases "db k") (auto simp: Restore_def split: option.splits)
qed

lemma restore_record_thresholds:
  "maxAttemptsLocked (restore_record w now rec t) = maxAttemptsLocked t"
  "windowLocked (restore_record w now rec t) = windowLocked t"
  by (simp_all add: restore_record_def split: option.splits)

lemma restore_thresholds:
  "maxAttemptsLocked (Restore recs now t) = maxAttemptsLocked t"
  "windowLocked (Restore recs now t) = windowLocked t"
proof -
  have "maxAttemptsLocked (fold (restore_record w now) recs t) = maxAttemptsLocked t \<and>
      windowLocked (fold (restore_record w now) recs t) = windowLocked t" for w
    by (induction recs arbitrary: t) (simp_all add: restore_record_thresholds)
  then show "maxAttemptsLocked (Restore recs now t) = maxAttemptsLocked t"
    "windowLocked (Restore recs now t) = windowLocked t" by (simp_all add: Restore_def)
qed

lemma stored_time_bounds: "stored_time t \<le> t" "t < stored_time t + second_ns"
  by (simp_all add: stored_time_eq second_ns_def)

end
