(* ===== verification/Ip_Lockout.thy ===== *)
theory Ip_Lockout
  imports Guess_Limit
begin

section \<open>The source-address lockout (internal/controlplane/sessions/ip_lockout.go)\<close>

text \<open>
  Failures per source address over a rolling window: the timestamps of the recent failures,
  or a deadline once the budget is spent. The visiting order of the clean-up loop is an
  argument, and its length is the size of the map.
\<close>

record ip_entry =
  ie_failures :: "gotime list"
  ie_lockedUntil :: gotime

definition zero_ip_entry :: ip_entry where
  "zero_ip_entry = \<lparr>ie_failures = [], ie_lockedUntil = 0\<rparr>"

record ip_tracker =
  it_entries :: "string \<rightharpoonup> ip_entry"
  it_maxFails :: nat
  it_window :: duration
  it_lockoutDur :: duration

definition NewIPLockoutTracker :: ip_tracker where
  "NewIPLockoutTracker =
     \<lparr>it_entries = Map.empty, it_maxFails = 50, it_window = 15 * minute_ns, it_lockoutDur = 30 * minute_ns\<rparr>"

text \<open>The shift loop drops the leading old stamps and stops at the first recent one.\<close>

definition pruneOlderThan :: "gotime list \<Rightarrow> gotime \<Rightarrow> gotime list" where
  "pruneOlderThan stamps cutoff = dropWhile (\<lambda>s. s < cutoff) stamps"

definition ip_cleanup_step :: "gotime \<Rightarrow> string \<Rightarrow> ip_tracker \<Rightarrow> ip_tracker" where
  "ip_cleanup_step now ip t =
     (case it_entries t ip of
        None \<Rightarrow> t
      | Some e \<Rightarrow>
          if \<not> is_zero_time (ie_lockedUntil e) \<and> now < ie_lockedUntil e then t
          else let e' = e\<lparr>ie_failures := pruneOlderThan (ie_failures e) (now - it_window t)\<rparr>
               in if ie_failures e' = [] \<and> is_zero_time (ie_lockedUntil e')
                  then t\<lparr>it_entries := (it_entries t)(ip := None)\<rparr>
                  else t\<lparr>it_entries := (it_entries t)(ip \<mapsto> e')\<rparr>)"

definition ip_cleanupLocked :: "string list \<Rightarrow> gotime \<Rightarrow> ip_tracker \<Rightarrow> ip_tracker" where
  "ip_cleanupLocked order now t =
     (if length order < 64 then t else fold (ip_cleanup_step now) order t)"

definition ip_IsLocked :: "string \<Rightarrow> gotime \<Rightarrow> ip_tracker \<Rightarrow> bool \<times> ip_tracker" where
  "ip_IsLocked ip now t =
     (if ip = [] then (False, t)
      else case it_entries t ip of
        None \<Rightarrow> (False, t)
      | Some e \<Rightarrow>
          if is_zero_time (ie_lockedUntil e) then (False, t)
          else if \<not> now < ie_lockedUntil e
            then (False, t\<lparr>it_entries := (it_entries t)(ip := None)\<rparr>)
          else (True, t))"

text \<open>Counting one failure on an entry that is not locked.\<close>

definition ip_count :: "ip_tracker \<Rightarrow> gotime \<Rightarrow> ip_entry \<Rightarrow> ip_entry" where
  "ip_count t now e =
     (let stamps = pruneOlderThan (ie_failures e) (now - it_window t) @ [now]
      in if length stamps \<ge> it_maxFails t then \<lparr>ie_failures = [], ie_lockedUntil = now + it_lockoutDur t\<rparr>
         else e\<lparr>ie_failures := stamps\<rparr>)"

definition ip_RecordFailure :: "string list \<Rightarrow> string \<Rightarrow> gotime \<Rightarrow> ip_tracker \<Rightarrow> ip_tracker" where
  "ip_RecordFailure order ip now t =
     (if ip = [] then t
      else let e = map_get zero_ip_entry (it_entries t) ip;
               t1 = t\<lparr>it_entries := (it_entries t)(ip \<mapsto> e)\<rparr>
           in if \<not> is_zero_time (ie_lockedUntil e) \<and> now < ie_lockedUntil e
              then ip_cleanupLocked order now t1
              else let e1 = (if \<not> is_zero_time (ie_lockedUntil e) \<and> \<not> now < ie_lockedUntil e
                             then zero_ip_entry else e)
                   in ip_cleanupLocked order now
                        (t1\<lparr>it_entries := (it_entries t1)(ip \<mapsto> ip_count t1 now e1)\<rparr>))"

definition ip_CheckAndRecordFailure ::
    "string list \<Rightarrow> string \<Rightarrow> gotime \<Rightarrow> ip_tracker \<Rightarrow> bool \<times> ip_tracker" where
  "ip_CheckAndRecordFailure order ip now t =
     (if ip = [] then (False, t)
      else let e = map_get zero_ip_entry (it_entries t) ip;
               locked = (it_entries t ip \<noteq> None \<and> \<not> is_zero_time (ie_lockedUntil e))
           in if locked \<and> now < ie_lockedUntil e then (True, t)
              else let e1 = (if locked then zero_ip_entry else e)
                   in (False, ip_cleanupLocked order now
                         (t\<lparr>it_entries := (it_entries t)(ip \<mapsto> ip_count t now e1)\<rparr>)))"

definition ip_ActiveCount :: "string list \<Rightarrow> gotime \<Rightarrow> ip_tracker \<Rightarrow> nat" where
  "ip_ActiveCount order now t =
     fold (\<lambda>k n. case it_entries t k of
             None \<Rightarrow> n
           | Some e \<Rightarrow> if is_zero_time (ie_lockedUntil e) then n
               else if now < ie_lockedUntil e then Suc n else n) order 0"

subsection \<open>Pruning and clean-up\<close>

lemma prune_keeps_recent:
  "cutoff \<le> t0 \<Longrightarrow> filter (\<lambda>s. t0 \<le> s) (pruneOlderThan stamps cutoff) = filter (\<lambda>s. t0 \<le> s) stamps"
  by (induction stamps) (auto simp: pruneOlderThan_def)

lemma prune_length: "length (pruneOlderThan stamps cutoff) \<le> length stamps"
  by (simp add: pruneOlderThan_def length_dropWhile_le)

abbreviation ip_locked :: "gotime \<Rightarrow> ip_entry \<Rightarrow> bool" where
  "ip_locked now e \<equiv> ie_lockedUntil e \<noteq> 0 \<and> now < ie_lockedUntil e"

abbreviation swept :: "gotime \<Rightarrow> duration \<Rightarrow> ip_entry \<Rightarrow> ip_entry option" where
  "swept now w e \<equiv>
     (if ip_locked now e then Some e
      else if pruneOlderThan (ie_failures e) (now - w) = [] \<and> ie_lockedUntil e = 0 then None
      else Some (e\<lparr>ie_failures := pruneOlderThan (ie_failures e) (now - w)\<rparr>))"

lemma ip_cleanup_step_frame [frame_simps]:
  "it_window (ip_cleanup_step now k t) = it_window t"
  "it_maxFails (ip_cleanup_step now k t) = it_maxFails t"
  "it_lockoutDur (ip_cleanup_step now k t) = it_lockoutDur t"
  by (simp_all add: ip_cleanup_step_def Let_def split: option.splits)

lemma ip_cleanup_step_entry:
  "it_entries (ip_cleanup_step now k t) x =
     (if x = k then Option.bind (it_entries t x) (swept now (it_window t)) else it_entries t x)"
  by (auto simp: ip_cleanup_step_def is_zero_time_def Let_def split: option.splits)

lemma swept_twice: "Option.bind (swept now w e) (swept now w) = swept now w e"
proof -
  have "pruneOlderThan (pruneOlderThan xs c) c = pruneOlderThan xs c" for xs c
    by (induction xs) (simp_all add: pruneOlderThan_def)
  then show ?thesis by simp
qed

lemma ip_cleanup_entry:
  "it_entries (ip_cleanupLocked order now t) x = it_entries t x \<or>
   it_entries (ip_cleanupLocked order now t) x = Option.bind (it_entries t x) (swept now (it_window t))"
proof -
  have "(it_entries (fold (ip_cleanup_step now) ks t) x = it_entries t x \<or>
      it_entries (fold (ip_cleanup_step now) ks t) x = Option.bind (it_entries t x) (swept now (it_window t)))" for ks
  proof (induction ks arbitrary: t)
    case (Cons k ks)
    have "it_entries (ip_cleanup_step now k t) x = it_entries t x \<or>
        it_entries (ip_cleanup_step now k t) x = Option.bind (it_entries t x) (swept now (it_window t))"
      by (simp add: ip_cleanup_step_entry)
    moreover have "Option.bind (Option.bind (it_entries t x) (swept now (it_window t))) (swept now (it_window t)) =
        Option.bind (it_entries t x) (swept now (it_window t))"
      using swept_twice by (cases "it_entries t x") simp_all
    ultimately show ?case
      using Cons [of "ip_cleanup_step now k t", unfolded ip_cleanup_step_frame] by auto
  qed simp
  then show ?thesis by (simp add: ip_cleanupLocked_def)
qed

lemma ip_cleanup_frame [simp]:
  "it_window (ip_cleanupLocked order now t) = it_window t"
  "it_maxFails (ip_cleanupLocked order now t) = it_maxFails t"
  "it_lockoutDur (ip_cleanupLocked order now t) = it_lockoutDur t"
proof -
  have "it_window (fold (ip_cleanup_step now) ks t) = it_window t \<and>
      it_maxFails (fold (ip_cleanup_step now) ks t) = it_maxFails t \<and>
      it_lockoutDur (fold (ip_cleanup_step now) ks t) = it_lockoutDur t" for ks
    by (induction ks arbitrary: t) (simp_all add: frame_simps)
  then show "it_window (ip_cleanupLocked order now t) = it_window t"
    "it_maxFails (ip_cleanupLocked order now t) = it_maxFails t"
    "it_lockoutDur (ip_cleanupLocked order now t) = it_lockoutDur t"
    by (simp_all add: ip_cleanupLocked_def)
qed

subsection \<open>The tracker as a limiter of guesses\<close>

definition ip_admit :: "string list \<Rightarrow> string \<Rightarrow> gotime \<Rightarrow> ip_tracker \<Rightarrow> bool \<times> ip_tracker" where
  "ip_admit order ip now t = (let (locked, t') = ip_CheckAndRecordFailure order ip now t in (\<not> locked, t'))"

definition ip_valid :: "nat \<Rightarrow> duration \<Rightarrow> duration \<Rightarrow> ip_tracker \<Rightarrow> bool" where
  "ip_valid n w d t \<longleftrightarrow>
     it_maxFails t = n \<and> it_window t = w \<and> it_lockoutDur t = d \<and> 0 < n \<and> 0 < d \<and>
     (\<forall>k e. it_entries t k = Some e \<longrightarrow> ie_lockedUntil e = 0 \<longrightarrow> length (ie_failures e) < n)"

definition ip_entry_used :: "nat \<Rightarrow> duration \<Rightarrow> gotime \<Rightarrow> ip_entry \<Rightarrow> nat" where
  "ip_entry_used n d t0 e =
     (if ie_lockedUntil e \<noteq> 0 then (if ie_lockedUntil e \<ge> t0 + d then n else 0)
      else length (filter (\<lambda>s. t0 \<le> s) (ie_failures e)))"

definition ip_used :: "nat \<Rightarrow> duration \<Rightarrow> gotime \<Rightarrow> ip_tracker \<Rightarrow> string \<Rightarrow> nat" where
  "ip_used n d t0 t ip = (case it_entries t ip of None \<Rightarrow> 0 | Some e \<Rightarrow> ip_entry_used n d t0 e)"

abbreviation ip_live_entry :: "ip_tracker \<Rightarrow> string \<Rightarrow> ip_entry" where
  "ip_live_entry t ip \<equiv>
     (case it_entries t ip of None \<Rightarrow> zero_ip_entry | Some e \<Rightarrow> if ie_lockedUntil e \<noteq> 0 then zero_ip_entry else e)"

abbreviation ip_counted :: "string \<Rightarrow> gotime \<Rightarrow> ip_tracker \<Rightarrow> ip_tracker" where
  "ip_counted ip now t \<equiv> t\<lparr>it_entries := (it_entries t)(ip \<mapsto> ip_count t now (ip_live_entry t ip))\<rparr>"

lemma ip_admit_cases:
  "ip_admit order ip now t =
     (if ip = [] then (True, t)
      else if \<exists>e. it_entries t ip = Some e \<and> ip_locked now e then (False, t)
      else (True, ip_cleanupLocked order now (ip_counted ip now t)))"
  by (cases "it_entries t ip")
    (auto simp: ip_admit_def ip_CheckAndRecordFailure_def Let_def split_def map_get_def is_zero_time_def
      zero_ip_entry_def)

lemma ip_live_entry_props:
  assumes "ip_valid n w d t"
  shows "ie_lockedUntil (ip_live_entry t ip) = 0" and "length (ie_failures (ip_live_entry t ip)) < n"
  using assms by (auto simp: ip_valid_def zero_ip_entry_def split: option.splits)

lemma ip_valid_sweep:
  assumes v: "ip_valid n w d t"
  shows "ip_valid n w d (ip_cleanupLocked order now t)"
proof -
  have "length (ie_failures e) < n"
    if "it_entries (ip_cleanupLocked order now t) k = Some e" "ie_lockedUntil e = 0" for k e
    using ip_cleanup_entry [of order now t k]
  proof
    assume "it_entries (ip_cleanupLocked order now t) k = it_entries t k"
    with that v show ?thesis by (simp add: ip_valid_def)
  next
    assume "it_entries (ip_cleanupLocked order now t) k = Option.bind (it_entries t k) (swept now (it_window t))"
    with that obtain e0 where "it_entries t k = Some e0" "ie_lockedUntil e0 = 0"
        "ie_failures e = pruneOlderThan (ie_failures e0) (now - it_window t)"
      by (auto simp: bind_eq_Some_conv split: if_splits)
    with v prune_length [of "ie_failures e0" "now - it_window t"] show ?thesis
      by (auto simp: ip_valid_def intro: le_less_trans)
  qed
  with v show ?thesis by (simp add: ip_valid_def)
qed

lemma ip_valid_count:
  assumes v: "ip_valid n w d t"
  shows "ip_valid n w d (ip_counted ip now t)"
proof -
  have "length (ie_failures (ip_count t now (ip_live_entry t ip))) < n"
    using v by (simp add: ip_count_def Let_def ip_valid_def)
  with v show ?thesis by (auto simp: ip_valid_def split: if_splits)
qed

lemma ip_admit_valid: "ip_valid n w d t \<Longrightarrow> ip_valid n w d (snd (ip_admit order ip now t))"
  by (simp add: ip_admit_cases ip_valid_sweep ip_valid_count)

lemma ip_used_sweep:
  assumes "ip_valid n w d t" and "now - w \<le> t0"
  shows "ip_used n d t0 (ip_cleanupLocked order now t) ip = ip_used n d t0 t ip"
  using ip_cleanup_entry [of order now t ip]
proof
  assume sw: "it_entries (ip_cleanupLocked order now t) ip = Option.bind (it_entries t ip) (swept now (it_window t))"
  show ?thesis
  proof (cases "it_entries t ip")
    case (Some e)
    have w: "it_window t = w" using assms(1) by (simp add: ip_valid_def)
    have kept: "filter (\<lambda>s. t0 \<le> s) (pruneOlderThan (ie_failures e) (now - w)) = filter (\<lambda>s. t0 \<le> s) (ie_failures e)"
      using assms(2) by (rule prune_keeps_recent)
    then have "pruneOlderThan (ie_failures e) (now - w) = [] \<Longrightarrow> filter (\<lambda>s. t0 \<le> s) (ie_failures e) = []"
      by (metis filter.simps(1))
    with sw Some w kept show ?thesis by (auto simp: ip_used_def ip_entry_used_def)
  qed (use sw in \<open>simp add: ip_used_def\<close>)
qed (simp add: ip_used_def)

text \<open>One more failure uses one more unit, or all of the budget when it locks the address.\<close>

lemma ip_count_used:
  assumes v: "ip_valid n w d t" and now: "0 \<le> t0" "t0 \<le> now" "now - w \<le> t0"
  shows "ip_entry_used n d t0 (ip_live_entry t ip) < ip_entry_used n d t0 (ip_count t now (ip_live_entry t ip))"
proof -
  let ?e = "ip_live_entry t ip"
  note e = ip_live_entry_props [OF v, of ip]
  have "length (filter (\<lambda>s. t0 \<le> s) (ie_failures ?e)) < n"
    using length_filter_le e(2) by (rule le_less_trans)
  moreover have "filter (\<lambda>s. t0 \<le> s) (pruneOlderThan (ie_failures ?e) (now - it_window t)) =
      filter (\<lambda>s. t0 \<le> s) (ie_failures ?e)"
    using v now(3) by (intro prune_keeps_recent) (simp add: ip_valid_def)
  moreover have "now + d \<noteq> 0" using v now by (auto simp: ip_valid_def)
  ultimately show ?thesis
    using e v now by (auto simp: ip_entry_used_def ip_count_def Let_def ip_valid_def)
qed

lemma ip_live_used:
  assumes "ip_valid n w d t" and "now < t0 + d" and "\<not> (\<exists>e. it_entries t ip = Some e \<and> ip_locked now e)"
  shows "ip_used n d t0 t ip = ip_entry_used n d t0 (ip_live_entry t ip)"
  using assms by (auto simp: ip_used_def ip_entry_used_def zero_ip_entry_def split: option.splits)

lemma ip_used_admit:
  assumes v: "ip_valid n w d t" and now: "0 \<le> t0" "t0 \<le> now" "now < t0 + min w d"
  shows "fst (ip_admit order ip now t) \<Longrightarrow> ip \<noteq> [] \<Longrightarrow>
      ip_used n d t0 t ip < ip_used n d t0 (snd (ip_admit order ip now t)) ip"
    and "ip_used n d t0 t x \<le> ip_used n d t0 (snd (ip_admit order ip now t)) x"
proof -
  let ?t = "ip_counted ip now t"
  have sweep: "ip_used n d t0 (ip_cleanupLocked order now ?t) y = ip_used n d t0 ?t y" for y
    using now by (intro ip_used_sweep [OF ip_valid_count [OF v]]) simp
  have own: "ip_used n d t0 t ip < ip_used n d t0 ?t ip"
    if "\<not> (\<exists>e. it_entries t ip = Some e \<and> ip_locked now e)"
  proof -
    have "ip_used n d t0 ?t ip = ip_entry_used n d t0 (ip_count t now (ip_live_entry t ip))"
      by (simp add: ip_used_def)
    with ip_live_used [OF v _ that, of t0] ip_count_used [OF v now(1,2), of ip] now(3) show ?thesis by simp
  qed
  show "ip_used n d t0 t ip < ip_used n d t0 (snd (ip_admit order ip now t)) ip"
    if "fst (ip_admit order ip now t)" "ip \<noteq> []"
    using that own sweep by (auto simp: ip_admit_cases split: if_splits)
  show "ip_used n d t0 t x \<le> ip_used n d t0 (snd (ip_admit order ip now t)) x"
  proof (cases "x = ip")
    case True
    with own sweep show ?thesis by (auto simp: ip_admit_cases intro: less_imp_le)
  next
    case False
    then have "ip_used n d t0 ?t x = ip_used n d t0 t x" by (simp add: ip_used_def)
    with sweep show ?thesis by (auto simp: ip_admit_cases)
  qed
qed

interpretation ip: guess_limit ip_admit "ip_valid n w d" "\<lambda>ip. ip \<noteq> []" "\<lambda>t0. 0 \<le> t0" "min w d" n "ip_used n d"
  for n w d
proof
  show "ip_valid n w d (snd (ip_admit order key now t))" if "ip_valid n w d t" for t order key now
    using that by (rule ip_admit_valid)
  show "ip_used n d t0 t k \<le> n" if v: "ip_valid n w d t" for t t0 k
  proof (cases "it_entries t k")
    case (Some e)
    have "length (filter (\<lambda>s. t0 \<le> s) (ie_failures e)) \<le> n" if "ie_lockedUntil e = 0"
    proof -
      have "length (ie_failures e) < n" using Some v that by (simp add: ip_valid_def)
      with length_filter_le [of "\<lambda>s. t0 \<le> s" "ie_failures e"] show ?thesis by linarith
    qed
    with Some show ?thesis by (simp add: ip_used_def ip_entry_used_def)
  qed (simp add: ip_used_def)
qed (use ip_used_admit in auto)

text \<open>The clean-up keeps every entry whose deadline was set, even one long past.\<close>

lemma ip_cleanup_keeps_locked:
  assumes "it_entries t ip = Some e" and "ie_lockedUntil e \<noteq> 0"
  shows "\<exists>e'. it_entries (ip_cleanupLocked order now t) ip = Some e' \<and> ie_lockedUntil e' = ie_lockedUntil e"
  using ip_cleanup_entry [of order now t ip] assms by auto

end
