(* ===== verification/Go_Strings.thy ===== *)
theory Go_Strings
  imports Panvex_Prelude
begin

section \<open>White space of the Go standard library\<close>

text \<open>
  Strings are byte strings. \<^verbatim>\<open>strings.TrimSpace\<close> removes the white-space characters of Unicode
  from both ends; \<^verbatim>\<open>space_seqs\<close> lists their UTF-8 encodings.
\<close>

definition space_seqs :: "string list" where
  "space_seqs = map (map char_of)
     ([[9], [10], [11], [12], [13], [32], [0xC2, 0x85], [0xC2, 0xA0], [0xE1, 0x9A, 0x80],
       [0xE2, 0x80, 0xA8], [0xE2, 0x80, 0xA9], [0xE2, 0x80, 0xAF], [0xE2, 0x81, 0x9F], [0xE3, 0x80, 0x80]]
      @ map (\<lambda>b. [0xE2, 0x80, 0x80 + b]) [0..<11] :: nat list list)"

lemma space_seqs_nonempty: "q \<in> set space_seqs \<Longrightarrow> q \<noteq> []"
  by (auto simp: space_seqs_def)

function strip_front :: "string list \<Rightarrow> string \<Rightarrow> string" where
  "strip_front seqs s =
     (case List.find (\<lambda>q. q \<noteq> [] \<and> s \<noteq> [] \<and> take (length q) s = q) seqs of
        None \<Rightarrow> s
      | Some q \<Rightarrow> strip_front seqs (drop (length q) s))"
  by pat_completeness auto
termination by (relation "measure (length \<circ> snd)") (auto simp: find_Some_iff)

declare strip_front.simps [simp del]

definition TrimSpace :: "string \<Rightarrow> string" where
  "TrimSpace s = rev (strip_front (map rev space_seqs) (rev (strip_front space_seqs s)))"

lemma strip_front_same:
  assumes "\<And>q. q \<in> set seqs \<Longrightarrow> q \<noteq> [] \<Longrightarrow> s \<noteq> [] \<Longrightarrow> hd q \<noteq> hd s"
  shows "strip_front seqs s = s"
proof -
  have "List.find (\<lambda>q. q \<noteq> [] \<and> s \<noteq> [] \<and> take (length q) s = q) seqs = None"
  proof (rule ccontr)
    assume "List.find (\<lambda>q. q \<noteq> [] \<and> s \<noteq> [] \<and> take (length q) s = q) seqs \<noteq> None"
    then obtain q where "q \<in> set seqs" "q \<noteq> []" "s \<noteq> []" "take (length q) s = q"
      by (auto simp: find_Some_iff dest: nth_mem)
    then show False using assms [of q] by (metis hd_take length_greater_0_conv)
  qed
  then show ?thesis by (subst strip_front.simps) simp
qed

text \<open>A text whose first and last byte are letters or digits is left alone.\<close>

definition solid :: "char \<Rightarrow> bool" where
  "solid c \<longleftrightarrow> (let n = of_char c :: nat in 33 \<le> n \<and> n \<le> 126)"

lemma solid_not_space: "q \<in> set space_seqs \<Longrightarrow> \<not> solid (hd q) \<and> \<not> solid (last q)"
  by (auto simp: space_seqs_def solid_def)

lemma TrimSpace_solid:
  assumes "s = [] \<or> solid (hd s) \<and> solid (last s)"
  shows "TrimSpace s = s"
proof -
  have "strip_front space_seqs s = s"
    using assms solid_not_space by (intro strip_front_same) metis
  moreover have "strip_front (map rev space_seqs) (rev s) = rev s"
  proof (rule strip_front_same)
    fix q assume "q \<in> set (map rev space_seqs)" "q \<noteq> []" "rev s \<noteq> []"
    then obtain p where "p \<in> set space_seqs" "q = rev p" by auto
    then show "hd q \<noteq> hd (rev s)" using assms solid_not_space [of p] \<open>rev s \<noteq> []\<close> by (auto simp: hd_rev)
  qed
  ultimately show ?thesis by (simp add: TrimSpace_def)
qed

subsection \<open>Case\<close>

text \<open>\<^verbatim>\<open>strings.ToLower\<close> on a letter of ASCII.\<close>

definition ascii_lower :: "char \<Rightarrow> char" where
  "ascii_lower c =
     (let n = of_char c :: nat in if 65 \<le> n \<and> n \<le> 90 then char_of (n + 32) else c)"

end
