(* ===== verification/Rate_Limit.thy ===== *)
theory Rate_Limit
  imports Guess_Limit Job_Store Go_Strings
begin

section \<open>The fixed-window rate limiter (internal/controlplane/sessions/ratelimit.go)\<close>

text \<open>
  One bucket per key and window, with a sweep of stale buckets every 256 calls. A missing
  limiter (the nil receiver) admits everything. Instants are read as nanoseconds since the
  Unix epoch; the code is used on instants where that fits 64 bits.
\<close>

record rate_bucket =
  rb_windowStart :: int
  rb_count :: int
  rb_lastSeen :: int

record rate_limiter =
  rl_limit :: int
  rl_window :: duration
  rl_buckets :: "string \<rightharpoonup> rate_bucket"
  rl_sinceSweep :: nat

definition StaleRateLimitWindowMultiplier :: int where "StaleRateLimitWindowMultiplier = 2"

definition sweepEvery :: nat where "sweepEvery = 256"

definition NewRateLimiter :: "int \<Rightarrow> duration \<Rightarrow> rate_limiter option" where
  "NewRateLimiter limit window =
     (if limit \<le> 0 then None
      else Some \<lparr>rl_limit = limit, rl_window = (if window \<le> 0 then minute_ns else window),
                 rl_buckets = Map.empty, rl_sinceSweep = 0\<rparr>)"

text \<open>\<^verbatim>\<open>strings.TrimSpace(key) == ""\<close>: the key consists of encodings of white-space characters only.\<close>

function blank :: "string \<Rightarrow> bool" where
  "blank s =
     (if s = [] then True
      else case List.find (\<lambda>q. take (length q) s = q) space_seqs of
        None \<Rightarrow> False
      | Some q \<Rightarrow> blank (drop (length q) s))"
  by pat_completeness auto
termination
proof (relation "measure length")
  fix s q
  assume "s \<noteq> []" and "List.find (\<lambda>q. take (length q) s = q) space_seqs = Some q"
  then show "(drop (length q) s, s) \<in> measure length"
    using space_seqs_nonempty by (auto simp: find_Some_iff)
qed simp

declare blank.simps [simp del]

definition bucket_key :: "string \<Rightarrow> string" where
  "bucket_key key = (if blank key then ''unknown'' else key)"

definition UnixNano :: "gotime \<Rightarrow> int" where
  "UnixNano t = t - unix_epoch_seconds * second_ns"

definition window_size :: "rate_limiter \<Rightarrow> int" where
  "window_size l = (if rl_window l \<le> 0 then minute_ns else rl_window l)"

definition window_start :: "rate_limiter \<Rightarrow> int \<Rightarrow> int" where
  "window_start l nowNanos = go_div nowNanos (window_size l) * window_size l"

definition stale_step :: "int \<Rightarrow> string \<Rightarrow> rate_limiter \<Rightarrow> rate_limiter" where
  "stale_step cutoff key l =
     (case rl_buckets l key of
        None \<Rightarrow> l
      | Some b \<Rightarrow> if rb_lastSeen b < cutoff then l\<lparr>rl_buckets := (rl_buckets l)(key := None)\<rparr> else l)"

definition cleanupStaleBucketsLocked :: "string list \<Rightarrow> int \<Rightarrow> rate_limiter \<Rightarrow> rate_limiter" where
  "cleanupStaleBucketsLocked order nowNanos l =
     (if length order < 128 then l
      else fold (stale_step (nowNanos - StaleRateLimitWindowMultiplier * rl_window l)) order l)"

definition maybeSweepLocked :: "string list \<Rightarrow> int \<Rightarrow> rate_limiter \<Rightarrow> rate_limiter" where
  "maybeSweepLocked order nowNanos l =
     (let l1 = l\<lparr>rl_sinceSweep := Suc (rl_sinceSweep l)\<rparr>
      in if rl_sinceSweep l1 < sweepEvery then l1
         else cleanupStaleBucketsLocked order nowNanos (l1\<lparr>rl_sinceSweep := 0\<rparr>))"

definition allow_bucket :: "string \<Rightarrow> int \<Rightarrow> rate_limiter \<Rightarrow> bool \<times> rate_bucket" where
  "allow_bucket key nowNanos l =
     (let windowStart = window_start l nowNanos;
          fresh = \<lparr>rb_windowStart = windowStart, rb_count = 1, rb_lastSeen = nowNanos\<rparr>
      in case rl_buckets l key of
           None \<Rightarrow> (True, fresh)
         | Some b \<Rightarrow>
             if rb_windowStart b \<noteq> windowStart then (True, fresh)
             else if rb_count b \<ge> rl_limit l then (False, b\<lparr>rb_lastSeen := nowNanos\<rparr>)
             else (True, b\<lparr>rb_count := rb_count b + 1, rb_lastSeen := nowNanos\<rparr>))"

definition allow_some :: "string list \<Rightarrow> string \<Rightarrow> gotime \<Rightarrow> rate_limiter \<Rightarrow> bool \<times> rate_limiter" where
  "allow_some order rawKey now l =
     (let nowNanos = UnixNano now; key = bucket_key rawKey;
          (ok, b) = allow_bucket key nowNanos l
      in (ok, maybeSweepLocked order nowNanos (l\<lparr>rl_buckets := (rl_buckets l)(key \<mapsto> b)\<rparr>)))"

definition Allow :: "string list \<Rightarrow> string \<Rightarrow> gotime \<Rightarrow> rate_limiter option \<Rightarrow> bool \<times> rate_limiter option" where
  "Allow order key now l =
     (case l of
        None \<Rightarrow> (True, None)
      | Some l' \<Rightarrow> let (ok, l'') = allow_some order key now l' in (ok, Some l''))"

subsection \<open>The sweep\<close>

lemma stale_step_frame [frame_simps]:
  "rl_limit (stale_step c k l) = rl_limit l" "rl_window (stale_step c k l) = rl_window l"
  by (simp_all add: stale_step_def split: option.splits)

lemma stale_step_bucket:
  "rl_buckets (stale_step c k l) x =
     (case rl_buckets l x of None \<Rightarrow> None | Some b \<Rightarrow> if x = k \<and> rb_lastSeen b < c then None else Some b)"
  by (auto simp: stale_step_def split: option.splits)

lemma stale_fold:
  "rl_limit (fold (stale_step c) ks l) = rl_limit l \<and> rl_window (fold (stale_step c) ks l) = rl_window l \<and>
   rl_buckets (fold (stale_step c) ks l) x =
     (case rl_buckets l x of None \<Rightarrow> None | Some b \<Rightarrow> if x \<in> set ks \<and> rb_lastSeen b < c then None else Some b)"
proof (induction ks arbitrary: l)
  case (Cons k ks)
  show ?case
    using Cons [of "stale_step c k l"] by (auto simp: frame_simps stale_step_bucket split: option.splits if_splits)
qed (simp split: option.splits)

lemma sweep_frame [simp]:
  "rl_limit (maybeSweepLocked order n l) = rl_limit l" "rl_window (maybeSweepLocked order n l) = rl_window l"
  using stale_fold by (simp_all add: maybeSweepLocked_def cleanupStaleBucketsLocked_def Let_def)

text \<open>A sweep removes only buckets that were last used two windows ago or earlier.\<close>

lemma sweep_bucket:
  "rl_buckets (maybeSweepLocked order n l) x = rl_buckets l x \<or>
   (rl_buckets (maybeSweepLocked order n l) x = None \<and>
     (\<exists>b. rl_buckets l x = Some b \<and> rb_lastSeen b < n - 2 * rl_window l))"
  using stale_fold [of "n - 2 * rl_window l" order "l\<lparr>rl_sinceSweep := 0\<rparr>" x]
  by (auto simp: maybeSweepLocked_def cleanupStaleBucketsLocked_def Let_def StaleRateLimitWindowMultiplier_def
      split: option.splits if_splits)

subsection \<open>The limiter as a limiter of requests\<close>

definition rate_valid :: "int \<Rightarrow> duration \<Rightarrow> rate_limiter \<Rightarrow> bool" where
  "rate_valid n w l \<longleftrightarrow>
     rl_limit l = n \<and> rl_window l = w \<and> 0 < n \<and> 0 < w \<and>
     (\<forall>k b. rl_buckets l k = Some b \<longrightarrow>
        1 \<le> rb_count b \<and> rb_count b \<le> n \<and> (0 < rb_windowStart b \<longrightarrow> rb_windowStart b \<le> rb_lastSeen b))"

definition rate_used :: "gotime \<Rightarrow> rate_limiter \<Rightarrow> string \<Rightarrow> nat" where
  "rate_used t0 l key =
     (case rl_buckets l (bucket_key key) of
        None \<Rightarrow> 0 | Some b \<Rightarrow> if rb_windowStart b = UnixNano t0 then nat (rb_count b) else 0)"

definition window_boundary :: "duration \<Rightarrow> gotime \<Rightarrow> bool" where
  "window_boundary w t0 \<longleftrightarrow> 0 < UnixNano t0 \<and> w dvd UnixNano t0"

lemma window_start_le:
  assumes "0 < rl_window l" and "0 < window_start l n"
  shows "window_start l n \<le> n"
proof -
  let ?w = "rl_window l"
  have ws: "window_start l n = go_div n ?w * ?w" using assms(1) by (simp add: window_start_def window_size_def)
  have "0 \<le> n"
  proof (rule ccontr)
    assume "\<not> 0 \<le> n"
    then have "0 \<le> (- n) div ?w" using assms(1) by (simp add: pos_imp_zdiv_nonneg_iff)
    with \<open>\<not> 0 \<le> n\<close> assms ws show False
      by (simp add: go_div_def mult_less_0_iff zero_less_mult_iff)
  qed
  then have "window_start l n = n - n mod ?w" by (simp add: ws go_div_def minus_mod_eq_div_mult)
  with assms(1) show ?thesis by simp
qed

lemma rate_valid_bucket:
  "rate_valid n w l \<Longrightarrow> rl_buckets l k = Some b \<Longrightarrow> 1 \<le> rb_count b \<and> rb_count b \<le> n"
  by (simp add: rate_valid_def)

lemma window_start_in:
  assumes "rate_valid n w l" and "window_boundary w t0" and "t0 \<le> now" and "now < t0 + w"
  shows "window_start l (UnixNano now) = UnixNano t0"
proof -
  obtain q where q: "UnixNano t0 = w * q" using assms(2) by (auto simp: window_boundary_def)
  obtain r where r: "UnixNano now = w * q + r" "0 \<le> r" "r < w"
    using assms(3,4) q by (intro that [of "UnixNano now - UnixNano t0"]) (auto simp: UnixNano_def)
  have "0 < w" "rl_window l = w" using assms(1) by (simp_all add: rate_valid_def)
  moreover have "0 < UnixNano now" using assms(2) r q by (simp add: window_boundary_def)
  ultimately show ?thesis using q r by (simp add: window_start_def go_div_def window_size_def mult.commute)
qed

lemma allow_bucket_valid:
  assumes v: "rate_valid n w l" and b: "allow_bucket key now l = (ok, b)"
  shows "1 \<le> rb_count b \<and> rb_count b \<le> n \<and> (0 < rb_windowStart b \<longrightarrow> rb_windowStart b \<le> rb_lastSeen b)"
proof -
  have "0 < window_start l now \<longrightarrow> window_start l now \<le> now"
    using v window_start_le by (auto simp: rate_valid_def)
  then show ?thesis
    using v b by (fastforce simp: allow_bucket_def rate_valid_def Let_def split: option.splits if_splits)
qed

lemma rate_valid_admit:
  assumes v: "rate_valid n w l"
  shows "rate_valid n w (snd (allow_some order key now l))"
proof -
  obtain ok b where b: "allow_bucket (bucket_key key) (UnixNano now) l = (ok, b)" by fastforce
  let ?l = "l\<lparr>rl_buckets := (rl_buckets l)(bucket_key key \<mapsto> b)\<rparr>"
  have "rate_valid n w ?l" using v allow_bucket_valid [OF v b] by (auto simp: rate_valid_def split: if_splits)
  then have "rate_valid n w (maybeSweepLocked order (UnixNano now) ?l)"
    using sweep_bucket [of order "UnixNano now" ?l] by (auto simp: rate_valid_def) (metis option.distinct(1))+
  then show ?thesis by (simp add: allow_some_def b Let_def)
qed

lemma rate_used_sweep:
  assumes v: "rate_valid n w l" and t0: "window_boundary w t0" "t0 \<le> now" "now < t0 + w"
  shows "rate_used t0 (maybeSweepLocked order (UnixNano now) l) key = rate_used t0 l key"
proof -
  have "rb_windowStart b \<noteq> UnixNano t0"
    if "rl_buckets l k = Some b" "rb_lastSeen b < UnixNano now - 2 * rl_window l" for k b
    using that v t0 by (fastforce simp: rate_valid_def window_boundary_def UnixNano_def)
  then show ?thesis
    using sweep_bucket [of order "UnixNano now" l "bucket_key key"] by (auto simp: rate_used_def)
qed

lemma rate_used_admit:
  assumes v: "rate_valid n w l" and t0: "window_boundary w t0" "t0 \<le> now" "now < t0 + w"
  shows "rate_used t0 l x \<le> rate_used t0 (snd (allow_some order key now l)) x"
    and "fst (allow_some order key now l) \<Longrightarrow>
      rate_used t0 l key < rate_used t0 (snd (allow_some order key now l)) key"
proof -
  obtain ok b where b: "allow_bucket (bucket_key key) (UnixNano now) l = (ok, b)" by fastforce
  let ?l = "l\<lparr>rl_buckets := (rl_buckets l)(bucket_key key \<mapsto> b)\<rparr>"
  have valid: "rate_valid n w ?l" using v allow_bucket_valid [OF v b] by (auto simp: rate_valid_def split: if_splits)
  have step: "fst (allow_some order key now l) = ok"
      "rate_used t0 (snd (allow_some order key now l)) y = rate_used t0 ?l y" for y
    using rate_used_sweep [OF valid t0, of order y] by (simp_all add: allow_some_def b Let_def)
  have "rb_windowStart b = UnixNano t0 \<and> int (rate_used t0 l key) + (if ok then 1 else 0) \<le> rb_count b"
    using b window_start_in [OF v t0] rate_valid_bucket [OF v, of "bucket_key key"]
    by (auto simp: allow_bucket_def rate_used_def Let_def split: option.splits if_splits)
  then have own: "rate_used t0 l key + (if ok then 1 else 0) \<le> rate_used t0 ?l key"
    by (auto simp: rate_used_def [of t0 ?l])
  show "rate_used t0 l x \<le> rate_used t0 (snd (allow_some order key now l)) x"
  proof (cases "bucket_key x = bucket_key key")
    case True
    then have "rate_used t0 l x = rate_used t0 l key" "rate_used t0 ?l x = rate_used t0 ?l key"
      by (simp_all add: rate_used_def)
    with own step(2) show ?thesis by simp
  next
    case False
    then show ?thesis unfolding step(2) by (simp add: rate_used_def)
  qed
  show "rate_used t0 l key < rate_used t0 (snd (allow_some order key now l)) key"
    if "fst (allow_some order key now l)"
    using own that step by simp
qed

interpretation rate: guess_limit allow_some "rate_valid n w" "\<lambda>_. True" "window_boundary w" w "nat n" rate_used
  for n w
proof
  show "rate_valid n w (snd (allow_some order key now l))" if "rate_valid n w l" for l order key now
    using that by (rule rate_valid_admit)
  show "rate_used t0 l k \<le> nat n" if "rate_valid n w l" for l t0 k
    using rate_valid_bucket [OF that, of "bucket_key k"]
    by (cases "rl_buckets l (bucket_key k)") (auto simp: rate_used_def)
qed (use rate_used_admit in auto)

end
