(* ===== verification/Presence.thy ===== *)
theory Presence
  imports Panvex_Prelude
begin

section \<open>Agent presence (internal/controlplane/presence/tracker.go)\<close>

text \<open>
  Liveness of the agents from connect and heartbeat instants. The tracker caches the state it
  last derived so that a change is logged once; evaluation has a fast path under the read
  lock that only succeeds when nothing changed. Operations that log return the transitions
  they emit. The empty cached state, meaning never evaluated, is \<open>None\<close>.
\<close>

subsection \<open>Operations\<close>

datatype presence_state = StateOnline | StateDegraded | StateOffline

record agent_presence =
  ap_connectedAt :: gotime
  ap_lastSeenAt :: gotime
  ap_lastState :: "presence_state option"

record presence_tracker =
  pt_degradedAfter :: duration
  pt_offlineAfter :: duration
  pt_agents :: "string \<rightharpoonup> agent_presence"

record presence_transition =
  ptr_agentID :: string
  ptr_from :: presence_state
  ptr_to :: presence_state

definition NewTracker :: "duration \<Rightarrow> duration \<Rightarrow> presence_tracker" where
  "NewTracker degradedAfter offlineAfter =
     \<lparr>pt_degradedAfter = degradedAfter, pt_offlineAfter = offlineAfter, pt_agents = Map.empty\<rparr>"

definition zero_presence :: agent_presence where
  "zero_presence = \<lparr>ap_connectedAt = 0, ap_lastSeenAt = 0, ap_lastState = None\<rparr>"

definition MarkConnected :: "string \<Rightarrow> gotime \<Rightarrow> presence_tracker \<Rightarrow> presence_tracker" where
  "MarkConnected agentID connectedAt t =
     t\<lparr>pt_agents := (pt_agents t)(agentID \<mapsto>
        \<lparr>ap_connectedAt = connectedAt, ap_lastSeenAt = connectedAt, ap_lastState = None\<rparr>)\<rparr>"

definition Heartbeat :: "string \<Rightarrow> gotime \<Rightarrow> presence_tracker \<Rightarrow> presence_tracker" where
  "Heartbeat agentID observedAt t =
     (let p = map_get zero_presence (pt_agents t) agentID;
          p1 = (if is_zero_time (ap_connectedAt p) then p\<lparr>ap_connectedAt := observedAt\<rparr> else p)
      in t\<lparr>pt_agents := (pt_agents t)(agentID \<mapsto> p1\<lparr>ap_lastSeenAt := observedAt\<rparr>)\<rparr>)"

definition Remove :: "string \<Rightarrow> presence_tracker \<Rightarrow> presence_tracker" where
  "Remove agentID t = t\<lparr>pt_agents := (pt_agents t)(agentID := None)\<rparr>"

definition ConnectedAt :: "string \<Rightarrow> presence_tracker \<Rightarrow> gotime option" where
  "ConnectedAt agentID t = map_option ap_connectedAt (pt_agents t agentID)"

definition deriveState :: "presence_tracker \<Rightarrow> agent_presence \<Rightarrow> gotime \<Rightarrow> presence_state" where
  "deriveState t p now =
     (let idle = time_sub now (ap_lastSeenAt p)
      in if idle \<ge> pt_offlineAfter t then StateOffline
         else if idle \<ge> pt_degradedAfter t then StateDegraded
         else StateOnline)"

definition evaluateLocked ::
    "string \<Rightarrow> gotime \<Rightarrow> presence_tracker
     \<Rightarrow> presence_state \<times> presence_transition option \<times> presence_tracker" where
  "evaluateLocked agentID now t =
     (case pt_agents t agentID of
        None \<Rightarrow> (StateOffline, None, t)
      | Some p \<Rightarrow>
          let next = deriveState t p now; prev = ap_lastState p;
              transition = (case prev of
                  None \<Rightarrow> None
                | Some st \<Rightarrow> if st \<noteq> next then Some \<lparr>ptr_agentID = agentID, ptr_from = st, ptr_to = next\<rparr> else None);
              t' = (if prev \<noteq> Some next
                    then t\<lparr>pt_agents := (pt_agents t)(agentID \<mapsto> p\<lparr>ap_lastState := Some next\<rparr>)\<rparr> else t)
          in (next, transition, t'))"

definition log_of :: "presence_transition option \<Rightarrow> presence_transition list" where
  "log_of tr = (case tr of None \<Rightarrow> [] | Some x \<Rightarrow> [x])"

definition Evaluate ::
    "string \<Rightarrow> gotime \<Rightarrow> presence_tracker \<Rightarrow> presence_state \<times> presence_transition list \<times> presence_tracker" where
  "Evaluate agentID now t =
     (case pt_agents t agentID of
        None \<Rightarrow> (StateOffline, [], t)
      | Some p \<Rightarrow>
          let next = deriveState t p now
          in if ap_lastState p = Some next then (next, [], t)
             else let (st, transition, t') = evaluateLocked agentID now t in (st, log_of transition, t'))"

definition evaluate_all_step ::
    "gotime \<Rightarrow> string \<Rightarrow> nat \<times> presence_transition list \<times> presence_tracker
     \<Rightarrow> nat \<times> presence_transition list \<times> presence_tracker" where
  "evaluate_all_step now agentID acc =
     (let (connected, transitions, t) = acc; (st, transition, t') = evaluateLocked agentID now t
      in (if st \<noteq> StateOffline then Suc connected else connected, transitions @ log_of transition, t'))"

definition EvaluateAll ::
    "string list \<Rightarrow> gotime \<Rightarrow> presence_tracker \<Rightarrow> nat \<times> presence_transition list \<times> presence_tracker" where
  "EvaluateAll order now t = fold (evaluate_all_step now) order (0, [], t)"

subsection \<open>Evaluation\<close>

lemma deriveState_cong:
  "pt_degradedAfter t' = pt_degradedAfter t \<Longrightarrow> pt_offlineAfter t' = pt_offlineAfter t \<Longrightarrow>
     ap_lastSeenAt p' = ap_lastSeenAt p \<Longrightarrow> deriveState t' p' now = deriveState t p now"
  by (simp add: deriveState_def Let_def)

lemma evaluateLocked_frame:
  "pt_degradedAfter (snd (snd (evaluateLocked a now t))) = pt_degradedAfter t"
  "pt_offlineAfter (snd (snd (evaluateLocked a now t))) = pt_offlineAfter t"
  by (simp_all add: evaluateLocked_def Let_def split: option.splits)

text \<open>What an evaluation leaves in the map: the cached state is the derived one.\<close>

lemma evaluateLocked_agents:
  "pt_agents (snd (snd (evaluateLocked a now t))) =
     (case pt_agents t a of
        None \<Rightarrow> pt_agents t
      | Some p \<Rightarrow> (pt_agents t)(a \<mapsto> p\<lparr>ap_lastState := Some (deriveState t p now)\<rparr>))"
  by (auto simp: evaluateLocked_def Let_def fun_eq_iff split: option.splits)

lemma evaluateLocked_state:
  "fst (evaluateLocked a now t) =
     (case pt_agents t a of None \<Rightarrow> StateOffline | Some p \<Rightarrow> deriveState t p now)"
  by (simp add: evaluateLocked_def Let_def split: option.splits)

lemma Evaluate_fast_path:
  "Evaluate a now t =
     (let (st, transition, t') = evaluateLocked a now t in (st, log_of transition, t'))"
  by (auto simp: Evaluate_def evaluateLocked_def Let_def log_of_def split: option.splits)

lemma Evaluate_quiet:
  assumes "Evaluate a now t = (st, log, t')"
  shows "Evaluate a now t' = (st, [], t')"
proof (cases "pt_agents t a")
  case None
  with assms show ?thesis by (auto simp: Evaluate_def)
next
  case (Some p)
  have t': "t' = snd (snd (evaluateLocked a now t))" and st: "st = fst (evaluateLocked a now t)"
    using assms by (simp_all add: Evaluate_fast_path split_def Let_def)
  have "pt_agents t' a = Some (p\<lparr>ap_lastState := Some (deriveState t p now)\<rparr>)"
    by (simp add: t' evaluateLocked_agents Some)
  moreover have "deriveState t' (p\<lparr>ap_lastState := x\<rparr>) now = deriveState t p now" for x
    by (rule deriveState_cong) (simp_all add: t' evaluateLocked_frame)
  ultimately show ?thesis by (simp add: Evaluate_def st evaluateLocked_state Some)
qed

text \<open>Without a heartbeat the state can only get worse.\<close>

fun badness :: "presence_state \<Rightarrow> nat" where
  "badness StateOnline = 0"
| "badness StateDegraded = 1"
| "badness StateOffline = 2"

lemma deriveState_degrades:
  assumes "now \<le> now'"
  shows "badness (deriveState t p now) \<le> badness (deriveState t p now')"
  using time_sub_mono [OF assms, of "ap_lastSeenAt p"] by (auto simp: deriveState_def Let_def)

subsection \<open>The sweep over the fleet\<close>

abbreviation evaluated :: "presence_tracker \<Rightarrow> gotime \<Rightarrow> agent_presence \<Rightarrow> agent_presence" where
  "evaluated t now p \<equiv> p\<lparr>ap_lastState := Some (deriveState t p now)\<rparr>"

definition changed :: "presence_tracker \<Rightarrow> gotime \<Rightarrow> string \<Rightarrow> presence_transition list" where
  "changed t now a =
     (case pt_agents t a of
        None \<Rightarrow> []
      | Some p \<Rightarrow> (case ap_lastState p of
            None \<Rightarrow> []
          | Some st \<Rightarrow> if st = deriveState t p now then []
              else [\<lparr>ptr_agentID = a, ptr_from = st, ptr_to = deriveState t p now\<rparr>]))"

lemma log_of_evaluate: "log_of (fst (snd (evaluateLocked a now t))) = changed t now a"
  by (auto simp: evaluateLocked_def changed_def log_of_def Let_def split: option.splits)

definition reachable_agents :: "presence_tracker \<Rightarrow> gotime \<Rightarrow> string list \<Rightarrow> string list" where
  "reachable_agents t now order =
     filter (\<lambda>a. case pt_agents t a of None \<Rightarrow> False | Some p \<Rightarrow> time_sub now (ap_lastSeenAt p) < pt_offlineAfter t) order"

lemma evaluate_all_fold:
  assumes "distinct order"
  shows "fold (evaluate_all_step now) order (n, trs, t) =
    (n + length (reachable_agents t now order), trs @ concat (map (changed t now) order),
     t\<lparr>pt_agents := (\<lambda>a. if a \<in> set order then map_option (evaluated t now) (pt_agents t a) else pt_agents t a)\<rparr>)"
  using assms
proof (induction order arbitrary: n trs t)
  case Nil
  then show ?case by (simp add: reachable_agents_def)
next
  case (Cons a as)
  let ?t = "snd (snd (evaluateLocked a now t))"
  have st: "fst (evaluateLocked a now t) \<noteq> StateOffline \<longleftrightarrow> reachable_agents t now [a] = [a]"
    by (auto simp: evaluateLocked_state reachable_agents_def deriveState_def Let_def split: option.splits)
  have agents: "pt_agents ?t x = (if x = a then map_option (evaluated t now) (pt_agents t x) else pt_agents t x)" for x
    by (auto simp: evaluateLocked_agents split: option.splits)
  have derive: "deriveState ?t p now = deriveState t p now" for p
    by (rule deriveState_cong) (simp_all add: evaluateLocked_frame)
  have same: "pt_agents ?t x = pt_agents t x" if "x \<in> set as" for x
    using that Cons.prems by (auto simp: agents)
  have rest: "reachable_agents ?t now as = reachable_agents t now as" "map (changed ?t now) as = map (changed t now) as"
    unfolding reachable_agents_def changed_def evaluateLocked_frame derive
    by (auto simp: same intro!: filter_cong)
  have t: "?t\<lparr>pt_agents := f\<rparr> = t\<lparr>pt_agents := f\<rparr>" for f
    using evaluateLocked_frame [of a now t] by (cases t; cases ?t) simp
  have step: "evaluate_all_step now a (n, trs, t) =
      (n + length (reachable_agents t now [a]), trs @ changed t now a, ?t)"
    using st by (auto simp: evaluate_all_step_def split_def Let_def log_of_evaluate reachable_agents_def split: if_splits)
  have len: "length (reachable_agents t now (a # as)) = length (reachable_agents t now [a]) + length (reachable_agents t now as)"
    by (simp add: reachable_agents_def)
  have map: "(\<lambda>x. if x \<in> set as then map_option (evaluated ?t now) (pt_agents ?t x) else pt_agents ?t x) =
      (\<lambda>x. if x \<in> set (a # as) then map_option (evaluated t now) (pt_agents t x) else pt_agents t x)"
    unfolding derive using Cons.prems by (auto simp: agents same fun_eq_iff)
  have "distinct as" using Cons.prems by simp
  then have "fold (evaluate_all_step now) as (n + length (reachable_agents t now [a]), trs @ changed t now a, ?t) =
      (n + length (reachable_agents t now (a # as)), trs @ concat (map (changed t now) (a # as)),
       ?t\<lparr>pt_agents := (\<lambda>x. if x \<in> set as then map_option (evaluated ?t now) (pt_agents ?t x) else pt_agents ?t x)\<rparr>)"
    by (subst Cons.IH) (simp_all add: rest len)
  then show ?case unfolding fold_simps step map t .
qed

lemma EvaluateAll_spec:
  assumes "range_order (pt_agents t) order"
  shows "EvaluateAll order now t =
    (length (reachable_agents t now order), concat (map (changed t now) order),
     t\<lparr>pt_agents := map_option (evaluated t now) \<circ> pt_agents t\<rparr>)"
proof -
  have "(\<lambda>a. if a \<in> set order then map_option (evaluated t now) (pt_agents t a) else pt_agents t a) =
      map_option (evaluated t now) \<circ> pt_agents t"
    using range_order_set [OF assms] by (auto simp: fun_eq_iff)
  then show ?thesis
    using evaluate_all_fold [OF range_order_distinct [OF assms]] by (simp add: EvaluateAll_def)
qed

subsection \<open>Properties\<close>

text \<open>
  The sweep of the metrics poller counts exactly the tracked agents whose last heartbeat
  is more recent than the offline threshold, refreshes the cached state of every agent,
  reports one transition per agent whose state changed since it was last evaluated, and a
  second sweep at the same instant reports none.
\<close>

theorem evaluate_all_counts_connected:
  assumes "range_order (pt_agents t) order" and "EvaluateAll order now t = (connected, transitions, t')"
  shows "connected = card {a. \<exists>p. pt_agents t a = Some p \<and> time_sub now (ap_lastSeenAt p) < pt_offlineAfter t} \<and>
    (\<forall>a p. pt_agents t a = Some p \<longrightarrow>
       pt_agents t' a = Some (p\<lparr>ap_lastState := Some (deriveState t p now)\<rparr>)) \<and>
    transitions = concat (map (changed t now) order) \<and>
    fst (snd (EvaluateAll order now t')) = []"
proof -
  note spec = EvaluateAll_spec [OF assms(1), of now]
  have t': "t' = t\<lparr>pt_agents := map_option (evaluated t now) \<circ> pt_agents t\<rparr>" using assms(2) spec by simp
  have "distinct (reachable_agents t now order)"
    using range_order_distinct [OF assms(1)] by (simp add: reachable_agents_def)
  moreover have "set (reachable_agents t now order) =
      {a. \<exists>p. pt_agents t a = Some p \<and> time_sub now (ap_lastSeenAt p) < pt_offlineAfter t}"
    using range_order_set [OF assms(1)] by (auto simp: reachable_agents_def split: option.splits)
  ultimately have count: "connected = card {a. \<exists>p. pt_agents t a = Some p \<and> time_sub now (ap_lastSeenAt p) < pt_offlineAfter t}"
    using distinct_card [of "reachable_agents t now order"] assms(2) spec by simp
  have order': "range_order (pt_agents t') order"
    using assms(1) by (rule range_order_dom_cong) (auto simp: t')
  have "deriveState t' (evaluated t now p) now = deriveState t p now" for p
    by (rule deriveState_cong) (simp_all add: t')
  then have "changed t' now a = []" for a
    unfolding changed_def by (cases "pt_agents t a") (simp_all add: t')
  then have "fst (snd (EvaluateAll order now t')) = []"
    unfolding EvaluateAll_spec [OF order'] by simp
  with count assms(2) spec t' show ?thesis by simp
qed

definition demo_fleet :: presence_tracker where
  "demo_fleet = Heartbeat ''b'' 95 (MarkConnected ''b'' 10 (MarkConnected ''a'' 10 (NewTracker 20 60)))"

theorem evaluate_all_counts_connected_witness:
  "fst (EvaluateAll [''a'', ''b''] 100 demo_fleet) = 1"
proof -
  have agents: "pt_agents demo_fleet =
      [''a'' \<mapsto> \<lparr>ap_connectedAt = 10, ap_lastSeenAt = 10, ap_lastState = None\<rparr>,
       ''b'' \<mapsto> \<lparr>ap_connectedAt = 10, ap_lastSeenAt = 95, ap_lastState = None\<rparr>]" "pt_offlineAfter demo_fleet = 60"
    by (simp_all add: demo_fleet_def Heartbeat_def MarkConnected_def NewTracker_def is_zero_time_def Let_def map_get_def)
  have "range_order (pt_agents demo_fleet) [''a'', ''b'']"
    by (rule range_orderI) (auto simp: agents)
  then have "fst (EvaluateAll [''a'', ''b''] 100 demo_fleet) =
      card {a. \<exists>p. pt_agents demo_fleet a = Some p \<and> time_sub 100 (ap_lastSeenAt p) < pt_offlineAfter demo_fleet}"
    using evaluate_all_counts_connected [of demo_fleet "[''a'', ''b'']" 100
        "fst (EvaluateAll [''a'', ''b''] 100 demo_fleet)" "fst (snd (EvaluateAll [''a'', ''b''] 100 demo_fleet))"
        "snd (snd (EvaluateAll [''a'', ''b''] 100 demo_fleet))"] by simp
  also have "{a. \<exists>p. pt_agents demo_fleet a = Some p \<and> time_sub 100 (ap_lastSeenAt p) < pt_offlineAfter demo_fleet} = {''b''}"
    by (auto simp: agents time_sub_def max_duration_def min_duration_def split: if_splits)
  finally show ?thesis by simp
qed

text \<open>
  Evaluating one agent under the read lock with escalation only on a change gives the
  same state, log and tracker as always taking the write lock; evaluating again at the same
  instant is silent; and as long as no heartbeat arrives, a later evaluation never reports a
  better state.
\<close>

theorem evaluate_fast_path_exact:
  assumes "now \<le> now'" and "Evaluate agentID now t = (st, log, t1)"
  shows "(st, log, t1) = (let (s, tr, t') = evaluateLocked agentID now t in (s, log_of tr, t')) \<and>
    Evaluate agentID now t1 = (st, [], t1) \<and>
    badness st \<le> badness (fst (Evaluate agentID now' t1))"
proof -
  have fast: "(st, log, t1) = (let (s, tr, t') = evaluateLocked agentID now t in (s, log_of tr, t'))"
    using assms(2) by (simp add: Evaluate_fast_path)
  have again: "Evaluate agentID now t1 = (st, [], t1)" using assms(2) by (rule Evaluate_quiet)
  have state: "fst (Evaluate agentID n t1) =
      (case pt_agents t1 agentID of None \<Rightarrow> StateOffline | Some p \<Rightarrow> deriveState t1 p n)" for n
    by (simp add: Evaluate_fast_path split_def Let_def evaluateLocked_state)
  have "badness (fst (Evaluate agentID now t1)) \<le> badness (fst (Evaluate agentID now' t1))"
    unfolding state using deriveState_degrades [OF assms(1)] by (simp split: option.splits)
  with fast again show ?thesis by simp
qed

theorem evaluate_fast_path_exact_witness:
  "fst (Evaluate ''b'' 100 demo_fleet) = StateOnline \<and>
   fst (snd (Evaluate ''b'' 100 (snd (snd (Evaluate ''b'' 100 demo_fleet))))) = []"
proof -
  obtain st log t1 where e: "Evaluate ''b'' 100 demo_fleet = (st, log, t1)" by (cases "Evaluate ''b'' 100 demo_fleet")
  note exact = evaluate_fast_path_exact [OF _ e, of 200]
  then have "st = fst (evaluateLocked ''b'' 100 demo_fleet)"
    by (simp add: split_def Let_def)
  moreover have "fst (evaluateLocked ''b'' 100 demo_fleet) = StateOnline"
    by (simp add: evaluateLocked_state demo_fleet_def Heartbeat_def MarkConnected_def NewTracker_def is_zero_time_def
        Let_def deriveState_def time_sub_def max_duration_def min_duration_def map_get_def)
  moreover have "Evaluate ''b'' 100 t1 = (st, [], t1)" using exact by simp
  ultimately show ?thesis by (simp add: e)
qed

end
