(* ===== verification/Runtime_Events.thy ===== *)
theory Runtime_Events
  imports Panvex_Prelude
begin

section \<open>Runtime event buffers\<close>

text \<open>
  The agent keeps its recent log records in a bounded slice
  (internal/agent/runtimeevents/buffer.go) and ships them over the stream; the panel keeps
  the records of each agent in a circular buffer with a replay watermark
  (internal/controlplane/runtimeevents/buffer.go). Both promise the same: the buffer holds
  the most recent accepted events in order. That promise is the locale \<open>bounded_log\<close>,
  interpreted by both implementations.
\<close>

record event =
  ev_seq :: uint64
  ev_ts :: gotime
  ev_level :: string
  ev_message :: string
  ev_fields :: "(string \<times> string) list"

definition last_n :: "nat \<Rightarrow> 'a list \<Rightarrow> 'a list" where
  "last_n n xs = drop (length xs - n) xs"

subsection \<open>The agent's buffer\<close>

record agent_buffer =
  ab_capacity :: nat
  ab_items :: "event list"
  ab_seq :: uint64

definition NewBuffer :: "int \<Rightarrow> agent_buffer" where
  "NewBuffer capacity =
     \<lparr>ab_capacity = (if capacity \<le> 0 then 1 else nat capacity), ab_items = [], ab_seq = 0\<rparr>"

definition agent_Append :: "event \<Rightarrow> agent_buffer \<Rightarrow> agent_buffer" where
  "agent_Append ev b =
     (let b1 = b\<lparr>ab_seq := ab_seq b + 1\<rparr>;
          ev1 = ev\<lparr>ev_seq := ab_seq b1\<rparr>;
          items = (if length (ab_items b1) \<ge> ab_capacity b1 then tl (ab_items b1) else ab_items b1)
      in b1\<lparr>ab_items := items @ [ev1]\<rparr>)"

definition agent_Len :: "agent_buffer \<Rightarrow> nat" where
  "agent_Len b = length (ab_items b)"

definition DrainAfter :: "uint64 \<Rightarrow> agent_buffer \<Rightarrow> event list" where
  "DrainAfter afterSeq b = filter (\<lambda>ev. ev_seq ev > afterSeq) (ab_items b)"

subsection \<open>The panel's ring\<close>

record ring =
  rg_items :: "event list"
  rg_cap :: nat
  rg_head :: nat
  rg_count :: nat
  rg_lastSeq :: uint64
  rg_lastTs :: gotime

definition appendLocked :: "event \<Rightarrow> ring \<Rightarrow> bool \<times> ring" where
  "appendLocked ev r =
     (if ev_seq ev \<noteq> 0 \<and> ev_seq ev \<le> rg_lastSeq r \<and> \<not> ev_ts ev > rg_lastTs r then (False, r)
      else let r1 = (if ev_seq ev \<noteq> 0 then r\<lparr>rg_lastSeq := ev_seq ev, rg_lastTs := ev_ts ev\<rparr> else r)
           in if rg_count r1 < rg_cap r1
              then if length (rg_items r1) < rg_cap r1
                   then (True, r1\<lparr>rg_items := rg_items r1 @ [ev], rg_count := rg_count r1 + 1\<rparr>)
                   else (True, r1\<lparr>rg_items := (rg_items r1)[(rg_head r1 + rg_count r1) mod rg_cap r1 := ev],
                                  rg_count := rg_count r1 + 1\<rparr>)
              else (True, r1\<lparr>rg_items := (rg_items r1)[rg_head r1 := ev],
                             rg_head := (rg_head r1 + 1) mod rg_cap r1\<rparr>))"

record panel_buffer =
  pb_perAgentCapacity :: nat
  pb_rings :: "string \<rightharpoonup> ring"

definition panel_New :: "int \<Rightarrow> panel_buffer" where
  "panel_New perAgentCapacity =
     \<lparr>pb_perAgentCapacity = (if perAgentCapacity \<le> 0 then 1 else nat perAgentCapacity), pb_rings = Map.empty\<rparr>"

definition new_ring :: "nat \<Rightarrow> ring" where
  "new_ring n = \<lparr>rg_items = [], rg_cap = n, rg_head = 0, rg_count = 0, rg_lastSeq = 0, rg_lastTs = 0\<rparr>"

definition getOrCreate :: "string \<Rightarrow> panel_buffer \<Rightarrow> ring" where
  "getOrCreate agentID b =
     (case pb_rings b agentID of Some r \<Rightarrow> r | None \<Rightarrow> new_ring (pb_perAgentCapacity b))"

definition panel_Append :: "string \<Rightarrow> event \<Rightarrow> panel_buffer \<Rightarrow> bool \<times> panel_buffer" where
  "panel_Append agentID ev b =
     (let (ok, r) = appendLocked ev (getOrCreate agentID b)
      in (ok, b\<lparr>pb_rings := (pb_rings b)(agentID \<mapsto> r)\<rparr>))"

fun append_batch :: "event list \<Rightarrow> ring \<Rightarrow> event list \<times> ring" where
  "append_batch [] r = ([], r)"
| "append_batch (ev # evs) r =
     (let (ok, r1) = appendLocked ev r; (stored, r2) = append_batch evs r1
      in (if ok then ev # stored else stored, r2))"

definition AppendBatch :: "string \<Rightarrow> event list \<Rightarrow> panel_buffer \<Rightarrow> event list \<times> panel_buffer" where
  "AppendBatch agentID evs b =
     (let (stored, r) = append_batch evs (getOrCreate agentID b)
      in (stored, b\<lparr>pb_rings := (pb_rings b)(agentID \<mapsto> r)\<rparr>))"

definition ring_contents :: "ring \<Rightarrow> event list" where
  "ring_contents r = map (\<lambda>i. rg_items r ! ((rg_head r + i) mod rg_cap r)) [0..<rg_count r]"

definition levelSetOf :: "string list \<Rightarrow> string set option" where
  "levelSetOf levels = (if levels = [] then None else Some (set levels))"

definition Snapshot :: "string \<Rightarrow> string list \<Rightarrow> int \<Rightarrow> panel_buffer \<Rightarrow> event list" where
  "Snapshot agentID levels limit b =
     (case pb_rings b agentID of
        None \<Rightarrow> []
      | Some r \<Rightarrow>
          let out = filter (\<lambda>ev. case levelSetOf levels of None \<Rightarrow> True | Some ls \<Rightarrow> ev_level ev \<in> ls)
                      (rev (ring_contents r))
          in if limit > 0 then take (nat limit) out else out)"

definition panel_Remove :: "string \<Rightarrow> panel_buffer \<Rightarrow> panel_buffer" where
  "panel_Remove agentID b = b\<lparr>pb_rings := (pb_rings b)(agentID := None)\<rparr>"

subsection \<open>The promise of both\<close>

lemma last_n_trim: "last_n n (last_n n xs @ ys) = last_n n (xs @ ys)"
proof (cases "length xs \<le> n")
  case False
  then have "length (drop (length xs - n) xs) = n" by simp
  with False show ?thesis by (simp add: last_n_def add.commute)
qed (simp add: last_n_def)

lemma last_n_full:
  "length xs = n \<Longrightarrow> 0 < n \<Longrightarrow> last_n n (xs @ [x]) = tl xs @ [x]"
  "length xs < n \<Longrightarrow> last_n n (xs @ [x]) = xs @ [x]"
  by (simp_all add: last_n_def drop_Suc)

lemma length_last_n [simp]: "length (last_n n xs) = min n (length xs)"
  by (auto simp: last_n_def)

locale bounded_log =
  fixes append :: "event \<Rightarrow> 's \<Rightarrow> bool \<times> 's"
    and contents :: "'s \<Rightarrow> event list"
    and capacity :: "'s \<Rightarrow> nat"
    and ok :: "'s \<Rightarrow> bool"
    and stamp :: "'s \<Rightarrow> event \<Rightarrow> event"
  assumes ok_append: "ok s \<Longrightarrow> ok (snd (append ev s))"
    and capacity_pos: "ok s \<Longrightarrow> 0 < capacity s"
    and capacity_append: "ok s \<Longrightarrow> capacity (snd (append ev s)) = capacity s"
    and bounded: "ok s \<Longrightarrow> length (contents s) \<le> capacity s"
    and stored: "ok s \<Longrightarrow> fst (append ev s) \<Longrightarrow>
      contents (snd (append ev s)) = last_n (capacity s) (contents s @ [stamp s ev])"
    and refused: "ok s \<Longrightarrow> \<not> fst (append ev s) \<Longrightarrow> contents (snd (append ev s)) = contents s"
begin

fun run :: "event list \<Rightarrow> 's \<Rightarrow> event list \<times> 's" where
  "run [] s = ([], s)"
| "run (ev # evs) s =
     (let (a, s1) = append ev s; (evs', s2) = run evs s1
      in (if a then stamp s ev # evs' else evs', s2))"

lemma run_contents:
  "ok s \<Longrightarrow> ok (snd (run evs s)) \<and> capacity (snd (run evs s)) = capacity s \<and>
     contents (snd (run evs s)) = last_n (capacity s) (contents s @ fst (run evs s))"
proof (induction evs arbitrary: s)
  case Nil
  then show ?case using bounded by (simp add: last_n_def)
next
  case (Cons ev evs)
  let ?s = "snd (append ev s)"
  have IH: "ok (snd (run evs ?s))" "capacity (snd (run evs ?s)) = capacity s"
      "contents (snd (run evs ?s)) = last_n (capacity s) (contents ?s @ fst (run evs ?s))"
    using Cons.IH [OF ok_append [OF Cons.prems]] capacity_append [OF Cons.prems] by auto
  show ?case
  proof (cases "fst (append ev s)")
    case True
    have "contents (snd (run evs ?s)) = last_n (capacity s) (contents s @ stamp s ev # fst (run evs ?s))"
      using IH(3) last_n_trim [of "capacity s" "contents s @ [stamp s ev]"]
      by (simp add: stored [OF Cons.prems True])
    with IH True show ?thesis by (simp add: split_def Let_def)
  next
    case False
    with IH refused [OF Cons.prems False] show ?thesis by (simp add: split_def Let_def)
  qed
qed

end

subsection \<open>The agent's buffer keeps the promise\<close>

definition agent_ok :: "agent_buffer \<Rightarrow> bool" where
  "agent_ok b \<longleftrightarrow> 0 < ab_capacity b \<and> length (ab_items b) \<le> ab_capacity b"

lemma agent_Append_fields:
  "ab_capacity (agent_Append ev b) = ab_capacity b"
  "ab_seq (agent_Append ev b) = ab_seq b + 1"
  "ab_items (agent_Append ev b) =
     (if length (ab_items b) \<ge> ab_capacity b then tl (ab_items b) else ab_items b) @ [ev\<lparr>ev_seq := ab_seq b + 1\<rparr>]"
  by (simp_all add: agent_Append_def Let_def)

interpretation agent_log: bounded_log "\<lambda>ev b. (True, agent_Append ev b)" ab_items ab_capacity agent_ok
  "\<lambda>b ev. ev\<lparr>ev_seq := ab_seq b + 1\<rparr>"
proof
  fix b ev
  assume b: "agent_ok b"
  then show "agent_ok (snd (True, agent_Append ev b))" by (auto simp: agent_ok_def agent_Append_fields)
  from b have "length (ab_items b) = ab_capacity b \<or> length (ab_items b) < ab_capacity b"
    by (auto simp: agent_ok_def)
  with b show "ab_items (snd (True, agent_Append ev b)) = last_n (ab_capacity b) (ab_items b @ [ev\<lparr>ev_seq := ab_seq b + 1\<rparr>])"
    by (auto simp: agent_Append_fields last_n_full agent_ok_def)
qed (auto simp: agent_ok_def agent_Append_fields)

subsection \<open>The ring keeps the promise\<close>

definition ring_ok :: "ring \<Rightarrow> bool" where
  "ring_ok r \<longleftrightarrow> 0 < rg_cap r \<and> rg_count r = length (rg_items r) \<and> length (rg_items r) \<le> rg_cap r \<and>
     rg_head r < rg_cap r \<and> (length (rg_items r) < rg_cap r \<longrightarrow> rg_head r = 0)"

lemma contents_filling:
  assumes "ring_ok r" and "length (rg_items r) < rg_cap r"
  shows "ring_contents r = rg_items r"
  using assms by (auto simp: ring_contents_def ring_ok_def intro: nth_equalityI)

lemma contents_full:
  assumes "length items = n" and "head < n"
  shows "map (\<lambda>i. items[head := ev] ! ((Suc head mod n + i) mod n)) [0..<n] =
    tl (map (\<lambda>i. items ! ((head + i) mod n)) [0..<n]) @ [ev]"
proof (rule nth_equalityI)
  show "length (map (\<lambda>i. items[head := ev] ! ((Suc head mod n + i) mod n)) [0..<n]) =
      length (tl (map (\<lambda>i. items ! ((head + i) mod n)) [0..<n]) @ [ev])"
    using assms by simp
  fix i
  assume "i < length (map (\<lambda>i. items[head := ev] ! ((Suc head mod n + i) mod n)) [0..<n])"
  then have i: "i < n" by simp
  have idx: "(Suc head mod n + i) mod n = (head + Suc i) mod n" by (simp add: mod_add_left_eq)
  show "map (\<lambda>i. items[head := ev] ! ((Suc head mod n + i) mod n)) [0..<n] ! i =
      (tl (map (\<lambda>i. items ! ((head + i) mod n)) [0..<n]) @ [ev]) ! i"
  proof (cases "Suc i < n")
    case True
    have "(head + Suc i) mod n \<noteq> head"
    proof
      assume eq: "(head + Suc i) mod n = head"
      show False
      proof (cases "head + Suc i < n")
        case True
        with eq show False by simp
      next
        case False
        with \<open>Suc i < n\<close> assms(2) have "(head + Suc i) mod n = head + Suc i - n"
          by (simp add: mod_if)
        with eq \<open>Suc i < n\<close> show False by simp
      qed
    qed
    moreover have "i < n - Suc 0" using True by simp
    ultimately show ?thesis using i True by (simp add: idx nth_append nth_tl)
  next
    case False
    with i have "Suc i = n" by simp
    then have "(head + Suc i) mod n = head" using assms(2) by simp
    moreover have "\<not> i < n - Suc 0" using \<open>Suc i = n\<close> by simp
    ultimately show ?thesis using i \<open>Suc i = n\<close> assms by (simp add: idx nth_append)
  qed
qed

lemma append_stored:
  assumes ok: "ring_ok r" and st: "fst (appendLocked ev r)"
  shows "ring_ok (snd (appendLocked ev r))" and "rg_cap (snd (appendLocked ev r)) = rg_cap r"
    and "ring_contents (snd (appendLocked ev r)) = last_n (rg_cap r) (ring_contents r @ [ev])"
proof -
  let ?r = "snd (appendLocked ev r)"
  have cases: "rg_cap ?r = rg_cap r \<and>
      (if length (rg_items r) < rg_cap r
       then rg_items ?r = rg_items r @ [ev] \<and> rg_head ?r = 0 \<and> rg_count ?r = Suc (rg_count r)
       else rg_items ?r = (rg_items r)[rg_head r := ev] \<and> rg_head ?r = Suc (rg_head r) mod rg_cap r \<and> rg_count ?r = rg_count r)"
    using ok st by (auto simp: appendLocked_def ring_ok_def Let_def split: if_splits)
  then show cap: "rg_cap ?r = rg_cap r" and ok': "ring_ok ?r"
    using ok by (auto simp: ring_ok_def split: if_splits)
  show "ring_contents ?r = last_n (rg_cap r) (ring_contents r @ [ev])"
  proof (cases "length (rg_items r) < rg_cap r")
    case True
    then have "ring_contents ?r = rg_items r @ [ev]"
      using cases ok by (auto simp: ring_contents_def ring_ok_def nth_append intro!: nth_equalityI)
    with True show ?thesis by (simp add: contents_filling [OF ok True] last_n_full)
  next
    case False
    then have full: "length (rg_items r) = rg_cap r" "rg_count r = rg_cap r" "rg_head r < rg_cap r" "0 < rg_cap r"
      using ok by (auto simp: ring_ok_def)
    have "ring_contents ?r = tl (ring_contents r) @ [ev]"
      using cases False full contents_full [OF full(1,3), of ev] by (simp add: ring_contents_def)
    then show ?thesis using full by (simp add: last_n_full ring_contents_def)
  qed
qed

lemma append_refused: "\<not> fst (appendLocked ev r) \<Longrightarrow> snd (appendLocked ev r) = r"
  by (auto simp: appendLocked_def Let_def split: if_splits)

interpretation panel_log: bounded_log appendLocked ring_contents rg_cap ring_ok "\<lambda>r ev. ev"
proof
  fix r ev
  assume ok: "ring_ok r"
  show "ring_ok (snd (appendLocked ev r))" "rg_cap (snd (appendLocked ev r)) = rg_cap r"
    using ok append_stored(1,2) [OF ok] append_refused [of ev r] by (cases "fst (appendLocked ev r)"; simp)+
qed (auto simp: append_stored append_refused, auto simp: ring_ok_def ring_contents_def)

lemma append_batch_run: "append_batch evs r = panel_log.run evs r"
  by (induction evs arbitrary: r) (simp_all add: split_def Let_def)

lemma new_ring_ok: "0 < n \<Longrightarrow> ring_ok (new_ring n)"
  by (simp add: ring_ok_def new_ring_def)

subsection \<open>The drain cursor\<close>

text \<open>The numbers in the buffer are the last ones handed out, without a gap.\<close>

definition seq_ok :: "agent_buffer \<Rightarrow> bool" where
  "seq_ok b \<longleftrightarrow> agent_ok b \<and> length (ab_items b) \<le> unat (ab_seq b) \<and>
     map (\<lambda>ev. unat (ev_seq ev)) (ab_items b) =
       [Suc (unat (ab_seq b)) - length (ab_items b)..<Suc (unat (ab_seq b))]"

lemma seq_ok_new: "seq_ok (NewBuffer n)"
  by (simp add: seq_ok_def agent_ok_def NewBuffer_def)

lemma seq_ok_append:
  assumes "seq_ok b" and "ab_seq b \<noteq> - 1"
  shows "seq_ok (agent_Append ev b)"
proof -
  let ?n = "unat (ab_seq b)" and ?k = "length (ab_items b)"
  have succ: "unat (ab_seq b + 1) = Suc ?n" using assms(2) by (rule unat_inc)
  have seqs: "map (\<lambda>ev. unat (ev_seq ev)) (ab_items b) = [Suc ?n - ?k..<Suc ?n]" "?k \<le> ?n" "agent_ok b"
    using assms(1) by (auto simp: seq_ok_def)
  have ok: "agent_ok (agent_Append ev b)" using agent_log.ok_append [OF seqs(3), of ev] by simp
  show ?thesis
  proof (cases "?k \<ge> ab_capacity b")
    case True
    then have "0 < ?k" using seqs(3) by (auto simp: agent_ok_def)
    then have "map (\<lambda>ev. unat (ev_seq ev)) (tl (ab_items b)) = [Suc (Suc ?n - ?k)..<Suc ?n]"
      using seqs(1,2) by (simp add: map_tl tl_upt)
    moreover have "Suc (?n - ?k) \<le> ?n" using \<open>0 < ?k\<close> seqs(2) by linarith
    ultimately show ?thesis
      using True \<open>0 < ?k\<close> seqs(2) ok by (simp add: seq_ok_def agent_Append_fields succ Suc_diff_le)
  next
    case False
    with seqs ok show ?thesis by (simp add: seq_ok_def agent_Append_fields succ)
  qed
qed

lemma filter_upt_greater: "filter (\<lambda>x. c < x) [a..<Suc n] = [max a (Suc c)..<Suc n]"
  by (induction n) (auto simp: max_def)

subsection \<open>Properties\<close>

text \<open>
  C23: The circular buffer of an agent on the panel always holds, oldest first, the most
  recent of the events it accepted, as many as its capacity allows: after a batch it is the
  last capacity-many elements of its previous contents followed by the events of the batch
  that were stored. The index arithmetic with head and count implements that list.
\<close>

theorem ring_holds_most_recent:
  assumes "ring_ok r" and "append_batch evs r = (stored, r')"
  shows "ring_ok r' \<and> ring_contents r' = last_n (rg_cap r) (ring_contents r @ stored)"
  using panel_log.run_contents [OF assms(1), of evs] assms(2) append_batch_run [of evs r] by simp

definition demo_event :: "uint64 \<Rightarrow> gotime \<Rightarrow> event" where
  "demo_event n ts = \<lparr>ev_seq = n, ev_ts = ts, ev_level = ''info'', ev_message = [], ev_fields = []\<rparr>"

definition demo_batch :: "event list" where
  "demo_batch = [demo_event 1 10, demo_event 2 10, demo_event 3 11]"

theorem ring_holds_most_recent_witness:
  "ring_contents (snd (append_batch demo_batch (new_ring 2))) = [demo_event 2 10, demo_event 3 11]"
proof -
  obtain stored r' where run: "append_batch demo_batch (new_ring 2) = (stored, r')" by fastforce
  then have "stored = demo_batch"
    by (auto simp: demo_batch_def demo_event_def appendLocked_def new_ring_def Let_def word_le_nat_alt)
  with ring_holds_most_recent [OF new_ring_ok run]
  have "ring_contents r' = last_n (rg_cap (new_ring 2)) (ring_contents (new_ring 2) @ demo_batch)" by simp
  moreover have "ring_contents (new_ring 2) = []" "rg_cap (new_ring 2) = 2"
    by (simp_all add: ring_contents_def new_ring_def)
  ultimately have "ring_contents r' = last_n 2 demo_batch" by simp
  then show ?thesis by (simp add: run) (simp add: demo_batch_def last_n_def)
qed

definition below_mark :: "event \<Rightarrow> ring \<Rightarrow> bool" where
  "below_mark ev r \<longleftrightarrow> ev_seq ev \<noteq> 0 \<and> ev_seq ev \<le> rg_lastSeq r \<and> ev_ts ev \<le> rg_lastTs r"

lemma below_mark_refused: "below_mark ev r \<Longrightarrow> appendLocked ev r = (False, r)"
  by (simp add: below_mark_def appendLocked_def not_less)

lemma append_below_mark: "ev_seq ev \<noteq> 0 \<Longrightarrow> below_mark ev (snd (appendLocked ev r))"
  by (auto simp: below_mark_def appendLocked_def Let_def)

lemma batch_below_mark:
  "evs \<noteq> [] \<Longrightarrow> \<forall>ev \<in> set evs. ev_seq ev \<noteq> 0 \<Longrightarrow> below_mark (last evs) (snd (append_batch evs r))"
proof (induction evs arbitrary: r)
  case (Cons ev evs)
  then show ?case
    using append_below_mark [of ev r] by (cases "evs = []") (simp_all add: split_def Let_def)
qed simp

lemma refused_batch: "\<forall>ev \<in> set evs. below_mark ev r \<Longrightarrow> append_batch evs r = ([], r)"
  by (induction evs) (simp_all add: below_mark_refused)

lemma sorted_last_max:
  "sorted_wrt (\<lambda>a b. ev_seq a < ev_seq b \<and> ev_ts a \<le> ev_ts b) evs \<Longrightarrow> ev \<in> set evs \<Longrightarrow>
     ev_seq ev \<le> ev_seq (last evs) \<and> ev_ts ev \<le> ev_ts (last evs)"
  by (induction evs) (auto intro: less_imp_le)

text \<open>
  When an agent reconnects and sends a batch again, the panel stores none of it: for
  numbered events in the order of their numbers and instants, a second delivery right after
  the first returns no stored event and leaves the buffer as it was.
\<close>

theorem replayed_batch_stores_nothing:
  assumes "\<forall>ev \<in> set evs. ev_seq ev \<noteq> 0"
    and "sorted_wrt (\<lambda>a b. ev_seq a < ev_seq b \<and> ev_ts a \<le> ev_ts b) evs"
    and "AppendBatch agentID evs b = (stored, b')"
  shows "AppendBatch agentID evs b' = ([], b')"
proof -
  let ?r = "snd (append_batch evs (getOrCreate agentID b))"
  have b': "b' = b\<lparr>pb_rings := (pb_rings b)(agentID \<mapsto> ?r)\<rparr>"
    using assms(3) by (simp add: AppendBatch_def split_def Let_def)
  then have ring: "getOrCreate agentID b' = ?r" "b'\<lparr>pb_rings := (pb_rings b')(agentID \<mapsto> ?r)\<rparr> = b'"
    by (simp_all add: getOrCreate_def)
  have "below_mark ev ?r" if "ev \<in> set evs" for ev
  proof -
    have "evs \<noteq> []" using that by auto
    from batch_below_mark [OF this assms(1)] sorted_last_max [OF assms(2) that] assms(1) that show ?thesis
      by (auto simp: below_mark_def intro: order_trans)
  qed
  then have "append_batch evs ?r = ([], ?r)" by (intro refused_batch) simp
  with ring show ?thesis by (simp add: AppendBatch_def)
qed

theorem replayed_batch_stores_nothing_witness:
  "fst (AppendBatch ''a'' demo_batch (snd (AppendBatch ''a'' demo_batch (panel_New 2)))) = []"
proof -
  obtain stored b' where b: "AppendBatch ''a'' demo_batch (panel_New 2) = (stored, b')" by fastforce
  from replayed_batch_stores_nothing [OF _ _ b] show ?thesis
    by (simp add: b) (simp add: demo_batch_def demo_event_def)
qed

text \<open>
  The agent's drain by sequence number loses nothing but overwritten events: with a
  cursor that is still covered by the buffer, the drained events carry exactly the numbers
  after the cursor up to the last one handed out, in order; this holds in every buffer that
  appends produce, whatever the timestamps.
\<close>

theorem drain_after_cursor_complete:
  assumes "seq_ok b" and "unat (ab_seq b) - length (ab_items b) \<le> unat afterSeq"
  shows "map (\<lambda>ev. unat (ev_seq ev)) (DrainAfter afterSeq b) = [Suc (unat afterSeq)..<Suc (unat (ab_seq b))] \<and>
    seq_ok (NewBuffer capacity) \<and> (ab_seq b \<noteq> - 1 \<longrightarrow> seq_ok (agent_Append ev b))"
proof -
  have "map (\<lambda>ev. unat (ev_seq ev)) (DrainAfter afterSeq b) =
      filter (\<lambda>x. unat afterSeq < x) (map (\<lambda>ev. unat (ev_seq ev)) (ab_items b))"
    by (simp add: DrainAfter_def filter_map comp_def word_less_nat_alt)
  also have "\<dots> = [Suc (unat afterSeq)..<Suc (unat (ab_seq b))]"
  proof -
    have "max (Suc (unat (ab_seq b)) - length (ab_items b)) (Suc (unat afterSeq)) = Suc (unat afterSeq)"
      using assms by (simp add: seq_ok_def Suc_diff_le)
    moreover have "map (\<lambda>ev. unat (ev_seq ev)) (ab_items b) =
        [Suc (unat (ab_seq b)) - length (ab_items b)..<Suc (unat (ab_seq b))]"
      using assms(1) by (simp add: seq_ok_def)
    ultimately show ?thesis using filter_upt_greater by metis
  qed
  finally show ?thesis using seq_ok_new seq_ok_append [OF assms(1)] by simp
qed

theorem drain_after_cursor_complete_witness:
  "map (\<lambda>ev. unat (ev_seq ev))
     (DrainAfter 1 (agent_Append (demo_event 0 5) (agent_Append (demo_event 0 5) (NewBuffer 2)))) = [2]"
proof -
  let ?b = "agent_Append (demo_event 0 5) (agent_Append (demo_event 0 5) (NewBuffer 2))"
  have fields: "ab_seq ?b = 2" "length (ab_items ?b) = 2"
    by (simp_all add: agent_Append_fields NewBuffer_def)
  have "seq_ok (agent_Append (demo_event 0 5) (NewBuffer 2))"
    by (rule seq_ok_append [OF seq_ok_new]) (simp add: NewBuffer_def)
  then have "seq_ok ?b" by (rule seq_ok_append) (simp add: agent_Append_fields NewBuffer_def)
  from drain_after_cursor_complete [OF this, of 1] fields show ?thesis by (simp add: upt_rec)
qed

end
