(* ===== verification/Agent_Jobs.thy ===== *)
theory Agent_Jobs
  imports Panvex_Prelude
begin

section \<open>Job execution on the agent (internal/agent/jobs/jobs.go)\<close>

text \<open>
  The agent receives jobs on one inbound pump, reserves their identifiers, puts them into one
  of three lanes with a queue and a single worker each, and acknowledges them. The pump, the
  workers and the cancellation of the connection run concurrently, so the operations are cut
  at the points where the code can block and composed into the step relation \<open>agent_step\<close>.
  A connection that ends is torn down (connection.go: wait for the goroutines, then
  \<^verbatim>\<open>ReleaseQueued\<close>) and the next one starts with new queues and the same reservations.

  \<^verbatim>\<open>HandleJob\<close> and the result cache belong to the agent runtime; only the outcome the worker
  sends is visible here and it is chosen by the step. The payload parser of \<^verbatim>\<open>config.apply\<close> is
  a parameter of the budget.
\<close>

subsection \<open>Lanes and budgets\<close>

record job_command =
  jc_id :: string
  jc_action :: string
  jc_payload :: string

datatype pipeline = PipelineRuntimeReload | PipelineClientMutation | PipelineDefault

definition QueueCapacity :: nat where "QueueCapacity = 16"

definition pipelineForAction :: "string \<Rightarrow> pipeline" where
  "pipelineForAction action =
     (if action = ''telemetry.refresh_diagnostics'' then PipelineRuntimeReload
      else if action \<in> {''client.create'', ''client.update'', ''client.rotate_secret'', ''client.delete'',
                        ''client.reset_quota''} then PipelineClientMutation
      else PipelineDefault)"

definition shouldSendRuntimeSnapshotAfterJob :: "string \<Rightarrow> bool \<Rightarrow> bool" where
  "shouldSendRuntimeSnapshotAfterJob action success =
     (if \<not> success then False else action = ''telemetry.refresh_diagnostics'')"

definition workerCountForPipeline :: "pipeline \<Rightarrow> nat" where
  "workerCountForPipeline p = 1"

text \<open>The parameter is the \<^verbatim>\<open>health_timeout_s\<close> of the payload, zero when it cannot be read.\<close>

definition executionBudget :: "(string \<Rightarrow> int) \<Rightarrow> job_command \<Rightarrow> duration" where
  "executionBudget health_timeout_s job =
     (if jc_action job = ''config.apply''
      then let h = health_timeout_s (jc_payload job) * second_ns;
               health = (if h \<le> 0 then 30 * second_ns else h)
           in health + 30 * second_ns + 30 * second_ns
      else if jc_action job = ''agent.self-update'' then 5 * minute_ns
      else if jc_action job = ''telemt.update'' then 10 * minute_ns
      else 30 * second_ns)"

subsection \<open>State\<close>

datatype outbound =
    Acknowledgement string
  | JobResult string bool string
  | RuntimeSnapshot

datatype worker = Idle | Busy job_command | Exited

datatype pump = Receiving | Acknowledging job_command

text \<open>
  The last two fields are history: the jobs each lane accepted and started on this
  connection, in order.
\<close>

record agent_state =
  ag_jobIDs :: "string set"
  ag_queues :: "pipeline \<Rightarrow> job_command list"
  ag_workers :: "pipeline \<Rightarrow> worker"
  ag_pump :: pump
  ag_outbound :: "outbound list"
  ag_done :: bool
  ag_accepted :: "pipeline \<Rightarrow> job_command list"
  ag_started :: "pipeline \<Rightarrow> job_command list"

definition connect :: "string set \<Rightarrow> agent_state" where
  "connect reservations =
     \<lparr>ag_jobIDs = reservations, ag_queues = (\<lambda>_. []), ag_workers = (\<lambda>_. Idle), ag_pump = Receiving,
      ag_outbound = [], ag_done = False, ag_accepted = (\<lambda>_. []), ag_started = (\<lambda>_. [])\<rparr>"

definition reserve :: "string \<Rightarrow> agent_state \<Rightarrow> bool \<times> agent_state" where
  "reserve jobID s =
     (if jobID = [] then (False, s)
      else if jobID \<in> ag_jobIDs s then (False, s)
      else (True, s\<lparr>ag_jobIDs := insert jobID (ag_jobIDs s)\<rparr>))"

definition release :: "string \<Rightarrow> agent_state \<Rightarrow> agent_state" where
  "release jobID s = (if jobID = [] then s else s\<lparr>ag_jobIDs := ag_jobIDs s - {jobID}\<rparr>)"

definition send :: "outbound \<Rightarrow> agent_state \<Rightarrow> agent_state" where
  "send m s = s\<lparr>ag_outbound := ag_outbound s @ [m]\<rparr>"

subsection \<open>Receiving a job\<close>

datatype receive_choice = TakeDone | Proceed

text \<open>
  From \<^verbatim>\<open>EnqueueReceived\<close>, up to the final acknowledgement. \<open>cached\<close> is the completed result the
  runtime has for a duplicate; the choices say which branch of a select is taken. \<open>TakeDone\<close>
  is possible only once the connection is cancelled, which may also happen while a later
  select is blocked, so \<open>Proceed\<close> stays possible then.
\<close>

definition EnqueueReceived ::
    "(bool \<times> string) option \<Rightarrow> receive_choice \<Rightarrow> receive_choice \<Rightarrow> job_command \<Rightarrow> agent_state \<Rightarrow> agent_state" where
  "EnqueueReceived cached first second job s =
     (let jobID = jc_id job; lane = pipelineForAction (jc_action job); (fresh, s1) = reserve jobID s
      in if jobID \<noteq> [] \<and> \<not> fresh
         then (if first = TakeDone then s1
               else send (case cached of None \<Rightarrow> Acknowledgement jobID
                                       | Some (ok, msg) \<Rightarrow> JobResult jobID ok msg) s1)
         else if first = TakeDone then release jobID s1
         else if length (ag_queues s1 lane) < QueueCapacity
           then s1\<lparr>ag_queues := (ag_queues s1)(lane := ag_queues s1 lane @ [job]),
                   ag_accepted := (ag_accepted s1)(lane := ag_accepted s1 lane @ [job]),
                   ag_pump := Acknowledging job\<rparr>
         else let s2 = release jobID s1
              in if second = TakeDone then s2
                 else send (JobResult jobID False ''job queue full, retry later'') s2)"

definition acknowledge_received :: "receive_choice \<Rightarrow> agent_state \<Rightarrow> agent_state" where
  "acknowledge_received choice s =
     (case ag_pump s of
        Receiving \<Rightarrow> s
      | Acknowledging job \<Rightarrow>
          if choice = TakeDone then (release (jc_id job) s)\<lparr>ag_pump := Receiving\<rparr>
          else (send (Acknowledgement (jc_id job)) s)\<lparr>ag_pump := Receiving\<rparr>)"

subsection \<open>Workers\<close>

definition worker_take :: "pipeline \<Rightarrow> agent_state \<Rightarrow> agent_state" where
  "worker_take p s =
     (case (ag_workers s p, ag_queues s p) of
        (Idle, job # rest) \<Rightarrow>
          s\<lparr>ag_queues := (ag_queues s)(p := rest), ag_workers := (ag_workers s)(p := Busy job),
            ag_started := (ag_started s)(p := ag_started s p @ [job])\<rparr>
      | _ \<Rightarrow> s)"

text \<open>
  From the result of \<^verbatim>\<open>HandleJob\<close> on: the diagnostics snapshot, the result message and the
  release. \<open>snapshot_error\<close> is the error of building the snapshot.
\<close>

definition worker_finish ::
    "pipeline \<Rightarrow> bool \<Rightarrow> string \<Rightarrow> string option \<Rightarrow> receive_choice \<Rightarrow> receive_choice \<Rightarrow> agent_state \<Rightarrow> agent_state" where
  "worker_finish p success message snapshot_error first second s =
     (case ag_workers s p of
        Busy job \<Rightarrow>
          let jobID = jc_id job;
              stop = (release jobID s)\<lparr>ag_workers := (ag_workers s)(p := Exited)\<rparr>;
              report = (\<lambda>ok msg s1.
                 if second = TakeDone then (release jobID s1)\<lparr>ag_workers := (ag_workers s1)(p := Exited)\<rparr>
                 else (release jobID (send (JobResult jobID ok msg) s1))\<lparr>ag_workers := (ag_workers s1)(p := Idle)\<rparr>)
          in if shouldSendRuntimeSnapshotAfterJob (jc_action job) success
             then (case snapshot_error of
                     Some err \<Rightarrow> report False (''diagnostics refresh failed: '' @ err) s
                   | None \<Rightarrow> if first = TakeDone then stop else report success message (send RuntimeSnapshot s))
             else report success message s
      | _ \<Rightarrow> s)"

definition worker_exit :: "pipeline \<Rightarrow> agent_state \<Rightarrow> agent_state" where
  "worker_exit p s = (if ag_workers s p = Idle then s\<lparr>ag_workers := (ag_workers s)(p := Exited)\<rparr> else s)"

subsection \<open>Teardown\<close>

definition drainQueue :: "pipeline \<Rightarrow> agent_state \<Rightarrow> agent_state" where
  "drainQueue p s =
     (fold (\<lambda>job. release (jc_id job)) (ag_queues s p) s)\<lparr>ag_queues := (ag_queues s)(p := [])\<rparr>"

definition ReleaseQueued :: "pipeline list \<Rightarrow> agent_state \<Rightarrow> agent_state" where
  "ReleaseQueued order s = fold drainQueue order s"

subsection \<open>Steps\<close>

definition select_ok :: "receive_choice \<Rightarrow> agent_state \<Rightarrow> bool" where
  "select_ok choice s \<longleftrightarrow> choice = TakeDone \<longrightarrow> ag_done s"

inductive agent_step :: "agent_state \<Rightarrow> agent_state \<Rightarrow> bool" where
  receive: "ag_pump s = Receiving \<Longrightarrow> select_ok c1 s \<Longrightarrow> select_ok c2 s \<Longrightarrow>
     agent_step s (EnqueueReceived cached c1 c2 job s)"
| acknowledge: "select_ok c s \<Longrightarrow> agent_step s (acknowledge_received c s)"
| take: "agent_step s (worker_take p s)"
| finish: "select_ok c1 s \<Longrightarrow> select_ok c2 s \<Longrightarrow> agent_step s (worker_finish p ok m e c1 c2 s)"
| exit: "ag_done s \<Longrightarrow> agent_step s (worker_exit p s)"
| cancel: "agent_step s (s\<lparr>ag_done := True\<rparr>)"
| teardown: "ag_done s \<Longrightarrow> ag_pump s = Receiving \<Longrightarrow> (\<forall>p. ag_workers s p = Exited) \<Longrightarrow>
     set order = UNIV \<Longrightarrow> agent_step s (connect (ag_jobIDs (ReleaseQueued order s)))"

inductive agent_reachable :: "agent_state \<Rightarrow> bool" where
  start: "agent_reachable (connect {})"
| step: "agent_reachable s \<Longrightarrow> agent_step s s' \<Longrightarrow> agent_reachable s'"

subsection \<open>Where an identifier is\<close>

definition held :: "agent_state \<Rightarrow> pipeline \<Rightarrow> string list" where
  "held s p = (case ag_workers s p of Busy job \<Rightarrow> [jc_id job] | _ \<Rightarrow> []) @ map jc_id (ag_queues s p)"

definition copies :: "agent_state \<Rightarrow> string \<Rightarrow> nat" where
  "copies s x = (\<Sum>p \<in> {PipelineRuntimeReload, PipelineClientMutation, PipelineDefault}. count_list (held s p) x)"

definition agent_inv :: "agent_state \<Rightarrow> bool" where
  "agent_inv s \<longleftrightarrow>
     [] \<notin> ag_jobIDs s \<and> (\<forall>x \<in> ag_jobIDs s. 0 < copies s x) \<and>
     (\<not> ag_done s \<longrightarrow> (\<forall>x. x \<noteq> [] \<longrightarrow> copies s x = (if x \<in> ag_jobIDs s then 1 else 0))) \<and>
     (\<forall>p. length (ag_queues s p) \<le> QueueCapacity \<and> ag_accepted s p = ag_started s p @ ag_queues s p)"

lemma copies_lane:
  assumes "\<And>q. q \<noteq> p \<Longrightarrow> held s' q = held s q"
  shows "copies s' x + count_list (held s p) x = copies s x + count_list (held s' p) x"
  using assms by (cases p) (simp_all add: copies_def)

lemma copies_cong: "(\<And>q. held s' q = held s q) \<Longrightarrow> copies s' x = copies s x"
  by (simp add: copies_def)

lemma held_cong: "ag_queues s' = ag_queues s \<Longrightarrow> ag_workers s' = ag_workers s \<Longrightarrow> held s' = held s"
  by (simp add: held_def fun_eq_iff)

lemma agent_inv_cong:
  assumes "agent_inv s" and "ag_jobIDs s' = ag_jobIDs s" "ag_queues s' = ag_queues s" "ag_workers s' = ag_workers s"
    "ag_accepted s' = ag_accepted s" "ag_started s' = ag_started s" "ag_done s \<longrightarrow> ag_done s'"
  shows "agent_inv s'"
  using assms copies_cong [of s' s] held_cong [OF assms(3,4)] by (auto simp: agent_inv_def)

lemma release_fields [simp]:
  "ag_jobIDs (release x s) = (if x = [] then ag_jobIDs s else ag_jobIDs s - {x})"
  "ag_queues (release x s) = ag_queues s" "ag_workers (release x s) = ag_workers s"
  "ag_pump (release x s) = ag_pump s" "ag_outbound (release x s) = ag_outbound s"
  "ag_done (release x s) = ag_done s" "ag_accepted (release x s) = ag_accepted s"
  "ag_started (release x s) = ag_started s"
  by (simp_all add: release_def)

lemma send_fields [simp]:
  "ag_jobIDs (send m s) = ag_jobIDs s" "ag_queues (send m s) = ag_queues s" "ag_workers (send m s) = ag_workers s"
  "ag_pump (send m s) = ag_pump s" "ag_done (send m s) = ag_done s" "ag_accepted (send m s) = ag_accepted s"
  "ag_started (send m s) = ag_started s" "ag_outbound (send m s) = ag_outbound s @ [m]"
  by (simp_all add: send_def)

text \<open>Removing an identifier that is held nowhere else, together with its reservation.\<close>

lemma agent_inv_drop:
  assumes inv: "agent_inv s" and busy: "ag_workers s p = Busy job" and w: "w \<in> {Idle, Exited}"
    and s': "ag_jobIDs s' = (if jc_id job = [] then ag_jobIDs s else ag_jobIDs s - {jc_id job})"
      "ag_queues s' = ag_queues s" "ag_workers s' = (ag_workers s)(p := w)" "ag_done s' = ag_done s"
      "ag_accepted s' = ag_accepted s" "ag_started s' = ag_started s"
  shows "agent_inv s'"
proof -
  have other: "held s' q = held s q" if "q \<noteq> p" for q using that s' by (simp add: held_def)
  have own: "held s p = jc_id job # held s' p" using busy w s' by (auto simp: held_def)
  have c: "copies s x = copies s' x + (if x = jc_id job then 1 else 0)" for x
    using copies_lane [of p s' s x] other own by (auto split: if_splits)
  have "copies s' x = (if x \<in> ag_jobIDs s' then 1 else 0)" if "\<not> ag_done s'" "x \<noteq> []" for x
  proof -
    have "copies s x = (if x \<in> ag_jobIDs s then 1 else 0)" using inv that s' by (simp add: agent_inv_def)
    with c [of x] that s' show ?thesis by (cases "x = jc_id job") (auto split: if_splits)
  qed
  moreover have "0 < copies s' x" if "x \<in> ag_jobIDs s'" for x
  proof -
    have "x \<in> ag_jobIDs s" "x \<noteq> jc_id job" using that s' inv by (auto simp: agent_inv_def split: if_splits)
    with inv c [of x] show ?thesis by (auto simp: agent_inv_def)
  qed
  ultimately show ?thesis using inv s' by (simp add: agent_inv_def)
qed

lemma worker_finish_inv:
  assumes inv: "agent_inv s"
  shows "agent_inv (worker_finish p ok m e c1 c2 s)"
proof (cases "ag_workers s p")
  case (Busy job)
  have drop: "agent_inv s'"
    if "ag_jobIDs s' = (if jc_id job = [] then ag_jobIDs s else ag_jobIDs s - {jc_id job})"
      "ag_queues s' = ag_queues s" "ag_workers s' = (ag_workers s)(p := w)" "ag_done s' = ag_done s"
      "ag_accepted s' = ag_accepted s" "ag_started s' = ag_started s" "w \<in> {Idle, Exited}" for s' w
    using agent_inv_drop [OF inv Busy that(7) that(1-6)] .
  show ?thesis
    unfolding worker_finish_def Busy Let_def worker.case
    by (auto split: option.splits intro!: drop)
qed (simp_all add: worker_finish_def inv)

lemma worker_take_inv:
  assumes inv: "agent_inv s"
  shows "agent_inv (worker_take p s)"
proof (cases "ag_workers s p = Idle \<and> ag_queues s p \<noteq> []")
  case True
  then obtain job rest where q: "ag_queues s p = job # rest" and idle: "ag_workers s p = Idle"
    by (cases "ag_queues s p") auto
  have held: "held (worker_take p s) r = held s r" for r
    using q idle by (simp add: worker_take_def held_def)
  have len: "length (ag_queues s p) \<le> QueueCapacity" and acc: "ag_accepted s p = ag_started s p @ ag_queues s p"
    using inv by (auto simp: agent_inv_def)
  with inv q idle copies_cong [OF held] show ?thesis
    by (auto simp: agent_inv_def worker_take_def)
next
  case False
  then have "worker_take p s = s"
    by (auto simp: worker_take_def split: worker.splits list.splits)
  with inv show ?thesis by simp
qed

lemma receive_inv:
  assumes inv: "agent_inv s"
  shows "agent_inv (EnqueueReceived cached c1 c2 job s)"
proof -
  let ?id = "jc_id job" and ?p = "pipelineForAction (jc_action job)" and ?s = "EnqueueReceived cached c1 c2 job s"
  define dup where "dup \<longleftrightarrow> ?id \<noteq> [] \<and> ?id \<in> ag_jobIDs s"
  define put where "put \<longleftrightarrow> \<not> dup \<and> c1 = Proceed \<and> length (ag_queues s ?p) < QueueCapacity"
  have quiet: "ag_jobIDs ?s = ag_jobIDs s \<and> ag_queues ?s = ag_queues s \<and> ag_workers ?s = ag_workers s \<and>
      ag_accepted ?s = ag_accepted s \<and> ag_started ?s = ag_started s \<and> ag_done ?s = ag_done s" if "\<not> put"
    using that unfolding put_def dup_def
    by (cases c1) (auto simp: EnqueueReceived_def reserve_def Let_def split: option.splits)
  show ?thesis
  proof (cases put)
    case False
    with quiet show ?thesis by (intro agent_inv_cong [OF inv]) auto
  next
    case True
    then have s': "?s = s\<lparr>ag_jobIDs := (if ?id = [] then ag_jobIDs s else insert ?id (ag_jobIDs s)),
        ag_queues := (ag_queues s)(?p := ag_queues s ?p @ [job]),
        ag_accepted := (ag_accepted s)(?p := ag_accepted s ?p @ [job]), ag_pump := Acknowledging job\<rparr>"
      by (auto simp: put_def dup_def EnqueueReceived_def reserve_def Let_def)
    have "held ?s q = held s q" if "q \<noteq> ?p" for q using that by (simp add: s' held_def)
    moreover have "held ?s ?p = held s ?p @ [?id]" by (simp add: s' held_def split: worker.splits)
    ultimately have "copies ?s x = copies s x + (if x = ?id then 1 else 0)" for x
      using copies_lane [of ?p ?s s x] by (simp split: if_splits)
    with inv True show ?thesis
      unfolding s' agent_inv_def put_def dup_def by (auto split: if_splits)
  qed
qed

lemma acknowledge_inv: "agent_inv s \<Longrightarrow> select_ok c s \<Longrightarrow> agent_inv (acknowledge_received c s)"
proof (cases "ag_pump s")
  case (Acknowledging job)
  assume inv: "agent_inv s" and sel: "select_ok c s"
  show ?thesis
  proof (cases c)
    case TakeDone
    let ?s = "acknowledge_received c s"
    have s': "?s = (release (jc_id job) s)\<lparr>ag_pump := Receiving\<rparr>" using TakeDone Acknowledging
      by (simp add: acknowledge_received_def)
    have "held ?s = held s" by (rule held_cong) (simp_all add: s')
    then have "copies ?s x = copies s x" for x by (intro copies_cong) simp
    then have "copies ((release (jc_id job) s)\<lparr>ag_pump := Receiving\<rparr>) x = copies s x" for x by (simp only: s')
    with inv sel TakeDone show ?thesis unfolding s' by (auto simp: agent_inv_def select_ok_def)
  next
    case Proceed
    with Acknowledging show ?thesis
      by (intro agent_inv_cong [OF inv]) (simp_all add: acknowledge_received_def)
  qed
qed (simp add: acknowledge_received_def)

text \<open>The teardown leaves no reservation behind.\<close>

lemma fold_release: "ag_jobIDs (fold (\<lambda>job. release (jc_id job)) js s) =
    ag_jobIDs s - {x. x \<noteq> [] \<and> x \<in> jc_id ` set js}"
  by (induction js arbitrary: s) auto

lemma drain_fields:
  "ag_jobIDs (drainQueue p s) = ag_jobIDs s - {x. x \<noteq> [] \<and> x \<in> jc_id ` set (ag_queues s p)}"
  "ag_queues (drainQueue p s) = (ag_queues s)(p := [])"
  by (simp_all add: drainQueue_def fold_release)

lemma ReleaseQueued_jobIDs:
  "ag_jobIDs (ReleaseQueued order s) =
     ag_jobIDs s - {x. x \<noteq> [] \<and> (\<exists>p \<in> set order. x \<in> jc_id ` set (ag_queues s p))}"
  unfolding ReleaseQueued_def
proof (induction order arbitrary: s)
  case (Cons p ps)
  have "x \<in> jc_id ` set (ag_queues s p) \<or> (\<exists>q \<in> set ps. x \<in> jc_id ` set (((ag_queues s)(p := [])) q)) \<longleftrightarrow>
      (\<exists>q \<in> set (p # ps). x \<in> jc_id ` set (ag_queues s q))" for x
    by (cases "x \<in> jc_id ` set (ag_queues s p)") (auto 0 3)
  then have "{x. x \<noteq> [] \<and> x \<in> jc_id ` set (ag_queues s p)} \<union>
      {x. x \<noteq> [] \<and> (\<exists>q \<in> set ps. x \<in> jc_id ` set (((ag_queues s)(p := [])) q))} =
    {x. x \<noteq> [] \<and> (\<exists>q \<in> set (p # ps). x \<in> jc_id ` set (ag_queues s q))}" by blast
  moreover have "A - B - C = A - (B \<union> C)" for A B C :: "string set" by blast
  ultimately show ?case unfolding fold_simps Cons drain_fields by simp
qed simp

lemma teardown_empty:
  assumes inv: "agent_inv s" and "\<forall>p. ag_workers s p = Exited" and "set order = UNIV"
  shows "ag_jobIDs (ReleaseQueued order s) = {}"
proof -
  have "x \<noteq> [] \<and> (\<exists>p. x \<in> jc_id ` set (ag_queues s p))" if "x \<in> ag_jobIDs s" for x
  proof -
    have "0 < copies s x" "x \<noteq> []" using inv that by (auto simp: agent_inv_def)
    then obtain p where "0 < count_list (held s p) x" by (auto simp: copies_def split: if_splits)
    then have "x \<in> set (held s p)" using count_list_0_iff [of "held s p" x] by simp
    with assms(2) \<open>x \<noteq> []\<close> show ?thesis by (auto simp: held_def)
  qed
  then show ?thesis using assms(3) by (auto simp: ReleaseQueued_jobIDs)
qed

lemma connect_inv: "agent_inv (connect {})"
  by (simp add: agent_inv_def connect_def copies_def held_def)

lemma worker_exit_inv:
  assumes inv: "agent_inv s"
  shows "agent_inv (worker_exit p s)"
proof (cases "ag_workers s p = Idle")
  case True
  have "held (worker_exit p s) q = held s q" for q using True by (simp add: worker_exit_def held_def)
  then have "copies (s\<lparr>ag_workers := (ag_workers s)(p := Exited)\<rparr>) x = copies s x" for x
    using True copies_cong [of "worker_exit p s" s] by (simp add: worker_exit_def)
  with inv True show ?thesis by (simp add: agent_inv_def worker_exit_def)
qed (simp add: worker_exit_def inv)

lemma agent_step_inv:
  assumes "agent_step s s'" and "agent_inv s"
  shows "agent_inv s'"
  using assms(1)
proof cases
  case (teardown order)
  then show ?thesis using teardown_empty [OF assms(2)] connect_inv by metis
next
  case cancel
  then show ?thesis by (intro agent_inv_cong [OF assms(2)]) simp_all
qed (use assms(2) in \<open>auto intro: receive_inv acknowledge_inv worker_take_inv worker_finish_inv worker_exit_inv\<close>)

lemma agent_reachable_inv: "agent_reachable s \<Longrightarrow> agent_inv s"
  by (induction rule: agent_reachable.induct) (auto simp: connect_inv intro: agent_step_inv)

subsection \<open>Properties\<close>


definition demo_command :: job_command where
  "demo_command = \<lparr>jc_id = ''job-1'', jc_action = ''client.update'', jc_payload = []\<rparr>"

definition demo_queued :: agent_state where
  "demo_queued = EnqueueReceived None Proceed Proceed demo_command (connect {})"

lemma demo_queued_reachable: "agent_reachable demo_queued"
  unfolding demo_queued_def
  by (rule agent_reachable.step [OF agent_reachable.start], rule agent_step.receive)
    (simp_all add: connect_def select_ok_def)

lemma demo_queued_fields:
  "ag_jobIDs demo_queued = {''job-1''}" "\<not> ag_done demo_queued" "ag_pump demo_queued = Acknowledging demo_command"
  "ag_queues demo_queued PipelineClientMutation = [demo_command]" "ag_workers demo_queued = (\<lambda>_. Idle)"
  by (simp_all add: demo_queued_def EnqueueReceived_def reserve_def connect_def demo_command_def Let_def
      QueueCapacity_def pipelineForAction_def)



definition demo_down :: agent_state where
  "demo_down = worker_exit PipelineDefault (worker_exit PipelineClientMutation (worker_exit PipelineRuntimeReload
     (demo_queued\<lparr>ag_done := True\<rparr>)))"


text \<open>
  Each lane starts its jobs in the order in which the pump accepted them, and its queue
  never exceeds its capacity, so a newer client mutation cannot overtake an older one.
\<close>

theorem lanes_are_ordered:
  assumes "agent_reachable s"
  shows "ag_accepted s p = ag_started s p @ ag_queues s p \<and> length (ag_queues s p) \<le> 16"
  using agent_reachable_inv [OF assms] by (simp add: agent_inv_def QueueCapacity_def)

theorem lanes_are_ordered_witness:
  "ag_accepted demo_queued PipelineClientMutation = ag_started demo_queued PipelineClientMutation @ [demo_command]"
  using lanes_are_ordered [OF demo_queued_reachable, of PipelineClientMutation] by (simp add: demo_queued_fields)

end
