(* ===== verification/Event_Hub.thy ===== *)
theory Event_Hub
  imports Panvex_Prelude
begin

section \<open>The event hub (internal/controlplane/eventbus/hub.go)\<close>

text \<open>
  An in-process broadcast hub. \<^verbatim>\<open>Publish\<close> numbers the event, loads the subscriber snapshot and
  then visits its subscribers one after the other, each under that subscriber's own lock;
  \<^verbatim>\<open>Subscribe\<close> and the cancel function replace the snapshot. None of this is atomic as a whole,
  so the operations are cut at their synchronisation points and composed into \<open>hub_step\<close>. A
  panic of the runtime (a send on a closed channel, a second close) is the flag
  \<open>hb_panicked\<close>. The payload of an event plays no role and is left out; its number stands for
  it.
\<close>

subsection \<open>State\<close>

record subscriber_channel =
  sc_buffer :: "uint64 list"
  sc_chanClosed :: bool
  sc_closed :: bool

text \<open>
  A publisher is one of two kinds: its number is in \<open>hb_claimed\<close> until it has loaded the
  snapshot, and then it is an entry of \<open>hb_sending\<close> with the drop hook it loaded and the
  subscribers it still has to visit. The loads of the snapshot and of the hook are one step,
  since nothing that happens between them looks at both. \<open>hb_closing\<close> is the cancel that holds
  the mutex between replacing the snapshot and closing the channel.

  The last four fields record the run for the statements below and no operation reads them: what
  each consumer has read, what was dropped for it, the number of the last event before it
  subscribed, and whether the runtime has panicked.
\<close>

record hub =
  hb_subs :: "uint64 list"
  hb_pubSeq :: uint64
  hb_sequence :: uint64
  hb_channels :: "uint64 \<rightharpoonup> subscriber_channel"
  hb_onDrop :: bool
  hb_hookCalls :: nat
  hb_claimed :: "uint64 list"
  hb_sending :: "(uint64 \<times> bool \<times> uint64 list) list"
  hb_closing :: "uint64 option"
  hb_received :: "uint64 \<Rightarrow> uint64 list"
  hb_dropped :: "uint64 \<Rightarrow> uint64 list"
  hb_since :: "uint64 \<Rightarrow> uint64"
  hb_panicked :: bool

definition memorySubscriberBuffer :: nat where
  "memorySubscriberBuffer = 64"

definition NewHub :: hub where
  "NewHub =
     \<lparr>hb_subs = [], hb_pubSeq = 0, hb_sequence = 0, hb_channels = Map.empty, hb_onDrop = False,
      hb_hookCalls = 0, hb_claimed = [], hb_sending = [], hb_closing = None,
      hb_received = (\<lambda>_. []), hb_dropped = (\<lambda>_. []), hb_since = (\<lambda>_. 0), hb_panicked = False\<rparr>"

definition SubscriberCount :: "hub \<Rightarrow> nat" where
  "SubscriberCount h = length (hb_subs h)"

definition SetDropHook :: "bool \<Rightarrow> hub \<Rightarrow> hub" where
  "SetDropHook fn h = h\<lparr>hb_onDrop := fn\<rparr>"

subsection \<open>Subscribing and cancelling\<close>

definition Subscribe :: "hub \<Rightarrow> uint64 \<times> hub" where
  "Subscribe h =
     (let i = hb_sequence h + 1;
          ch = \<lparr>sc_buffer = [], sc_chanClosed = False, sc_closed = False\<rparr>
      in (i, h\<lparr>hb_sequence := i, hb_subs := hb_subs h @ [i],
               hb_channels := (hb_channels h)(i \<mapsto> ch),
               hb_since := (hb_since h)(i := hb_pubSeq h)\<rparr>))"

text \<open>
  The cancel function in its two parts: the new snapshot, unless the subscriber is no longer in
  the old one, and then the close under the subscriber's own lock.
\<close>

definition cancel_unlink :: "uint64 \<Rightarrow> hub \<Rightarrow> hub" where
  "cancel_unlink i h =
     (if i \<in> set (hb_subs h)
      then h\<lparr>hb_subs := filter (\<lambda>j. j \<noteq> i) (hb_subs h), hb_closing := Some i\<rparr>
      else h)"

definition cancel_close :: "uint64 \<Rightarrow> hub \<Rightarrow> hub" where
  "cancel_close i h =
     (case hb_channels h i of
        None \<Rightarrow> h\<lparr>hb_closing := None\<rparr>
      | Some c \<Rightarrow>
          if sc_chanClosed c then h\<lparr>hb_panicked := True\<rparr>
          else h\<lparr>hb_closing := None,
                 hb_channels := (hb_channels h)(i \<mapsto> c\<lparr>sc_closed := True, sc_chanClosed := True\<rparr>)\<rparr>)"

subsection \<open>Publishing\<close>

definition publish_claim :: "hub \<Rightarrow> hub" where
  "publish_claim h =
     h\<lparr>hb_pubSeq := hb_pubSeq h + 1, hb_claimed := (hb_pubSeq h + 1) # hb_claimed h\<rparr>"

definition publish_load :: "uint64 \<Rightarrow> hub \<Rightarrow> hub" where
  "publish_load n h =
     h\<lparr>hb_claimed := remove1 n (hb_claimed h),
       hb_sending := (if hb_subs h = [] then hb_sending h
                      else (n, hb_onDrop h, hb_subs h) # hb_sending h)\<rparr>"

definition send_channel :: "uint64 \<Rightarrow> bool \<Rightarrow> uint64 \<Rightarrow> hub \<Rightarrow> hub" where
  "send_channel n hook i h =
     (case hb_channels h i of
        None \<Rightarrow> h
      | Some c \<Rightarrow>
          if sc_closed c then h
          else if sc_chanClosed c then h\<lparr>hb_panicked := True\<rparr>
          else if length (sc_buffer c) < memorySubscriberBuffer
            then h\<lparr>hb_channels := (hb_channels h)(i \<mapsto> c\<lparr>sc_buffer := sc_buffer c @ [n]\<rparr>)\<rparr>
          else h\<lparr>hb_dropped := (hb_dropped h)(i := hb_dropped h i @ [n]),
                 hb_hookCalls := (if hook then Suc (hb_hookCalls h) else hb_hookCalls h)\<rparr>)"

definition publish_send :: "uint64 \<Rightarrow> bool \<Rightarrow> uint64 \<Rightarrow> uint64 list \<Rightarrow> hub \<Rightarrow> hub" where
  "publish_send n hook i rest h =
     send_channel n hook i
       (h\<lparr>hb_sending := (let others = remove1 (n, hook, i # rest) (hb_sending h)
                         in if rest = [] then others else (n, hook, rest) # others)\<rparr>)"

text \<open>A consumer reads one event from its channel.\<close>

definition receive_event :: "uint64 \<Rightarrow> hub \<Rightarrow> hub" where
  "receive_event i h =
     (case hb_channels h i of
        Some c \<Rightarrow> (case sc_buffer c of
            [] \<Rightarrow> h
          | n # ns \<Rightarrow> h\<lparr>hb_channels := (hb_channels h)(i \<mapsto> c\<lparr>sc_buffer := ns\<rparr>),
                         hb_received := (hb_received h)(i := hb_received h i @ [n])\<rparr>)
      | None \<Rightarrow> h)"

text \<open>One publish without interference: number, snapshot, hook, and the loop over the subscribers.\<close>

definition Publish :: "hub \<Rightarrow> hub" where
  "Publish h =
     (let h1 = h\<lparr>hb_pubSeq := hb_pubSeq h + 1\<rparr>
      in fold (send_channel (hb_pubSeq h1) (hb_onDrop h1)) (hb_subs h1) h1)"

subsection \<open>Steps\<close>

text \<open>
  \<^verbatim>\<open>Subscribe\<close> and the first part of a cancel wait for the mutex; \<^verbatim>\<open>SetDropHook\<close>, the publishers and
  the consumers do not. The counters do not wrap: a run has fewer than \<open>2 ^ 64\<close> publishes and
  subscriptions.
\<close>

inductive hub_step :: "hub \<Rightarrow> hub \<Rightarrow> bool" where
  subscribe: "hb_closing h = None \<Longrightarrow> hb_sequence h \<noteq> - 1 \<Longrightarrow> hub_step h (snd (Subscribe h))"
| unlink: "hb_closing h = None \<Longrightarrow> hub_step h (cancel_unlink i h)"
| close: "hb_closing h = Some i \<Longrightarrow> hub_step h (cancel_close i h)"
| hook: "hub_step h (SetDropHook fn h)"
| claim: "hb_pubSeq h \<noteq> - 1 \<Longrightarrow> hub_step h (publish_claim h)"
| load: "n \<in> set (hb_claimed h) \<Longrightarrow> hub_step h (publish_load n h)"
| send: "(n, f, i # rest) \<in> set (hb_sending h) \<Longrightarrow> hub_step h (publish_send n f i rest h)"
| consume: "hub_step h (receive_event i h)"

inductive hub_reachable :: "hub \<Rightarrow> bool" where
  start: "hub_reachable NewHub"
| step: "hub_reachable h \<Longrightarrow> hub_step h h' \<Longrightarrow> hub_reachable h'"

subsection \<open>Invariant\<close>

text \<open>What subscriber \<open>i\<close> has been given: what it has read and what waits in its channel.\<close>

definition delivered :: "hub \<Rightarrow> uint64 \<Rightarrow> uint64 list" where
  "delivered h i = hb_received h i @ (case hb_channels h i of None \<Rightarrow> [] | Some c \<Rightarrow> sc_buffer c)"

definition unsent :: "hub \<Rightarrow> uint64 \<Rightarrow> uint64 set" where
  "unsent h i = set (hb_claimed h) \<union> {n. \<exists>f rest. (n, f, rest) \<in> set (hb_sending h) \<and> i \<in> set rest}"

text \<open>
  The part about the channels: flag and channel agree, no buffer is over its capacity, every
  subscriber of the snapshot is open, the one being closed is not closed yet, and numbers that
  have not been handed out are used nowhere.
\<close>

definition channels_ok :: "hub \<Rightarrow> bool" where
  "channels_ok h \<longleftrightarrow>
     \<not> hb_panicked h \<and> distinct (hb_subs h) \<and>
     (\<forall>i c. hb_channels h i = Some c \<longrightarrow>
        sc_chanClosed c = sc_closed c \<and> length (sc_buffer c) \<le> memorySubscriberBuffer) \<and>
     (\<forall>i \<in> set (hb_subs h) \<union> set_option (hb_closing h).
        \<exists>c. hb_channels h i = Some c \<and> \<not> sc_closed c) \<and>
     (\<forall>i. hb_closing h = Some i \<longrightarrow> i \<notin> set (hb_subs h)) \<and>
     (\<forall>i > hb_sequence h. hb_channels h i = None \<and> hb_received h i = [] \<and>
        (\<forall>(n, f, rest) \<in> set (hb_sending h). i \<notin> set rest))"

text \<open>
  The part about the event numbers: an event in flight is nowhere twice, and a number is at most
  once in what a subscriber was given, lost or may still be given.
\<close>

definition numbers_ok :: "hub \<Rightarrow> bool" where
  "numbers_ok h \<longleftrightarrow>
     distinct (hb_claimed h @ map fst (hb_sending h)) \<and>
     (\<forall>n \<in> set (hb_claimed h @ map fst (hb_sending h)). n \<le> hb_pubSeq h) \<and>
     (\<forall>(n, f, rest) \<in> set (hb_sending h). distinct rest) \<and>
     (\<forall>i. distinct (delivered h i) \<and> (\<forall>n \<in> set (delivered h i). n \<le> hb_pubSeq h \<and> n \<notin> unsent h i))"

text \<open>Every event since the subscription is accounted for.\<close>

definition accounted :: "hub \<Rightarrow> bool" where
  "accounted h \<longleftrightarrow>
     (\<forall>i \<in> set (hb_subs h). hb_since h i \<le> hb_pubSeq h \<and>
        (\<forall>n. hb_since h i < n \<and> n \<le> hb_pubSeq h \<longrightarrow>
           n \<in> set (delivered h i) \<union> set (hb_dropped h i) \<union> unsent h i))"

definition hub_inv :: "hub \<Rightarrow> bool" where
  "hub_inv h \<longleftrightarrow> channels_ok h \<and> numbers_ok h \<and> accounted h"

subsection \<open>What the steps change\<close>

lemma delivered_frame [simp]:
  "delivered (h\<lparr>hb_claimed := cl\<rparr>) = delivered h"
  "delivered (h\<lparr>hb_sending := sd\<rparr>) = delivered h"
  "delivered (h\<lparr>hb_pubSeq := k\<rparr>) = delivered h"
  "delivered (SetDropHook fn h) = delivered h"
  "delivered (cancel_unlink j h) = delivered h"
  "delivered (publish_claim h) = delivered h"
  "delivered (publish_load n h) = delivered h"
  by (auto simp: delivered_def fun_eq_iff SetDropHook_def cancel_unlink_def publish_claim_def publish_load_def)

lemma delivered_receive [simp]: "delivered (receive_event j h) = delivered h"
  by (auto simp: delivered_def fun_eq_iff receive_event_def split: option.splits list.splits)

lemma delivered_close [simp]: "delivered (cancel_close j h) = delivered h"
  by (auto simp: delivered_def fun_eq_iff cancel_close_def split: option.splits)

lemma unsent_frame [simp]:
  "unsent (SetDropHook fn h) = unsent h"
  "unsent (cancel_unlink j h) = unsent h"
  "unsent (cancel_close j h) = unsent h"
  "unsent (receive_event j h) = unsent h"
  "unsent (send_channel n f j h) = unsent h"
  by (auto simp: unsent_def fun_eq_iff SetDropHook_def cancel_unlink_def cancel_close_def
      receive_event_def send_channel_def split: option.splits list.splits)

lemma channels_okD:
  assumes "channels_ok h"
  shows "\<not> hb_panicked h" and "distinct (hb_subs h)"
    and "hb_channels h i = Some c \<Longrightarrow> sc_chanClosed c = sc_closed c"
    and "hb_channels h i = Some c \<Longrightarrow> length (sc_buffer c) \<le> memorySubscriberBuffer"
    and "i \<in> set (hb_subs h) \<Longrightarrow> \<exists>c. hb_channels h i = Some c \<and> \<not> sc_closed c"
    and "hb_closing h = Some i \<Longrightarrow> \<exists>c. hb_channels h i = Some c \<and> \<not> sc_closed c"
    and "hb_sequence h < i \<Longrightarrow> hb_channels h i = None"
    and "hb_sequence h < i \<Longrightarrow> hb_received h i = []"
    and "hb_sequence h < i \<Longrightarrow> (n, f, rest) \<in> set (hb_sending h) \<Longrightarrow> i \<notin> set rest"
  using assms unfolding channels_ok_def by (auto; fastforce)+

subsection \<open>The channels\<close>

lemma subscribe_channels:
  assumes ok: "channels_ok h" and idle: "hb_closing h = None" and room: "hb_sequence h \<noteq> - 1"
  shows "channels_ok (snd (Subscribe h))"
proof -
  have up: "hb_sequence h < hb_sequence h + 1"
    by (rule word_inc_greater [OF room])
  then have fresh: "hb_sequence h + 1 \<notin> set (hb_subs h)"
    using channels_okD(5,7) [OF ok] by fastforce
  have later: "hb_sequence h < i" if "hb_sequence h + 1 < i" for i
    using up that by (rule less_trans)
  show ?thesis
    using ok idle fresh later up
    unfolding channels_ok_def Subscribe_def by (auto simp: Let_def memorySubscriberBuffer_def) 
qed

lemma unlink_channels:
  "channels_ok h \<Longrightarrow> hb_closing h = None \<Longrightarrow> channels_ok (cancel_unlink i h)"
  unfolding channels_ok_def cancel_unlink_def by auto

lemma close_channels:
  assumes ok: "channels_ok h" and held: "hb_closing h = Some i"
  shows "channels_ok (cancel_close i h)"
proof -
  obtain c where c: "hb_channels h i = Some c" "\<not> sc_closed c"
    using channels_okD(6) [OF ok held] by blast
  moreover have "\<not> sc_chanClosed c"
    using channels_okD(3) [OF ok c(1)] c(2) by simp
  ultimately show ?thesis
    using ok held unfolding channels_ok_def cancel_close_def by (auto; metis option.distinct(1))
qed

text \<open>A send has three outcomes: nothing to do, the event is queued, or it is dropped.\<close>

lemma send_channel_cases:
  assumes "channels_ok h"
  obtains (closed) "send_channel n f i h = h" and "\<And>c. hb_channels h i = Some c \<Longrightarrow> sc_closed c"
  | (queued) c where "hb_channels h i = Some c" and "\<not> sc_closed c"
      and "length (sc_buffer c) < memorySubscriberBuffer"
      and "send_channel n f i h = h\<lparr>hb_channels := (hb_channels h)(i \<mapsto> c\<lparr>sc_buffer := sc_buffer c @ [n]\<rparr>)\<rparr>"
  | (dropped) c where "hb_channels h i = Some c" and "\<not> sc_closed c"
      and "memorySubscriberBuffer \<le> length (sc_buffer c)"
      and "send_channel n f i h = h\<lparr>hb_dropped := (hb_dropped h)(i := hb_dropped h i @ [n]),
             hb_hookCalls := (if f then Suc (hb_hookCalls h) else hb_hookCalls h)\<rparr>"
  using channels_okD(3) [OF assms, of i] unfolding send_channel_def
  by (cases "hb_channels h i") (auto split: if_splits, meson not_le)

lemma send_channel_channels:
  assumes ok: "channels_ok h"
  shows "channels_ok (send_channel n f i h)"
  using ok
proof (cases rule: send_channel_cases [where n = n and f = f and i = i])
  case closed
  with ok show ?thesis by simp
next
  case (queued c)
  with ok show ?thesis unfolding channels_ok_def by auto
next
  case (dropped c)
  with ok show ?thesis unfolding channels_ok_def by simp
qed

lemma receive_channels:
  assumes ok: "channels_ok h"
  shows "channels_ok (receive_event i h)"
proof (cases "\<exists>c n ns. hb_channels h i = Some c \<and> sc_buffer c = n # ns")
  case True
  then obtain c n ns where c: "hb_channels h i = Some c" "sc_buffer c = n # ns" by blast
  then have "\<not> hb_sequence h < i" and "length ns < memorySubscriberBuffer"
    using channels_okD(4,7) [OF ok, of i] by auto
  moreover have "\<not> sc_closed c" if "i \<in> set (hb_subs h) \<or> hb_closing h = Some i"
    using that channels_okD(5,6) [OF ok, of i] c by auto
  ultimately show ?thesis
    using ok c unfolding channels_ok_def receive_event_def by auto
next
  case False
  then have "receive_event i h = h"
    by (auto simp: receive_event_def split: option.splits list.splits)
  with ok show ?thesis by simp
qed

lemma sending_channels:
  assumes ok: "channels_ok h"
    and sub: "\<And>n f rest j. (n, f, rest) \<in> set sd \<Longrightarrow> j \<in> set rest \<Longrightarrow>
      \<exists>n' f' rest'. (n', f', rest') \<in> set (hb_sending h) \<and> j \<in> set rest' \<or> j \<in> set (hb_subs h)"
  shows "channels_ok (h\<lparr>hb_sending := sd\<rparr>)"
proof -
  have "j \<notin> set rest" if "hb_sequence h < j" and "(n, f, rest) \<in> set sd" for j n f rest
  proof
    assume "j \<in> set rest"
    with sub that(2) consider n' f' rest' where "(n', f', rest') \<in> set (hb_sending h)" "j \<in> set rest'"
      | "j \<in> set (hb_subs h)" by blast
    then show False
      using channels_okD(5,7,9) [OF ok, of j] that(1) by cases auto
  qed
  with ok show ?thesis unfolding channels_ok_def by auto
qed

definition after_send :: "uint64 \<Rightarrow> bool \<Rightarrow> uint64 \<Rightarrow> uint64 list \<Rightarrow> hub \<Rightarrow> (uint64 \<times> bool \<times> uint64 list) list" where
  "after_send n f i rest h =
     (let others = remove1 (n, f, i # rest) (hb_sending h) in if rest = [] then others else (n, f, rest) # others)"

lemma publish_send_eq:
  "publish_send n f i rest h = send_channel n f i (h\<lparr>hb_sending := after_send n f i rest h\<rparr>)"
  by (simp add: publish_send_def after_send_def)

lemma after_send_set:
  "(m, g, xs) \<in> set (after_send n f i rest h) \<Longrightarrow>
     (m, g, xs) \<in> set (hb_sending h) \<or> (m, g, xs) = (n, f, rest)"
  by (auto simp: after_send_def Let_def split: if_splits dest: notin_set_remove1)

lemma publish_send_channels:
  assumes ok: "channels_ok h" and at: "(n, f, i # rest) \<in> set (hb_sending h)"
  shows "channels_ok (publish_send n f i rest h)"
  unfolding publish_send_eq
proof (rule send_channel_channels, rule sending_channels [OF ok])
  fix m g xs j assume "(m, g, xs) \<in> set (after_send n f i rest h)" and "j \<in> set xs"
  with at show "\<exists>n' f' rest'. (n', f', rest') \<in> set (hb_sending h) \<and> j \<in> set rest' \<or> j \<in> set (hb_subs h)"
    by (metis after_send_set list.set_intros(2) prod.inject)
qed

lemma load_channels:
  assumes "channels_ok h"
  shows "channels_ok (publish_load n h)"
proof -
  have "channels_ok (h\<lparr>hb_sending := hb_sending (publish_load n h)\<rparr>)"
    by (rule sending_channels [OF assms]) (auto simp: publish_load_def split: if_splits)
  then show ?thesis
    unfolding channels_ok_def publish_load_def by simp
qed

lemma step_channels:
  assumes "hub_step h h'" and "channels_ok h"
  shows "channels_ok h'"
  using assms
proof cases
  case (hook fn)
  with assms(2) show ?thesis by (simp add: channels_ok_def SetDropHook_def)
next
  case claim
  with assms(2) show ?thesis by (simp add: channels_ok_def publish_claim_def)
qed (auto intro: subscribe_channels unlink_channels close_channels load_channels
    publish_send_channels receive_channels)

subsection \<open>The numbers\<close>

lemma numbers_okD:
  assumes "numbers_ok h"
  shows "distinct (hb_claimed h @ map fst (hb_sending h))"
    and "n \<in> set (hb_claimed h) \<Longrightarrow> n \<le> hb_pubSeq h"
    and "(n, f, rest) \<in> set (hb_sending h) \<Longrightarrow> n \<le> hb_pubSeq h"
    and "(n, f, rest) \<in> set (hb_sending h) \<Longrightarrow> distinct rest"
    and "distinct (delivered h i)"
    and "n \<in> set (delivered h i) \<Longrightarrow> n \<le> hb_pubSeq h"
    and "n \<in> set (delivered h i) \<Longrightarrow> n \<notin> unsent h i"
proof -
  note parts = assms [unfolded numbers_ok_def]
  show "distinct (hb_claimed h @ map fst (hb_sending h))" using parts by blast
  show "n \<in> set (hb_claimed h) \<Longrightarrow> n \<le> hb_pubSeq h" using parts by simp
  show "(n, f, rest) \<in> set (hb_sending h) \<Longrightarrow> n \<le> hb_pubSeq h" using parts by force
  show "(n, f, rest) \<in> set (hb_sending h) \<Longrightarrow> distinct rest" using parts by blast
  show "distinct (delivered h i)" using parts by blast
  show "n \<in> set (delivered h i) \<Longrightarrow> n \<le> hb_pubSeq h" using parts by blast
  show "n \<in> set (delivered h i) \<Longrightarrow> n \<notin> unsent h i" using parts by blast
qed

lemma delivered_subscribe:
  assumes "channels_ok h" and "hb_sequence h \<noteq> - 1"
  shows "delivered (snd (Subscribe h)) = delivered h"
  using channels_okD(7,8) [OF assms(1) word_inc_greater [OF assms(2)]]
  by (auto simp: delivered_def Subscribe_def Let_def fun_eq_iff)

lemma unsent_subscribe [simp]: "unsent (snd (Subscribe h)) = unsent h"
  by (auto simp: unsent_def Subscribe_def Let_def fun_eq_iff)

lemma unsent_claim [simp]: "unsent (publish_claim h) i = insert (hb_pubSeq h + 1) (unsent h i)"
  by (auto simp: unsent_def publish_claim_def)

lemma unsent_load:
  assumes "distinct (hb_claimed h)" and "n \<in> set (hb_claimed h)"
  shows "unsent (publish_load n h) i \<subseteq> unsent h i"
    and "i \<in> set (hb_subs h) \<Longrightarrow> unsent (publish_load n h) i = unsent h i"
  using assms by (auto simp: unsent_def publish_load_def set_remove1_eq)

lemma claim_numbers:
  assumes ok: "numbers_ok h" and room: "hb_pubSeq h \<noteq> - 1"
  shows "numbers_ok (publish_claim h)"
proof -
  note up = word_inc_greater [OF room] and le = word_le_inc_iff [OF room]
  have new: "hb_pubSeq h + 1 \<notin> set (hb_claimed h @ map fst (hb_sending h))"
    "hb_pubSeq h + 1 \<notin> set (delivered h i)" for i
    using ok up unfolding numbers_ok_def by (auto simp: not_le [symmetric])
  have "distinct (hb_claimed (publish_claim h) @ map fst (hb_sending (publish_claim h)))"
    using new numbers_okD(1) [OF ok] by (simp add: publish_claim_def)
  moreover have "\<forall>n \<in> set (hb_claimed (publish_claim h) @ map fst (hb_sending (publish_claim h))).
      n \<le> hb_pubSeq (publish_claim h)"
    using ok by (auto simp: numbers_ok_def publish_claim_def le)
  moreover have "\<forall>(n, f, rest) \<in> set (hb_sending (publish_claim h)). distinct rest"
    using ok by (simp add: numbers_ok_def publish_claim_def)
  moreover have "distinct (delivered h i) \<and> (\<forall>n \<in> set (delivered h i).
      n \<le> hb_pubSeq (publish_claim h) \<and> n \<notin> unsent (publish_claim h) i)" for i
    using numbers_okD(5-7) [OF ok] new by (auto simp: publish_claim_def le unsent_claim [unfolded publish_claim_def])
  ultimately show ?thesis
    unfolding numbers_ok_def by simp
qed

lemma load_numbers:
  assumes ok: "numbers_ok h" and subs: "distinct (hb_subs h)" and at: "n \<in> set (hb_claimed h)"
  shows "numbers_ok (publish_load n h)"
proof -
  have d: "distinct (hb_claimed h)" using numbers_okD(1) [OF ok] by simp
  have "distinct (hb_claimed (publish_load n h) @ map fst (hb_sending (publish_load n h)))"
    using numbers_okD(1) [OF ok] at by (auto simp: publish_load_def)
  moreover have "\<forall>m \<in> set (hb_claimed (publish_load n h) @ map fst (hb_sending (publish_load n h))).
      m \<le> hb_pubSeq (publish_load n h)"
    using ok at d by (auto simp: numbers_ok_def publish_load_def)
  moreover have "\<forall>(m, f, rest) \<in> set (hb_sending (publish_load n h)). distinct rest"
    using ok subs by (auto simp: numbers_ok_def publish_load_def)
  moreover have "distinct (delivered h i) \<and> (\<forall>m \<in> set (delivered h i).
      m \<le> hb_pubSeq (publish_load n h) \<and> m \<notin> unsent (publish_load n h) i)" for i
    using numbers_okD(5-7) [OF ok] unsent_load(1) [OF d at, of i] by (auto simp: publish_load_def)
  ultimately show ?thesis
    unfolding numbers_ok_def by simp
qed

text \<open>After its visit of \<open>i\<close> a publisher owes \<open>i\<close> nothing, and the others what it owed before.\<close>

lemma unsent_after_send:
  assumes ok: "numbers_ok h" and at: "(n, f, i # rest) \<in> set (hb_sending h)"
  defines "h1 \<equiv> h\<lparr>hb_sending := after_send n f i rest h\<rparr>"
  shows "unsent h1 j = (if j = i then unsent h j - {n} else unsent h j)"
proof -
  have keys: "distinct (map fst (hb_sending h))"
    using numbers_okD(1) [OF ok] by simp
  have "n \<notin> set (hb_claimed h)" and "i \<notin> set rest"
    using numbers_okD(1) [OF ok] numbers_okD(4) [OF ok at] at by (auto simp: rev_image_eqI)
  have one: "(n, g, xs) \<in> set (hb_sending h) \<longleftrightarrow> g = f \<and> xs = i # rest" for g xs
    using at eq_key_imp_eq_value [OF keys at] by blast
  have d: "distinct (hb_sending h)" using keys by (simp add: distinct_map)
  have mem: "(m, g, xs) \<in> set (after_send n f i rest h) \<longleftrightarrow>
      (m \<noteq> n \<and> (m, g, xs) \<in> set (hb_sending h)) \<or> (rest \<noteq> [] \<and> (m, g, xs) = (n, f, rest))" for m g xs
    unfolding after_send_def Let_def using one d by (cases "m = n") auto
  have "m \<in> unsent h1 j \<longleftrightarrow> m \<in> unsent h j \<and> (j = i \<longrightarrow> m \<noteq> n)" for m
  proof (cases "m = n")
    case True
    with mem one \<open>n \<notin> set (hb_claimed h)\<close> \<open>i \<notin> set rest\<close> show ?thesis
      unfolding h1_def unsent_def by auto
  next
    case False
    with mem show ?thesis unfolding h1_def unsent_def by auto
  qed
  then show ?thesis by auto
qed

lemma after_send_keys:
  assumes d: "distinct (map fst (hb_sending h))" and at: "(n, f, i # rest) \<in> set (hb_sending h)"
  shows "distinct (map fst (after_send n f i rest h))"
    and "set (map fst (after_send n f i rest h)) \<subseteq> set (map fst (hb_sending h))"
proof -
  obtain us vs where split: "hb_sending h = us @ (n, f, i # rest) # vs" "(n, f, i # rest) \<notin> set us"
    using at by (meson split_list_first)
  then have "remove1 (n, f, i # rest) (hb_sending h) = us @ vs"
    by (simp add: remove1_append)
  with split d show "distinct (map fst (after_send n f i rest h))"
    and "set (map fst (after_send n f i rest h)) \<subseteq> set (map fst (hb_sending h))"
    by (auto simp: after_send_def Let_def)
qed

lemma sending_numbers:
  assumes ok: "numbers_ok h" and at: "(n, f, i # rest) \<in> set (hb_sending h)"
  shows "numbers_ok (h\<lparr>hb_sending := after_send n f i rest h\<rparr>)"
proof -
  let ?h = "h\<lparr>hb_sending := after_send n f i rest h\<rparr>"
  have keys: "distinct (map fst (hb_sending h))" and apart: "set (hb_claimed h) \<inter> fst ` set (hb_sending h) = {}"
    using numbers_okD(1) [OF ok] by auto
  note kept = after_send_keys [OF keys at]
  have "distinct (hb_claimed ?h @ map fst (hb_sending ?h))"
    using numbers_okD(1) [OF ok] kept apart by auto
  moreover have "\<forall>m \<in> set (hb_claimed ?h @ map fst (hb_sending ?h)). m \<le> hb_pubSeq ?h"
    using ok kept(2) unfolding numbers_ok_def by auto
  moreover have "\<forall>(m, g, xs) \<in> set (hb_sending ?h). distinct xs"
    using numbers_okD(4) [OF ok] numbers_okD(4) [OF ok at] by (auto dest!: after_send_set)
  moreover have "distinct (delivered h j) \<and>
      (\<forall>m \<in> set (delivered h j). m \<le> hb_pubSeq ?h \<and> m \<notin> unsent ?h j)" for j
    using numbers_okD(5-7) [OF ok] unsent_after_send [OF ok at, of j] by auto
  ultimately show ?thesis
    unfolding numbers_ok_def by simp
qed

lemma send_channel_numbers:
  assumes chan: "channels_ok h" and ok: "numbers_ok h"
    and new: "n \<notin> unsent h i" "n \<notin> set (delivered h i)" "n \<le> hb_pubSeq h"
  shows "numbers_ok (send_channel n f i h)"
  using chan
proof (cases rule: send_channel_cases [where n = n and f = f and i = i])
  case closed
  with ok show ?thesis by simp
next
  case (queued c)
  have d: "delivered (send_channel n f i h) j = (if j = i then delivered h i @ [n] else delivered h j)" for j
    using queued by (simp add: delivered_def)
  have "distinct (delivered (send_channel n f i h) j) \<and> (\<forall>m \<in> set (delivered (send_channel n f i h) j).
      m \<le> hb_pubSeq h \<and> m \<notin> unsent h j)" for j
    using numbers_okD(5-7) [OF ok] new by (auto simp: d)
  moreover have "hb_claimed (send_channel n f i h) = hb_claimed h"
    "hb_sending (send_channel n f i h) = hb_sending h" "hb_pubSeq (send_channel n f i h) = hb_pubSeq h"
    using queued by simp_all
  ultimately show ?thesis
    using ok unfolding numbers_ok_def unsent_frame by presburger
next
  case (dropped c)
  then have "delivered (send_channel n f i h) = delivered h"
    by (simp add: delivered_def fun_eq_iff)
  moreover have "hb_claimed (send_channel n f i h) = hb_claimed h"
    "hb_sending (send_channel n f i h) = hb_sending h" "hb_pubSeq (send_channel n f i h) = hb_pubSeq h"
    using dropped by simp_all
  ultimately show ?thesis
    using ok unfolding numbers_ok_def unsent_frame by presburger
qed

lemma publish_send_numbers:
  assumes chan: "channels_ok h" and ok: "numbers_ok h" and at: "(n, f, i # rest) \<in> set (hb_sending h)"
  shows "numbers_ok (publish_send n f i rest h)"
  unfolding publish_send_eq
proof (rule send_channel_numbers)
  show "channels_ok (h\<lparr>hb_sending := after_send n f i rest h\<rparr>)"
    by (rule sending_channels [OF chan]) (use at in \<open>metis after_send_set list.set_intros(2) prod.inject\<close>)
  show "numbers_ok (h\<lparr>hb_sending := after_send n f i rest h\<rparr>)"
    by (rule sending_numbers [OF ok at])
  show "n \<notin> unsent (h\<lparr>hb_sending := after_send n f i rest h\<rparr>) i"
    using unsent_after_send [OF ok at, of i] by simp
  have "n \<in> unsent h i" using at by (force simp: unsent_def)
  then show "n \<notin> set (delivered (h\<lparr>hb_sending := after_send n f i rest h\<rparr>) i)"
    using numbers_okD(7) [OF ok] by auto
  show "n \<le> hb_pubSeq (h\<lparr>hb_sending := after_send n f i rest h\<rparr>)"
    using numbers_okD(3) [OF ok at] by simp
qed

lemma numbers_frame:
  assumes "numbers_ok h" and "hb_claimed h' = hb_claimed h" and "hb_sending h' = hb_sending h"
    and "hb_pubSeq h' = hb_pubSeq h" and "delivered h' = delivered h" and "unsent h' = unsent h"
  shows "numbers_ok h'"
  using assms unfolding numbers_ok_def by presburger

lemma step_numbers:
  assumes "hub_step h h'" and "channels_ok h" and "numbers_ok h"
  shows "numbers_ok h'"
  using assms(1)
proof cases
  case subscribe
  show ?thesis unfolding subscribe(1)
    by (rule numbers_frame [OF assms(3)])
      (simp_all add: delivered_subscribe assms(2) subscribe, simp_all add: Subscribe_def Let_def)
next
  case (unlink i)
  show ?thesis unfolding unlink(1)
    by (rule numbers_frame [OF assms(3)]) (simp_all, simp_all add: cancel_unlink_def)
next
  case (close i)
  show ?thesis unfolding close(1)
    by (rule numbers_frame [OF assms(3)]) (simp_all, simp_all add: cancel_close_def split: option.splits)
next
  case (hook fn)
  show ?thesis unfolding hook(1)
    by (rule numbers_frame [OF assms(3)]) (simp_all, simp_all add: SetDropHook_def)
next
  case (consume i)
  show ?thesis unfolding consume(1)
    by (rule numbers_frame [OF assms(3)]) (simp_all, simp_all add: receive_event_def split: option.splits list.splits)
qed (simp_all add: claim_numbers load_numbers publish_send_numbers channels_okD(2) assms)

subsection \<open>The accounting\<close>

text \<open>The numbers a subscriber can account for.\<close>

definition known :: "hub \<Rightarrow> uint64 \<Rightarrow> uint64 set" where
  "known h i = set (delivered h i) \<union> set (hb_dropped h i) \<union> unsent h i"

lemma accounted_frame:
  assumes ok: "accounted h" and "hb_pubSeq h' = hb_pubSeq h"
    and subs: "\<And>i. i \<in> set (hb_subs h') \<Longrightarrow>
      i \<in> set (hb_subs h) \<and> hb_since h' i = hb_since h i \<and> known h i \<subseteq> known h' i"
  shows "accounted h'"
  unfolding accounted_def
proof (intro ballI conjI)
  fix i assume "i \<in> set (hb_subs h')"
  note i = subs [OF this]
  with ok assms(2) show "hb_since h' i \<le> hb_pubSeq h'" by (simp add: accounted_def)
  from i ok assms(2) show "\<forall>n. hb_since h' i < n \<and> n \<le> hb_pubSeq h' \<longrightarrow>
      n \<in> set (delivered h' i) \<union> set (hb_dropped h' i) \<union> unsent h' i"
    unfolding accounted_def known_def by fastforce
qed

lemma send_channel_knows:
  assumes chan: "channels_ok h" and i: "i \<in> set (hb_subs h)"
  shows "known h j \<subseteq> known (send_channel n f i h) j" and "n \<in> known (send_channel n f i h) i"
proof -
  obtain c where c: "hb_channels h i = Some c" "\<not> sc_closed c"
    using channels_okD(5) [OF chan i] by blast
  have "known h j \<subseteq> known (send_channel n f i h) j \<and> n \<in> known (send_channel n f i h) i"
    using chan
  proof (cases rule: send_channel_cases [where n = n and f = f and i = i])
    case closed
    with c show ?thesis by auto
  next
    case (queued c')
    then have "delivered (send_channel n f i h) k = (if k = i then delivered h i @ [n] else delivered h k)"
      "hb_dropped (send_channel n f i h) = hb_dropped h" for k
      by (simp_all add: delivered_def)
    then show ?thesis by (auto simp: known_def)
  next
    case (dropped c')
    then have "delivered (send_channel n f i h) k = delivered h k"
      "hb_dropped (send_channel n f i h) = (hb_dropped h)(i := hb_dropped h i @ [n])" for k
      by (simp_all add: delivered_def)
    then show ?thesis by (auto simp: known_def)
  qed
  then show "known h j \<subseteq> known (send_channel n f i h) j" and "n \<in> known (send_channel n f i h) i"
    by simp_all
qed

lemma send_channel_other: "j \<noteq> i \<Longrightarrow> known (send_channel n f i h) j = known h j"
  by (auto simp: known_def delivered_def send_channel_def unsent_def split: option.splits)

lemma send_channel_frame [simp]:
  "hb_subs (send_channel n f i h) = hb_subs h" "hb_since (send_channel n f i h) = hb_since h"
  "hb_pubSeq (send_channel n f i h) = hb_pubSeq h"
  by (simp_all add: send_channel_def split: option.splits)

lemma publish_send_accounted:
  assumes chan: "channels_ok h" and num: "numbers_ok h" and acc: "accounted h"
    and at: "(n, f, i # rest) \<in> set (hb_sending h)"
  shows "accounted (publish_send n f i rest h)"
proof (rule accounted_frame [OF acc])
  let ?h = "h\<lparr>hb_sending := after_send n f i rest h\<rparr>"
  have chan': "channels_ok ?h"
    by (rule sending_channels [OF chan]) (use at in \<open>metis after_send_set list.set_intros(2) prod.inject\<close>)
  have owed: "known h j - (if j = i then {n} else {}) \<subseteq> known ?h j" for j
    using unsent_after_send [OF num at, of j] by (auto simp: known_def)
  fix j assume "j \<in> set (hb_subs (publish_send n f i rest h))"
  then have j: "j \<in> set (hb_subs h)" by (simp add: publish_send_eq)
  have "known h j \<subseteq> known (publish_send n f i rest h) j"
  proof (cases "j = i")
    case True
    then have "i \<in> set (hb_subs ?h)" using j by simp
    note sent = send_channel_knows(1) [OF chan' this, of i n f] send_channel_knows(2) [OF chan' this, of n f]
    show ?thesis
      using owed [of i] sent True unfolding publish_send_eq by auto
  next
    case False
    with owed [of j] show ?thesis unfolding publish_send_eq by (simp add: send_channel_other)
  qed
  with j show "j \<in> set (hb_subs h) \<and> hb_since (publish_send n f i rest h) j = hb_since h j \<and>
      known h j \<subseteq> known (publish_send n f i rest h) j"
    by (simp add: publish_send_eq)
qed (simp add: publish_send_eq)

lemma claim_accounted:
  assumes ok: "accounted h" and room: "hb_pubSeq h \<noteq> - 1"
  shows "accounted (publish_claim h)"
proof -
  have frame: "hb_subs (publish_claim h) = hb_subs h" "hb_since (publish_claim h) = hb_since h"
    "hb_dropped (publish_claim h) = hb_dropped h" "hb_pubSeq (publish_claim h) = hb_pubSeq h + 1"
    by (simp_all add: publish_claim_def)
  show ?thesis
    using ok unfolding accounted_def frame by (auto simp: word_le_inc_iff [OF room])
qed

lemma subscribe_accounted:
  assumes chan: "channels_ok h" and ok: "accounted h" and room: "hb_sequence h \<noteq> - 1"
  shows "accounted (snd (Subscribe h))"
proof -
  let ?i = "hb_sequence h + 1"
  have "?i \<notin> set (hb_subs h)"
    using channels_okD(5,7) [OF chan] word_inc_greater [OF room] by fastforce
  then have "i \<in> set (hb_subs h) \<Longrightarrow> hb_since (snd (Subscribe h)) i = hb_since h i" for i
    by (auto simp: Subscribe_def Let_def)
  moreover have "hb_subs (snd (Subscribe h)) = hb_subs h @ [?i]" "hb_since (snd (Subscribe h)) ?i = hb_pubSeq h"
    "hb_pubSeq (snd (Subscribe h)) = hb_pubSeq h" "hb_dropped (snd (Subscribe h)) = hb_dropped h"
    by (simp_all add: Subscribe_def Let_def)
  ultimately show ?thesis
    using ok unfolding accounted_def by (auto simp: delivered_subscribe [OF chan room])
qed

lemma step_accounted:
  assumes step: "hub_step h h'" and chan: "channels_ok h" and num: "numbers_ok h" and acc: "accounted h"
  shows "accounted h'"
  using step
proof cases
  case (unlink i)
  show ?thesis unfolding unlink(1)
    by (rule accounted_frame [OF acc]) (auto simp: known_def, auto simp: cancel_unlink_def split: if_splits)
next
  case (close i)
  show ?thesis unfolding close(1)
    by (rule accounted_frame [OF acc]) (auto simp: known_def, auto simp: cancel_close_def split: option.splits if_splits)
next
  case (hook fn)
  show ?thesis unfolding hook(1)
    by (rule accounted_frame [OF acc]) (auto simp: known_def, auto simp: SetDropHook_def)
next
  case (consume i)
  show ?thesis unfolding consume(1)
    by (rule accounted_frame [OF acc])
      (auto simp: known_def, auto simp: receive_event_def split: option.splits list.splits)
next
  case (load n)
  have d: "distinct (hb_claimed h)" using numbers_okD(1) [OF num] by simp
  show ?thesis unfolding load(1)
    by (rule accounted_frame [OF acc])
      (auto simp: known_def publish_load_def unsent_load(2) [OF d load(2), unfolded publish_load_def] split: if_splits)
qed (simp_all add: subscribe_accounted claim_accounted publish_send_accounted assms)

lemma hub_inv_reachable: "hub_reachable h \<Longrightarrow> hub_inv h"
proof (induction rule: hub_reachable.induct)
  case start
  then show ?case
    by (simp add: hub_inv_def channels_ok_def numbers_ok_def accounted_def NewHub_def delivered_def unsent_def)
next
  case (step h h')
  then show ?case
    unfolding hub_inv_def using step_channels step_numbers step_accounted by blast
qed

subsection \<open>A publish without interference is a run\<close>

lemma send_channel_sending:
  "send_channel n f i (h\<lparr>hb_sending := sd\<rparr>) = (send_channel n f i h)\<lparr>hb_sending := sd\<rparr>"
  by (simp add: send_channel_def split: option.splits)

lemma fold_send_reachable:
  assumes "hub_reachable (h\<lparr>hb_sending := (n, f, xs) # sd\<rparr>)" and "xs \<noteq> []"
  shows "hub_reachable ((fold (send_channel n f) xs h)\<lparr>hb_sending := sd\<rparr>)"
  using assms
proof (induction xs arbitrary: h)
  case (Cons i xs)
  have "hub_reachable (publish_send n f i xs (h\<lparr>hb_sending := (n, f, i # xs) # sd\<rparr>))"
    by (rule hub_reachable.step [OF Cons.prems(1)], rule hub_step.send) simp
  then have "hub_reachable ((send_channel n f i h)\<lparr>hb_sending := if xs = [] then sd else (n, f, xs) # sd\<rparr>)"
    by (simp add: publish_send_def send_channel_sending split: if_splits)
  with Cons.IH show ?case by (cases "xs = []") simp_all
qed simp

lemma publish_claim_member: "hb_pubSeq h + 1 \<in> set (hb_claimed (publish_claim h))"
  by (simp add: publish_claim_def)

lemma fold_send_frame [simp]:
  "hb_sending (fold (send_channel n f) xs h) = hb_sending h"
  by (induction xs arbitrary: h) (simp_all add: send_channel_def split: option.splits)

lemma Publish_reachable:
  assumes "hub_reachable h" and "hb_pubSeq h \<noteq> - 1"
  shows "hub_reachable (Publish h)"
proof -
  let ?n = "hb_pubSeq h + 1" and ?h = "h\<lparr>hb_pubSeq := hb_pubSeq h + 1\<rparr>"
  have "hub_reachable (publish_load ?n (publish_claim h))"
    by (meson assms hub_reachable.step hub_step.claim hub_step.load publish_claim_member)
  then have run: "hub_reachable (?h\<lparr>hb_sending := (if hb_subs h = [] then hb_sending h
      else (?n, hb_onDrop h, hb_subs h) # hb_sending h)\<rparr>)"
    by (simp add: publish_load_def publish_claim_def split: if_splits)
  show ?thesis
  proof (cases "hb_subs h = []")
    case True
    with run show ?thesis by (simp add: Publish_def Let_def)
  next
    case False
    have same: "g = g\<lparr>hb_sending := hb_sending h\<rparr>" if "hb_sending g = hb_sending h" for g :: hub
      using that by simp
    from fold_send_reachable [where h = ?h and n = ?n and f = "hb_onDrop h" and xs = "hb_subs h" and sd = "hb_sending h"] run False
    show ?thesis unfolding Publish_def Let_def by (subst same) simp_all
  qed
qed

text \<open>What one visit does to the channel and the drops of its own subscriber.\<close>

definition visit :: "uint64 \<Rightarrow> subscriber_channel option \<times> uint64 list \<Rightarrow> subscriber_channel option \<times> uint64 list" where
  "visit n cd =
     (case cd of
        (Some c, ds) \<Rightarrow>
          if sc_closed c \<or> sc_chanClosed c then (Some c, ds)
          else if length (sc_buffer c) < memorySubscriberBuffer then (Some (c\<lparr>sc_buffer := sc_buffer c @ [n]\<rparr>), ds)
          else (Some c, ds @ [n])
      | (None, ds) \<Rightarrow> (None, ds))"

lemma Publish_pointwise:
  assumes "distinct (hb_subs h)"
  shows "(hb_channels (Publish h) i, hb_dropped (Publish h) i) =
     (if i \<in> set (hb_subs h) then visit (hb_pubSeq h + 1) (hb_channels h i, hb_dropped h i)
      else (hb_channels h i, hb_dropped h i))"
proof -
  let ?n = "hb_pubSeq h + 1" and ?h = "h\<lparr>hb_pubSeq := hb_pubSeq h + 1\<rparr>"
  have "(hb_channels (fold (send_channel ?n (hb_onDrop h)) (hb_subs h) ?h) i,
         hb_dropped (fold (send_channel ?n (hb_onDrop h)) (hb_subs h) ?h) i) =
     (if i \<in> set (hb_subs h) then visit ?n (hb_channels ?h i, hb_dropped ?h i)
      else (hb_channels ?h i, hb_dropped ?h i))"
    by (rule fold_pointwise [where g = "\<lambda>s k. (hb_channels s k, hb_dropped s k)" and h = "\<lambda>k. visit ?n", OF assms])
      (auto simp: send_channel_def visit_def split: option.splits)
  then show ?thesis by (simp add: Publish_def Let_def)
qed

subsection \<open>Properties\<close>

text \<open>A run with two subscribers: the first event has reached the first of them only.\<close>

definition demo_subscribed :: hub where
  "demo_subscribed = snd (Subscribe (snd (Subscribe NewHub)))"

definition demo_flight :: hub where
  "demo_flight = publish_send 1 False 1 [2] (publish_load 1 (publish_claim demo_subscribed))"

lemma demo_subscribed_reachable: "hub_reachable demo_subscribed"
  unfolding demo_subscribed_def
  by (intro hub_reachable.step [OF _ hub_step.subscribe] hub_reachable.start) (simp_all add: Subscribe_def NewHub_def Let_def)

lemmas hub_eval = demo_flight_def demo_subscribed_def publish_send_def send_channel_def publish_load_def
  publish_claim_def Subscribe_def NewHub_def memorySubscriberBuffer_def delivered_def

lemma demo_flight_reachable: "hub_reachable demo_flight"
proof -
  have "hub_reachable (publish_claim demo_subscribed)"
    by (rule hub_reachable.step [OF demo_subscribed_reachable], rule hub_step.claim) (simp add: hub_eval)
  then have "hub_reachable (publish_load 1 (publish_claim demo_subscribed))"
    by (rule hub_reachable.step, intro hub_step.load) (simp add: hub_eval)
  then show ?thesis
    unfolding demo_flight_def by (rule hub_reachable.step, intro hub_step.send) (simp add: hub_eval)
qed

text \<open>
  C26. However publishers, subscriptions, cancels and consumers interleave, the hub never sends on
  a closed channel and never closes one twice, no subscriber's channel holds more than 64 events,
  no event is given to a subscriber twice, and only numbers that were assigned are given out.
\<close>

theorem hub_delivers_at_most_once:
  assumes "hub_reachable h"
  shows "\<not> hb_panicked h \<and>
     (\<forall>i c. hb_channels h i = Some c \<longrightarrow> length (sc_buffer c) \<le> 64) \<and>
     (\<forall>i. distinct (delivered h i) \<and> (\<forall>n \<in> set (delivered h i). n \<le> hb_pubSeq h))"
  using hub_inv_reachable [OF assms] numbers_okD(5,6) [of h] channels_okD(1,4) [of h]
  unfolding hub_inv_def memorySubscriberBuffer_def by blast

text \<open>The properties hold in the run in which the first event is on its way.\<close>

theorem hub_delivers_at_most_once_witness:
  "hub_reachable demo_flight \<and> delivered demo_flight 1 = [1] \<and> delivered demo_flight 2 = [] \<and>
   \<not> hb_panicked demo_flight \<and>
   distinct (delivered demo_flight 1) \<and> 1 \<le> hb_pubSeq demo_flight"
  using hub_delivers_at_most_once [OF demo_flight_reachable] demo_flight_reachable
  by (simp add: hub_eval)

text \<open>
  No event disappears silently: every number assigned after a subscriber subscribed, and
  while it has not cancelled, was given to it, or dropped because its channel was full, or belongs
  to a publisher that has still to visit it. This is what makes a gap in the numbers a sound and
  complete sign of a dropped event once no publisher is under way.
\<close>

theorem hub_accounts_for_every_event:
  assumes "hub_reachable h" and "i \<in> set (hb_subs h)" and "hb_since h i < n" and "n \<le> hb_pubSeq h"
  shows "n \<in> set (delivered h i) \<or> n \<in> set (hb_dropped h i) \<or> n \<in> set (hb_claimed h) \<or>
     (\<exists>f rest. (n, f, rest) \<in> set (hb_sending h) \<and> i \<in> set rest)"
  using hub_inv_reachable [OF assms(1)] assms(2-4) unfolding hub_inv_def accounted_def unsent_def by fastforce

text \<open>In the run above the second subscriber is still to be visited for event 1.\<close>

theorem hub_accounts_for_every_event_witness:
  "hub_reachable demo_flight \<and>
   (1 \<in> set (delivered demo_flight 2) \<or> 1 \<in> set (hb_dropped demo_flight 2) \<or> 1 \<in> set (hb_claimed demo_flight) \<or>
    (\<exists>f rest. (1, f, rest) \<in> set (hb_sending demo_flight) \<and> 2 \<in> set rest))"
proof -
  have "2 \<in> set (hb_subs demo_flight)" "hb_since demo_flight 2 < 1" "1 \<le> hb_pubSeq demo_flight"
    by (simp_all add: hub_eval)
  with hub_accounts_for_every_event [OF demo_flight_reachable, of 2 1] demo_flight_reachable show ?thesis
    by simp
qed

text \<open>
  A publish that is not interleaved with anything is one of the runs above, and it gives its
  number to every subscriber of the snapshot whose channel has room, counts it as dropped for the
  others, and touches nobody else.
\<close>

theorem publish_reaches_every_subscriber:
  assumes "hub_reachable h" and "hb_pubSeq h \<noteq> - 1"
  shows "hub_reachable (Publish h) \<and>
    (if i \<in> set (hb_subs h)
     then \<exists>c. hb_channels h i = Some c \<and>
       (if length (sc_buffer c) < 64
        then hb_channels (Publish h) i = Some (c\<lparr>sc_buffer := sc_buffer c @ [hb_pubSeq h + 1]\<rparr>) \<and>
             hb_dropped (Publish h) i = hb_dropped h i
        else hb_channels (Publish h) i = Some c \<and>
             hb_dropped (Publish h) i = hb_dropped h i @ [hb_pubSeq h + 1])
     else hb_channels (Publish h) i = hb_channels h i \<and> hb_dropped (Publish h) i = hb_dropped h i)"
proof (cases "i \<in> set (hb_subs h)")
  case False
  have "channels_ok h" using hub_inv_reachable [OF assms(1)] by (simp add: hub_inv_def)
  with False Publish_pointwise [OF channels_okD(2), of h i] Publish_reachable [OF assms] show ?thesis
    by simp
next
  case True
  have chan: "channels_ok h" using hub_inv_reachable [OF assms(1)] by (simp add: hub_inv_def)
  obtain c where c: "hb_channels h i = Some c" "\<not> sc_closed c" "\<not> sc_chanClosed c"
    using channels_okD(5,3) [OF chan, of i] True by blast
  with Publish_pointwise [OF channels_okD(2) [OF chan], of i] Publish_reachable [OF assms] True show ?thesis
    by (simp add: visit_def memorySubscriberBuffer_def split: if_splits)
qed

text \<open>The first publish to two subscribers.\<close>

theorem publish_reaches_every_subscriber_witness:
  "hub_reachable (Publish demo_subscribed) \<and>
   (\<exists>c. hb_channels demo_subscribed 2 = Some c \<and>
      hb_channels (Publish demo_subscribed) 2 = Some (c\<lparr>sc_buffer := [1]\<rparr>))"
proof -
  have "hb_pubSeq demo_subscribed \<noteq> - 1" "2 \<in> set (hb_subs demo_subscribed)" "hb_pubSeq demo_subscribed = 0"
    "hb_channels demo_subscribed 2 = Some \<lparr>sc_buffer = [], sc_chanClosed = False, sc_closed = False\<rparr>"
    by (simp_all add: hub_eval)
  with publish_reaches_every_subscriber [OF demo_subscribed_reachable, of 2] show ?thesis
    by auto
qed

end
