(* ===== verification/Canonical_Json.thy ===== *)
theory Canonical_Json
  imports Panvex_Prelude
begin

section \<open>Canonical JSON text (internal/controlplane/audit/hashchain)\<close>

text \<open>
  The audit chain hashes a canonical JSON text: object keys sorted, strings in the escaping of
  \<^verbatim>\<open>encoding/json\<close>. This theory models that encoder on JSON values and shows that the text
  determines the value: two values with the same text are equal up to the order of object keys,
  which a Go map does not have in the first place.

  A string is a list of bytes in valid UTF-8 without the two separators U+2028 and U+2029, which
  the encoder escapes in a form of their own. A number is the literal the encoder prints for
  it, which is also what the decoder keeps when the details of an event are read back.
  \<open>JUnsupported\<close> stands for a Go value that \<^verbatim>\<open>encoding/json\<close> refuses (a channel, a function, not a
  number); values of other Go types are represented by the JSON value they print as.
\<close>

datatype json =
    JNull
  | JBool bool
  | JNumber string
  | JString string
  | JArray "json list"
  | JObject "(string \<times> json) list"
  | JUnsupported

subsection \<open>Strings\<close>

definition hex_digit :: "nat \<Rightarrow> char" where
  "hex_digit k = (if k < 10 then char_of (48 + k) else char_of (87 + k))"

text \<open>The two-character escapes: quote, backslash, backspace, form feed, newline, return, tab.\<close>

definition short_escape :: "nat \<Rightarrow> char option" where
  "short_escape n =
     (if n = 34 then Some (CHR 0x22) else if n = 92 then Some (CHR 0x5C)
      else if n = 8 then Some (CHR ''b'') else if n = 12 then Some (CHR ''f'')
      else if n = 10 then Some (CHR ''n'') else if n = 13 then Some (CHR ''r'')
      else if n = 9 then Some (CHR ''t'') else None)"

definition json_escape :: "char \<Rightarrow> string" where
  "json_escape c =
     (let n = of_char c :: nat
      in case short_escape n of
           Some d \<Rightarrow> [CHR 0x5C, d]
         | None \<Rightarrow>
             if n < 32 \<or> n = 38 \<or> n = 60 \<or> n = 62
             then CHR 0x5C # ''u00'' @ [hex_digit (n div 16), hex_digit (n mod 16)]
             else [c])"

definition json_quote :: "string \<Rightarrow> string" where
  "json_quote s = CHR 0x22 # concat (map json_escape s) @ [CHR 0x22]"

subsection \<open>Values\<close>

fun join_tail :: "string list \<Rightarrow> string" where
  "join_tail [] = []"
| "join_tail (t # ts) = CHR '','' # t @ join_tail ts"

text \<open>\<^verbatim>\<open>strings.Join(parts, ",")\<close>\<close>

fun join_comma :: "string list \<Rightarrow> string" where
  "join_comma [] = []"
| "join_comma (t # ts) = t @ join_tail ts"

lemma json_member_size:
  "v \<in> set vs \<Longrightarrow> size v < Suc (size_list size vs)"
  "(k, v) \<in> set kvs \<Longrightarrow> size v < Suc (size_list (size_prod (\<lambda>_. 0) size) kvs)"
  by (induction vs) (auto, induction kvs, auto)

function canonicaliseJSONValue :: "json \<Rightarrow> string option" where
  "canonicaliseJSONValue JNull = Some ''null''"
| "canonicaliseJSONValue (JBool b) = Some (if b then ''true'' else ''false'')"
| "canonicaliseJSONValue (JNumber n) = Some n"
| "canonicaliseJSONValue (JString s) = Some (json_quote s)"
| "canonicaliseJSONValue (JArray vs) =
     map_option (\<lambda>parts. CHR ''['' # join_comma parts @ '']'') (those (map canonicaliseJSONValue vs))"
| "canonicaliseJSONValue (JObject kvs) =
     map_option (\<lambda>parts. CHR ''{'' # join_comma parts @ ''}'')
       (those (map (\<lambda>kv. map_option (\<lambda>t. json_quote (fst kv) @ CHR '':'' # t) (canonicaliseJSONValue (snd kv)))
                (sort_key fst kvs)))"
| "canonicaliseJSONValue JUnsupported = None"
  by pat_completeness auto

termination
  by (relation "measure size") (auto simp: json_member_size)

text \<open>Values up to the order of object keys.\<close>

function sorted_json :: "json \<Rightarrow> json" where
  "sorted_json (JArray vs) = JArray (map sorted_json vs)"
| "sorted_json (JObject kvs) = JObject (map (\<lambda>kv. (fst kv, sorted_json (snd kv))) (sort_key fst kvs))"
| "sorted_json JNull = JNull"
| "sorted_json (JBool b) = JBool b"
| "sorted_json (JNumber n) = JNumber n"
| "sorted_json (JString x) = JString x"
| "sorted_json JUnsupported = JUnsupported"
  by pat_completeness auto

termination
  by (relation "measure size") (auto simp: json_member_size)

definition same_json :: "json \<Rightarrow> json \<Rightarrow> bool" where
  "same_json v w \<longleftrightarrow> sorted_json v = sorted_json w"

text \<open>A number literal starts with a digit or a minus sign and goes on with number characters.\<close>

definition number_char :: "char \<Rightarrow> bool" where
  "number_char c \<longleftrightarrow> c \<in> set ''0123456789+-.eE''"

definition number_literal :: "string \<Rightarrow> bool" where
  "number_literal n \<longleftrightarrow> n \<noteq> [] \<and> hd n \<in> set ''0123456789-'' \<and> list_all number_char n"

fun wf_json :: "json \<Rightarrow> bool" where
  "wf_json (JNumber n) \<longleftrightarrow> number_literal n"
| "wf_json (JArray vs) \<longleftrightarrow> (\<forall>v \<in> set vs. wf_json v)"
| "wf_json (JObject kvs) \<longleftrightarrow> distinct (map fst kvs) \<and> (\<forall>kv \<in> set kvs. wf_json (snd kv))"
| "wf_json _ \<longleftrightarrow> True"

subsection \<open>Strings are read back uniquely\<close>

lemma of_hex_digit: "i < 16 \<Longrightarrow> (of_char (hex_digit i) :: nat) = (if i < 10 then 48 + i else 87 + i)"
  by (simp add: hex_digit_def)

lemma hex_digit_inj: "i < 16 \<Longrightarrow> j < 16 \<Longrightarrow> hex_digit i = hex_digit j \<Longrightarrow> i = j"
proof -
  assume lt: "i < 16" "j < 16" and "hex_digit i = hex_digit j"
  then have "(if i < 10 then 48 + i else 87 + i) = (if j < 10 then 48 + j else 87 + j)"
    using of_hex_digit by metis
  then show "i = j" using lt by (cases "i < 10"; cases "j < 10") auto
qed

lemma short_escape_inj:
  "short_escape m = Some d \<Longrightarrow> short_escape n = Some d \<Longrightarrow> m = n"
  by (auto simp: short_escape_def split: if_splits)

lemma short_escape_no_u: "short_escape n \<noteq> Some (CHR ''u'')"
  by (simp add: short_escape_def)

text \<open>The three shapes of an escaped byte.\<close>

lemma json_escape_cases:
  obtains (short) d where "short_escape (of_char c) = Some d" and "json_escape c = [CHR 0x5C, d]"
  | (hex) "json_escape c = CHR 0x5C # ''u00'' @ [hex_digit (of_char c div 16), hex_digit (of_char c mod 16)]"
  | (plain) "json_escape c = [c]" and "c \<noteq> CHR 0x5C" and "c \<noteq> CHR 0x22"
proof (cases "short_escape (of_char c)")
  case None
  then have "(of_char c :: nat) \<noteq> 92 \<and> (of_char c :: nat) \<noteq> 34"
    by (auto simp: short_escape_def)
  then have "c \<noteq> CHR 0x5C" "c \<noteq> CHR 0x22" by auto
  with None that(2,3) show ?thesis
    by (cases "(of_char c :: nat) < 32 \<or> (of_char c :: nat) = 38 \<or> (of_char c :: nat) = 60 \<or> (of_char c :: nat) = 62")
      (simp_all add: json_escape_def Let_def)
next
  case (Some d)
  with that(1) show ?thesis by (simp add: json_escape_def Let_def)
qed

lemma json_escape_unique:
  assumes "json_escape c @ x = json_escape d @ y"
  shows "c = d \<and> x = y"
proof -
  have small: "(of_char e :: nat) div 16 < 16" for e :: char
    using mod_less_divisor [of 256 "of_char e :: nat"] by (simp add: less_mult_imp_div_less)
  have eq: "c = d" if "(of_char c :: nat) = of_char d" using that by simp
  show ?thesis
  proof (cases rule: json_escape_cases [of c])
    case c: (short e)
    have "c = d" if "short_escape (of_char d) = Some e"
      using short_escape_inj [OF c(1) that] eq by simp
    then show ?thesis
      by (cases rule: json_escape_cases [of d]) (use assms c short_escape_no_u in auto)
  next
    case c: hex
    show ?thesis
    proof (cases rule: json_escape_cases [of d])
      case d: hex
      have "hex_digit (of_char c div 16) = hex_digit (of_char d div 16)"
        "hex_digit (of_char c mod 16) = hex_digit (of_char d mod 16)" "x = y"
        using assms c d by simp_all
      then have "(of_char c :: nat) div 16 = of_char d div 16" "(of_char c :: nat) mod 16 = of_char d mod 16"
        using hex_digit_inj small by auto
      then have "(of_char c :: nat) = of_char d" by (metis div_mult_mod_eq)
      with eq \<open>x = y\<close> show ?thesis by simp
    qed (use assms c short_escape_no_u in auto)
  next
    case c: plain
    show ?thesis
      by (cases rule: json_escape_cases [of d]) (use assms c in auto)
  qed
qed

lemma json_escape_hd: "json_escape c \<noteq> []" "hd (json_escape c) \<noteq> CHR 0x22"
  by (cases rule: json_escape_cases [of c]; simp)+

lemma json_quote_unique:
  assumes "json_quote s @ x = json_quote t @ y"
  shows "s = t \<and> x = y"
proof -
  let ?e = "\<lambda>s. concat (map json_escape s)"
  have "?e s @ CHR 0x22 # x = ?e t @ CHR 0x22 # y \<Longrightarrow> s = t \<and> x = y"
  proof (induction s arbitrary: t)
    case Nil
    then show ?case
      using json_escape_hd by (cases t) (auto, metis append_is_Nil_conv hd_append list.sel(1))
  next
    case (Cons c s)
    obtain d t' where t: "t = d # t'"
      using Cons.prems json_escape_hd [of c] by (cases t) (auto, metis hd_append list.sel(1))
    have "json_escape c @ (?e s @ CHR 0x22 # x) = json_escape d @ (?e t' @ CHR 0x22 # y)"
      using Cons.prems by (simp add: t)
    from json_escape_unique [OF this] Cons.IH show ?case by (simp add: t)
  qed
  with assms show ?thesis by (simp add: json_quote_def)
qed

subsection \<open>Values are read back uniquely\<close>

text \<open>What may follow a value inside a text: nothing, a comma or a closing bracket.\<close>

definition ends :: "string \<Rightarrow> bool" where
  "ends x \<longleftrightarrow> x = [] \<or> hd x \<in> set '',]}''"

lemma ends_simps [simp]: "ends []" "ends (c # x) \<longleftrightarrow> c \<in> set '',]}''"
  by (simp_all add: ends_def)

lemma ends_join_tail: "c \<in> set '']}'' \<Longrightarrow> ends (join_tail ts @ c # x)"
  by (cases ts) auto

lemma ends_no_number: "ends x \<Longrightarrow> x = [] \<or> \<not> number_char (hd x)"
  by (cases x) (auto simp: number_char_def)

lemma number_unique:
  assumes "list_all number_char m" "list_all number_char n" "m @ x = n @ y" "ends x" "ends y"
  shows "m = n \<and> x = y"
proof -
  have "takeWhile number_char (k @ z) = k" if "list_all number_char k" "ends z" for k z
    using that ends_no_number [OF that(2)]
    by (cases z) (auto simp: list_all_iff takeWhile_append)
  with assms have "m = n" by metis
  with assms(3) show ?thesis by simp
qed

text \<open>Lists of texts that are each read back uniquely are read back uniquely.\<close>

definition reads :: "('a \<Rightarrow> string) \<Rightarrow> ('a \<Rightarrow> 'b) \<Rightarrow> 'a set \<Rightarrow> 'a set \<Rightarrow> bool" where
  "reads enc img A B \<longleftrightarrow>
     (\<forall>v \<in> A. \<forall>w \<in> B. \<forall>x y. ends x \<longrightarrow> ends y \<longrightarrow> enc v @ x = enc w @ y \<longrightarrow> img v = img w \<and> x = y)"

lemma readsD:
  "reads enc img A B \<Longrightarrow> v \<in> A \<Longrightarrow> w \<in> B \<Longrightarrow> enc v @ x = enc w @ y \<Longrightarrow> ends x \<Longrightarrow> ends y \<Longrightarrow>
     img v = img w \<and> x = y"
  by (simp add: reads_def)

lemma reads_subset: "reads enc img A B \<Longrightarrow> A' \<subseteq> A \<Longrightarrow> B' \<subseteq> B \<Longrightarrow> reads enc img A' B'"
  unfolding reads_def by blast

lemma join_tail_unique:
  assumes "reads enc img (set vs) (set ws)"
    and "c \<in> set '']}''" and "join_tail (map enc vs) @ c # x = join_tail (map enc ws) @ c # y"
  shows "map img vs = map img ws \<and> x = y"
  using assms(1,3)
proof (induction vs arbitrary: ws)
  case Nil
  with assms(2) show ?case by (cases ws) auto
next
  case (Cons v vs)
  obtain w ws' where ws: "ws = w # ws'"
    using Cons.prems(2) assms(2) by (cases ws) auto
  have head: "img v = img w \<and> join_tail (map enc vs) @ c # x = join_tail (map enc ws') @ c # y"
    using Cons.prems(2) by (intro readsD [OF Cons.prems(1)]) (simp_all add: ws ends_join_tail [OF assms(2)])
  have "reads enc img (set vs) (set ws')"
    using Cons.prems(1) by (rule reads_subset) (auto simp: ws)
  from Cons.IH [OF this] head show ?case by (simp add: ws)
qed

lemma join_comma_unique:
  assumes read: "reads enc img (set vs) (set ws)"
    and start: "\<And>v. v \<in> set vs \<union> set ws \<Longrightarrow> enc v \<noteq> [] \<and> hd (enc v) \<notin> set '']}''"
    and c: "c \<in> set '']}''" and eq: "join_comma (map enc vs) @ c # x = join_comma (map enc ws) @ c # y"
  shows "map img vs = map img ws \<and> x = y"
proof (cases "vs = [] \<or> ws = []")
  case True
  have none: "us = []" if "join_comma (map enc us) @ c # z = c # z'" "set us \<subseteq> set vs \<union> set ws" for us z z'
  proof (cases us)
    case (Cons u us')
    with that(1) have "enc u @ (join_tail (map enc us') @ c # z) = c # z'" by simp
    moreover have "enc u \<noteq> [] \<and> hd (enc u) \<noteq> c"
      using start [of u] that(2) c by (auto simp: Cons)
    ultimately show ?thesis by (metis hd_append list.sel(1))
  qed
  have "vs = [] \<and> ws = []"
    using True none [of vs x y] none [of ws y x] eq by auto
  with eq show ?thesis by simp
next
  case False
  then obtain v vs' w ws' where vw: "vs = v # vs'" "ws = w # ws'" by (meson neq_Nil_conv)
  have head: "img v = img w \<and> join_tail (map enc vs') @ c # x = join_tail (map enc ws') @ c # y"
    using eq by (intro readsD [OF read]) (simp_all add: vw ends_join_tail [OF c])
  have "reads enc img (set vs') (set ws')"
    using read by (rule reads_subset) (auto simp: vw)
  from join_tail_unique [OF this c, of x y] head show ?thesis by (simp add: vw)
qed

text \<open>The first character of a text tells the kind of its value.\<close>

lemma canonical_head:
  assumes "canonicaliseJSONValue v = Some t" and "wf_json v"
  shows "t \<noteq> [] \<and> hd t =
    (case v of JNull \<Rightarrow> CHR ''n'' | JBool b \<Rightarrow> if b then CHR ''t'' else CHR ''f'' | JNumber n \<Rightarrow> hd n
     | JString _ \<Rightarrow> CHR 0x22 | JArray _ \<Rightarrow> CHR ''['' | JObject _ \<Rightarrow> CHR ''{'' | JUnsupported \<Rightarrow> hd t)"
  using assms by (cases v) (auto simp: json_quote_def number_literal_def)

lemma those_Some: "those xs = Some ys \<Longrightarrow> (\<forall>x \<in> set xs. x \<noteq> None) \<and> ys = map the xs"
  by (induction xs arbitrary: ys) (auto split: option.splits)

lemma canonical_array:
  assumes "canonicaliseJSONValue (JArray vs) = Some t"
  shows "(\<forall>v \<in> set vs. canonicaliseJSONValue v \<noteq> None) \<and>
    t = CHR ''['' # join_comma (map (\<lambda>v. the (canonicaliseJSONValue v)) vs) @ '']''"
  using assms by (auto dest!: those_Some simp: comp_def)

definition member_text :: "string \<times> json \<Rightarrow> string" where
  "member_text kv = json_quote (fst kv) @ CHR '':'' # the (canonicaliseJSONValue (snd kv))"

lemma canonical_object:
  assumes "canonicaliseJSONValue (JObject kvs) = Some t"
  shows "(\<forall>kv \<in> set kvs. canonicaliseJSONValue (snd kv) \<noteq> None) \<and>
    t = CHR ''{'' # join_comma (map member_text (sort_key fst kvs)) @ ''}''"
proof -
  let ?f = "\<lambda>kv. map_option (\<lambda>t. json_quote (fst kv) @ CHR '':'' # t) (canonicaliseJSONValue (snd kv))"
  from assms obtain parts where parts: "those (map ?f (sort_key fst kvs)) = Some parts"
    "t = CHR ''{'' # join_comma parts @ ''}''"
    by auto
  from those_Some [OF parts(1)] have some: "\<forall>kv \<in> set kvs. canonicaliseJSONValue (snd kv) \<noteq> None"
    and "parts = map (\<lambda>kv. the (?f kv)) (sort_key fst kvs)"
    by (auto simp: comp_def)
  then have "parts = map member_text (sort_key fst kvs)"
    by (auto simp: member_text_def)
  with some parts(2) show ?thesis by simp
qed

definition text_of :: "json \<Rightarrow> string" where
  "text_of v = the (canonicaliseJSONValue v)"

definition encodable :: "json \<Rightarrow> bool" where
  "encodable v \<longleftrightarrow> wf_json v \<and> canonicaliseJSONValue v \<noteq> None"

lemma the_text: "(\<lambda>v. the (canonicaliseJSONValue v)) = text_of"
  by (simp add: text_of_def fun_eq_iff)

lemma encodableD: "encodable v \<Longrightarrow> wf_json v \<and> canonicaliseJSONValue v = Some (text_of v)"
  by (auto simp: encodable_def text_of_def)

lemma encodable_array:
  assumes "encodable (JArray vs)"
  shows "v \<in> set vs \<Longrightarrow> encodable v"
    and "text_of (JArray vs) = CHR ''['' # join_comma (map text_of vs) @ '']''"
  using encodableD [OF assms] canonical_array [of vs "text_of (JArray vs)"]
  by (simp_all add: encodable_def the_text del: canonicaliseJSONValue.simps)

lemma encodable_object:
  assumes "encodable (JObject kvs)"
  shows "kv \<in> set kvs \<Longrightarrow> encodable (snd kv)"
    and "text_of (JObject kvs) = CHR ''{'' # join_comma (map member_text (sort_key fst kvs)) @ ''}''"
  using encodableD [OF assms] canonical_object [of kvs "text_of (JObject kvs)"]
  by (simp_all add: encodable_def del: canonicaliseJSONValue.simps)

lemma text_of_head:
  assumes "encodable v"
  shows "text_of v \<noteq> [] \<and> hd (text_of v) =
    (case v of JNull \<Rightarrow> CHR ''n'' | JBool b \<Rightarrow> if b then CHR ''t'' else CHR ''f'' | JNumber n \<Rightarrow> hd n
     | JString _ \<Rightarrow> CHR 0x22 | JArray _ \<Rightarrow> CHR ''['' | JObject _ \<Rightarrow> CHR ''{'' | JUnsupported \<Rightarrow> hd (text_of v))"
  using assms canonical_head [of v] unfolding encodable_def text_of_def by auto

text \<open>The constructor of a value, to be compared first.\<close>

fun kind :: "json \<Rightarrow> nat" where
  "kind JNull = 0" | "kind (JBool b) = (if b then 1 else 2)" | "kind (JNumber _) = 3" | "kind (JString _) = 4"
| "kind (JArray _) = 5" | "kind (JObject _) = 6" | "kind JUnsupported = 7"

lemma same_text_same_kind:
  assumes "encodable v" and "encodable w" and "text_of v @ x = text_of w @ y"
  shows "kind v = kind w"
proof -
  have "hd (text_of v) = hd (text_of w)"
    using assms text_of_head by (metis hd_append)
  moreover have "wf_json v" "wf_json w" "v \<noteq> JUnsupported" "w \<noteq> JUnsupported"
    using assms(1,2) by (auto simp: encodable_def)
  ultimately show ?thesis
    using text_of_head [OF assms(1)] text_of_head [OF assms(2)]
    by (cases v; cases w; force simp: number_literal_def split: if_splits)
qed

lemma text_unique:
  assumes "encodable v" and "encodable w" and "text_of v @ x = text_of w @ y" and "ends x" and "ends y"
  shows "sorted_json v = sorted_json w \<and> x = y"
  using assms
proof (induction v arbitrary: w x y)
  case JNull
  with same_text_same_kind [OF JNull(1-3)] show ?case by (cases w) (auto simp: text_of_def split: if_splits)
next
  case (JBool b)
  with same_text_same_kind [OF JBool(1-3)] show ?case by (cases w) (auto simp: text_of_def split: if_splits)
next
  case (JNumber m)
  then obtain n where w: "w = JNumber n"
    using same_text_same_kind [OF JNumber(1-3)] by (cases w) (auto split: if_splits)
  have "m = n \<and> x = y"
    using JNumber w by (intro number_unique) (auto simp: encodable_def number_literal_def text_of_def)
  with w show ?case by simp
next
  case (JString s)
  then obtain t where w: "w = JString t"
    using same_text_same_kind [OF JString(1-3)] by (cases w) (auto split: if_splits)
  with JString(3) json_quote_unique [of s x t y] show ?case by (simp add: text_of_def)
next
  case (JArray vs)
  then obtain ws where w: "w = JArray ws"
    using same_text_same_kind [OF JArray(2-4)] by (cases w) (auto split: if_splits)
  have inner: "encodable v" if "v \<in> set vs \<union> set ws" for v
    using that encodable_array(1) JArray.prems(1,2) w by blast
  have "reads text_of sorted_json (set vs) (set ws)"
    unfolding reads_def using JArray.IH inner by blast
  moreover have "text_of v \<noteq> [] \<and> hd (text_of v) \<notin> set '']}''" if "v \<in> set vs \<union> set ws" for v
    using text_of_head [OF inner [OF that]] inner [OF that]
    by (cases v) (auto simp: encodable_def number_literal_def)
  moreover have "join_comma (map text_of vs) @ CHR '']'' # x = join_comma (map text_of ws) @ CHR '']'' # y"
    using JArray.prems w by (simp add: encodable_array(2))
  ultimately have "map sorted_json vs = map sorted_json ws \<and> x = y"
    by (intro join_comma_unique [where c = "CHR '']''"]) auto
  with w show ?case by simp
next
  case (JObject kvs)
  then obtain lws where w: "w = JObject lws"
    using same_text_same_kind [OF JObject(2-4)] by (cases w) (auto split: if_splits)
  let ?img = "\<lambda>kv. (fst kv, sorted_json (snd kv))"
  have inner: "encodable (snd kv)" if "kv \<in> set kvs \<union> set lws" for kv
    using that encodable_object(1) JObject.prems(1,2) w by blast
  have "?img kv = ?img lw \<and> x = y"
    if "kv \<in> set kvs" "lw \<in> set lws" "ends x" "ends y" "member_text kv @ x = member_text lw @ y" for kv lw x y
  proof -
    have "fst kv = fst lw \<and> CHR '':'' # text_of (snd kv) @ x = CHR '':'' # text_of (snd lw) @ y"
      using that(5) unfolding member_text_def text_of_def append_assoc append_Cons by (rule json_quote_unique)
    moreover have "encodable (snd kv)" "encodable (snd lw)" "snd kv \<in> Basic_BNFs.snds kv"
      using inner that(1,2) by (auto simp: prod_set_defs)
    ultimately show ?thesis
      using JObject.IH [OF that(1), of "snd kv" "snd lw" x y] that(3,4) by (simp del: sorted_json.simps)
  qed
  then have "reads member_text ?img (set (sort_key fst kvs)) (set (sort_key fst lws))"
    unfolding reads_def by simp
  moreover have "join_comma (map member_text (sort_key fst kvs)) @ CHR ''}'' # x =
      join_comma (map member_text (sort_key fst lws)) @ CHR ''}'' # y"
    using JObject.prems w by (simp add: encodable_object(2))
  ultimately have "map ?img (sort_key fst kvs) = map ?img (sort_key fst lws) \<and> x = y"
    by (intro join_comma_unique [where c = "CHR ''}''"]) (auto simp: member_text_def json_quote_def)
  with w show ?case by simp
next
  case JUnsupported
  then show ?case by (simp add: encodable_def)
qed

lemma canonical_sorted: "canonicaliseJSONValue (sorted_json v) = canonicaliseJSONValue v"
proof (induction v)
  case (JArray vs)
  then have "map (canonicaliseJSONValue \<circ> sorted_json) vs = map canonicaliseJSONValue vs"
    by simp
  then show ?case by (simp only: sorted_json.simps canonicaliseJSONValue.simps map_map)
next
  case (JObject kvs)
  let ?img = "\<lambda>kv. (fst kv, sorted_json (snd kv))"
  have "sorted (map fst (map ?img (sort_key fst kvs)))"
    by (simp add: comp_def)
  then have "sort_key fst (map ?img (sort_key fst kvs)) = map ?img (sort_key fst kvs)"
    by (rule sort_key_id_if_sorted)
  moreover have "canonicaliseJSONValue (sorted_json (snd kv)) = canonicaliseJSONValue (snd kv)"
    if "kv \<in> set kvs" for kv
    using JObject [OF that] by (simp add: prod_set_defs)
  ultimately show ?case
    unfolding sorted_json.simps canonicaliseJSONValue.simps
    by (intro arg_cong [of _ _ "map_option _"] arg_cong [of _ _ those]) simp
qed simp_all

text \<open>The order in which a Go map hands out its keys does not matter.\<close>

lemma same_json_map:
  assumes "distinct (map fst kvs)" and "distinct (map fst lws)" and "map_of kvs = map_of lws"
  shows "same_json (JObject kvs) (JObject lws)"
proof -
  have "set kvs = set lws"
    using assms by (simp add: map_of_inject_set [symmetric])
  moreover have "distinct kvs" "distinct lws"
    using assms by (simp_all add: distinct_map)
  ultimately have "mset kvs = mset lws" by (simp add: set_eq_iff_mset_eq_distinct)
  moreover have "inj_on fst (set kvs)" using assms by (simp add: distinct_map)
  ultimately have "sort_key fst kvs = sort_key fst lws"
    by (intro sort_key_inj_key_eq) simp_all
  then show ?thesis by (simp add: same_json_def)
qed

lemma text_eq_iff:
  assumes "encodable v" and "encodable w"
  shows "text_of v = text_of w \<longleftrightarrow> same_json v w"
proof
  assume "text_of v = text_of w"
  with text_unique [OF assms, of "[]" "[]"] show "same_json v w" by (simp add: same_json_def)
next
  assume "same_json v w"
  then show "text_of v = text_of w"
    unfolding same_json_def text_of_def by (metis canonical_sorted)
qed

subsection \<open>Property\<close>

text \<open>
  The canonical text of a JSON value determines it: two values that the encoder accepts have
  the same text exactly when they are the same value up to the order of object keys, so no choice
  of strings, keys or nesting makes two different events hash the same bytes.
\<close>

theorem canonical_text_faithful:
  assumes "wf_json v" and "wf_json w"
    and "canonicaliseJSONValue v = Some s" and "canonicaliseJSONValue w = Some t"
  shows "s = t \<longleftrightarrow> same_json v w"
  using text_eq_iff [of v w] assms by (simp add: encodable_def text_of_def)

text \<open>
  Moving a delimiter from one string to the next changes the text, and the order in which the
  keys of an object are given does not.
\<close>

theorem canonical_text_faithful_witness:
  "canonicaliseJSONValue (JArray [JString ''a|b'', JString ''c'']) \<noteq>
     canonicaliseJSONValue (JArray [JString ''a'', JString ''b|c'']) \<and>
   canonicaliseJSONValue (JObject [(''b'', JNull), (''a'', JBool True)]) =
     canonicaliseJSONValue (JObject [(''a'', JBool True), (''b'', JNull)])"
proof -
  obtain s t where s: "canonicaliseJSONValue (JArray [JString ''a|b'', JString ''c'']) = Some s"
    and t: "canonicaliseJSONValue (JArray [JString ''a'', JString ''b|c'']) = Some t"
    by simp
  have "s \<noteq> t"
    using canonical_text_faithful [OF _ _ s t] by (simp add: same_json_def)
  moreover obtain s' t' where s': "canonicaliseJSONValue (JObject [(''b'', JNull), (''a'', JBool True)]) = Some s'"
    and t': "canonicaliseJSONValue (JObject [(''a'', JBool True), (''b'', JNull)]) = Some t'"
    by simp
  have "s' = t'"
    using canonical_text_faithful [OF _ _ s' t'] by (simp add: same_json_def)
  ultimately show ?thesis unfolding s t s' t' by simp
qed

end
