(* ===== verification/Audit_Chain.thy ===== *)
theory Audit_Chain
  imports Canonical_Json Job_Store Go_Strings
begin

section \<open>The audit hash chain\<close>

text \<open>
  Every audit event is stored with the hash of its predecessor and a hash over that and its own
  fields. This theory models the producer (server/audit_trail.go, server/audit_hash_chain.go and
  the hash of audit/hashchain), the table (storage/sqlite/audit.go), the restore at start-up
  (server/state_restore.go) and the verifier (cmd/control-plane/verify_audit_chain.go).

  SHA-256 in hexadecimal and the rendering of an instant are parameters: \<open>digest\<close> and \<open>render\<close>.
  The table keeps the details of an event as a value, because the column holds the text
  \<^verbatim>\<open>encoding/json\<close> prints and the decoder inverts it on the values of \<open>json\<close>.
\<close>

subsection \<open>Events and their hash\<close>

type_synonym details = "(string \<times> json) list"

record audit_record =
  ar_id :: string
  ar_actorID :: string
  ar_action :: string
  ar_targetID :: string
  ar_createdAt :: gotime
  ar_details :: "details option"
  ar_prevHash :: string
  ar_eventHash :: string

text \<open>The fields the hash covers, as one JSON object.\<close>

definition covered :: "(gotime \<Rightarrow> string) \<Rightarrow> audit_record \<Rightarrow> json" where
  "covered render r =
     JObject [(''id'', JString (ar_id r)), (''actor_id'', JString (ar_actorID r)),
       (''action'', JString (ar_action r)), (''target_id'', JString (ar_targetID r)),
       (''created_at'', JString (render (ar_createdAt r))),
       (''details'', JObject (case ar_details r of None \<Rightarrow> [] | Some d \<Rightarrow> d))]"

definition hash_input :: "string \<Rightarrow> string \<Rightarrow> string" where
  "hash_input prevHash canonical = prevHash @ CHR 0x1F # canonical"

definition ComputeEventHash ::
    "(string \<Rightarrow> string) \<Rightarrow> (gotime \<Rightarrow> string) \<Rightarrow> string \<Rightarrow> audit_record \<Rightarrow> string option" where
  "ComputeEventHash digest render prevHash r =
     map_option (\<lambda>canonical. digest (hash_input prevHash canonical)) (canonicaliseJSONValue (covered render r))"

subsection \<open>The producer\<close>

record audit_state =
  as_seq :: uint64
  as_tail :: string

definition newSequenceID :: "string \<Rightarrow> uint64 \<Rightarrow> string" where
  "newSequenceID prefix v = prefix @ ''-'' @ pad_zero 7 (unat v)"

text \<open>\<^verbatim>\<open>Truncate(time.Second)\<close>, which counts from the zero instant.\<close>

definition truncate_second :: "gotime \<Rightarrow> gotime" where
  "truncate_second t = t - t mod second_ns"

definition normalizeAuditDetails :: "details option \<Rightarrow> details" where
  "normalizeAuditDetails d = (case d of None \<Rightarrow> [] | Some m \<Rightarrow> m)"

definition chainAuditRecordLocked ::
    "(string \<Rightarrow> string) \<Rightarrow> (gotime \<Rightarrow> string) \<Rightarrow> audit_record \<Rightarrow> audit_state \<Rightarrow> audit_record \<times> audit_state" where
  "chainAuditRecordLocked digest render r s =
     (case ComputeEventHash digest render (as_tail s) r of
        None \<Rightarrow> (r, s)
      | Some hash \<Rightarrow> (r\<lparr>ar_prevHash := as_tail s, ar_eventHash := hash\<rparr>, s\<lparr>as_tail := hash\<rparr>))"

text \<open>The critical section both append paths share.\<close>

definition append_locked ::
    "(string \<Rightarrow> string) \<Rightarrow> (gotime \<Rightarrow> string) \<Rightarrow> string \<Rightarrow> string \<Rightarrow> string \<Rightarrow> details option \<Rightarrow> gotime \<Rightarrow>
     audit_state \<Rightarrow> audit_record \<times> audit_state" where
  "append_locked digest render actorID action targetID details now s =
     (let n = as_seq s + 1;
          r = \<lparr>ar_id = newSequenceID ''audit'' n, ar_actorID = actorID, ar_action = action,
               ar_targetID = targetID, ar_createdAt = truncate_second now,
               ar_details = Some (normalizeAuditDetails details), ar_prevHash = [], ar_eventHash = []\<rparr>
      in chainAuditRecordLocked digest render r (s\<lparr>as_seq := n\<rparr>))"

subsection \<open>The table\<close>

record audit_row =
  aw_id :: string
  aw_actor_id :: string
  aw_action :: string
  aw_target_id :: string
  aw_created_at_unix :: int
  aw_details :: "details option"
  aw_prev_hash :: string
  aw_event_hash :: string

type_synonym audit_table = "audit_row list"

datatype audit_error = EncodeFailed | DuplicateId

definition audit_row_of :: "audit_record \<Rightarrow> audit_row" where
  "audit_row_of r =
     \<lparr>aw_id = ar_id r, aw_actor_id = ar_actorID r, aw_action = ar_action r, aw_target_id = ar_targetID r,
      aw_created_at_unix = toUnix (ar_createdAt r), aw_details = ar_details r,
      aw_prev_hash = ar_prevHash r, aw_event_hash = ar_eventHash r\<rparr>"

definition audit_of_row :: "audit_row \<Rightarrow> audit_record" where
  "audit_of_row x =
     \<lparr>ar_id = aw_id x, ar_actorID = aw_actor_id x, ar_action = aw_action x, ar_targetID = aw_target_id x,
      ar_createdAt = fromUnix (aw_created_at_unix x), ar_details = aw_details x,
      ar_prevHash = aw_prev_hash x, ar_eventHash = aw_event_hash x\<rparr>"

text \<open>A missing map is stored as the text \<^verbatim>\<open>null\<close>; any other map as its object.\<close>

definition encodeJSON :: "details option \<Rightarrow> string option" where
  "encodeJSON d = (case d of None \<Rightarrow> Some ''null'' | Some m \<Rightarrow> canonicaliseJSONValue (JObject m))"

definition AppendAuditEvent :: "audit_record \<Rightarrow> audit_table \<Rightarrow> audit_error + audit_table" where
  "AppendAuditEvent event t =
     (if encodeJSON (ar_details event) = None then Inl EncodeFailed
      else if list_ex (\<lambda>x. aw_id x = ar_id event) t then Inl DuplicateId
      else Inr (t @ [audit_row_of event]))"

definition audit_key :: "audit_row \<Rightarrow> int \<times> string" where
  "audit_key x = (aw_created_at_unix x, aw_id x)"

text \<open>The rows in ascending order of creation and identifier.\<close>

definition ascending :: "audit_table \<Rightarrow> audit_table" where
  "ascending t = sort_key audit_key t"

definition LatestAuditChainHash :: "audit_table \<Rightarrow> string" where
  "LatestAuditChainHash t = (case rev (ascending t) of [] \<Rightarrow> [] | x # _ \<Rightarrow> aw_event_hash x)"

definition ListAuditEvents :: "int \<Rightarrow> audit_table \<Rightarrow> audit_record list" where
  "ListAuditEvents limit t =
     (let n = nat (if limit \<le> 0 then 1024 else limit)
      in map audit_of_row (rev (take n (rev (ascending t)))))"

text \<open>One chunk of a prune: the first rows below the cutoff, at most \<open>chunk\<close> of them.\<close>

fun delete_some :: "('a \<Rightarrow> bool) \<Rightarrow> nat \<Rightarrow> 'a list \<Rightarrow> 'a list" where
  "delete_some old k [] = []"
| "delete_some old k (x # xs) =
     (if old x then (case k of 0 \<Rightarrow> x # xs | Suc k' \<Rightarrow> delete_some old k' xs) else x # delete_some old k xs)"

fun pruneChunked :: "nat \<Rightarrow> nat \<Rightarrow> ('a \<Rightarrow> bool) \<Rightarrow> 'a list \<Rightarrow> nat \<times> 'a list" where
  "pruneChunked 0 chunk old t = (0, t)"
| "pruneChunked (Suc i) chunk old t =
     (let t' = delete_some old chunk t; affected = length t - length t'
      in if affected < chunk then (affected, t')
         else (let (total, t'') = pruneChunked i chunk old t' in (affected + total, t'')))"

definition pruneChunkSize :: nat where "pruneChunkSize = 10000"

definition pruneMaxIterations :: nat where "pruneMaxIterations = 5000"

definition PruneAuditEvents :: "gotime \<Rightarrow> audit_table \<Rightarrow> nat \<times> audit_table" where
  "PruneAuditEvents before t =
     pruneChunked pruneMaxIterations pruneChunkSize (\<lambda>x. aw_created_at_unix x < toUnix before) t"

definition auditFirstPageLimit :: int where "auditFirstPageLimit = 1024"

definition restoreAuditSeq :: "audit_table \<Rightarrow> audit_state \<Rightarrow> audit_state" where
  "restoreAuditSeq t s =
     s\<lparr>as_seq := fold (\<lambda>r n. MaxPrefixed n ''audit'' (ar_id r)) (ListAuditEvents auditFirstPageLimit t) (as_seq s),
       as_tail := LatestAuditChainHash t\<rparr>"

subsection \<open>The verifier\<close>

text \<open>\<^verbatim>\<open>strings.EqualFold\<close> against a text in ASCII hexadecimal.\<close>

definition EqualFold :: "string \<Rightarrow> string \<Rightarrow> bool" where
  "EqualFold s t \<longleftrightarrow> map ascii_lower s = map ascii_lower t"

datatype verdict =
    Consistent nat
  | PrevMismatch string
  | HashMismatch string nat
  | ComputeFailed string

fun verify_rows ::
    "(string \<Rightarrow> string) \<Rightarrow> (gotime \<Rightarrow> string) \<Rightarrow> string \<Rightarrow> nat \<Rightarrow> nat \<Rightarrow> audit_record list \<Rightarrow> verdict" where
  "verify_rows digest render prev i skipped [] = Consistent skipped"
| "verify_rows digest render prev i skipped (r # rs) =
     (if prev = [] \<and> ar_prevHash r = [] \<and> ar_eventHash r = []
      then verify_rows digest render prev (Suc i) (Suc skipped) rs
      else if ar_prevHash r \<noteq> prev then PrevMismatch (ar_id r)
      else case ComputeEventHash digest render prev r of
          None \<Rightarrow> ComputeFailed (ar_id r)
        | Some recomputed \<Rightarrow>
            if \<not> EqualFold (ar_eventHash r) recomputed then HashMismatch (ar_id r) i
            else verify_rows digest render (ar_eventHash r) (Suc i) skipped rs)"

definition verifyAuditChainRows ::
    "(string \<Rightarrow> string) \<Rightarrow> (gotime \<Rightarrow> string) \<Rightarrow> audit_record list \<Rightarrow> verdict" where
  "verifyAuditChainRows digest render rows = verify_rows digest render [] 0 0 rows"

subsection \<open>Runs of the panel\<close>

text \<open>
  The chain producer, the queue of the asynchronous writer and the table. An asynchronous append
  queues its record, a synchronous one writes it at once, so the table may be ahead of the
  queue. The steps are those of a panel whose clock does not go back, whose writes reach the
  database, and which drains the queue before it restarts; \<open>au_clock\<close> and \<open>au_log\<close>, the events
  that were hashed in order, only serve the statements.
\<close>

record audit_system =
  au_server :: audit_state
  au_queue :: "audit_record list"
  au_table :: audit_table
  au_clock :: gotime
  au_log :: "audit_record list"

definition store_event :: "audit_record \<Rightarrow> audit_table \<Rightarrow> audit_table" where
  "store_event r t = (case AppendAuditEvent r t of Inl _ \<Rightarrow> t | Inr t' \<Rightarrow> t')"

definition logged :: "audit_record \<Rightarrow> audit_record list" where
  "logged r = (if encodeJSON (ar_details r) = None then [] else [r])"

definition appendAuditWithContext ::
    "(string \<Rightarrow> string) \<Rightarrow> (gotime \<Rightarrow> string) \<Rightarrow> string \<Rightarrow> string \<Rightarrow> string \<Rightarrow> details option \<Rightarrow> gotime \<Rightarrow>
     audit_system \<Rightarrow> audit_system" where
  "appendAuditWithContext digest render actorID action targetID details now a =
     (let (r, s) = append_locked digest render actorID action targetID details now (au_server a)
      in a\<lparr>au_server := s, au_queue := au_queue a @ [r], au_clock := now, au_log := au_log a @ logged r\<rparr>)"

definition appendAuditSync ::
    "(string \<Rightarrow> string) \<Rightarrow> (gotime \<Rightarrow> string) \<Rightarrow> string \<Rightarrow> string \<Rightarrow> string \<Rightarrow> details option \<Rightarrow> gotime \<Rightarrow>
     audit_system \<Rightarrow> audit_error option \<times> audit_system" where
  "appendAuditSync digest render actorID action targetID details now a =
     (let (r, s) = append_locked digest render actorID action targetID details now (au_server a);
          a1 = a\<lparr>au_server := s, au_clock := now, au_log := au_log a @ logged r\<rparr>
      in case AppendAuditEvent r (au_table a) of
           Inl err \<Rightarrow> (Some err, a1)
         | Inr t \<Rightarrow> (None, a1\<lparr>au_table := t\<rparr>))"

definition flush_one :: "audit_system \<Rightarrow> audit_system" where
  "flush_one a =
     (case au_queue a of [] \<Rightarrow> a
      | r # rs \<Rightarrow> a\<lparr>au_queue := rs, au_table := store_event r (au_table a)\<rparr>)"

definition restart :: "audit_system \<Rightarrow> audit_system" where
  "restart a = a\<lparr>au_server := restoreAuditSeq (au_table a) \<lparr>as_seq = 0, as_tail = []\<rparr>\<rparr>"

text \<open>Identifiers sort by number as long as they have seven digits.\<close>

inductive audit_step ::
    "(string \<Rightarrow> string) \<Rightarrow> (gotime \<Rightarrow> string) \<Rightarrow> audit_system \<Rightarrow> audit_system \<Rightarrow> bool"
  for digest :: "string \<Rightarrow> string" and render :: "gotime \<Rightarrow> string" where
  async: "au_clock a \<le> now \<Longrightarrow> unat (as_seq (au_server a)) + 1 < 10 ^ 7 \<Longrightarrow>
     audit_step digest render a (appendAuditWithContext digest render actorID action targetID details now a)"
| sync: "au_clock a \<le> now \<Longrightarrow> unat (as_seq (au_server a)) + 1 < 10 ^ 7 \<Longrightarrow>
     audit_step digest render a (snd (appendAuditSync digest render actorID action targetID details now a))"
| flush: "audit_step digest render a (flush_one a)"
| restarted: "au_queue a = [] \<Longrightarrow> audit_step digest render a (restart a)"

definition new_audit_system :: audit_system where
  "new_audit_system =
     \<lparr>au_server = \<lparr>as_seq = 0, as_tail = []\<rparr>, au_queue = [], au_table = [], au_clock = 0, au_log = []\<rparr>"

inductive audit_reachable :: "(string \<Rightarrow> string) \<Rightarrow> (gotime \<Rightarrow> string) \<Rightarrow> audit_system \<Rightarrow> bool"
  for digest :: "string \<Rightarrow> string" and render :: "gotime \<Rightarrow> string" where
  start: "audit_reachable digest render new_audit_system"
| step: "audit_reachable digest render a \<Longrightarrow> audit_step digest render a a' \<Longrightarrow> audit_reachable digest render a'"

subsection \<open>Times and identifiers\<close>

definition whole_second :: "gotime \<Rightarrow> bool" where
  "whole_second t \<longleftrightarrow> t mod second_ns = 0"

lemma second_pos: "0 < second_ns"
  by (simp add: second_ns_def)

lemma truncate_second_props:
  "whole_second (truncate_second t)" "truncate_second t \<le> t"
  "whole_second u \<Longrightarrow> u \<le> t \<Longrightarrow> u \<le> truncate_second t"
proof -
  have eq: "truncate_second t = second_ns * (t div second_ns)"
    by (simp add: truncate_second_def minus_mod_eq_mult_div)
  show "whole_second (truncate_second t)" by (simp add: eq whole_second_def)
  show "truncate_second t \<le> t" using second_pos by (simp add: truncate_second_def)
  assume u: "whole_second u" "u \<le> t"
  have "u = second_ns * (u div second_ns)" using u(1) by (auto simp: whole_second_def)
  also have "\<dots> \<le> second_ns * (t div second_ns)"
    using zdiv_mono1 [OF u(2) second_pos] second_pos by simp
  finally show "u \<le> truncate_second t" by (simp add: eq)
qed

lemma whole_second_unix:
  "whole_second t \<Longrightarrow> fromUnix (toUnix t) = t"
  "whole_second t \<Longrightarrow> whole_second u \<Longrightarrow> t \<le> u \<Longrightarrow> toUnix t < toUnix u \<or> t = u"
proof -
  assume "whole_second t"
  then show t: "fromUnix (toUnix t) = t"
    by (auto simp: whole_second_def fromUnix_def toUnix_def)
  assume "whole_second u" "t \<le> u"
  then have u: "fromUnix (toUnix u) = u"
    by (auto simp: whole_second_def fromUnix_def toUnix_def)
  have "toUnix t \<le> toUnix u"
    using zdiv_mono1 [OF \<open>t \<le> u\<close> second_pos] by (simp add: toUnix_def)
  with t u show "toUnix t < toUnix u \<or> t = u" by (metis order_le_less)
qed

lemma audit_round_trip: "whole_second (ar_createdAt r) \<Longrightarrow> audit_of_row (audit_row_of r) = r"
  by (simp add: audit_of_row_def audit_row_of_def whole_second_unix)

definition audit_id :: "uint64 \<Rightarrow> string" where
  "audit_id n = newSequenceID ''audit'' n"

lemma audit_id_less:
  assumes "unat m < 10 ^ 7" and "unat n < 10 ^ 7"
  shows "audit_id m < audit_id n \<longleftrightarrow> m < n"
  using pad_zero_less_iff [of 7 "unat m" "unat n"] assms
  by (simp add: audit_id_def newSequenceID_def word_less_nat_alt)

lemma audit_id_inject: "audit_id m = audit_id n \<longleftrightarrow> m = n"
  by (simp add: audit_id_def newSequenceID_def pad_zero_inject word_unat_eq_iff)

lemma MaxPrefixed_audit: "MaxPrefixed c ''audit'' (audit_id n) = max c n"
  using MaxPrefixed_pad [of c "''audit''" 7 n] by (simp add: audit_id_def newSequenceID_def)

subsection \<open>Chains\<close>

fun chained :: "(string \<Rightarrow> string) \<Rightarrow> (gotime \<Rightarrow> string) \<Rightarrow> string \<Rightarrow> audit_record list \<Rightarrow> string \<Rightarrow> bool" where
  "chained digest render prev [] tail \<longleftrightarrow> tail = prev"
| "chained digest render prev (r # rs) tail \<longleftrightarrow>
     ar_prevHash r = prev \<and> ComputeEventHash digest render prev r = Some (ar_eventHash r) \<and>
     chained digest render (ar_eventHash r) rs tail"

lemma chained_snoc:
  "chained digest render prev (rs @ [r]) tail \<longleftrightarrow>
     chained digest render prev rs (ar_prevHash r) \<and>
     ComputeEventHash digest render (ar_prevHash r) r = Some (ar_eventHash r) \<and> tail = ar_eventHash r"
  by (induction rs arbitrary: prev) auto

lemma chained_last: "chained digest render prev rs tail \<Longrightarrow> rs \<noteq> [] \<Longrightarrow> tail = ar_eventHash (last rs)"
  by (induction rs arbitrary: prev) (auto split: if_splits)

lemma chained_verified: "chained digest render prev rs tail \<Longrightarrow> \<exists>k. verify_rows digest render prev i skipped rs = Consistent k"
proof (induction rs arbitrary: prev i skipped)
  case (Cons r rs)
  then have "chained digest render (ar_eventHash r) rs tail" by simp
  note IH = Cons.IH [OF this]
  from Cons.prems IH show ?case by (auto simp: EqualFold_def)
qed simp

lemma covered_update [simp]:
  "covered render (r\<lparr>ar_prevHash := p\<rparr>) = covered render r"
  "covered render (r\<lparr>ar_eventHash := p\<rparr>) = covered render r"
  by (simp_all add: covered_def)

lemma Compute_update [simp]:
  "ComputeEventHash digest render prev (r\<lparr>ar_prevHash := p, ar_eventHash := e\<rparr>) = ComputeEventHash digest render prev r"
  by (simp add: ComputeEventHash_def)

text \<open>The hash fails exactly when the details cannot be encoded.\<close>

lemma those_None: "those xs = None \<longleftrightarrow> None \<in> set xs"
  by (induction xs) (auto split: option.splits)

lemma object_encodes:
  "canonicaliseJSONValue (JObject kvs) = None \<longleftrightarrow> (\<exists>kv \<in> set kvs. canonicaliseJSONValue (snd kv) = None)"
  by (auto simp: those_None image_iff)

lemma Compute_None:
  "ar_details r = Some d \<Longrightarrow>
     ComputeEventHash digest render prev r = None \<longleftrightarrow> encodeJSON (ar_details r) = None"
  unfolding ComputeEventHash_def covered_def option.map_disc_iff
  by (subst object_encodes) (simp add: encodeJSON_def del: canonicaliseJSONValue.simps(6))

subsection \<open>What an append adds\<close>

lemma append_locked_cases:
  fixes actorID action targetID details now s
  assumes "append_locked digest render actorID action targetID details now s = (r, s')"
  defines "n \<equiv> as_seq s + 1"
  obtains (hashed) "logged r = [r]" and "as_tail s' = ar_eventHash r" and "ar_prevHash r = as_tail s"
      and "ComputeEventHash digest render (as_tail s) r = Some (ar_eventHash r)"
      and "ar_id r = audit_id n" and "as_seq s' = n" and "ar_createdAt r = truncate_second now"
  | (refused) "logged r = []" and "as_tail s' = as_tail s" and "as_seq s' = n"
      and "encodeJSON (ar_details r) = None"
proof -
  define r0 where "r0 = \<lparr>ar_id = newSequenceID ''audit'' n, ar_actorID = actorID, ar_action = action,
    ar_targetID = targetID, ar_createdAt = truncate_second now,
    ar_details = Some (normalizeAuditDetails details), ar_prevHash = [], ar_eventHash = []\<rparr>"
  have eq: "chainAuditRecordLocked digest render r0 (s\<lparr>as_seq := n\<rparr>) = (r, s')"
    using assms(1) by (simp add: append_locked_def Let_def r0_def n_def)
  have details: "ar_details r0 = Some (normalizeAuditDetails details)" by (simp add: r0_def)
  note iff = Compute_None [OF details, of digest render "as_tail s"]
  show ?thesis
  proof (cases "ComputeEventHash digest render (as_tail s) r0")
    case None
    with eq have "r = r0" "s' = s\<lparr>as_seq := n\<rparr>" by (simp_all add: chainAuditRecordLocked_def)
    with None iff that(2) show ?thesis by (simp add: logged_def)
  next
    case (Some h)
    with eq have r: "r = r0\<lparr>ar_prevHash := as_tail s, ar_eventHash := h\<rparr>"
      and "s' = s\<lparr>as_seq := n, as_tail := h\<rparr>"
      by (simp_all add: chainAuditRecordLocked_def)
    moreover have "encodeJSON (ar_details r0) \<noteq> None" using Some iff by simp
    ultimately show ?thesis
      using Some by (intro that(1)) (simp_all add: logged_def, simp_all add: r0_def audit_id_def)
  qed
qed

subsection \<open>Invariant\<close>

text \<open>
  The logged events are chained, strictly ascending in the order of the table, numbered in
  order, and each of them is in the table or still queued.
\<close>

definition log_ok :: "(string \<Rightarrow> string) \<Rightarrow> (gotime \<Rightarrow> string) \<Rightarrow> audit_system \<Rightarrow> bool" where
  "log_ok digest render a \<longleftrightarrow>
     chained digest render [] (au_log a) (as_tail (au_server a)) \<and>
     sorted_wrt (<) (map (\<lambda>r. audit_key (audit_row_of r)) (au_log a)) \<and>
     (\<forall>r \<in> set (au_log a). whole_second (ar_createdAt r) \<and> ar_createdAt r \<le> au_clock a \<and>
        encodeJSON (ar_details r) \<noteq> None) \<and>
     (\<exists>ns. map ar_id (au_log a) = map audit_id ns \<and> sorted_wrt (<) ns \<and>
        (\<forall>n \<in> set ns. n \<le> as_seq (au_server a) \<and> unat n < 10 ^ 7))"

definition stored_ok :: "audit_system \<Rightarrow> bool" where
  "stored_ok a \<longleftrightarrow>
     mset (au_table a) + mset (map audit_row_of (concat (map logged (au_queue a)))) =
     mset (map audit_row_of (au_log a))"

lemma log_distinct:
  assumes "log_ok digest render a"
  shows "distinct (map ar_id (au_log a))"
proof -
  obtain ns where "map ar_id (au_log a) = map audit_id ns" "sorted_wrt (<) ns"
    using assms by (auto simp: log_ok_def)
  moreover from this(2) have "distinct ns" using strict_sorted_iff by blast
  ultimately show ?thesis by (simp add: distinct_map inj_on_def audit_id_inject)
qed

text \<open>An event that is hashed next extends the log.\<close>

lemma log_ok_append:
  assumes ok: "log_ok digest render a" and clock: "au_clock a \<le> now"
    and room: "unat (as_seq (au_server a)) + 1 < 10 ^ 7"
    and app: "append_locked digest render actorID action targetID details now (au_server a) = (r, s')"
    and a': "au_log a' = au_log a @ logged r" "au_server a' = s'" "au_clock a' = now"
  shows "log_ok digest render a' \<and> (logged r \<noteq> [] \<longrightarrow> ar_id r \<notin> ar_id ` set (au_log a))"
proof -
  let ?n = "as_seq (au_server a) + 1"
  have "as_seq (au_server a) \<noteq> - 1"
    using room by (auto simp: unsigned_minus_1_eq_mask mask_eq_exp_minus_1)
  note inc = unat_inc [OF this] word_inc_greater [OF this]
  obtain ns where ns: "map ar_id (au_log a) = map audit_id ns" "sorted_wrt (<) ns"
    "\<forall>n \<in> set ns. n \<le> as_seq (au_server a) \<and> unat n < 10 ^ 7"
    using ok by (auto simp: log_ok_def)
  have below: "n < ?n \<and> n \<le> ?n" if "n \<in> set ns" for n
    using ns(3) that inc(2) by (meson le_less_trans less_imp_le)
  have old: "whole_second (ar_createdAt q) \<and> ar_createdAt q \<le> now \<and> encodeJSON (ar_details q) \<noteq> None"
    if "q \<in> set (au_log a)" for q
    using ok that clock unfolding log_ok_def by (meson order_trans)
  from app show ?thesis
  proof (cases rule: append_locked_cases)
    case hashed
    have num: "\<exists>n \<in> set ns. ar_id q = audit_id n" if "q \<in> set (au_log a)" for q
      using ns(1) that by (metis imageE image_eqI list.set_map)
    have fresh: "ar_id r \<notin> ar_id ` set (au_log a)"
    proof
      assume "ar_id r \<in> ar_id ` set (au_log a)"
      then obtain n where "n \<in> set ns" "ar_id r = audit_id n" using num by (metis imageE)
      with below [of n] hashed(5) show False by (simp add: audit_id_inject)
    qed
    have later: "audit_key (audit_row_of q) < audit_key (audit_row_of r)" if q: "q \<in> set (au_log a)" for q
    proof -
      obtain n where n: "n \<in> set ns" "ar_id q = audit_id n" using num [OF q] by blast
      then have "ar_id q < ar_id r"
        using hashed(5) below [OF n(1)] ns(3) room inc(1) by (simp add: audit_id_less)
      moreover have "toUnix (ar_createdAt q) < toUnix (ar_createdAt r) \<or> ar_createdAt q = ar_createdAt r"
        using old [OF q] hashed(7) truncate_second_props by (intro whole_second_unix(2)) auto
      ultimately show ?thesis by (auto simp: audit_key_def audit_row_of_def)
    qed
    have "map ar_id (au_log a') = map audit_id (ns @ [?n])" "sorted_wrt (<) (ns @ [?n])"
      using ns below hashed a' by (simp_all add: sorted_wrt_append)
    moreover have "\<forall>n \<in> set (ns @ [?n]). n \<le> as_seq (au_server a') \<and> unat n < 10 ^ 7"
      using ns(3) below hashed a' room inc(1) by auto
    ultimately have ids: "\<exists>ns. map ar_id (au_log a') = map audit_id ns \<and> sorted_wrt (<) ns \<and>
        (\<forall>n \<in> set ns. n \<le> as_seq (au_server a') \<and> unat n < 10 ^ 7)" by blast
    have "encodeJSON (ar_details r) \<noteq> None"
      using hashed(1) by (auto simp: logged_def split: if_splits)
    then have each: "\<forall>q \<in> set (au_log a'). whole_second (ar_createdAt q) \<and> ar_createdAt q \<le> au_clock a' \<and>
        encodeJSON (ar_details q) \<noteq> None"
      using old hashed a' truncate_second_props by auto
    have "chained digest render [] (au_log a') (as_tail (au_server a'))"
      using ok hashed a' by (simp add: log_ok_def chained_snoc)
    moreover have "sorted_wrt (<) (map (\<lambda>r. audit_key (audit_row_of r)) (au_log a'))"
      using ok later hashed(1) a' by (simp add: log_ok_def sorted_wrt_append)
    ultimately show ?thesis
      using ids each fresh unfolding log_ok_def by blast
  next
    case refused
    have "chained digest render [] (au_log a') (as_tail (au_server a'))"
      "sorted_wrt (<) (map (\<lambda>r. audit_key (audit_row_of r)) (au_log a'))"
      using ok refused a' by (simp_all add: log_ok_def)
    moreover have "\<forall>n \<in> set ns. n \<le> as_seq (au_server a') \<and> unat n < 10 ^ 7"
      using ns(3) below refused a' by auto
    ultimately show ?thesis
      unfolding log_ok_def using old ns refused a' by auto
  qed
qed

subsection \<open>The table follows the log\<close>

lemma stored_ids:
  assumes "stored_ok a" and "x \<in> set (au_table a)"
  shows "aw_id x \<in> ar_id ` set (au_log a)"
proof -
  have "x \<in># mset (map audit_row_of (au_log a))"
    using assms unfolding stored_ok_def by (metis union_iff set_mset_mset)
  then show ?thesis by (auto simp: audit_row_of_def)
qed

lemma store_logged:
  assumes "logged r = [r]" and "ar_id r \<notin> aw_id ` set t"
  shows "AppendAuditEvent r t = Inr (t @ [audit_row_of r])" and "store_event r t = t @ [audit_row_of r]"
proof -
  have "\<not> list_ex (\<lambda>x. aw_id x = ar_id r) t" using assms(2) by (force simp: list_ex_iff)
  with assms(1) show "AppendAuditEvent r t = Inr (t @ [audit_row_of r])"
    by (simp add: AppendAuditEvent_def logged_def split: if_splits)
  then show "store_event r t = t @ [audit_row_of r]" by (simp add: store_event_def)
qed

lemma store_refused: "logged r = [] \<Longrightarrow> AppendAuditEvent r t = Inl EncodeFailed \<and> store_event r t = t"
  by (auto simp: AppendAuditEvent_def store_event_def logged_def split: if_splits)

lemma logged_cases: "logged r = [r] \<or> logged r = []"
  by (simp add: logged_def)

lemma flush_stored:
  assumes log: "distinct (map ar_id (au_log a))" and ok: "stored_ok a"
  shows "stored_ok (flush_one a)"
proof (cases "au_queue a")
  case Nil
  with ok show ?thesis by (simp add: flush_one_def)
next
  case (Cons r rs)
  show ?thesis
  proof (cases "logged r = []")
    case True
    with ok Cons show ?thesis by (simp add: flush_one_def stored_ok_def store_refused)
  next
    case False
    then have r: "logged r = [r]" using logged_cases by blast
    have "mset (au_table a) + mset (audit_row_of r # map audit_row_of (concat (map logged rs))) =
        mset (map audit_row_of (au_log a))"
      using ok Cons r by (simp add: stored_ok_def)
    then have "mset (map aw_id (au_table a @ audit_row_of r # map audit_row_of (concat (map logged rs)))) =
        mset (map aw_id (map audit_row_of (au_log a)))"
      by (metis mset_append mset_map)
    moreover have "map aw_id (map audit_row_of (au_log a)) = map ar_id (au_log a)"
      by (simp add: audit_row_of_def)
    ultimately have "distinct (map aw_id (au_table a @ audit_row_of r # map audit_row_of (concat (map logged rs))))"
      using log by (metis mset_eq_imp_distinct_iff)
    then have "ar_id r \<notin> aw_id ` set (au_table a)" by (auto simp: audit_row_of_def)
    with ok Cons r show ?thesis by (simp add: flush_one_def stored_ok_def store_logged)
  qed
qed

text \<open>Once the queue is empty, the rows in table order are the log.\<close>

lemma drained_rows:
  assumes log: "log_ok digest render a" and ok: "stored_ok a" and "au_queue a = []"
  shows "ascending (au_table a) = map audit_row_of (au_log a)"
    and "map audit_of_row (ascending (au_table a)) = au_log a"
proof -
  have sorted: "sorted_wrt (<) (map audit_key (map audit_row_of (au_log a)))"
    using log by (simp add: log_ok_def comp_def)
  have same: "mset (au_table a) = mset (map audit_row_of (au_log a))"
    using ok assms(3) by (simp add: stored_ok_def)
  have "inj_on audit_key (set (map audit_row_of (au_log a)))"
    using sorted by (metis distinct_map strict_sorted_iff)
  moreover have "set (au_table a) = set (map audit_row_of (au_log a))"
    using same by (metis set_mset_mset)
  ultimately have "inj_on audit_key (set (au_table a))" by simp
  then show rows: "ascending (au_table a) = map audit_row_of (au_log a)"
    unfolding ascending_def using same sorted
    by (intro sort_key_inj_key_eq) (simp_all add: strict_sorted_iff)
  show "map audit_of_row (ascending (au_table a)) = au_log a"
    unfolding rows using log by (auto simp: log_ok_def audit_round_trip intro!: map_idI)
qed

lemma fold_MaxPrefixed:
  "c \<le> fold (\<lambda>r n. MaxPrefixed n ''audit'' (ar_id r)) rs c"
  by (induction rs arbitrary: c) (simp_all, meson MaxPrefixed_ge order_trans)

text \<open>A restart finds the tail and a sequence number that covers every stored event.\<close>

lemma restart_log_ok:
  assumes log: "log_ok digest render a" and ok: "stored_ok a" and empty: "au_queue a = []"
  shows "log_ok digest render (restart a)"
proof -
  note rows = drained_rows [OF assms]
  obtain ns where ns: "map ar_id (au_log a) = map audit_id ns" "sorted_wrt (<) ns"
    "\<forall>n \<in> set ns. n \<le> as_seq (au_server a) \<and> unat n < 10 ^ 7"
    using log by (auto simp: log_ok_def)
  let ?s = "au_server (restart a)"
  have tail: "as_tail ?s = as_tail (au_server a)"
  proof (cases "au_log a = []")
    case True
    with log show ?thesis by (simp add: restart_def restoreAuditSeq_def LatestAuditChainHash_def rows log_ok_def)
  next
    case False
    then obtain qs q where q: "au_log a = qs @ [q]" by (meson rev_exhaust)
    with log chained_last [of digest render "[]" "au_log a" "as_tail (au_server a)"] show ?thesis
      by (simp add: restart_def restoreAuditSeq_def LatestAuditChainHash_def rows log_ok_def audit_row_of_def)
  qed
  have seq: "\<forall>n \<in> set ns. n \<le> as_seq ?s"
  proof (cases "ns = []")
    case False
    then obtain ms m where ms: "ns = ms @ [m]" by (meson rev_exhaust)
    with ns(1) obtain qs q where q: "au_log a = qs @ [q]" "ar_id q = audit_id m"
      by (cases "au_log a" rule: rev_cases) auto
    have page: "ListAuditEvents auditFirstPageLimit (au_table a) =
        map audit_of_row (rev (take 1023 (rev (map audit_row_of qs)))) @ [q]"
      using log q by (simp add: ListAuditEvents_def auditFirstPageLimit_def rows log_ok_def audit_round_trip)
    have "as_seq ?s = max (fold (\<lambda>r n. MaxPrefixed n ''audit'' (ar_id r))
        (map audit_of_row (rev (take 1023 (rev (map audit_row_of qs))))) 0) m"
      unfolding restart_def restoreAuditSeq_def audit_system.simps audit_state.simps page
      by (simp add: q(2) MaxPrefixed_audit)
    moreover have "n \<le> m" if "n \<in> set ns" for n
      using that ns(2) by (auto simp: ms sorted_wrt_append)
    ultimately show ?thesis by (simp add: max.coboundedI2)
  qed simp
  show ?thesis
    unfolding log_ok_def using log ns seq tail by (auto simp: log_ok_def restart_def)
qed

lemma audit_inv_step:
  assumes "audit_step digest render a a'" and log: "log_ok digest render a" and ok: "stored_ok a"
  shows "log_ok digest render a' \<and> stored_ok a'"
  using assms(1)
proof cases
  case (async now actorID action targetID details)
  obtain r s' where app: "append_locked digest render actorID action targetID details now (au_server a) = (r, s')"
    by (meson surj_pair)
  have a': "a' = a\<lparr>au_server := s', au_queue := au_queue a @ [r], au_clock := now, au_log := au_log a @ logged r\<rparr>"
    using async(1) app by (simp add: appendAuditWithContext_def)
  from log_ok_append [OF log async(2,3) app, of a'] ok show ?thesis
    by (simp add: a' stored_ok_def add.assoc [symmetric])
next
  case (sync now actorID action targetID details)
  obtain r s' where app: "append_locked digest render actorID action targetID details now (au_server a) = (r, s')"
    by (meson surj_pair)
  let ?a = "a\<lparr>au_server := s', au_clock := now, au_log := au_log a @ logged r\<rparr>"
  note logged_ok = log_ok_append [OF log sync(2,3) app, of ?a]
  show ?thesis
  proof (cases "logged r = []")
    case True
    with sync(1) app have "a' = ?a" by (simp add: appendAuditSync_def store_refused)
    with logged_ok True ok show ?thesis by (simp add: stored_ok_def)
  next
    case False
    then have r: "logged r = [r]" using logged_cases by blast
    have "ar_id r \<notin> aw_id ` set (au_table a)"
      using logged_ok False stored_ids [OF ok] by auto
    with sync(1) app r have "a' = ?a\<lparr>au_table := au_table a @ [audit_row_of r]\<rparr>"
      by (simp add: appendAuditSync_def store_logged)
    with logged_ok r ok show ?thesis by (simp add: stored_ok_def log_ok_def)
  qed
next
  case flush
  have "au_log (flush_one a) = au_log a" "au_server (flush_one a) = au_server a" "au_clock (flush_one a) = au_clock a"
    by (simp_all add: flush_one_def split: list.splits)
  with log flush_stored [OF log_distinct [OF log] ok] flush show ?thesis by (simp add: log_ok_def)
next
  case restarted
  with restart_log_ok [OF log ok] ok show ?thesis by (simp add: stored_ok_def restart_def)
qed

lemma audit_inv: "audit_reachable digest render a \<Longrightarrow> log_ok digest render a \<and> stored_ok a"
proof (induction rule: audit_reachable.induct)
  case start
  then show ?case by (simp add: log_ok_def stored_ok_def new_audit_system_def)
next
  case (step a a')
  then show ?case using audit_inv_step by blast
qed

end
