(* ===== verification/Audit_Properties.thy ===== *)
theory Audit_Properties
  imports Audit_Chain
begin

section \<open>Properties of the audit hash chain\<close>

text \<open>
  What acceptance by the verifier means for a list of rows, what the last hash says about the
  rows before it, what the retention sweep does to a chain, and a sample chain under an injective
  digest.
\<close>

subsection \<open>What the verifier accepts\<close>

definition legacy :: "audit_record \<Rightarrow> bool" where
  "legacy r \<longleftrightarrow> ar_prevHash r = [] \<and> ar_eventHash r = []"

definition tail_hash :: "audit_record list \<Rightarrow> string" where
  "tail_hash rs = (if rs = [] then [] else ar_eventHash (last rs))"

definition link :: "(string \<Rightarrow> string) \<Rightarrow> (gotime \<Rightarrow> string) \<Rightarrow> string \<Rightarrow> audit_record \<Rightarrow> bool" where
  "link digest render prev r \<longleftrightarrow>
     ar_prevHash r = prev \<and>
     (\<exists>h. ComputeEventHash digest render prev r = Some h \<and> EqualFold (ar_eventHash r) h)"

fun linked :: "(string \<Rightarrow> string) \<Rightarrow> (gotime \<Rightarrow> string) \<Rightarrow> string \<Rightarrow> audit_record list \<Rightarrow> bool" where
  "linked digest render prev [] \<longleftrightarrow> True"
| "linked digest render prev (r # rs) \<longleftrightarrow> link digest render prev r \<and> linked digest render (ar_eventHash r) rs"

lemma linked_snoc:
  "linked digest render prev (rs @ [r]) \<longleftrightarrow>
     linked digest render prev rs \<and> link digest render (if rs = [] then prev else tail_hash rs) r"
  by (induction rs arbitrary: prev) (auto simp: tail_hash_def)

lemma EqualFold_Nil [simp]: "EqualFold [] t \<longleftrightarrow> t = []" "EqualFold s [] \<longleftrightarrow> s = []"
  by (auto simp: EqualFold_def)

lemma link_hash_nonempty:
  assumes "\<And>x. digest x \<noteq> []" and "link digest render prev r"
  shows "ar_eventHash r \<noteq> []"
  using assms by (auto simp: link_def ComputeEventHash_def)

lemma verify_linked:
  assumes hash: "\<And>x. digest x \<noteq> []"
  shows "prev \<noteq> [] \<Longrightarrow> verify_rows digest render prev i k rs = Consistent k' \<Longrightarrow> linked digest render prev rs"
proof (induction rs arbitrary: prev i)
  case (Cons r rs)
  then obtain h where "ar_prevHash r = prev" "ComputeEventHash digest render prev r = Some h"
    "EqualFold (ar_eventHash r) h"
    and rest: "verify_rows digest render (ar_eventHash r) (Suc i) k rs = Consistent k'"
    by (auto split: if_splits option.splits)
  then have "link digest render prev r" by (simp add: link_def)
  with Cons.IH [OF link_hash_nonempty [OF hash this] rest] show ?case by simp
qed simp

lemma verify_accepts:
  assumes hash: "\<And>x. digest x \<noteq> []"
  shows "verify_rows digest render [] i k rs = Consistent k' \<Longrightarrow> linked digest render [] (dropWhile legacy rs)"
proof (induction rs arbitrary: i k)
  case (Cons r rs)
  show ?case
  proof (cases "legacy r")
    case True
    with Cons show ?thesis by (simp add: legacy_def)
  next
    case False
    with Cons.prems obtain h where "ar_prevHash r = []" "ComputeEventHash digest render [] r = Some h"
      "EqualFold (ar_eventHash r) h"
      and rest: "verify_rows digest render (ar_eventHash r) (Suc i) k rs = Consistent k'"
      by (auto simp: legacy_def split: if_splits option.splits)
    then have "link digest render [] r" by (simp add: link_def)
    with verify_linked [OF hash link_hash_nonempty [OF hash this] rest] False show ?thesis by simp
  qed
qed simp

subsection \<open>The last hash pins the history\<close>

definition lower_hex :: "char \<Rightarrow> bool" where
  "lower_hex c \<longleftrightarrow> c \<in> set ''0123456789abcdef''"

lemma lower_hex_fixed: "lower_hex c \<Longrightarrow> ascii_lower c = c"
  by (auto simp: lower_hex_def ascii_lower_def)

lemma fold_lower_hex: "list_all lower_hex s \<Longrightarrow> map ascii_lower s = s"
  by (auto simp: list_all_iff lower_hex_fixed intro!: map_idI)

text \<open>A stored hash that passes the comparison has no separator byte in it.\<close>

lemma EqualFold_no_separator:
  assumes "EqualFold s t" and "list_all lower_hex t"
  shows "CHR 0x1F \<notin> set s"
proof
  assume "CHR 0x1F \<in> set s"
  then have "ascii_lower (CHR 0x1F) \<in> set (map ascii_lower s)" by (metis image_eqI list.set_map)
  moreover have "ascii_lower (CHR 0x1F) = CHR 0x1F" by (simp add: ascii_lower_def)
  moreover have "map ascii_lower s = t"
    using assms fold_lower_hex [OF assms(2)] by (simp add: EqualFold_def)
  ultimately have "CHR 0x1F \<in> set t" by simp
  with assms(2) show False by (simp add: list_all_iff lower_hex_def) force
qed

lemma hash_input_unique:
  assumes "hash_input p c = hash_input q d" and "CHR 0x1F \<notin> set p" and "CHR 0x1F \<notin> set q"
  shows "p = q \<and> c = d"
proof -
  have "takeWhile (\<lambda>x. x \<noteq> CHR 0x1F) (hash_input p c) = p" if "CHR 0x1F \<notin> set p" for p c
    using that by (auto simp: hash_input_def takeWhile_append)
  with assms have "p = q" by metis
  with assms(1) show ?thesis by (simp add: hash_input_def)
qed

definition same_event :: "audit_record \<Rightarrow> audit_record \<Rightarrow> bool" where
  "same_event r q \<longleftrightarrow>
     ar_id r = ar_id q \<and> ar_actorID r = ar_actorID q \<and> ar_action r = ar_action q \<and>
     ar_targetID r = ar_targetID q \<and> ar_createdAt r = ar_createdAt q \<and>
     same_json (JObject (normalizeAuditDetails (ar_details r))) (JObject (normalizeAuditDetails (ar_details q)))"

lemma sorted_covered:
  "sorted_json (covered render r) =
     JObject [(''action'', JString (ar_action r)), (''actor_id'', JString (ar_actorID r)),
       (''created_at'', JString (render (ar_createdAt r))),
       (''details'', sorted_json (JObject (normalizeAuditDetails (ar_details r)))),
       (''id'', JString (ar_id r)), (''target_id'', JString (ar_targetID r))]"
  unfolding covered_def normalizeAuditDetails_def by simp

lemma covered_same:
  assumes "same_json (covered render r) (covered render q)"
    and inj: "inj_on render {ar_createdAt r, ar_createdAt q}"
  shows "same_event r q"
proof -
  have fields: "ar_id r = ar_id q \<and> ar_actorID r = ar_actorID q \<and> ar_action r = ar_action q \<and>
      ar_targetID r = ar_targetID q \<and> render (ar_createdAt r) = render (ar_createdAt q) \<and>
      sorted_json (JObject (normalizeAuditDetails (ar_details r))) =
      sorted_json (JObject (normalizeAuditDetails (ar_details q)))"
    using assms(1) unfolding same_json_def sorted_covered
    by (simp only: json.inject list.inject prod.inject simp_thms)
  then have "ar_createdAt r = ar_createdAt q"
    using inj_onD [OF inj] by blast
  with fields show ?thesis unfolding same_event_def same_json_def by blast
qed

text \<open>The byte strings that are hashed when a list of rows is checked.\<close>

definition hashed_bytes :: "(gotime \<Rightarrow> string) \<Rightarrow> audit_record list \<Rightarrow> string set" where
  "hashed_bytes render rs = (\<lambda>r. hash_input (ar_prevHash r) (text_of (covered render r))) ` set rs"

lemma link_text:
  assumes "link digest render prev r" and "wf_json (covered render r)"
  shows "encodable (covered render r)"
    and "EqualFold (ar_eventHash r) (digest (hash_input prev (text_of (covered render r))))"
    and "ar_prevHash r = prev"
  using assms by (auto simp: link_def ComputeEventHash_def encodable_def text_of_def)

lemma EqualFold_trans2: "EqualFold s t \<Longrightarrow> EqualFold s' t' \<Longrightarrow> EqualFold s s' \<Longrightarrow> EqualFold t t'"
  by (simp add: EqualFold_def)

lemma linked_tail_clean:
  assumes "\<And>x. list_all lower_hex (digest x)" and "linked digest render [] rs"
  shows "CHR 0x1F \<notin> set (tail_hash rs)"
proof (cases rs rule: rev_cases)
  case (snoc qs q)
  with assms(2) obtain h where "EqualFold (ar_eventHash q) h"
    "ComputeEventHash digest render (ar_prevHash q) q = Some h"
    by (auto simp: linked_snoc link_def)
  moreover from this(2) have "list_all lower_hex h"
    using assms(1) by (auto simp: ComputeEventHash_def)
  ultimately show ?thesis using EqualFold_no_separator by (simp add: snoc tail_hash_def)
qed (simp add: tail_hash_def)

lemma linked_unique:
  assumes hash: "\<And>x. digest x \<noteq> [] \<and> list_all lower_hex (digest x)"
    and inj: "inj_on digest (hashed_bytes render rs \<union> hashed_bytes render qs)"
    and times: "inj_on render (ar_createdAt ` (set rs \<union> set qs))"
    and wf: "\<forall>r \<in> set rs \<union> set qs. wf_json (covered render r)"
    and links: "linked digest render [] rs" "linked digest render [] qs"
    and tails: "EqualFold (tail_hash rs) (tail_hash qs)"
  shows "list_all2 same_event rs qs"
  using assms(2-7)
proof (induction rs arbitrary: qs rule: rev_induct)
  case Nil
  then have "tail_hash qs = []" by (simp add: tail_hash_def)
  then show ?case
    using Nil.prems(5) hash link_hash_nonempty [of digest]
    by (cases qs rule: rev_cases) (auto simp: linked_snoc tail_hash_def)
next
  case (snoc r rs)
  have "link digest render (tail_hash rs) r"
    using snoc.prems(4) by (simp add: linked_snoc tail_hash_def split: if_splits)
  note r = this link_text [OF this]
  have "ar_eventHash r \<noteq> []" using link_hash_nonempty [OF _ r(1)] hash by blast
  then obtain us u where qs: "qs = us @ [u]"
    using snoc.prems(6) by (cases qs rule: rev_cases) (auto simp: tail_hash_def)
  have "link digest render (tail_hash us) u"
    using snoc.prems(5) qs by (simp add: linked_snoc tail_hash_def split: if_splits)
  note u = this link_text [OF this]
  have wfs: "wf_json (covered render r)" "wf_json (covered render u)"
    using snoc.prems(3) qs by auto
  let ?x = "hash_input (tail_hash rs) (text_of (covered render r))"
  let ?y = "hash_input (tail_hash us) (text_of (covered render u))"
  have "EqualFold (digest ?x) (digest ?y)"
    using EqualFold_trans2 [OF r(3) u(3)] snoc.prems(6) qs wfs by (simp add: tail_hash_def)
  then have "digest ?x = digest ?y"
    using hash by (simp add: EqualFold_def fold_lower_hex)
  moreover have "?x \<in> hashed_bytes render (rs @ [r])" "?y \<in> hashed_bytes render qs"
    using r(4) u(4) wfs by (simp_all add: hashed_bytes_def qs)
  ultimately have "?x = ?y" using inj_onD [OF snoc.prems(1)] by blast
  moreover have "linked digest render [] rs" "linked digest render [] us"
    using snoc.prems(4,5) qs by (simp_all add: linked_snoc)
  ultimately have same: "tail_hash rs = tail_hash us" "text_of (covered render r) = text_of (covered render u)"
    using hash_input_unique linked_tail_clean hash by blast+
  then have "same_json (covered render r) (covered render u)"
    using text_eq_iff [OF r(2) u(2)] wfs by simp
  moreover have "inj_on render {ar_createdAt r, ar_createdAt u}"
    using snoc.prems(2) by (rule inj_on_subset) (auto simp: qs)
  ultimately have "same_event r u" by (rule covered_same)
  moreover have "list_all2 same_event rs us"
  proof (rule snoc.IH)
    show "inj_on digest (hashed_bytes render rs \<union> hashed_bytes render us)"
      using snoc.prems(1) by (rule inj_on_subset) (auto simp: hashed_bytes_def qs)
    show "inj_on render (ar_createdAt ` (set rs \<union> set us))"
      using snoc.prems(2) by (rule inj_on_subset) (auto simp: qs)
  qed (use snoc.prems same qs in \<open>auto simp: linked_snoc EqualFold_def\<close>)
  ultimately show ?case by (simp add: qs list_all2_appendI)
qed

subsection \<open>Retention\<close>

lemma delete_some_props:
  "filter (\<lambda>x. \<not> old x) (delete_some old k xs) = filter (\<lambda>x. \<not> old x) xs"
  "length (filter old (delete_some old k xs)) = length (filter old xs) - k"
  "length xs - length (delete_some old k xs) = min k (length (filter old xs))"
  "length (delete_some old k xs) \<le> length xs"
proof -
  have "filter (\<lambda>x. \<not> old x) (delete_some old k xs) = filter (\<lambda>x. \<not> old x) xs \<and>
    length (filter old (delete_some old k xs)) = length (filter old xs) - k \<and>
    length (delete_some old k xs) + min k (length (filter old xs)) = length xs"
    by (induction xs arbitrary: k) (auto split: nat.splits)
  then show "filter (\<lambda>x. \<not> old x) (delete_some old k xs) = filter (\<lambda>x. \<not> old x) xs"
    "length (filter old (delete_some old k xs)) = length (filter old xs) - k"
    "length xs - length (delete_some old k xs) = min k (length (filter old xs))"
    "length (delete_some old k xs) \<le> length xs"
    by auto
qed

lemma all_kept: "length (filter old xs) = 0 \<Longrightarrow> xs = filter (\<lambda>x. \<not> old x) xs"
  by (simp add: filter_empty_conv)

text \<open>The chunked delete is the plain delete as long as the iterations suffice.\<close>

lemma pruneChunked_filter:
  assumes "0 < chunk" and "length (filter old t) \<le> i * chunk"
  shows "pruneChunked i chunk old t = (length (filter old t), filter (\<lambda>x. \<not> old x) t)"
  using assms(2)
proof (induction i arbitrary: t)
  case 0
  then show ?case using all_kept [of old t] by simp
next
  case (Suc i)
  note d = delete_some_props [where old = old and k = chunk and xs = t]
  show ?case
  proof (cases "length (filter old t) < chunk")
    case True
    then have "delete_some old chunk t = filter (\<lambda>x. \<not> old x) t"
      using d(1,2) all_kept [of old "delete_some old chunk t"] by simp
    with True d(3) show ?thesis by (simp add: Let_def)
  next
    case False
    then have "length (filter old (delete_some old chunk t)) \<le> i * chunk"
      using Suc.prems d(2) by simp
    from Suc.IH [OF this] False d show ?thesis by (simp add: Let_def)
  qed
qed

lemma sorted_filter_suffix:
  assumes "sorted (map f xs)"
  shows "filter (\<lambda>x. \<not> f x < c) xs = dropWhile (\<lambda>x. f x < c) xs"
  using assms
proof (induction xs)
  case (Cons x xs)
  have "filter (\<lambda>x. \<not> f x < c) xs = xs" if "\<not> f x < c"
    using Cons.prems that by (auto simp: filter_id_conv not_less)
  with Cons show ?case by auto
qed simp

lemma ascending_pruned:
  "ascending (filter (\<lambda>x. \<not> aw_created_at_unix x < c) t) = dropWhile (\<lambda>x. aw_created_at_unix x < c) (ascending t)"
proof -
  have "ascending (filter (\<lambda>x. \<not> aw_created_at_unix x < c) t) =
      filter (\<lambda>x. \<not> aw_created_at_unix x < c) (ascending t)"
    by (simp add: ascending_def filter_sort)
  moreover have "sorted (map aw_created_at_unix (ascending t))"
  proof -
    have "sorted (map audit_key (ascending t))" by (simp add: ascending_def)
    then show ?thesis by (auto simp: sorted_wrt_map audit_key_def elim!: sorted_wrt_mono_rel [rotated])
  qed
  ultimately show ?thesis by (simp add: sorted_filter_suffix)
qed

lemma linked_middle:
  "linked digest render prev (xs @ y # ys) \<Longrightarrow> xs \<noteq> [] \<Longrightarrow> ar_prevHash y = ar_eventHash (last xs)"
  by (induction xs arbitrary: prev) (auto simp: link_def split: if_splits)

lemma linked_append_prefix: "linked digest render prev (xs @ ys) \<Longrightarrow> linked digest render prev xs"
  by (induction xs arbitrary: prev) auto

lemma linked_head_unlinked:
  assumes hash: "\<And>x. digest x \<noteq> []" and linked: "linked digest render [] (dropWhile legacy (pre @ y # ys))"
    and chained: "\<exists>x \<in> set pre. \<not> legacy x"
  shows "ar_prevHash y \<noteq> []"
proof -
  have split: "dropWhile legacy (pre @ y # ys) = dropWhile legacy pre @ y # ys"
    using chained by (auto simp: dropWhile_append)
  have ne: "dropWhile legacy pre \<noteq> []" using chained by (auto simp: dropWhile_eq_Nil_conv)
  have "linked digest render [] (dropWhile legacy pre @ y # ys)" using linked split by simp
  note prev = linked_middle [OF this ne]
  have "ar_eventHash (last (dropWhile legacy pre)) \<noteq> []"
  proof -
    obtain us u where us: "dropWhile legacy pre = us @ [u]" using ne by (meson rev_exhaust)
    have "linked digest render [] (us @ [u])"
      using \<open>linked digest render [] (dropWhile legacy pre @ y # ys)\<close> us
      by (metis linked_append_prefix)
    then have "link digest render (if us = [] then [] else tail_hash us) u" by (simp add: linked_snoc)
    from link_hash_nonempty [OF hash this] us show ?thesis by simp
  qed
  with prev show ?thesis by simp
qed

subsection \<open>A sample chain\<close>

text \<open>An injective digest in lower-case hexadecimal: the hexadecimal form of the bytes themselves.\<close>

definition hexlify :: "string \<Rightarrow> string" where
  "hexlify x = CHR ''0'' # concat (map (\<lambda>c. [hex_digit (of_char c div 16), hex_digit (of_char c mod 16)]) x)"

lemma hex_digit_lower: "k < 16 \<Longrightarrow> lower_hex (hex_digit k)"
proof -
  assume "k < 16"
  then have "k \<in> set [0..<16]" by simp
  moreover have "list_all (\<lambda>k. lower_hex (hex_digit k)) [0..<16]"
    by code_simp
  ultimately show ?thesis by (simp add: list_all_iff)
qed

lemma of_char_div: "(of_char c :: nat) div 16 < 16"
  using mod_less_divisor [of 256 "of_char c :: nat"] by (simp add: less_mult_imp_div_less)

lemma hexlify_hex: "hexlify x \<noteq> [] \<and> list_all lower_hex (hexlify x)"
proof -
  have "list_all lower_hex (concat (map (\<lambda>c. [hex_digit (of_char c div 16), hex_digit (of_char c mod 16)]) x))"
    by (induction x) (simp_all add: hex_digit_lower of_char_div)
  then show ?thesis by (simp add: hexlify_def) (simp add: lower_hex_def)
qed

lemma hexlify_inj: "inj_on hexlify A"
proof (rule inj_onI)
  fix x y assume "hexlify x = hexlify y"
  then show "x = y"
    unfolding hexlify_def
  proof (induction x arbitrary: y)
    case Nil
    then show ?case by (cases y) auto
  next
    case (Cons c x)
    then obtain d y' where y: "y = d # y'" by (cases y) auto
    have "(of_char c :: nat) div 16 = of_char d div 16" "(of_char c :: nat) mod 16 = of_char d mod 16"
      using Cons.prems hex_digit_inj of_char_div by (auto simp: y)
    then have "c = d" by (metis div_mult_mod_eq of_char_eq_iff)
    with Cons y show ?case by simp
  qed
qed

definition demo_render :: "gotime \<Rightarrow> string" where
  "demo_render t = dec_digits (nat t)"

definition plain_event :: "string \<Rightarrow> gotime \<Rightarrow> audit_record" where
  "plain_event i t =
     \<lparr>ar_id = i, ar_actorID = ''admin'', ar_action = ''login'', ar_targetID = i, ar_createdAt = t,
      ar_details = Some [(''ok'', JBool True)], ar_prevHash = [], ar_eventHash = []\<rparr>"

definition seal :: "string \<Rightarrow> audit_record \<Rightarrow> audit_record" where
  "seal prev r = r\<lparr>ar_prevHash := prev, ar_eventHash := hexlify (hash_input prev (text_of (covered demo_render r)))\<rparr>"

lemma plain_encodable: "wf_json (covered demo_render (plain_event i t))" "encodable (covered demo_render (plain_event i t))"
  by (simp_all add: covered_def plain_event_def encodable_def object_encodes del: canonicaliseJSONValue.simps(6))

lemma seal_hash: "ComputeEventHash hexlify demo_render prev (seal prev (plain_event i t)) = Some (ar_eventHash (seal prev (plain_event i t)))"
  using encodableD [OF plain_encodable(2)] by (simp add: ComputeEventHash_def seal_def)

definition demo_first_event :: audit_record where
  "demo_first_event = seal [] (plain_event ''audit-0000001'' 0)"

definition demo_second_event :: audit_record where
  "demo_second_event = seal (ar_eventHash demo_first_event) (plain_event ''audit-0000002'' (10 * second_ns))"

definition demo_chain :: "audit_record list" where
  "demo_chain = [demo_first_event, demo_second_event]"

lemma seal_simps [simp]:
  "ar_id (seal p r) = ar_id r" "ar_createdAt (seal p r) = ar_createdAt r" "ar_action (seal p r) = ar_action r"
  "ar_prevHash (seal p r) = p" "ar_eventHash (seal p r) \<noteq> []"
  using hexlify_hex by (simp_all add: seal_def)

lemma demo_event_simps [simp]:
  "ar_createdAt demo_first_event = 0" "ar_createdAt demo_second_event = 10 * second_ns"
  "ar_id demo_first_event = ''audit-0000001''" "ar_id demo_second_event = ''audit-0000002''"
  "ar_action demo_first_event = ''login''" "ar_eventHash demo_first_event \<noteq> []" "ar_eventHash demo_second_event \<noteq> []"
  "ar_prevHash demo_first_event = []" "ar_prevHash demo_second_event = ar_eventHash demo_first_event"
  by (simp_all add: demo_first_event_def demo_second_event_def) (simp_all add: plain_event_def)

lemma demo_chain_chained: "chained hexlify demo_render [] demo_chain (ar_eventHash demo_second_event)"
  using seal_hash [of "[]"] seal_hash [of "ar_eventHash demo_first_event"]
  by (simp add: demo_chain_def demo_first_event_def demo_second_event_def)

lemma demo_chain_wf:
  "wf_json (covered demo_render demo_first_event)" "wf_json (covered demo_render demo_second_event)"
  "wf_json (covered demo_render (demo_first_event\<lparr>ar_action := ''logout''\<rparr>))"
  by (simp_all add: demo_first_event_def demo_second_event_def seal_def covered_def) (simp_all add: plain_event_def)

lemma demo_render_inj: "demo_render t = demo_render u \<Longrightarrow> 0 \<le> t \<Longrightarrow> 0 \<le> u \<Longrightarrow> t = u"
proof -
  assume eq: "demo_render t = demo_render u" and "0 \<le> t" "0 \<le> u"
  have "dec_value (demo_render w) = nat w" for w
    using dec_digits_props by (simp add: demo_render_def)
  with eq have "nat t = nat u" by metis
  with \<open>0 \<le> t\<close> \<open>0 \<le> u\<close> show "t = u" by simp
qed

subsection \<open>Properties\<close>


text \<open>An asynchronous event, a synchronous one that overtakes it in the table, and the flush.\<close>

definition demo_audit :: audit_system where
  "demo_audit =
     flush_one (snd (appendAuditSync hexlify demo_render ''admin'' ''login'' ''x'' None second_ns
       (appendAuditWithContext hexlify demo_render ''admin'' ''edit'' ''y'' None 0 new_audit_system)))"

lemma append_locked_seq: "as_seq (snd (append_locked digest render actor action target d now s)) = as_seq s + 1"
  by (simp add: append_locked_def chainAuditRecordLocked_def Let_def split: option.splits)

lemma append_seq:
  "as_seq (au_server (appendAuditWithContext digest render actor action target d now a)) = as_seq (au_server a) + 1"
  "au_clock (appendAuditWithContext digest render actor action target d now a) = now"
  using append_locked_seq [of digest render actor action target d now "au_server a"]
  by (simp_all add: appendAuditWithContext_def split_def Let_def)

lemma demo_audit_reachable: "audit_reachable hexlify demo_render demo_audit \<and> au_queue demo_audit = []"
proof
  let ?a = "appendAuditWithContext hexlify demo_render ''admin'' ''edit'' ''y'' None 0 new_audit_system"
  have "audit_reachable hexlify demo_render ?a"
    by (rule audit_reachable.step [OF audit_reachable.start], rule audit_step.async)
      (simp_all add: new_audit_system_def)
  then have "audit_reachable hexlify demo_render
      (snd (appendAuditSync hexlify demo_render ''admin'' ''login'' ''x'' None second_ns ?a))"
    by (rule audit_reachable.step, intro audit_step.sync)
      (simp_all add: append_seq, simp_all add: new_audit_system_def second_ns_def)
  then show "audit_reachable hexlify demo_render demo_audit"
    unfolding demo_audit_def by (rule audit_reachable.step, intro audit_step.flush)
  show "au_queue demo_audit = []"
    by (simp add: demo_audit_def flush_one_def appendAuditSync_def appendAuditWithContext_def
        new_audit_system_def split_def Let_def split: sum.splits)
qed


text \<open>
  C28: The hash of the last row pins the whole chained history: two tables that the verifier
  accepts and that end in the same hash have the same events, field by field and the details up to
  the order of keys, from the first hashed row on, provided the hash has no collision among the
  byte strings involved. So an edited, inserted, dropped or reordered row is found, unless every
  later hash was replaced as well.
\<close>

theorem tail_hash_pins_history:
  assumes "\<And>x. digest x \<noteq> [] \<and> list_all lower_hex (digest x)"
    and "inj_on digest (hashed_bytes render rows \<union> hashed_bytes render rows')"
    and "inj_on render (ar_createdAt ` (set rows \<union> set rows'))"
    and "\<forall>r \<in> set rows \<union> set rows'. wf_json (covered render r)"
    and "verifyAuditChainRows digest render rows = Consistent k"
    and "verifyAuditChainRows digest render rows' = Consistent k'"
    and "EqualFold (tail_hash rows) (tail_hash rows')"
  shows "list_all2 same_event (dropWhile legacy rows) (dropWhile legacy rows')"
proof -
  have tail: "tail_hash (dropWhile legacy rs) = tail_hash rs" for rs
    by (cases rs rule: rev_cases) (auto simp: tail_hash_def dropWhile_append legacy_def dropWhile_eq_Nil_conv)
  have sub: "set (dropWhile legacy rs) \<subseteq> set rs" for rs by (meson set_dropWhileD subsetI)
  then have bytes: "hashed_bytes render (dropWhile legacy rs) \<subseteq> hashed_bytes render rs" for rs
    unfolding hashed_bytes_def by blast
  show ?thesis
  proof (rule linked_unique)
    show "\<And>x. digest x \<noteq> [] \<and> list_all lower_hex (digest x)" by (rule assms(1))
    show "inj_on digest (hashed_bytes render (dropWhile legacy rows) \<union> hashed_bytes render (dropWhile legacy rows'))"
      using assms(2) by (rule inj_on_subset) (use bytes in blast)
    show "inj_on render (ar_createdAt ` (set (dropWhile legacy rows) \<union> set (dropWhile legacy rows')))"
      using assms(3) by (rule inj_on_subset) (use sub in blast)
    show "\<forall>r \<in> set (dropWhile legacy rows) \<union> set (dropWhile legacy rows'). wf_json (covered render r)"
      using assms(4) sub by blast
    show "linked digest render [] (dropWhile legacy rows)" "linked digest render [] (dropWhile legacy rows')"
      using verify_accepts assms(1,5,6) unfolding verifyAuditChainRows_def by blast+
    show "EqualFold (tail_hash (dropWhile legacy rows)) (tail_hash (dropWhile legacy rows'))"
      using assms(7) by (simp add: tail)
  qed
qed

text \<open>Rewriting the action of the first of two events, with all hashes kept, is found.\<close>

definition tampered_chain :: "audit_record list" where
  "tampered_chain = [demo_first_event\<lparr>ar_action := ''logout''\<rparr>, demo_second_event]"

theorem tail_hash_pins_history_witness:
  "(\<exists>k. verifyAuditChainRows hexlify demo_render demo_chain = Consistent k) \<and>
   \<not> (\<exists>k. verifyAuditChainRows hexlify demo_render tampered_chain = Consistent k)"
proof -
  obtain k where k: "verifyAuditChainRows hexlify demo_render demo_chain = Consistent k"
    using chained_verified [OF demo_chain_chained] unfolding verifyAuditChainRows_def by blast
  have "verifyAuditChainRows hexlify demo_render tampered_chain \<noteq> Consistent k'" for k'
  proof
    assume bad: "verifyAuditChainRows hexlify demo_render tampered_chain = Consistent k'"
    have times: "inj_on demo_render (ar_createdAt ` (set demo_chain \<union> set tampered_chain))"
      using demo_render_inj [of 0 "10 * second_ns"] second_pos
      by (auto simp: demo_chain_def tampered_chain_def inj_on_def)
    have wf: "\<forall>r \<in> set demo_chain \<union> set tampered_chain. wf_json (covered demo_render r)"
      using demo_chain_wf by (simp add: demo_chain_def tampered_chain_def)
    have tails: "EqualFold (tail_hash demo_chain) (tail_hash tampered_chain)"
      by (simp add: demo_chain_def tampered_chain_def tail_hash_def EqualFold_def)
    from tail_hash_pins_history [OF hexlify_hex hexlify_inj times wf k bad tails] show False
      by (simp add: demo_chain_def tampered_chain_def legacy_def same_event_def)
  qed
  with k show ?thesis by blast
qed

text \<open>
  C29: The retention sweep breaks the chain it prunes: when it removes a chained row and leaves
  some row behind, the verifier, which starts from the empty hash, reports a mismatch at the first
  row that is left, although nothing was tampered with.
\<close>

theorem retention_breaks_chain:
  assumes "\<And>x. digest x \<noteq> []"
    and "verifyAuditChainRows digest render (map audit_of_row (ascending t)) = Consistent k"
    and "PruneAuditEvents before t = (n, t')" and "length t \<le> 50000000"
    and "x \<in> set t" and "aw_created_at_unix x < toUnix before" and "aw_event_hash x \<noteq> []" and "t' \<noteq> []"
  shows "\<exists>y \<in> set t'. verifyAuditChainRows digest render (map audit_of_row (ascending t')) = PrevMismatch (aw_id y)"
proof -
  let ?old = "\<lambda>x. aw_created_at_unix x < toUnix before"
  have "length (filter ?old t) \<le> pruneMaxIterations * pruneChunkSize"
    using order_trans [OF length_filter_le assms(4)] by (simp add: pruneMaxIterations_def pruneChunkSize_def)
  then have t': "t' = filter (\<lambda>x. \<not> ?old x) t"
    using assms(3) pruneChunked_filter [of pruneChunkSize ?old t pruneMaxIterations]
    by (simp add: PruneAuditEvents_def pruneChunkSize_def)
  then have asc: "ascending t' = dropWhile ?old (ascending t)" by (simp add: ascending_pruned)
  have same: "set (ascending t') = set t'" by (simp add: ascending_def)
  then have "ascending t' \<noteq> []" using assms(8) by (metis set_empty2)
  then obtain y ys where "ascending t' = y # ys" by (meson neq_Nil_conv)
  with same asc have y: "dropWhile ?old (ascending t) = y # ys" "y \<in> set t'"
    by (simp, metis list.set_intros(1))
  have split: "ascending t = takeWhile ?old (ascending t) @ y # ys"
    using y(1) by (metis takeWhile_dropWhile_id)
  have "x \<in> set (takeWhile ?old (ascending t))"
  proof (rule ccontr)
    assume "x \<notin> set (takeWhile ?old (ascending t))"
    moreover have "x \<in> set (ascending t)" using assms(5) by (simp add: ascending_def)
    moreover have "set (ascending t) = set (takeWhile ?old (ascending t)) \<union> set (ascending t')"
      unfolding asc by (metis set_append takeWhile_dropWhile_id)
    ultimately have "x \<in> set (ascending t')" by blast
    with assms(6) t' show False by (simp add: ascending_def)
  qed
  then have "\<exists>q \<in> set (map audit_of_row (takeWhile ?old (ascending t))). \<not> legacy q"
    using assms(7) by (auto simp: legacy_def audit_of_row_def)
  moreover have "map audit_of_row (ascending t) =
      map audit_of_row (takeWhile ?old (ascending t)) @ audit_of_row y # map audit_of_row ys"
    by (subst split) simp
  then have "linked digest render []
      (dropWhile legacy (map audit_of_row (takeWhile ?old (ascending t)) @ audit_of_row y # map audit_of_row ys))"
    using verify_accepts [OF assms(1)] assms(2) unfolding verifyAuditChainRows_def by simp
  ultimately have "ar_prevHash (audit_of_row y) \<noteq> []"
    using linked_head_unlinked assms(1) by blast
  then have "verifyAuditChainRows digest render (map audit_of_row (ascending t')) = PrevMismatch (aw_id y)"
    by (simp add: asc y(1) verifyAuditChainRows_def audit_of_row_def)
  with y(2) show ?thesis by blast
qed

text \<open>Two chained rows, ten seconds apart; the cutoff lies between them.\<close>

definition demo_table :: audit_table where
  "demo_table = map audit_row_of demo_chain"

lemma demo_table_rows: "map audit_of_row (ascending demo_table) = demo_chain"
proof -
  have "sorted (map audit_key demo_table)"
    by (simp add: demo_table_def demo_chain_def audit_key_def audit_row_of_def toUnix_def second_ns_def)
  then have "ascending demo_table = demo_table" unfolding ascending_def by (rule sort_key_id_if_sorted)
  then show ?thesis by (simp add: demo_table_def demo_chain_def audit_round_trip whole_second_def)
qed

lemma demo_table_pruned:
  "PruneAuditEvents (5 * second_ns) demo_table = (1, [audit_row_of demo_second_event])"
proof -
  let ?old = "\<lambda>x. aw_created_at_unix x < toUnix (5 * second_ns)"
  have rows: "filter ?old demo_table = [audit_row_of demo_first_event]"
    "filter (\<lambda>x. \<not> ?old x) demo_table = [audit_row_of demo_second_event]"
    by (simp_all add: demo_table_def demo_chain_def audit_row_of_def toUnix_def second_ns_def)
  then show ?thesis
    unfolding PruneAuditEvents_def
    by (subst pruneChunked_filter) (simp_all add: pruneMaxIterations_def pruneChunkSize_def)
qed

theorem retention_breaks_chain_witness:
  "verifyAuditChainRows hexlify demo_render (map audit_of_row (ascending [audit_row_of demo_second_event])) =
     PrevMismatch ''audit-0000002''"
proof -
  obtain k where k: "verifyAuditChainRows hexlify demo_render (map audit_of_row (ascending demo_table)) = Consistent k"
    using chained_verified [OF demo_chain_chained] demo_table_rows unfolding verifyAuditChainRows_def by metis
  have "hexlify x \<noteq> []" for x using hexlify_hex by blast
  from retention_breaks_chain [OF this k demo_table_pruned, of "audit_row_of demo_first_event"] show ?thesis
    by (simp add: demo_table_def demo_chain_def audit_row_of_def toUnix_def second_ns_def)
qed

end
