(* ===== verification/Batch_Buffer.thy ===== *)
theory Batch_Buffer
  imports Panvex_Prelude "HOL-Library.Sublist"
begin

section \<open>The bounded stream buffer of the batch writer\<close>

text \<open>
  \<^verbatim>\<open>batchBuffer[T]\<close> of internal/controlplane/batchwriter/writer.go keeps the writes of one
  stream until the flush loop takes them. The slice \<^verbatim>\<open>items\<close> carries a dead prefix of
  \<^verbatim>\<open>start\<close> zeroed elements, so that dropping the oldest element moves an index instead of
  the slice; the prefix is cut off once it is longer than the bound. The element that Go
  writes into a dead slot is the zero value of \<^verbatim>\<open>T\<close>, an argument of the operation here.

  What the writer relies on is the locale \<open>drop_oldest\<close>: the buffer is a queue that, over
  its bound, hands back its oldest element. The locale proves what follows for every
  sequence of operations, and the buffer interprets it.
\<close>

record 'a batch_buffer =
  bb_items :: "'a list"
  bb_start :: nat
  bb_maxSize :: nat
  bb_capLimit :: int
  bb_signal :: bool

definition newBatchBuffer :: "nat \<Rightarrow> 'a batch_buffer" where
  "newBatchBuffer maxSize =
     \<lparr>bb_items = [], bb_start = 0, bb_maxSize = maxSize, bb_capLimit = 0, bb_signal = False\<rparr>"

definition SetCap :: "int \<Rightarrow> 'a batch_buffer \<Rightarrow> 'a batch_buffer" where
  "SetCap capLimit b = b\<lparr>bb_capLimit := capLimit\<rparr>"

text \<open>
  \<^verbatim>\<open>Enqueue\<close> returns the evicted element, if any: it is passed to \<^verbatim>\<open>onDropped\<close> after the lock
  is released.
\<close>

definition compact :: "'a batch_buffer \<Rightarrow> 'a batch_buffer" where
  "compact b =
     (if int (bb_start b) > bb_capLimit b then b\<lparr>bb_items := drop (bb_start b) (bb_items b), bb_start := 0\<rparr>
      else b)"

definition Enqueue :: "'a \<Rightarrow> 'a \<Rightarrow> 'a batch_buffer \<Rightarrow> 'a option \<times> 'a batch_buffer" where
  "Enqueue zero item b =
     (let b1 = b\<lparr>bb_items := bb_items b @ [item]\<rparr>;
          overflow = (bb_capLimit b1 > 0 \<and> int (length (bb_items b1)) - int (bb_start b1) > bb_capLimit b1);
          evicted = bb_items b1 ! bb_start b1;
          b2 = (if overflow
                then compact (b1\<lparr>bb_items := (bb_items b1)[bb_start b1 := zero], bb_start := bb_start b1 + 1\<rparr>)
                else b1);
          full = (length (bb_items b2) - bb_start b2 \<ge> bb_maxSize b2)
      in (if overflow then Some evicted else None, if full then b2\<lparr>bb_signal := True\<rparr> else b2))"

definition Len :: "'a batch_buffer \<Rightarrow> nat" where
  "Len b = length (bb_items b) - bb_start b"

definition RemoveMatching :: "('a \<Rightarrow> bool) \<Rightarrow> 'a batch_buffer \<Rightarrow> nat \<times> 'a batch_buffer" where
  "RemoveMatching pred b =
     (let live = drop (bb_start b) (bb_items b);
          filtered = filter (\<lambda>it. \<not> pred it) live;
          removed = length (filter pred live)
      in if removed = 0 then (0, b) else (removed, b\<lparr>bb_items := filtered, bb_start := 0\<rparr>))"

text \<open>
  The part of \<^verbatim>\<open>Drain\<close> under the buffer lock: the live window becomes the batch and the
  buffer starts afresh. \<^verbatim>\<open>None\<close> is the early return on an empty window.
\<close>

definition Drain_swap :: "'a batch_buffer \<Rightarrow> 'a list option \<times> 'a batch_buffer" where
  "Drain_swap b =
     (if length (bb_items b) - bb_start b = 0 then (None, b)
      else (Some (drop (bb_start b) (bb_items b)), b\<lparr>bb_items := [], bb_start := 0\<rparr>))"

text \<open>The flush loop receives from the one-slot channel.\<close>

definition take_signal :: "'a batch_buffer \<Rightarrow> bool \<times> 'a batch_buffer" where
  "take_signal b = (bb_signal b, b\<lparr>bb_signal := False\<rparr>)"

subsection \<open>The live window and the invariant\<close>

definition live :: "'a batch_buffer \<Rightarrow> 'a list" where
  "live b = drop (bb_start b) (bb_items b)"

text \<open>
  The dead prefix is never longer than the bound and the live window never exceeds it; an
  unbounded buffer has no dead prefix.
\<close>

definition buffer_ok :: "'a batch_buffer \<Rightarrow> bool" where
  "buffer_ok b \<longleftrightarrow> bb_start b \<le> length (bb_items b) \<and>
     (if bb_capLimit b > 0 then int (bb_start b) \<le> bb_capLimit b \<and> int (length (live b)) \<le> bb_capLimit b
      else bb_start b = 0)"

lemma Len_live [simp]: "Len b = length (live b)"
  by (simp add: Len_def live_def)

lemma new_buffer [simp]:
  "live (newBatchBuffer n) = []" "buffer_ok (newBatchBuffer n)" "bb_capLimit (newBatchBuffer n) = 0"
  by (simp_all add: newBatchBuffer_def live_def buffer_ok_def)

lemma SetCap_fields [simp]:
  "live (SetCap c b) = live b" "bb_capLimit (SetCap c b) = c" "bb_maxSize (SetCap c b) = bb_maxSize b"
  by (simp_all add: SetCap_def live_def)

lemma SetCap_ok: "buffer_ok b \<Longrightarrow> bb_items b = [] \<Longrightarrow> buffer_ok (SetCap c b)"
  by (simp add: buffer_ok_def SetCap_def live_def)

lemma compact_fields [simp]:
  "bb_capLimit (compact b) = bb_capLimit b" "bb_maxSize (compact b) = bb_maxSize b"
  "bb_signal (compact b) = bb_signal b" "live (compact b) = live b"
  by (simp_all add: compact_def live_def)

lemma compact_len [simp]: "length (bb_items (compact b)) - bb_start (compact b) = length (live b)"
  by (simp add: compact_def live_def)

text \<open>The abstract queue: append, and hand back the oldest element when over the bound.\<close>

definition spec_enqueue :: "int \<Rightarrow> 'a \<Rightarrow> 'a list \<Rightarrow> 'a option \<times> 'a list" where
  "spec_enqueue cap x q =
     (let q' = q @ [x] in if cap > 0 \<and> int (length q') > cap then (Some (hd q'), tl q') else (None, q'))"

lemma Enqueue_fields [simp]:
  "bb_capLimit (snd (Enqueue zero x b)) = bb_capLimit b" "bb_maxSize (snd (Enqueue zero x b)) = bb_maxSize b"
  by (simp_all add: Enqueue_def Let_def)

lemma Enqueue_overflow_iff:
  "bb_start b \<le> length (bb_items b) \<Longrightarrow>
   int (length (bb_items b @ [x])) - int (bb_start b) = int (length (live b @ [x]))"
  by (simp add: live_def)

lemma live_signal [simp]: "live (b\<lparr>bb_signal := s\<rparr>) = live b" "buffer_ok (b\<lparr>bb_signal := s\<rparr>) = buffer_ok b"
  by (simp_all add: live_def buffer_ok_def)

lemma drop_Suc_update: "drop (Suc n) (xs[n := z]) = tl (drop n xs)"
  by (cases "drop n xs") (simp_all add: drop_Suc tl_drop [symmetric] drop_update_swap)

lemma Enqueue_refines:
  assumes "buffer_ok b"
  shows "fst (Enqueue zero x b) = fst (spec_enqueue (bb_capLimit b) x (live b))"
    and "live (snd (Enqueue zero x b)) = snd (spec_enqueue (bb_capLimit b) x (live b))"
proof -
  have le: "bb_start b \<le> length (bb_items b)" using assms by (simp add: buffer_ok_def)
  have hd: "(bb_items b @ [x]) ! bb_start b = hd (live b @ [x])"
    using le by (cases "bb_start b < length (bb_items b)") (simp_all add: live_def nth_append hd_append hd_drop_conv_nth)
  have tl: "live (b\<lparr>bb_items := (bb_items b @ [x])[bb_start b := zero], bb_start := Suc (bb_start b)\<rparr>) = tl (live b @ [x])"
    using le drop_Suc_update [of "bb_start b" "bb_items b @ [x]" zero] by (simp add: live_def)
  show "fst (Enqueue zero x b) = fst (spec_enqueue (bb_capLimit b) x (live b))"
    using Enqueue_overflow_iff [OF le, of x] hd by (simp add: Enqueue_def spec_enqueue_def Let_def)
  show "live (snd (Enqueue zero x b)) = snd (spec_enqueue (bb_capLimit b) x (live b))"
  proof (cases "bb_capLimit b > 0 \<and> int (length (live b @ [x])) > bb_capLimit b")
    case True
    then show ?thesis using Enqueue_overflow_iff [OF le, of x] tl by (simp add: Enqueue_def spec_enqueue_def Let_def)
  next
    case False
    have "live (b\<lparr>bb_items := bb_items b @ [x]\<rparr>) = live b @ [x]" using le by (simp add: live_def)
    with False show ?thesis using Enqueue_overflow_iff [OF le, of x] by (auto simp: Enqueue_def spec_enqueue_def Let_def)
  qed
qed

lemma Enqueue_ok:
  assumes "buffer_ok b"
  shows "buffer_ok (snd (Enqueue zero x b))"
  using assms by (auto simp: Enqueue_def Let_def compact_def buffer_ok_def live_def)

lemma RemoveMatching_spec:
  "fst (RemoveMatching pred b) = length (filter pred (live b))"
  "live (snd (RemoveMatching pred b)) = filter (\<lambda>x. \<not> pred x) (live b)"
  "bb_capLimit (snd (RemoveMatching pred b)) = bb_capLimit b"
  by (auto simp: RemoveMatching_def live_def Let_def filter_empty_conv)

lemma RemoveMatching_ok: "buffer_ok b \<Longrightarrow> buffer_ok (snd (RemoveMatching pred b))"
  using length_filter_le [of "\<lambda>x. \<not> pred x" "drop (bb_start b) (bb_items b)"]
  by (auto simp: RemoveMatching_def buffer_ok_def live_def Let_def split: if_splits)

lemma Drain_swap_spec:
  "fst (Drain_swap b) = (if live b = [] then None else Some (live b))"
  "live (snd (Drain_swap b)) = []" "bb_capLimit (snd (Drain_swap b)) = bb_capLimit b"
  by (auto simp: Drain_swap_def live_def)

lemma Drain_swap_ok: "buffer_ok b \<Longrightarrow> buffer_ok (snd (Drain_swap b))"
  by (auto simp: Drain_swap_def buffer_ok_def live_def)

lemma take_signal_ok: "buffer_ok b \<Longrightarrow> buffer_ok (snd (take_signal b))" "live (snd (take_signal b)) = live b"
  by (simp_all add: take_signal_def)

subsection \<open>The promise of a bounded queue\<close>

fun offer_all :: "('a \<Rightarrow> 's \<Rightarrow> 'a option \<times> 's) \<Rightarrow> 'a list \<Rightarrow> 's \<Rightarrow> 'a list \<times> 's" where
  "offer_all enq [] s = ([], s)"
| "offer_all enq (x # xs) s =
     (let (ev, s1) = enq x s; (evs, s2) = offer_all enq xs s1
      in ((case ev of None \<Rightarrow> [] | Some e \<Rightarrow> [e]) @ evs, s2))"

locale drop_oldest =
  fixes enq :: "'a \<Rightarrow> 's \<Rightarrow> 'a option \<times> 's"
    and window :: "'s \<Rightarrow> 'a list"
    and bound :: "'s \<Rightarrow> int"
    and ok :: "'s \<Rightarrow> bool"
  assumes enq_evicts: "ok s \<Longrightarrow> fst (enq x s) = fst (spec_enqueue (bound s) x (window s))"
    and enq_window: "ok s \<Longrightarrow> window (snd (enq x s)) = snd (spec_enqueue (bound s) x (window s))"
    and enq_bound: "bound (snd (enq x s)) = bound s"
    and enq_ok: "ok s \<Longrightarrow> ok (snd (enq x s))"
    and ok_bounded: "ok s \<Longrightarrow> bound s > 0 \<Longrightarrow> int (length (window s)) \<le> bound s"
begin

lemma enq_conserves:
  "ok s \<Longrightarrow> (case fst (enq x s) of None \<Rightarrow> [] | Some e \<Rightarrow> [e]) @ window (snd (enq x s)) = window s @ [x]"
  by (auto simp: enq_evicts enq_window spec_enqueue_def Let_def)

lemma offer_all_ok: "ok s \<Longrightarrow> ok (snd (offer_all enq xs s)) \<and> bound (snd (offer_all enq xs s)) = bound s"
proof (induction xs arbitrary: s)
  case (Cons x xs)
  from Cons.IH [OF enq_ok [OF Cons.prems, of x]] show ?case by (simp add: split_beta enq_bound)
qed simp

lemma offer_all_conserves:
  "ok s \<Longrightarrow> fst (offer_all enq xs s) @ window (snd (offer_all enq xs s)) = window s @ xs"
proof (induction xs arbitrary: s)
  case (Cons x xs)
  from Cons.IH [OF enq_ok [OF Cons.prems, of x]] enq_conserves [OF Cons.prems, of x]
  show ?case by (simp add: split_beta)
qed simp

lemma enq_count:
  assumes "ok s" "bound s > 0"
  shows "length (window (snd (enq x s))) = min (nat (bound s)) (Suc (length (window s)))"
  using ok_bounded [OF assms] assms by (auto simp: enq_window spec_enqueue_def Let_def)

lemma offer_all_count:
  "ok s \<Longrightarrow> bound s > 0 \<Longrightarrow>
   length (window (snd (offer_all enq xs s))) = min (nat (bound s)) (length (window s) + length xs)"
proof (induction xs arbitrary: s)
  case Nil
  with ok_bounded [OF Nil] show ?case by simp
next
  case (Cons x xs)
  from Cons.IH [OF enq_ok [OF Cons.prems(1), of x]] Cons.prems enq_count [OF Cons.prems, of x]
  show ?case by (simp add: split_beta enq_bound min_def)
qed

lemma offer_all_unbounded:
  "ok s \<Longrightarrow> bound s \<le> 0 \<Longrightarrow> fst (offer_all enq xs s) = []"
proof (induction xs arbitrary: s)
  case (Cons x xs)
  from Cons.IH [OF enq_ok [OF Cons.prems(1), of x]] Cons.prems
  show ?case by (simp add: split_beta enq_bound enq_evicts spec_enqueue_def)
qed simp

text \<open>Nothing is evicted as long as the bound is not exceeded.\<close>

lemma offer_all_fits:
  assumes "ok s" "bound s > 0" "int (length (window s) + length xs) \<le> bound s"
  shows "fst (offer_all enq xs s) = []" and "window (snd (offer_all enq xs s)) = window s @ xs"
proof -
  have "length (window (snd (offer_all enq xs s))) = length (window s @ xs)"
    using offer_all_count [OF assms(1,2), of xs] assms(3) by simp
  then show "fst (offer_all enq xs s) = []"
    using arg_cong [OF offer_all_conserves [OF assms(1), of xs], of length] by simp
  then show "window (snd (offer_all enq xs s)) = window s @ xs"
    using offer_all_conserves [OF assms(1), of xs] by simp
qed

end

lemma buffer_ok_bounded: "buffer_ok b \<Longrightarrow> bb_capLimit b > 0 \<Longrightarrow> int (length (live b)) \<le> bb_capLimit b"
  by (simp add: buffer_ok_def)

interpretation bq: drop_oldest "Enqueue zero" live bb_capLimit buffer_ok
  for zero
  by unfold_locales (simp_all add: Enqueue_refines Enqueue_ok buffer_ok_bounded)

subsection \<open>Runs of the buffer\<close>

text \<open>
  A run of one stream buffer. \<^verbatim>\<open>SetCap\<close> is documented to be called before the loops start, on
  an empty buffer; the other operations interleave freely, each under the buffer lock. The
  arguments of the relation are the elements enqueued, evicted, removed and taken so far.
\<close>

inductive buffer_run :: "'a \<Rightarrow> nat \<Rightarrow> 'a list \<Rightarrow> 'a list \<Rightarrow> 'a list \<Rightarrow> 'a list \<Rightarrow> 'a batch_buffer \<Rightarrow> bool"
  for zero maxSize
where
  run_new: "buffer_run zero maxSize [] [] [] [] (newBatchBuffer maxSize)"
| run_cap: "buffer_run zero maxSize ins evs rms outs b \<Longrightarrow> bb_items b = [] \<Longrightarrow>
    buffer_run zero maxSize ins evs rms outs (SetCap c b)"
| run_enqueue: "buffer_run zero maxSize ins evs rms outs b \<Longrightarrow> Enqueue zero x b = (ev, b') \<Longrightarrow>
    buffer_run zero maxSize (ins @ [x]) (case ev of None \<Rightarrow> evs | Some e \<Rightarrow> evs @ [e]) rms outs b'"
| run_remove: "buffer_run zero maxSize ins evs rms outs b \<Longrightarrow> RemoveMatching pred b = (n, b') \<Longrightarrow>
    buffer_run zero maxSize ins evs (rms @ filter pred (live b)) outs b'"
| run_drain: "buffer_run zero maxSize ins evs rms outs b \<Longrightarrow> Drain_swap b = (batch, b') \<Longrightarrow>
    buffer_run zero maxSize ins evs rms (case batch of None \<Rightarrow> outs | Some xs \<Rightarrow> outs @ xs) b'"
| run_signal: "buffer_run zero maxSize ins evs rms outs b \<Longrightarrow> take_signal b = (s, b') \<Longrightarrow>
    buffer_run zero maxSize ins evs rms outs b'"

lemma buffer_run_ok: "buffer_run zero maxSize ins evs rms outs b \<Longrightarrow> buffer_ok b"
proof (induction rule: buffer_run.induct)
  case (run_enqueue ins evs rms outs b x ev b')
  then show ?case using Enqueue_ok [of b zero x] by simp
next
  case (run_remove ins evs rms outs b pred n b')
  then show ?case using RemoveMatching_ok [of b pred] by simp
next
  case (run_drain ins evs rms outs b batch b')
  then show ?case using Drain_swap_ok [of b] by simp
next
  case (run_signal ins evs rms outs b s b')
  then show ?case using take_signal_ok(1) [of b] by simp
qed (simp_all add: SetCap_ok)

lemma buffer_run_conserves:
  "buffer_run zero maxSize ins evs rms outs b \<Longrightarrow>
   mset ins = mset evs + mset rms + mset outs + mset (live b)"
proof (induction rule: buffer_run.induct)
  case (run_enqueue ins evs rms outs b x ev b')
  have "(case ev of None \<Rightarrow> [] | Some e \<Rightarrow> [e]) @ live b' = live b @ [x]"
    using bq.enq_conserves [OF buffer_run_ok [OF run_enqueue.hyps(1)], of zero x] run_enqueue.hyps(2) by simp
  from arg_cong [OF this, of mset] run_enqueue.IH show ?case by (cases ev) simp_all
next
  case (run_remove ins evs rms outs b pred n b')
  have "live b' = filter (\<lambda>x. \<not> pred x) (live b)" using RemoveMatching_spec(2) [of pred b] run_remove.hyps by simp
  with run_remove.IH show ?case
    using multiset_partition [of "mset (live b)" pred] by (simp add: mset_filter)
next
  case (run_drain ins evs rms outs b batch b')
  have "batch = (if live b = [] then None else Some (live b))" "live b' = []"
    using Drain_swap_spec(1,2) [of b] run_drain.hyps by simp_all
  with run_drain.IH show ?case by simp
next
  case (run_signal ins evs rms outs b s b')
  then show ?case using take_signal_ok(2) [of b] by simp
qed simp_all

text \<open>While the window is at least \<^verbatim>\<open>maxSize\<close> long and the loop has not been woken since, the wake-up is pending.\<close>

lemma Enqueue_wakes:
  assumes "buffer_ok b" "Enqueue zero x b = (ev, b')" "length (live b') \<ge> bb_maxSize b'"
  shows "bb_signal b'"
  using assms(2,3) by (auto simp: Enqueue_def Let_def live_def split: if_splits)

text \<open>What is flushed and what is still buffered keeps the order in which it was enqueued.\<close>

lemma buffer_run_order:
  "buffer_run zero maxSize ins evs rms outs b \<Longrightarrow> subseq (outs @ live b) ins"
proof (induction rule: buffer_run.induct)
  case (run_enqueue ins evs rms outs b x ev b')
  have "(case ev of None \<Rightarrow> [] | Some e \<Rightarrow> [e]) @ live b' = live b @ [x]"
    using bq.enq_conserves [OF buffer_run_ok [OF run_enqueue.hyps(1)], of zero x] run_enqueue.hyps(2) by simp
  then have "suffix (live b') (live b @ [x])" unfolding suffix_def by metis
  then have "subseq (live b') (live b @ [x])" by (rule suffix_imp_subseq)
  then have "subseq (outs @ live b') ((outs @ live b) @ [x])"
    by (simp add: list_emb_append_mono)
  moreover have "subseq ((outs @ live b) @ [x]) (ins @ [x])" using run_enqueue.IH by (rule list_emb_append_mono) simp
  ultimately show ?case by (rule subseq_order.trans)
next
  case (run_remove ins evs rms outs b pred n b')
  have "live b' = filter (\<lambda>x. \<not> pred x) (live b)" using RemoveMatching_spec(2) [of pred b] run_remove.hyps by simp
  then have "subseq (outs @ live b') (outs @ live b)" by (simp add: list_emb_append_mono)
  from this run_remove.IH show ?case by (rule subseq_order.trans)
next
  case (run_drain ins evs rms outs b batch b')
  have "batch = (if live b = [] then None else Some (live b))" "live b' = []"
    using Drain_swap_spec(1,2) [of b] run_drain.hyps by simp_all
  with run_drain.IH show ?case by (cases "live b = []") simp_all
next
  case (run_signal ins evs rms outs b s b')
  then show ?case using take_signal_ok(2) [of b] by simp
qed simp_all

lemma buffer_memory:
  assumes "buffer_ok b" "bb_capLimit b > 0"
  shows "int (length (bb_items b)) \<le> 2 * bb_capLimit b"
  using assms by (auto simp: buffer_ok_def live_def)

text \<open>
  C31: The buffer of a stream implements a bounded drop-oldest queue, although it evicts by
  moving an index over zeroed slots and compacts only now and then. In every run each
  enqueued write is exactly one of: evicted, cancelled by RemoveMatching, handed to a
  flush, or still in the live window; what is flushed and what is still buffered keep the
  order of the enqueues; another Enqueue evicts precisely what the abstract queue evicts
  and leaves its contents in the window; and with a positive bound the window never exceeds
  it and the backing slice never exceeds twice the bound.
\<close>

theorem buffer_is_bounded_queue:
  assumes "buffer_run zero maxSize ins evs rms outs b"
  shows "mset ins = mset evs + mset rms + mset outs + mset (live b) \<and>
    subseq (outs @ live b) ins \<and>
    (fst (Enqueue zero x b), live (snd (Enqueue zero x b))) = spec_enqueue (bb_capLimit b) x (live b) \<and>
    (bb_capLimit b > 0 \<longrightarrow>
       int (length (live b)) \<le> bb_capLimit b \<and> int (length (bb_items b)) \<le> 2 * bb_capLimit b)"
  using buffer_run_conserves [OF assms] buffer_run_order [OF assms] buffer_run_ok [OF assms]
    Enqueue_refines [OF buffer_run_ok [OF assms], of zero x] buffer_memory buffer_ok_bounded
  by (metis prod.collapse)

text \<open>A buffer with bound 2 that has taken five writes and flushed none.\<close>

definition buffer_demo :: "nat batch_buffer" where
  "buffer_demo = snd (offer_all (Enqueue 0) [1, 2, 3, 4, 5] (SetCap 2 (newBatchBuffer 50)))"

lemma run_offer_all:
  "buffer_run zero maxSize ins evs rms outs b \<Longrightarrow>
   buffer_run zero maxSize (ins @ xs) (evs @ fst (offer_all (Enqueue zero) xs b)) rms outs (snd (offer_all (Enqueue zero) xs b))"
proof (induction xs arbitrary: ins evs b)
  case (Cons x xs)
  obtain ev b' where E: "Enqueue zero x b = (ev, b')" by (cases "Enqueue zero x b")
  from Cons.IH [OF buffer_run.run_enqueue [OF Cons.prems E]] E show ?case
    by (cases ev) (simp_all add: split_beta)
qed simp

theorem buffer_is_bounded_queue_witness:
  "buffer_run 0 50 [1, 2, 3, 4, 5] [1, 2, 3] [] [] buffer_demo \<and>
   live buffer_demo = [4, 5] \<and> int (length (bb_items buffer_demo)) \<le> 2 * 2 \<and>
   (fst (Enqueue 0 6 buffer_demo), live (snd (Enqueue 0 6 buffer_demo))) = spec_enqueue 2 6 [4, 5]"
proof -
  define s :: "nat batch_buffer" where "s = SetCap 2 (newBatchBuffer 50)"
  define r where "r = offer_all (Enqueue 0) [1, 2, 3, 4, 5] s"
  have ok: "buffer_ok s" and s: "live s = []" "bb_capLimit s = 2"
    by (simp_all add: s_def SetCap_ok) (simp add: SetCap_def newBatchBuffer_def buffer_ok_def live_def)
  have two: "length (live (snd r)) = 2" and cap: "bb_capLimit (snd r) = 2"
    using bq.offer_all_count [OF ok] bq.offer_all_ok [OF ok] unfolding r_def s by (simp_all del: offer_all.simps)
  have all: "fst r @ live (snd r) = [1, 2, 3, 4, 5]" using bq.offer_all_conserves [OF ok] unfolding r_def s by (simp del: offer_all.simps)
  have "length (fst r @ live (snd r)) = 5" unfolding all by simp
  then have "length (fst r) = 3" using two by simp
  with all have ev: "fst r = [1, 2, 3]" and lv: "live (snd r) = [4, 5]" by (simp_all add: append_eq_conv_conj)
  have demo: "buffer_demo = snd r" by (simp only: buffer_demo_def r_def s_def)
  have "buffer_run 0 50 [] [] [] [] s" unfolding s_def
    by (rule run_cap [OF run_new]) (simp add: newBatchBuffer_def)
  from run_offer_all [OF this, of "[1, 2, 3, 4, 5]", folded r_def] ev
  have run: "buffer_run 0 50 [1, 2, 3, 4, 5] [1, 2, 3] [] [] buffer_demo" by (simp add: demo)
  from buffer_is_bounded_queue [OF run, of 6] lv cap run show ?thesis by (simp add: demo)
qed

end
