(* ===== verification/Batch_Writer.thy ===== *)
theory Batch_Writer
  imports Batch_Buffer Audit_Chain
begin

section \<open>The batch writer: classification, retry and flush\<close>

text \<open>
  internal/controlplane/batchwriter/writer.go, from \<^verbatim>\<open>ClassifyFlushError\<close> to
  \<^verbatim>\<open>flushAuditEvents\<close>, with the bulk insert of storage/sqlite/bulk.go and audit.go it calls.

  The database driver is not part of the repository. It is the argument \<^verbatim>\<open>db\<close>: its answer to
  the n-th store call of the run, \<^verbatim>\<open>None\<close> when the driver itself does not fail. A failed call
  leaves the tables as they were, since the bulk methods run in one transaction that
  \<^verbatim>\<open>execInTx\<close> rolls back. The closing of \<^verbatim>\<open>Writer.done\<close> may happen at any time: the argument
  \<^verbatim>\<open>stopping\<close> says whether the channel is closed when it is polled after n store calls.
\<close>

subsection \<open>Errors\<close>

text \<open>
  An error is the chain \<^verbatim>\<open>errors.Unwrap\<close> walks: each link has what \<^verbatim>\<open>errors.Is\<close> and
  \<^verbatim>\<open>errors.As\<close> can see of it and its own message.
\<close>

datatype err_kind =
    DeadlineExceeded
  | Canceled
  | ErrConnDone
  | ErrTxDone
  | OpError bool
  | PgError string
  | OtherError

datatype go_error = GoError (ge_kind: err_kind) (ge_message: string) (ge_inner: "go_error option")

fun error_links :: "go_error \<Rightarrow> go_error list" where
  "error_links (GoError k m i) = GoError k m i # (case i of None \<Rightarrow> [] | Some e \<Rightarrow> error_links e)"

definition errorChain :: "go_error option \<Rightarrow> string list" where
  "errorChain err = (case err of None \<Rightarrow> [] | Some e \<Rightarrow> map ge_message (error_links e))"

definition errors_Is :: "go_error \<Rightarrow> err_kind \<Rightarrow> bool" where
  "errors_Is e k \<longleftrightarrow> k \<in> set (map ge_kind (error_links e))"

fun as_op_error :: "go_error list \<Rightarrow> bool option" where
  "as_op_error [] = None"
| "as_op_error (e # es) = (case ge_kind e of OpError timeout \<Rightarrow> Some timeout | _ \<Rightarrow> as_op_error es)"

fun as_pg_error :: "go_error list \<Rightarrow> string option" where
  "as_pg_error [] = None"
| "as_pg_error (e # es) = (case ge_kind e of PgError code \<Rightarrow> Some code | _ \<Rightarrow> as_pg_error es)"

definition transientMarkers :: "string list" where
  "transientMarkers =
     [''connection refused'', ''connection reset'', ''broken pipe'', ''no route to host'',
      ''network is unreachable'', ''deadline exceeded'', ''timeout'', ''driver: bad connection'',
      ''i/o timeout'', ''database is locked'', ''database table is locked'', ''sqlite_busy'',
      ''sqlite_locked'', ''server closed'', ''eof'']"

definition transient_codes :: "string list" where
  "transient_codes =
     [''08000'', ''08003'', ''08006'', ''08001'', ''08004'', ''08007'', ''40001'', ''40P01'']"

datatype flush_class = Transient | Persistent

definition ClassifyFlushError :: "go_error option \<Rightarrow> flush_class" where
  "ClassifyFlushError err =
     (case err of None \<Rightarrow> Persistent
      | Some e \<Rightarrow>
          if errors_Is e DeadlineExceeded \<or> errors_Is e Canceled \<or> errors_Is e ErrConnDone \<or> errors_Is e ErrTxDone
          then Transient
          else if as_op_error (error_links e) = Some True then Transient
          else (case as_pg_error (error_links e) of
                  Some code \<Rightarrow> if code \<in> set transient_codes then Transient else Persistent
                | None \<Rightarrow>
                    let msg = map ascii_lower (ge_message e)
                    in if list_ex (\<lambda>m. sublist m msg) transientMarkers then Transient else Persistent))"

subsection \<open>Retry\<close>

datatype metric =
    ObserveFlushError string flush_class
  | SetQueueDepth string nat
  | ObservePersistRetry string string
  | ObserveFlushDuration string
  | ObserveBufferDrop string nat

record 'st world =
  wd_store :: 'st
  wd_calls :: nat
  wd_slept :: "duration list"
  wd_metrics :: "metric list"

definition observe :: "metric \<Rightarrow> 'st world \<Rightarrow> 'st world" where
  "observe m w = w\<lparr>wd_metrics := wd_metrics w @ [m]\<rparr>"

definition sleep :: "duration \<Rightarrow> 'st world \<Rightarrow> 'st world" where
  "sleep d w = w\<lparr>wd_slept := wd_slept w @ [d]\<rparr>"

definition millisecond_ns :: duration where
  "millisecond_ns = 1000000"

definition retryBackoffs :: "duration list" where
  "retryBackoffs = [100 * millisecond_ns, 500 * millisecond_ns]"

datatype retryOutcome = retrySucceededFirstTry | retrySucceededOnRetry | retryExhausted | retryPersistent

type_synonym 'st op = "'st world \<Rightarrow> go_error option \<times> 'st world"

fun retry_loop ::
    "(nat \<Rightarrow> bool) \<Rightarrow> 'st op \<Rightarrow> ('st world \<Rightarrow> 'st world) \<Rightarrow> duration list \<Rightarrow> go_error option \<Rightarrow> 'st world \<Rightarrow>
     retryOutcome \<times> go_error option \<times> 'st world" where
  "retry_loop stopping op observeTransient [] err w = (retryExhausted, err, observeTransient w)"
| "retry_loop stopping op observeTransient (delay # delays) err w =
     (let w1 = observeTransient w
      in if stopping (wd_calls w1) then (retryExhausted, err, w1)
         else let (err', w2) = op (sleep delay w1)
              in if err' = None then (retrySucceededOnRetry, None, w2)
                 else if ClassifyFlushError err' = Persistent then (retryPersistent, err', w2)
                 else retry_loop stopping op observeTransient delays err' w2)"

definition retryWithBackoff ::
    "(nat \<Rightarrow> bool) \<Rightarrow> 'st op \<Rightarrow> ('st world \<Rightarrow> 'st world) \<Rightarrow> 'st world \<Rightarrow>
     retryOutcome \<times> go_error option \<times> 'st world" where
  "retryWithBackoff stopping op observeTransient w =
     (let (err, w1) = op w
      in if err = None then (retrySucceededFirstTry, None, w1)
         else if ClassifyFlushError err = Persistent then (retryPersistent, err, w1)
         else retry_loop stopping op observeTransient retryBackoffs err w1)"

definition flushItemTracked :: "(nat \<Rightarrow> bool) \<Rightarrow> string \<Rightarrow> 'st op \<Rightarrow> 'st world \<Rightarrow> bool \<times> 'st world" where
  "flushItemTracked stopping buffer op w =
     (let (outcome, err, w1) = retryWithBackoff stopping op (observe (ObserveFlushError buffer Transient)) w;
          (persisted, w2) =
            (case outcome of
               retrySucceededFirstTry \<Rightarrow> (True, w1)
             | retrySucceededOnRetry \<Rightarrow> (True, observe (ObservePersistRetry buffer ''success'') w1)
             | retryExhausted \<Rightarrow>
                 (False, observe (ObserveFlushError buffer Persistent)
                           (observe (ObservePersistRetry buffer ''exhausted'') w1))
             | retryPersistent \<Rightarrow> (False, observe (ObserveFlushError buffer Persistent) w1))
      in (persisted, observe (ObserveFlushDuration buffer) w2))"

definition flushItem :: "(nat \<Rightarrow> bool) \<Rightarrow> string \<Rightarrow> 'st op \<Rightarrow> 'st world \<Rightarrow> 'st world" where
  "flushItem stopping buffer op w = snd (flushItemTracked stopping buffer op w)"

text \<open>
  One store call: the driver may fail it, the statement itself may be refused, and in both
  cases the tables are unchanged.
\<close>

definition store_call :: "(nat \<Rightarrow> go_error option) \<Rightarrow> ('st \<Rightarrow> go_error + 'st) \<Rightarrow> 'st op" where
  "store_call db f w =
     (let w1 = w\<lparr>wd_calls := Suc (wd_calls w)\<rparr>
      in case db (wd_calls w) of Some e \<Rightarrow> (Some e, w1)
         | None \<Rightarrow> (case f (wd_store w) of Inl e \<Rightarrow> (Some e, w1) | Inr st \<Rightarrow> (None, w1\<lparr>wd_store := st\<rparr>)))"

definition bulkFlusher ::
    "(nat \<Rightarrow> go_error option) \<Rightarrow> (nat \<Rightarrow> bool) \<Rightarrow> string \<Rightarrow> ('a list \<Rightarrow> 'st \<Rightarrow> go_error + 'st) \<Rightarrow>
     'a list \<Rightarrow> 'st world \<Rightarrow> 'st world" where
  "bulkFlusher db stopping stream bulk items w =
     (if items = [] then w else flushItem stopping stream (store_call db (bulk items)) w)"

subsection \<open>What a flush does\<close>

lemma observe_fields [simp]:
  "wd_store (observe m w) = wd_store w" "wd_calls (observe m w) = wd_calls w" "wd_slept (observe m w) = wd_slept w"
  by (simp_all add: observe_def)

lemma sleep_fields [simp]:
  "wd_store (sleep d w) = wd_store w" "wd_calls (sleep d w) = wd_calls w" "wd_slept (sleep d w) = wd_slept w @ [d]"
  by (simp_all add: sleep_def)

text \<open>The answer the code sees to the n-th store call while the tables are \<^verbatim>\<open>st\<close>.\<close>

definition answer :: "(nat \<Rightarrow> go_error option) \<Rightarrow> ('st \<Rightarrow> go_error + 'st) \<Rightarrow> 'st \<Rightarrow> nat \<Rightarrow> go_error option" where
  "answer db f st n = (case db n of Some e \<Rightarrow> Some e | None \<Rightarrow> (case f st of Inl e \<Rightarrow> Some e | Inr _ \<Rightarrow> None))"

definition stored :: "('st \<Rightarrow> go_error + 'st) \<Rightarrow> 'st \<Rightarrow> 'st" where
  "stored f st = (case f st of Inl _ \<Rightarrow> st | Inr st' \<Rightarrow> st')"

lemma store_call_simp:
  "store_call db f w =
     (answer db f (wd_store w) (wd_calls w),
      if answer db f (wd_store w) (wd_calls w) = None
      then w\<lparr>wd_calls := Suc (wd_calls w), wd_store := stored f (wd_store w)\<rparr>
      else w\<lparr>wd_calls := Suc (wd_calls w)\<rparr>)"
  by (simp add: store_call_def answer_def stored_def Let_def split: option.splits sum.splits)

text \<open>
  \<^verbatim>\<open>retry_at\<close>: the number of the store call, counted from 0, at which a flush starting after
  \<^verbatim>\<open>c\<close> calls with \<^verbatim>\<open>n\<close> retries left succeeds; \<^verbatim>\<open>None\<close> when it gives up.
\<close>

fun retry_at :: "(nat \<Rightarrow> bool) \<Rightarrow> (nat \<Rightarrow> go_error option) \<Rightarrow> nat \<Rightarrow> nat \<Rightarrow> nat option" where
  "retry_at stopping ans 0 c = (if ans c = None then Some c else None)"
| "retry_at stopping ans (Suc n) c =
     (if ans c = None then Some c
      else if ClassifyFlushError (ans c) = Persistent \<or> stopping (Suc c) then None
      else retry_at stopping ans n (Suc c))"

lemma retry_at_bounds: "retry_at stopping ans n c = Some k \<Longrightarrow> c \<le> k \<and> k \<le> c + n \<and> ans k = None"
  by (induction stopping ans n c rule: retry_at.induct) (auto split: if_splits)

lemma retry_loop_store:
  assumes "err \<noteq> None" "ClassifyFlushError err = Transient"
    and "retry_loop stopping (store_call db f) (observe m) ds err w = (out, e, w')"
  shows "case (if ds = [] \<or> stopping (wd_calls w) then None
               else retry_at stopping (answer db f (wd_store w)) (length ds - 1) (wd_calls w)) of
           Some k \<Rightarrow> out = retrySucceededOnRetry \<and> wd_store w' = stored f (wd_store w) \<and> wd_calls w' = Suc k
         | None \<Rightarrow> out \<in> {retryExhausted, retryPersistent} \<and> wd_store w' = wd_store w \<and>
             wd_calls w' \<le> wd_calls w + length ds"
  using assms
proof (induction ds arbitrary: err w)
  case (Cons d ds)
  let ?a = "answer db f (wd_store w) (wd_calls w)"
  let ?w = "(sleep d (observe m w))\<lparr>wd_calls := Suc (wd_calls w)\<rparr>"
  consider "stopping (wd_calls w)" | "\<not> stopping (wd_calls w)" "?a = None"
    | "\<not> stopping (wd_calls w)" "?a \<noteq> None" "ClassifyFlushError ?a = Persistent"
    | "\<not> stopping (wd_calls w)" "?a \<noteq> None" "ClassifyFlushError ?a = Transient"
    using flush_class.exhaust by blast
  then show ?case
  proof cases
    case 2
    with Cons.prems show ?thesis by (cases ds) (auto simp: store_call_simp)
  next
    case 4
    with Cons.prems have L: "retry_loop stopping (store_call db f) (observe m) ds ?a ?w = (out, e, w')"
      by (simp add: store_call_simp [of db f "sleep d (observe m w)"])
    from Cons.IH [OF 4(2,3) L] 4 show ?thesis
      by (cases ds) (auto split: option.splits if_splits)
  qed (use Cons.prems in \<open>cases ds; auto simp: store_call_simp\<close>)+
qed auto

lemma flush_item_store:
  assumes "flushItemTracked stopping buffer (store_call db f) w = (persisted, w')"
  shows "case retry_at stopping (answer db f (wd_store w)) 2 (wd_calls w) of
      Some k \<Rightarrow> persisted \<and> wd_store w' = stored f (wd_store w) \<and> wd_calls w' = Suc k
    | None \<Rightarrow> \<not> persisted \<and> wd_store w' = wd_store w \<and> wd_calls w' \<le> wd_calls w + 3"
proof -
  let ?a = "answer db f (wd_store w) (wd_calls w)"
  let ?w = "w\<lparr>wd_calls := Suc (wd_calls w)\<rparr>"
  let ?m = "ObserveFlushError buffer Transient"
  obtain out e w1 where R: "retryWithBackoff stopping (store_call db f) (observe ?m) w = (out, e, w1)"
    by (metis prod_cases3)
  have P: "persisted \<longleftrightarrow> out \<in> {retrySucceededFirstTry, retrySucceededOnRetry}"
    and W: "wd_store w' = wd_store w1" "wd_calls w' = wd_calls w1"
    using assms R by (cases out; auto simp: flushItemTracked_def)+
  consider "?a = None" | "?a \<noteq> None" "ClassifyFlushError ?a = Persistent"
    | "?a \<noteq> None" "ClassifyFlushError ?a = Transient" using flush_class.exhaust by blast
  then show ?thesis
  proof cases
    case 3
    with R have L: "retry_loop stopping (store_call db f) (observe ?m) retryBackoffs ?a ?w = (out, e, w1)"
      by (simp add: retryWithBackoff_def store_call_simp [of db f w])
    from retry_loop_store [OF 3 L] 3 P W show ?thesis
      by (auto simp: retryBackoffs_def numeral_2_eq_2 split: option.splits if_splits)
  qed (use R P W in \<open>auto simp: retryWithBackoff_def store_call_simp numeral_2_eq_2\<close>)
qed

text \<open>
  A flush of one batch makes at most three store calls. It reports the batch persisted
  exactly when one of these calls succeeds with every earlier one having failed with an
  error classified as transient and the writer not stopping in between; then the batch has
  been applied once, by the last call made. Otherwise it reports failure and the tables are
  what they were.
\<close>

theorem flush_item_spec:
  assumes "flushItemTracked stopping buffer (store_call db f) w = (persisted, w')"
  shows "(persisted \<longleftrightarrow>
      (\<exists>k. retry_at stopping (answer db f (wd_store w)) 2 (wd_calls w) = Some k \<and> wd_calls w' = Suc k)) \<and>
    wd_calls w' \<le> wd_calls w + 3 \<and>
    (if persisted then f (wd_store w) = Inr (wd_store w') else wd_store w' = wd_store w)"
proof (cases "retry_at stopping (answer db f (wd_store w)) 2 (wd_calls w)")
  case (Some k)
  with retry_at_bounds [OF Some] flush_item_store [OF assms] show ?thesis
    by (auto simp: answer_def stored_def split: option.splits sum.splits)
qed (use flush_item_store [OF assms] in auto)

text \<open>The store is locked twice and then takes the row.\<close>

definition busy :: go_error where
  "busy = GoError OtherError ''database is locked (5) (SQLITE_BUSY)'' None"

lemma busy_transient [simp]: "ClassifyFlushError (Some busy) = Transient"
proof -
  have "sublist ''database is locked'' (map ascii_lower (ge_message busy))"
  proof -
    have "map ascii_lower (ge_message busy) = [] @ ''database is locked'' @ '' (5) (sqlite_busy)''"
      by (simp add: busy_def) code_simp
    then show ?thesis unfolding sublist_def by blast
  qed
  moreover have "''database is locked'' \<in> set transientMarkers" by (simp add: transientMarkers_def)
  ultimately have "list_ex (\<lambda>m. sublist m (map ascii_lower (ge_message busy))) transientMarkers"
    by (auto simp: list_ex_iff)
  then show ?thesis by (simp add: ClassifyFlushError_def busy_def errors_Is_def)
qed

definition busy_twice :: "nat \<Rightarrow> go_error option" where
  "busy_twice n = (if n < 2 then Some busy else None)"

definition flush_demo :: "bool \<times> nat world" where
  "flush_demo =
     flushItemTracked (\<lambda>_. False) ''audit'' (store_call busy_twice (\<lambda>st. Inr (st + 1)))
       \<lparr>wd_store = 0, wd_calls = 0, wd_slept = [], wd_metrics = []\<rparr>"

theorem flush_item_spec_witness:
  "fst flush_demo \<and> wd_store (snd flush_demo) = 1 \<and> wd_calls (snd flush_demo) = 3 \<and>
   wd_slept (snd flush_demo) = [100 * millisecond_ns, 500 * millisecond_ns]"
proof -
  have D: "flush_demo = (True, snd flush_demo)"
    and S: "wd_slept (snd flush_demo) = [100 * millisecond_ns, 500 * millisecond_ns]"
    by (simp_all add: flush_demo_def flushItemTracked_def retryWithBackoff_def retryBackoffs_def store_call_def busy_twice_def)
  have "flushItemTracked (\<lambda>_. False) ''audit'' (store_call busy_twice (\<lambda>st. Inr (st + 1)))
          \<lparr>wd_store = 0, wd_calls = 0, wd_slept = [], wd_metrics = []\<rparr> = (True, snd flush_demo)"
    using D by (subst (asm) (1) flush_demo_def)
  from flush_item_spec [OF this] arg_cong [OF D, of fst] S show ?thesis
    by (auto simp: numeral_2_eq_2 answer_def busy_twice_def)
qed

end
