(* ===== verification/Audit_Pipeline.thy ===== *)
theory Audit_Pipeline
  imports Batch_Writer
begin

section \<open>From an enqueued audit event to the table or the spool\<close>

text \<open>
  The audit stream of the batch writer: \<^verbatim>\<open>EnqueueAudit\<close> buffers an event, the flush loop hands
  the buffered batch to \<^verbatim>\<open>AppendAuditEventsBulk\<close> (storage/sqlite/audit.go, chunked by
  storage/sqlite/bulk.go), and whatever is evicted or cannot be written goes to the
  dead-letter file. The file system is the argument \<^verbatim>\<open>disk\<close>: whether the n-th dead-letter
  write succeeds. The text of a statement's error comes from the driver and is the argument
  \<^verbatim>\<open>refusal\<close>.
\<close>

subsection \<open>The chunked bulk insert\<close>

definition BulkChunkSize :: nat where
  "BulkChunkSize = 250"

definition ChunkBounds :: "nat \<Rightarrow> nat \<Rightarrow> nat \<Rightarrow> nat \<times> nat" where
  "ChunkBounds start tot sz = (start, if start + sz > tot then tot else start + sz)"

function runBulkChunks :: "nat \<Rightarrow> (nat \<Rightarrow> nat \<Rightarrow> 'st \<Rightarrow> 'e + 'st) \<Rightarrow> nat \<Rightarrow> 'st \<Rightarrow> 'e + 'st" where
  "runBulkChunks tot exec start st =
     (if start < tot
      then let (s, e) = ChunkBounds start tot BulkChunkSize
           in case exec s e st of Inl err \<Rightarrow> Inl err
              | Inr st' \<Rightarrow> runBulkChunks tot exec (start + BulkChunkSize) st'
      else Inr st)"
  by pat_completeness auto
termination by (relation "measure (\<lambda>(tot, _, start, _). tot - start)") (auto simp: BulkChunkSize_def)

declare runBulkChunks.simps [simp del]

definition audit_chunk :: "audit_record list \<Rightarrow> nat \<Rightarrow> nat \<Rightarrow> audit_table \<Rightarrow> audit_error + audit_table" where
  "audit_chunk events s e t =
     (let chunk = take (e - s) (drop s events)
      in if list_ex (\<lambda>r. encodeJSON (ar_details r) = None) chunk then Inl EncodeFailed
         else if \<not> distinct (map ar_id chunk) \<or> list_ex (\<lambda>r. ar_id r \<in> set (map aw_id t)) chunk then Inl DuplicateId
         else Inr (t @ map audit_row_of chunk))"

definition AppendAuditEventsBulk ::
    "(audit_error \<Rightarrow> go_error) \<Rightarrow> audit_record list \<Rightarrow> audit_table \<Rightarrow> go_error + audit_table" where
  "AppendAuditEventsBulk refusal events t =
     (if events = [] then Inr t
      else case runBulkChunks (length events) (audit_chunk events) 0 t of
             Inl e \<Rightarrow> Inl (refusal e) | Inr t' \<Rightarrow> Inr t')"

text \<open>What a single statement over the whole batch would accept.\<close>

definition insertable :: "audit_record list \<Rightarrow> audit_table \<Rightarrow> bool" where
  "insertable events t \<longleftrightarrow> list_all (\<lambda>r. encodeJSON (ar_details r) \<noteq> None) events \<and>
     distinct (map ar_id events) \<and> set (map ar_id events) \<inter> set (map aw_id t) = {}"

lemma audit_row_of_id [simp]: "aw_id (audit_row_of r) = ar_id r"
  by (simp add: audit_row_of_def)

lemma insertable_append:
  "insertable (xs @ ys) t \<longleftrightarrow> insertable xs t \<and> insertable ys (t @ map audit_row_of xs)"
  by (auto simp: insertable_def comp_def)

lemma audit_chunk_spec:
  "insertable (take (e - s) (drop s events)) t \<Longrightarrow>
   audit_chunk events s e t = Inr (t @ map audit_row_of (take (e - s) (drop s events)))"
  "\<not> insertable (take (e - s) (drop s events)) t \<Longrightarrow> \<exists>err. audit_chunk events s e t = Inl err"
  by (auto simp: audit_chunk_def insertable_def Let_def list_ex_iff list_all_iff)

lemma runBulkChunks_spec:
  "start \<le> length events \<Longrightarrow>
   (if insertable (drop start events) t
    then runBulkChunks (length events) (audit_chunk events) start t = Inr (t @ map audit_row_of (drop start events))
    else \<exists>err. runBulkChunks (length events) (audit_chunk events) start t = Inl err)"
proof (induction "length events - start" arbitrary: start t rule: less_induct)
  case less
  let ?n = BulkChunkSize
  let ?c = "take ?n (drop start events)"
  have n: "0 < ?n" by (simp add: BulkChunkSize_def)
  show ?case
  proof (cases "start < length events")
    case True
    define e where "e = snd (ChunkBounds start (length events) ?n)"
    have c: "take (e - start) (drop start events) = ?c" by (auto simp: e_def ChunkBounds_def)
    have unf: "runBulkChunks (length events) (audit_chunk events) start t =
        (case audit_chunk events start e t of Inl err \<Rightarrow> Inl err
         | Inr t' \<Rightarrow> runBulkChunks (length events) (audit_chunk events) (start + ?n) t')"
      using True by (subst runBulkChunks.simps) (simp add: e_def ChunkBounds_def)
    have split: "drop start events = ?c @ drop (start + ?n) events" by (simp add: add.commute flip: drop_drop)
    show ?thesis
    proof (cases "insertable ?c t")
      case ins: True
      let ?t = "t @ map audit_row_of ?c"
      have unf': "runBulkChunks (length events) (audit_chunk events) start t =
          runBulkChunks (length events) (audit_chunk events) (start + ?n) ?t"
        unfolding unf audit_chunk_spec(1) [where s = start and e = e and events = events, unfolded c, OF ins] by simp
      show ?thesis
      proof (cases "start + ?n \<le> length events")
        case le: True
        have "length events - (start + ?n) < length events - start" using True n by arith
        from less.hyps [OF this le, of ?t] ins show ?thesis
          unfolding unf' by (subst (1 2) split) (simp add: insertable_append)
      next
        case False
        then have "?c = drop start events" by simp
        moreover have "runBulkChunks (length events) (audit_chunk events) (start + ?n) ?t = Inr ?t"
          using False by (subst runBulkChunks.simps) simp
        ultimately show ?thesis using ins unf' by simp
      qed
    next
      case False
      with audit_chunk_spec(2) [where s = start and e = e and events = events, unfolded c, OF this]
      show ?thesis unfolding unf by (subst split) (auto simp: insertable_append)
    qed
  next
    case False
    with less.prems show ?thesis by (subst runBulkChunks.simps) (simp add: insertable_def)
  qed
qed

lemma bulk_insert_spec:
  "(if insertable events t then AppendAuditEventsBulk refusal events t = Inr (t @ map audit_row_of events)
    else \<exists>err. AppendAuditEventsBulk refusal events t = Inl err)"
  using runBulkChunks_spec [of 0 events t]
  by (auto simp: AppendAuditEventsBulk_def insertable_def split: if_splits)

subsection \<open>The stream\<close>

record audit_pipe =
  ap_buffer :: "audit_record batch_buffer"
  ap_inflight :: "audit_record list"
  ap_world :: "audit_table world"
  ap_spool :: "audit_record list"
  ap_lost :: "audit_record list"

text \<open>
  A failed dead-letter write is only logged: the record is then gone, which the field
  \<^verbatim>\<open>ap_lost\<close> of the model accounts for.
\<close>

definition writeDeadLetter :: "(nat \<Rightarrow> bool) \<Rightarrow> audit_record \<Rightarrow> audit_pipe \<Rightarrow> audit_pipe" where
  "writeDeadLetter disk item p =
     (if disk (length (ap_spool p) + length (ap_lost p)) then p\<lparr>ap_spool := ap_spool p @ [item]\<rparr>
      else p\<lparr>ap_lost := ap_lost p @ [item]\<rparr>)"

definition EnqueueAudit :: "audit_record \<Rightarrow> (nat \<Rightarrow> bool) \<Rightarrow> audit_record \<Rightarrow> audit_pipe \<Rightarrow> audit_pipe" where
  "EnqueueAudit zero disk r p =
     (let (ev, b) = Enqueue zero r (ap_buffer p); p1 = p\<lparr>ap_buffer := b\<rparr>
      in case ev of None \<Rightarrow> p1
         | Some e \<Rightarrow> writeDeadLetter disk e (p1\<lparr>ap_world := observe (ObserveBufferDrop ''audit'' 1) (ap_world p1)\<rparr>))"

definition flushAuditEvents ::
    "(nat \<Rightarrow> go_error option) \<Rightarrow> (nat \<Rightarrow> bool) \<Rightarrow> (nat \<Rightarrow> bool) \<Rightarrow> (audit_error \<Rightarrow> go_error) \<Rightarrow>
     audit_record list \<Rightarrow> audit_pipe \<Rightarrow> audit_pipe" where
  "flushAuditEvents db stopping disk refusal items p =
     (if items = [] then p
      else let (persisted, w) =
                 flushItemTracked stopping ''audit'' (store_call db (AppendAuditEventsBulk refusal items)) (ap_world p);
               p1 = p\<lparr>ap_world := w\<rparr>
           in if persisted then p1 else fold (writeDeadLetter disk) items p1)"

text \<open>
  \<^verbatim>\<open>Drain\<close> holds \<^verbatim>\<open>drainMu\<close> from the swap to the end of the flush and the buffer lock only for the
  swap, so events may be enqueued in between.
\<close>

definition drain_begin :: "audit_pipe \<Rightarrow> audit_pipe" where
  "drain_begin p =
     (case Drain_swap (ap_buffer p) of
        (None, b) \<Rightarrow> p
      | (Some batch, b) \<Rightarrow> p\<lparr>ap_buffer := b, ap_inflight := batch\<rparr>)"

definition drain_finish ::
    "(nat \<Rightarrow> go_error option) \<Rightarrow> (nat \<Rightarrow> bool) \<Rightarrow> (nat \<Rightarrow> bool) \<Rightarrow> (audit_error \<Rightarrow> go_error) \<Rightarrow>
     audit_pipe \<Rightarrow> audit_pipe" where
  "drain_finish db stopping disk refusal p =
     (flushAuditEvents db stopping disk refusal (ap_inflight p) p)\<lparr>ap_inflight := []\<rparr>"

definition new_pipe :: "int \<Rightarrow> audit_table \<Rightarrow> audit_pipe" where
  "new_pipe cap t =
     \<lparr>ap_buffer = SetCap cap (newBatchBuffer 50), ap_inflight = [],
      ap_world = \<lparr>wd_store = t, wd_calls = 0, wd_slept = [], wd_metrics = []\<rparr>, ap_spool = [], ap_lost = []\<rparr>"

inductive audit_pipe_run ::
    "audit_record \<Rightarrow> (nat \<Rightarrow> go_error option) \<Rightarrow> (nat \<Rightarrow> bool) \<Rightarrow> (nat \<Rightarrow> bool) \<Rightarrow> (audit_error \<Rightarrow> go_error) \<Rightarrow>
     int \<Rightarrow> audit_table \<Rightarrow> audit_record list \<Rightarrow> audit_pipe \<Rightarrow> bool"
  for zero db stopping disk refusal cap t
where
  pipe_new: "audit_pipe_run zero db stopping disk refusal cap t [] (new_pipe cap t)"
| pipe_enqueue: "audit_pipe_run zero db stopping disk refusal cap t ins p \<Longrightarrow>
    audit_pipe_run zero db stopping disk refusal cap t (ins @ [r]) (EnqueueAudit zero disk r p)"
| pipe_begin: "audit_pipe_run zero db stopping disk refusal cap t ins p \<Longrightarrow> ap_inflight p = [] \<Longrightarrow>
    audit_pipe_run zero db stopping disk refusal cap t ins (drain_begin p)"
| pipe_finish: "audit_pipe_run zero db stopping disk refusal cap t ins p \<Longrightarrow>
    audit_pipe_run zero db stopping disk refusal cap t ins (drain_finish db stopping disk refusal p)"

subsection \<open>Nothing disappears\<close>

text \<open>Where the events of a run are.\<close>

definition pipe_ok :: "(nat \<Rightarrow> bool) \<Rightarrow> audit_table \<Rightarrow> audit_record list \<Rightarrow> audit_record list \<Rightarrow> audit_pipe \<Rightarrow> bool" where
  "pipe_ok disk t ins dn p \<longleftrightarrow> buffer_ok (ap_buffer p) \<and>
     wd_store (ap_world p) = t @ map audit_row_of dn \<and>
     mset ins = mset dn + mset (ap_spool p) + mset (ap_lost p) + mset (ap_inflight p) + mset (live (ap_buffer p)) \<and>
     subseq (dn @ ap_inflight p @ live (ap_buffer p)) ins \<and>
     (ap_lost p \<noteq> [] \<longrightarrow> (\<exists>n. \<not> disk n))"

lemma writeDeadLetter_fields [simp]:
  "ap_buffer (writeDeadLetter disk r p) = ap_buffer p" "ap_inflight (writeDeadLetter disk r p) = ap_inflight p"
  "ap_world (writeDeadLetter disk r p) = ap_world p"
  by (simp_all add: writeDeadLetter_def)

lemma writeDeadLetter_mset:
  "mset (ap_spool (writeDeadLetter disk r p)) + mset (ap_lost (writeDeadLetter disk r p)) =
   mset (ap_spool p) + mset (ap_lost p) + {#r#}"
  by (simp add: writeDeadLetter_def)

lemma writeDeadLetter_lost:
  "ap_lost (writeDeadLetter disk r p) \<noteq> [] \<Longrightarrow> ap_lost p \<noteq> [] \<or> (\<exists>n. \<not> disk n)"
  by (auto simp: writeDeadLetter_def split: if_splits)

lemma spool_all_fields [simp]:
  "ap_buffer (fold (writeDeadLetter disk) rs p) = ap_buffer p"
  "ap_inflight (fold (writeDeadLetter disk) rs p) = ap_inflight p"
  "ap_world (fold (writeDeadLetter disk) rs p) = ap_world p"
  by (induction rs arbitrary: p) simp_all

lemma spool_all_mset:
  "mset (ap_spool (fold (writeDeadLetter disk) rs p)) + mset (ap_lost (fold (writeDeadLetter disk) rs p)) =
   mset (ap_spool p) + mset (ap_lost p) + mset rs"
  by (induction rs arbitrary: p) (simp_all add: writeDeadLetter_mset)

lemma spool_all_lost:
  "ap_lost (fold (writeDeadLetter disk) rs p) \<noteq> [] \<Longrightarrow> ap_lost p \<noteq> [] \<or> (\<exists>n. \<not> disk n)"
proof (induction rs arbitrary: p)
  case (Cons r rs)
  then show ?case using writeDeadLetter_lost [of disk r p] by fastforce
qed simp

lemma pipe_ok_new: "pipe_ok disk t [] [] (new_pipe cap t)"
  by (simp add: pipe_ok_def new_pipe_def SetCap_ok) (simp add: SetCap_def newBatchBuffer_def buffer_ok_def live_def)

lemma pipe_ok_enqueue:
  assumes "pipe_ok disk t ins dn p"
  shows "pipe_ok disk t (ins @ [r]) dn (EnqueueAudit zero disk r p)"
proof -
  obtain ev b where E: "Enqueue zero r (ap_buffer p) = (ev, b)" by (cases "Enqueue zero r (ap_buffer p)")
  have ok: "buffer_ok (ap_buffer p)" using assms by (simp add: pipe_ok_def)
  have eq: "(case ev of None \<Rightarrow> [] | Some e \<Rightarrow> [e]) @ live b = live (ap_buffer p) @ [r]"
    using bq.enq_conserves [OF ok, of zero r] E by simp
  have bok: "buffer_ok b" using Enqueue_ok [OF ok, of zero r] E by simp
  have "subseq (live b) (live (ap_buffer p) @ [r])" using eq by (intro suffix_imp_subseq) (metis suffix_def)
  then have "subseq ((dn @ ap_inflight p) @ live b) ((dn @ ap_inflight p @ live (ap_buffer p)) @ [r])"
    by (simp add: list_emb_append_mono)
  moreover have "subseq ((dn @ ap_inflight p @ live (ap_buffer p)) @ [r]) (ins @ [r])"
    using assms by (intro list_emb_append_mono) (simp_all add: pipe_ok_def)
  ultimately have sub: "subseq (dn @ ap_inflight p @ live b) (ins @ [r])"
    using subseq_order.trans by fastforce
  show ?thesis
  proof (cases ev)
    case None
    with E eq bok sub assms show ?thesis by (simp add: pipe_ok_def EnqueueAudit_def)
  next
    case (Some e)
    let ?q = "p\<lparr>ap_buffer := b, ap_world := observe (ObserveBufferDrop ''audit'' 1) (ap_world p)\<rparr>"
    have "EnqueueAudit zero disk r p = writeDeadLetter disk e ?q" using E Some by (simp add: EnqueueAudit_def)
    moreover have "mset (live (ap_buffer p)) + {#r#} = {#e#} + mset (live b)"
      using arg_cong [OF eq, of mset] Some by simp
    ultimately show ?thesis
      using bok sub assms writeDeadLetter_mset [of disk e ?q] writeDeadLetter_lost [of disk e ?q]
      by (auto simp: pipe_ok_def add.assoc add.commute)
  qed
qed

lemma pipe_ok_begin:
  assumes "pipe_ok disk t ins dn p" "ap_inflight p = []"
  shows "pipe_ok disk t ins dn (drain_begin p)"
  using assms Drain_swap_spec(1,2) [of "ap_buffer p"] Drain_swap_ok [of "ap_buffer p"]
  by (cases "Drain_swap (ap_buffer p)") (auto simp: pipe_ok_def drain_begin_def split: if_splits)

lemma pipe_ok_finish:
  assumes ok: "pipe_ok disk t ins dn p"
  shows "\<exists>dn'. pipe_ok disk t ins dn' (drain_finish db stopping disk refusal p)"
proof (cases "ap_inflight p = []")
  case True
  with ok have "pipe_ok disk t ins dn (drain_finish db stopping disk refusal p)"
    by (simp add: pipe_ok_def drain_finish_def flushAuditEvents_def)
  then show ?thesis ..
next
  case ne: False
  let ?f = "AppendAuditEventsBulk refusal (ap_inflight p)"
  obtain persisted w where F: "flushItemTracked stopping ''audit'' (store_call db ?f) (ap_world p) = (persisted, w)"
    by fastforce
  note res = flush_item_store [OF F]
  show ?thesis
  proof (cases persisted)
    case True
    then obtain k where k: "retry_at stopping (answer db ?f (wd_store (ap_world p))) 2 (wd_calls (ap_world p)) = Some k"
      and st: "wd_store w = stored ?f (wd_store (ap_world p))"
      using res by (auto split: option.splits)
    have "wd_store w = wd_store (ap_world p) @ map audit_row_of (ap_inflight p)"
      using st retry_at_bounds [OF k] bulk_insert_spec [of "ap_inflight p" "wd_store (ap_world p)" refusal]
      by (auto simp: answer_def stored_def split: option.splits sum.splits if_splits)
    with True ne F ok have "pipe_ok disk t ins (dn @ ap_inflight p) (drain_finish db stopping disk refusal p)"
      by (auto simp: pipe_ok_def drain_finish_def flushAuditEvents_def ac_simps)
    then show ?thesis ..
  next
    case False
    let ?q = "p\<lparr>ap_world := w\<rparr>"
    have "wd_store w = wd_store (ap_world p)" using res False by (auto split: option.splits)
    moreover have "drain_finish db stopping disk refusal p =
        (fold (writeDeadLetter disk) (ap_inflight p) ?q)\<lparr>ap_inflight := []\<rparr>"
      using False ne F by (simp add: drain_finish_def flushAuditEvents_def)
    moreover have "subseq (dn @ live (ap_buffer p)) (dn @ ap_inflight p @ live (ap_buffer p))"
      by (intro list_emb_append_mono) (simp_all add: list_emb_append2)
    ultimately have "pipe_ok disk t ins dn (drain_finish db stopping disk refusal p)"
      using ok spool_all_mset [of disk "ap_inflight p" ?q] spool_all_lost [of disk "ap_inflight p" ?q]
      by (auto simp: pipe_ok_def ac_simps intro: subseq_order.trans)
    then show ?thesis ..
  qed
qed

lemma audit_pipe_run_ok:
  "audit_pipe_run zero db stopping disk refusal cap t ins p \<Longrightarrow> \<exists>dn. pipe_ok disk t ins dn p"
  by (induction rule: audit_pipe_run.induct)
    (blast intro: pipe_ok_new pipe_ok_enqueue pipe_ok_begin pipe_ok_finish)+

text \<open>
  C32: No audit event of the asynchronous path disappears silently. At any moment of a run,
  however the driver answers, whenever the writer stops and however often the buffer
  overflows, every enqueued event is exactly once in the audit table, in the dead-letter
  file, in the batch being flushed, in the buffer, or was refused by the disk with the
  logged error; nothing else is ever added to the table, the rows appear in the order of
  the enqueues, and if no dead-letter write fails no event is lost.
\<close>

theorem audit_events_accounted:
  assumes "audit_pipe_run zero db stopping disk refusal cap t ins p"
  shows "\<exists>written. wd_store (ap_world p) = t @ map audit_row_of written \<and>
    mset ins = mset written + mset (ap_spool p) + mset (ap_lost p) + mset (ap_inflight p) + mset (live (ap_buffer p)) \<and>
    subseq (written @ ap_inflight p @ live (ap_buffer p)) ins \<and>
    ((\<forall>n. disk n) \<longrightarrow> ap_lost p = [])"
  using audit_pipe_run_ok [OF assms] unfolding pipe_ok_def by blast

text \<open>A buffer of one element: the second event evicts the first into the spool and is then written.\<close>

definition demo_event :: "string \<Rightarrow> audit_record" where
  "demo_event i = \<lparr>ar_id = i, ar_actorID = ''root'', ar_action = ''login'', ar_targetID = [], ar_createdAt = 0,
     ar_details = None, ar_prevHash = [], ar_eventHash = []\<rparr>"

definition demo_pipe :: audit_pipe where
  "demo_pipe =
     drain_finish (\<lambda>_. None) (\<lambda>_. False) (\<lambda>_. True) (\<lambda>_. busy)
       (drain_begin (EnqueueAudit (demo_event []) (\<lambda>_. True) (demo_event ''b'')
         (EnqueueAudit (demo_event []) (\<lambda>_. True) (demo_event ''a'') (new_pipe 1 []))))"

theorem audit_events_accounted_witness:
  "(\<exists>written. wd_store (ap_world demo_pipe) = map audit_row_of written \<and>
     {#demo_event ''a'', demo_event ''b''#} =
       mset written + mset (ap_spool demo_pipe) + mset (ap_lost demo_pipe) + mset (ap_inflight demo_pipe)
         + mset (live (ap_buffer demo_pipe))) \<and>
   ap_spool demo_pipe = [demo_event ''a''] \<and> ap_lost demo_pipe = [] \<and>
   wd_store (ap_world demo_pipe) = [audit_row_of (demo_event ''b'')]"
proof -
  have run: "audit_pipe_run (demo_event []) (\<lambda>_. None) (\<lambda>_. False) (\<lambda>_. True) (\<lambda>_. busy) 1 []
      (([] @ [demo_event ''a'']) @ [demo_event ''b'']) demo_pipe"
    unfolding demo_pipe_def
    by (intro pipe_finish pipe_begin pipe_enqueue pipe_new)
      (simp add: EnqueueAudit_def new_pipe_def SetCap_def newBatchBuffer_def Enqueue_def compact_def Let_def writeDeadLetter_def)
  have "ap_spool demo_pipe = [demo_event ''a''] \<and> wd_store (ap_world demo_pipe) = [audit_row_of (demo_event ''b'')]"
    by (simp add: demo_pipe_def EnqueueAudit_def new_pipe_def SetCap_def newBatchBuffer_def Enqueue_def compact_def
        Let_def writeDeadLetter_def drain_begin_def Drain_swap_def drain_finish_def flushAuditEvents_def
        flushItemTracked_def retryWithBackoff_def store_call_def AppendAuditEventsBulk_def runBulkChunks.simps
        audit_chunk_def ChunkBounds_def BulkChunkSize_def demo_event_def encodeJSON_def observe_def)
  with audit_events_accounted [OF run] show ?thesis by (auto simp: add_mset_commute)
qed

end
