(* ===== verification/Writer_Streams.thy ===== *)
theory Writer_Streams
  imports Batch_Writer
begin

section \<open>The streams of the batch writer\<close>

text \<open>
  \<^verbatim>\<open>New\<close> builds nine typed buffers and views them through the type-erased interface
  \<^verbatim>\<open>streamBuffer\<close>; the fan-outs iterate over that view. Here the item type \<^verbatim>\<open>'a\<close> stands for the
  union of the record types and \<^verbatim>\<open>flush\<close> for the stream's flush function. The bulk methods of
  the store that \<^verbatim>\<open>flushTelemetry\<close> calls are the arguments of its record \<^verbatim>\<open>telemetry_store\<close>.
\<close>

subsection \<open>Sizes\<close>

definition defaultBatchMaxSize :: nat where
  "defaultBatchMaxSize = 200"

definition streamBatchSizes :: "string \<rightharpoonup> nat" where
  "streamBatchSizes =
     [''telemetry'' \<mapsto> 500, ''client_ips'' \<mapsto> 500, ''dc_health'' \<mapsto> 500, ''audit'' \<mapsto> 50, ''fallback_state'' \<mapsto> 50]"

definition batchSizeFor :: "string \<Rightarrow> nat" where
  "batchSizeFor stream = (case streamBatchSizes stream of Some n \<Rightarrow> n | None \<Rightarrow> defaultBatchMaxSize)"

definition defaultBatchBufferCap :: int where
  "defaultBatchBufferCap = 10000"

subsection \<open>Fan-outs\<close>

type_synonym 'a stream_buffer = "string \<times> 'a batch_buffer"

record ('a, 'st) writer =
  wr_regular :: "'a stream_buffer list"
  wr_fallbackState :: "'a stream_buffer"
  wr_world :: "'st world"

definition new_stream_buffer :: "string \<Rightarrow> 'a stream_buffer" where
  "new_stream_buffer name = (name, newBatchBuffer (batchSizeFor name))"

definition regular_streams :: "string list" where
  "regular_streams =
     [''agents'', ''instances'', ''metrics'', ''server_load'', ''dc_health'', ''client_ips'', ''telemetry'', ''audit'']"

definition SetBufferCap :: "int \<Rightarrow> ('a, 'st) writer \<Rightarrow> ('a, 'st) writer" where
  "SetBufferCap capLimit w =
     w\<lparr>wr_regular := map (map_prod id (SetCap capLimit)) (wr_regular w),
       wr_fallbackState := map_prod id (SetCap capLimit) (wr_fallbackState w)\<rparr>"

definition New :: "'st world \<Rightarrow> ('a, 'st) writer" where
  "New world =
     SetBufferCap defaultBatchBufferCap
       \<lparr>wr_regular = map new_stream_buffer regular_streams,
        wr_fallbackState = new_stream_buffer ''fallback_state'', wr_world = world\<rparr>"

definition allBuffers :: "('a, 'st) writer \<Rightarrow> 'a stream_buffer list" where
  "allBuffers w = wr_regular w @ [wr_fallbackState w]"

definition observeQueueDepths :: "('a, 'st) writer \<Rightarrow> ('a, 'st) writer" where
  "observeQueueDepths w =
     w\<lparr>wr_world := fold (\<lambda>(name, b). observe (SetQueueDepth name (Len b))) (allBuffers w) (wr_world w)\<rparr>"

definition Drain ::
    "(string \<Rightarrow> 'a list \<Rightarrow> 'st world \<Rightarrow> 'st world) \<Rightarrow> 'a stream_buffer \<Rightarrow> 'st world \<Rightarrow> 'a stream_buffer \<times> 'st world" where
  "Drain flush sb w =
     (let (name, b) = sb
      in case Drain_swap b of (None, b') \<Rightarrow> ((name, b'), w) | (Some batch, b') \<Rightarrow> ((name, b'), flush name batch w))"

fun drain_each ::
    "(string \<Rightarrow> 'a list \<Rightarrow> 'st world \<Rightarrow> 'st world) \<Rightarrow> 'a stream_buffer list \<Rightarrow> 'st world \<Rightarrow>
     'a stream_buffer list \<times> 'st world" where
  "drain_each flush [] w = ([], w)"
| "drain_each flush (sb # sbs) w =
     (let (sb', w1) = Drain flush sb w; (sbs', w2) = drain_each flush sbs w1 in (sb' # sbs', w2))"

definition drainRegular :: "(string \<Rightarrow> 'a list \<Rightarrow> 'st world \<Rightarrow> 'st world) \<Rightarrow> ('a, 'st) writer \<Rightarrow> ('a, 'st) writer" where
  "drainRegular flush w =
     (let w1 = observeQueueDepths w; (sbs, world) = drain_each flush (wr_regular w1) (wr_world w1)
      in w1\<lparr>wr_regular := sbs, wr_world := world\<rparr>)"

definition drainAll :: "(string \<Rightarrow> 'a list \<Rightarrow> 'st world \<Rightarrow> 'st world) \<Rightarrow> ('a, 'st) writer \<Rightarrow> ('a, 'st) writer" where
  "drainAll flush w =
     (let w1 = drainRegular flush w; (sb, world) = Drain flush (wr_fallbackState w1) (wr_world w1)
      in w1\<lparr>wr_fallbackState := sb, wr_world := world\<rparr>)"

text \<open>\<^verbatim>\<open>RemovePendingAgent\<close>, given how an item names its agent.\<close>

definition RemovePendingAgent :: "('a \<Rightarrow> string) \<Rightarrow> string \<Rightarrow> 'a batch_buffer \<Rightarrow> nat \<times> 'a batch_buffer" where
  "RemovePendingAgent agent_id agentID agents = RemoveMatching (\<lambda>rec. agent_id rec = agentID) agents"

text \<open>\<^verbatim>\<open>DrainPendingFallbackOps\<close>: hand back the live window without flushing it.\<close>

definition DrainPendingFallbackOps :: "'a batch_buffer \<Rightarrow> 'a list \<times> 'a batch_buffer" where
  "DrainPendingFallbackOps b = (drop (bb_start b) (bb_items b), b\<lparr>bb_items := [], bb_start := 0\<rparr>)"

subsection \<open>What a full drain does\<close>

text \<open>The flushes of a drain, in order: the stream's name and the batch it is given.\<close>

definition drain_batches :: "'a stream_buffer list \<Rightarrow> (string \<times> 'a list) list" where
  "drain_batches sbs = map (map_prod id live) (filter (\<lambda>(_, b). live b \<noteq> []) sbs)"

lemma Drain_spec:
  "Drain flush (name, b) w = ((name, snd (Drain_swap b)), if live b = [] then w else flush name (live b) w)"
  using Drain_swap_spec(1) [of b] by (cases "Drain_swap b") (auto simp: Drain_def split: if_splits)

lemma drain_each_spec:
  "drain_each flush sbs w =
     (map (map_prod id (\<lambda>b. snd (Drain_swap b))) sbs,
      fold (\<lambda>(name, batch). flush name batch) (drain_batches sbs) w)"
proof (induction sbs arbitrary: w)
  case (Cons sb sbs)
  then show ?case by (cases sb) (simp add: Drain_spec drain_batches_def)
qed (simp add: drain_batches_def)

lemma queue_depths_world:
  "wd_store (fold (\<lambda>(name, b). observe (SetQueueDepth name (Len b))) sbs w) = wd_store w"
  "wd_calls (fold (\<lambda>(name, b). observe (SetQueueDepth name (Len b))) sbs w) = wd_calls w"
  by (induction sbs arbitrary: w) (simp_all add: split_beta)

lemma drainAll_buffers:
  "wr_regular (drainAll flush w) = map (map_prod id (\<lambda>b. snd (Drain_swap b))) (wr_regular w)"
  "wr_fallbackState (drainAll flush w) = map_prod id (\<lambda>b. snd (Drain_swap b)) (wr_fallbackState w)"
  by (cases "wr_fallbackState w";
      simp add: drainAll_def drainRegular_def observeQueueDepths_def drain_each_spec Drain_spec Let_def)+

text \<open>
  The final drain leaves every buffer empty, flushes each non-empty buffer exactly once in
  the order agents first, audit last of the regular streams, then the fallback stream, and
  publishes the depths before anything is taken.
\<close>

theorem drain_all_empties_in_order:
  "(\<forall>sb. sb \<in> set (allBuffers (drainAll flush w)) \<longrightarrow> live (snd sb) = []) \<and>
   wr_world (drainAll flush w) =
     fold (\<lambda>(name, batch). flush name batch) (drain_batches (allBuffers w)) (wr_world (observeQueueDepths w)) \<and>
   map fst (allBuffers (drainAll flush w)) = map fst (allBuffers w)"
proof -
  have world: "wr_world (drainAll flush w) =
      fold (\<lambda>(name, batch). flush name batch) (drain_batches (allBuffers w)) (wr_world (observeQueueDepths w))"
    by (cases "wr_fallbackState w")
      (simp add: drainAll_def drainRegular_def observeQueueDepths_def drain_each_spec Drain_spec Let_def allBuffers_def
        drain_batches_def)
  show ?thesis
    using world by (auto simp: allBuffers_def drainAll_buffers Drain_swap_spec(2))
qed

lemma new_streams: "map fst (allBuffers (New world)) = regular_streams @ [''fallback_state'']"
  by (simp add: allBuffers_def New_def SetBufferCap_def new_stream_buffer_def comp_def)

subsection \<open>The telemetry stream\<close>

record ('r, 'dc, 'up, 'ev, 'di, 'se) TelemetryWriteUnit =
  tu_AgentID :: string
  tu_Runtime :: "'r option"
  tu_DCs :: "'dc list option"
  tu_Upstreams :: "'up list option"
  tu_Events :: "'ev list"
  tu_Diagnostics :: "'di option"
  tu_Security :: "'se option"

record ('r, 'dc, 'up, 'ev, 'di, 'se, 'st) telemetry_store =
  ts_putRuntimes :: "'r list \<Rightarrow> 'st \<Rightarrow> go_error + 'st"
  ts_replaceDCs :: "(string \<rightharpoonup> 'dc list) \<Rightarrow> 'st \<Rightarrow> go_error + 'st"
  ts_replaceUpstreams :: "(string \<rightharpoonup> 'up list) \<Rightarrow> 'st \<Rightarrow> go_error + 'st"
  ts_appendEvents :: "'ev list \<Rightarrow> 'st \<Rightarrow> go_error + 'st"
  ts_putDiagnostics :: "'di list \<Rightarrow> 'st \<Rightarrow> go_error + 'st"
  ts_putSecurity :: "'se list \<Rightarrow> 'st \<Rightarrow> go_error + 'st"

definition opt_list :: "'a option \<Rightarrow> 'a list" where
  "opt_list x = (case x of None \<Rightarrow> [] | Some v \<Rightarrow> [v])"

text \<open>A map by agent to which each unit with a non-nil slice writes its slice.\<close>

definition by_agent :: "('u \<Rightarrow> string) \<Rightarrow> ('u \<Rightarrow> 'x list option) \<Rightarrow> 'u list \<Rightarrow> (string \<rightharpoonup> 'x list)" where
  "by_agent key part items =
     fold (\<lambda>u m. case part u of None \<Rightarrow> m | Some xs \<Rightarrow> m(key u \<mapsto> xs)) items Map.empty"

definition flush_part :: "(nat \<Rightarrow> go_error option) \<Rightarrow> (nat \<Rightarrow> bool) \<Rightarrow> bool \<Rightarrow> ('st \<Rightarrow> go_error + 'st) \<Rightarrow> 'st world \<Rightarrow> 'st world" where
  "flush_part db stopping nonempty f w = (if nonempty then flushItem stopping ''telemetry'' (store_call db f) w else w)"

definition flushTelemetry ::
    "(nat \<Rightarrow> go_error option) \<Rightarrow> (nat \<Rightarrow> bool) \<Rightarrow> ('r, 'dc, 'up, 'ev, 'di, 'se, 'st) telemetry_store \<Rightarrow>
     ('r, 'dc, 'up, 'ev, 'di, 'se) TelemetryWriteUnit list \<Rightarrow> 'st world \<Rightarrow> 'st world" where
  "flushTelemetry db stopping store items w =
     (if items = [] then w
      else
        let runtimes = concat (map (\<lambda>u. opt_list (tu_Runtime u)) items);
            dcsByAgent = by_agent tu_AgentID tu_DCs items;
            upstreamsByAgent = by_agent tu_AgentID tu_Upstreams items;
            events = concat (map tu_Events items);
            diagnostics = concat (map (\<lambda>u. opt_list (tu_Diagnostics u)) items);
            security = concat (map (\<lambda>u. opt_list (tu_Security u)) items);
            w1 = flush_part db stopping (runtimes \<noteq> []) (ts_putRuntimes store runtimes) w;
            w2 = flush_part db stopping (\<exists>u \<in> set items. tu_DCs u \<noteq> None) (ts_replaceDCs store dcsByAgent) w1;
            w3 = flush_part db stopping (\<exists>u \<in> set items. tu_Upstreams u \<noteq> None) (ts_replaceUpstreams store upstreamsByAgent) w2;
            w4 = flush_part db stopping (events \<noteq> []) (ts_appendEvents store events) w3;
            w5 = flush_part db stopping (diagnostics \<noteq> []) (ts_putDiagnostics store diagnostics) w4
        in flush_part db stopping (security \<noteq> []) (ts_putSecurity store security) w5)"

text \<open>The last unit of an agent that carries the part decides what replaces the agent's rows.\<close>

lemma by_agent_last: "by_agent key part items a =
    (case filter (\<lambda>u. key u = a \<and> part u \<noteq> None) items of [] \<Rightarrow> None
     | us \<Rightarrow> part (last us))"
proof (induction items rule: rev_induct)
  case (snoc u us)
  then show ?case by (cases "part u") (auto simp: by_agent_def split: list.splits)
qed (simp add: by_agent_def)

lemma by_agent_nonempty: "by_agent key part items = Map.empty \<longleftrightarrow> (\<forall>u \<in> set items. part u = None)"
proof -
  have "by_agent key part items a = None \<longleftrightarrow> (\<forall>u \<in> set items. key u = a \<longrightarrow> part u = None)" for a
  proof (cases "filter (\<lambda>u. key u = a \<and> part u \<noteq> None) items")
    case Nil
    then show ?thesis by (auto simp: by_agent_last filter_empty_conv)
  next
    case (Cons u us)
    then have "last (u # us) \<in> set (filter (\<lambda>u. key u = a \<and> part u \<noteq> None) items)" by (metis last_in_set list.distinct(1))
    then have l: "last (u # us) \<in> set items" "key (last (u # us)) = a" "part (last (u # us)) \<noteq> None" by auto
    have "by_agent key part items a = part (last (u # us))" by (simp only: by_agent_last Cons list.case)
    with l show ?thesis by metis
  qed
  then show ?thesis by (auto simp: fun_eq_iff)
qed

text \<open>A part that the store refuses leaves the other parts to be written: at most six times three calls.\<close>

lemma flush_part_calls: "wd_calls (flush_part db stopping b f w) \<le> wd_calls w + 3"
proof (cases b)
  case True
  obtain ok w' where F: "flushItemTracked stopping ''telemetry'' (store_call db f) w = (ok, w')" by fastforce
  with flush_item_store [OF F] retry_at_bounds [of stopping "answer db f (wd_store w)" 2 "wd_calls w"] True
  show ?thesis by (auto simp: flush_part_def flushItem_def split: option.splits)
qed (simp add: flush_part_def)

lemma flush_part_bound: "wd_calls w \<le> n \<Longrightarrow> wd_calls (flush_part db stopping b f w) \<le> n + 3"
  using flush_part_calls [of db stopping b f w] by simp

lemma flush_telemetry_calls: "wd_calls (flushTelemetry db stopping store items w) \<le> wd_calls w + 3 + 3 + 3 + 3 + 3 + 3"
  by (simp only: flushTelemetry_def Let_def split: if_split) (intro conjI impI flush_part_bound order.refl, simp)

end
