(* ===== verification/Agent_Sessions.thy ===== *)
theory Agent_Sessions
  imports Panvex_Prelude
begin

section \<open>Agent sessions (internal/controlplane/agents/sessions.go)\<close>

text \<open>
  One session per agent stream. \<^verbatim>\<open>Register\<close> installs a session under the mutex and terminates the
  one it replaced after releasing it, so a termination is a step of its own. Sessions are shared
  by pointer; the number that \<^verbatim>\<open>Register\<close> draws stands for the pointer. Closing a closed channel
  panics, which the flag \<open>sm_panicked\<close> records. The two small per-agent trackers of the same
  package follow.
\<close>

subsection \<open>State\<close>

record session =
  ss_agentID :: string
  ss_wake :: bool
  ss_done :: bool
  ss_registeredAt :: gotime
  ss_cancelled :: bool
  ss_rediscover :: bool

text \<open>
  \<open>sm_dying\<close> has the sessions that were taken out of the map and whose termination is under way,
  \<open>sm_left\<close> those whose stream ended by itself; \<open>sm_warned\<close> counts the warnings of a
  suspiciously fast replacement.
\<close>

record session_manager =
  sm_sessions :: "string \<rightharpoonup> uint64"
  sm_seq :: uint64
  sm_store :: "uint64 \<rightharpoonup> session"
  sm_dying :: "uint64 list"
  sm_left :: "uint64 set"
  sm_warned :: nat
  sm_panicked :: bool

definition NewSessionManager :: session_manager where
  "NewSessionManager =
     \<lparr>sm_sessions = Map.empty, sm_seq = 0, sm_store = Map.empty, sm_dying = [], sm_left = {},
      sm_warned = 0, sm_panicked = False\<rparr>"

subsection \<open>Operations\<close>

definition sessionReplaceWarnWindow :: duration where
  "sessionReplaceWarnWindow = 40 * second_ns"

definition shouldWarnOnReplace :: "session \<Rightarrow> gotime \<Rightarrow> bool" where
  "shouldWarnOnReplace previous now \<longleftrightarrow> time_sub now (ss_registeredAt previous) < sessionReplaceWarnWindow"

definition Register :: "string \<Rightarrow> gotime \<Rightarrow> session_manager \<Rightarrow> uint64 \<times> session_manager" where
  "Register agentID now m =
     (let n = sm_seq m + 1;
          s = \<lparr>ss_agentID = agentID, ss_wake = False, ss_done = False, ss_registeredAt = now,
               ss_cancelled = False, ss_rediscover = False\<rparr>;
          m1 = m\<lparr>sm_seq := n, sm_store := (sm_store m)(n \<mapsto> s), sm_sessions := (sm_sessions m)(agentID \<mapsto> n)\<rparr>
      in (n, case sm_sessions m agentID of
               None \<Rightarrow> m1
             | Some p \<Rightarrow> m1\<lparr>sm_dying := p # sm_dying m1,
                 sm_warned := (case sm_store m p of
                    Some previous \<Rightarrow> if shouldWarnOnReplace previous now then Suc (sm_warned m) else sm_warned m
                  | None \<Rightarrow> sm_warned m)\<rparr>))"

definition terminateSession :: "uint64 \<Rightarrow> session_manager \<Rightarrow> session_manager" where
  "terminateSession p m =
     (case sm_store m p of
        None \<Rightarrow> m
      | Some s \<Rightarrow>
          if ss_done s then m\<lparr>sm_panicked := True\<rparr>
          else m\<lparr>sm_store := (sm_store m)(p \<mapsto> s\<lparr>ss_done := True, ss_cancelled := True\<rparr>),
                 sm_dying := remove1 p (sm_dying m)\<rparr>)"

definition unregister :: "uint64 \<Rightarrow> session_manager \<Rightarrow> session_manager" where
  "unregister p m =
     (case sm_store m p of
        None \<Rightarrow> m
      | Some s \<Rightarrow>
          if sm_sessions m (ss_agentID s) = Some p
          then m\<lparr>sm_sessions := (sm_sessions m)(ss_agentID s := None), sm_left := insert p (sm_left m)\<rparr>
          else m)"

text \<open>
  The guarded send on the one-slot wake channel: when the session is done the \<^verbatim>\<open>select\<close> may take
  either ready branch, which \<open>pick\<close> decides; when a wake is queued already nothing changes.
\<close>

definition notify_session :: "bool \<Rightarrow> uint64 \<Rightarrow> session_manager \<Rightarrow> session_manager" where
  "notify_session pick p m =
     (case sm_store m p of
        None \<Rightarrow> m
      | Some s \<Rightarrow>
          let s' = (if ss_done s \<and> \<not> pick then s else s\<lparr>ss_wake := True\<rparr>)
          in m\<lparr>sm_store := (sm_store m)(p \<mapsto> s')\<rparr>)"

definition Notify :: "bool \<Rightarrow> string \<Rightarrow> session_manager \<Rightarrow> session_manager" where
  "Notify pick agentID m =
     (case sm_sessions m agentID of None \<Rightarrow> m | Some p \<Rightarrow> notify_session pick p m)"

text \<open>\<^verbatim>\<open>NotifyMany\<close> skips an identifier it has already notified.\<close>

fun notify_many :: "(string \<Rightarrow> bool) \<Rightarrow> string list \<Rightarrow> string set \<Rightarrow> session_manager \<Rightarrow> session_manager" where
  "notify_many pick [] notified m = m"
| "notify_many pick (agentID # rest) notified m =
     (if agentID \<in> notified then notify_many pick rest notified m
      else notify_many pick rest (insert agentID notified) (Notify (pick agentID) agentID m))"

definition NotifyMany :: "(string \<Rightarrow> bool) \<Rightarrow> string list \<Rightarrow> session_manager \<Rightarrow> session_manager" where
  "NotifyMany pick agentIDs m = notify_many pick agentIDs {} m"

definition mark_rediscover :: "uint64 \<Rightarrow> session_manager \<Rightarrow> session_manager" where
  "mark_rediscover p m =
     (case sm_store m p of None \<Rightarrow> m
      | Some s \<Rightarrow> m\<lparr>sm_store := (sm_store m)(p \<mapsto> s\<lparr>ss_rediscover := True\<rparr>)\<rparr>)"

definition RequestRediscovery :: "bool \<Rightarrow> string \<Rightarrow> session_manager \<Rightarrow> bool \<times> session_manager" where
  "RequestRediscovery pick agentID m =
     (case sm_sessions m agentID of
        None \<Rightarrow> (False, m)
      | Some p \<Rightarrow> (True, notify_session pick p (mark_rediscover p m)))"

definition RequestRediscoveryAll :: "(string \<Rightarrow> bool) \<Rightarrow> string list \<Rightarrow> session_manager \<Rightarrow> nat \<times> session_manager" where
  "RequestRediscoveryAll pick order m =
     fold (\<lambda>agentID (n, m). case sm_sessions m agentID of
             None \<Rightarrow> (n, m)
           | Some p \<Rightarrow> (Suc n, notify_session (pick agentID) p (mark_rediscover p m))) order (0, m)"

definition TakeRediscovery :: "uint64 \<Rightarrow> session_manager \<Rightarrow> bool \<times> session_manager" where
  "TakeRediscovery p m =
     (case sm_store m p of
        None \<Rightarrow> (False, m)
      | Some s \<Rightarrow> (ss_rediscover s, m\<lparr>sm_store := (sm_store m)(p \<mapsto> s\<lparr>ss_rediscover := False\<rparr>)\<rparr>))"

definition Terminate :: "string \<Rightarrow> session_manager \<Rightarrow> bool \<times> session_manager" where
  "Terminate agentID m =
     (case sm_sessions m agentID of
        None \<Rightarrow> (False, m)
      | Some p \<Rightarrow> (True, m\<lparr>sm_sessions := (sm_sessions m)(agentID := None), sm_dying := p # sm_dying m\<rparr>))"

text \<open>The writer of a stream takes the queued wake.\<close>

definition take_wake :: "uint64 \<Rightarrow> session_manager \<Rightarrow> session_manager" where
  "take_wake p m =
     (case sm_store m p of None \<Rightarrow> m
      | Some s \<Rightarrow> m\<lparr>sm_store := (sm_store m)(p \<mapsto> s\<lparr>ss_wake := False\<rparr>)\<rparr>)"

subsection \<open>Steps\<close>

inductive session_step :: "session_manager \<Rightarrow> session_manager \<Rightarrow> bool" where
  registered: "sm_seq m \<noteq> - 1 \<Longrightarrow> session_step m (snd (Register agentID now m))"
| terminated: "p \<in> set (sm_dying m) \<Longrightarrow> session_step m (terminateSession p m)"
| unregistered: "session_step m (unregister p m)"
| notified: "session_step m (Notify pick agentID m)"
| notified_many: "session_step m (NotifyMany picks agentIDs m)"
| rediscovery: "session_step m (snd (RequestRediscovery pick agentID m))"
| rediscovery_all: "session_step m (snd (RequestRediscoveryAll picks order m))"
| taken: "session_step m (snd (TakeRediscovery p m))"
| woken: "session_step m (take_wake p m)"
| killed: "session_step m (snd (Terminate agentID m))"

inductive session_reachable :: "session_manager \<Rightarrow> bool" where
  start: "session_reachable NewSessionManager"
| step: "session_reachable m \<Longrightarrow> session_step m m' \<Longrightarrow> session_reachable m'"

subsection \<open>Invariant\<close>

text \<open>What becomes of a session: registered, being terminated, gone by itself, or terminated.\<close>

definition session_inv :: "session_manager \<Rightarrow> bool" where
  "session_inv m \<longleftrightarrow>
     \<not> sm_panicked m \<and> distinct (sm_dying m) \<and>
     (\<forall>a p. sm_sessions m a = Some p \<longrightarrow> p \<notin> set (sm_dying m) \<and> p \<notin> sm_left m \<and>
        (\<exists>s. sm_store m p = Some s \<and> ss_agentID s = a \<and> \<not> ss_done s)) \<and>
     (\<forall>p \<in> set (sm_dying m). p \<notin> sm_left m \<and> (\<exists>s. sm_store m p = Some s \<and> \<not> ss_done s)) \<and>
     (\<forall>p s. sm_store m p = Some s \<longrightarrow>
        p \<le> sm_seq m \<and>
        (sm_sessions m (ss_agentID s) = Some p \<or> p \<in> set (sm_dying m) \<or> p \<in> sm_left m \<or> ss_done s \<and> ss_cancelled s)) \<and>
     (\<forall>p \<in> sm_left m. p \<le> sm_seq m)"

text \<open>Operations that only touch the wake slot and the rediscovery flag.\<close>

definition same_life :: "session option \<Rightarrow> session option \<Rightarrow> bool" where
  "same_life x y \<longleftrightarrow>
     map_option (\<lambda>s. (ss_agentID s, ss_done s, ss_cancelled s, ss_registeredAt s)) x =
     map_option (\<lambda>s. (ss_agentID s, ss_done s, ss_cancelled s, ss_registeredAt s)) y"

definition quiet :: "session_manager \<Rightarrow> session_manager \<Rightarrow> bool" where
  "quiet m m' \<longleftrightarrow>
     sm_sessions m' = sm_sessions m \<and> sm_seq m' = sm_seq m \<and> sm_dying m' = sm_dying m \<and> sm_left m' = sm_left m \<and>
     sm_panicked m' = sm_panicked m \<and> (\<forall>p. same_life (sm_store m p) (sm_store m' p))"

lemma quiet_refl [simp]: "quiet m m"
  by (simp add: quiet_def same_life_def)

lemma quiet_trans: "quiet m m' \<Longrightarrow> quiet m' m'' \<Longrightarrow> quiet m m''"
  by (simp add: quiet_def same_life_def)

lemma quiet_notify_session: "quiet m (notify_session pick p m)"
  by (auto simp: quiet_def same_life_def notify_session_def Let_def split: option.splits)

lemma quiet_mark: "quiet m (mark_rediscover p m)"
  by (auto simp: quiet_def same_life_def mark_rediscover_def split: option.splits)

lemma quiet_marked: "quiet m (notify_session pick p (mark_rediscover p m))"
  by (rule quiet_trans [OF quiet_mark quiet_notify_session])

lemma quiet_Notify: "quiet m (Notify pick a m)"
  by (simp add: Notify_def quiet_notify_session split: option.splits)

lemma quiet_notify_many: "quiet m (notify_many pick as seen m)"
  by (induction pick as seen m rule: notify_many.induct) (auto intro: quiet_trans quiet_Notify)

lemma quiet_rediscovery: "quiet m (snd (RequestRediscovery pick a m))"
  by (simp add: RequestRediscovery_def quiet_marked split: option.splits)

lemma quiet_rediscovery_all: "quiet m (snd (RequestRediscoveryAll pick order m))"
proof -
  let ?f = "\<lambda>a (n, m). case sm_sessions m a of None \<Rightarrow> (n, m)
      | Some p \<Rightarrow> (Suc n, notify_session (pick a) p (mark_rediscover p m))"
  have "quiet m (snd (fold ?f order nm))" if "quiet m (snd nm)" for nm :: "nat \<times> session_manager"
    using that
  proof (rule fold_invariant)
    fix a and nm :: "nat \<times> session_manager" assume "quiet m (snd nm)"
    then show "quiet m (snd (?f a nm))"
      by (cases nm) (auto intro: quiet_trans [OF _ quiet_marked] split: option.splits)
  qed
  then show ?thesis by (simp add: RequestRediscoveryAll_def)
qed

lemma quiet_taken: "quiet m (snd (TakeRediscovery p m))" "quiet m (take_wake p m)"
  by (auto simp: quiet_def same_life_def TakeRediscovery_def take_wake_def split: option.splits)

lemma quiet_inv:
  assumes "quiet m m'" and "session_inv m"
  shows "session_inv m'"
proof -
  have life: "\<exists>s'. sm_store m' p = Some s' \<and> ss_agentID s' = ss_agentID s \<and> ss_done s' = ss_done s"
    if "sm_store m p = Some s" for p s
    using assms(1) that by (cases "sm_store m' p") (auto simp: quiet_def same_life_def dest!: spec [of _ p])
  have origin: "\<exists>s. sm_store m p = Some s \<and> ss_agentID s = ss_agentID s' \<and> ss_done s = ss_done s' \<and>
      ss_cancelled s = ss_cancelled s'" if "sm_store m' p = Some s'" for p s'
    using assms(1) that by (cases "sm_store m p") (auto simp: quiet_def same_life_def dest!: spec [of _ p])
  show ?thesis
    unfolding session_inv_def
  proof (intro conjI allI ballI impI)
    show "\<not> sm_panicked m'" "distinct (sm_dying m')" using assms by (simp_all add: quiet_def session_inv_def)
  next
    fix a p assume "sm_sessions m' a = Some p"
    then have "sm_sessions m a = Some p" using assms(1) by (simp add: quiet_def)
    with assms life show "p \<notin> set (sm_dying m')" "p \<notin> sm_left m'"
      "\<exists>s. sm_store m' p = Some s \<and> ss_agentID s = a \<and> \<not> ss_done s"
      unfolding session_inv_def quiet_def by (auto, metis)
  next
    fix p assume "p \<in> set (sm_dying m')"
    then have "p \<in> set (sm_dying m)" using assms(1) by (simp add: quiet_def)
    with assms life show "p \<notin> sm_left m'" "\<exists>s. sm_store m' p = Some s \<and> \<not> ss_done s"
      unfolding session_inv_def quiet_def by (auto, metis)
  next
    fix p s' assume "sm_store m' p = Some s'"
    with origin obtain s where "sm_store m p = Some s" "ss_agentID s = ss_agentID s'" "ss_done s = ss_done s'"
      "ss_cancelled s = ss_cancelled s'" by blast
    with assms show "p \<le> sm_seq m'" "sm_sessions m' (ss_agentID s') = Some p \<or> p \<in> set (sm_dying m') \<or>
        p \<in> sm_left m' \<or> ss_done s' \<and> ss_cancelled s'"
      unfolding session_inv_def quiet_def by metis+
  next
    fix p assume "p \<in> sm_left m'"
    with assms show "p \<le> sm_seq m'" by (simp add: session_inv_def quiet_def)
  qed
qed

subsection \<open>The steps that change who is registered\<close>

lemma session_invD:
  assumes "session_inv m"
  shows "\<not> sm_panicked m" and "distinct (sm_dying m)"
    and "sm_sessions m a = Some p \<Longrightarrow> p \<notin> set (sm_dying m) \<and> p \<notin> sm_left m"
    and "sm_sessions m a = Some p \<Longrightarrow> \<exists>s. sm_store m p = Some s \<and> ss_agentID s = a \<and> \<not> ss_done s"
    and "p \<in> set (sm_dying m) \<Longrightarrow> p \<notin> sm_left m \<and> (\<exists>s. sm_store m p = Some s \<and> \<not> ss_done s)"
    and "sm_store m p = Some s \<Longrightarrow> p \<le> sm_seq m"
    and "sm_store m p = Some s \<Longrightarrow>
      sm_sessions m (ss_agentID s) = Some p \<or> p \<in> set (sm_dying m) \<or> p \<in> sm_left m \<or> ss_done s \<and> ss_cancelled s"
    and "p \<in> sm_left m \<Longrightarrow> p \<le> sm_seq m"
  using assms unfolding session_inv_def by (auto dest: spec)

lemma Register_inv:
  assumes inv: "session_inv m" and room: "sm_seq m \<noteq> - 1"
  shows "session_inv (snd (Register a now m))"
proof -
  note up = word_inc_greater [OF room]
  let ?n = "sm_seq m + 1" and ?m = "snd (Register a now m)"
  have fresh: "sm_store m ?n = None" "?n \<notin> sm_left m" "?n \<notin> set (sm_dying m)"
    using session_invD(5,6,8) [OF inv] up by (auto simp: not_less [symmetric]) (metis not_le option.exhaust)+
  have old: "sm_store ?m p = sm_store m p" if "p \<noteq> ?n" for p
    using that by (simp add: Register_def Let_def split: option.splits)
  have new: "\<exists>s. sm_store ?m ?n = Some s \<and> ss_agentID s = a \<and> \<not> ss_done s"
    by (simp add: Register_def Let_def split: option.splits)
  have map: "sm_sessions ?m = (sm_sessions m)(a \<mapsto> ?n)" "sm_left ?m = sm_left m" "sm_seq ?m = ?n"
    "sm_panicked ?m = sm_panicked m"
    "sm_dying ?m = (case sm_sessions m a of None \<Rightarrow> sm_dying m | Some p \<Rightarrow> p # sm_dying m)"
    by (simp_all add: Register_def Let_def split: option.splits)
  have le: "p \<le> ?n" if "p \<le> sm_seq m" for p using that up by simp
  have not_new: "p \<noteq> ?n" if "sm_store m p \<noteq> None \<or> p \<in> set (sm_dying m)" for p
    using that fresh by auto
  show ?thesis
    unfolding session_inv_def
  proof (intro conjI allI ballI impI)
    show "\<not> sm_panicked ?m" using session_invD(1) [OF inv] map by simp
    show "distinct (sm_dying ?m)"
      using session_invD(2,3) [OF inv] map by (auto split: option.splits)
  next
    fix b p assume p: "sm_sessions ?m b = Some p"
    have other: "sm_sessions m b = Some p \<and> p \<noteq> ?n \<and> sm_sessions m a \<noteq> Some p" if "b \<noteq> a"
      using p that map session_invD(4) [OF inv, of b p] session_invD(4) [OF inv, of a p] fresh by auto
    show "p \<notin> set (sm_dying ?m)" "p \<notin> sm_left ?m"
      using p other fresh map session_invD(3) [OF inv, of b p] session_invD(4) [OF inv, of a p]
      by (cases "b = a"; auto split: option.splits)+
    show "\<exists>s. sm_store ?m p = Some s \<and> ss_agentID s = b \<and> \<not> ss_done s"
      using p other new map session_invD(4) [OF inv, of b p] old [of p] by (cases "b = a") auto
  next
    fix p assume "p \<in> set (sm_dying ?m)"
    then have "p \<in> set (sm_dying m) \<or> sm_sessions m a = Some p" using map by (auto split: option.splits)
    then have "p \<notin> sm_left m \<and> (\<exists>s. sm_store m p = Some s \<and> \<not> ss_done s)"
      using session_invD(3,4,5) [OF inv] by blast
    then show "p \<notin> sm_left ?m" "\<exists>s. sm_store ?m p = Some s \<and> \<not> ss_done s"
      using map old [of p] not_new [of p] by auto
  next
    fix p s assume s: "sm_store ?m p = Some s"
    show "p \<le> sm_seq ?m" "sm_sessions ?m (ss_agentID s) = Some p \<or> p \<in> set (sm_dying ?m) \<or>
        p \<in> sm_left ?m \<or> ss_done s \<and> ss_cancelled s"
      using s new map old [of p] le session_invD(6,7) [OF inv, of p s]
      by (cases "p = ?n"; auto split: option.splits)+
  next
    fix p assume "p \<in> sm_left ?m"
    then show "p \<le> sm_seq ?m" using map le session_invD(8) [OF inv] by simp
  qed
qed

lemma terminate_inv:
  assumes inv: "session_inv m" and p: "p \<in> set (sm_dying m)"
  shows "session_inv (terminateSession p m)"
proof -
  obtain s where s: "sm_store m p = Some s" "\<not> ss_done s" using session_invD(5) [OF inv p] by blast
  then have m': "terminateSession p m =
      m\<lparr>sm_store := (sm_store m)(p \<mapsto> s\<lparr>ss_done := True, ss_cancelled := True\<rparr>), sm_dying := remove1 p (sm_dying m)\<rparr>"
    by (simp add: terminateSession_def)
  have dying: "set (remove1 p (sm_dying m)) = set (sm_dying m) - {p}" "distinct (remove1 p (sm_dying m))"
    using session_invD(2) [OF inv] by simp_all
  have "sm_sessions m b \<noteq> Some p" for b using session_invD(3) [OF inv, of b p] p by blast
  then show ?thesis
    using inv s(1) unfolding m' session_inv_def by (simp add: dying)
qed

lemma Terminate_inv:
  assumes inv: "session_inv m"
  shows "session_inv (snd (Terminate a m))"
proof (cases "sm_sessions m a")
  case None
  with inv show ?thesis by (simp add: Terminate_def)
next
  case (Some p)
  obtain s where s: "sm_store m p = Some s" "ss_agentID s = a" "\<not> ss_done s"
    using session_invD(4) [OF inv Some] by blast
  have "sm_sessions m b \<noteq> Some p" if "b \<noteq> a" for b
    using session_invD(4) [OF inv, of b p] s that by auto
  moreover have "q \<in> set (sm_dying m) \<or> q \<in> sm_left m \<or> ss_done t \<and> ss_cancelled t"
    if "sm_store m q = Some t" "ss_agentID t = a" "q \<noteq> p" for q t
    using session_invD(7) [OF inv that(1)] that Some by auto
  ultimately show ?thesis
    using inv Some s session_invD(3) [OF inv Some] unfolding session_inv_def Terminate_def by auto
qed

lemma unregister_inv:
  assumes inv: "session_inv m"
  shows "session_inv (unregister p m)"
proof (cases "\<exists>s. sm_store m p = Some s \<and> sm_sessions m (ss_agentID s) = Some p")
  case False
  then have "unregister p m = m" by (auto simp: unregister_def split: option.splits)
  with inv show ?thesis by simp
next
  case True
  then obtain s where s: "sm_store m p = Some s" "sm_sessions m (ss_agentID s) = Some p" by blast
  have "sm_sessions m b \<noteq> Some p" if "b \<noteq> ss_agentID s" for b
    using session_invD(4) [OF inv, of b p] s that by auto
  moreover have "q \<in> set (sm_dying m) \<or> q \<in> sm_left m \<or> ss_done t \<and> ss_cancelled t"
    if "sm_store m q = Some t" "ss_agentID t = ss_agentID s" "q \<noteq> p" for q t
    using session_invD(7) [OF inv that(1)] that s(2) by auto
  ultimately show ?thesis
    using inv s session_invD(3) [OF inv s(2)] session_invD(6) [OF inv s(1)]
    unfolding session_inv_def unregister_def by auto
qed

lemma session_inv_step:
  assumes "session_step m m'" and "session_inv m"
  shows "session_inv m'"
  using assms
  by cases (auto simp: NotifyMany_def intro: Register_inv terminate_inv unregister_inv Terminate_inv
      quiet_inv [OF quiet_Notify] quiet_inv [OF quiet_notify_many] quiet_inv [OF quiet_rediscovery]
      quiet_inv [OF quiet_rediscovery_all] quiet_inv [OF quiet_taken(1)] quiet_inv [OF quiet_taken(2)])

lemma session_inv_reachable: "session_reachable m \<Longrightarrow> session_inv m"
proof (induction rule: session_reachable.induct)
  case start
  then show ?case by (simp add: session_inv_def NewSessionManager_def)
next
  case (step m m')
  then show ?case using session_inv_step by blast
qed

text \<open>A notification of a registered agent is never lost: the wake is queued when it returns.\<close>

lemma Notify_queues_wake:
  assumes "session_inv m" and "sm_sessions m a = Some p"
  shows "\<exists>s. sm_store (Notify pick a m) p = Some s \<and> ss_wake s"
proof -
  obtain s where "sm_store m p = Some s" "\<not> ss_done s" using session_invD(4) [OF assms] by blast
  with assms(2) show ?thesis by (simp add: Notify_def notify_session_def Let_def)
qed

subsection \<open>Per-agent trackers\<close>

text \<open>\<^verbatim>\<open>FallbackTracker\<close>: since when an agent is in fallback.\<close>

type_synonym fallback_tracker = "string \<rightharpoonup> gotime"

definition NewFallbackTracker :: fallback_tracker where
  "NewFallbackTracker = Map.empty"

definition fallback_Set :: "string \<Rightarrow> gotime \<Rightarrow> fallback_tracker \<Rightarrow> fallback_tracker" where
  "fallback_Set agentID at t = t(agentID \<mapsto> at)"

definition fallback_Clear :: "string \<Rightarrow> fallback_tracker \<Rightarrow> fallback_tracker" where
  "fallback_Clear agentID t = t(agentID := None)"

definition fallback_Get :: "string \<Rightarrow> fallback_tracker \<Rightarrow> gotime \<times> bool" where
  "fallback_Get agentID t = (case t agentID of None \<Rightarrow> (0, False) | Some at \<Rightarrow> (at, True))"

definition fallback_Restore :: "(string \<rightharpoonup> gotime) \<Rightarrow> string list \<Rightarrow> fallback_tracker \<Rightarrow> fallback_tracker" where
  "fallback_Restore entered order t =
     fold (\<lambda>i m. case entered i of None \<Rightarrow> m | Some at \<Rightarrow> m(i \<mapsto> at)) order Map.empty"

lemma fallback_Restore_all:
  assumes "range_order entered order"
  shows "fallback_Restore entered order t = entered"
proof
  fix i
  let ?f = "\<lambda>i m. case entered i of None \<Rightarrow> m | Some at \<Rightarrow> m(i \<mapsto> at)"
  have "fold ?f order Map.empty i = (if i \<in> set order then entered i else Map.empty i)"
    by (rule fold_pointwise [where g = "\<lambda>m k. m k" and h = "\<lambda>k _. entered k"])
      (use assms in \<open>auto simp: range_order_def split: option.splits\<close>)
  then show "fallback_Restore entered order t i = entered i"
    using range_order_set [OF assms] by (auto simp: fallback_Restore_def)
qed

text \<open>\<^verbatim>\<open>ReachabilityTracker\<close>: the last known reachability of an agent's Telemt.\<close>

type_synonym reachability_tracker = "string \<rightharpoonup> bool"

definition NewReachabilityTracker :: reachability_tracker where
  "NewReachabilityTracker = Map.empty"

definition Observe :: "string \<Rightarrow> bool \<Rightarrow> reachability_tracker \<Rightarrow> bool \<times> reachability_tracker" where
  "Observe agentID unreachable t = (map_get False t agentID \<and> \<not> unreachable, t(agentID \<mapsto> unreachable))"

definition Forget :: "string \<Rightarrow> reachability_tracker \<Rightarrow> reachability_tracker" where
  "Forget agentID t = t(agentID := None)"

fun observe_all :: "string \<Rightarrow> bool list \<Rightarrow> reachability_tracker \<Rightarrow> bool list" where
  "observe_all agentID [] t = []"
| "observe_all agentID (u # us) t =
     (let (recovered, t') = Observe agentID u t in recovered # observe_all agentID us t')"

text \<open>A recovery is reported exactly where an unreachable observation is followed by a reachable one.\<close>

lemma observe_edges:
  "observe_all agentID us t = map (\<lambda>(prev, u). prev \<and> \<not> u) (zip (map_get False t agentID # us) us)"
  by (induction us arbitrary: t) (simp_all add: Observe_def)

subsection \<open>Property\<close>

text \<open>
  C30: However registrations, replacements, terminations and stream ends interleave, no channel is
  closed twice, the registered session of an agent is open and belongs to it, and once no
  termination is under way an agent has at most one session that was neither terminated nor ended
  by itself: one live stream per agent.
\<close>

theorem one_live_session_per_agent:
  assumes "session_reachable m"
  shows "\<not> sm_panicked m \<and>
    (\<forall>a p. sm_sessions m a = Some p \<longrightarrow> (\<exists>s. sm_store m p = Some s \<and> ss_agentID s = a \<and> \<not> ss_done s)) \<and>
    (sm_dying m = [] \<longrightarrow>
      (\<forall>p q s t. sm_store m p = Some s \<and> sm_store m q = Some t \<and> ss_agentID s = ss_agentID t \<and>
         \<not> ss_done s \<and> \<not> ss_done t \<and> p \<notin> sm_left m \<and> q \<notin> sm_left m \<longrightarrow> p = q))"
proof (intro conjI allI impI)
  note inv = session_inv_reachable [OF assms]
  show "\<not> sm_panicked m" by (rule session_invD(1) [OF inv])
  show "\<exists>s. sm_store m p = Some s \<and> ss_agentID s = a \<and> \<not> ss_done s" if "sm_sessions m a = Some p" for a p
    by (rule session_invD(4) [OF inv that])
  fix p q s t
  assume "sm_dying m = []" and "sm_store m p = Some s \<and> sm_store m q = Some t \<and> ss_agentID s = ss_agentID t \<and>
    \<not> ss_done s \<and> \<not> ss_done t \<and> p \<notin> sm_left m \<and> q \<notin> sm_left m"
  then show "p = q" using session_invD(7) [OF inv, of p s] session_invD(7) [OF inv, of q t] by auto
qed

text \<open>An agent that registers twice, and the termination of its first session.\<close>

definition demo_sessions :: session_manager where
  "demo_sessions =
     terminateSession 1 (snd (Register ''a'' second_ns (snd (Register ''a'' 0 NewSessionManager))))"

theorem one_live_session_per_agent_witness:
  "session_reachable demo_sessions \<and> \<not> sm_panicked demo_sessions \<and> sm_dying demo_sessions = [] \<and>
   sm_sessions demo_sessions ''a'' = Some 2 \<and> map_option ss_done (sm_store demo_sessions 1) = Some True \<and>
   map_option ss_done (sm_store demo_sessions 2) = Some False"
proof -
  have "session_reachable (snd (Register ''a'' second_ns (snd (Register ''a'' 0 NewSessionManager))))"
    by (intro session_reachable.step [OF _ session_step.registered] session_reachable.start)
      (simp_all add: Register_def NewSessionManager_def Let_def)
  then have run: "session_reachable demo_sessions"
    unfolding demo_sessions_def
    by (rule session_reachable.step, intro session_step.terminated)
      (simp add: Register_def NewSessionManager_def Let_def)
  from one_live_session_per_agent [OF run] run show ?thesis
    by (simp add: demo_sessions_def Register_def NewSessionManager_def Let_def terminateSession_def)
qed

end
