(* ===== verification/Node_Severity.thy ===== *)
theory Node_Severity
  imports Complex_Main Presence Job_Store
begin

section \<open>Severity of a node (internal/controlplane/telemetry/projections.go)\<close>

text \<open>
  How the panel classifies a node from the runtime flags its agent reports. A Go
  \<^verbatim>\<open>float64\<close> is a rational or NaN, which every comparison of the code rejects; rendering an
  instant in RFC 3339 is the argument \<^verbatim>\<open>rfc3339\<close>. The reasons that contain an arrow or a dash
  are UTF-8 byte strings.
\<close>

datatype float64 = NaN | Num rat

fun f_eq :: "float64 \<Rightarrow> rat \<Rightarrow> bool" where
  "f_eq NaN r = False"
| "f_eq (Num x) r = (x = r)"

fun f_lt :: "float64 \<Rightarrow> rat \<Rightarrow> bool" where
  "f_lt NaN r = False"
| "f_lt (Num x) r = (x < r)"

fun f_gt :: "float64 \<Rightarrow> rat \<Rightarrow> bool" where
  "f_gt NaN r = False"
| "f_gt (Num x) r = (x > r)"

fun f_ge :: "float64 \<Rightarrow> rat \<Rightarrow> bool" where
  "f_ge NaN r = False"
| "f_ge (Num x) r = (x \<ge> r)"

datatype ModeKind = ModeME | ModeDirect | ModeFallback | ModeMeDown

fun mode_String :: "ModeKind \<Rightarrow> string" where
  "mode_String ModeME = ''me''"
| "mode_String ModeDirect = ''direct''"
| "mode_String ModeFallback = ''fallback''"
| "mode_String ModeMeDown = ''me_down''"

record SeverityInput =
  si_PresenceState :: presence_state
  si_ReadOnly :: bool
  si_AcceptingNewConnections :: bool
  si_Degraded :: bool
  si_StartupStatus :: string
  si_DCCoveragePct :: float64
  si_HealthyUpstreams :: int
  si_TotalUpstreams :: int
  si_AgentReported :: bool
  si_UseMiddleProxy :: bool
  si_MERuntimeReady :: bool
  si_ME2DCFallbackEnabled :: bool
  si_UptimeSeconds :: float64
  si_UpstreamFailRatePct5m :: float64
  si_UpstreamFailRateKnown :: bool
  si_FallbackActiveDuration :: duration
  si_TelemtUnreachable :: bool
  si_TelemtUnreachableSinceUnix :: int

definition ClassifyMode :: "SeverityInput \<Rightarrow> ModeKind" where
  "ClassifyMode i =
     (if \<not> si_UseMiddleProxy i then ModeDirect
      else if si_MERuntimeReady i then ModeME
      else if si_ME2DCFallbackEnabled i then ModeFallback
      else ModeMeDown)"

record Freshness =
  fr_State :: string
  fr_ObservedAtUnix :: int

definition FreshnessForObservedAt :: "gotime \<Rightarrow> gotime \<Rightarrow> duration \<Rightarrow> Freshness" where
  "FreshnessForObservedAt observedAt now staleAfter =
     (if is_zero_time observedAt then \<lparr>fr_State = ''never_collected'', fr_ObservedAtUnix = 0\<rparr>
      else if time_sub now observedAt > staleAfter then \<lparr>fr_State = ''stale'', fr_ObservedAtUnix = toUnix observedAt\<rparr>
      else \<lparr>fr_State = ''fresh'', fr_ObservedAtUnix = toUnix observedAt\<rparr>)"

record DetailBoost =
  db_Active :: bool
  db_ExpiresAtUnix :: int
  db_RemainingSeconds :: int

text \<open>\<^verbatim>\<open>Duration.Seconds\<close> of a positive duration, cut to an integer.\<close>

definition DetailBoostState :: "gotime \<Rightarrow> gotime \<Rightarrow> DetailBoost" where
  "DetailBoostState expiresAt now =
     (if is_zero_time expiresAt \<or> \<not> expiresAt > now
      then \<lparr>db_Active = False, db_ExpiresAtUnix = 0, db_RemainingSeconds = 0\<rparr>
      else \<lparr>db_Active = True, db_ExpiresAtUnix = toUnix expiresAt,
            db_RemainingSeconds = time_sub expiresAt now div second_ns\<rparr>)"

subsection \<open>Reasons\<close>

definition arrow :: string where
  "arrow = [CHR 0xE2, CHR 0x86, CHR 0x92]"

definition em_dash :: string where
  "em_dash = [CHR 0xE2, CHR 0x80, CHR 0x94]"

definition ReasonOffline :: string where "ReasonOffline = ''Agent heartbeat is offline''"

definition ReasonStale :: string where "ReasonStale = ''Telemetry is stale''"

definition ReasonReadOnly :: string where "ReasonReadOnly = ''Telemt API is read-only''"

definition ReasonAdmissionClosed :: string where "ReasonAdmissionClosed = ''Admission is closed''"

definition ReasonStartup :: string where "ReasonStartup = ''Startup is still in progress''"

definition ReasonNoDcs :: string where "ReasonNoDcs = ''no reachable DCs''"

definition ReasonDcDegraded :: string where "ReasonDcDegraded = ''DC coverage is degraded''"

definition ReasonMeDegraded :: string where "ReasonMeDegraded = ''ME runtime is degraded''"

definition ReasonMeDown :: string where "ReasonMeDown = ''ME pool unavailable, traffic stopped''"

definition ReasonUpstreamFailing :: string where "ReasonUpstreamFailing = ''upstream DC connect failing''"

definition ReasonDcConnDegraded :: string where "ReasonDcConnDegraded = ''degraded DC connectivity''"

definition ReasonNoUpstreams :: string where "ReasonNoUpstreams = ''no upstreams configured''"

definition ReasonAllUpstreamsDown :: string where "ReasonAllUpstreamsDown = ''all upstreams down''"

definition ReasonSomeUpstreamsUnhealthy :: string where "ReasonSomeUpstreamsUnhealthy = ''some upstreams unhealthy''"

definition ReasonTelemtUnreachablePrefix :: string where "ReasonTelemtUnreachablePrefix = ''Telemt API unreachable since ''"

lemmas reason_defs = ReasonOffline_def ReasonStale_def ReasonReadOnly_def ReasonAdmissionClosed_def ReasonStartup_def
  ReasonNoDcs_def ReasonDcDegraded_def ReasonMeDegraded_def ReasonMeDown_def ReasonUpstreamFailing_def
  ReasonDcConnDegraded_def ReasonNoUpstreams_def ReasonAllUpstreamsDown_def ReasonSomeUpstreamsUnhealthy_def
  ReasonTelemtUnreachablePrefix_def

definition formatTelemtSince :: "(int \<Rightarrow> string) \<Rightarrow> int \<Rightarrow> string" where
  "formatTelemtSince rfc3339 unix = (if unix \<le> 0 then ''unknown time'' else rfc3339 unix)"

subsection \<open>Severities\<close>

text \<open>The four values on the wire: ok, warn, critical, bad.\<close>

datatype severity = SeverityOK | SeverityWarn | SeverityCritical | SeverityOffline

definition combineRank :: "severity \<Rightarrow> nat" where
  "combineRank s = (case s of SeverityWarn \<Rightarrow> 1 | SeverityCritical \<Rightarrow> 2 | SeverityOffline \<Rightarrow> 3 | SeverityOK \<Rightarrow> 0)"

definition CombineSeverity :: "severity \<Rightarrow> severity \<Rightarrow> severity" where
  "CombineSeverity a b = (if combineRank a \<ge> combineRank b then a else b)"

definition SeverityRank :: "severity \<Rightarrow> nat" where
  "SeverityRank s = (case s of SeverityCritical \<Rightarrow> 4 | SeverityOffline \<Rightarrow> 3 | SeverityWarn \<Rightarrow> 2 | SeverityOK \<Rightarrow> 1)"

definition severityME :: "SeverityInput \<Rightarrow> severity \<times> string" where
  "severityME i =
     (if si_AgentReported i \<and> f_eq (si_DCCoveragePct i) 0 then (SeverityCritical, ReasonNoDcs)
      else if f_gt (si_DCCoveragePct i) 0 \<and> f_lt (si_DCCoveragePct i) 100 then (SeverityWarn, ReasonDcDegraded)
      else if si_Degraded i then (SeverityWarn, ReasonMeDegraded)
      else (SeverityOK, []))"

definition severityDirect :: "SeverityInput \<Rightarrow> severity \<times> string" where
  "severityDirect i =
     (if si_UpstreamFailRateKnown i \<and> f_ge (si_UpstreamFailRatePct5m i) 50 then (SeverityCritical, ReasonUpstreamFailing)
      else if si_UpstreamFailRateKnown i \<and> f_ge (si_UpstreamFailRatePct5m i) 10 then (SeverityWarn, ReasonDcConnDegraded)
      else if f_lt (si_UptimeSeconds i) 60 then (SeverityOK, [])
      else if si_TotalUpstreams i = 0 then (SeverityWarn, ReasonNoUpstreams)
      else if si_HealthyUpstreams i = 0 then (SeverityCritical, ReasonAllUpstreamsDown)
      else if si_HealthyUpstreams i < si_TotalUpstreams i then (SeverityWarn, ReasonSomeUpstreamsUnhealthy)
      else (SeverityOK, []))"

definition fallbackEscalation :: duration where
  "fallbackEscalation = 30 * minute_ns"

definition severityFallback :: "SeverityInput \<Rightarrow> severity \<times> string" where
  "severityFallback i =
     (let (directSev, directReason) = severityDirect i;
          baselineSev = CombineSeverity directSev SeverityWarn;
          baselineReason = (if directSev = SeverityOK then ''running on ME'' @ arrow @ ''Direct fallback''
                            else directReason @ '' (on ME'' @ arrow @ ''Direct fallback)'')
      in if si_FallbackActiveDuration i \<ge> fallbackEscalation
         then (SeverityCritical, ''ME pool down, fallback active '' @ em_dash @ '' '' @ baselineReason)
         else (baselineSev, baselineReason))"

definition SeverityAndReason :: "(int \<Rightarrow> string) \<Rightarrow> SeverityInput \<Rightarrow> Freshness \<Rightarrow> severity \<times> string" where
  "SeverityAndReason rfc3339 i freshness =
     (if si_PresenceState i = StateOffline then (SeverityOffline, ReasonOffline)
      else if si_TelemtUnreachable i
      then (SeverityCritical, ReasonTelemtUnreachablePrefix @ formatTelemtSince rfc3339 (si_TelemtUnreachableSinceUnix i))
      else if fr_State freshness = ''stale'' then (SeverityWarn, ReasonStale)
      else if si_ReadOnly i then (SeverityWarn, ReasonReadOnly)
      else if \<not> si_AcceptingNewConnections i then (SeverityWarn, ReasonAdmissionClosed)
      else if si_StartupStatus i \<noteq> [] \<and> si_StartupStatus i \<noteq> ''ready'' then (SeverityWarn, ReasonStartup)
      else case ClassifyMode i of
             ModeME \<Rightarrow> severityME i
           | ModeDirect \<Rightarrow> severityDirect i
           | ModeFallback \<Rightarrow> severityFallback i
           | ModeMeDown \<Rightarrow> (SeverityCritical, ReasonMeDown))"

subsection \<open>Properties\<close>

text \<open>A severity other than ok always carries a reason, and ok never does.\<close>

lemma direct_reason: "snd (severityDirect i) = [] \<longleftrightarrow> fst (severityDirect i) = SeverityOK"
  by (auto simp: severityDirect_def reason_defs)

lemma me_reason: "snd (severityME i) = [] \<longleftrightarrow> fst (severityME i) = SeverityOK"
  by (auto simp: severityME_def reason_defs)

lemma fallback_not_ok: "fst (severityFallback i) \<noteq> SeverityOK" "snd (severityFallback i) \<noteq> []"
  by (auto simp: severityFallback_def CombineSeverity_def combineRank_def Let_def split: prod.splits if_splits severity.splits)

lemma reason_iff:
  "snd (SeverityAndReason rfc3339 i f) = [] \<longleftrightarrow> fst (SeverityAndReason rfc3339 i f) = SeverityOK"
  using direct_reason me_reason fallback_not_ok
  by (auto simp: SeverityAndReason_def reason_defs split: ModeKind.splits)

lemma direct_not_offline: "fst (severityDirect i) \<noteq> SeverityOffline"
  by (auto simp: severityDirect_def)

lemma mode_not_offline:
  "fst (severityME i) \<noteq> SeverityOffline" "fst (severityFallback i) \<noteq> SeverityOffline"
  using direct_not_offline [of i]
  by (auto simp: severityME_def severityFallback_def CombineSeverity_def Let_def split: prod.splits if_splits)

lemma offline_iff:
  "fst (SeverityAndReason rfc3339 i f) = SeverityOffline \<longleftrightarrow> si_PresenceState i = StateOffline"
  using direct_not_offline mode_not_offline
  by (auto simp: SeverityAndReason_def split: ModeKind.splits)

lemma fallback_escalates:
  "combineRank (fst (severityFallback i)) =
     (if si_FallbackActiveDuration i \<ge> fallbackEscalation then 2
      else max 1 (combineRank (fst (severityDirect i))))"
  using direct_not_offline [of i]
  by (auto simp: severityFallback_def CombineSeverity_def combineRank_def Let_def split: prod.splits if_splits severity.splits)

text \<open>The two rankings agree except on offline against critical.\<close>

lemma ranks_disagree_only_on_offline:
  "SeverityRank a < SeverityRank b \<longleftrightarrow>
     (if a = SeverityOffline \<and> b = SeverityCritical then True
      else if a = SeverityCritical \<and> b = SeverityOffline then False
      else combineRank a < combineRank b)"
  by (cases a; cases b) (simp_all add: SeverityRank_def combineRank_def)


end
