(* ===== verification/Fallback_State.thy ===== *)
theory Fallback_State
  imports Batch_Writer Agent_Sessions Node_Severity
begin

section \<open>Durability of the fallback clock\<close>

text \<open>
  When a node enters ME to direct fallback the panel stamps the moment in the in-memory
  tracker and queues a write for the row; when the outage ends it clears both
  (server/agent_snapshot.go, \<^verbatim>\<open>applyFallbackStateTransition\<close>). The rows only serve to restore
  the tracker after a restart (server/state_restore.go). The queue is the batch writer's
  \<^verbatim>\<open>fallback_state\<close> stream with its own flush loop; the table is that of
  storage/sqlite/agent_fallback_state.go, whose insert does nothing when a row exists.
\<close>

subsection \<open>The table\<close>

type_synonym fallback_table = "string \<rightharpoonup> int"

definition PutAgentFallbackState :: "string \<Rightarrow> gotime \<Rightarrow> fallback_table \<Rightarrow> fallback_table" where
  "PutAgentFallbackState agentID enteredAt t =
     (case t agentID of None \<Rightarrow> t(agentID \<mapsto> toUnix enteredAt) | Some _ \<Rightarrow> t)"

definition DeleteAgentFallbackState :: "string \<Rightarrow> fallback_table \<Rightarrow> fallback_table" where
  "DeleteAgentFallbackState agentID t = t(agentID := None)"

definition GetAgentFallbackState :: "string \<Rightarrow> fallback_table \<Rightarrow> gotime option" where
  "GetAgentFallbackState agentID t = map_option fromUnix (t agentID)"

text \<open>The rows, read back as instants.\<close>

definition ListAgentFallbackState :: "fallback_table \<Rightarrow> (string \<rightharpoonup> gotime)" where
  "ListAgentFallbackState t = (\<lambda>agentID. map_option fromUnix (t agentID))"

subsection \<open>The stream\<close>

datatype fallbackStateOp = FallbackOpPut string gotime | FallbackOpDelete string

fun op_effect :: "fallbackStateOp \<Rightarrow> fallback_table \<Rightarrow> go_error + fallback_table" where
  "op_effect (FallbackOpPut agentID enteredAt) t = Inr (PutAgentFallbackState agentID enteredAt t)"
| "op_effect (FallbackOpDelete agentID) t = Inr (DeleteAgentFallbackState agentID t)"

definition flushFallbackState ::
    "(nat \<Rightarrow> go_error option) \<Rightarrow> (nat \<Rightarrow> bool) \<Rightarrow> fallbackStateOp list \<Rightarrow> fallback_table world \<Rightarrow> fallback_table world" where
  "flushFallbackState db stopping items w =
     fold (\<lambda>item. flushItem stopping ''fallback_state'' (store_call db (op_effect item))) items w"

record fallback_system =
  fs_tracker :: fallback_tracker
  fs_buffer :: "fallbackStateOp batch_buffer"
  fs_inflight :: "fallbackStateOp list"
  fs_world :: "fallback_table world"
  fs_dropped :: "fallbackStateOp list"

definition zero_op :: fallbackStateOp where
  "zero_op = FallbackOpPut [] 0"

definition enqueue_op :: "fallbackStateOp \<Rightarrow> fallback_system \<Rightarrow> fallback_system" where
  "enqueue_op item s =
     (let (ev, b) = Enqueue zero_op item (fs_buffer s); s1 = s\<lparr>fs_buffer := b\<rparr>
      in case ev of None \<Rightarrow> s1
         | Some e \<Rightarrow> s1\<lparr>fs_dropped := fs_dropped s1 @ [e],
                        fs_world := observe (ObserveBufferDrop ''fallback_state'' 1) (fs_world s1)\<rparr>)"

definition EnqueueFallbackPut :: "string \<Rightarrow> gotime \<Rightarrow> fallback_system \<Rightarrow> fallback_system" where
  "EnqueueFallbackPut agentID enteredAt s = enqueue_op (FallbackOpPut agentID enteredAt) s"

definition EnqueueFallbackDelete :: "string \<Rightarrow> fallback_system \<Rightarrow> fallback_system" where
  "EnqueueFallbackDelete agentID s = enqueue_op (FallbackOpDelete agentID) s"

definition applyFallbackStateTransition :: "string \<Rightarrow> SeverityInput \<Rightarrow> gotime \<Rightarrow> fallback_system \<Rightarrow> fallback_system" where
  "applyFallbackStateTransition agentID i now s =
     (let (_, hadPrev) = fallback_Get agentID (fs_tracker s)
      in case ClassifyMode i of
           ModeFallback \<Rightarrow>
             if \<not> hadPrev
             then EnqueueFallbackPut agentID now (s\<lparr>fs_tracker := fallback_Set agentID now (fs_tracker s)\<rparr>)
             else s
         | ModeMeDown \<Rightarrow> s
         | _ \<Rightarrow>
             if hadPrev
             then EnqueueFallbackDelete agentID (s\<lparr>fs_tracker := fallback_Clear agentID (fs_tracker s)\<rparr>)
             else s)"

definition fallback_drain_begin :: "fallback_system \<Rightarrow> fallback_system" where
  "fallback_drain_begin s =
     (case Drain_swap (fs_buffer s) of
        (None, b) \<Rightarrow> s
      | (Some batch, b) \<Rightarrow> s\<lparr>fs_buffer := b, fs_inflight := batch\<rparr>)"

definition fallback_drain_finish ::
    "(nat \<Rightarrow> go_error option) \<Rightarrow> (nat \<Rightarrow> bool) \<Rightarrow> fallback_system \<Rightarrow> fallback_system" where
  "fallback_drain_finish db stopping s =
     s\<lparr>fs_world := flushFallbackState db stopping (fs_inflight s) (fs_world s), fs_inflight := []\<rparr>"

definition new_stream :: "int \<Rightarrow> fallbackStateOp batch_buffer" where
  "new_stream cap = SetCap cap (newBatchBuffer 50)"

text \<open>A restart: what was still queued is gone, and the tracker is rebuilt from the rows.\<close>

definition restoreFallbackState :: "int \<Rightarrow> string list \<Rightarrow> fallback_system \<Rightarrow> fallback_system" where
  "restoreFallbackState cap order s =
     s\<lparr>fs_tracker := fallback_Restore (ListAgentFallbackState (wd_store (fs_world s))) order NewFallbackTracker,
       fs_buffer := new_stream cap, fs_inflight := []\<rparr>"

definition new_fallback_system :: "int \<Rightarrow> fallback_system" where
  "new_fallback_system cap =
     \<lparr>fs_tracker = NewFallbackTracker, fs_buffer = new_stream cap, fs_inflight = [],
      fs_world = \<lparr>wd_store = Map.empty, wd_calls = 0, wd_slept = [], wd_metrics = []\<rparr>, fs_dropped = []\<rparr>"

inductive fallback_run ::
    "(nat \<Rightarrow> go_error option) \<Rightarrow> (nat \<Rightarrow> bool) \<Rightarrow> int \<Rightarrow> fallback_system \<Rightarrow> bool"
  for db stopping cap
where
  fb_new: "fallback_run db stopping cap (new_fallback_system cap)"
| fb_transition: "fallback_run db stopping cap s \<Longrightarrow>
    fallback_run db stopping cap (applyFallbackStateTransition agentID i now s)"
| fb_begin: "fallback_run db stopping cap s \<Longrightarrow> fs_inflight s = [] \<Longrightarrow>
    fallback_run db stopping cap (fallback_drain_begin s)"
| fb_finish: "fallback_run db stopping cap s \<Longrightarrow> fallback_run db stopping cap (fallback_drain_finish db stopping s)"
| fb_restart: "fallback_run db stopping cap s \<Longrightarrow>
    range_order (ListAgentFallbackState (wd_store (fs_world s))) order \<Longrightarrow>
    fallback_run db stopping cap (restoreFallbackState cap order s)"

subsection \<open>Pending writes replayed on the table\<close>

definition op_apply :: "fallbackStateOp \<Rightarrow> fallback_table \<Rightarrow> fallback_table" where
  "op_apply item t = (case op_effect item t of Inl _ \<Rightarrow> t | Inr t' \<Rightarrow> t')"

lemma op_apply_simps [simp]:
  "op_apply (FallbackOpPut a when) t = PutAgentFallbackState a when t"
  "op_apply (FallbackOpDelete a) t = DeleteAgentFallbackState a t"
  by (simp_all add: op_apply_def)

definition pending :: "fallback_system \<Rightarrow> fallbackStateOp list" where
  "pending s = fs_inflight s @ live (fs_buffer s)"

text \<open>What the table holds once every queued write has been applied.\<close>

definition settled :: "fallback_system \<Rightarrow> fallback_table" where
  "settled s = fold op_apply (pending s) (wd_store (fs_world s))"

definition seconds_of :: "fallback_tracker \<Rightarrow> fallback_table" where
  "seconds_of t = (\<lambda>a. map_option toUnix (t a))"

definition durable :: "fallback_system \<Rightarrow> bool" where
  "durable s \<longleftrightarrow> buffer_ok (fs_buffer s) \<and> (fs_dropped s = [] \<longrightarrow> settled s = seconds_of (fs_tracker s))"

lemma flushItem_healthy:
  assumes "\<And>n. db n = None"
  shows "wd_store (flushItem stopping b (store_call db (op_effect item)) w) = op_apply item (wd_store w)"
proof -
  obtain r where r: "op_effect item (wd_store w) = Inr r" by (cases item) auto
  obtain ok w' where F: "flushItemTracked stopping b (store_call db (op_effect item)) w = (ok, w')" by fastforce
  have "answer db (op_effect item) (wd_store w) (wd_calls w) = None" by (simp add: answer_def assms r)
  then have "wd_store w' = stored (op_effect item) (wd_store w)"
    using flush_item_store [OF F] by (simp add: numeral_2_eq_2)
  with F r show ?thesis by (simp add: flushItem_def stored_def op_apply_def)
qed

lemma flushFallback_healthy:
  assumes "\<And>n. db n = None"
  shows "wd_store (flushFallbackState db stopping items w) = fold op_apply items (wd_store w)"
  unfolding flushFallbackState_def
  by (induction items arbitrary: w) (simp_all add: flushItem_healthy [OF assms])

lemma enqueue_op_fields [simp]:
  "fs_tracker (enqueue_op item s) = fs_tracker s" "fs_inflight (enqueue_op item s) = fs_inflight s"
  "wd_store (fs_world (enqueue_op item s)) = wd_store (fs_world s)"
  by (auto simp: enqueue_op_def Let_def split: prod.splits option.splits)

lemma enqueue_op_ok: "buffer_ok (fs_buffer s) \<Longrightarrow> buffer_ok (fs_buffer (enqueue_op item s))"
  using Enqueue_ok [of "fs_buffer s" zero_op item]
  by (auto simp: enqueue_op_def Let_def split: prod.splits option.splits)

lemma enqueue_op_kept:
  assumes "buffer_ok (fs_buffer s)" "fs_dropped (enqueue_op item s) = []"
  shows "fs_dropped s = []" "live (fs_buffer (enqueue_op item s)) = live (fs_buffer s) @ [item]"
  using assms bq.enq_conserves [OF assms(1), of zero_op item]
  by (auto simp: enqueue_op_def Let_def split: prod.splits option.splits)

lemma durable_enqueue:
  assumes "durable s" and eff: "seconds_of tr = op_apply item (seconds_of (fs_tracker s))"
  shows "durable (enqueue_op item (s\<lparr>fs_tracker := tr\<rparr>))"
proof -
  let ?s = "s\<lparr>fs_tracker := tr\<rparr>"
  have ok: "buffer_ok (fs_buffer ?s)" using assms(1) by (simp add: durable_def)
  show ?thesis
    using enqueue_op_ok [OF ok, of item] enqueue_op_kept [OF ok, of item] assms
    by (auto simp: durable_def settled_def pending_def)
qed

lemma durable_transition: "durable s \<Longrightarrow> durable (applyFallbackStateTransition agentID i now s)"
  by (auto simp: applyFallbackStateTransition_def Let_def EnqueueFallbackPut_def EnqueueFallbackDelete_def
      fallback_Get_def split: ModeKind.splits option.splits
      intro!: durable_enqueue ext simp del: fun_upd_apply)
    (auto simp: seconds_of_def fallback_Set_def fallback_Clear_def PutAgentFallbackState_def
      DeleteAgentFallbackState_def split: option.splits)

lemma durable_begin: "durable s \<Longrightarrow> fs_inflight s = [] \<Longrightarrow> durable (fallback_drain_begin s)"
  using Drain_swap_spec(1,2) [of "fs_buffer s"] Drain_swap_ok [of "fs_buffer s"]
  by (cases "Drain_swap (fs_buffer s)")
    (auto simp: durable_def settled_def pending_def fallback_drain_begin_def split: if_splits)

lemma durable_finish:
  assumes "durable s" "\<And>n. db n = None"
  shows "durable (fallback_drain_finish db stopping s)"
  using assms(1)
  by (auto simp: durable_def settled_def pending_def fallback_drain_finish_def flushFallback_healthy [OF assms(2)])

lemma new_stream_simps [simp]: "live (new_stream cap) = []" "buffer_ok (new_stream cap)" "bb_capLimit (new_stream cap) = cap"
  by (simp_all add: new_stream_def) (simp add: SetCap_def newBatchBuffer_def buffer_ok_def live_def)

lemma seconds_of_list: "seconds_of (ListAgentFallbackState t) = t"
  by (auto simp: seconds_of_def ListAgentFallbackState_def option.map_comp comp_def map_option.id [unfolded id_def])

lemma durable_restart:
  "range_order (ListAgentFallbackState (wd_store (fs_world s))) order \<Longrightarrow> durable (restoreFallbackState cap order s)"
  by (simp add: durable_def settled_def pending_def restoreFallbackState_def fallback_Restore_all seconds_of_list)

lemma fallback_run_durable:
  assumes "fallback_run db stopping cap s" "\<And>n. db n = None"
  shows "durable s"
  using assms(1)
proof (induction rule: fallback_run.induct)
  case fb_new
  show ?case
    by (simp add: durable_def settled_def pending_def new_fallback_system_def seconds_of_def NewFallbackTracker_def)
qed (simp_all add: durable_transition durable_begin durable_finish [OF _ assms(2)] durable_restart)

subsection \<open>Properties\<close>


subsubsection \<open>Runs that evict\<close>

definition flags :: "ModeKind \<Rightarrow> SeverityInput" where
  "flags m =
     \<lparr>si_PresenceState = StateOnline, si_ReadOnly = False, si_AcceptingNewConnections = True, si_Degraded = False,
      si_StartupStatus = [], si_DCCoveragePct = Num 100, si_HealthyUpstreams = 1, si_TotalUpstreams = 1,
      si_AgentReported = True, si_UseMiddleProxy = (m \<noteq> ModeDirect), si_MERuntimeReady = (m = ModeME),
      si_ME2DCFallbackEnabled = (m = ModeFallback), si_UptimeSeconds = Num 100, si_UpstreamFailRatePct5m = Num 0,
      si_UpstreamFailRateKnown = True, si_FallbackActiveDuration = 0, si_TelemtUnreachable = False,
      si_TelemtUnreachableSinceUnix = 0\<rparr>"

lemma ClassifyMode_flags [simp]: "ClassifyMode (flags m) = m"
  by (cases m) (simp_all add: ClassifyMode_def flags_def)

lemma enter_fallback:
  "fs_tracker s a = None \<Longrightarrow>
   applyFallbackStateTransition a (flags ModeFallback) now s =
     enqueue_op (FallbackOpPut a now) (s\<lparr>fs_tracker := (fs_tracker s)(a \<mapsto> now)\<rparr>)"
  by (simp add: applyFallbackStateTransition_def fallback_Get_def EnqueueFallbackPut_def fallback_Set_def)

lemma leave_fallback:
  "fs_tracker s a \<noteq> None \<Longrightarrow>
   applyFallbackStateTransition a (flags ModeME) now s =
     enqueue_op (FallbackOpDelete a) (s\<lparr>fs_tracker := (fs_tracker s)(a := None)\<rparr>)"
  by (auto simp: applyFallbackStateTransition_def fallback_Get_def EnqueueFallbackDelete_def fallback_Clear_def)

lemma enqueue_op_buffer: "fs_buffer (enqueue_op item s) = snd (Enqueue zero_op item (fs_buffer s))"
  by (auto simp: enqueue_op_def Let_def split: prod.splits option.splits)

text \<open>A whole drain against a store that answers.\<close>

definition flush_all :: "fallback_system \<Rightarrow> fallback_system" where
  "flush_all s = fallback_drain_finish (\<lambda>_. None) (\<lambda>_. False) (fallback_drain_begin s)"

lemma flush_all_run:
  "fallback_run (\<lambda>_. None) (\<lambda>_. False) cap s \<Longrightarrow> fs_inflight s = [] \<Longrightarrow>
   fallback_run (\<lambda>_. None) (\<lambda>_. False) cap (flush_all s)"
  unfolding flush_all_def by (intro fb_finish fb_begin)

lemma flush_all_spec:
  assumes "fs_inflight s = []" "buffer_ok (fs_buffer s)"
  shows "fs_tracker (flush_all s) = fs_tracker s" "pending (flush_all s) = []" "fs_inflight (flush_all s) = []"
    "live (fs_buffer (flush_all s)) = []" "bb_capLimit (fs_buffer (flush_all s)) = bb_capLimit (fs_buffer s)"
    "buffer_ok (fs_buffer (flush_all s))"
    "wd_store (fs_world (flush_all s)) = fold op_apply (live (fs_buffer s)) (wd_store (fs_world s))"
  using assms Drain_swap_spec [of "fs_buffer s"] Drain_swap_ok [of "fs_buffer s"]
  by (cases "Drain_swap (fs_buffer s)";
      auto simp: flush_all_def fallback_drain_begin_def fallback_drain_finish_def flushFallback_healthy pending_def
        split: if_splits)+

lemma offer_all_append:
  "snd (offer_all enq (xs @ ys) s) = snd (offer_all enq ys (snd (offer_all enq xs s)))"
  by (induction xs arbitrary: s) (simp_all add: split_beta)

lemma overflow_by_one:
  assumes "buffer_ok b" "live b = []" "bb_capLimit b > 0" "length xs = nat (bb_capLimit b)"
  shows "live (snd (offer_all (Enqueue z) (x # xs) b)) = xs"
proof -
  let ?r = "offer_all (Enqueue z) (x # xs) b"
  have "fst ?r @ live (snd ?r) = [x] @ xs" using bq.offer_all_conserves [OF assms(1), of z "x # xs"] assms(2) by simp
  moreover have "length (live (snd ?r)) = length xs"
    using bq.offer_all_count [OF assms(1,3), of z "x # xs"] assms(2,4) by simp
  ultimately show ?thesis by (metis append_eq_append_conv)
qed

lemma puts_leave_others:
  "a \<notin> set ids \<Longrightarrow> fold op_apply (map (\<lambda>b. FallbackOpPut b now) ids) t a = t a"
  by (induction ids arbitrary: t) (auto simp: PutAgentFallbackState_def split: option.splits)

text \<open>Other nodes entering fallback one after another.\<close>

definition others :: "nat \<Rightarrow> string list" where
  "others n = map (\<lambda>k. replicate (Suc k) CHR ''b'') [0..<n]"

definition enter_all :: "gotime \<Rightarrow> string list \<Rightarrow> fallback_system \<Rightarrow> fallback_system" where
  "enter_all now ids s = fold (\<lambda>a. applyFallbackStateTransition a (flags ModeFallback) now) ids s"

lemma others_distinct: "distinct (others n)" "''a'' \<notin> set (others n)" "length (others n) = n"
  by (auto simp: others_def distinct_map inj_on_def replicate_eq_replicate)

lemma enter_all_run: "fallback_run db stopping cap s \<Longrightarrow> fallback_run db stopping cap (enter_all now ids s)"
  unfolding enter_all_def by (induction ids arbitrary: s) (simp_all add: fb_transition)

lemma enter_all_spec:
  assumes "distinct ids" "\<And>a. a \<in> set ids \<Longrightarrow> fs_tracker s a = None"
  shows "fs_buffer (enter_all now ids s) =
      snd (offer_all (Enqueue zero_op) (map (\<lambda>a. FallbackOpPut a now) ids) (fs_buffer s)) \<and>
    fs_inflight (enter_all now ids s) = fs_inflight s \<and>
    wd_store (fs_world (enter_all now ids s)) = wd_store (fs_world s) \<and>
    (\<forall>a. a \<notin> set ids \<longrightarrow> fs_tracker (enter_all now ids s) a = fs_tracker s a)"
  using assms
proof (induction ids arbitrary: s)
  case (Cons a ids)
  let ?s = "applyFallbackStateTransition a (flags ModeFallback) now s"
  have s: "?s = enqueue_op (FallbackOpPut a now) (s\<lparr>fs_tracker := (fs_tracker s)(a \<mapsto> now)\<rparr>)"
    using Cons.prems by (intro enter_fallback) simp
  have "enter_all now (a # ids) s = enter_all now ids ?s" by (simp add: enter_all_def)
  moreover have "distinct ids" "\<And>b. b \<in> set ids \<Longrightarrow> fs_tracker ?s b = None" using Cons.prems s by auto
  ultimately show ?case using Cons.IH [of ?s] s by (auto simp: enqueue_op_buffer split_beta)
qed (simp add: enter_all_def)

text \<open>A node enters fallback and the write is flushed.\<close>

definition first_outage :: "int \<Rightarrow> fallback_system" where
  "first_outage cap =
     flush_all (applyFallbackStateTransition ''a'' (flags ModeFallback) (fromUnix 1000) (new_fallback_system cap))"

lemma first_outage_spec:
  assumes "0 < cap"
  shows "fs_tracker (first_outage cap) = [''a'' \<mapsto> fromUnix 1000]"
    and "wd_store (fs_world (first_outage cap)) = [''a'' \<mapsto> 1000]"
    and "pending (first_outage cap) = []" "fs_inflight (first_outage cap) = []" "fs_dropped (first_outage cap) = []"
    and "live (fs_buffer (first_outage cap)) = []" "bb_capLimit (fs_buffer (first_outage cap)) = cap"
    and "buffer_ok (fs_buffer (first_outage cap))"
    and "fallback_run (\<lambda>_. None) (\<lambda>_. False) cap (first_outage cap)"
proof -
  define s1 where "s1 = applyFallbackStateTransition ''a'' (flags ModeFallback) (fromUnix 1000) (new_fallback_system cap)"
  have s1: "s1 = enqueue_op (FallbackOpPut ''a'' (fromUnix 1000))
      ((new_fallback_system cap)\<lparr>fs_tracker := [''a'' \<mapsto> fromUnix 1000]\<rparr>)"
    unfolding s1_def by (simp add: enter_fallback new_fallback_system_def NewFallbackTracker_def)
  have b1: "live (fs_buffer s1) = [FallbackOpPut ''a'' (fromUnix 1000)]" "bb_capLimit (fs_buffer s1) = cap"
    "buffer_ok (fs_buffer s1)" "fs_inflight s1 = []" "wd_store (fs_world s1) = Map.empty"
    using assms Enqueue_refines(2) [of "new_stream cap" zero_op "FallbackOpPut ''a'' (fromUnix 1000)"]
    by (simp_all add: s1 enqueue_op_buffer new_fallback_system_def spec_enqueue_def Enqueue_ok)
  have d1: "fs_dropped s1 = []"
    using assms Enqueue_refines(1) [of "new_stream cap" zero_op "FallbackOpPut ''a'' (fromUnix 1000)"]
    by (cases "Enqueue zero_op (FallbackOpPut ''a'' (fromUnix 1000)) (new_stream cap)")
      (simp add: s1 enqueue_op_def new_fallback_system_def spec_enqueue_def)
  have out: "first_outage cap = flush_all s1" by (simp add: first_outage_def s1_def)
  note f = flush_all_spec [OF b1(4,3), folded out]
  show "fs_tracker (first_outage cap) = [''a'' \<mapsto> fromUnix 1000]" using f(1) by (simp add: s1)
  show "wd_store (fs_world (first_outage cap)) = [''a'' \<mapsto> 1000]" using f(7) by (simp add: b1 PutAgentFallbackState_def)
  show "fs_dropped (first_outage cap) = []"
    using d1 by (auto simp: out flush_all_def fallback_drain_begin_def fallback_drain_finish_def split: prod.splits option.splits)
  show "fallback_run (\<lambda>_. None) (\<lambda>_. False) cap (first_outage cap)"
    unfolding out by (rule flush_all_run [OF _ b1(4)]) (simp add: s1_def fb_transition fb_new)
  show "pending (first_outage cap) = []" "fs_inflight (first_outage cap) = []"
    "live (fs_buffer (first_outage cap)) = []" "bb_capLimit (fs_buffer (first_outage cap)) = cap"
    "buffer_ok (fs_buffer (first_outage cap))" using f b1 by simp_all
qed


text \<open>
  The eviction of a queued fallback write is not harmless. For every positive bound of the
  stream there is a run in which the store answers every call, every queued write has been
  flushed, and still the row of a node holds the moment of an outage that had ended: the
  delete between the two outages was evicted and the insert that follows it finds a row and
  does nothing. A restart then restores the wrong moment.
\<close>

theorem fallback_eviction_keeps_old_clock:
  assumes "0 < cap"
  shows "\<exists>s. fallback_run (\<lambda>_. None) (\<lambda>_. False) cap s \<and> pending s = [] \<and>
    fs_tracker s ''a'' = Some (fromUnix 2000) \<and> wd_store (fs_world s) ''a'' = Some 1000"
proof -
  define s2 where "s2 = first_outage cap"
  define s3 where "s3 = applyFallbackStateTransition ''a'' (flags ModeFallback) (fromUnix 2000)
    (applyFallbackStateTransition ''a'' (flags ModeME) (fromUnix 1500) s2)"
  define s4 where "s4 = enter_all (fromUnix 2000) (others (nat cap - 1)) s3"
  let ?del = "FallbackOpDelete ''a''" and ?put = "FallbackOpPut ''a'' (fromUnix 2000)"
  let ?puts = "map (\<lambda>b. FallbackOpPut b (fromUnix 2000)) (others (nat cap - 1))"
  note f2 = first_outage_spec [OF assms, folded s2_def]
  have s3: "s3 = enqueue_op ?put ((enqueue_op ?del (s2\<lparr>fs_tracker := Map.empty\<rparr>))\<lparr>fs_tracker := [''a'' \<mapsto> fromUnix 2000]\<rparr>)"
    unfolding s3_def by (simp add: leave_fallback enter_fallback f2)
  have b3: "fs_buffer s3 = snd (offer_all (Enqueue zero_op) [?del, ?put] (fs_buffer s2))"
    "fs_tracker s3 = [''a'' \<mapsto> fromUnix 2000]" "fs_inflight s3 = []" "wd_store (fs_world s3) = wd_store (fs_world s2)"
    using f2(4) by (simp_all add: s3 enqueue_op_buffer split_beta)
  have "\<And>b. b \<in> set (others (nat cap - 1)) \<Longrightarrow> fs_tracker s3 b = None" using others_distinct(2) b3(2) by fastforce
  note e4 = enter_all_spec [OF others_distinct(1) [of "nat cap - 1"] this, where now = "fromUnix 2000", folded s4_def]
  have b4: "fs_buffer s4 = snd (offer_all (Enqueue zero_op) (?del # ?put # ?puts) (fs_buffer s2))"
    using e4 offer_all_append [of "Enqueue zero_op" "[?del, ?put]" ?puts "fs_buffer s2"]
    by (simp only: b3(1) append_Cons append_Nil)
  have l4: "live (fs_buffer s4) = ?put # ?puts"
    unfolding b4 by (rule overflow_by_one) (use f2 assms in \<open>simp_all add: others_distinct(3)\<close>)
  have ok4: "buffer_ok (fs_buffer s4)" unfolding b4 using bq.offer_all_ok [OF f2(8)] by blast
  note f5 = flush_all_spec [OF _ ok4]
  have in4: "fs_inflight s4 = []" using e4 b3(3) by simp
  have run: "fallback_run (\<lambda>_. None) (\<lambda>_. False) cap (flush_all s4)"
    by (rule flush_all_run [OF _ in4]) (simp add: s4_def s3_def enter_all_run fb_transition f2)
  have "wd_store (fs_world (flush_all s4)) ''a'' = Some 1000"
    using f5(7) [OF in4] l4 e4 b3(4) f2(2) puts_leave_others [OF others_distinct(2)]
    by (simp add: PutAgentFallbackState_def)
  moreover have "fs_tracker (flush_all s4) ''a'' = Some (fromUnix 2000)"
    using f5(1) [OF in4] e4 b3(2) others_distinct(2) by simp
  ultimately show ?thesis using run f5(2) [OF in4] by blast
qed

theorem fallback_eviction_keeps_old_clock_witness:
  "\<exists>s. fallback_run (\<lambda>_. None) (\<lambda>_. False) 10000 s \<and> pending s = [] \<and>
    fs_tracker s ''a'' = Some (fromUnix 2000) \<and> wd_store (fs_world s) ''a'' = Some 1000"
  using fallback_eviction_keeps_old_clock [of 10000] by simp

end
