(* ===== verification/Auth_Store.thy ===== *)
theory Auth_Store
  imports Job_Store
begin

section \<open>Accounts, sessions and consumed codes in the SQLite store\<close>

text \<open>
  The tables \<^verbatim>\<open>users\<close>, \<^verbatim>\<open>sessions\<close> and \<^verbatim>\<open>consumed_totp\<close> of
  internal/controlplane/storage/sqlite/users.go, users_delete.go, sessions.go and
  consumed_totp.go, with the constraints of the schema: the primary keys, the unique user
  name, and the foreign key from a session to its user that deletes the sessions with the
  user. Instants are stored in whole seconds.
\<close>

record user_record =
  us_id :: string
  us_username :: string
  us_passwordHash :: string
  us_role :: string
  us_totpEnabled :: bool
  us_totpSecret :: string
  us_createdAt :: gotime

record session_record =
  sn_userID :: string
  sn_createdAt :: gotime
  sn_lastSeenAt :: gotime

record session_row =
  sr_user_id :: string
  sr_created_at_unix :: int
  sr_last_seen_at_unix :: int

record auth_db =
  ad_users :: "user_record list"
  ad_sessions :: "string \<rightharpoonup> session_row"
  ad_consumed :: "string \<times> string \<rightharpoonup> int"

subsection \<open>Users\<close>

text \<open>The creation instant is cut to the second on the way through the table.\<close>

definition stored_user :: "user_record \<Rightarrow> user_record" where
  "stored_user u = u\<lparr>us_createdAt := fromUnix (toUnix (us_createdAt u))\<rparr>"

definition user_by_id :: "string \<Rightarrow> auth_db \<Rightarrow> user_record option" where
  "user_by_id userID db = find (\<lambda>u. us_id u = userID) (ad_users db)"

definition PutUser :: "user_record \<Rightarrow> auth_db \<Rightarrow> store_error + auth_db" where
  "PutUser u db =
     (if list_ex (\<lambda>v. us_username v = us_username u \<and> us_id v \<noteq> us_id u) (ad_users db) then Inl UniqueViolation
      else if user_by_id (us_id u) db = None then Inr (db\<lparr>ad_users := ad_users db @ [stored_user u]\<rparr>)
      else Inr (db\<lparr>ad_users := map (\<lambda>v. if us_id v = us_id u then stored_user u else v) (ad_users db)\<rparr>))"

definition store_GetUserByID :: "string \<Rightarrow> auth_db \<Rightarrow> store_error + user_record" where
  "store_GetUserByID userID db = (case user_by_id userID db of None \<Rightarrow> Inl ErrNotFound | Some u \<Rightarrow> Inr u)"

definition GetUserByUsername :: "string \<Rightarrow> auth_db \<Rightarrow> store_error + user_record" where
  "GetUserByUsername username db =
     (case find (\<lambda>u. us_username u = username) (ad_users db) of None \<Rightarrow> Inl ErrNotFound | Some u \<Rightarrow> Inr u)"

definition store_ListUsers :: "auth_db \<Rightarrow> user_record list" where
  "store_ListUsers db = sort_key (\<lambda>u. (us_createdAt u, us_id u)) (ad_users db)"

text \<open>\<^verbatim>\<open>DELETE FROM users\<close> takes the sessions of the user with it.\<close>

definition store_DeleteUser :: "string \<Rightarrow> auth_db \<Rightarrow> store_error + auth_db" where
  "store_DeleteUser userID db =
     (if user_by_id userID db = None then Inl ErrNotFound
      else Inr (db\<lparr>ad_users := filter (\<lambda>u. us_id u \<noteq> userID) (ad_users db),
                   ad_sessions := (\<lambda>i. case ad_sessions db i of
                      Some r \<Rightarrow> if sr_user_id r = userID then None else Some r | None \<Rightarrow> None)\<rparr>))"

subsection \<open>Sessions\<close>

definition row_of_session :: "session_record \<Rightarrow> session_row" where
  "row_of_session s =
     (let lastSeen = (if is_zero_time (sn_lastSeenAt s) then sn_createdAt s else sn_lastSeenAt s)
      in \<lparr>sr_user_id = sn_userID s, sr_created_at_unix = toUnix (sn_createdAt s),
          sr_last_seen_at_unix = toUnix lastSeen\<rparr>)"

definition session_of_row :: "session_row \<Rightarrow> session_record" where
  "session_of_row r =
     \<lparr>sn_userID = sr_user_id r, sn_createdAt = fromUnix (sr_created_at_unix r),
      sn_lastSeenAt = fromUnix (sr_last_seen_at_unix r)\<rparr>"

definition PutSession :: "string \<Rightarrow> session_record \<Rightarrow> auth_db \<Rightarrow> store_error + auth_db" where
  "PutSession i s db =
     (if user_by_id (sn_userID s) db = None then Inl ForeignKeyViolation
      else Inr (db\<lparr>ad_sessions := (ad_sessions db)(i \<mapsto> row_of_session s)\<rparr>))"

definition DeleteSession :: "string \<Rightarrow> auth_db \<Rightarrow> store_error + auth_db" where
  "DeleteSession i db =
     (if ad_sessions db i = None then Inl ErrNotFound
      else Inr (db\<lparr>ad_sessions := (ad_sessions db)(i := None)\<rparr>))"

definition DeleteExpiredSessions :: "gotime \<Rightarrow> auth_db \<Rightarrow> auth_db" where
  "DeleteExpiredSessions before db =
     db\<lparr>ad_sessions := (\<lambda>i. case ad_sessions db i of
        Some r \<Rightarrow> if sr_created_at_unix r < toUnix before then None else Some r | None \<Rightarrow> None)\<rparr>"

definition store_TouchSession :: "string \<Rightarrow> gotime \<Rightarrow> auth_db \<Rightarrow> store_error + auth_db" where
  "store_TouchSession i lastSeenAt db =
     (case ad_sessions db i of None \<Rightarrow> Inl ErrNotFound
      | Some r \<Rightarrow> Inr (db\<lparr>ad_sessions := (ad_sessions db)(i \<mapsto> r\<lparr>sr_last_seen_at_unix := toUnix lastSeenAt\<rparr>)\<rparr>))"

subsection \<open>Consumed codes\<close>

definition UpsertConsumedTotp :: "string \<Rightarrow> string \<Rightarrow> gotime \<Rightarrow> auth_db \<Rightarrow> auth_db" where
  "UpsertConsumedTotp userID code usedAt db =
     db\<lparr>ad_consumed := (ad_consumed db)((userID, code) \<mapsto> toUnix usedAt)\<rparr>"

definition DeleteExpiredConsumedTotp :: "gotime \<Rightarrow> auth_db \<Rightarrow> auth_db" where
  "DeleteExpiredConsumedTotp before db =
     db\<lparr>ad_consumed := (\<lambda>k. case ad_consumed db k of
        Some t \<Rightarrow> if t < toUnix before then None else Some t | None \<Rightarrow> None)\<rparr>"

subsection \<open>Facts\<close>

lemma fromUnix_toUnix_le: "fromUnix (toUnix t) \<le> t"
  by (simp add: fromUnix_def toUnix_def second_ns_def)

lemma fromUnix_toUnix_gt: "t < fromUnix (toUnix t) + second_ns"
  by (simp add: fromUnix_def toUnix_def second_ns_def minus_mod_eq_div_mult [symmetric])

lemma toUnix_mono: "s \<le> t \<Longrightarrow> toUnix s \<le> toUnix t"
  by (simp add: toUnix_def second_ns_def zdiv_mono1)

lemma fromUnix_mono: "s \<le> t \<Longrightarrow> fromUnix s \<le> fromUnix t"
  by (simp add: fromUnix_def second_ns_def)

lemma toUnix_less_iff: "toUnix s < u \<longleftrightarrow> s < fromUnix u"
proof
  assume "s < fromUnix u"
  then have "s div second_ns < u + unix_epoch_seconds"
    by (simp add: fromUnix_def second_ns_def div_less_iff_less_mult zdiv_mono1 flip: zless_imp_add1_zle)
  then show "toUnix s < u" by (simp add: toUnix_def)
next
  assume "toUnix s < u"
  then have "fromUnix (toUnix s + 1) \<le> fromUnix u" by (intro fromUnix_mono) simp
  moreover have "fromUnix (toUnix s + 1) = fromUnix (toUnix s) + second_ns"
    by (simp add: fromUnix_def algebra_simps)
  ultimately show "s < fromUnix u" using fromUnix_toUnix_gt [of s] by linarith
qed

end
