(* ===== verification/Password_Hash.thy ===== *)
theory Password_Hash
  imports Go_Strings Seqid
begin

section \<open>Password policy and hash format (internal/controlplane/auth/password.go, kdf/kdf.go)\<close>

text \<open>
  The policy on new passwords, the self-describing hash format and the choice of the
  derivation parameters. Argon2id is a third-party function and the base64 codec works on
  bytes: both are fields of the record \<^verbatim>\<open>kdf_lib\<close>, and what the code relies on of them is the
  predicate \<open>kdf_lib_ok\<close>. A random salt is an argument of the operation that draws it.
\<close>

datatype auth_error =
    ErrInvalidCredentials
  | ErrUserNotFound
  | ErrUserAlreadyExists
  | ErrLastAdminRequired
  | ErrPasswordTooWeak
  | ErrPasswordCommonlyBreached
  | ErrCurrentPasswordRequired
  | ErrCurrentPasswordIncorrect
  | ErrTotpRequired
  | ErrInvalidTotpCode
  | ErrTotpSetupNotFound
  | ErrSessionNotFound
  | ErrSessionStoreUnavailable
  | ErrStore

type_synonym bytes = "8 word list"

subsection \<open>Policy\<close>

definition DefaultPasswordMinLength :: int where "DefaultPasswordMinLength = 10"

definition PasswordMinLengthFloor :: int where "PasswordMinLengthFloor = 8"

definition maxPasswordLength :: int where "maxPasswordLength = 1024"

definition effectivePolicy :: "int \<Rightarrow> int" where
  "effectivePolicy operatorMin =
     (if operatorMin \<le> 0 then DefaultPasswordMinLength
      else if operatorMin < PasswordMinLengthFloor then PasswordMinLengthFloor
      else if operatorMin > maxPasswordLength then maxPasswordLength
      else operatorMin)"

definition commonBreachedPasswords :: "string list" where
  "commonBreachedPasswords = [
     ''123456'', ''123456789'', ''12345678'', ''12345'', ''1234567'', ''1234567890'', ''qwerty'',
      ''qwerty123'', ''qwertyuiop'', ''password'', ''password1'', ''password123'', ''passw0rd'',
      ''p@ssw0rd'', ''p@ssword'', ''admin'', ''admin123'', ''administrator'', ''root'', ''toor'',
      ''letmein'', ''letmein123'', ''welcome'', ''welcome1'', ''welcome123'', ''abc123'', ''abcd1234'',
      ''a1b2c3d4'', ''iloveyou'', ''iloveyou1'', ''princess'', ''sunshine'', ''shadow'', ''superman'',
      ''batman'', ''pokemon'', ''michael'', ''jennifer'', ''jordan'', ''jessica'', ''daniel'',
      ''thomas'', ''charlie'', ''andrew'', ''matthew'', ''joshua'', ''anthony'', ''ashley'', ''buster'',
      ''hunter'', ''trustno1'', ''freedom'', ''liverpool'', ''arsenal'', ''chelsea'', ''football'',
      ''baseball'', ''basketball'', ''soccer'', ''hockey'', ''master'', ''dragon'', ''monkey'',
      ''monkey123'', ''tigger'', ''cookie'', ''summer'', ''winter'', ''autumn'', ''spring'',
      ''computer'', ''internet'', ''qazwsx'', ''qazwsxedc'', ''asdfgh'', ''asdfghjkl'', ''zxcvbn'',
      ''zxcvbnm'', ''1q2w3e'', ''1q2w3e4r'', ''1q2w3e4r5t'', ''qwe123'', ''qwe12345'', ''q1w2e3r4'',
      ''q1w2e3r4t5'', ''111111'', ''1111111'', ''11111111'', ''000000'', ''0000000'', ''123123'',
      ''123123123'', ''121212'', ''112233'', ''654321'', ''55555'', ''555555'', ''666666'', ''777777'',
      ''888888'', ''999999'', ''changeme'', ''changeme123'', ''default'', ''guest'', ''test123'',
      ''test1234'', ''temp123'', ''temppass'', ''newpass'', ''login123'', ''secret'', ''secret123'',
      ''qwerty1'', ''baseball1'', ''football1'']"

text \<open>\<^verbatim>\<open>strings.ToLower\<close> on the ASCII letters; no entry of the list has other letters.\<close>

definition validatePasswordAgainstDenylist :: "string \<Rightarrow> auth_error option" where
  "validatePasswordAgainstDenylist password =
     (if map ascii_lower password \<in> set commonBreachedPasswords then Some ErrPasswordCommonlyBreached else None)"

definition validatePassword :: "string \<Rightarrow> int \<Rightarrow> auth_error option" where
  "validatePassword password operatorMin =
     (let minLen = effectivePolicy operatorMin
      in if int (length password) < minLen \<or> int (length password) > maxPasswordLength then Some ErrPasswordTooWeak
         else validatePasswordAgainstDenylist password)"

subsection \<open>Profiles\<close>

record kdf_profile =
  kp_Name :: string
  kp_Time :: nat
  kp_MemoryKiB :: nat
  kp_Threads :: nat

definition Default_profile :: kdf_profile where
  "Default_profile = \<lparr>kp_Name = ''default'', kp_Time = 4, kp_MemoryKiB = 96 * 1024, kp_Threads = 2\<rparr>"

definition LowMemory_profile :: kdf_profile where
  "LowMemory_profile = \<lparr>kp_Name = ''low-memory'', kp_Time = 2, kp_MemoryKiB = 19456, kp_Threads = 1\<rparr>"

definition SetActiveProfile :: "string \<Rightarrow> kdf_profile \<Rightarrow> bool \<times> kdf_profile" where
  "SetActiveProfile name active =
     (if name = [] \<or> name = ''default'' then (True, Default_profile)
      else if name = ''low-memory'' then (True, LowMemory_profile)
      else (False, active))"

record kdf_lib =
  kl_IDKey :: "string \<Rightarrow> bytes \<Rightarrow> nat \<Rightarrow> nat \<Rightarrow> nat \<Rightarrow> nat \<Rightarrow> bytes"
  kl_encode :: "bytes \<Rightarrow> string"
  kl_decode :: "string \<Rightarrow> bytes option"

subsection \<open>The format\<close>

definition hashSchemeArgon2id :: string where "hashSchemeArgon2id = ''argon2id''"

definition hashVersionTagV2 :: string where "hashVersionTagV2 = ''v=2''"

definition hashVersionTagV3 :: string where "hashVersionTagV3 = ''v=3''"

definition legacyIterV2 :: nat where "legacyIterV2 = 4"

definition legacyMemV2 :: nat where "legacyMemV2 = 96 * 1024"

definition legacyThreadV2 :: nat where "legacyThreadV2 = 2"

definition hashKeyLen :: nat where "hashKeyLen = 32"

definition hashSaltLen :: nat where "hashSaltLen = 16"

definition maxHashIter :: nat where "maxHashIter = 16"

definition maxHashMemKiB :: nat where "maxHashMemKiB = 512 * 1024"

definition maxHashPar :: nat where "maxHashPar = 8"

definition render_params :: "nat \<Rightarrow> nat \<Rightarrow> nat \<Rightarrow> string" where
  "render_params t m p = ''t='' @ dec_digits t @ '',m='' @ dec_digits m @ '',p='' @ dec_digits p"

definition formatHashParams :: "kdf_profile \<Rightarrow> string" where
  "formatHashParams p = render_params (kp_Time p) (kp_MemoryKiB p) (kp_Threads p)"

definition formatHashV3 :: "kdf_lib \<Rightarrow> kdf_profile \<Rightarrow> bytes \<Rightarrow> bytes \<Rightarrow> string" where
  "formatHashV3 lib p salt derived =
     hashSchemeArgon2id @ ''$'' @ hashVersionTagV3 @ ''$'' @ formatHashParams p @ ''$'' @
     kl_encode lib salt @ ''$'' @ kl_encode lib derived"

definition hashPassword :: "kdf_lib \<Rightarrow> kdf_profile \<Rightarrow> bytes \<Rightarrow> string \<Rightarrow> string" where
  "hashPassword lib active salt password =
     formatHashV3 lib active salt
       (kl_IDKey lib password salt (kp_Time active) (kp_MemoryKiB active) (kp_Threads active) hashKeyLen)"

text \<open>\<^verbatim>\<open>strings.Split(s, sep)\<close> for a separator of one byte.\<close>

fun split_on :: "char \<Rightarrow> string \<Rightarrow> string list" where
  "split_on c [] = [[]]"
| "split_on c (x # xs) =
     (if x = c then [] # split_on c xs
      else case split_on c xs of [] \<Rightarrow> [[x]] | y # ys \<Rightarrow> (x # y) # ys)"

text \<open>
  \<^verbatim>\<open>fmt.Sscanf(field, "t=%d,m=%d,p=%d")\<close> followed by the comparison with the rendered values: the
  field must be the rendering of three numbers of 32 bits, so the scanner may be replaced by
  reading the digits between the literals.
\<close>

definition parse_u32 :: "string \<Rightarrow> nat option" where
  "parse_u32 s = (if s = [] \<or> \<not> list_all is_digit s then None
                  else let v = dec_value s in if v < 2 ^ 32 then Some v else None)"

definition scan_params :: "string \<Rightarrow> (nat \<times> nat \<times> nat) option" where
  "scan_params field =
     (case split_on CHR '','' field of
        [a, b, c] \<Rightarrow>
          (case (cut_prefix a ''t='', cut_prefix b ''m='', cut_prefix c ''p='') of
             (Some t, Some m, Some p) \<Rightarrow>
               (case (parse_u32 t, parse_u32 m, parse_u32 p) of
                  (Some t32, Some m32, Some p32) \<Rightarrow>
                    if render_params t32 m32 p32 = field then Some (t32, m32, p32) else None
                | _ \<Rightarrow> None)
           | _ \<Rightarrow> None)
      | _ \<Rightarrow> None)"

definition parseHashParams :: "string \<Rightarrow> (nat \<times> nat \<times> nat) option" where
  "parseHashParams field =
     (case scan_params field of None \<Rightarrow> None
      | Some (t32, m32, p32) \<Rightarrow>
          if t32 = 0 \<or> t32 > maxHashIter \<or> m32 = 0 \<or> m32 > maxHashMemKiB \<or> p32 = 0 \<or> p32 > maxHashPar then None
          else Some (t32, m32, p32))"

definition verifyArgon2 :: "kdf_lib \<Rightarrow> string \<Rightarrow> string \<Rightarrow> string \<Rightarrow> nat \<Rightarrow> nat \<Rightarrow> nat \<Rightarrow> bool" where
  "verifyArgon2 lib saltB64 expectedB64 password iterations memory parallelism =
     (case kl_decode lib saltB64 of None \<Rightarrow> False
      | Some salt \<Rightarrow>
          (case kl_decode lib expectedB64 of None \<Rightarrow> False
           | Some expected \<Rightarrow>
               length expected = hashKeyLen \<and>
               expected = kl_IDKey lib password salt iterations memory parallelism hashKeyLen))"

definition verifyPassword :: "kdf_lib \<Rightarrow> string \<Rightarrow> string \<Rightarrow> bool" where
  "verifyPassword lib hash password =
     (case split_on CHR ''$'' hash of
        [a, b, c, d] \<Rightarrow>
          a = hashSchemeArgon2id \<and> b = hashVersionTagV2 \<and>
          verifyArgon2 lib c d password legacyIterV2 legacyMemV2 legacyThreadV2
      | [a, b, c, d, e] \<Rightarrow>
          a = hashSchemeArgon2id \<and> b = hashVersionTagV3 \<and>
          (case parseHashParams c of None \<Rightarrow> False
           | Some (iter, mem, par) \<Rightarrow> verifyArgon2 lib d e password iter mem par)
      | _ \<Rightarrow> False)"

definition needsRehash :: "kdf_profile \<Rightarrow> string \<Rightarrow> bool" where
  "needsRehash active hash =
     (case split_on CHR ''$'' hash of
        [a, b, c, d, e] \<Rightarrow>
          if a \<noteq> hashSchemeArgon2id \<or> b \<noteq> hashVersionTagV3 then True else c \<noteq> formatHashParams active
      | _ \<Rightarrow> True)"

subsection \<open>What the code relies on\<close>

text \<open>
  Argon2id returns a key of the requested length; the codec inverts its encoding and its
  alphabet has no dollar sign.
\<close>

definition kdf_lib_ok :: "kdf_lib \<Rightarrow> bool" where
  "kdf_lib_ok lib \<longleftrightarrow>
     (\<forall>pw salt t m p n. length (kl_IDKey lib pw salt t m p n) = n) \<and>
     (\<forall>b. kl_decode lib (kl_encode lib b) = Some b) \<and>
     (\<forall>b. CHR ''$'' \<notin> set (kl_encode lib b))"

lemma effectivePolicy_range: "8 \<le> effectivePolicy n \<and> effectivePolicy n \<le> 1024"
  by (simp add: effectivePolicy_def DefaultPasswordMinLength_def PasswordMinLengthFloor_def maxPasswordLength_def)

lemma split_on_plain: "c \<notin> set s \<Longrightarrow> split_on c s = [s]"
  by (induction s) auto

lemma split_on_sep: "c \<notin> set s \<Longrightarrow> split_on c (s @ c # t) = s # split_on c t"
  by (induction s) auto

lemma parse_u32_digits: "n < 2 ^ 32 \<Longrightarrow> parse_u32 (dec_digits n) = Some n"
  using dec_digits_props [of n] by (auto simp: parse_u32_def)

lemma digits_plain: "\<not> is_digit c \<Longrightarrow> c \<notin> set (dec_digits n)"
  using dec_digits_props [of n] by (auto simp: list_all_iff)

lemma not_digits: "\<not> is_digit CHR '',''" "\<not> is_digit CHR ''$''"
  by (simp_all add: is_digit_def)

lemma render_split:
  "split_on CHR '','' (render_params t m p) =
     [''t='' @ dec_digits t, ''m='' @ dec_digits m, ''p='' @ dec_digits p]"
proof -
  have r: "render_params t m p = (''t='' @ dec_digits t) @ CHR '','' # ((''m='' @ dec_digits m) @ CHR '','' # (''p='' @ dec_digits p))"
    by (simp add: render_params_def)
  show ?thesis unfolding r using digits_plain [OF not_digits(1)]
    by (subst split_on_sep; (subst split_on_sep)?; (subst split_on_plain)?) auto
qed

lemma scan_render: "t < 2 ^ 32 \<Longrightarrow> m < 2 ^ 32 \<Longrightarrow> p < 2 ^ 32 \<Longrightarrow> scan_params (render_params t m p) = Some (t, m, p)"
  using cut_prefix_append [of "''t=''" "dec_digits t"] cut_prefix_append [of "''m=''" "dec_digits m"]
    cut_prefix_append [of "''p=''" "dec_digits p"]
  by (simp add: scan_params_def render_split parse_u32_digits)

lemma scan_sound: "scan_params f = Some (t, m, p) \<Longrightarrow> f = render_params t m p"
  by (auto simp: scan_params_def split: list.splits option.splits if_splits)

text \<open>The profiles a hash may be written with are within the ceilings.\<close>

definition profile_ok :: "kdf_profile \<Rightarrow> bool" where
  "profile_ok p \<longleftrightarrow> 0 < kp_Time p \<and> kp_Time p \<le> maxHashIter \<and> 0 < kp_MemoryKiB p \<and> kp_MemoryKiB p \<le> maxHashMemKiB \<and>
     0 < kp_Threads p \<and> kp_Threads p \<le> maxHashPar"

lemma profiles_ok: "profile_ok Default_profile" "profile_ok LowMemory_profile"
  by (simp_all add: profile_ok_def Default_profile_def LowMemory_profile_def maxHashIter_def maxHashMemKiB_def maxHashPar_def)

lemma SetActiveProfile_ok: "profile_ok p \<Longrightarrow> profile_ok (snd (SetActiveProfile name p))"
  by (simp add: SetActiveProfile_def profiles_ok)

lemma parse_format:
  assumes "profile_ok p"
  shows "parseHashParams (formatHashParams p) = Some (kp_Time p, kp_MemoryKiB p, kp_Threads p)"
proof -
  have "kp_Time p < 2 ^ 32" "kp_MemoryKiB p < 2 ^ 32" "kp_Threads p < 2 ^ 32"
    using assms by (simp_all add: profile_ok_def maxHashIter_def maxHashMemKiB_def maxHashPar_def)
  with assms show ?thesis by (simp add: parseHashParams_def formatHashParams_def scan_render profile_ok_def)
qed

lemma params_plain: "CHR ''$'' \<notin> set (formatHashParams p)"
  using digits_plain [OF not_digits(2)] by (simp add: formatHashParams_def render_params_def)

lemma hash_split:
  assumes "kdf_lib_ok lib"
  shows "split_on CHR ''$'' (formatHashV3 lib p salt d) =
    [hashSchemeArgon2id, hashVersionTagV3, formatHashParams p, kl_encode lib salt, kl_encode lib d]"
proof -
  have "formatHashV3 lib p salt d = hashSchemeArgon2id @ CHR ''$'' # (hashVersionTagV3 @ CHR ''$'' #
      (formatHashParams p @ CHR ''$'' # (kl_encode lib salt @ CHR ''$'' # kl_encode lib d)))"
    by (simp add: formatHashV3_def)
  moreover have "CHR ''$'' \<notin> set hashSchemeArgon2id" "CHR ''$'' \<notin> set hashVersionTagV3"
    by (simp_all add: hashSchemeArgon2id_def hashVersionTagV3_def)
  ultimately show ?thesis
    using assms params_plain [of p] by (simp add: split_on_sep split_on_plain kdf_lib_ok_def)
qed

lemma verify_hash:
  assumes "kdf_lib_ok lib" "profile_ok p"
  shows "verifyPassword lib (hashPassword lib p salt pw) pw' \<longleftrightarrow>
    kl_IDKey lib pw salt (kp_Time p) (kp_MemoryKiB p) (kp_Threads p) hashKeyLen =
    kl_IDKey lib pw' salt (kp_Time p) (kp_MemoryKiB p) (kp_Threads p) hashKeyLen"
  using assms by (simp add: verifyPassword_def hashPassword_def hash_split parse_format verifyArgon2_def kdf_lib_ok_def)

lemma fresh_hash_not_stale: "kdf_lib_ok lib \<Longrightarrow> \<not> needsRehash p (hashPassword lib p salt pw)"
  by (simp add: needsRehash_def hashPassword_def hash_split)

lemma verify_has_bounded_cost:
  assumes "verifyPassword lib hash pw"
  obtains s e t m p where "verifyArgon2 lib s e pw t m p" "t \<le> maxHashIter" "m \<le> maxHashMemKiB" "p \<le> maxHashPar"
proof -
  have "\<exists>s e t m p. verifyArgon2 lib s e pw t m p \<and> t \<le> maxHashIter \<and> m \<le> maxHashMemKiB \<and> p \<le> maxHashPar"
    using assms
    by (auto simp: verifyPassword_def parseHashParams_def legacyIterV2_def legacyMemV2_def legacyThreadV2_def
        maxHashIter_def maxHashMemKiB_def maxHashPar_def not_less split: list.splits option.splits if_splits prod.splits)
      (intro exI conjI, assumption, simp_all)+
  then show ?thesis using that by blast
qed

end
