(* ===== verification/Auth_Service.thy ===== *)
theory Auth_Service
  imports Auth_Store Password_Hash
begin

section \<open>The authentication service (internal/controlplane/auth)\<close>

text \<open>
  sessions.go, totp.go, users.go and service.go. The service keeps sessions, pending second
  factors and consumed codes in memory and mirrors sessions and consumed codes to the store.
  The cryptographic functions the code calls are the fields of \<^verbatim>\<open>auth_env\<close>; random bytes are
  arguments of the operation that draws them. A store call that the driver may fail takes a
  flag that says whether it does. The vault that encrypts the secrets at rest is left out:
  the table is seen through it.

  A login releases the service lock around the store write, so it is cut there: \<^verbatim>\<open>login_verify\<close>
  (credentials), \<^verbatim>\<open>login_issue\<close> (under the lock), \<^verbatim>\<open>login_persist\<close> (store) and \<^verbatim>\<open>login_finish\<close>
  (under the lock again). The write of a consumed code runs in a goroutine of its own.
\<close>

subsection \<open>State\<close>

record auth_env =
  ae_kdf :: kdf_lib
  ae_active :: kdf_profile
  ae_hmac :: "string \<Rightarrow> string"
  ae_base32 :: "string \<Rightarrow> bytes option"
  ae_hmacSHA1 :: "bytes \<Rightarrow> bytes \<Rightarrow> bytes"

record auth_service =
  av_sessions :: "string \<rightharpoonup> session_record"
  av_pendingTotp :: "string \<rightharpoonup> string \<times> gotime"
  av_consumed :: "string \<times> string \<rightharpoonup> gotime"
  av_startedAt :: gotime
  av_maxLifetimeFn :: "duration option"
  av_idleTimeoutFn :: "duration option"
  av_totpSetupTTLFn :: "duration option"
  av_passwordPolicy :: int

definition hour_ns :: duration where "hour_ns = 60 * minute_ns"

definition sessionMaxLifetime :: duration where "sessionMaxLifetime = 8 * hour_ns"

definition sessionIdleTimeout :: duration where "sessionIdleTimeout = 30 * minute_ns"

definition sessionTouchThrottle :: duration where "sessionTouchThrottle = 1 * minute_ns"

definition pendingTotpSetupTTL :: duration where "pendingTotpSetupTTL = 10 * minute_ns"

definition totpWindow :: duration where "totpWindow = 90 * second_ns"

definition effectiveSessionMaxLifetime :: "auth_service \<Rightarrow> duration" where
  "effectiveSessionMaxLifetime s = (case av_maxLifetimeFn s of Some d \<Rightarrow> d | None \<Rightarrow> sessionMaxLifetime)"

definition effectiveSessionIdleTimeout :: "auth_service \<Rightarrow> duration" where
  "effectiveSessionIdleTimeout s = (case av_idleTimeoutFn s of Some d \<Rightarrow> d | None \<Rightarrow> sessionIdleTimeout)"

definition effectiveTOTPSetupTTL :: "auth_service \<Rightarrow> duration" where
  "effectiveTOTPSetupTTL s = (case av_totpSetupTTLFn s of Some d \<Rightarrow> d | None \<Rightarrow> pendingTotpSetupTTL)"

definition NewServiceWithStore :: "gotime \<Rightarrow> auth_service" where
  "NewServiceWithStore now =
     \<lparr>av_sessions = Map.empty, av_pendingTotp = Map.empty, av_consumed = Map.empty, av_startedAt = now,
      av_maxLifetimeFn = None, av_idleTimeoutFn = None, av_totpSetupTTLFn = None, av_passwordPolicy = 0\<rparr>"

definition SetNow :: "gotime \<Rightarrow> auth_service \<Rightarrow> auth_service" where
  "SetNow now s = s\<lparr>av_startedAt := now\<rparr>"

definition SetSessionTimeoutFns :: "duration option \<Rightarrow> duration option \<Rightarrow> auth_service \<Rightarrow> auth_service" where
  "SetSessionTimeoutFns idleTimeout maxLifetime s =
     s\<lparr>av_idleTimeoutFn := idleTimeout, av_maxLifetimeFn := maxLifetime\<rparr>"

definition SetTOTPSetupTTLFn :: "duration option \<Rightarrow> auth_service \<Rightarrow> auth_service" where
  "SetTOTPSetupTTLFn ttl s = s\<lparr>av_totpSetupTTLFn := ttl\<rparr>"

definition SetPasswordPolicy :: "int \<Rightarrow> auth_service \<Rightarrow> auth_service" where
  "SetPasswordPolicy minLength s = s\<lparr>av_passwordPolicy := minLength\<rparr>"

definition EffectivePasswordMinLength :: "auth_service \<Rightarrow> int" where
  "EffectivePasswordMinLength s = effectivePolicy (av_passwordPolicy s)"

subsection \<open>Restore\<close>

definition restoreConsumedTotp :: "gotime \<Rightarrow> auth_service \<Rightarrow> auth_db \<Rightarrow> auth_service \<times> auth_db" where
  "restoreConsumedTotp now s db =
     (let totpCutoff = now - totpWindow;
          db1 = DeleteExpiredConsumedTotp totpCutoff db
      in (s\<lparr>av_consumed := (\<lambda>k. case ad_consumed db1 k of
              Some usedAt \<Rightarrow> if fromUnix usedAt < totpCutoff then av_consumed s k else Some (fromUnix usedAt)
            | None \<Rightarrow> av_consumed s k)\<rparr>, db1))"

definition restored_session :: "session_row \<Rightarrow> session_record" where
  "restored_session r =
     (let rec = session_of_row r
      in if is_zero_time (sn_lastSeenAt rec) then rec\<lparr>sn_lastSeenAt := sn_createdAt rec\<rparr> else rec)"

definition installRestoredSessions :: "(string \<rightharpoonup> session_row) \<Rightarrow> gotime \<Rightarrow> auth_service \<Rightarrow> auth_service" where
  "installRestoredSessions rows cutoff s =
     s\<lparr>av_sessions := (\<lambda>i. case rows i of
         Some r \<Rightarrow> if sn_createdAt (session_of_row r) < cutoff then av_sessions s i else Some (restored_session r)
       | None \<Rightarrow> av_sessions s i)\<rparr>"

definition RestoreSessions :: "gotime \<Rightarrow> auth_service \<Rightarrow> auth_db \<Rightarrow> auth_service \<times> auth_db" where
  "RestoreSessions now s db =
     (let cutoff = now - effectiveSessionMaxLifetime s;
          s1 = installRestoredSessions (ad_sessions db) cutoff s;
          db1 = DeleteExpiredSessions cutoff db
      in restoreConsumedTotp now s1 db1)"

subsection \<open>Expiry\<close>

definition cleanupExpiredSessionsLocked :: "gotime \<Rightarrow> auth_service \<Rightarrow> auth_service" where
  "cleanupExpiredSessionsLocked now s =
     (let maxCutoff = now - effectiveSessionMaxLifetime s;
          idleCutoff = now - effectiveSessionIdleTimeout s;
          totpCutoff = now - totpWindow
      in s\<lparr>av_sessions := (\<lambda>i. case av_sessions s i of
             Some x \<Rightarrow> if sn_createdAt x < maxCutoff \<or> sn_lastSeenAt x < idleCutoff then None else Some x
           | None \<Rightarrow> None),
           av_consumed := (\<lambda>k. case av_consumed s k of
             Some usedAt \<Rightarrow> if usedAt < totpCutoff then None else Some usedAt | None \<Rightarrow> None)\<rparr>)"

definition session_expired :: "gotime \<Rightarrow> auth_service \<Rightarrow> session_record \<Rightarrow> bool" where
  "session_expired now s x \<longleftrightarrow>
     now > sn_createdAt x + effectiveSessionMaxLifetime s \<or> now > sn_lastSeenAt x + effectiveSessionIdleTimeout s"

definition GetSession :: "gotime \<Rightarrow> string \<Rightarrow> auth_service \<Rightarrow> (auth_error + session_record) \<times> auth_service" where
  "GetSession now sessionID s =
     (case av_sessions s sessionID of
        None \<Rightarrow> (Inl ErrSessionNotFound, s)
      | Some x \<Rightarrow>
          if session_expired now s x
          then (Inl ErrSessionNotFound, s\<lparr>av_sessions := (av_sessions s)(sessionID := None)\<rparr>)
          else (Inr x, s))"

definition GetSessionByCookie ::
    "auth_env \<Rightarrow> gotime \<Rightarrow> string \<Rightarrow> auth_service \<Rightarrow> (auth_error + session_record) \<times> auth_service" where
  "GetSessionByCookie env now cookieValue s =
     (if cookieValue = [] then (Inl ErrSessionNotFound, s) else GetSession now (ae_hmac env cookieValue) s)"

text \<open>The store write of a touch is best effort: a failed one is only logged.\<close>

definition TouchSession :: "gotime \<Rightarrow> bool \<Rightarrow> string \<Rightarrow> auth_service \<Rightarrow> auth_db \<Rightarrow> auth_service \<times> auth_db" where
  "TouchSession now up sessionID s db =
     (if sessionID = [] then (s, db)
      else case av_sessions s sessionID of
          None \<Rightarrow> (s, db)
        | Some x \<Rightarrow>
            if now > sn_createdAt x + effectiveSessionMaxLifetime s then (s, db)
            else if time_sub now (sn_lastSeenAt x) < sessionTouchThrottle then (s, db)
            else (s\<lparr>av_sessions := (av_sessions s)(sessionID \<mapsto> x\<lparr>sn_lastSeenAt := now\<rparr>)\<rparr>,
                  if up then (case store_TouchSession sessionID now db of Inl _ \<Rightarrow> db | Inr db' \<Rightarrow> db') else db))"

subsection \<open>Revocation\<close>

text \<open>Delete one row; a missing row counts as deleted, a driver error does not.\<close>

definition delete_row :: "bool \<Rightarrow> string \<Rightarrow> auth_db \<Rightarrow> bool \<times> auth_db" where
  "delete_row up sessionID db =
     (if \<not> up then (False, db)
      else case DeleteSession sessionID db of Inl ErrNotFound \<Rightarrow> (True, db) | Inl _ \<Rightarrow> (False, db) | Inr db' \<Rightarrow> (True, db'))"

definition Logout :: "bool \<Rightarrow> string \<Rightarrow> auth_service \<Rightarrow> auth_db \<Rightarrow> auth_error option \<times> auth_service \<times> auth_db" where
  "Logout up sessionID s db =
     (if av_sessions s sessionID = None then (Some ErrSessionNotFound, s, db)
      else let (gone, db1) = delete_row up sessionID db
           in if \<not> gone then (Some ErrStore, s, db1)
              else (None, s\<lparr>av_sessions := (av_sessions s)(sessionID := None)\<rparr>, db1))"

fun delete_rows :: "(string \<Rightarrow> bool) \<Rightarrow> string list \<Rightarrow> auth_db \<Rightarrow> string list \<times> string list \<times> auth_db" where
  "delete_rows up [] db = ([], [], db)"
| "delete_rows up (i # is) db =
     (let (gone, db1) = delete_row (up i) i db; (deleted, errs, db2) = delete_rows up is db1
      in if gone then (i # deleted, errs, db2) else (deleted, i # errs, db2))"

text \<open>The order is the one in which the map of sessions is visited.\<close>

definition revoke_candidates :: "string list \<Rightarrow> string \<Rightarrow> string \<Rightarrow> auth_service \<Rightarrow> string list" where
  "revoke_candidates order userID exceptSessionID s =
     filter (\<lambda>i. (case av_sessions s i of Some x \<Rightarrow> sn_userID x = userID | None \<Rightarrow> False) \<and>
                 \<not> (exceptSessionID \<noteq> [] \<and> i = exceptSessionID)) order"

definition RevokeSessionsForUserExcept ::
    "(string \<Rightarrow> bool) \<Rightarrow> string list \<Rightarrow> string \<Rightarrow> string \<Rightarrow> auth_service \<Rightarrow> auth_db \<Rightarrow>
     nat \<times> string list \<times> auth_service \<times> auth_db" where
  "RevokeSessionsForUserExcept up order userID exceptSessionID s db =
     (if TrimSpace userID = [] then (0, [], s, db)
      else let candidates = revoke_candidates order userID exceptSessionID s;
               (deleted, errs, db1) = delete_rows up candidates db
           in (length deleted, errs,
               s\<lparr>av_sessions := (\<lambda>i. if i \<in> set deleted then None else av_sessions s i)\<rparr>, db1))"

definition RevokeSessionsForUser ::
    "(string \<Rightarrow> bool) \<Rightarrow> string list \<Rightarrow> string \<Rightarrow> auth_service \<Rightarrow> auth_db \<Rightarrow>
     nat \<times> string list \<times> auth_service \<times> auth_db" where
  "RevokeSessionsForUser up order userID s db = RevokeSessionsForUserExcept up order userID [] s db"

subsection \<open>One-time codes\<close>

definition ascii_upper :: "char \<Rightarrow> char" where
  "ascii_upper c = (let n = of_char c :: nat in if 97 \<le> n \<and> n \<le> 122 then char_of (n - 32) else c)"

text \<open>Go's division of integers truncates towards zero.\<close>

definition totp_step :: "gotime \<Rightarrow> int" where
  "totp_step at = (let u = toUnix at in if u < 0 then - ((- u) div 30) else u div 30)"

definition big_endian :: "uint64 \<Rightarrow> bytes" where
  "big_endian c = map (\<lambda>i. ucast (drop_bit (8 * (7 - i)) c)) [0..<8]"

definition totp_digits :: "bytes \<Rightarrow> string" where
  "totp_digits mac =
     (let offset = unat (last mac) mod 16;
          value = (unat (mac ! offset) mod 128) * 2 ^ 24 + unat (mac ! (offset + 1)) * 2 ^ 16 +
                  unat (mac ! (offset + 2)) * 2 ^ 8 + unat (mac ! (offset + 3))
      in pad_zero 6 (value mod 1000000))"

definition code_of_step :: "auth_env \<Rightarrow> string \<Rightarrow> int \<Rightarrow> string option" where
  "code_of_step env secret n =
     (case ae_base32 env (map ascii_upper (TrimSpace secret)) of None \<Rightarrow> None
      | Some key \<Rightarrow> Some (totp_digits (ae_hmacSHA1 env key (big_endian (of_int n)))))"

definition GenerateTotpCode :: "auth_env \<Rightarrow> string \<Rightarrow> gotime \<Rightarrow> string option" where
  "GenerateTotpCode env secret at = code_of_step env secret (totp_step at)"

definition verifyTotpCode :: "auth_env \<Rightarrow> auth_service \<Rightarrow> string \<Rightarrow> string \<Rightarrow> gotime \<Rightarrow> bool" where
  "verifyTotpCode env s secret code now =
     (let trimmedCode = TrimSpace code;
          elapsed = time_sub now (av_startedAt s);
          skipPastWindow = (elapsed \<ge> 0 \<and> elapsed < totpWindow)
      in list_ex (\<lambda>candidateTime. \<not> (skipPastWindow \<and> candidateTime < av_startedAt s) \<and>
                     GenerateTotpCode env secret candidateTime = Some trimmedCode)
           [now - 30 * second_ns, now, now + 30 * second_ns])"

definition verifyTotpAndConsumeLocked ::
    "auth_env \<Rightarrow> user_record \<Rightarrow> string \<Rightarrow> gotime \<Rightarrow> auth_service \<Rightarrow> auth_error + auth_service" where
  "verifyTotpAndConsumeLocked env user code now s =
     (let key = (us_id user, TrimSpace code)
      in if av_consumed s key \<noteq> None then Inl ErrInvalidTotpCode
         else if \<not> verifyTotpCode env s (us_totpSecret user) code now then Inl ErrInvalidTotpCode
         else Inr (s\<lparr>av_consumed := (av_consumed s)(key \<mapsto> now)\<rparr>))"

subsection \<open>Login\<close>

record login_input =
  li_username :: string
  li_password :: string
  li_totpCode :: string
  li_priorCookie :: string

definition rehashPasswordIfStale :: "auth_env \<Rightarrow> bool \<Rightarrow> bytes \<Rightarrow> user_record \<Rightarrow> string \<Rightarrow> auth_db \<Rightarrow> auth_db" where
  "rehashPasswordIfStale env up salt user password db =
     (if \<not> needsRehash (ae_active env) (us_passwordHash user) \<or> \<not> up then db
      else case PutUser (user\<lparr>us_passwordHash := hashPassword (ae_kdf env) (ae_active env) salt password\<rparr>) db of
             Inl _ \<Rightarrow> db | Inr db' \<Rightarrow> db')"

definition login_verify ::
    "auth_env \<Rightarrow> bool \<Rightarrow> bytes \<Rightarrow> login_input \<Rightarrow> auth_db \<Rightarrow> (auth_error + user_record) \<times> auth_db" where
  "login_verify env up salt input db =
     (case GetUserByUsername (li_username input) db of
        Inl _ \<Rightarrow> (Inl ErrInvalidCredentials, db)
      | Inr user \<Rightarrow>
          if \<not> verifyPassword (ae_kdf env) (us_passwordHash user) (li_password input)
          then (Inl ErrInvalidCredentials, db)
          else let db1 = rehashPasswordIfStale env up salt user (li_password input) db
               in if us_totpEnabled user \<and> TrimSpace (li_totpCode input) = [] then (Inl ErrTotpRequired, db1)
                  else (Inr user, db1))"

record issued_login =
  il_id :: string
  il_session :: session_record
  il_prior :: string

definition login_issue ::
    "auth_env \<Rightarrow> string \<Rightarrow> login_input \<Rightarrow> user_record \<Rightarrow> gotime \<Rightarrow> auth_service \<Rightarrow>
     (auth_error + issued_login) \<times> auth_service" where
  "login_issue env token input user now s =
     (let consumed = (if us_totpEnabled user then verifyTotpAndConsumeLocked env user (li_totpCode input) now s else Inr s)
      in case consumed of Inl err \<Rightarrow> (Inl err, s)
         | Inr s1 \<Rightarrow>
             let priorCookie = TrimSpace (li_priorCookie input);
                 priorLookupID = (if priorCookie \<noteq> [] then ae_hmac env priorCookie else [])
             in (Inr \<lparr>il_id = ae_hmac env token,
                      il_session = \<lparr>sn_userID = us_id user, sn_createdAt = now, sn_lastSeenAt = now\<rparr>,
                      il_prior = priorLookupID\<rparr>, s1))"

definition persistAuthenticatedSession :: "bool \<Rightarrow> bool \<Rightarrow> issued_login \<Rightarrow> auth_db \<Rightarrow> auth_error option \<times> auth_db" where
  "persistAuthenticatedSession del_up put_up l db =
     (let (gone, db1) = (if il_prior l \<noteq> [] then delete_row del_up (il_prior l) db else (True, db))
      in if \<not> gone then (Some ErrSessionStoreUnavailable, db1)
         else if \<not> put_up then (Some ErrSessionStoreUnavailable, db1)
         else case PutSession (il_id l) (il_session l) db1 of
                Inl _ \<Rightarrow> (Some ErrSessionStoreUnavailable, db1)
              | Inr db2 \<Rightarrow> (None, db2))"

definition login_finish :: "issued_login \<Rightarrow> auth_service \<Rightarrow> auth_service" where
  "login_finish l s =
     s\<lparr>av_sessions := (if il_prior l \<noteq> [] then (av_sessions s)(il_prior l := None) else av_sessions s)
                       (il_id l \<mapsto> il_session l)\<rparr>"

text \<open>The whole call with nothing in between.\<close>

definition Authenticate ::
    "auth_env \<Rightarrow> bool \<Rightarrow> bool \<Rightarrow> bool \<Rightarrow> bytes \<Rightarrow> string \<Rightarrow> login_input \<Rightarrow> gotime \<Rightarrow> auth_service \<Rightarrow> auth_db \<Rightarrow>
     (auth_error + string) \<times> auth_service \<times> auth_db" where
  "Authenticate env up del_up put_up salt token input now s db =
     (case login_verify env up salt input db of
        (Inl err, db1) \<Rightarrow> (Inl err, s, db1)
      | (Inr user, db1) \<Rightarrow>
          (case login_issue env token input user now s of
             (Inl err, s1) \<Rightarrow> (Inl err, s1, db1)
           | (Inr l, s1) \<Rightarrow>
               (case persistAuthenticatedSession del_up put_up l db1 of
                  (Some err, db2) \<Rightarrow> (Inl err, s1, db2)
                | (None, db2) \<Rightarrow> (Inr token, login_finish l s1, db2))))"

subsection \<open>Second factor\<close>

definition load_user :: "string \<Rightarrow> auth_db \<Rightarrow> auth_error + user_record" where
  "load_user userID db = (case store_GetUserByID userID db of Inl _ \<Rightarrow> Inl ErrUserNotFound | Inr u \<Rightarrow> Inr u)"

definition cleanupPendingTotpSetupLocked :: "gotime \<Rightarrow> auth_service \<Rightarrow> auth_service" where
  "cleanupPendingTotpSetupLocked now s =
     (let cutoff = now - effectiveTOTPSetupTTL s
      in s\<lparr>av_pendingTotp := (\<lambda>i. case av_pendingTotp s i of
             Some (secret, createdAt) \<Rightarrow> if createdAt < cutoff then None else Some (secret, createdAt)
           | None \<Rightarrow> None)\<rparr>)"

definition StartTotpSetup ::
    "string \<Rightarrow> string \<Rightarrow> gotime \<Rightarrow> auth_service \<Rightarrow> auth_db \<Rightarrow> (auth_error + string) \<times> auth_service" where
  "StartTotpSetup secret userID now s db =
     (case load_user userID db of Inl err \<Rightarrow> (Inl err, s)
      | Inr _ \<Rightarrow>
          let s1 = cleanupPendingTotpSetupLocked now s
          in (Inr secret, s1\<lparr>av_pendingTotp := (av_pendingTotp s1)(userID \<mapsto> (secret, now))\<rparr>))"

definition store_user :: "bool \<Rightarrow> user_record \<Rightarrow> auth_db \<Rightarrow> auth_error + auth_db" where
  "store_user up u db = (if \<not> up then Inl ErrStore else case PutUser u db of Inl _ \<Rightarrow> Inl ErrStore | Inr db' \<Rightarrow> Inr db')"

definition EnableTotp ::
    "auth_env \<Rightarrow> bool \<Rightarrow> string \<Rightarrow> string \<Rightarrow> string \<Rightarrow> gotime \<Rightarrow> auth_service \<Rightarrow> auth_db \<Rightarrow>
     (auth_error + user_record) \<times> auth_service \<times> auth_db" where
  "EnableTotp env up userID password totpCode now s db =
     (case load_user userID db of Inl err \<Rightarrow> (Inl err, s, db)
      | Inr user \<Rightarrow>
          if \<not> verifyPassword (ae_kdf env) (us_passwordHash user) password then (Inl ErrInvalidCredentials, s, db)
          else if TrimSpace totpCode = [] then (Inl ErrTotpRequired, s, db)
          else let s1 = cleanupPendingTotpSetupLocked now s
               in case av_pendingTotp s1 userID of
                    None \<Rightarrow> (Inl ErrTotpSetupNotFound, s1, db)
                  | Some (secret, _) \<Rightarrow>
                      if \<not> verifyTotpCode env s1 secret totpCode now then (Inl ErrInvalidTotpCode, s1, db)
                      else let s2 = s1\<lparr>av_pendingTotp := (av_pendingTotp s1)(userID := None)\<rparr>;
                               user' = user\<lparr>us_totpEnabled := True, us_totpSecret := secret\<rparr>
                           in (case store_user up user' db of
                                 Inl err \<Rightarrow> (Inl err, s2, db) | Inr db' \<Rightarrow> (Inr user', s2, db')))"

definition DisableTotp ::
    "auth_env \<Rightarrow> bool \<Rightarrow> string \<Rightarrow> string \<Rightarrow> string \<Rightarrow> gotime \<Rightarrow> auth_service \<Rightarrow> auth_db \<Rightarrow>
     (auth_error + user_record) \<times> auth_service \<times> auth_db" where
  "DisableTotp env up userID password totpCode now s db =
     (case load_user userID db of Inl err \<Rightarrow> (Inl err, s, db)
      | Inr user \<Rightarrow>
          if \<not> verifyPassword (ae_kdf env) (us_passwordHash user) password then (Inl ErrInvalidCredentials, s, db)
          else if TrimSpace totpCode = [] then (Inl ErrTotpRequired, s, db)
          else let s1 = cleanupExpiredSessionsLocked now s
               in case verifyTotpAndConsumeLocked env user (TrimSpace totpCode) now s1 of
                    Inl err \<Rightarrow> (Inl err, s1, db)
                  | Inr s2 \<Rightarrow>
                      let s3 = s2\<lparr>av_pendingTotp := (av_pendingTotp s2)(userID := None)\<rparr>;
                          user' = user\<lparr>us_totpEnabled := False, us_totpSecret := []\<rparr>
                      in (case store_user up user' db of
                            Inl err \<Rightarrow> (Inl err, s3, db) | Inr db' \<Rightarrow> (Inr user', s3, db')))"

definition ResetTotp ::
    "bool \<Rightarrow> (string \<Rightarrow> bool) \<Rightarrow> string list \<Rightarrow> string \<Rightarrow> auth_service \<Rightarrow> auth_db \<Rightarrow>
     (auth_error + user_record) \<times> auth_service \<times> auth_db" where
  "ResetTotp up del_up order userID s db =
     (case load_user userID db of Inl err \<Rightarrow> (Inl err, s, db)
      | Inr user \<Rightarrow>
          let (_, errs, s1, db1) = RevokeSessionsForUser del_up order (us_id user) s db
          in if errs \<noteq> [] then (Inl ErrStore, s1, db1)
             else let user' = user\<lparr>us_totpEnabled := False, us_totpSecret := []\<rparr>
                  in case store_user up user' db1 of
                       Inl err \<Rightarrow> (Inl err, s1, db1)
                     | Inr db2 \<Rightarrow> (Inr user', s1\<lparr>av_pendingTotp := (av_pendingTotp s1)(userID := None)\<rparr>, db2))"

subsection \<open>Accounts\<close>

definition RoleAdmin :: string where "RoleAdmin = ''admin''"

definition RoleOperator :: string where "RoleOperator = ''operator''"

definition RoleViewer :: string where "RoleViewer = ''viewer''"

definition countAdmins :: "auth_db \<Rightarrow> nat" where
  "countAdmins db = length (filter (\<lambda>u. us_role u = RoleAdmin) (store_ListUsers db))"

definition BootstrapUser ::
    "auth_env \<Rightarrow> bool \<Rightarrow> bytes \<Rightarrow> string \<Rightarrow> string \<Rightarrow> string \<Rightarrow> string \<Rightarrow> gotime \<Rightarrow> auth_service \<Rightarrow> auth_db \<Rightarrow>
     auth_error + (user_record \<times> auth_db)" where
  "BootstrapUser env up salt fresh username password role now s db =
     (case validatePassword password (av_passwordPolicy s) of Some err \<Rightarrow> Inl err
      | None \<Rightarrow>
          let user = \<lparr>us_id = ''user-'' @ fresh, us_username = username,
                      us_passwordHash = hashPassword (ae_kdf env) (ae_active env) salt password, us_role = role,
                      us_totpEnabled = False, us_totpSecret = [], us_createdAt = now\<rparr>
          in case store_user up user db of Inl err \<Rightarrow> Inl err | Inr db' \<Rightarrow> Inr (user, db'))"

definition CreateUser ::
    "auth_env \<Rightarrow> bool \<Rightarrow> bytes \<Rightarrow> string \<Rightarrow> string \<Rightarrow> string \<Rightarrow> string \<Rightarrow> gotime \<Rightarrow> auth_service \<Rightarrow> auth_db \<Rightarrow>
     auth_error + (user_record \<times> auth_db)" where
  "CreateUser env up salt fresh username0 password role now s db =
     (let username = TrimSpace username0
      in if username = [] then Inl ErrInvalidCredentials
         else case GetUserByUsername username db of
                Inr _ \<Rightarrow> Inl ErrUserAlreadyExists
              | Inl _ \<Rightarrow> BootstrapUser env up salt fresh username password role now s db)"

record update_input =
  ui_userID :: string
  ui_username :: string
  ui_role :: string
  ui_newPassword :: string
  ui_currentPassword :: string
  ui_requireCurrent :: bool
  ui_exceptSessionID :: string

definition validateUsernameChange :: "user_record \<Rightarrow> string \<Rightarrow> auth_db \<Rightarrow> auth_error option" where
  "validateUsernameChange user updatedUsername db =
     (if updatedUsername = [] then Some ErrInvalidCredentials
      else if updatedUsername = us_username user then None
      else case GetUserByUsername updatedUsername db of
             Inr existing \<Rightarrow> if us_id existing \<noteq> us_id user then Some ErrUserAlreadyExists else None
           | Inl _ \<Rightarrow> None)"

definition validateRoleChange :: "user_record \<Rightarrow> string \<Rightarrow> auth_db \<Rightarrow> auth_error option" where
  "validateRoleChange user newRole db =
     (if us_role user \<noteq> RoleAdmin \<or> newRole = RoleAdmin then None
      else if countAdmins db = 1 then Some ErrLastAdminRequired else None)"

definition applyOptionalPasswordChange ::
    "auth_env \<Rightarrow> bytes \<Rightarrow> string \<Rightarrow> auth_service \<Rightarrow> user_record \<Rightarrow> auth_error + user_record" where
  "applyOptionalPasswordChange env salt newPassword s user =
     (if TrimSpace newPassword = [] then Inr user
      else case validatePassword newPassword (av_passwordPolicy s) of Some err \<Rightarrow> Inl err
           | None \<Rightarrow> Inr (user\<lparr>us_passwordHash := hashPassword (ae_kdf env) (ae_active env) salt newPassword\<rparr>))"

text \<open>The checks of an update, up to the point where it starts to change state.\<close>

definition update_check ::
    "auth_env \<Rightarrow> bytes \<Rightarrow> update_input \<Rightarrow> auth_service \<Rightarrow> auth_db \<Rightarrow> auth_error + (user_record \<times> user_record)" where
  "update_check env salt input s db =
     (case load_user (ui_userID input) db of Inl err \<Rightarrow> Inl err
      | Inr user \<Rightarrow>
          let updatedUsername = TrimSpace (ui_username input)
          in case validateUsernameChange user updatedUsername db of Some err \<Rightarrow> Inl err
             | None \<Rightarrow>
                 (case validateRoleChange user (ui_role input) db of Some err \<Rightarrow> Inl err
                  | None \<Rightarrow>
                      let passwordChanged = (TrimSpace (ui_newPassword input) \<noteq> [])
                      in if passwordChanged \<and> ui_requireCurrent input \<and> TrimSpace (ui_currentPassword input) = []
                         then Inl ErrCurrentPasswordRequired
                         else if passwordChanged \<and> ui_requireCurrent input \<and>
                                 \<not> verifyPassword (ae_kdf env) (us_passwordHash user) (ui_currentPassword input)
                         then Inl ErrCurrentPasswordIncorrect
                         else (case applyOptionalPasswordChange env salt (ui_newPassword input) s
                                      (user\<lparr>us_username := updatedUsername, us_role := ui_role input\<rparr>) of
                                 Inl err \<Rightarrow> Inl err | Inr user' \<Rightarrow> Inr (user, user'))))"

text \<open>
  The rest of it: revoke when the password or the role changes, then store the record. No lock
  spans the checks and the write. \<^verbatim>\<open>persistManagedUserCtx\<close> turns \<^verbatim>\<open>storage.ErrConflict\<close> into
  \<^verbatim>\<open>ErrUserAlreadyExists\<close>, but this store passes the driver's error on.
\<close>

definition update_commit ::
    "bool \<Rightarrow> (string \<Rightarrow> bool) \<Rightarrow> string list \<Rightarrow> update_input \<Rightarrow> user_record \<Rightarrow> user_record \<Rightarrow>
     auth_service \<Rightarrow> auth_db \<Rightarrow> (auth_error + user_record) \<times> auth_service \<times> auth_db" where
  "update_commit up del_up order input user user' s db =
     (let (errs, s1, db1) =
            (if TrimSpace (ui_newPassword input) \<noteq> [] \<or> us_role user \<noteq> ui_role input
             then (case RevokeSessionsForUserExcept del_up order (us_id user) (ui_exceptSessionID input) s db of
                     (_, errs, s1, db1) \<Rightarrow> (errs, s1, db1))
             else ([], s, db))
      in if errs \<noteq> [] then (Inl ErrStore, s1, db1)
         else case store_user up user' db1 of
                Inl err \<Rightarrow> (Inl err, s1, db1) | Inr db2 \<Rightarrow> (Inr user', s1, db2))"

definition UpdateUser ::
    "auth_env \<Rightarrow> bool \<Rightarrow> (string \<Rightarrow> bool) \<Rightarrow> string list \<Rightarrow> bytes \<Rightarrow> update_input \<Rightarrow> auth_service \<Rightarrow> auth_db \<Rightarrow>
     (auth_error + user_record) \<times> auth_service \<times> auth_db" where
  "UpdateUser env up del_up order salt input s db =
     (case update_check env salt input s db of Inl err \<Rightarrow> (Inl err, s, db)
      | Inr (user, user') \<Rightarrow> update_commit up del_up order input user user' s db)"

definition auth_DeleteUser ::
    "bool \<Rightarrow> (string \<Rightarrow> bool) \<Rightarrow> string list \<Rightarrow> string \<Rightarrow> auth_service \<Rightarrow> auth_db \<Rightarrow>
     auth_error option \<times> auth_service \<times> auth_db" where
  "auth_DeleteUser up del_up order userID s db =
     (case load_user userID db of Inl err \<Rightarrow> (Some err, s, db)
      | Inr user \<Rightarrow>
          if us_role user = RoleAdmin \<and> countAdmins db = 1 then (Some ErrLastAdminRequired, s, db)
          else if \<not> up then (Some ErrStore, s, db)
          else case store_DeleteUser (us_id user) db of Inl _ \<Rightarrow> (Some ErrUserNotFound, s, db)
               | Inr db1 \<Rightarrow>
                   let s1 = s\<lparr>av_pendingTotp := (av_pendingTotp s)(userID := None)\<rparr>;
                       (_, errs, s2, db2) = RevokeSessionsForUser del_up order userID s1 db1
                   in (if errs = [] then None else Some ErrStore, s2, db2))"

definition elideSensitive :: "user_record \<Rightarrow> user_record" where
  "elideSensitive u = u\<lparr>us_passwordHash := [], us_totpSecret := []\<rparr>"

definition ListUsers :: "auth_db \<Rightarrow> user_record list" where
  "ListUsers db = map elideSensitive (store_ListUsers db)"

end
