(* ===== verification/Auth_System.thy ===== *)
theory Auth_System
  imports Auth_Service
begin

section \<open>Runs of the authentication service\<close>

text \<open>
  The service, its tables and the operations in flight, with a clock that only moves
  forward. A login is in flight from the moment its credentials were checked until its
  session is installed; a restart discards what is in flight and rebuilds the service from the
  tables in the order of server/lifecycle.go, which restores the sessions before it wires the
  configured timeouts.

  The configuration of a run says how long a login may wait between the moment its
  time was taken and the check of its code, whether a restart may lose the pending writes of
  consumed codes, and the timeouts the operator set. The goroutines that write consumed codes
  complete in the order they were started.
  Revoking the sessions of a user and updating an account are single steps of a run.
\<close>

record run_config =
  rc_delay :: duration
  rc_lossy :: bool
  rc_idle :: "duration option"
  rc_max :: "duration option"

record verified_login =
  vl_user :: user_record
  vl_input :: login_input
  vl_now :: gotime

record auth_system =
  ay_service :: auth_service
  ay_db :: auth_db
  ay_clock :: gotime
  ay_verified :: "verified_login list"
  ay_issued :: "issued_login list"
  ay_persisted :: "issued_login list"
  ay_writes :: "(string \<times> string \<times> gotime) list"
  ay_accepted :: "(string \<times> string \<times> gotime) list"

text \<open>\<^verbatim>\<open>New\<close> in server/lifecycle.go: construct, set the clock, restore, then wire the timeouts.\<close>

definition boot :: "run_config \<Rightarrow> gotime \<Rightarrow> auth_db \<Rightarrow> auth_service \<times> auth_db" where
  "boot cfg now db =
     (let s0 = SetNow now (NewServiceWithStore now);
          (s1, db1) = RestoreSessions now s0 db
      in (SetSessionTimeoutFns (rc_idle cfg) (rc_max cfg) s1, db1))"

definition boot_system :: "run_config \<Rightarrow> gotime \<Rightarrow> (string \<times> string \<times> gotime) list \<Rightarrow> auth_db \<Rightarrow> auth_system" where
  "boot_system cfg now accepted db =
     (let (s, db1) = boot cfg now db
      in \<lparr>ay_service = s, ay_db = db1, ay_clock = now, ay_verified = [], ay_issued = [], ay_persisted = [],
          ay_writes = [], ay_accepted = accepted\<rparr>)"

definition update_state :: "auth_service \<Rightarrow> auth_db \<Rightarrow> auth_system \<Rightarrow> auth_system" where
  "update_state s db y = y\<lparr>ay_service := s, ay_db := db\<rparr>"

definition in_flight :: "auth_system \<Rightarrow> issued_login list" where
  "in_flight y = ay_issued y @ ay_persisted y"

text \<open>
  A fresh token: 32 random bytes whose HMAC no session, row or login in flight has, and
  which no browser has presented; and the cookie the browser carries is not one that has not
  been handed out yet.
\<close>

definition fresh_login :: "issued_login \<Rightarrow> auth_system \<Rightarrow> bool" where
  "fresh_login l y \<longleftrightarrow> il_id l \<noteq> [] \<and> av_sessions (ay_service y) (il_id l) = None \<and> ad_sessions (ay_db y) (il_id l) = None \<and>
     il_prior l \<noteq> il_id l \<and>
     list_all (\<lambda>m. il_id m \<noteq> il_id l \<and> il_prior m \<noteq> il_id l \<and> il_prior l \<noteq> il_id m) (in_flight y)"

text \<open>
  The steps. The label is the user whose login begins with the step, if any. A session is
  touched by the request that has just looked it up (\<^verbatim>\<open>requireSession\<close>, server/http_auth.go).
\<close>

inductive auth_step :: "auth_env \<Rightarrow> run_config \<Rightarrow> string option \<Rightarrow> auth_system \<Rightarrow> auth_system \<Rightarrow> bool"
  for env cfg
where
  step_tick: "ay_clock y \<le> now \<Longrightarrow> auth_step env cfg None y (y\<lparr>ay_clock := now\<rparr>)"
| step_verify: "login_verify env up salt input (ay_db y) = (Inr user, db) \<Longrightarrow>
    auth_step env cfg (Some (us_id user)) y
      (y\<lparr>ay_db := db, ay_verified := \<lparr>vl_user = user, vl_input = input, vl_now = ay_clock y\<rparr> # ay_verified y\<rparr>)"
| step_reject: "login_verify env up salt input (ay_db y) = (Inl err, db) \<Longrightarrow>
    auth_step env cfg None y (y\<lparr>ay_db := db\<rparr>)"
| step_issue: "v \<in> set (ay_verified y) \<Longrightarrow> ay_clock y \<le> vl_now v + rc_delay cfg \<Longrightarrow>
    login_issue env token (vl_input v) (vl_user v) (vl_now v) (ay_service y) = (Inr l, s) \<Longrightarrow> fresh_login l y \<Longrightarrow>
    auth_step env cfg None y
      (let use = (if us_totpEnabled (vl_user v)
                  then [(us_id (vl_user v), TrimSpace (li_totpCode (vl_input v)), vl_now v)] else [])
       in y\<lparr>ay_service := s, ay_verified := remove1 v (ay_verified y), ay_issued := l # ay_issued y,
            ay_writes := ay_writes y @ use, ay_accepted := ay_accepted y @ use\<rparr>)"
| step_abandon: "auth_step env cfg None y (y\<lparr>ay_verified := remove1 v (ay_verified y)\<rparr>)"
| step_persist: "l \<in> set (ay_issued y) \<Longrightarrow> persistAuthenticatedSession del_up put_up l (ay_db y) = (None, db) \<Longrightarrow>
    auth_step env cfg None y
      (y\<lparr>ay_db := db, ay_issued := remove1 l (ay_issued y), ay_persisted := l # ay_persisted y\<rparr>)"
| step_persist_failed: "l \<in> set (ay_issued y) \<Longrightarrow>
    persistAuthenticatedSession del_up put_up l (ay_db y) = (Some err, db) \<Longrightarrow>
    auth_step env cfg None y (y\<lparr>ay_db := db, ay_issued := remove1 l (ay_issued y)\<rparr>)"
| step_finish: "l \<in> set (ay_persisted y) \<Longrightarrow>
    auth_step env cfg None y
      (y\<lparr>ay_service := login_finish l (ay_service y), ay_persisted := remove1 l (ay_persisted y)\<rparr>)"
| step_write: "ay_writes y = (u, c, t) # ws \<Longrightarrow>
    auth_step env cfg None y (y\<lparr>ay_db := UpsertConsumedTotp u c t (ay_db y), ay_writes := ws\<rparr>)"
| step_get: "GetSession (ay_clock y) i (ay_service y) = (r, s) \<Longrightarrow>
    auth_step env cfg None y (y\<lparr>ay_service := s\<rparr>)"
| step_touch: "fst (GetSession (ay_clock y) i (ay_service y)) = Inr x \<Longrightarrow>
    TouchSession (ay_clock y) up i (ay_service y) (ay_db y) = (s, db) \<Longrightarrow>
    auth_step env cfg None y (update_state s db y)"
| step_cleanup: "auth_step env cfg None y
    (y\<lparr>ay_service := cleanupExpiredSessionsLocked (ay_clock y) (ay_service y)\<rparr>)"
| step_logout: "Logout up i (ay_service y) (ay_db y) = (err, s, db) \<Longrightarrow>
    auth_step env cfg None y (update_state s db y)"
| step_revoke: "range_order (av_sessions (ay_service y)) order \<Longrightarrow>
    RevokeSessionsForUserExcept del_up order u ex (ay_service y) (ay_db y) = (n, errs, s, db) \<Longrightarrow>
    auth_step env cfg None y (update_state s db y)"
| step_update: "range_order (av_sessions (ay_service y)) order \<Longrightarrow>
    UpdateUser env up del_up order salt input (ay_service y) (ay_db y) = (r, s, db) \<Longrightarrow>
    auth_step env cfg None y (update_state s db y)"
| step_delete: "range_order (av_sessions (ay_service y)) order \<Longrightarrow>
    auth_DeleteUser up del_up order u (ay_service y) (ay_db y) = (err, s, db) \<Longrightarrow>
    auth_step env cfg None y (update_state s db y)"
| step_create: "CreateUser env up salt fresh name pw role now (ay_service y) (ay_db y) = Inr (u, db) \<Longrightarrow>
    auth_step env cfg None y (y\<lparr>ay_db := db\<rparr>)"
| step_start_totp: "StartTotpSetup secret u now (ay_service y) (ay_db y) = (r, s) \<Longrightarrow>
    auth_step env cfg None y (y\<lparr>ay_service := s\<rparr>)"
| step_enable_totp: "EnableTotp env up u pw code (ay_clock y) (ay_service y) (ay_db y) = (r, s, db) \<Longrightarrow>
    auth_step env cfg None y (update_state s db y)"
| step_disable_totp: "DisableTotp env up u pw code (ay_clock y) (ay_service y) (ay_db y) = (r, s, db) \<Longrightarrow>
    auth_step env cfg None y (update_state s db y)"
| step_reset_totp: "range_order (av_sessions (ay_service y)) order \<Longrightarrow>
    ResetTotp up del_up order u (ay_service y) (ay_db y) = (r, s, db) \<Longrightarrow>
    auth_step env cfg None y (update_state s db y)"
| step_restart: "rc_lossy cfg \<or> ay_writes y = [] \<Longrightarrow> ay_clock y \<le> now \<Longrightarrow>
    auth_step env cfg None y (boot_system cfg now (ay_accepted y) (ay_db y))"

text \<open>A run starts with tables that hold no session and no consumed code.\<close>

definition empty_tables :: "auth_db \<Rightarrow> bool" where
  "empty_tables db \<longleftrightarrow> ad_sessions db = Map.empty \<and> ad_consumed db = Map.empty"

inductive auth_run :: "auth_env \<Rightarrow> run_config \<Rightarrow> auth_system \<Rightarrow> bool"
  for env cfg
where
  run_boot: "empty_tables db \<Longrightarrow> 30 \<le> toUnix now \<Longrightarrow> auth_run env cfg (boot_system cfg now [] db)"
| run_step: "auth_run env cfg y \<Longrightarrow> auth_step env cfg a y y' \<Longrightarrow> auth_run env cfg y'"

text \<open>Continuations in which no login of the user begins.\<close>

inductive run_without :: "auth_env \<Rightarrow> run_config \<Rightarrow> string \<Rightarrow> auth_system \<Rightarrow> auth_system \<Rightarrow> bool"
  for env cfg u y
where
  without_refl: "run_without env cfg u y y"
| without_step: "run_without env cfg u y y' \<Longrightarrow> auth_step env cfg a y' y'' \<Longrightarrow> a \<noteq> Some u \<Longrightarrow>
    run_without env cfg u y y''"

end
