(* ===== verification/Auth_Invariant.thy ===== *)
theory Auth_Invariant
  imports Auth_System
begin

section \<open>Memory and store agree on the sessions\<close>

text \<open>
  The invariant behind revocation: a row of the table that could come back after a restart
  belongs to a session in memory or to a login that is about to install it. Every operation
  either leaves both sides alone, or removes a session from memory only with its row or
  when the row is past use; the lemma \<open>sessions_ok_shrink\<close> covers all of these.
\<close>

definition max_of :: "run_config \<Rightarrow> duration" where
  "max_of cfg = (case rc_max cfg of Some d \<Rightarrow> d | None \<Rightarrow> sessionMaxLifetime)"

definition idle_of :: "run_config \<Rightarrow> duration" where
  "idle_of cfg = (case rc_idle cfg of Some d \<Rightarrow> d | None \<Rightarrow> sessionIdleTimeout)"

definition wired :: "run_config \<Rightarrow> auth_service \<Rightarrow> bool" where
  "wired cfg s \<longleftrightarrow> av_maxLifetimeFn s = rc_max cfg \<and> av_idleTimeoutFn s = rc_idle cfg"

text \<open>A row that no restart brings back as a usable session.\<close>

definition row_dead :: "run_config \<Rightarrow> gotime \<Rightarrow> session_row \<Rightarrow> bool" where
  "row_dead cfg now r \<longleftrightarrow>
     now > sn_createdAt (restored_session r) + max_of cfg \<or>
     now > sn_lastSeenAt (restored_session r) + idle_of cfg \<or>
     now > sn_createdAt (restored_session r) + sessionMaxLifetime"

definition row_within :: "session_row \<Rightarrow> session_record \<Rightarrow> bool" where
  "row_within r x \<longleftrightarrow> sn_userID x = sr_user_id r \<and>
     sn_createdAt (restored_session r) \<le> sn_createdAt x \<and> sn_lastSeenAt (restored_session r) \<le> sn_lastSeenAt x"

definition login_ok :: "gotime \<Rightarrow> (string \<rightharpoonup> session_record) \<Rightarrow> issued_login \<Rightarrow> bool" where
  "login_ok now mem l \<longleftrightarrow> il_id l \<noteq> [] \<and> mem (il_id l) = None \<and> sn_createdAt (il_session l) \<le> now \<and>
     sn_lastSeenAt (il_session l) = sn_createdAt (il_session l)"

definition logins_apart :: "issued_login list \<Rightarrow> bool" where
  "logins_apart ls \<longleftrightarrow> distinct (map il_id ls) \<and> (\<forall>l \<in> set ls. \<forall>m \<in> set ls. il_prior m \<noteq> il_id l)"

definition mem_ok :: "run_config \<Rightarrow> gotime \<Rightarrow> (string \<rightharpoonup> session_record) \<Rightarrow> (string \<rightharpoonup> session_row) \<Rightarrow>
    issued_login list \<Rightarrow> issued_login list \<Rightarrow> bool" where
  "mem_ok cfg now mem rows issued persisted \<longleftrightarrow>
     (\<forall>i x. mem i = Some x \<longrightarrow> sn_createdAt x \<le> now) \<and>
     (\<forall>i r. rows i = Some r \<longrightarrow> sn_createdAt (restored_session r) \<le> now) \<and>
     (\<forall>i x r. mem i = Some x \<longrightarrow> rows i = Some r \<longrightarrow> row_within r x) \<and>
     (\<forall>i r. rows i = Some r \<longrightarrow> mem i = None \<longrightarrow> i \<in> il_id ` set persisted \<or> row_dead cfg now r) \<and>
     (\<forall>l \<in> set (issued @ persisted). login_ok now mem l) \<and> logins_apart (issued @ persisted) \<and>
     (\<forall>l \<in> set issued. rows (il_id l) = None) \<and>
     (\<forall>l \<in> set persisted. (il_prior l \<noteq> [] \<longrightarrow> rows (il_prior l) = None) \<and>
        (\<forall>r. rows (il_id l) = Some r \<longrightarrow> row_within r (il_session l)))"

lemma mem_okD:
  assumes "mem_ok cfg now mem rows issued persisted"
  shows "mem i = Some x \<Longrightarrow> sn_createdAt x \<le> now"
    and "rows i = Some r \<Longrightarrow> sn_createdAt (restored_session r) \<le> now"
    and "mem i = Some x \<Longrightarrow> rows i = Some r \<Longrightarrow> row_within r x"
    and "rows i = Some r \<Longrightarrow> mem i = None \<Longrightarrow> i \<in> il_id ` set persisted \<or> row_dead cfg now r"
    and "l \<in> set (issued @ persisted) \<Longrightarrow> login_ok now mem l"
    and "logins_apart (issued @ persisted)"
    and "l \<in> set issued \<Longrightarrow> rows (il_id l) = None"
    and "l \<in> set persisted \<Longrightarrow> il_prior l \<noteq> [] \<Longrightarrow> rows (il_prior l) = None"
    and "l \<in> set persisted \<Longrightarrow> rows (il_id l) = Some r \<Longrightarrow> row_within r (il_session l)"
  using assms unfolding mem_ok_def by blast+

lemma mem_okI [inv_intros]:
  assumes "\<And>i x. mem i = Some x \<Longrightarrow> sn_createdAt x \<le> now"
    and "\<And>i r. rows i = Some r \<Longrightarrow> sn_createdAt (restored_session r) \<le> now"
    and "\<And>i x r. mem i = Some x \<Longrightarrow> rows i = Some r \<Longrightarrow> row_within r x"
    and "\<And>i r. rows i = Some r \<Longrightarrow> mem i = None \<Longrightarrow> i \<in> il_id ` set persisted \<or> row_dead cfg now r"
    and "\<And>l. l \<in> set (issued @ persisted) \<Longrightarrow> login_ok now mem l"
    and "logins_apart (issued @ persisted)"
    and "\<And>l. l \<in> set issued \<Longrightarrow> rows (il_id l) = None"
    and "\<And>l. l \<in> set persisted \<Longrightarrow> il_prior l \<noteq> [] \<Longrightarrow> rows (il_prior l) = None"
    and "\<And>l r. l \<in> set persisted \<Longrightarrow> rows (il_id l) = Some r \<Longrightarrow> row_within r (il_session l)"
  shows "mem_ok cfg now mem rows issued persisted"
  using assms unfolding mem_ok_def by blast

definition sessions_ok :: "run_config \<Rightarrow> auth_system \<Rightarrow> bool" where
  "sessions_ok cfg y \<longleftrightarrow> wired cfg (ay_service y) \<and>
     mem_ok cfg (ay_clock y) (av_sessions (ay_service y)) (ad_sessions (ay_db y)) (ay_issued y) (ay_persisted y)"

subsection \<open>Effects of the operations on sessions and rows\<close>

lemma wired_effective: "wired cfg s \<Longrightarrow> effectiveSessionMaxLifetime s = max_of cfg \<and> effectiveSessionIdleTimeout s = idle_of cfg"
  by (simp add: wired_def effectiveSessionMaxLifetime_def effectiveSessionIdleTimeout_def max_of_def idle_of_def)

lemma row_dead_mono: "row_dead cfg now r \<Longrightarrow> now \<le> now' \<Longrightarrow> row_dead cfg now' r"
  by (auto simp: row_dead_def)

lemma expired_row_dead:
  "wired cfg s \<Longrightarrow> row_within r x \<Longrightarrow> session_expired now s x \<Longrightarrow> row_dead cfg now r"
  using wired_effective [of cfg s] by (auto simp: row_dead_def row_within_def session_expired_def)

lemma expired_iff_cutoff:
  "session_expired now s x \<longleftrightarrow>
   sn_createdAt x < now - effectiveSessionMaxLifetime s \<or> sn_lastSeenAt x < now - effectiveSessionIdleTimeout s"
  by (auto simp: session_expired_def)

lemma restored_user [simp]: "sn_userID (restored_session r) = sr_user_id r"
  by (simp add: restored_session_def session_of_row_def Let_def)

lemma restored_created: "sn_createdAt (restored_session r) = fromUnix (sr_created_at_unix r)"
  by (simp add: restored_session_def session_of_row_def Let_def)

lemma restored_lastSeen:
  "sn_lastSeenAt (restored_session r) =
     (if fromUnix (sr_last_seen_at_unix r) = 0 then fromUnix (sr_created_at_unix r) else fromUnix (sr_last_seen_at_unix r))"
  by (simp add: restored_session_def session_of_row_def Let_def is_zero_time_def)

lemma row_of_session_within:
  assumes "sn_lastSeenAt x = sn_createdAt x"
  shows "row_within (row_of_session x) x"
  using assms fromUnix_toUnix_le [of "sn_createdAt x"]
  by (simp add: row_within_def restored_created restored_lastSeen row_of_session_def Let_def)

lemma touched_within:
  assumes "row_within r x" "sn_createdAt x \<le> now"
  shows "row_within (r\<lparr>sr_last_seen_at_unix := toUnix now\<rparr>) (x\<lparr>sn_lastSeenAt := now\<rparr>)"
  using assms fromUnix_toUnix_le [of now]
  by (auto simp: row_within_def restored_created restored_lastSeen)

text \<open>Which rows and sessions an operation may remove.\<close>

definition shrinks :: "run_config \<Rightarrow> gotime \<Rightarrow> auth_service \<Rightarrow> auth_db \<Rightarrow> auth_service \<Rightarrow> auth_db \<Rightarrow> bool" where
  "shrinks cfg now s db s' db' \<longleftrightarrow> (wired cfg s \<longrightarrow> wired cfg s') \<and>
     (\<forall>i. av_sessions s' i = None \<or> av_sessions s' i = av_sessions s i) \<and>
     (\<forall>i. ad_sessions db' i = None \<or> ad_sessions db' i = ad_sessions db i) \<and>
     (\<forall>i x r. av_sessions s i = Some x \<longrightarrow> av_sessions s' i = None \<longrightarrow> ad_sessions db' i = Some r \<longrightarrow>
        wired cfg s \<longrightarrow> row_within r x \<longrightarrow> row_dead cfg now r)"

lemma shrinks_refl: "wired cfg s' = wired cfg s \<Longrightarrow> av_sessions s' = av_sessions s \<Longrightarrow> ad_sessions db' = ad_sessions db \<Longrightarrow>
  shrinks cfg now s db s' db'"
  by (simp add: shrinks_def)

lemma shrinks_trans:
  assumes "shrinks cfg now s db s1 db1" "shrinks cfg now s1 db1 s2 db2"
  shows "shrinks cfg now s db s2 db2"
proof -
  have "row_dead cfg now r"
    if "av_sessions s i = Some x" "av_sessions s2 i = None" "ad_sessions db2 i = Some r" "wired cfg s" "row_within r x" for i x r
  proof (cases "av_sessions s1 i")
    case None
    have "ad_sessions db1 i = Some r" using assms(2) that(3) unfolding shrinks_def by (metis option.distinct(1))
    with None that assms(1) show ?thesis unfolding shrinks_def by blast
  next
    case (Some x')
    then have "x' = x" using assms(1) that(1) unfolding shrinks_def by (metis option.distinct(1) option.inject)
    with Some that assms show ?thesis unfolding shrinks_def by blast
  qed
  with assms show ?thesis unfolding shrinks_def by metis
qed

lemma mem_ok_shrink:
  assumes "mem_ok cfg now (av_sessions s) (ad_sessions db) issued persisted" "wired cfg s" "shrinks cfg now s db s' db'"
  shows "mem_ok cfg now (av_sessions s') (ad_sessions db') issued persisted"
proof -
  have sub: "\<And>i x. av_sessions s' i = Some x \<Longrightarrow> av_sessions s i = Some x"
    and rows: "\<And>i r. ad_sessions db' i = Some r \<Longrightarrow> ad_sessions db i = Some r"
    using assms(3) unfolding shrinks_def by (metis option.distinct(1))+
  have none: "\<And>i. av_sessions s i = None \<Longrightarrow> av_sessions s' i = None"
    and rnone: "\<And>i. ad_sessions db i = None \<Longrightarrow> ad_sessions db' i = None"
    using assms(3) unfolding shrinks_def by metis+
  have dead: "i \<in> il_id ` set persisted \<or> row_dead cfg now r"
    if "ad_sessions db' i = Some r" "av_sessions s' i = None" for i r
  proof (cases "av_sessions s i")
    case None
    then show ?thesis by (rule mem_okD(4) [OF assms(1) rows [OF that(1)]])
  next
    case (Some x)
    have "row_within r x" by (rule mem_okD(3) [OF assms(1) Some rows [OF that(1)]])
    with Some that assms(2,3) show ?thesis unfolding shrinks_def by blast
  qed
  have login: "login_ok now (av_sessions s') l" if "l \<in> set (issued @ persisted)" for l
    using mem_okD(5) [OF assms(1) that] none by (simp add: login_ok_def)
  show ?thesis
  proof (rule mem_okI)
    show "logins_apart (issued @ persisted)" by (rule mem_okD(6) [OF assms(1)])
    show "ad_sessions db' (il_id l) = None" if "l \<in> set issued" for l
      by (rule rnone [OF mem_okD(7) [OF assms(1) that]])
    show "ad_sessions db' (il_prior l) = None" if "l \<in> set persisted" "il_prior l \<noteq> []" for l
      by (rule rnone [OF mem_okD(8) [OF assms(1) that]])
  qed (fact dead login mem_okD(1) [OF assms(1) sub] mem_okD(2) [OF assms(1) rows] mem_okD(3) [OF assms(1) sub rows]
      mem_okD(9) [OF assms(1) _ rows])+
qed

lemma sessions_ok_shrink:
  assumes "sessions_ok cfg y" "shrinks cfg (ay_clock y) (ay_service y) (ay_db y) s db"
    and "ay_service y' = s" "ay_db y' = db" "ay_clock y' = ay_clock y" "ay_issued y' = ay_issued y" "ay_persisted y' = ay_persisted y"
  shows "sessions_ok cfg y'"
  using assms mem_ok_shrink [OF _ _ assms(2)] unfolding sessions_ok_def shrinks_def by auto

subsection \<open>The operations that only remove\<close>

lemma GetSession_shrinks:
  assumes "GetSession now i s = (r, s')"
  shows "shrinks cfg now s db s' db"
  using assms expired_row_dead [of cfg s] 
  by (auto simp: GetSession_def shrinks_def wired_def split: option.splits if_splits)

lemma cleanup_shrinks: "shrinks cfg now s db (cleanupExpiredSessionsLocked now s) db"
  using expired_row_dead [of cfg s]
  by (auto simp: cleanupExpiredSessionsLocked_def shrinks_def wired_def Let_def expired_iff_cutoff split: option.splits if_splits)

lemma delete_row_spec:
  assumes "delete_row up i db = (gone, db')"
  shows "gone \<Longrightarrow> ad_sessions db' i = None" "ad_sessions db' j = None \<or> ad_sessions db' j = ad_sessions db j"
    "ad_users db' = ad_users db" "ad_consumed db' = ad_consumed db"
  using assms by (auto simp: delete_row_def DeleteSession_def split: if_splits sum.splits store_error.splits)

lemma delete_row_up: "fst (delete_row True i db)"
  by (auto simp: delete_row_def DeleteSession_def split: if_splits sum.splits store_error.splits)

lemma Logout_shrinks:
  assumes "Logout up i s db = (err, s', db')"
  shows "shrinks cfg now s db s' db'"
proof (cases "av_sessions s i")
  case None
  with assms show ?thesis by (simp add: Logout_def shrinks_def)
next
  case (Some x)
  obtain gone db1 where D: "delete_row up i db = (gone, db1)" by fastforce
  show ?thesis
    using assms Some D delete_row_spec [OF D] by (auto simp: Logout_def shrinks_def wired_def split: if_splits)
qed

lemma delete_rows_spec:
  assumes "delete_rows up is db = (deleted, errs, db')"
  shows "\<And>i. i \<in> set deleted \<Longrightarrow> ad_sessions db' i = None"
    "\<And>j. ad_sessions db' j = None \<or> ad_sessions db' j = ad_sessions db j"
    "set deleted \<union> set errs = set is" "ad_users db' = ad_users db" "ad_consumed db' = ad_consumed db"
    "(\<And>i. up i) \<Longrightarrow> errs = []"
proof -
  have "(\<forall>i \<in> set deleted. ad_sessions db' i = None) \<and>
    (\<forall>j. ad_sessions db' j = None \<or> ad_sessions db' j = ad_sessions db j) \<and>
    set deleted \<union> set errs = set is \<and> ad_users db' = ad_users db \<and> ad_consumed db' = ad_consumed db \<and>
    ((\<forall>i. up i) \<longrightarrow> errs = [])"
    using assms
  proof (induction "is" arbitrary: db deleted errs)
    case (Cons i ids)
    obtain gone db1 where D: "delete_row (up i) i db = (gone, db1)" by fastforce
    obtain deleted1 errs1 db2 where R: "delete_rows up ids db1 = (deleted1, errs1, db2)" by (metis prod_cases3)
    have db2: "db2 = db'" and del: "set deleted = (if gone then insert i (set deleted1) else set deleted1)"
      and er: "errs = (if gone then errs1 else i # errs1)"
      using Cons.prems D R by (auto split: if_splits)
    have up: "gone" if "\<forall>i. up i" using that D delete_row_up [of i db] by simp
    note IH = Cons.IH [OF R [unfolded db2]]
    have "ad_sessions db' i = None" if gone
      using IH delete_row_spec(1) [OF D that] by (metis)
    moreover have "ad_sessions db' j = None \<or> ad_sessions db' j = ad_sessions db j" for j
      using IH delete_row_spec(2) [OF D, of j] by metis
    moreover have "errs = []" if "\<forall>i. up i"
      using IH that up [OF that] er by simp
    moreover have "set deleted \<union> set errs = set (i # ids)"
      using IH del er by auto
    ultimately show ?case
      using IH del delete_row_spec(3,4) [OF D] by (auto split: if_splits)
  qed auto
  then show "\<And>i. i \<in> set deleted \<Longrightarrow> ad_sessions db' i = None"
    "\<And>j. ad_sessions db' j = None \<or> ad_sessions db' j = ad_sessions db j"
    "set deleted \<union> set errs = set is" "ad_users db' = ad_users db" "ad_consumed db' = ad_consumed db"
    "(\<And>i. up i) \<Longrightarrow> errs = []" by blast+
qed

lemma revoke_shrinks:
  assumes "RevokeSessionsForUserExcept up order u ex s db = (n, errs, s', db')"
  shows "shrinks cfg now s db s' db'" "ad_users db' = ad_users db"
    "av_consumed s' = av_consumed s" "ad_consumed db' = ad_consumed db"
proof -
  obtain deleted errs1 db1 where D: "delete_rows up (revoke_candidates order u ex s) db = (deleted, errs1, db1)"
    by (metis prod_cases3)
  note d = delete_rows_spec [OF D]
  show "shrinks cfg now s db s' db'" "ad_users db' = ad_users db"
    "av_consumed s' = av_consumed s" "ad_consumed db' = ad_consumed db"
    using assms D d by (auto simp: RevokeSessionsForUserExcept_def shrinks_def wired_def Let_def split: if_splits)
qed

lemma PutUser_tables: "PutUser u db = Inr db' \<Longrightarrow> ad_sessions db' = ad_sessions db \<and> ad_consumed db' = ad_consumed db"
  by (auto simp: PutUser_def split: if_splits)

lemma store_user_tables: "store_user up u db = Inr db' \<Longrightarrow> ad_sessions db' = ad_sessions db \<and> ad_consumed db' = ad_consumed db"
  using PutUser_tables by (auto simp: store_user_def split: if_splits sum.splits)

lemma login_verify_tables:
  "login_verify env up salt input db = (r, db') \<Longrightarrow> ad_sessions db' = ad_sessions db \<and> ad_consumed db' = ad_consumed db"
  using PutUser_tables
  by (auto simp: login_verify_def rehashPasswordIfStale_def Let_def split: sum.splits if_splits)

lemma CreateUser_tables:
  "CreateUser env up salt fresh name pw role now s db = Inr (u, db') \<Longrightarrow>
   ad_sessions db' = ad_sessions db \<and> ad_consumed db' = ad_consumed db"
  using store_user_tables
  by (auto simp: CreateUser_def BootstrapUser_def Let_def split: sum.splits if_splits option.splits)

lemma UpdateUser_shrinks:
  assumes "UpdateUser env up del_up order salt input s db = (r, s', db')"
  shows "shrinks cfg now s db s' db'" "av_consumed s' = av_consumed s" "ad_consumed db' = ad_consumed db"
proof -
  obtain n errs s1 db1 where R: "RevokeSessionsForUserExcept del_up order (us_id (fst (projr (update_check env salt input s db))))
      (ui_exceptSessionID input) s db = (n, errs, s1, db1)" by (metis prod_cases4)
  note r = revoke_shrinks [OF R]
  have "(shrinks cfg now s db s' db' \<and> av_consumed s' = av_consumed s \<and> ad_consumed db' = ad_consumed db)"
  proof (cases "update_check env salt input s db")
    case (Inl e)
    with assms show ?thesis by (simp add: UpdateUser_def update_commit_def shrinks_refl)
  next
    case (Inr uu)
    obtain u u' where uu: "uu = (u, u')" by fastforce
    from assms Inr uu R have
      "(s' = s \<and> ad_sessions db' = ad_sessions db \<and> ad_consumed db' = ad_consumed db) \<or>
       (s' = s1 \<and> ad_sessions db' = ad_sessions db1 \<and> ad_consumed db' = ad_consumed db1)"
      using store_user_tables by (auto simp: UpdateUser_def update_commit_def Let_def split: sum.splits if_splits)
    then show ?thesis
    proof
      assume "s' = s1 \<and> ad_sessions db' = ad_sessions db1 \<and> ad_consumed db' = ad_consumed db1"
      with r show ?thesis by (auto simp: shrinks_def)
    qed (simp add: shrinks_refl)
  qed
  then show "shrinks cfg now s db s' db'" "av_consumed s' = av_consumed s" "ad_consumed db' = ad_consumed db" by auto
qed

lemma ResetTotp_shrinks:
  assumes "ResetTotp up del_up order u s db = (r, s', db')"
  shows "shrinks cfg now s db s' db'" "av_consumed s' = av_consumed s" "ad_consumed db' = ad_consumed db"
proof -
  have "shrinks cfg now s db s' db' \<and> av_consumed s' = av_consumed s \<and> ad_consumed db' = ad_consumed db"
  proof (cases "load_user u db")
    case (Inl e)
    with assms show ?thesis by (simp add: ResetTotp_def shrinks_refl)
  next
    case (Inr user)
    obtain n errs s1 db1 where R: "RevokeSessionsForUserExcept del_up order (us_id user) [] s db = (n, errs, s1, db1)"
      by (metis prod_cases4)
    from assms Inr R have "av_sessions s' = av_sessions s1 \<and> av_consumed s' = av_consumed s1 \<and>
        av_maxLifetimeFn s' = av_maxLifetimeFn s1 \<and> av_idleTimeoutFn s' = av_idleTimeoutFn s1 \<and>
        ad_sessions db' = ad_sessions db1 \<and> ad_consumed db' = ad_consumed db1"
      using store_user_tables by (auto simp: ResetTotp_def RevokeSessionsForUser_def Let_def split: sum.splits if_splits)
    with revoke_shrinks [OF R] show ?thesis by (auto simp: shrinks_def wired_def)
  qed
  then show "shrinks cfg now s db s' db'" "av_consumed s' = av_consumed s" "ad_consumed db' = ad_consumed db" by auto
qed

lemma DeleteUser_shrinks:
  assumes "auth_DeleteUser up del_up order u s db = (err, s', db')"
  shows "shrinks cfg now s db s' db'" "av_consumed s' = av_consumed s" "ad_consumed db' = ad_consumed db"
proof -
  let ?s1 = "s\<lparr>av_pendingTotp := (av_pendingTotp s)(u := None)\<rparr>"
  have "shrinks cfg now s db s' db' \<and> av_consumed s' = av_consumed s \<and> ad_consumed db' = ad_consumed db"
  proof (cases "s' = s \<and> db' = db")
    case True
    then show ?thesis by (simp add: shrinks_refl)
  next
    case False
    then obtain user db1 where L: "load_user u db = Inr user" and D: "store_DeleteUser (us_id user) db = Inr db1"
      using assms by (auto simp: auth_DeleteUser_def split: sum.splits if_splits)
    obtain n errs s2 db2 where R: "RevokeSessionsForUserExcept del_up order u [] ?s1 db1 = (n, errs, s2, db2)"
      by (metis prod_cases4)
    have "s' = s2" "db' = db2"
      using assms L D R False by (auto simp: auth_DeleteUser_def RevokeSessionsForUser_def Let_def split: if_splits)
    moreover have "shrinks cfg now s db ?s1 db1" "ad_consumed db1 = ad_consumed db"
      using D by (auto simp: store_DeleteUser_def shrinks_def wired_def split: if_splits option.splits)
    ultimately show ?thesis
      using revoke_shrinks [OF R] shrinks_trans by auto
  qed
  then show "shrinks cfg now s db s' db'" "av_consumed s' = av_consumed s" "ad_consumed db' = ad_consumed db" by auto
qed

lemma EnableTotp_shrinks:
  assumes "EnableTotp env up u pw code now' s db = (r, s', db')"
  shows "shrinks cfg now s db s' db'" "av_consumed s' = av_consumed s" "ad_consumed db' = ad_consumed db"
  using assms store_user_tables
  by (auto simp: EnableTotp_def cleanupPendingTotpSetupLocked_def shrinks_def wired_def Let_def
      split: sum.splits if_splits option.splits prod.splits)

lemma verifyConsume_fields:
  assumes "verifyTotpAndConsumeLocked env user code now s = Inr s'"
  shows "av_sessions s' = av_sessions s" "wired cfg s' = wired cfg s" "av_startedAt s' = av_startedAt s"
    "av_consumed s' = (av_consumed s)((us_id user, TrimSpace code) \<mapsto> now)"
    "av_consumed s (us_id user, TrimSpace code) = None"
    "verifyTotpCode env s (us_totpSecret user) code now"
  using assms by (auto simp: verifyTotpAndConsumeLocked_def wired_def Let_def split: if_splits)

lemma DisableTotp_cases:
  assumes "DisableTotp env up u pw code now s db = (r, s', db')"
  shows "ad_sessions db' = ad_sessions db \<and> ad_consumed db' = ad_consumed db \<and>
    (s' = s \<or>
     (let s1 = cleanupExpiredSessionsLocked now s
      in av_sessions s' = av_sessions s1 \<and> wired cfg s' = wired cfg s1 \<and>
         (\<forall>k. av_consumed s' k = av_consumed s1 k \<or> av_consumed s' k = Some now)))"
proof -
  let ?s1 = "cleanupExpiredSessionsLocked now s"
  consider "s' = s" "db' = db" | "s' = ?s1" "db' = db"
    | user s2 where "verifyTotpAndConsumeLocked env user (TrimSpace code) now ?s1 = Inr s2"
        "s' = s2\<lparr>av_pendingTotp := (av_pendingTotp s2)(u := None)\<rparr>"
        "db' = db \<or> (\<exists>v. store_user up v db = Inr db')"
    using assms by (auto simp: DisableTotp_def Let_def split: sum.splits if_splits)
  then show ?thesis
  proof cases
    case 3
    have "ad_sessions db' = ad_sessions db \<and> ad_consumed db' = ad_consumed db"
      using 3(3) store_user_tables by metis
    with 3(2) verifyConsume_fields [OF 3(1)] show ?thesis by (auto simp: wired_def Let_def)
  qed (auto simp: Let_def)
qed

lemma DisableTotp_shrinks:
  assumes "DisableTotp env up u pw code now s db = (r, s', db')"
  shows "shrinks cfg now s db s' db'"
  using DisableTotp_cases [OF assms, of cfg] cleanup_shrinks [of cfg now s db]
  by (auto simp: shrinks_def Let_def)

lemma StartTotp_shrinks:
  assumes "StartTotpSetup secret u now' s db = (r, s')"
  shows "shrinks cfg now s db s' db" "av_consumed s' = av_consumed s"
  using assms by (auto simp: StartTotpSetup_def cleanupPendingTotpSetupLocked_def shrinks_def wired_def Let_def
      split: sum.splits)

end
