(* ===== verification/Auth_Preservation.thy ===== *)
theory Auth_Preservation
  imports Auth_Invariant
begin

section \<open>Every step keeps memory and store in agreement\<close>

lemma mem_ok_tick:
  assumes "mem_ok cfg now mem rows issued persisted" "now \<le> now'"
  shows "mem_ok cfg now' mem rows issued persisted"
proof (rule mem_okI)
  show "sn_createdAt x \<le> now'" if "mem i = Some x" for i x using mem_okD(1) [OF assms(1) that] assms(2) by simp
  show "sn_createdAt (restored_session r) \<le> now'" if "rows i = Some r" for i r
    using mem_okD(2) [OF assms(1) that] assms(2) by simp
  show "i \<in> il_id ` set persisted \<or> row_dead cfg now' r" if "rows i = Some r" "mem i = None" for i r
    using mem_okD(4) [OF assms(1) that] row_dead_mono [OF _ assms(2)] by blast
  show "login_ok now' mem l" if "l \<in> set (issued @ persisted)" for l
    using mem_okD(5) [OF assms(1) that] assms(2) by (simp add: login_ok_def)
qed (fact mem_okD [OF assms(1)])+

lemma login_issue_spec:
  assumes "login_issue env token input user now s = (Inr l, s')"
  shows "av_sessions s' = av_sessions s" "wired cfg s' = wired cfg s" "av_startedAt s' = av_startedAt s"
    "il_session l = \<lparr>sn_userID = us_id user, sn_createdAt = now, sn_lastSeenAt = now\<rparr>"
    "\<not> us_totpEnabled user \<Longrightarrow> s' = s"
    "us_totpEnabled user \<Longrightarrow> verifyTotpAndConsumeLocked env user (li_totpCode input) now s = Inr s'"
proof -
  obtain s1 where "(if us_totpEnabled user then verifyTotpAndConsumeLocked env user (li_totpCode input) now s else Inr s) = Inr s1"
    and "s' = s1" and "il_session l = \<lparr>sn_userID = us_id user, sn_createdAt = now, sn_lastSeenAt = now\<rparr>"
    using assms by (auto simp: login_issue_def Let_def split: sum.splits)
  then show "av_sessions s' = av_sessions s" "wired cfg s' = wired cfg s" "av_startedAt s' = av_startedAt s"
    "il_session l = \<lparr>sn_userID = us_id user, sn_createdAt = now, sn_lastSeenAt = now\<rparr>"
    "\<not> us_totpEnabled user \<Longrightarrow> s' = s"
    "us_totpEnabled user \<Longrightarrow> verifyTotpAndConsumeLocked env user (li_totpCode input) now s = Inr s'"
    using verifyConsume_fields(1-3) [of env user "li_totpCode input" now s s1] by (auto split: if_splits)
qed

lemma login_issue_timeouts:
  assumes "login_issue env token input user now s = (Inr l, s')"
  shows "effectiveSessionMaxLifetime s' = effectiveSessionMaxLifetime s \<and> effectiveSessionIdleTimeout s' = effectiveSessionIdleTimeout s"
  using login_issue_spec(2) [OF assms, of "\<lparr>rc_delay = 0, rc_lossy = False, rc_idle = av_idleTimeoutFn s, rc_max = av_maxLifetimeFn s\<rparr>"]
  by (simp add: wired_def effectiveSessionMaxLifetime_def effectiveSessionIdleTimeout_def)

lemma mem_ok_issue:
  assumes ok: "mem_ok cfg now mem rows issued persisted"
    and new: "il_id l \<noteq> []" "mem (il_id l) = None" "rows (il_id l) = None" "il_prior l \<noteq> il_id l"
      "\<And>m. m \<in> set (issued @ persisted) \<Longrightarrow> il_id m \<noteq> il_id l \<and> il_prior m \<noteq> il_id l \<and> il_prior l \<noteq> il_id m"
      "sn_createdAt (il_session l) \<le> now" "sn_lastSeenAt (il_session l) = sn_createdAt (il_session l)"
  shows "mem_ok cfg now mem rows (l # issued) persisted"
proof (rule mem_okI)
  show "login_ok now mem m" if "m \<in> set ((l # issued) @ persisted)" for m
    using mem_okD(5) [OF ok, of m] that new by (auto simp: login_ok_def)
  have "il_id l \<notin> set (map il_id (issued @ persisted))"
    using new(5) by (metis (no_types, lifting) image_iff list.set_map)
  moreover have "\<forall>m \<in> set (issued @ persisted). il_prior m \<noteq> il_id l \<and> il_prior l \<noteq> il_id m" using new(5) by blast
  ultimately show "logins_apart ((l # issued) @ persisted)"
    using mem_okD(6) [OF ok] new(4) by (simp add: logins_apart_def)
  show "rows (il_id m) = None" if "m \<in> set (l # issued)" for m using mem_okD(7) [OF ok, of m] new(3) that by auto
qed (fact mem_okD [OF ok])+

lemma distinct_sub_mset:
  assumes "mset xs \<subseteq># mset ys" "distinct ys"
  shows "distinct xs"
  unfolding distinct_count_atmost_1
proof
  fix a
  have "count (mset xs) a \<le> count (mset ys) a" using assms(1) by (rule mset_subset_eq_count)
  also have "\<dots> \<le> 1" using assms(2) by (simp add: distinct_count_atmost_1)
  finally show "count (mset xs) a = (if a \<in> set xs then 1 else 0)"
    by (metis One_nat_def count_mset_0_iff le_SucE le_zero_eq)
qed

lemma logins_apart_sub:
  assumes "mset ls' \<subseteq># mset ls" "logins_apart ls"
  shows "logins_apart ls'"
proof -
  have "mset (map il_id ls') \<subseteq># mset (map il_id ls)" using image_mset_subseteq_mono [OF assms(1)] by simp
  then have "distinct (map il_id ls')" by (rule distinct_sub_mset) (use assms(2) in \<open>simp add: logins_apart_def\<close>)
  moreover have "set ls' \<subseteq> set ls" using set_mset_mono [OF assms(1)] by simp
  ultimately show ?thesis using assms(2) by (auto simp: logins_apart_def)
qed

lemma persist_spec:
  assumes "persistAuthenticatedSession del_up put_up l db = (err, db')"
  shows "ad_consumed db' = ad_consumed db"
    "err = None \<Longrightarrow> ad_sessions db' (il_id l) = Some (row_of_session (il_session l))"
    "err = None \<Longrightarrow> il_prior l \<noteq> [] \<Longrightarrow> il_prior l \<noteq> il_id l \<Longrightarrow> ad_sessions db' (il_prior l) = None"
    "i \<noteq> il_id l \<or> err \<noteq> None \<Longrightarrow> ad_sessions db' i = None \<or> ad_sessions db' i = ad_sessions db i"
proof -
  obtain gone db1 where D: "(if il_prior l \<noteq> [] then delete_row del_up (il_prior l) db else (True, db)) = (gone, db1)"
    by fastforce
  have d: "ad_consumed db1 = ad_consumed db" "\<And>i. ad_sessions db1 i = None \<or> ad_sessions db1 i = ad_sessions db i"
    "gone \<Longrightarrow> il_prior l \<noteq> [] \<Longrightarrow> ad_sessions db1 (il_prior l) = None"
    using D delete_row_spec [of del_up "il_prior l" db gone db1] by (auto split: if_splits)
  show "ad_consumed db' = ad_consumed db"
    "err = None \<Longrightarrow> ad_sessions db' (il_id l) = Some (row_of_session (il_session l))"
    "err = None \<Longrightarrow> il_prior l \<noteq> [] \<Longrightarrow> il_prior l \<noteq> il_id l \<Longrightarrow> ad_sessions db' (il_prior l) = None"
    "i \<noteq> il_id l \<or> err \<noteq> None \<Longrightarrow> ad_sessions db' i = None \<or> ad_sessions db' i = ad_sessions db i"
    using assms D d(1,3) d(2) [of i] d(2) [of "il_prior l"]
    by (auto simp: persistAuthenticatedSession_def PutSession_def split: if_splits)
qed

lemma mem_ok_persist:
  assumes ok: "mem_ok cfg now mem rows issued persisted" and l: "l \<in> set issued"
    and new: "rows' (il_id l) = Some (row_of_session (il_session l))"
      "il_prior l \<noteq> [] \<Longrightarrow> rows' (il_prior l) = None"
    and other: "\<And>i. i \<noteq> il_id l \<Longrightarrow> rows' i = None \<or> rows' i = rows i"
  shows "mem_ok cfg now mem rows' (remove1 l issued) (l # persisted)"
proof -
  have lok: "login_ok now mem l" using mem_okD(5) [OF ok, of l] l by simp
  have within: "row_within (row_of_session (il_session l)) (il_session l)"
    using lok by (intro row_of_session_within) (simp add: login_ok_def)
  have rows: "rows i = Some r" if "rows' i = Some r" "i \<noteq> il_id l" for i r using other [OF that(2)] that(1) by auto
  have apart: "logins_apart (issued @ persisted)" by (rule mem_okD(6) [OF ok])
  have ids: "il_id m \<noteq> il_id l" if "m \<in> set persisted" for m
    using apart l that by (auto simp: logins_apart_def)
  have ids': "il_id m \<noteq> il_id l" if "m \<in> set (remove1 l issued)" for m
  proof -
    have "distinct (map il_id (remove1 l issued @ [l]))"
      by (rule distinct_sub_mset [of _ "map il_id issued"]) (use l apart in \<open>simp_all add: logins_apart_def image_mset_Diff\<close>)
    then have "il_id l \<notin> il_id ` set (remove1 l issued)" by simp
    with that show ?thesis by (metis image_eqI)
  qed
  show ?thesis
  proof (rule mem_okI)
    show "sn_createdAt (restored_session r) \<le> now" if "rows' i = Some r" for i r
    proof (cases "i = il_id l")
      case True
      with that new(1) within lok show ?thesis by (auto simp: row_within_def login_ok_def)
    qed (use mem_okD(2) [OF ok rows [OF that]] in blast)
    show "row_within r x" if "mem i = Some x" "rows' i = Some r" for i x r
    proof (cases "i = il_id l")
      case True
      with that lok show ?thesis by (simp add: login_ok_def)
    qed (use mem_okD(3) [OF ok that(1) rows [OF that(2)]] in blast)
    show "i \<in> il_id ` set (l # persisted) \<or> row_dead cfg now r" if "rows' i = Some r" "mem i = None" for i r
      using mem_okD(4) [OF ok rows [OF that(1)] that(2)] by auto
    show "login_ok now mem m" if "m \<in> set (remove1 l issued @ l # persisted)" for m
      using mem_okD(5) [OF ok, of m] that l set_remove1_subset [of l issued] by auto
    show "logins_apart (remove1 l issued @ l # persisted)"
      by (rule logins_apart_sub [OF _ apart]) (use l in simp)
    show "rows' (il_id m) = None" if "m \<in> set (remove1 l issued)" for m
      using other [OF ids' [OF that]] mem_okD(7) [OF ok, of m] that set_remove1_subset [of l issued] by auto
    show "rows' (il_prior m) = None" if "m \<in> set (l # persisted)" "il_prior m \<noteq> []" for m
    proof (cases "m = l")
      case False
      then have m: "m \<in> set persisted" using that by simp
      then have "il_prior m \<noteq> il_id l" using apart l by (auto simp: logins_apart_def)
      from other [OF this] mem_okD(8) [OF ok m that(2)] show ?thesis by auto
    qed (use new(2) that in simp)
    show "row_within r (il_session m)" if "m \<in> set (l # persisted)" "rows' (il_id m) = Some r" for m r
    proof (cases "il_id m = il_id l")
      case True
      with that ids [of m] have "m = l" by auto
      with that new(1) within show ?thesis by simp
    qed (use that mem_okD(9) [OF ok, of m] rows [of "il_id m" r] in auto)
  qed (fact mem_okD(1) [OF ok])
qed

lemma mem_ok_drop_issued:
  assumes ok: "mem_ok cfg now mem rows issued persisted"
  shows "mem_ok cfg now mem rows (remove1 l issued) persisted"
proof (rule mem_okI)
  show "login_ok now mem m" if "m \<in> set (remove1 l issued @ persisted)" for m
    using mem_okD(5) [OF ok, of m] that set_remove1_subset [of l issued] by auto
  show "logins_apart (remove1 l issued @ persisted)"
    by (rule logins_apart_sub [OF _ mem_okD(6) [OF ok]]) (simp add: subset_eq_diff_conv)
  show "rows (il_id m) = None" if "m \<in> set (remove1 l issued)" for m
    using mem_okD(7) [OF ok, of m] that set_remove1_subset [of l issued] by auto
qed (fact mem_okD [OF ok])+

lemma mem_ok_finish:
  assumes ok: "mem_ok cfg now mem rows issued persisted" and l: "l \<in> set persisted"
  shows "mem_ok cfg now ((if il_prior l \<noteq> [] then mem(il_prior l := None) else mem)(il_id l \<mapsto> il_session l))
    rows issued (remove1 l persisted)"
    (is "mem_ok _ _ ?mem _ _ _")
proof -
  have lok: "login_ok now mem l" using mem_okD(5) [OF ok, of l] l by simp
  have apart: "logins_apart (issued @ persisted)" by (rule mem_okD(6) [OF ok])
  have ids: "il_id m \<noteq> il_id l" if "m \<in> set issued \<or> m \<in> set (remove1 l persisted)" for m
  proof -
    have "distinct (map il_id ((issued @ remove1 l persisted) @ [l]))"
      by (rule distinct_sub_mset [of _ "map il_id (issued @ persisted)"])
        (use l apart in \<open>simp_all add: logins_apart_def image_mset_Diff\<close>)
    then have "il_id l \<notin> il_id ` set (issued @ remove1 l persisted)" by (simp add: image_Un)
    with that show ?thesis by (metis Un_iff image_eqI set_append)
  qed
  have mem: "?mem i = (if i = il_id l then Some (il_session l) else if il_prior l \<noteq> [] \<and> i = il_prior l then None else mem i)" for i
    by auto
  have sub: "set (remove1 l persisted) \<subseteq> set persisted" by (rule set_remove1_subset)
  show ?thesis
  proof (rule mem_okI)
    show "sn_createdAt x \<le> now" if "?mem i = Some x" for i x
      using that mem_okD(1) [OF ok, of i x] lok by (auto simp: login_ok_def split: if_splits)
    show "row_within r x" if "?mem i = Some x" "rows i = Some r" for i x r
      using that mem_okD(3) [OF ok, of i x r] mem_okD(9) [OF ok l, of r] by (auto split: if_splits)
    show "i \<in> il_id ` set (remove1 l persisted) \<or> row_dead cfg now r" if "rows i = Some r" "?mem i = None" for i r
    proof -
      have i: "i \<noteq> il_id l" "mem i = None"
        using that mem_okD(8) [OF ok l] by (auto split: if_splits)
      from mem_okD(4) [OF ok that(1) i(2)] show ?thesis
      proof
        assume "i \<in> il_id ` set persisted"
        then obtain m where "m \<in> set persisted" "i = il_id m" by auto
        with i(1) have "m \<in> set (remove1 l persisted)" by (metis in_set_remove1)
        with \<open>i = il_id m\<close> show ?thesis by blast
      qed simp
    qed
    show "login_ok now ?mem m" if "m \<in> set (issued @ remove1 l persisted)" for m
      using mem_okD(5) [OF ok, of m] that sub ids [of m] by (auto simp: login_ok_def)
    show "logins_apart (issued @ remove1 l persisted)"
      by (rule logins_apart_sub [OF _ apart]) (simp add: subset_eq_diff_conv)
    show "rows (il_prior m) = None" if "m \<in> set (remove1 l persisted)" "il_prior m \<noteq> []" for m
      using mem_okD(8) [OF ok _ that(2)] that(1) sub by blast
    show "row_within r (il_session m)" if "m \<in> set (remove1 l persisted)" "rows (il_id m) = Some r" for m r
      using mem_okD(9) [OF ok _ that(2)] that(1) sub by blast
  qed (fact mem_okD(2) [OF ok] mem_okD(7) [OF ok])+
qed

lemma mem_ok_touch:
  assumes ok: "mem_ok cfg now mem rows issued persisted" and x: "mem i = Some x"
    and rows: "rows' = rows \<or> (\<exists>r. rows i = Some r \<and> rows' = rows(i \<mapsto> r\<lparr>sr_last_seen_at_unix := toUnix now\<rparr>))"
    and old: "sn_lastSeenAt x \<le> now"
  shows "mem_ok cfg now (mem(i \<mapsto> x\<lparr>sn_lastSeenAt := now\<rparr>)) rows' issued persisted"
proof -
  have ni: "il_id m \<noteq> i" if "m \<in> set (issued @ persisted)" for m
    using mem_okD(5) [OF ok that] x by (auto simp: login_ok_def)
  have same: "rows' j = rows j" if "j \<noteq> i" for j using rows that by auto
  have none: "rows' j = None \<longleftrightarrow> rows j = None" for j using rows by (auto split: if_splits)
  have xc: "sn_createdAt x \<le> now" by (rule mem_okD(1) [OF ok x])
  have wi: "row_within r (x\<lparr>sn_lastSeenAt := now\<rparr>)" if "rows' i = Some r" for r
    using rows that mem_okD(3) [OF ok x] touched_within [OF _ xc] old by (auto simp: row_within_def)
  show ?thesis
  proof (rule mem_okI)
    show "sn_createdAt y \<le> now" if "(mem(i \<mapsto> x\<lparr>sn_lastSeenAt := now\<rparr>)) j = Some y" for j y
      using that mem_okD(1) [OF ok, of j y] xc by (auto split: if_splits)
    show "sn_createdAt (restored_session r) \<le> now" if "rows' j = Some r" for j r
      using rows that mem_okD(2) [OF ok] by (cases "j = i") (auto simp: restored_created)
    show "row_within r y" if "(mem(i \<mapsto> x\<lparr>sn_lastSeenAt := now\<rparr>)) j = Some y" "rows' j = Some r" for j y r
      using that wi mem_okD(3) [OF ok, of j y r] same [of j] by (auto split: if_splits)
    show "j \<in> il_id ` set persisted \<or> row_dead cfg now r"
      if "rows' j = Some r" "(mem(i \<mapsto> x\<lparr>sn_lastSeenAt := now\<rparr>)) j = None" for j r
      using that mem_okD(4) [OF ok, of j r] same [of j] by (auto split: if_splits)
    show "login_ok now (mem(i \<mapsto> x\<lparr>sn_lastSeenAt := now\<rparr>)) m" if "m \<in> set (issued @ persisted)" for m
      using mem_okD(5) [OF ok that] ni [OF that] by (auto simp: login_ok_def)
    show "rows' (il_id m) = None" if "m \<in> set issued" for m
      using mem_okD(7) [OF ok that] none by simp
    show "rows' (il_prior m) = None" if "m \<in> set persisted" "il_prior m \<noteq> []" for m
      using mem_okD(8) [OF ok that] none by simp
    show "row_within r (il_session m)" if "m \<in> set persisted" "rows' (il_id m) = Some r" for m r
      using mem_okD(9) [OF ok that(1)] that same [of "il_id m"] ni [of m] by auto
  qed (fact mem_okD(6) [OF ok])
qed

lemma boot_spec:
  assumes "boot cfg now db = (s, db')"
  shows "wired cfg s"
    "av_sessions s = (\<lambda>i. case ad_sessions db i of
       Some r \<Rightarrow> if fromUnix (sr_created_at_unix r) < now - sessionMaxLifetime then None else Some (restored_session r)
     | None \<Rightarrow> None)"
    "ad_sessions db' i = None \<or> ad_sessions db' i = ad_sessions db i"
    "ad_users db' = ad_users db" "av_startedAt s = now"
    "av_consumed s = (\<lambda>k. case ad_consumed db' k of
       Some t \<Rightarrow> if fromUnix t < now - totpWindow then None else Some (fromUnix t) | None \<Rightarrow> None)"
    "ad_consumed db' = (\<lambda>k. case ad_consumed db k of
       Some t \<Rightarrow> if t < toUnix (now - totpWindow) then None else Some t | None \<Rightarrow> None)"
  using assms
  by (auto simp: boot_def RestoreSessions_def restoreConsumedTotp_def installRestoredSessions_def DeleteExpiredSessions_def
      DeleteExpiredConsumedTotp_def NewServiceWithStore_def SetNow_def SetSessionTimeoutFns_def wired_def
      effectiveSessionMaxLifetime_def session_of_row_def Let_def split: option.splits intro!: ext)

lemma mem_ok_boot:
  assumes ok: "\<And>i r. ad_sessions db i = Some r \<Longrightarrow> sn_createdAt (restored_session r) \<le> now"
    and B: "boot cfg now db = (s, db')"
  shows "mem_ok cfg now (av_sessions s) (ad_sessions db') [] []"
proof -
  have rows: "ad_sessions db i = Some r" if "ad_sessions db' i = Some r" for i r
    using boot_spec(3) [OF B, of i] that by auto
  show ?thesis
  proof (rule mem_okI)
    show "sn_createdAt x \<le> now" if "av_sessions s i = Some x" for i x
      using that ok by (auto simp: boot_spec(2) [OF B] split: option.splits if_splits)
    show "row_within r x" if "av_sessions s i = Some x" "ad_sessions db' i = Some r" for i x r
      using that rows [OF that(2)] by (auto simp: boot_spec(2) [OF B] row_within_def split: if_splits)
    show "i \<in> il_id ` set [] \<or> row_dead cfg now r" if "ad_sessions db' i = Some r" "av_sessions s i = None" for i r
      using that rows [OF that(1)] by (auto simp: boot_spec(2) [OF B] row_dead_def restored_created split: if_splits)
    show "sn_createdAt (restored_session r) \<le> now" if "ad_sessions db' i = Some r" for i r
      by (rule ok [OF rows [OF that]])
  qed (auto simp: logins_apart_def)
qed

lemma boot_system_fields:
  assumes "boot cfg now db = (s, db')"
  shows "ay_service (boot_system cfg now acc db) = s" "ay_db (boot_system cfg now acc db) = db'"
    "ay_clock (boot_system cfg now acc db) = now" "ay_verified (boot_system cfg now acc db) = []"
    "ay_issued (boot_system cfg now acc db) = []" "ay_persisted (boot_system cfg now acc db) = []"
    "ay_writes (boot_system cfg now acc db) = []" "ay_accepted (boot_system cfg now acc db) = acc"
  using assms by (simp_all add: boot_system_def)

lemma sessions_ok_boot:
  assumes "\<And>i r. ad_sessions db i = Some r \<Longrightarrow> sn_createdAt (restored_session r) \<le> now"
  shows "sessions_ok cfg (boot_system cfg now acc db)"
proof -
  obtain s db' where B: "boot cfg now db = (s, db')" by fastforce
  show ?thesis using mem_ok_boot [OF assms B] boot_spec(1) [OF B] by (simp add: sessions_ok_def boot_system_fields [OF B])
qed

lemma sessions_ok_plain:
  assumes "sessions_ok cfg y" "ad_sessions (ay_db y') = ad_sessions (ay_db y)" "ay_service y' = ay_service y"
    "ay_clock y' = ay_clock y" "ay_issued y' = ay_issued y" "ay_persisted y' = ay_persisted y"
  shows "sessions_ok cfg y'"
  using assms by (simp add: sessions_ok_def)

definition verified_ok :: "auth_system \<Rightarrow> bool" where
  "verified_ok y \<longleftrightarrow> (\<forall>v \<in> set (ay_verified y). vl_now v \<le> ay_clock y)"

definition auth_inv :: "run_config \<Rightarrow> auth_system \<Rightarrow> bool" where
  "auth_inv cfg y \<longleftrightarrow> sessions_ok cfg y \<and> verified_ok y"

lemma Touch_cases:
  assumes "TouchSession now up i s db = (s', db')"
  shows "(s' = s \<and> db' = db) \<or>
    (\<exists>x. av_sessions s i = Some x \<and> sn_lastSeenAt x \<le> now \<and>
       s' = s\<lparr>av_sessions := (av_sessions s)(i \<mapsto> x\<lparr>sn_lastSeenAt := now\<rparr>)\<rparr> \<and> ad_consumed db' = ad_consumed db \<and>
       (ad_sessions db' = ad_sessions db \<or>
        (\<exists>r. ad_sessions db i = Some r \<and>
           ad_sessions db' = (ad_sessions db)(i \<mapsto> r\<lparr>sr_last_seen_at_unix := toUnix now\<rparr>))))"
proof -
  have pos: "sn_lastSeenAt x \<le> now" if "\<not> time_sub now (sn_lastSeenAt x) < sessionTouchThrottle" for x
    using that by (auto simp: time_sub_def sessionTouchThrottle_def minute_ns_def second_ns_def min_duration_def max_duration_def)
  show ?thesis
    using assms pos
    by (auto simp: TouchSession_def store_TouchSession_def split: if_splits option.splits sum.splits)
qed

lemma sessions_ok_touch:
  assumes ok: "sessions_ok cfg y" and T: "TouchSession (ay_clock y) up i (ay_service y) (ay_db y) = (s, db)"
  shows "sessions_ok cfg (update_state s db y)"
  using Touch_cases [OF T]
proof
  assume "s = ay_service y \<and> db = ay_db y"
  with ok show ?thesis by (simp add: sessions_ok_def update_state_def)
next
  assume "\<exists>x. av_sessions (ay_service y) i = Some x \<and> sn_lastSeenAt x \<le> ay_clock y \<and>
       s = (ay_service y)\<lparr>av_sessions := (av_sessions (ay_service y))(i \<mapsto> x\<lparr>sn_lastSeenAt := ay_clock y\<rparr>)\<rparr> \<and>
       ad_consumed db = ad_consumed (ay_db y) \<and>
       (ad_sessions db = ad_sessions (ay_db y) \<or>
        (\<exists>r. ad_sessions (ay_db y) i = Some r \<and>
           ad_sessions db = (ad_sessions (ay_db y))(i \<mapsto> r\<lparr>sr_last_seen_at_unix := toUnix (ay_clock y)\<rparr>)))"
  then show ?thesis
    using ok mem_ok_touch [of cfg "ay_clock y" "av_sessions (ay_service y)" "ad_sessions (ay_db y)" "ay_issued y" "ay_persisted y"]
    by (auto simp: sessions_ok_def update_state_def wired_def)
qed

lemma sessions_ok_issue:
  assumes ok: "sessions_ok cfg y" and I: "login_issue env token input user now (ay_service y) = (Inr l, s)"
    and f: "fresh_login l y" and now: "now \<le> ay_clock y"
    and y': "ay_service y' = s" "ay_db y' = ay_db y" "ay_clock y' = ay_clock y" "ay_issued y' = l # ay_issued y"
      "ay_persisted y' = ay_persisted y"
  shows "sessions_ok cfg y'"
proof -
  note i = login_issue_spec [OF I]
  have "mem_ok cfg (ay_clock y) (av_sessions (ay_service y)) (ad_sessions (ay_db y)) (l # ay_issued y) (ay_persisted y)"
    using ok f now i(4) by (intro mem_ok_issue) (auto simp: sessions_ok_def fresh_login_def in_flight_def list_all_iff)
  with ok i(1,2) y' show ?thesis by (simp add: sessions_ok_def)
qed

lemma sessions_ok_persist:
  assumes ok: "sessions_ok cfg y" and l: "l \<in> set (ay_issued y)"
    and P: "persistAuthenticatedSession del_up put_up l (ay_db y) = (None, db)"
  shows "sessions_ok cfg (y\<lparr>ay_db := db, ay_issued := remove1 l (ay_issued y), ay_persisted := l # ay_persisted y\<rparr>)"
proof -
  note p = persist_spec [OF P]
  have m: "mem_ok cfg (ay_clock y) (av_sessions (ay_service y)) (ad_sessions (ay_db y)) (ay_issued y) (ay_persisted y)"
    using ok by (simp add: sessions_ok_def)
  have "il_prior l \<noteq> il_id l" using mem_okD(6) [OF m] l by (auto simp: logins_apart_def)
  then show ?thesis
    using ok mem_ok_persist [OF m l, of "ad_sessions db"] p by (simp add: sessions_ok_def)
qed

lemma sessions_ok_persist_failed:
  assumes ok: "sessions_ok cfg y" and P: "persistAuthenticatedSession del_up put_up l (ay_db y) = (Some err, db)"
  shows "sessions_ok cfg (y\<lparr>ay_db := db, ay_issued := remove1 l (ay_issued y)\<rparr>)"
proof -
  have "shrinks cfg (ay_clock y) (ay_service y) (ay_db y) (ay_service y) db"
    using persist_spec(4) [OF P] by (auto simp: shrinks_def)
  with ok mem_ok_drop_issued mem_ok_shrink show ?thesis unfolding sessions_ok_def by fastforce
qed

lemma sessions_ok_tick: "sessions_ok cfg y \<Longrightarrow> ay_clock y \<le> now \<Longrightarrow> sessions_ok cfg (y\<lparr>ay_clock := now\<rparr>)"
  unfolding sessions_ok_def by (auto intro: mem_ok_tick)

lemma sessions_ok_finish:
  assumes "sessions_ok cfg y" "l \<in> set (ay_persisted y)"
  shows "sessions_ok cfg (y\<lparr>ay_service := login_finish l (ay_service y), ay_persisted := remove1 l (ay_persisted y)\<rparr>)"
  using assms mem_ok_finish [OF _ assms(2)] by (auto simp: sessions_ok_def login_finish_def wired_def)

lemma sessions_ok_restart:
  assumes "sessions_ok cfg y" "ay_clock y \<le> now"
  shows "sessions_ok cfg (boot_system cfg now acc (ay_db y))"
proof (rule sessions_ok_boot)
  fix i r assume "ad_sessions (ay_db y) i = Some r"
  with assms show "sn_createdAt (restored_session r) \<le> now"
    using mem_okD(2) unfolding sessions_ok_def by fastforce
qed

text \<open>
  The kinds of step, as far as sessions, rows and logins in flight go: most operations only
  remove sessions and rows; the others are the stages of a login, a touch, the passing of time and
  a restart.
\<close>

definition removal_step :: "run_config \<Rightarrow> auth_system \<Rightarrow> auth_system \<Rightarrow> bool" where
  "removal_step cfg y y' \<longleftrightarrow>
     shrinks cfg (ay_clock y) (ay_service y) (ay_db y) (ay_service y') (ay_db y') \<and> ay_clock y' = ay_clock y \<and>
     ay_issued y' = ay_issued y \<and> ay_persisted y' = ay_persisted y \<and> set (ay_verified y') \<subseteq> set (ay_verified y)"

lemma removal_stepI:
  assumes "shrinks cfg (ay_clock y) (ay_service y) (ay_db y) s db"
    and "ay_service y' = s" "ay_db y' = db" "ay_clock y' = ay_clock y" "ay_issued y' = ay_issued y"
      "ay_persisted y' = ay_persisted y" "set (ay_verified y') \<subseteq> set (ay_verified y)"
  shows "removal_step cfg y y'"
  using assms by (simp add: removal_step_def)

lemma auth_step_kinds:
  assumes "auth_step env cfg a y y'"
  obtains (removal) "removal_step cfg y y'"
  | (tick) now where "ay_clock y \<le> now" "y' = y\<lparr>ay_clock := now\<rparr>"
  | (verify) v db where "a = Some (us_id (vl_user v))" "vl_now v = ay_clock y"
      "ad_sessions db = ad_sessions (ay_db y)" "y' = y\<lparr>ay_db := db, ay_verified := v # ay_verified y\<rparr>"
  | (issue) v token l s where "v \<in> set (ay_verified y)" "fresh_login l y"
      "login_issue env token (vl_input v) (vl_user v) (vl_now v) (ay_service y) = (Inr l, s)"
      "ay_service y' = s" "ay_db y' = ay_db y" "ay_clock y' = ay_clock y" "ay_issued y' = l # ay_issued y"
      "ay_persisted y' = ay_persisted y" "set (ay_verified y') \<subseteq> set (ay_verified y)"
  | (persist) l del_up put_up db where "l \<in> set (ay_issued y)"
      "persistAuthenticatedSession del_up put_up l (ay_db y) = (None, db)"
      "y' = y\<lparr>ay_db := db, ay_issued := remove1 l (ay_issued y), ay_persisted := l # ay_persisted y\<rparr>"
  | (failed) l del_up put_up err db where "l \<in> set (ay_issued y)"
      "persistAuthenticatedSession del_up put_up l (ay_db y) = (Some err, db)"
      "y' = y\<lparr>ay_db := db, ay_issued := remove1 l (ay_issued y)\<rparr>"
  | (finish) l where "l \<in> set (ay_persisted y)"
      "y' = y\<lparr>ay_service := login_finish l (ay_service y), ay_persisted := remove1 l (ay_persisted y)\<rparr>"
  | (touch) up i x s db where "fst (GetSession (ay_clock y) i (ay_service y)) = Inr x"
      "TouchSession (ay_clock y) up i (ay_service y) (ay_db y) = (s, db)" "y' = update_state s db y"
  | (restart) now where "ay_clock y \<le> now" "y' = boot_system cfg now (ay_accepted y) (ay_db y)"
proof -
  note r = removal removal_stepI
  from assms show thesis
  proof cases
    case step_tick then show ?thesis using tick by blast
  next
    case (step_verify up salt input user db)
    show ?thesis
      by (rule verify [of "\<lparr>vl_user = user, vl_input = input, vl_now = ay_clock y\<rparr>" db])
        (use step_verify login_verify_tables [OF step_verify(3)] in simp_all)
  next
    case (step_reject up salt input err db)
    show ?thesis by (rule removal, rule removal_stepI [OF shrinks_refl])
      (use step_reject login_verify_tables [OF step_reject(3)] in simp_all)
  next
    case (step_issue v token l s)
    show ?thesis
      by (rule issue [OF step_issue(3,6,5)]) (use step_issue set_remove1_subset in \<open>simp_all add: Let_def\<close>)
  next
    case (step_abandon v)
    show ?thesis by (rule removal, rule removal_stepI [OF shrinks_refl]) (use step_abandon in \<open>auto dest: set_mp [OF set_remove1_subset]\<close>)
  next
    case (step_persist l del_up put_up db) then show ?thesis using persist by blast
  next
    case (step_persist_failed l del_up put_up err db) then show ?thesis using failed by blast
  next
    case (step_finish l) then show ?thesis using finish by blast
  next
    case (step_write u c t ws)
    show ?thesis by (rule removal, rule removal_stepI [OF shrinks_refl]) (use step_write in \<open>auto simp: UpsertConsumedTotp_def\<close>)
  next
    case (step_get i r s) then show ?thesis by (intro r) (auto intro: GetSession_shrinks)
  next
    case (step_touch i x up s db) then show ?thesis using touch by blast
  next
    case step_cleanup then show ?thesis by (intro r) (auto intro: cleanup_shrinks)
  next
    case (step_logout up i err s db) then show ?thesis by (intro r) (auto simp: update_state_def intro: Logout_shrinks)
  next
    case (step_revoke order del_up u ex n errs s db)
    then show ?thesis by (intro r) (auto simp: update_state_def intro: revoke_shrinks(1))
  next
    case (step_update order up del_up salt input r' s db)
    then show ?thesis by (intro r) (auto simp: update_state_def intro: UpdateUser_shrinks(1))
  next
    case (step_delete order up del_up u err s db)
    then show ?thesis by (intro r) (auto simp: update_state_def intro: DeleteUser_shrinks(1))
  next
    case (step_create up salt fresh name pw role now u db)
    show ?thesis by (rule removal, rule removal_stepI [OF shrinks_refl])
      (use step_create CreateUser_tables [OF step_create(3)] in auto)
  next
    case (step_start_totp secret u now r' s)
    then show ?thesis by (intro r) (auto intro: StartTotp_shrinks(1))
  next
    case (step_enable_totp up u pw code r' s db)
    then show ?thesis by (intro r) (auto simp: update_state_def intro: EnableTotp_shrinks(1))
  next
    case (step_disable_totp up u pw code r' s db)
    then show ?thesis by (intro r) (auto simp: update_state_def intro: DisableTotp_shrinks)
  next
    case (step_reset_totp order up del_up u r' s db)
    then show ?thesis by (intro r) (auto simp: update_state_def intro: ResetTotp_shrinks(1))
  next
    case (step_restart now) then show ?thesis using restart by blast
  qed
qed

lemma sessions_ok_step:
  assumes "auth_step env cfg a y y'" "auth_inv cfg y"
  shows "sessions_ok cfg y'"
proof -
  have ok: "sessions_ok cfg y" and ver: "verified_ok y" using assms(2) by (simp_all add: auth_inv_def)
  from assms(1) show ?thesis
  proof (cases rule: auth_step_kinds)
    case removal
    then show ?thesis unfolding removal_step_def by (intro sessions_ok_shrink [OF ok]) auto
  next
    case (issue v token l s)
    then show ?thesis using sessions_ok_issue [OF ok issue(3,2)] ver by (simp add: verified_ok_def)
  next
    case (verify v db)
    with ok show ?thesis by (auto intro: sessions_ok_plain)
  qed (use ok in \<open>simp_all add: sessions_ok_tick sessions_ok_finish sessions_ok_touch sessions_ok_persist
         sessions_ok_persist_failed sessions_ok_restart\<close>)
qed

lemma verified_ok_step: "auth_step env cfg a y y' \<Longrightarrow> verified_ok y \<Longrightarrow> verified_ok y'"
  by (induction rule: auth_step.cases)
    (auto simp: verified_ok_def update_state_def Let_def boot_system_def split: prod.splits dest: set_mp [OF set_remove1_subset])

lemma auth_run_inv: "auth_run env cfg y \<Longrightarrow> auth_inv cfg y"
proof (induction rule: auth_run.induct)
  case (run_boot db now)
  have "sessions_ok cfg (boot_system cfg now [] db)"
    by (rule sessions_ok_boot) (use run_boot in \<open>simp add: empty_tables_def\<close>)
  moreover have "verified_ok (boot_system cfg now [] db)"
    by (simp add: verified_ok_def boot_system_def split: prod.splits)
  ultimately show ?case by (simp add: auth_inv_def)
next
  case (run_step y a y')
  then show ?case using sessions_ok_step verified_ok_step by (fastforce simp: auth_inv_def)
qed

end
