(* ===== verification/Auth_Revocation.thy ===== *)
theory Auth_Revocation
  imports Auth_Preservation
begin

section \<open>Revoked sessions stay revoked\<close>

text \<open>
  A session the configured timeouts have ended, and the state in which a user has no
  usable session, no row that comes back as one and no login under way.
\<close>

definition session_dead :: "run_config \<Rightarrow> gotime \<Rightarrow> session_record \<Rightarrow> bool" where
  "session_dead cfg now x \<longleftrightarrow> now > sn_createdAt x + max_of cfg \<or> now > sn_lastSeenAt x + idle_of cfg"

definition out :: "run_config \<Rightarrow> string \<Rightarrow> auth_system \<Rightarrow> bool" where
  "out cfg u y \<longleftrightarrow>
     (\<forall>v \<in> set (ay_verified y). us_id (vl_user v) \<noteq> u) \<and> (\<forall>l \<in> set (in_flight y). sn_userID (il_session l) \<noteq> u) \<and>
     (\<forall>i x. av_sessions (ay_service y) i = Some x \<longrightarrow> sn_userID x = u \<longrightarrow> session_dead cfg (ay_clock y) x) \<and>
     (\<forall>i r. ad_sessions (ay_db y) i = Some r \<longrightarrow> sr_user_id r = u \<longrightarrow> row_dead cfg (ay_clock y) r)"

lemma outD:
  assumes "out cfg u y"
  shows "v \<in> set (ay_verified y) \<Longrightarrow> us_id (vl_user v) \<noteq> u"
    and "l \<in> set (in_flight y) \<Longrightarrow> sn_userID (il_session l) \<noteq> u"
    and "av_sessions (ay_service y) i = Some x \<Longrightarrow> sn_userID x = u \<Longrightarrow> session_dead cfg (ay_clock y) x"
    and "ad_sessions (ay_db y) i = Some r \<Longrightarrow> sr_user_id r = u \<Longrightarrow> row_dead cfg (ay_clock y) r"
  using assms unfolding out_def by blast+

lemma outI:
  assumes "\<And>v. v \<in> set (ay_verified y) \<Longrightarrow> us_id (vl_user v) \<noteq> u"
    and "\<And>l. l \<in> set (in_flight y) \<Longrightarrow> sn_userID (il_session l) \<noteq> u"
    and "\<And>i x. av_sessions (ay_service y) i = Some x \<Longrightarrow> sn_userID x = u \<Longrightarrow> session_dead cfg (ay_clock y) x"
    and "\<And>i r. ad_sessions (ay_db y) i = Some r \<Longrightarrow> sr_user_id r = u \<Longrightarrow> row_dead cfg (ay_clock y) r"
  shows "out cfg u y"
  using assms unfolding out_def by blast

lemma session_dead_expired: "wired cfg s \<Longrightarrow> session_expired now s x = session_dead cfg now x"
  by (simp add: session_expired_def session_dead_def wired_effective)

lemma session_dead_mono: "session_dead cfg now x \<Longrightarrow> now \<le> now' \<Longrightarrow> session_dead cfg now' x"
  by (auto simp: session_dead_def)

text \<open>It is enough that nothing new of the user appears.\<close>

lemma out_sub:
  assumes "out cfg u y" "ay_clock y \<le> ay_clock y'"
    and "\<And>v. v \<in> set (ay_verified y') \<Longrightarrow> us_id (vl_user v) = u \<Longrightarrow> v \<in> set (ay_verified y)"
    and "\<And>l. l \<in> set (in_flight y') \<Longrightarrow> sn_userID (il_session l) = u \<Longrightarrow> l \<in> set (in_flight y)"
    and "\<And>i x. av_sessions (ay_service y') i = Some x \<Longrightarrow> sn_userID x = u \<Longrightarrow> av_sessions (ay_service y) i = Some x"
    and "\<And>i r. ad_sessions (ay_db y') i = Some r \<Longrightarrow> sr_user_id r = u \<Longrightarrow> ad_sessions (ay_db y) i = Some r"
  shows "out cfg u y'"
  by (rule outI) (use outD [OF assms(1)] assms(3-6) session_dead_mono [OF _ assms(2)] row_dead_mono [OF _ assms(2)] in blast)+

lemma out_removal:
  assumes "removal_step cfg y y'" "out cfg u y"
  shows "out cfg u y'"
proof -
  have sh: "shrinks cfg (ay_clock y) (ay_service y) (ay_db y) (ay_service y') (ay_db y')"
    and same: "ay_clock y' = ay_clock y" "in_flight y' = in_flight y" "set (ay_verified y') \<subseteq> set (ay_verified y)"
    using assms(1) by (auto simp: removal_step_def in_flight_def)
  show ?thesis
    by (rule out_sub [OF assms(2)]) (use sh same in \<open>auto simp: shrinks_def, (metis option.distinct(1))+\<close>)
qed

lemma out_touch:
  assumes "out cfg u y" "sessions_ok cfg y" and G: "fst (GetSession (ay_clock y) i (ay_service y)) = Inr x"
    and T: "TouchSession (ay_clock y) up i (ay_service y) (ay_db y) = (s, db)"
  shows "out cfg u (update_state s db y)"
proof -
  have wired: "wired cfg (ay_service y)"
    and m: "mem_ok cfg (ay_clock y) (av_sessions (ay_service y)) (ad_sessions (ay_db y)) (ay_issued y) (ay_persisted y)"
    using assms(2) by (simp_all add: sessions_ok_def)
  have x: "av_sessions (ay_service y) i = Some x" "\<not> session_dead cfg (ay_clock y) x"
    using G session_dead_expired [OF wired] by (auto simp: GetSession_def split: option.splits if_splits)
  have other: "sn_userID x \<noteq> u" using outD(3) [OF assms(1) x(1)] x(2) by blast
  have row: "sr_user_id r \<noteq> u" if "ad_sessions (ay_db y) i = Some r" for r
    using mem_okD(3) [OF m x(1) that] other by (simp add: row_within_def)
  show ?thesis
    by (rule out_sub [OF assms(1)])
      (use Touch_cases [OF T] x(1) other row in \<open>auto simp: update_state_def in_flight_def split: if_splits\<close>)
qed

lemma out_restart:
  assumes "out cfg u y" "ay_clock y \<le> now"
  shows "out cfg u (boot_system cfg now acc (ay_db y))"
proof -
  obtain s db where B: "boot cfg now (ay_db y) = (s, db)" by fastforce
  note b = boot_spec [OF B] and f = boot_system_fields [OF B]
  have dead: "row_dead cfg now r" if "ad_sessions (ay_db y) i = Some r" "sr_user_id r = u" for i r
    using row_dead_mono [OF outD(4) [OF assms(1) that] assms(2)] .
  show ?thesis
  proof (rule outI)
    fix i x assume "av_sessions (ay_service (boot_system cfg now acc (ay_db y))) i = Some x" "sn_userID x = u"
    then obtain r where "ad_sessions (ay_db y) i = Some r" "x = restored_session r"
      and "\<not> sn_createdAt x < now - sessionMaxLifetime"
      by (auto simp: f b(2) restored_created split: option.splits if_splits)
    with dead \<open>sn_userID x = u\<close> show "session_dead cfg (ay_clock (boot_system cfg now acc (ay_db y))) x"
      by (fastforce simp: f row_dead_def session_dead_def)
  next
    fix i r assume "ad_sessions (ay_db (boot_system cfg now acc (ay_db y))) i = Some r" "sr_user_id r = u"
    then show "row_dead cfg (ay_clock (boot_system cfg now acc (ay_db y))) r"
      using dead b(3) [of i] by (auto simp: f)
  qed (simp_all add: f in_flight_def)
qed

lemma out_persist:
  assumes "out cfg u y" "l \<in> set (ay_issued y)" "persistAuthenticatedSession del_up put_up l (ay_db y) = (err, db)"
    and "ay_db y' = db" "ay_service y' = ay_service y" "ay_clock y' = ay_clock y" "ay_verified y' = ay_verified y"
    and "set (in_flight y') \<subseteq> set (in_flight y)"
  shows "out cfg u y'"
proof (rule out_sub [OF assms(1)])
  fix i r assume r: "ad_sessions (ay_db y') i = Some r" "sr_user_id r = u"
  have l: "sn_userID (il_session l) \<noteq> u" using assms(2) outD(2) [OF assms(1)] by (simp add: in_flight_def)
  then have "sr_user_id (row_of_session (il_session l)) \<noteq> u" by (simp add: row_of_session_def Let_def)
  then have "i \<noteq> il_id l \<or> err \<noteq> None" using r persist_spec(2) [OF assms(3)] assms(4) by (cases err) auto
  then show "ad_sessions (ay_db y) i = Some r" using r(1) persist_spec(4) [OF assms(3), of i] assms(4) by auto
qed (use assms(5-8) in auto)

lemma out_step:
  assumes "auth_step env cfg a y y'" "sessions_ok cfg y" "out cfg u y" "a \<noteq> Some u"
  shows "out cfg u y'"
  using assms(1)
proof (cases rule: auth_step_kinds)
  case removal then show ?thesis using out_removal assms(3) by blast
next
  case (tick now)
  then show ?thesis by (intro out_sub [OF assms(3)]) (auto simp: in_flight_def)
next
  case (verify v db)
  then show ?thesis using assms(4) by (intro out_sub [OF assms(3)]) (auto simp: in_flight_def)
next
  case (issue v token l s)
  have "sn_userID (il_session l) \<noteq> u" using outD(1) [OF assms(3) issue(1)] login_issue_spec(4) [OF issue(3)] by simp
  with issue show ?thesis using login_issue_spec(1) [OF issue(3)]
    by (intro out_sub [OF assms(3)]) (auto simp: in_flight_def)
next
  case (persist l del_up put_up db)
  then show ?thesis
    by (intro out_persist [OF assms(3) persist(1,2)]) (auto simp: in_flight_def dest: set_mp [OF set_remove1_subset])
next
  case (failed l del_up put_up err db)
  then show ?thesis
    by (intro out_persist [OF assms(3) failed(1,2)]) (auto simp: in_flight_def dest: set_mp [OF set_remove1_subset])
next
  case (finish l)
  have "sn_userID (il_session l) \<noteq> u" using outD(2) [OF assms(3), of l] finish(1) by (simp add: in_flight_def)
  with finish show ?thesis
    by (intro out_sub [OF assms(3)])
      (auto simp: in_flight_def login_finish_def split: if_splits dest: set_mp [OF set_remove1_subset])
next
  case (touch up i x s db)
  then show ?thesis using out_touch [OF assms(3,2)] by simp
next
  case (restart now)
  then show ?thesis using out_restart [OF assms(3)] by simp
qed

lemma out_run:
  assumes "run_without env cfg u y z" "out cfg u y" "auth_inv cfg y"
  shows "out cfg u z \<and> auth_inv cfg z"
  using assms
proof (induction rule: run_without.induct)
  case (without_step y' a y'')
  then show ?case
    using out_step [of env cfg a y' y'' u] sessions_ok_step [of env cfg a y' y''] verified_ok_step [of env cfg a y' y'']
    by (auto simp: auth_inv_def)
qed simp

lemma out_no_session:
  assumes "out cfg u y" "auth_inv cfg y" "fst (GetSession (ay_clock y) i (ay_service y)) = Inr x"
  shows "sn_userID x \<noteq> u"
  using assms outD(3) [OF assms(1), of i x] session_dead_expired [of cfg "ay_service y"]
  by (auto simp: GetSession_def auth_inv_def sessions_ok_def split: option.splits if_splits)

lemma revoke_out:
  assumes inv: "auth_inv cfg y" and order: "range_order (av_sessions (ay_service y)) order" and u: "TrimSpace u \<noteq> []"
    and idle: "list_all (\<lambda>v. us_id (vl_user v) \<noteq> u) (ay_verified y)"
      "list_all (\<lambda>l. sn_userID (il_session l) \<noteq> u) (in_flight y)"
    and R: "RevokeSessionsForUser del_up order u (ay_service y) (ay_db y) = (n, [], s, db)"
  shows "out cfg u (update_state s db y)"
proof -
  have m: "mem_ok cfg (ay_clock y) (av_sessions (ay_service y)) (ad_sessions (ay_db y)) (ay_issued y) (ay_persisted y)"
    using inv by (simp add: auth_inv_def sessions_ok_def)
  let ?c = "revoke_candidates order u [] (ay_service y)"
  have c: "set ?c = {i. \<exists>x. av_sessions (ay_service y) i = Some x \<and> sn_userID x = u}"
    using range_order_set [OF order] by (auto simp: revoke_candidates_def split: option.splits)
  obtain deleted where D: "delete_rows del_up ?c (ay_db y) = (deleted, [], db)"
    and s: "av_sessions s = (\<lambda>i. if i \<in> set deleted then None else av_sessions (ay_service y) i)"
    using R u by (auto simp: RevokeSessionsForUser_def RevokeSessionsForUserExcept_def Let_def split: prod.splits)
  note d = delete_rows_spec [OF D]
  have all: "set deleted = set ?c" using d(3) by simp
  have row: "row_dead cfg (ay_clock y) r" if "ad_sessions db i = Some r" "sr_user_id r = u" for i r
  proof (cases "av_sessions (ay_service y) i")
    case None
    have r: "ad_sessions (ay_db y) i = Some r" using d(2) [of i] that(1) by auto
    have "i \<notin> il_id ` set (ay_persisted y)"
      using mem_okD(9) [OF m] r that(2) idle(2) by (force simp: row_within_def list_all_iff in_flight_def)
    then show ?thesis using mem_okD(4) [OF m r None] by simp
  next
    case (Some x)
    have "ad_sessions (ay_db y) i = Some r" using d(2) [of i] that(1) by auto
    then have "sn_userID x = u" using mem_okD(3) [OF m Some] that(2) by (simp add: row_within_def)
    then have "i \<in> set deleted" using Some c all by simp
    then show ?thesis using d(1) that(1) by simp
  qed
  show ?thesis using idle c all row by (intro outI) (auto simp: update_state_def in_flight_def list_all_iff s split: if_splits)
qed


subsection \<open>A login that nothing interrupts\<close>

lemma auth_run_without: "run_without env cfg u y z \<Longrightarrow> auth_run env cfg y \<Longrightarrow> auth_run env cfg z"
  by (induction rule: run_without.induct) (auto intro: run_step)

lemma without_step_None:
  assumes "auth_step env cfg None y y'" "run_without env cfg u y' z"
  shows "run_without env cfg u y z"
  using assms(2)
proof (induction rule: run_without.induct)
  case without_refl
  show ?case using without_step [OF run_without.without_refl assms(1)] by simp
qed (blast intro: without_step)

lemma login_completes:
  assumes "v \<in> set (ay_verified y)" "ay_clock y \<le> vl_now v + rc_delay cfg" "\<not> us_totpEnabled (vl_user v)"
    and I: "login_issue env token (vl_input v) (vl_user v) (vl_now v) (ay_service y) = (Inr l, s)"
    and "fresh_login l y" and P: "persistAuthenticatedSession del_up put_up l (ay_db y) = (None, db)"
  shows "run_without env cfg u y (y\<lparr>ay_service := login_finish l s, ay_db := db, ay_verified := remove1 v (ay_verified y)\<rparr>)"
proof -
  have s: "s = ay_service y" using login_issue_spec(5) [OF I] assms(3) by simp
  let ?y1 = "y\<lparr>ay_verified := remove1 v (ay_verified y), ay_issued := l # ay_issued y\<rparr>"
  let ?y2 = "?y1\<lparr>ay_db := db, ay_issued := ay_issued y, ay_persisted := l # ay_persisted y\<rparr>"
  have "auth_step env cfg None y ?y1"
    using step_issue [OF assms(1,2) I assms(5)] assms(3) s by simp
  moreover have "auth_step env cfg None ?y1 ?y2" using step_persist [of l ?y1 del_up put_up db env cfg] P by simp
  moreover have "?y2\<lparr>ay_service := login_finish l (ay_service ?y2), ay_persisted := remove1 l (ay_persisted ?y2)\<rparr> =
      y\<lparr>ay_service := login_finish l s, ay_db := db, ay_verified := remove1 v (ay_verified y)\<rparr>"
    by (rule auth_system.equality) (simp_all add: s)
  then have "auth_step env cfg None ?y2
      (y\<lparr>ay_service := login_finish l s, ay_db := db, ay_verified := remove1 v (ay_verified y)\<rparr>)"
    using step_finish [of l ?y2 env cfg] by simp
  ultimately show ?thesis by (blast intro: without_step_None without_refl)
qed

lemma persist_succeeds:
  assumes "user_by_id (sn_userID (il_session l)) db \<noteq> None"
  shows "\<exists>db'. persistAuthenticatedSession True True l db = (None, db')"
proof -
  obtain gone db1 where D: "(if il_prior l \<noteq> [] then delete_row True (il_prior l) db else (True, db)) = (gone, db1)"
    by fastforce
  have "gone" "ad_users db1 = ad_users db"
    using D delete_row_up [of "il_prior l" db] delete_row_spec(3) [of True "il_prior l" db gone db1] by (auto split: if_splits)
  with D assms show ?thesis by (simp add: persistAuthenticatedSession_def PutSession_def user_by_id_def)
qed

lemma finished_session_found:
  assumes "now \<le> sn_createdAt (il_session l) + effectiveSessionMaxLifetime s"
    and "now \<le> sn_lastSeenAt (il_session l) + effectiveSessionIdleTimeout s"
  shows "fst (GetSession now (il_id l) (login_finish l s)) = Inr (il_session l)"
  using assms by (simp add: GetSession_def login_finish_def session_expired_def
      effectiveSessionMaxLifetime_def effectiveSessionIdleTimeout_def)

lemma load_user_id: "load_user i db = Inr u \<Longrightarrow> us_id u = i"
  by (auto simp: load_user_def store_GetUserByID_def user_by_id_def find_Some_iff split: option.splits)

lemma user_by_id_None: "user_by_id i db = None \<longleftrightarrow> i \<notin> us_id ` set (ad_users db)"
  by (auto simp: user_by_id_def find_None_iff)

lemma store_user_present:
  assumes "store_user up u db = Inr db'"
  shows "user_by_id (us_id u) db' \<noteq> None"
proof -
  have "us_id ` (\<lambda>v. if us_id v = us_id u then stored_user u else v) ` set (ad_users db) = us_id ` set (ad_users db)"
    unfolding image_image by (rule image_cong) (auto simp: stored_user_def)
  with assms show ?thesis
    by (auto simp: store_user_def PutUser_def user_by_id_None stored_user_def split: if_splits sum.splits)
qed

lemma UpdateUser_present:
  assumes "UpdateUser env up del_up order salt input s db = (Inr user', s', db')"
  shows "us_id user' = ui_userID input" "user_by_id (ui_userID input) db' \<noteq> None"
proof -
  obtain user where C: "update_check env salt input s db = Inr (user, user')"
    and S: "\<exists>db1. store_user up user' db1 = Inr db'"
    using assms by (auto simp: UpdateUser_def update_commit_def Let_def split: sum.splits prod.splits if_splits)
  have u: "load_user (ui_userID input) db = Inr user" "us_id user' = us_id user"
    using C by (auto simp: update_check_def applyOptionalPasswordChange_def Let_def split: sum.splits option.splits if_splits)
  then show "us_id user' = ui_userID input" using load_user_id by simp
  with S show "user_by_id (ui_userID input) db' \<noteq> None" using store_user_present by metis
qed


lemma Authenticate_stages:
  assumes "Authenticate env up del_up put_up salt token input now s db = (Inr cookie, s', db')"
  shows "\<exists>user db1 l s1. login_verify env up salt input db = (Inr user, db1) \<and>
    login_issue env token input user now s = (Inr l, s1) \<and>
    persistAuthenticatedSession del_up put_up l db1 = (None, db') \<and> cookie = token \<and> s' = login_finish l s1"
proof -
  obtain v db1 where V: "login_verify env up salt input db = (v, db1)" by fastforce
  obtain user where v: "v = Inr user" using assms V by (cases v) (simp_all add: Authenticate_def)
  obtain i s1 where I: "login_issue env token input user now s = (i, s1)" by fastforce
  obtain l where l: "i = Inr l" using assms V v I by (cases i) (simp_all add: Authenticate_def)
  obtain e db2 where P: "persistAuthenticatedSession del_up put_up l db1 = (e, db2)" by fastforce
  show ?thesis using assms V v I l P by (cases e) (auto simp: Authenticate_def)
qed

end
