(* ===== verification/Auth_Scenario.thy ===== *)
theory Auth_Scenario
  imports Auth_Revocation
begin

section \<open>A concrete installation\<close>

text \<open>
  A key derivation, an encoding and a MAC simple enough to evaluate, one administrator,
  and the run that boots the service and logs the administrator in. The properties of the
  authentication service are applied to it.
\<close>

definition demo_encode :: "bytes \<Rightarrow> string" where
  "demo_encode bs = concat (map (\<lambda>b. [char_of (97 + unat b div 16), char_of (97 + unat b mod 16)]) bs)"

fun demo_decode :: "string \<Rightarrow> bytes option" where
  "demo_decode [] = Some []"
| "demo_decode [a] = None"
| "demo_decode (a # b # s) =
     map_option ((#) (of_nat (16 * (of_char a - 97) + (of_char b - 97)))) (demo_decode s)"

definition demo_kdf :: kdf_lib where
  "demo_kdf = \<lparr>kl_IDKey = (\<lambda>pw salt t m p n. take n (map (\<lambda>c. of_nat (of_char c)) pw @ replicate n 0)),
     kl_encode = demo_encode, kl_decode = demo_decode\<rparr>"

lemma unat_byte: "unat (b :: 8 word) < 256"
  using unsigned_less [of b] by simp

lemma demo_decode_encode: "demo_decode (demo_encode bs) = Some bs"
proof (induction bs)
  case (Cons b bs)
  have n: "unat b < 256" by (rule unat_byte)
  then have d: "(of_char (char_of (97 + unat b div 16)) :: nat) = 97 + unat b div 16"
    "(of_char (char_of (97 + unat b mod 16)) :: nat) = 97 + unat b mod 16"
    by (simp_all add: of_char_of)
  have "16 * (unat b div 16) + unat b mod 16 = unat b" by simp
  with Cons d show ?case by (simp add: demo_encode_def)
qed (simp add: demo_encode_def)

lemma demo_encode_plain: "CHR ''$'' \<notin> set (demo_encode bs)"
proof -
  have ne: "CHR ''$'' \<noteq> char_of (97 + n)" if "n < 16" for n :: nat
  proof
    assume "CHR ''$'' = char_of (97 + n)"
    then have "(of_char (CHR ''$'') :: nat) = of_char (char_of (97 + n))" by simp
    then have "36 = 97 + n" using that by (simp add: of_char_of)
    then show False by simp
  qed
  have "CHR ''$'' \<noteq> char_of (97 + unat b div 16)" "CHR ''$'' \<noteq> char_of (97 + unat b mod 16)" for b :: "8 word"
    using ne unat_byte [of b] by simp_all
  then show ?thesis by (induction bs) (simp_all add: demo_encode_def)
qed

lemma demo_kdf_ok: "kdf_lib_ok demo_kdf"
  by (auto simp: kdf_lib_ok_def demo_kdf_def demo_decode_encode demo_encode_plain)

definition demo_env :: auth_env where
  "demo_env = \<lparr>ae_kdf = demo_kdf, ae_active = Default_profile, ae_hmac = (\<lambda>t. CHR ''h'' # t),
     ae_base32 = (\<lambda>_. Some []), ae_hmacSHA1 = (\<lambda>_ msg. rev msg @ replicate 12 0)\<rparr>"

definition demo_config :: "bool \<Rightarrow> duration option \<Rightarrow> run_config" where
  "demo_config lossy limit = \<lparr>rc_delay = 10 * second_ns, rc_lossy = lossy, rc_idle = limit, rc_max = limit\<rparr>"

definition old_password :: string where "old_password = ''first-secret''"

definition demo_user :: user_record where
  "demo_user = \<lparr>us_id = ''user-1'', us_username = ''root'', us_passwordHash = hashPassword demo_kdf Default_profile [] old_password,
     us_role = RoleAdmin, us_totpEnabled = False, us_totpSecret = [], us_createdAt = fromUnix 1000\<rparr>"

definition demo_db :: auth_db where
  "demo_db = \<lparr>ad_users = [demo_user], ad_sessions = Map.empty, ad_consumed = Map.empty\<rparr>"

definition demo_input :: login_input where
  "demo_input = \<lparr>li_username = ''root'', li_password = old_password, li_totpCode = [], li_priorCookie = []\<rparr>"

definition demo_start :: gotime where "demo_start = fromUnix 1000"

definition demo_login :: issued_login where
  "demo_login = \<lparr>il_id = ''h1'', il_session = \<lparr>sn_userID = ''user-1'', sn_createdAt = demo_start, sn_lastSeenAt = demo_start\<rparr>,
     il_prior = []\<rparr>"

definition demo_service :: "duration option \<Rightarrow> (string \<rightharpoonup> session_record) \<Rightarrow> auth_service" where
  "demo_service limit sessions = (NewServiceWithStore demo_start)\<lparr>av_sessions := sessions, av_idleTimeoutFn := limit, av_maxLifetimeFn := limit\<rparr>"

definition demo_state :: "duration option \<Rightarrow> (string \<rightharpoonup> session_record) \<Rightarrow> (string \<rightharpoonup> session_row) \<Rightarrow> verified_login list \<Rightarrow>
    issued_login list \<Rightarrow> issued_login list \<Rightarrow> auth_system" where
  "demo_state limit sessions rows verified issued persisted =
     \<lparr>ay_service = demo_service limit sessions, ay_db = demo_db\<lparr>ad_sessions := rows\<rparr>, ay_clock = demo_start,
      ay_verified = verified, ay_issued = issued, ay_persisted = persisted, ay_writes = [], ay_accepted = []\<rparr>"

abbreviation demo_verified :: verified_login where
  "demo_verified \<equiv> \<lparr>vl_user = demo_user, vl_input = demo_input, vl_now = demo_start\<rparr>"

lemma toUnix_fromUnix_demo [simp]: "toUnix (fromUnix n) = n"
  by (simp add: toUnix_def fromUnix_def second_ns_def)

lemma demo_boot: "boot_system (demo_config lossy limit) demo_start [] demo_db = demo_state limit Map.empty Map.empty [] [] []"
  by (simp add: boot_system_def boot_def RestoreSessions_def restoreConsumedTotp_def installRestoredSessions_def
      DeleteExpiredSessions_def DeleteExpiredConsumedTotp_def NewServiceWithStore_def SetNow_def SetSessionTimeoutFns_def
      demo_state_def demo_service_def demo_config_def demo_db_def Let_def)

lemma demo_booted: "auth_run demo_env (demo_config lossy limit) (demo_state limit Map.empty Map.empty [] [] [])"
proof -
  have "empty_tables demo_db" "30 \<le> toUnix demo_start" by (simp_all add: empty_tables_def demo_db_def demo_start_def)
  from run_boot [OF this, of demo_env "demo_config lossy limit"] show ?thesis by (simp only: demo_boot)
qed

lemma demo_verify_tables:
  "login_verify demo_env up salt (demo_input\<lparr>li_priorCookie := cookie\<rparr>) (demo_db\<lparr>ad_sessions := rows\<rparr>) =
     (Inr demo_user, demo_db\<lparr>ad_sessions := rows\<rparr>)"
  using verify_hash [OF demo_kdf_ok profiles_ok(1), of "[]" old_password old_password]
    fresh_hash_not_stale [OF demo_kdf_ok, of Default_profile "[]" old_password]
  by (simp add: login_verify_def demo_db_def GetUserByUsername_def demo_user_def demo_input_def demo_env_def
      rehashPasswordIfStale_def)

lemma demo_verify: "login_verify demo_env up salt demo_input demo_db = (Inr demo_user, demo_db)"
  using demo_verify_tables [of up salt "[]" Map.empty] by (simp add: demo_input_def demo_db_def)

lemma demo_verified_run: "auth_run demo_env (demo_config lossy limit) (demo_state limit Map.empty Map.empty [demo_verified] [] [])"
proof -
  have "auth_step demo_env (demo_config lossy limit) (Some (us_id demo_user)) (demo_state limit Map.empty Map.empty [] [] [])
     ((demo_state limit Map.empty Map.empty [] [] [])
        \<lparr>ay_db := demo_db, ay_verified := \<lparr>vl_user = demo_user, vl_input = demo_input, vl_now = demo_start\<rparr> # []\<rparr>)"
    using step_verify [of demo_env True "[]" demo_input "demo_state limit Map.empty Map.empty [] [] []" demo_user demo_db "demo_config lossy limit"]
    by (simp add: demo_state_def demo_db_def demo_verify [unfolded demo_db_def])
  from run_step [OF demo_booted this] show ?thesis by (simp add: demo_state_def demo_db_def)
qed


lemma demo_issue: "login_issue demo_env ''1'' demo_input demo_user demo_start s = (Inr demo_login, s)"
  by (simp add: login_issue_def demo_env_def demo_input_def demo_user_def demo_login_def TrimSpace_solid)

definition demo_row :: session_row where
  "demo_row = row_of_session (il_session demo_login)"

lemma demo_persist:
  "persistAuthenticatedSession del_up True demo_login (demo_db\<lparr>ad_sessions := rows\<rparr>) =
     (None, demo_db\<lparr>ad_sessions := rows(''h1'' \<mapsto> demo_row)\<rparr>)"
  by (simp add: persistAuthenticatedSession_def PutSession_def demo_login_def demo_db_def demo_user_def demo_row_def user_by_id_def)

text \<open>The administrator is logged in: one session in memory, one row in the table.\<close>

abbreviation demo_logged_in :: "duration option \<Rightarrow> auth_system" where
  "demo_logged_in limit \<equiv> demo_state limit [''h1'' \<mapsto> il_session demo_login] [''h1'' \<mapsto> demo_row] [] [] []"

lemma demo_fresh: "fresh_login demo_login (demo_state limit Map.empty Map.empty vs [] [])"
  by (simp add: fresh_login_def in_flight_def demo_login_def demo_state_def demo_service_def)

lemma demo_run: "auth_run demo_env (demo_config lossy limit) (demo_logged_in limit)"
proof -
  let ?y = "demo_state limit Map.empty Map.empty [demo_verified] [] []"
  have "run_without demo_env (demo_config lossy limit) u ?y (?y\<lparr>ay_service := login_finish demo_login (demo_service limit Map.empty),
      ay_db := demo_db\<lparr>ad_sessions := [''h1'' \<mapsto> demo_row]\<rparr>, ay_verified := remove1 demo_verified (ay_verified ?y)\<rparr>)" for u
    using demo_persist [of True Map.empty]
    by (intro login_completes [OF _ _ _ _ demo_fresh, where token = "''1''" and del_up = True and put_up = True])
      (simp_all add: demo_state_def demo_issue demo_config_def second_ns_def, simp add: demo_user_def)
  from auth_run_without [OF this demo_verified_run] show ?thesis
    by (simp add: demo_state_def login_finish_def demo_login_def demo_service_def NewServiceWithStore_def)
qed


lemma demo_trim: "TrimSpace ''user-1'' = ''user-1''" "TrimSpace ''root'' = ''root''" "TrimSpace [] = []"
  by (simp_all add: TrimSpace_solid solid_def)

lemma demo_revoke:
  "RevokeSessionsForUser (\<lambda>_. True) [''h1''] ''user-1'' (ay_service (demo_logged_in limit)) (ay_db (demo_logged_in limit)) =
     (1, [], demo_service limit Map.empty, demo_db)"
  by (auto simp: RevokeSessionsForUser_def RevokeSessionsForUserExcept_def revoke_candidates_def demo_trim demo_state_def
      demo_service_def demo_login_def delete_row_def DeleteSession_def demo_db_def NewServiceWithStore_def)


text \<open>The administrator gets a new password while the login with the old one is under way.\<close>

definition new_password :: string where "new_password = ''second-secret''"

definition demo_change :: update_input where
  "demo_change = \<lparr>ui_userID = ''user-1'', ui_username = ''root'', ui_role = RoleAdmin, ui_newPassword = new_password,
     ui_currentPassword = [], ui_requireCurrent = False, ui_exceptSessionID = []\<rparr>"

abbreviation demo_changed_user :: user_record where
  "demo_changed_user \<equiv> demo_user\<lparr>us_passwordHash := hashPassword demo_kdf Default_profile [] new_password\<rparr>"

lemma new_password_ok: "validatePassword new_password 0 = None" "TrimSpace new_password = new_password" "new_password \<noteq> []"
  by (simp add: validatePassword_def effectivePolicy_def DefaultPasswordMinLength_def maxPasswordLength_def new_password_def
      validatePasswordAgainstDenylist_def commonBreachedPasswords_def ascii_lower_def)
    (simp_all add: new_password_def TrimSpace_solid solid_def)

lemma demo_update:
  "UpdateUser demo_env True (\<lambda>_. True) [] [] demo_change (demo_service limit Map.empty) demo_db =
     (Inr demo_changed_user, demo_service limit Map.empty, demo_db\<lparr>ad_users := [demo_changed_user]\<rparr>)"
proof -
  have load: "load_user ''user-1'' demo_db = Inr demo_user"
    by (simp add: load_user_def store_GetUserByID_def user_by_id_def demo_db_def demo_user_def)
  have apply_pw: "applyOptionalPasswordChange demo_env [] new_password (demo_service limit Map.empty) demo_user = Inr demo_changed_user"
    by (simp add: applyOptionalPasswordChange_def new_password_ok demo_service_def NewServiceWithStore_def demo_env_def)
  have valid: "validateUsernameChange demo_user ''root'' demo_db = None" "validateRoleChange demo_user RoleAdmin demo_db = None"
    by (simp_all add: validateUsernameChange_def validateRoleChange_def) (simp add: demo_user_def)
  have same: "demo_user\<lparr>us_username := ''root'', us_role := RoleAdmin\<rparr> = demo_user" by (simp add: demo_user_def)
  have check: "update_check demo_env [] demo_change (demo_service limit Map.empty) demo_db = Inr (demo_user, demo_changed_user)"
    using load apply_pw same valid by (simp add: update_check_def demo_change_def demo_trim Let_def)
  have store: "store_user True demo_changed_user demo_db = Inr (demo_db\<lparr>ad_users := [demo_changed_user]\<rparr>)"
    by (simp add: store_user_def PutUser_def demo_db_def user_by_id_def stored_user_def demo_user_def)
  show ?thesis
    using check store
    by (simp add: UpdateUser_def update_commit_def RevokeSessionsForUserExcept_def revoke_candidates_def demo_service_def Let_def)
qed

end
