(* ===== verification/Auth_Admins.thy ===== *)
theory Auth_Admins
  imports Auth_Scenario
begin

section \<open>The last administrator\<close>

text \<open>What the guards of \<^verbatim>\<open>UpdateUser\<close> and \<^verbatim>\<open>DeleteUser\<close> preserve, on a table whose ids are distinct.\<close>

definition ids_distinct :: "auth_db \<Rightarrow> bool" where
  "ids_distinct db \<longleftrightarrow> distinct (map us_id (ad_users db))"

lemma countAdmins_users: "countAdmins db = length (filter (\<lambda>u. us_role u = RoleAdmin) (ad_users db))"
proof -
  have "mset (filter (\<lambda>u. us_role u = RoleAdmin) (store_ListUsers db)) =
      mset (filter (\<lambda>u. us_role u = RoleAdmin) (ad_users db))"
    by (simp add: store_ListUsers_def)
  then show ?thesis unfolding countAdmins_def by (rule mset_eq_length)
qed

lemma has_admin_iff: "0 < countAdmins db \<longleftrightarrow> (\<exists>w \<in> set (ad_users db). us_role w = RoleAdmin)"
  by (auto simp: countAdmins_users filter_empty_conv)

lemma two_keys:
  assumes "2 \<le> length (filter P xs)" "distinct (map f xs)"
  shows "\<exists>w \<in> set xs. P w \<and> f w \<noteq> k"
proof (rule ccontr)
  assume "\<not> ?thesis"
  then have "card (f ` set (filter P xs)) \<le> card {k}" by (intro card_mono) auto
  moreover have "distinct (map f (filter P xs))" using assms(2) by (simp add: distinct_map_filter)
  then have "card (f ` set (filter P xs)) = length (filter P xs)" using distinct_card by fastforce
  ultimately show False using assms(1) by simp
qed

lemma another_admin:
  assumes "ids_distinct db" "0 < countAdmins db" "countAdmins db \<noteq> 1"
  shows "\<exists>w \<in> set (ad_users db). us_role w = RoleAdmin \<and> us_id w \<noteq> i"
proof -
  have "2 \<le> countAdmins db" using assms(2,3) by linarith
  then show ?thesis
    using two_keys [of "\<lambda>u. us_role u = RoleAdmin" "ad_users db" us_id i] assms(1)
    by (simp add: countAdmins_users ids_distinct_def)
qed

lemma load_user_member: "load_user i db = Inr u \<Longrightarrow> u \<in> set (ad_users db) \<and> us_id u = i"
  by (auto simp: load_user_def store_GetUserByID_def user_by_id_def find_Some_iff split: option.splits)

lemma member_unique: "ids_distinct db \<Longrightarrow> u \<in> set (ad_users db) \<Longrightarrow> w \<in> set (ad_users db) \<Longrightarrow> us_id u = us_id w \<Longrightarrow> u = w"
  by (auto simp: ids_distinct_def distinct_map dest: inj_onD)

text \<open>An administrator other than the user whose role is taken away.\<close>

lemma guard_leaves_admin:
  assumes "ids_distinct db" "0 < countAdmins db" "u \<in> set (ad_users db)"
    and "\<not> (us_role u = RoleAdmin \<and> countAdmins db = 1)"
  shows "\<exists>w \<in> set (ad_users db). us_role w = RoleAdmin \<and> us_id w \<noteq> us_id u"
proof (cases "us_role u = RoleAdmin")
  case True
  with assms show ?thesis using another_admin by blast
next
  case False
  obtain w where "w \<in> set (ad_users db)" "us_role w = RoleAdmin" using assms(2) has_admin_iff by blast
  with False show ?thesis using member_unique [OF assms(1,3)] by metis
qed

lemma store_user_keeps:
  assumes "store_user up u db = Inr db'" "w \<in> set (ad_users db)" "us_id w \<noteq> us_id u"
  shows "w \<in> set (ad_users db')"
  using assms by (auto simp: store_user_def PutUser_def split: if_splits sum.splits intro: rev_image_eqI)

lemma store_user_stores:
  assumes "store_user up u db = Inr db'"
  shows "stored_user u \<in> set (ad_users db')"
  using assms by (auto simp: store_user_def PutUser_def user_by_id_None split: if_splits sum.splits)

lemma update_check_spec:
  assumes "update_check env salt input s db = Inr (user, user')"
  shows "load_user (ui_userID input) db = Inr user" "us_id user' = us_id user" "us_role user' = ui_role input"
    "us_role user = RoleAdmin \<Longrightarrow> ui_role input \<noteq> RoleAdmin \<Longrightarrow> countAdmins db \<noteq> 1"
  using assms
  by (auto simp: update_check_def applyOptionalPasswordChange_def validateRoleChange_def Let_def
      split: sum.splits option.splits if_splits)

lemma update_commit_cases:
  assumes "update_commit up del_up order input user user' s db = (r, s', db')"
  obtains "ad_users db' = ad_users db" "\<forall>u. r \<noteq> Inr u"
  | db1 where "ad_users db1 = ad_users db" "store_user up user' db1 = Inr db'" "r = Inr user'"
proof -
  have "(ad_users db' = ad_users db \<and> (\<forall>u. r \<noteq> Inr u)) \<or>
    (\<exists>db1. ad_users db1 = ad_users db \<and> store_user up user' db1 = Inr db' \<and> r = Inr user')"
    using assms revoke_shrinks(2) by (auto simp: update_commit_def Let_def split: prod.splits sum.splits if_splits)
  then show thesis using that by blast
qed

lemma UpdateUser_keeps_admin:
  assumes "ids_distinct db" "0 < countAdmins db" "UpdateUser env up del_up order salt input s db = (r, s', db')"
  shows "0 < countAdmins db'"
proof (cases "update_check env salt input s db")
  case (Inl err)
  with assms show ?thesis by (simp add: UpdateUser_def)
next
  case (Inr p)
  obtain user user' where p: "update_check env salt input s db = Inr (user, user')" using Inr by (cases p) simp
  note c = update_check_spec [OF p]
  have "update_commit up del_up order input user user' s db = (r, s', db')" using assms(3) p by (simp add: UpdateUser_def)
  then show ?thesis
  proof (cases rule: update_commit_cases)
    case 1
    with assms(2) show ?thesis by (simp add: has_admin_iff)
  next
    case (2 db1)
    show ?thesis
    proof (cases "ui_role input = RoleAdmin")
      case True
      then have "us_role (stored_user user') = RoleAdmin" using c(3) by (simp add: stored_user_def)
      then show ?thesis using store_user_stores [OF 2(2)] has_admin_iff by blast
    next
      case False
      then obtain w where w: "w \<in> set (ad_users db)" "us_role w = RoleAdmin" "us_id w \<noteq> us_id user"
        using guard_leaves_admin [OF assms(1,2)] load_user_member [OF c(1)] c(4) by blast
      then have "w \<in> set (ad_users db')" using store_user_keeps [OF 2(2)] 2(1) c(2) by simp
      with w(2) show ?thesis by (auto simp: has_admin_iff)
    qed
  qed
qed

lemma DeleteUser_keeps_admin:
  assumes "ids_distinct db" "0 < countAdmins db" "auth_DeleteUser up del_up order i s db = (err, s', db')"
  shows "0 < countAdmins db'"
proof (cases "load_user i db")
  case (Inl e)
  with assms show ?thesis by (simp add: auth_DeleteUser_def)
next
  case (Inr user)
  note m = load_user_member [OF Inr]
  show ?thesis
  proof (cases "us_role user = RoleAdmin \<and> countAdmins db = 1 \<or> \<not> up")
    case True
    with assms Inr show ?thesis by (auto simp: auth_DeleteUser_def split: if_splits)
  next
    case False
    then obtain w where w: "w \<in> set (ad_users db)" "us_role w = RoleAdmin" "us_id w \<noteq> us_id user"
      using guard_leaves_admin [OF assms(1,2)] m by blast
    have "ad_users db' = filter (\<lambda>u. us_id u \<noteq> us_id user) (ad_users db) \<or> ad_users db' = ad_users db"
      using assms(3) Inr False revoke_shrinks(2)
      by (auto simp: auth_DeleteUser_def store_DeleteUser_def RevokeSessionsForUser_def Let_def split: sum.splits prod.splits if_splits)
    with w show ?thesis by (auto simp: has_admin_iff)
  qed
qed


lemma store_user_members:
  assumes "store_user up u db = Inr db'" "w \<in> set (ad_users db')"
  shows "w = stored_user u \<or> (w \<in> set (ad_users db) \<and> us_id w \<noteq> us_id u)"
  using assms by (auto simp: store_user_def PutUser_def user_by_id_None image_iff split: if_splits sum.splits) metis

lemma commit_members:
  assumes "update_commit up del_up order input user user' s db = (Inr r, s', db')" "w \<in> set (ad_users db')"
  shows "w = stored_user user' \<or> (w \<in> set (ad_users db) \<and> us_id w \<noteq> us_id user')"
  using assms(1) by (cases rule: update_commit_cases) (use store_user_members assms(2) in fastforce)+

subsection \<open>Two administrators\<close>

definition second_admin :: user_record where
  "second_admin = demo_user\<lparr>us_id := ''user-2'', us_username := ''ops''\<rparr>"

definition two_admins :: auth_db where
  "two_admins = demo_db\<lparr>ad_users := [demo_user, second_admin]\<rparr>"

definition demote :: "string \<Rightarrow> string \<Rightarrow> update_input" where
  "demote i name = \<lparr>ui_userID = i, ui_username = name, ui_role = RoleOperator, ui_newPassword = [], ui_currentPassword = [],
     ui_requireCurrent = False, ui_exceptSessionID = []\<rparr>"

lemma two_admins_facts:
  "ids_distinct two_admins" "countAdmins two_admins = 2" "RoleOperator \<noteq> RoleAdmin"
  "load_user ''user-1'' two_admins = Inr demo_user" "load_user ''user-2'' two_admins = Inr second_admin"
  by (simp_all add: ids_distinct_def countAdmins_users two_admins_def second_admin_def demo_user_def demo_db_def
      RoleOperator_def RoleAdmin_def load_user_def store_GetUserByID_def user_by_id_def)

lemma demote_check:
  "update_check demo_env [] (demote ''user-1'' ''root'') s two_admins = Inr (demo_user, demo_user\<lparr>us_role := RoleOperator\<rparr>)"
  "update_check demo_env [] (demote ''user-2'' ''ops'') s two_admins = Inr (second_admin, second_admin\<lparr>us_role := RoleOperator\<rparr>)"
proof -
  have "TrimSpace ''ops'' = ''ops''" by (simp add: TrimSpace_solid solid_def)
  moreover have "validateUsernameChange demo_user ''root'' two_admins = None" "validateUsernameChange second_admin ''ops'' two_admins = None"
    "demo_user\<lparr>us_username := ''root'', us_role := RoleOperator\<rparr> = demo_user\<lparr>us_role := RoleOperator\<rparr>"
    "second_admin\<lparr>us_username := ''ops'', us_role := RoleOperator\<rparr> = second_admin\<lparr>us_role := RoleOperator\<rparr>"
    by (simp_all add: validateUsernameChange_def demo_user_def second_admin_def)
  ultimately show "update_check demo_env [] (demote ''user-1'' ''root'') s two_admins = Inr (demo_user, demo_user\<lparr>us_role := RoleOperator\<rparr>)"
    "update_check demo_env [] (demote ''user-2'' ''ops'') s two_admins = Inr (second_admin, second_admin\<lparr>us_role := RoleOperator\<rparr>)"
    using two_admins_facts
    by (simp_all add: update_check_def demote_def demo_trim validateRoleChange_def applyOptionalPasswordChange_def Let_def)
qed

lemma demote_commit:
  "update_commit True (\<lambda>_. True) [] (demote ''user-1'' ''root'') demo_user (demo_user\<lparr>us_role := RoleOperator\<rparr>)
     (demo_service None Map.empty) two_admins =
   (Inr (demo_user\<lparr>us_role := RoleOperator\<rparr>), demo_service None Map.empty,
    two_admins\<lparr>ad_users := [demo_user\<lparr>us_role := RoleOperator\<rparr>, second_admin]\<rparr>)"
  "update_commit True (\<lambda>_. True) [] (demote ''user-2'' ''ops'') second_admin (second_admin\<lparr>us_role := RoleOperator\<rparr>)
     (demo_service None Map.empty) (two_admins\<lparr>ad_users := [demo_user\<lparr>us_role := RoleOperator\<rparr>, second_admin]\<rparr>) =
   (Inr (second_admin\<lparr>us_role := RoleOperator\<rparr>), demo_service None Map.empty,
    two_admins\<lparr>ad_users := [demo_user\<lparr>us_role := RoleOperator\<rparr>, second_admin\<lparr>us_role := RoleOperator\<rparr>]\<rparr>)"
  by (auto simp: update_commit_def demote_def RevokeSessionsForUserExcept_def revoke_candidates_def store_user_def PutUser_def
      user_by_id_def stored_user_def two_admins_def second_admin_def demo_user_def demo_db_def demo_service_def
      NewServiceWithStore_def Let_def split: if_splits)

end
