(* ===== verification/Auth_Properties.thy ===== *)
theory Auth_Properties
  imports Auth_Admins
begin

section \<open>Properties of the authentication service\<close>

text \<open>
  Revocation against restarts and logins in flight, session rotation, restored sessions and the
  last administrator.
\<close>




text \<open>
  C22: A password change does not reach a login whose old password was checked before it: with the
  change stored and every session of the user revoked, that login still completes, and its session
  is accepted. The checks of a login run outside the lock and are not repeated.\<close>
theorem login_in_flight_survives_password_change:
  assumes "auth_run env cfg y" "v \<in> set (ay_verified y)" "\<not> us_totpEnabled (vl_user v)"
    and "ay_clock y \<le> vl_now v + rc_delay cfg" "ay_clock y \<le> vl_now v + max_of cfg" "ay_clock y \<le> vl_now v + idle_of cfg"
    and "range_order (av_sessions (ay_service y)) order"
    and "ui_userID input = us_id (vl_user v)" "TrimSpace (ui_newPassword input) \<noteq> []"
    and "UpdateUser env True (\<lambda>_. True) order salt input (ay_service y) (ay_db y) = (Inr user', s, db)"
    and "login_issue env token (vl_input v) (vl_user v) (vl_now v) s = (Inr l, s1)"
    and "fresh_login l (update_state s db y)"
  shows "\<exists>z x. run_without env cfg (us_id (vl_user v)) (update_state s db y) z \<and>
    fst (GetSession (ay_clock z) (il_id l) (ay_service z)) = Inr x \<and> sn_userID x = us_id (vl_user v)"
proof -
  let ?y = "update_state s db y"
  have s1: "s1 = s" and l: "il_session l = \<lparr>sn_userID = us_id (vl_user v), sn_createdAt = vl_now v, sn_lastSeenAt = vl_now v\<rparr>"
    using login_issue_spec(4,5) [OF assms(11)] assms(3) by simp_all
  have "auth_run env cfg ?y" by (rule run_step [OF assms(1) step_update [OF assms(7,10)]])
  then have "wired cfg s" using auth_run_inv by (fastforce simp: auth_inv_def sessions_ok_def update_state_def)
  then have eff: "effectiveSessionMaxLifetime s = max_of cfg" "effectiveSessionIdleTimeout s = idle_of cfg"
    using wired_effective by blast+
  obtain db' where P: "persistAuthenticatedSession True True l (ay_db ?y) = (None, db')"
    using persist_succeeds [of l db] UpdateUser_present(2) [OF assms(10)] assms(8) l by (auto simp: update_state_def)
  have "run_without env cfg (us_id (vl_user v)) ?y
      (?y\<lparr>ay_service := login_finish l s, ay_db := db', ay_verified := remove1 v (ay_verified ?y)\<rparr>)"
    by (rule login_completes [OF _ _ assms(3) _ assms(12) P]) (use assms(2,4,11) s1 in \<open>simp_all add: update_state_def\<close>)
  moreover have "fst (GetSession (ay_clock y) (il_id l) (login_finish l s)) = Inr (il_session l)"
    by (rule finished_session_found) (use assms(5,6) l eff in simp_all)
  ultimately show ?thesis using l by (intro exI conjI) (auto simp: update_state_def)
qed

theorem login_in_flight_survives_password_change_witness:
  "\<exists>z x. run_without demo_env (demo_config False None) ''user-1''
      (update_state (demo_service None Map.empty) (demo_db\<lparr>ad_users := [demo_changed_user]\<rparr>)
        (demo_state None Map.empty Map.empty [demo_verified] [] [])) z \<and>
    fst (GetSession (ay_clock z) ''h1'' (ay_service z)) = Inr x \<and> sn_userID x = ''user-1''"
proof -
  let ?y = "demo_state None Map.empty Map.empty [demo_verified] [] []"
  let ?s = "demo_service None Map.empty" and ?db = "demo_db\<lparr>ad_users := [demo_changed_user]\<rparr>"
  have u: "us_id (vl_user demo_verified) = ''user-1''" "il_id demo_login = ''h1''"
    by (simp_all add: demo_user_def demo_login_def)
  have "fresh_login demo_login (update_state ?s ?db ?y)"
    by (simp add: fresh_login_def update_state_def in_flight_def demo_login_def demo_state_def demo_service_def demo_db_def)
  from login_in_flight_survives_password_change [OF demo_verified_run, of demo_verified None False "[]" demo_change "[]"
      demo_changed_user ?s ?db "''1''" demo_login ?s, OF _ _ _ _ _ _ _ _ _ _ this]
  show ?thesis unfolding u
    using demo_update [of None] demo_issue [of ?s]
    by (simp add: demo_state_def demo_config_def max_of_def idle_of_def sessionMaxLifetime_def sessionIdleTimeout_def
        hour_ns_def minute_ns_def second_ns_def range_order_def demo_change_def new_password_ok demo_service_def demo_user_def demo_db_def)
qed

text \<open>
  A configured lifetime above eight hours does not survive a restart: a session the running
  service accepts, created more than eight hours ago, is unknown right after the restart, because
  the sessions are restored before the configured timeouts are wired.\<close>
theorem configured_lifetime_lost_on_restart:
  assumes "auth_run env cfg y" "fst (GetSession (ay_clock y) i (ay_service y)) = Inr x"
    and "sn_createdAt x + sessionMaxLifetime < ay_clock y"
  shows "fst (GetSession (ay_clock y) i (ay_service (boot_system cfg (ay_clock y) acc (ay_db y)))) = Inl ErrSessionNotFound"
proof -
  obtain s db where B: "boot cfg (ay_clock y) (ay_db y) = (s, db)" by fastforce
  have m: "mem_ok cfg (ay_clock y) (av_sessions (ay_service y)) (ad_sessions (ay_db y)) (ay_issued y) (ay_persisted y)"
    using auth_run_inv [OF assms(1)] by (simp add: auth_inv_def sessions_ok_def)
  have x: "av_sessions (ay_service y) i = Some x" using assms(2) by (auto simp: GetSession_def split: option.splits if_splits)
  have "fromUnix (sr_created_at_unix r) < ay_clock y - sessionMaxLifetime" if "ad_sessions (ay_db y) i = Some r" for r
    using mem_okD(3) [OF m x that] assms(3) by (simp add: row_within_def restored_created)
  then have "av_sessions s i = None" by (simp add: boot_spec(2) [OF B] split: option.splits)
  then show ?thesis by (simp add: boot_system_fields(1) [OF B] GetSession_def)
qed

theorem configured_lifetime_lost_on_restart_witness:
  "let y = (demo_logged_in (Some (24 * hour_ns)))\<lparr>ay_clock := demo_start + 9 * hour_ns\<rparr>
   in fst (GetSession (ay_clock y) ''h1'' (ay_service y)) = Inr (il_session demo_login) \<and>
      fst (GetSession (ay_clock y) ''h1'' (ay_service (boot_system (demo_config False (Some (24 * hour_ns))) (ay_clock y) [] (ay_db y)))) =
        Inl ErrSessionNotFound"
proof -
  let ?y = "(demo_logged_in (Some (24 * hour_ns)))\<lparr>ay_clock := demo_start + 9 * hour_ns\<rparr>"
  have run: "auth_run demo_env (demo_config False (Some (24 * hour_ns))) ?y"
    by (rule run_step [OF demo_run], rule step_tick) (simp add: demo_state_def hour_ns_def minute_ns_def second_ns_def)
  have got: "fst (GetSession (ay_clock ?y) ''h1'' (ay_service ?y)) = Inr (il_session demo_login)"
    by (simp add: GetSession_def demo_state_def demo_service_def session_expired_def effectiveSessionMaxLifetime_def
        effectiveSessionIdleTimeout_def demo_login_def hour_ns_def minute_ns_def second_ns_def)
  have "sn_createdAt (il_session demo_login) + sessionMaxLifetime < ay_clock ?y"
    by (simp add: demo_login_def sessionMaxLifetime_def hour_ns_def minute_ns_def second_ns_def)
  from configured_lifetime_lost_on_restart [OF run got this] got show ?thesis unfolding Let_def by blast
qed




text \<open>
  The guard holds for one update at a time only. With two administrators, two updates
  that take the role from both can pass their checks before either is stored; then no administrator
  is left. No lock or transaction spans the count and the write.\<close>
theorem racing_demotions_leave_no_admin:
  assumes "update_check env salt ia s db = Inr (a, a')" "update_check env salt ib s db = Inr (b, b')"
    and "us_role a = RoleAdmin" "ui_role ia \<noteq> RoleAdmin" "ui_role ib \<noteq> RoleAdmin"
    and "list_all (\<lambda>w. us_role w \<noteq> RoleAdmin \<or> us_id w = us_id a \<or> us_id w = us_id b) (ad_users db)"
    and "update_commit up del_up order ia a a' s db = (Inr ra, s1, db1)"
    and "update_commit up' del_up' order' ib b b' s1 db1 = (Inr rb, s2, db2)"
  shows "0 < countAdmins db \<and> countAdmins db2 = 0"
proof -
  note a = update_check_spec [OF assms(1)] and b = update_check_spec [OF assms(2)]
  have "us_role w \<noteq> RoleAdmin" if "w \<in> set (ad_users db2)" for w
    using commit_members [OF assms(8) that] commit_members [OF assms(7), of w] assms(4-6) a(2,3) b(2,3)
    by (auto simp: stored_user_def list_all_iff)
  then have "countAdmins db2 = 0" using has_admin_iff by blast
  moreover have "0 < countAdmins db" using load_user_member [OF a(1)] assms(3) has_admin_iff by blast
  ultimately show ?thesis by blast
qed

theorem racing_demotions_leave_no_admin_witness:
  "0 < countAdmins two_admins \<and>
   countAdmins (two_admins\<lparr>ad_users := [demo_user\<lparr>us_role := RoleOperator\<rparr>, second_admin\<lparr>us_role := RoleOperator\<rparr>]\<rparr>) = 0"
  by (rule racing_demotions_leave_no_admin [OF demote_check _ _ _ _ demote_commit])
    (simp_all add: two_admins_def second_admin_def demo_user_def demote_def RoleOperator_def RoleAdmin_def)


text \<open>
  C20: A login that succeeds was made with the password of the stored account, its cookie is
  accepted at once as a session of that account, and the session of the cookie the browser
  brought along is gone, from memory and from the table.\<close>
theorem login_rotates_session:
  assumes "Authenticate env up del_up put_up salt token input now s db = (Inr cookie, s', db')"
    and "TrimSpace (li_priorCookie input) = prior" "prior \<noteq> []" "ae_hmac env prior \<noteq> []"
    and "ae_hmac env token \<noteq> ae_hmac env prior" "token \<noteq> []"
    and "0 \<le> effectiveSessionMaxLifetime s" "0 \<le> effectiveSessionIdleTimeout s"
  shows "\<exists>user. GetUserByUsername (li_username input) db = Inr user \<and>
      verifyPassword (ae_kdf env) (us_passwordHash user) (li_password input) \<and>
      fst (GetSessionByCookie env now cookie s') =
        Inr \<lparr>sn_userID = us_id user, sn_createdAt = now, sn_lastSeenAt = now\<rparr> \<and>
      fst (GetSessionByCookie env now prior s') = Inl ErrSessionNotFound \<and>
      ad_sessions db' (ae_hmac env prior) = None"
proof -
  obtain user db1 l s1 where V: "login_verify env up salt input db = (Inr user, db1)"
    and I: "login_issue env token input user now s = (Inr l, s1)"
    and P: "persistAuthenticatedSession del_up put_up l db1 = (None, db')"
    and r: "cookie = token" "s' = login_finish l s1"
    using Authenticate_stages [OF assms(1)] by blast
  have user: "GetUserByUsername (li_username input) db = Inr user"
    "verifyPassword (ae_kdf env) (us_passwordHash user) (li_password input)"
    using V by (auto simp: login_verify_def Let_def split: sum.splits if_splits)
  have l: "il_id l = ae_hmac env token" "il_prior l = ae_hmac env prior"
    "il_session l = \<lparr>sn_userID = us_id user, sn_createdAt = now, sn_lastSeenAt = now\<rparr>"
    using I assms(2,3) by (auto simp: login_issue_def Let_def split: sum.splits)
  have eff: "effectiveSessionMaxLifetime s1 = effectiveSessionMaxLifetime s" "effectiveSessionIdleTimeout s1 = effectiveSessionIdleTimeout s"
    using login_issue_timeouts [OF I] by blast+
  have "fst (GetSession now (il_id l) (login_finish l s1)) = Inr (il_session l)"
    by (rule finished_session_found) (use assms(7,8) eff l in simp_all)
  moreover have "av_sessions (login_finish l s1) (ae_hmac env prior) = None"
    using l(1,2) assms(4,5) by (auto simp: login_finish_def)
  moreover have "ad_sessions db' (ae_hmac env prior) = None"
    using persist_spec(3) [OF P] l assms(4,5) by simp
  ultimately show ?thesis
    using user l r assms(3,6) by (simp add: GetSessionByCookie_def GetSession_def)
qed

theorem login_rotates_session_witness:
  "let r = Authenticate demo_env True True True [] ''1'' (demo_input\<lparr>li_priorCookie := ''0''\<rparr>) demo_start
             (demo_service None [''h0'' \<mapsto> il_session demo_login]) (demo_db\<lparr>ad_sessions := [''h0'' \<mapsto> demo_row]\<rparr>)
   in fst r = Inr ''1'' \<and> fst (GetSessionByCookie demo_env demo_start ''0'' (fst (snd r))) = Inl ErrSessionNotFound \<and>
      ad_sessions (snd (snd r)) ''h0'' = None"
proof -
  have t: "TrimSpace ''0'' = ''0''" by (simp add: TrimSpace_solid solid_def)
  have A: "Authenticate demo_env True True True [] ''1'' (demo_input\<lparr>li_priorCookie := ''0''\<rparr>) demo_start
      (demo_service None [''h0'' \<mapsto> il_session demo_login]) (demo_db\<lparr>ad_sessions := [''h0'' \<mapsto> demo_row]\<rparr>) =
    (Inr ''1'', login_finish (demo_login\<lparr>il_prior := ''h0''\<rparr>) (demo_service None [''h0'' \<mapsto> il_session demo_login]),
     demo_db\<lparr>ad_sessions := [''h1'' \<mapsto> demo_row]\<rparr>)"
    using demo_verify_tables [of True "[]" "''0''" "[''h0'' \<mapsto> demo_row]"]
    by (simp add: Authenticate_def login_issue_def demo_user_def demo_env_def t persistAuthenticatedSession_def delete_row_def
        DeleteSession_def PutSession_def demo_db_def user_by_id_def demo_login_def demo_row_def Let_def)
  from login_rotates_session [OF A, of "''0''"] t show ?thesis unfolding Let_def A
    by (auto simp: demo_env_def demo_service_def NewServiceWithStore_def effectiveSessionMaxLifetime_def sessionMaxLifetime_def
        effectiveSessionIdleTimeout_def sessionIdleTimeout_def hour_ns_def minute_ns_def second_ns_def)
qed

end
