(* ===== verification/Client_Types.thy ===== *)
theory Client_Types
  imports Job_Types Go_Strings
begin

section \<open>Clients, assignments and deployments (internal/controlplane/clients)\<close>

text \<open>
  The data of the client domain (types.go) and its pure functions: which agents a client is
  meant for (resolver.go), the rows that say what each agent owes (deployments.go), which rows
  still need a job (reconcile.go) and the validation of an operator's input (validation.go,
  flow.go). A text the program compares with constants is a datatype with those constants and
  a constructor for every other text.
\<close>

subsection \<open>Data\<close>

datatype target_type = TargetTypeFleetGroup | TargetTypeAgent | OtherTargetType string

datatype deployment_status =
    DeploymentStatusQueued
  | DeploymentStatusSucceeded
  | DeploymentStatusFailed
  | DeploymentStatusAwaitingNode
  | OtherDeploymentStatus string

record client =
  cl_id :: string
  cl_name :: string
  cl_secret :: string
  cl_userADTag :: string
  cl_enabled :: bool
  cl_maxTCPConns :: int
  cl_maxUniqueIPs :: int
  cl_dataQuotaBytes :: int
  cl_expiration :: string
  cl_subscriptionToken :: string
  cl_createdAt :: gotime
  cl_updatedAt :: gotime
  cl_deletedAt :: "gotime option"

record assignment =
  ca_id :: string
  ca_clientID :: string
  ca_targetType :: target_type
  ca_fleetGroupID :: string
  ca_agentID :: string
  ca_createdAt :: gotime

record deployment =
  dp_clientID :: string
  dp_agentID :: string
  dp_desiredOperation :: action
  dp_status :: deployment_status
  dp_lastError :: string
  dp_connectionLinks :: "string list"
  dp_linkDiagnostic :: string
  dp_lastAppliedAt :: "gotime option"
  dp_updatedAt :: gotime
  dp_lastResetEpochSecs :: uint64

record usage =
  ug_clientID :: string
  ug_agentID :: string
  ug_trafficUsedBytes :: uint64
  ug_uniqueIPsUsed :: int
  ug_activeTCPConns :: int
  ug_activeUniqueIPs :: int
  ug_quotaUsedBytes :: uint64
  ug_quotaLastResetUnix :: uint64
  ug_agentBootID :: string
  ug_lastTotalBytes :: uint64
  ug_observedAt :: gotime

text \<open>
  A client that an agent reports and the panel does not manage (discovered/types.go), and the
  report itself (\<^verbatim>\<open>ClientDetailRecord\<close> of the gateway protocol).
\<close>

datatype discovered_status = StatusPending | StatusAdopted | StatusIgnored | OtherDiscoveredStatus string

record discovered =
  dc_id :: string
  dc_agentID :: string
  dc_clientName :: string
  dc_secret :: string
  dc_status :: discovered_status
  dc_userADTag :: string
  dc_enabled :: bool
  dc_totalOctets :: uint64
  dc_currentConnections :: "32 word"
  dc_activeUniqueIPs :: "32 word"
  dc_connectionLinks :: "string list"
  dc_maxTCPConns :: int
  dc_maxUniqueIPs :: int
  dc_dataQuotaBytes :: int
  dc_expiration :: string
  dc_firstSeen :: gotime
  dc_updatedAt :: gotime

record client_detail =
  cr_clientID :: string
  cr_clientName :: string
  cr_secret :: string
  cr_userADTag :: string
  cr_enabled :: bool
  cr_totalOctets :: uint64
  cr_currentConnections :: int
  cr_activeUniqueIPs :: int
  cr_connectionLinks :: "string list"
  cr_maxTCPConns :: int
  cr_maxUniqueIPs :: int
  cr_dataQuotaBytes :: uint64
  cr_expiration :: string

text \<open>The zero value of \<^verbatim>\<open>Deployment\<close>, which a read of a missing map entry yields.\<close>

definition zero_deployment :: deployment where
  "zero_deployment = \<lparr>dp_clientID = [], dp_agentID = [], dp_desiredOperation = OtherAction [],
     dp_status = OtherDeploymentStatus [], dp_lastError = [], dp_connectionLinks = [], dp_linkDiagnostic = [],
     dp_lastAppliedAt = None, dp_updatedAt = 0, dp_lastResetEpochSecs = 0\<rparr>"

subsection \<open>Targets\<close>

record topology =
  tp_registered :: "string list"
  tp_fleetMembers :: "string \<Rightarrow> string list"

definition assignment_agents :: "topology \<Rightarrow> assignment \<Rightarrow> string list" where
  "assignment_agents topo a =
     (case ca_targetType a of
        TargetTypeFleetGroup \<Rightarrow> tp_fleetMembers topo (ca_fleetGroupID a)
      | TargetTypeAgent \<Rightarrow> if ca_agentID a \<in> set (tp_registered topo) then [ca_agentID a] else []
      | OtherTargetType _ \<Rightarrow> [])"

definition ResolveTargetAgentIDs :: "assignment list \<Rightarrow> topology \<Rightarrow> string list" where
  "ResolveTargetAgentIDs assignments topo = sort (remdups (concat (map (assignment_agents topo) assignments)))"

definition assignmentMatchesAgent :: "assignment list \<Rightarrow> string \<Rightarrow> string \<Rightarrow> bool" where
  "assignmentMatchesAgent assignments agentID agentFleetGroupID =
     list_ex (\<lambda>a. case ca_targetType a of
                TargetTypeAgent \<Rightarrow> ca_agentID a = agentID
              | TargetTypeFleetGroup \<Rightarrow> agentFleetGroupID \<noteq> [] \<and> ca_fleetGroupID a = agentFleetGroupID
              | OtherTargetType _ \<Rightarrow> False) assignments"

subsection \<open>Deployments\<close>

definition by_agent :: "deployment list \<Rightarrow> string \<rightharpoonup> deployment" where
  "by_agent ds = fold (\<lambda>d m. m(dp_agentID d \<mapsto> d)) ds Map.empty"

definition queue_op :: "action \<Rightarrow> gotime \<Rightarrow> deployment \<Rightarrow> deployment" where
  "queue_op op observedAt d =
     d\<lparr>dp_desiredOperation := op, dp_status := DeploymentStatusQueued, dp_lastError := [], dp_updatedAt := observedAt\<rparr>"

definition queue_target :: "string \<Rightarrow> action \<Rightarrow> gotime \<Rightarrow> string \<Rightarrow> (string \<rightharpoonup> deployment) \<Rightarrow> string \<rightharpoonup> deployment" where
  "queue_target clientID op observedAt agentID m =
     (let d = (case m agentID of Some d \<Rightarrow> d | None \<Rightarrow> zero_deployment)
      in m(agentID \<mapsto> queue_op op observedAt (d\<lparr>dp_clientID := clientID, dp_agentID := agentID\<rparr>)))"

definition BuildDeployments ::
    "deployment list \<Rightarrow> string \<Rightarrow> string list \<Rightarrow> action \<Rightarrow> action \<Rightarrow> gotime \<Rightarrow> deployment list" where
  "BuildDeployments current clientID targetAgentIDs desiredOperation deleteOperation observedAt =
     (let m1 = fold (queue_target clientID desiredOperation observedAt) targetAgentIDs (by_agent current);
          m2 = (if desiredOperation = deleteOperation then m1
                else (\<lambda>a. if a \<in> set targetAgentIDs then m1 a else map_option (queue_op deleteOperation observedAt) (m1 a)))
      in List.map_filter m2 (sort (remdups (map dp_agentID current @ targetAgentIDs))))"

definition RemovedTargetAgentIDs :: "deployment list \<Rightarrow> string list \<Rightarrow> string list" where
  "RemovedTargetAgentIDs current nxt = sort (filter (\<lambda>a. a \<notin> set nxt) (map dp_agentID current))"

definition DeploymentAgentIDs :: "deployment list \<Rightarrow> string list" where
  "DeploymentAgentIDs ds = sort (map dp_agentID ds)"

text \<open>
  The loop removes the ids of the right list from the set of the left one; an id that occurs
  twice on the right is missing the second time, so the answer ignores order but not
  duplicates on the right.
\<close>

fun same_loop :: "string list \<Rightarrow> string set \<Rightarrow> bool" where
  "same_loop [] rest = (rest = {})"
| "same_loop (i # is) rest = (if i \<in> rest then same_loop is (rest - {i}) else False)"

definition sameAgentSet :: "string list \<Rightarrow> string list \<Rightarrow> bool" where
  "sameAgentSet left right = same_loop right (set left)"

definition client_action :: "action \<Rightarrow> bool" where
  "client_action a \<longleftrightarrow> a \<in> {ActionClientCreate, ActionClientUpdate, ActionClientDelete, ActionClientRotateSecret}"

definition divergentDeploymentAction :: "deployment \<Rightarrow> action option" where
  "divergentDeploymentAction d =
     (let action = dp_desiredOperation d
      in if \<not> client_action action then None
         else case dp_status d of
             DeploymentStatusSucceeded \<Rightarrow> None
           | DeploymentStatusQueued \<Rightarrow> Some action
           | DeploymentStatusAwaitingNode \<Rightarrow> Some action
           | DeploymentStatusFailed \<Rightarrow>
               if action = ActionClientDelete \<or> action = ActionClientRotateSecret then Some action else None
           | OtherDeploymentStatus _ \<Rightarrow> None)"

subsection \<open>Usage\<close>

record aggregated_usage =
  au_trafficUsedBytes :: uint64
  au_uniqueIPsUsed :: int
  au_activeTCPConns :: int

text \<open>The order is the one in which the map is visited.\<close>

definition AggregateUsage :: "string list \<Rightarrow> (string \<rightharpoonup> usage) \<Rightarrow> aggregated_usage" where
  "AggregateUsage order usageByAgent =
     fold (\<lambda>snap u. u\<lparr>au_trafficUsedBytes := au_trafficUsedBytes u + ug_trafficUsedBytes snap,
                      au_uniqueIPsUsed := au_uniqueIPsUsed u + ug_uniqueIPsUsed snap,
                      au_activeTCPConns := au_activeTCPConns u + ug_activeTCPConns snap\<rparr>)
       (List.map_filter usageByAgent order) \<lparr>au_trafficUsedBytes = 0, au_uniqueIPsUsed = 0, au_activeTCPConns = 0\<rparr>"

subsection \<open>Validation\<close>

datatype client_error =
    ErrNameRequired
  | ErrNameInvalid
  | ErrNameTaken
  | ErrNameImmutable
  | ErrUserADTag
  | ErrExpiration
  | ErrTargetsRequired
  | ErrLimitNegative
  | ErrInvalidSecret
  | ErrClientNotFound
  | ErrClientStore
  | ErrClientEnqueue
  | ErrVault
  | ErrAlreadyAdopted

definition is_hex :: "char \<Rightarrow> bool" where
  "is_hex c \<longleftrightarrow> (let n = of_char c :: nat in 48 \<le> n \<and> n \<le> 57 \<or> 65 \<le> n \<and> n \<le> 70 \<or> 97 \<le> n \<and> n \<le> 102)"

definition IsValidHexSecret :: "string \<Rightarrow> bool" where
  "IsValidHexSecret s \<longleftrightarrow> length s = 32 \<and> list_all is_hex s"

definition name_char :: "char \<Rightarrow> bool" where
  "name_char c \<longleftrightarrow> (let n = of_char c :: nat in 48 \<le> n \<and> n \<le> 57 \<or> 65 \<le> n \<and> n \<le> 90 \<or> 97 \<le> n \<and> n \<le> 122 \<or> c \<in> set ''_.-'')"

definition clientNameRegex :: "string \<Rightarrow> bool" where
  "clientNameRegex s \<longleftrightarrow> 1 \<le> length s \<and> length s \<le> 64 \<and> list_all name_char s"

text \<open>The random tag is an argument.\<close>

definition ResolveUserADTagExplicit :: "string \<Rightarrow> client_error + string" where
  "ResolveUserADTagExplicit v =
     (let trimmed = TrimSpace v
      in if trimmed = [] then Inr []
         else if length trimmed \<noteq> 32 then Inl ErrUserADTag
         else if \<not> list_all is_hex trimmed then Inl ErrUserADTag
         else Inr (map ascii_lower trimmed))"

definition ResolveUserADTag :: "string \<Rightarrow> string \<Rightarrow> string \<Rightarrow> client_error + string" where
  "ResolveUserADTag fresh v fallback =
     (let trimmed = TrimSpace v
      in if trimmed = [] then (if fallback \<noteq> [] then Inr fallback else Inr fresh)
         else if length trimmed \<noteq> 32 then Inl ErrUserADTag
         else if \<not> list_all is_hex trimmed then Inl ErrUserADTag
         else Inr (map ascii_lower trimmed))"

text \<open>\<^verbatim>\<open>parse\<close> stands for \<^verbatim>\<open>time.Parse(time.RFC3339, s)\<close> followed by \<^verbatim>\<open>UTC().Format\<close>.\<close>

definition NormalizeExpiration :: "(string \<Rightarrow> string option) \<Rightarrow> string \<Rightarrow> client_error + string" where
  "NormalizeExpiration parse v =
     (let trimmed = TrimSpace v
      in if trimmed = [] then Inr [] else case parse trimmed of None \<Rightarrow> Inl ErrExpiration | Some s \<Rightarrow> Inr s)"

definition NormalizedIDs :: "string list \<Rightarrow> string list" where
  "NormalizedIDs vs = sort (remdups (filter (\<lambda>v. v \<noteq> []) (map TrimSpace vs)))"

definition validateClientLimits :: "int \<Rightarrow> int \<Rightarrow> int \<Rightarrow> client_error option" where
  "validateClientLimits maxTCPConns maxUniqueIPs dataQuotaBytes =
     (if maxTCPConns < 0 \<or> maxUniqueIPs < 0 \<or> dataQuotaBytes < 0 then Some ErrLimitNegative else None)"

subsection \<open>Facts\<close>

lemma resolve_props:
  "set (ResolveTargetAgentIDs as topo) = (\<Union>a \<in> set as. set (assignment_agents topo a))"
  "sorted (ResolveTargetAgentIDs as topo)" "distinct (ResolveTargetAgentIDs as topo)"
  by (simp_all add: ResolveTargetAgentIDs_def)

lemma by_agent_Nil [simp]: "by_agent [] = Map.empty"
  by (simp add: by_agent_def)

lemma by_agent_snoc [simp]: "by_agent (ds @ [d]) = (by_agent ds)(dp_agentID d \<mapsto> d)"
  by (simp add: by_agent_def)

lemma by_agent_dom: "by_agent ds a = None \<longleftrightarrow> a \<notin> dp_agentID ` set ds"
  by (induction ds rule: rev_induct) auto

lemma by_agent_id: "by_agent ds a = Some d \<Longrightarrow> dp_agentID d = a \<and> d \<in> set ds"
  by (induction ds rule: rev_induct) (auto split: if_splits)

lemma by_agent_distinct: "distinct (map dp_agentID ds) \<Longrightarrow> d \<in> set ds \<Longrightarrow> by_agent ds (dp_agentID d) = Some d"
  by (induction ds rule: rev_induct) (auto simp: image_iff)

lemma same_loop_spec: "distinct is \<Longrightarrow> same_loop is S \<longleftrightarrow> set is = S"
  by (induction "is" arbitrary: S) auto

lemma sameAgentSet_spec: "distinct right \<Longrightarrow> sameAgentSet left right \<longleftrightarrow> set left = set right"
  by (auto simp: sameAgentSet_def same_loop_spec)


text \<open>What \<^verbatim>\<open>BuildDeployments\<close> leaves for each agent.\<close>

definition target_row :: "string \<Rightarrow> action \<Rightarrow> gotime \<Rightarrow> string \<Rightarrow> deployment option \<Rightarrow> deployment" where
  "target_row clientID op observedAt agentID old =
     queue_op op observedAt ((case old of Some d \<Rightarrow> d | None \<Rightarrow> zero_deployment)\<lparr>dp_clientID := clientID, dp_agentID := agentID\<rparr>)"

lemma target_row_fields [simp]:
  "dp_agentID (target_row c op t a old) = a" "dp_clientID (target_row c op t a old) = c"
  "dp_desiredOperation (target_row c op t a old) = op" "dp_status (target_row c op t a old) = DeploymentStatusQueued"
  by (simp_all add: target_row_def queue_op_def)

lemma queue_op_fields [simp]:
  "dp_agentID (queue_op op t d) = dp_agentID d" "dp_clientID (queue_op op t d) = dp_clientID d"
  "dp_desiredOperation (queue_op op t d) = op" "dp_status (queue_op op t d) = DeploymentStatusQueued"
  by (simp_all add: queue_op_def)

lemma target_row_again: "target_row c op t a (Some (target_row c op t a old)) = target_row c op t a old"
  by (simp add: target_row_def queue_op_def)

lemma fold_queue_target:
  "fold (queue_target c op t) ts m a = (if a \<in> set ts then Some (target_row c op t a (m a)) else m a)"
  by (induction ts arbitrary: m) (auto simp: queue_target_def target_row_def [symmetric] target_row_again)

lemma map_filter_agents:
  assumes "\<And>a d. m a = Some d \<Longrightarrow> dp_agentID d = a"
  shows "map dp_agentID (List.map_filter m as) = filter (\<lambda>a. m a \<noteq> None) as"
    "distinct as \<Longrightarrow> a \<in> set as \<Longrightarrow> by_agent (List.map_filter m as) a = m a"
proof -
  show ids: "map dp_agentID (List.map_filter m as) = filter (\<lambda>a. m a \<noteq> None) as"
    by (induction as) (auto simp: map_filter_simps assms split: option.splits)
  assume d: "distinct as" "a \<in> set as"
  show "by_agent (List.map_filter m as) a = m a"
  proof (cases "m a")
    case None
    then have "a \<notin> set (map dp_agentID (List.map_filter m as))" by (simp add: ids)
    with None show ?thesis by (simp add: by_agent_dom)
  next
    case (Some x)
    then have "x \<in> set (List.map_filter m as)" using d(2) by (force simp: List.map_filter_def)
    moreover have "distinct (map dp_agentID (List.map_filter m as))" using d(1) by (simp add: ids)
    ultimately have "by_agent (List.map_filter m as) (dp_agentID x) = Some x" by (intro by_agent_distinct)
    then show ?thesis using assms [OF Some] Some by simp
  qed
qed

lemma BuildDeployments_spec:
  "by_agent (BuildDeployments cur c ts op del t) a =
     (if a \<in> set ts then Some (target_row c op t a (by_agent cur a))
      else if op = del then by_agent cur a else map_option (queue_op del t) (by_agent cur a))"
  "sorted (map dp_agentID (BuildDeployments cur c ts op del t))"
  "distinct (map dp_agentID (BuildDeployments cur c ts op del t))"
proof -
  let ?m1 = "fold (queue_target c op t) ts (by_agent cur)"
  let ?m2 = "if op = del then ?m1 else (\<lambda>a. if a \<in> set ts then ?m1 a else map_option (queue_op del t) (?m1 a))"
  let ?as = "sort (remdups (map dp_agentID cur @ ts))"
  have B: "BuildDeployments cur c ts op del t = List.map_filter ?m2 ?as"
    unfolding BuildDeployments_def Let_def ..
  have m2: "?m2 a = (if a \<in> set ts then Some (target_row c op t a (by_agent cur a))
      else if op = del then by_agent cur a else map_option (queue_op del t) (by_agent cur a))" for a
    by (simp add: fold_queue_target)
  have key: "dp_agentID d = a" if "?m2 a = Some d" for a d
    using that unfolding m2 by (auto dest: by_agent_id split: if_splits)
  have ids: "map dp_agentID (BuildDeployments cur c ts op del t) = filter (\<lambda>a. ?m2 a \<noteq> None) ?as"
    unfolding B by (rule map_filter_agents(1)) (rule key)
  show "sorted (map dp_agentID (BuildDeployments cur c ts op del t))"
    unfolding ids by (rule sorted_filter [of id, simplified], rule sorted_sort)
  show "distinct (map dp_agentID (BuildDeployments cur c ts op del t))" unfolding ids by simp
  show "by_agent (BuildDeployments cur c ts op del t) a =
     (if a \<in> set ts then Some (target_row c op t a (by_agent cur a))
      else if op = del then by_agent cur a else map_option (queue_op del t) (by_agent cur a))"
  proof (cases "a \<in> set ?as")
    case True
    then show ?thesis unfolding B m2 [symmetric] using key by (intro map_filter_agents(2)) auto
  next
    case False
    then have "a \<notin> set ts" "by_agent cur a = None" by (auto simp: by_agent_dom)
    moreover have "a \<notin> set (map dp_agentID (BuildDeployments cur c ts op del t))" using False unfolding ids by simp
    then have "by_agent (BuildDeployments cur c ts op del t) a = None" by (simp add: by_agent_dom)
    ultimately show ?thesis by simp
  qed
qed

end
