(* ===== verification/Client_Store.thy ===== *)
theory Client_Store
  imports Client_Types Job_Store
begin

section \<open>The tables of the client domain (storage/sqlite/clients_repository.go, discovered_repository.go)\<close>

text \<open>
  A table is the list of its rows; a row is found by its key. The foreign keys of the schema
  are checked on every insert, as the store switches them on, and a unit of work either
  applies all its statements or none. Instants lose their fraction of a second on the way
  through a table. The JSON column of the connection links is seen through its codec, and an
  unsigned counter through the signed column that holds the same 64 bits.
\<close>

subsection \<open>Keyed tables\<close>

definition row_of :: "('a \<Rightarrow> 'k) \<Rightarrow> 'k \<Rightarrow> 'a list \<Rightarrow> 'a option" where
  "row_of key k rows = find (\<lambda>r. key r = k) rows"

definition upsert :: "('a \<Rightarrow> 'k) \<Rightarrow> 'a \<Rightarrow> 'a list \<Rightarrow> 'a list" where
  "upsert key r rows =
     (if row_of key (key r) rows = None then rows @ [r] else map (\<lambda>x. if key x = key r then r else x) rows)"

lemma row_of_append: "row_of key k (xs @ ys) = (case row_of key k xs of Some r \<Rightarrow> Some r | None \<Rightarrow> row_of key k ys)"
  by (induction xs) (simp_all add: row_of_def)

lemma row_of_key: "row_of key k rows = Some r \<Longrightarrow> key r = k \<and> r \<in> set rows"
  by (auto simp: row_of_def find_Some_iff)

lemma row_of_None: "row_of key k rows = None \<longleftrightarrow> k \<notin> key ` set rows"
  by (auto simp: row_of_def find_None_iff)

lemma row_of_map: "row_of key k (map (\<lambda>x. if key x = key r then r else x) rows) =
   (if k = key r then map_option (\<lambda>_. r) (row_of key k rows) else row_of key k rows)"
  by (induction rows) (auto simp: row_of_def)

lemma row_of_upsert [simp]: "row_of key k (upsert key r rows) = (if k = key r then Some r else row_of key k rows)"
  by (auto simp: upsert_def row_of_append row_of_map split: option.splits) (auto simp: row_of_def)

lemma row_of_filter: "row_of key k (filter (\<lambda>x. P (key x)) rows) = (if P k then row_of key k rows else None)"
  by (induction rows) (auto simp: row_of_def)

lemma distinct_rows_upsert:
  assumes "distinct (map key rows)"
  shows "distinct (map key (upsert key r rows))"
proof (cases "row_of key (key r) rows")
  case None
  with assms show ?thesis by (simp add: upsert_def row_of_None)
next
  case (Some x)
  have "map key (map (\<lambda>x. if key x = key r then r else x) rows) = map key rows" by (induction rows) auto
  with assms Some show ?thesis unfolding upsert_def by (simp only: option.distinct if_False)
qed

lemma row_of_distinct: "distinct (map key rows) \<Longrightarrow> r \<in> set rows \<Longrightarrow> row_of key (key r) rows = Some r"
  by (induction rows) (auto simp: row_of_def)

lemma in_rows_upsert: "x \<in> set (upsert key r rows) \<Longrightarrow> x = r \<or> x \<in> set rows \<and> key x \<noteq> key r"
  by (auto simp: upsert_def row_of_None image_iff split: if_splits)

subsection \<open>State\<close>

record client_db =
  cd_clients :: "client list"
  cd_assignments :: "assignment list"
  cd_deployments :: "deployment list"
  cd_usage :: "usage list"
  cd_agents :: "string list"
  cd_groups :: "string list"
  cd_discovered :: "discovered list"

definition to_seconds :: "gotime \<Rightarrow> gotime" where
  "to_seconds t = fromUnix (toUnix t)"

definition dep_key :: "deployment \<Rightarrow> string \<times> string" where
  "dep_key d = (dp_clientID d, dp_agentID d)"

definition usage_key :: "usage \<Rightarrow> string \<times> string" where
  "usage_key u = (ug_clientID u, ug_agentID u)"

definition has_client :: "string \<Rightarrow> client_db \<Rightarrow> bool" where
  "has_client i db \<longleftrightarrow> row_of cl_id i (cd_clients db) \<noteq> None"

subsection \<open>Clients\<close>

definition stored_client :: "client \<Rightarrow> client" where
  "stored_client c = c\<lparr>cl_createdAt := to_seconds (cl_createdAt c), cl_updatedAt := to_seconds (cl_updatedAt c),
     cl_deletedAt := map_option to_seconds (cl_deletedAt c)\<rparr>"

text \<open>An update keeps the creation instant of the row.\<close>

definition repo_Save :: "client \<Rightarrow> client_db \<Rightarrow> store_error + client_db" where
  "repo_Save c db =
     (let r = stored_client c;
          r1 = (case row_of cl_id (cl_id c) (cd_clients db) of
                  Some old \<Rightarrow> r\<lparr>cl_createdAt := cl_createdAt old\<rparr> | None \<Rightarrow> r)
      in if cl_subscriptionToken c \<noteq> [] \<and>
            list_ex (\<lambda>x. cl_id x \<noteq> cl_id c \<and> cl_subscriptionToken x = cl_subscriptionToken c) (cd_clients db)
         then Inl UniqueViolation
         else Inr (db\<lparr>cd_clients := upsert cl_id r1 (cd_clients db)\<rparr>))"

definition repo_List :: "client_db \<Rightarrow> client list" where
  "repo_List db = sort_key (\<lambda>c. (cl_createdAt c, cl_id c)) (filter (\<lambda>c. cl_deletedAt c = None) (cd_clients db))"

definition repo_Get :: "string \<Rightarrow> client_db \<Rightarrow> store_error + client" where
  "repo_Get i db =
     (case row_of cl_id i (cd_clients db) of
        Some c \<Rightarrow> if cl_deletedAt c = None then Inr c else Inl ErrNotFound | None \<Rightarrow> Inl ErrNotFound)"

definition GetBySubscriptionToken :: "string \<Rightarrow> client_db \<Rightarrow> store_error + client" where
  "GetBySubscriptionToken token db =
     (if token = [] then Inl ErrNotFound
      else case find (\<lambda>c. cl_subscriptionToken c = token \<and> cl_deletedAt c = None) (cd_clients db) of
          None \<Rightarrow> Inl ErrNotFound | Some c \<Rightarrow> Inr c)"

subsection \<open>Assignments\<close>

definition deleteAssignmentsRaw :: "string \<Rightarrow> client_db \<Rightarrow> client_db" where
  "deleteAssignmentsRaw clientID db = db\<lparr>cd_assignments := filter (\<lambda>a. ca_clientID a \<noteq> clientID) (cd_assignments db)\<rparr>"

definition insertAssignment :: "assignment \<Rightarrow> client_db \<Rightarrow> store_error + client_db" where
  "insertAssignment a db =
     (if \<not> has_client (ca_clientID a) db then Inl ForeignKeyViolation
      else if ca_fleetGroupID a \<noteq> [] \<and> ca_fleetGroupID a \<notin> set (cd_groups db) then Inl ForeignKeyViolation
      else if ca_agentID a \<noteq> [] \<and> ca_agentID a \<notin> set (cd_agents db) then Inl ForeignKeyViolation
      else Inr (db\<lparr>cd_assignments := upsert ca_id (a\<lparr>ca_createdAt := to_seconds (ca_createdAt a)\<rparr>) (cd_assignments db)\<rparr>))"

fun each_row :: "('r \<Rightarrow> client_db \<Rightarrow> store_error + client_db) \<Rightarrow> 'r list \<Rightarrow> client_db \<Rightarrow> store_error + client_db" where
  "each_row f [] db = Inr db"
| "each_row f (r # rs) db = (case f r db of Inl e \<Rightarrow> Inl e | Inr db' \<Rightarrow> each_row f rs db')"

definition SaveAssignments :: "string \<Rightarrow> assignment list \<Rightarrow> client_db \<Rightarrow> store_error + client_db" where
  "SaveAssignments clientID assignments db = each_row insertAssignment assignments (deleteAssignmentsRaw clientID db)"

definition ListAssignments :: "string \<Rightarrow> client_db \<Rightarrow> assignment list" where
  "ListAssignments clientID db =
     sort_key (\<lambda>a. (ca_createdAt a, ca_id a)) (filter (\<lambda>a. ca_clientID a = clientID) (cd_assignments db))"

subsection \<open>Deployments\<close>

definition deleteDeploymentsRaw :: "string \<Rightarrow> client_db \<Rightarrow> client_db" where
  "deleteDeploymentsRaw clientID db = db\<lparr>cd_deployments := filter (\<lambda>d. dp_clientID d \<noteq> clientID) (cd_deployments db)\<rparr>"

definition stored_deployment :: "deployment \<Rightarrow> deployment" where
  "stored_deployment d = d\<lparr>dp_lastAppliedAt := map_option to_seconds (dp_lastAppliedAt d), dp_updatedAt := to_seconds (dp_updatedAt d)\<rparr>"

definition upsertDeployment :: "deployment \<Rightarrow> client_db \<Rightarrow> store_error + client_db" where
  "upsertDeployment d db =
     (if \<not> has_client (dp_clientID d) db then Inl ForeignKeyViolation
      else if dp_agentID d \<notin> set (cd_agents db) then Inl ForeignKeyViolation
      else Inr (db\<lparr>cd_deployments := upsert dep_key (stored_deployment d) (cd_deployments db)\<rparr>))"

definition SaveDeployments :: "string \<Rightarrow> deployment list \<Rightarrow> client_db \<Rightarrow> store_error + client_db" where
  "SaveDeployments clientID deployments db = each_row upsertDeployment deployments (deleteDeploymentsRaw clientID db)"

definition ListDeployments :: "string \<Rightarrow> client_db \<Rightarrow> deployment list" where
  "ListDeployments clientID db = sort_key dp_agentID (filter (\<lambda>d. dp_clientID d = clientID) (cd_deployments db))"

definition PutDeployment :: "deployment \<Rightarrow> client_db \<Rightarrow> store_error + client_db" where
  "PutDeployment = upsertDeployment"

subsection \<open>Usage\<close>

definition upsertUsageRow :: "usage \<Rightarrow> client_db \<Rightarrow> store_error + client_db" where
  "upsertUsageRow u db =
     (if \<not> has_client (ug_clientID u) db then Inl ForeignKeyViolation
      else if ug_agentID u \<notin> set (cd_agents db) then Inl ForeignKeyViolation
      else Inr (db\<lparr>cd_usage := upsert usage_key (u\<lparr>ug_observedAt := to_seconds (ug_observedAt u)\<rparr>) (cd_usage db)\<rparr>))"

definition repo_UpsertUsage :: "usage \<Rightarrow> client_db \<Rightarrow> store_error + client_db" where
  "repo_UpsertUsage = upsertUsageRow"

definition bulkUpsertUsage :: "usage list \<Rightarrow> client_db \<Rightarrow> store_error + client_db" where
  "bulkUpsertUsage batch db = each_row upsertUsageRow batch db"

definition ListUsage :: "client_db \<Rightarrow> usage list" where
  "ListUsage db = cd_usage db"

definition deleteUsageRaw :: "string \<Rightarrow> client_db \<Rightarrow> client_db" where
  "deleteUsageRaw clientID db = db\<lparr>cd_usage := filter (\<lambda>u. ug_clientID u \<noteq> clientID) (cd_usage db)\<rparr>"

subsection \<open>Removal\<close>

definition repo_Delete :: "gotime \<Rightarrow> string \<Rightarrow> client_db \<Rightarrow> store_error + client_db" where
  "repo_Delete now i db =
     (case row_of cl_id i (cd_clients db) of
        None \<Rightarrow> Inl ErrNotFound
      | Some c \<Rightarrow>
          if cl_deletedAt c \<noteq> None then Inl ErrNotFound
          else Inr (deleteUsageRaw i (deleteDeploymentsRaw i (deleteAssignmentsRaw i
                 (db\<lparr>cd_clients := upsert cl_id (c\<lparr>cl_deletedAt := Some (to_seconds now)\<rparr>) (cd_clients db)\<rparr>)))))"

text \<open>
  \<^verbatim>\<open>DELETE FROM agents\<close>: the rows of the agent's deployments, usage and discovered clients go with it, an assignment
  to it loses the reference.
\<close>

definition DeleteAgent :: "string \<Rightarrow> client_db \<Rightarrow> store_error + client_db" where
  "DeleteAgent agentID db =
     (if agentID \<notin> set (cd_agents db) then Inl ErrNotFound
      else Inr (db\<lparr>cd_agents := filter (\<lambda>a. a \<noteq> agentID) (cd_agents db),
                   cd_deployments := filter (\<lambda>d. dp_agentID d \<noteq> agentID) (cd_deployments db),
                   cd_usage := filter (\<lambda>u. ug_agentID u \<noteq> agentID) (cd_usage db),
                   cd_discovered := filter (\<lambda>r. dc_agentID r \<noteq> agentID) (cd_discovered db),
                   cd_assignments := map (\<lambda>a. if ca_agentID a = agentID then a\<lparr>ca_agentID := []\<rparr> else a) (cd_assignments db)\<rparr>))"

subsection \<open>Discovered clients (storage/sqlite/discovered_repository.go)\<close>

text \<open>
  The column of the octets is a signed 64-bit integer. A row is written with the bits of the
  unsigned counter; reading it back into an unsigned variable fails when the column is negative.
\<close>

definition scanDiscoveredClient :: "discovered \<Rightarrow> store_error + discovered" where
  "scanDiscoveredClient r = (if uint (dc_totalOctets r) < 2 ^ 63 then Inr r else Inl ScanError)"

definition readable_rows :: "discovered list \<Rightarrow> bool" where
  "readable_rows rows \<longleftrightarrow> list_all (\<lambda>r. uint (dc_totalOctets r) < 2 ^ 63) rows"

fun scan_rows :: "discovered list \<Rightarrow> store_error + discovered list" where
  "scan_rows [] = Inr []"
| "scan_rows (r # rs) =
     (case scanDiscoveredClient r of Inl e \<Rightarrow> Inl e
      | Inr dc \<Rightarrow> (case scan_rows rs of Inl e \<Rightarrow> Inl e | Inr dcs \<Rightarrow> Inr (dc # dcs)))"

lemma scan_rows_readable: "scan_rows rows = (if readable_rows rows then Inr rows else Inl ScanError)"
  by (induction rows) (simp_all add: readable_rows_def scanDiscoveredClient_def)

definition disc_order :: "discovered list \<Rightarrow> discovered list" where
  "disc_order rows = sort_key (\<lambda>r. (- dc_firstSeen r, dc_id r)) rows"

definition disc_Get :: "string \<Rightarrow> client_db \<Rightarrow> store_error + discovered" where
  "disc_Get i db = (case row_of dc_id i (cd_discovered db) of None \<Rightarrow> Inl ErrNotFound | Some r \<Rightarrow> scanDiscoveredClient r)"

definition disc_key :: "discovered \<Rightarrow> string \<times> string" where
  "disc_key r = (dc_agentID r, dc_clientName r)"

definition GetByAgentAndName :: "string \<Rightarrow> string \<Rightarrow> client_db \<Rightarrow> store_error + discovered" where
  "GetByAgentAndName agentID clientName db =
     (case row_of disc_key (agentID, clientName) (cd_discovered db) of None \<Rightarrow> Inl ErrNotFound | Some r \<Rightarrow> scanDiscoveredClient r)"

definition disc_List :: "client_db \<Rightarrow> store_error + discovered list" where
  "disc_List db = scan_rows (disc_order (cd_discovered db))"

lemma disc_List_readable:
  "disc_List db = (if readable_rows (cd_discovered db) then Inr (disc_order (cd_discovered db)) else Inl ScanError)"
  by (simp add: disc_List_def scan_rows_readable) (simp add: readable_rows_def disc_order_def list_all_iff)

definition disc_ListByAgent :: "string \<Rightarrow> client_db \<Rightarrow> store_error + discovered list" where
  "disc_ListByAgent agentID db = scan_rows (disc_order (filter (\<lambda>r. dc_agentID r = agentID) (cd_discovered db)))"

definition disc_status_ok :: "discovered_status \<Rightarrow> bool" where
  "disc_status_ok st \<longleftrightarrow> st \<in> {StatusPending, StatusAdopted, StatusIgnored}"

text \<open>An update of a row keeps its agent and its client name.\<close>

definition disc_Save :: "discovered \<Rightarrow> client_db \<Rightarrow> store_error + client_db" where
  "disc_Save dc db =
     (let r = dc\<lparr>dc_firstSeen := to_seconds (dc_firstSeen dc), dc_updatedAt := to_seconds (dc_updatedAt dc)\<rparr>
      in if \<not> disc_status_ok (dc_status dc) then Inl CheckViolation
         else if list_ex (\<lambda>x. dc_id x \<noteq> dc_id dc \<and> disc_key x = disc_key dc) (cd_discovered db) then Inl UniqueViolation
         else case row_of dc_id (dc_id dc) (cd_discovered db) of
             Some old \<Rightarrow> Inr (db\<lparr>cd_discovered := upsert dc_id (r\<lparr>dc_agentID := dc_agentID old, dc_clientName := dc_clientName old\<rparr>) (cd_discovered db)\<rparr>)
           | None \<Rightarrow> if dc_agentID dc \<notin> set (cd_agents db) then Inl ForeignKeyViolation
                     else Inr (db\<lparr>cd_discovered := cd_discovered db @ [r]\<rparr>))"

definition set_disc_status :: "string set \<Rightarrow> discovered_status \<Rightarrow> gotime \<Rightarrow> discovered list \<Rightarrow> discovered list" where
  "set_disc_status ids st t rows =
     map (\<lambda>r. if dc_id r \<in> ids then r\<lparr>dc_status := st, dc_updatedAt := to_seconds t\<rparr> else r) rows"

definition disc_UpdateStatus :: "string \<Rightarrow> discovered_status \<Rightarrow> gotime \<Rightarrow> client_db \<Rightarrow> store_error + client_db" where
  "disc_UpdateStatus i st t db =
     (if row_of dc_id i (cd_discovered db) = None then Inl ErrNotFound
      else if \<not> disc_status_ok st then Inl CheckViolation
      else Inr (db\<lparr>cd_discovered := set_disc_status {i} st t (cd_discovered db)\<rparr>))"

definition disc_UpdateStatusBulk :: "string list \<Rightarrow> discovered_status \<Rightarrow> gotime \<Rightarrow> client_db \<Rightarrow> store_error + client_db" where
  "disc_UpdateStatusBulk ids st t db =
     (if ids = [] then Inr db
      else if \<not> disc_status_ok st \<and> list_ex (\<lambda>r. dc_id r \<in> set ids) (cd_discovered db) then Inl CheckViolation
      else Inr (db\<lparr>cd_discovered := set_disc_status (set ids) st t (cd_discovered db)\<rparr>))"

definition disc_Delete :: "string \<Rightarrow> client_db \<Rightarrow> store_error + client_db" where
  "disc_Delete i db =
     (if row_of dc_id i (cd_discovered db) = None then Inl ErrNotFound
      else Inr (db\<lparr>cd_discovered := filter (\<lambda>r. dc_id r \<noteq> i) (cd_discovered db)\<rparr>))"

subsection \<open>The unit of work behind a save\<close>

definition save_transaction ::
    "client \<Rightarrow> assignment list \<Rightarrow> deployment list \<Rightarrow> client_db \<Rightarrow> store_error + client_db" where
  "save_transaction c assignments deployments db =
     (case repo_Save c db of Inl e \<Rightarrow> Inl e
      | Inr db1 \<Rightarrow>
          (case SaveAssignments (cl_id c) assignments db1 of Inl e \<Rightarrow> Inl e
           | Inr db2 \<Rightarrow> SaveDeployments (cl_id c) deployments db2))"

end
