(* ===== verification/Client_Service.thy ===== *)
theory Client_Service
  imports Client_Store Seqid
begin

section \<open>The mirror of the client domain (clients/service.go)\<close>

text \<open>
  The service answers every read from maps in memory and writes through to the tables. The
  model has the maps, the index of names and the three sequence counters; the vault
  that seals a client's secret is the record of its operations, and random tokens are
  arguments. A save holds the lock of its client across the commit and the update of the
  maps, so a save is one step here.
\<close>

subsection \<open>State\<close>

record client_service =
  cs_clientSeq :: uint64
  cs_assignmentSeq :: uint64
  cs_discoveredSeq :: uint64
  cs_clients :: "string \<rightharpoonup> client"
  cs_assignments :: "string \<rightharpoonup> assignment list"
  cs_deployments :: "string \<rightharpoonup> (string \<rightharpoonup> deployment)"
  cs_usage :: "string \<rightharpoonup> (string \<rightharpoonup> usage)"
  cs_names :: "string \<rightharpoonup> string set"
  cs_lastTry :: "string \<rightharpoonup> gotime"
  cs_attempts :: "string \<rightharpoonup> nat"
  cs_orphanSeen :: "string set"

definition NewService :: client_service where
  "NewService = \<lparr>cs_clientSeq = 0, cs_assignmentSeq = 0, cs_discoveredSeq = 0, cs_clients = Map.empty,
     cs_assignments = Map.empty, cs_deployments = Map.empty, cs_usage = Map.empty, cs_names = Map.empty,
     cs_lastTry = Map.empty, cs_attempts = Map.empty, cs_orphanSeen = {}\<rparr>"

record vault_ops =
  vo_enabled :: bool
  vo_seal :: "string \<Rightarrow> string option"
  vo_open :: "string \<Rightarrow> string option"
  vo_isEncrypted :: "string \<Rightarrow> bool"

text \<open>Reading a missing entry of a map of maps yields the empty map.\<close>

definition inner :: "('k \<rightharpoonup> ('l \<rightharpoonup> 'v)) \<Rightarrow> 'k \<Rightarrow> 'l \<rightharpoonup> 'v" where
  "inner m k = (case m k of Some mm \<Rightarrow> mm | None \<Rightarrow> Map.empty)"

subsection \<open>The index of names\<close>

definition removeNameIndexLocked :: "string \<Rightarrow> string \<Rightarrow> client_service \<Rightarrow> client_service" where
  "removeNameIndexLocked name i s =
     (case cs_names s name of
        None \<Rightarrow> s
      | Some ids \<Rightarrow>
          if ids - {i} = {} then s\<lparr>cs_names := (cs_names s)(name := None)\<rparr>
          else s\<lparr>cs_names := (cs_names s)(name \<mapsto> ids - {i})\<rparr>)"

definition setMirrorClientLocked :: "client \<Rightarrow> client_service \<Rightarrow> client_service" where
  "setMirrorClientLocked c s =
     (let s1 = (case cs_clients s (cl_id c) of
                  Some prev \<Rightarrow> if cl_name prev \<noteq> cl_name c then removeNameIndexLocked (cl_name prev) (cl_id c) s else s
                | None \<Rightarrow> s);
          ids = (case cs_names s1 (cl_name c) of Some ids \<Rightarrow> ids | None \<Rightarrow> {})
      in s1\<lparr>cs_clients := (cs_clients s1)(cl_id c \<mapsto> c), cs_names := (cs_names s1)(cl_name c \<mapsto> insert (cl_id c) ids)\<rparr>)"

definition deleteMirrorClientLocked :: "string \<Rightarrow> client_service \<Rightarrow> client_service" where
  "deleteMirrorClientLocked i s =
     (let s1 = (case cs_clients s i of Some prev \<Rightarrow> removeNameIndexLocked (cl_name prev) i s | None \<Rightarrow> s)
      in s1\<lparr>cs_clients := (cs_clients s1)(i := None)\<rparr>)"

definition NameTaken :: "string \<Rightarrow> string \<Rightarrow> client_service \<Rightarrow> bool" where
  "NameTaken name excludeID s =
     (case cs_names s name of None \<Rightarrow> False
      | Some ids \<Rightarrow> \<exists>i \<in> ids. i \<noteq> excludeID \<and>
          (case cs_clients s i of Some c \<Rightarrow> cl_deletedAt c = None | None \<Rightarrow> False))"

subsection \<open>Sequences\<close>

definition newSequenceID :: "string \<Rightarrow> uint64 \<Rightarrow> string" where
  "newSequenceID prefix v = prefix @ ''-'' @ pad_zero 7 (unat v)"

definition NextClientID :: "client_service \<Rightarrow> string \<times> client_service" where
  "NextClientID s = (let n = cs_clientSeq s + 1 in (newSequenceID ''client'' n, s\<lparr>cs_clientSeq := n\<rparr>))"

definition NextAssignmentID :: "client_service \<Rightarrow> string \<times> client_service" where
  "NextAssignmentID s = (let n = cs_assignmentSeq s + 1 in (newSequenceID ''client-assignment'' n, s\<lparr>cs_assignmentSeq := n\<rparr>))"

definition NextDiscoveredID :: "client_service \<Rightarrow> string \<times> client_service" where
  "NextDiscoveredID s = (let n = cs_discoveredSeq s + 1 in (newSequenceID ''discovered'' n, s\<lparr>cs_discoveredSeq := n\<rparr>))"

definition recoverSequencesLocked :: "string list \<Rightarrow> string list \<Rightarrow> string list \<Rightarrow> client_service \<Rightarrow> client_service" where
  "recoverSequencesLocked clientIDs assignmentIDs discoveredIDs s =
     s\<lparr>cs_clientSeq := fold (\<lambda>i n. MaxPrefixed n ''client'' i) clientIDs (cs_clientSeq s),
       cs_assignmentSeq := fold (\<lambda>i n. MaxPrefixed n ''client-assignment'' i) assignmentIDs (cs_assignmentSeq s),
       cs_discoveredSeq := fold (\<lambda>i n. MaxPrefixed n ''discovered'' i) discoveredIDs (cs_discoveredSeq s)\<rparr>"

subsection \<open>Secrets\<close>

definition encryptSecret :: "vault_ops \<Rightarrow> string \<Rightarrow> string option" where
  "encryptSecret v plaintext = vo_seal v plaintext"

definition decryptSecret :: "vault_ops \<Rightarrow> string \<Rightarrow> string option" where
  "decryptSecret v ciphertext = (if \<not> vo_enabled v \<or> ciphertext = [] then Some ciphertext else vo_open v ciphertext)"

fun decrypt_layers :: "nat \<Rightarrow> vault_ops \<Rightarrow> string \<Rightarrow> string option" where
  "decrypt_layers 0 v out = Some out"
| "decrypt_layers (Suc n) v out =
     (if \<not> vo_enabled v \<or> \<not> vo_isEncrypted v out then Some out
      else case decryptSecret v out of None \<Rightarrow> None
           | Some pt \<Rightarrow> if pt = out then Some out else decrypt_layers n v pt)"

definition decryptSecretFully :: "vault_ops \<Rightarrow> string \<Rightarrow> string option" where
  "decryptSecretFully v value = decrypt_layers 4 v value"

subsection \<open>Restore\<close>

definition restore_client :: "client_db \<Rightarrow> client \<Rightarrow> client_service \<Rightarrow> client_service" where
  "restore_client db c s =
     (let s1 = setMirrorClientLocked c s
      in s1\<lparr>cs_assignments := (cs_assignments s1)(cl_id c \<mapsto> ListAssignments (cl_id c) db),
            cs_deployments := (cs_deployments s1)(cl_id c \<mapsto> by_agent (ListDeployments (cl_id c) db))\<rparr>)"

fun restore_clients :: "vault_ops \<Rightarrow> client_db \<Rightarrow> client list \<Rightarrow> client_service \<Rightarrow> client_error + client_service" where
  "restore_clients v db [] s = Inr s"
| "restore_clients v db (c # cs) s =
     (case decryptSecretFully v (cl_secret c) of
        None \<Rightarrow> Inl ErrVault
      | Some plaintext \<Rightarrow> restore_clients v db cs (restore_client db (c\<lparr>cl_secret := plaintext\<rparr>) s))"

definition applyUsageMirrorLocked :: "usage \<Rightarrow> client_service \<Rightarrow> client_service" where
  "applyUsageMirrorLocked u s =
     s\<lparr>cs_usage := (cs_usage s)(ug_clientID u \<mapsto> (inner (cs_usage s) (ug_clientID u))(ug_agentID u \<mapsto> u))\<rparr>"

text \<open>The ids are collected from maps; their maximum does not depend on the order.\<close>

definition svc_Restore :: "vault_ops \<Rightarrow> client_db \<Rightarrow> client_service \<Rightarrow> client_error + client_service" where
  "svc_Restore v db s =
     (let cs = repo_List db;
          s0 = s\<lparr>cs_clients := Map.empty, cs_assignments := Map.empty, cs_deployments := Map.empty,
                 cs_usage := Map.empty, cs_names := Map.empty\<rparr>
      in case disc_List db of Inl _ \<Rightarrow> Inl ErrClientStore
         | Inr recs \<Rightarrow>
             (case restore_clients v db cs s0 of Inl e \<Rightarrow> Inl e
              | Inr s1 \<Rightarrow>
                  let s2 = fold applyUsageMirrorLocked (ListUsage db) s1
                  in Inr (recoverSequencesLocked (map cl_id cs) (concat (map (\<lambda>c. map ca_id (ListAssignments (cl_id c) db)) cs))
                            (map dc_id recs) s2)))"

subsection \<open>Reads\<close>

definition svc_Get :: "string \<Rightarrow> client_service \<Rightarrow> client option" where
  "svc_Get i s = cs_clients s i"

definition svc_List :: "string list \<Rightarrow> client_service \<Rightarrow> client list" where
  "svc_List order s = List.map_filter (cs_clients s) order"

definition MirrorClientExists :: "string \<Rightarrow> client_service \<Rightarrow> bool" where
  "MirrorClientExists i s \<longleftrightarrow> cs_clients s i \<noteq> None"

definition MirrorDeployment :: "string \<Rightarrow> string \<Rightarrow> client_service \<Rightarrow> deployment option" where
  "MirrorDeployment clientID agentID s = inner (cs_deployments s) clientID agentID"

definition MirrorUsageEntryFor :: "string \<Rightarrow> string \<Rightarrow> client_service \<Rightarrow> usage option" where
  "MirrorUsageEntryFor clientID agentID s = inner (cs_usage s) clientID agentID"

definition MirrorAgentTotalTraffic :: "string list \<Rightarrow> string \<Rightarrow> client_service \<Rightarrow> uint64" where
  "MirrorAgentTotalTraffic order agentID s =
     sum_list (map ug_trafficUsedBytes (List.map_filter (\<lambda>i. inner (cs_usage s) i agentID) order))"

definition MirrorFindClientByNameAndSecret :: "string list \<Rightarrow> string \<Rightarrow> string \<Rightarrow> client_service \<Rightarrow> client option" where
  "MirrorFindClientByNameAndSecret order name secret s =
     find (\<lambda>c. cl_deletedAt c = None \<and> cl_name c = name \<and> cl_secret c = secret) (svc_List order s)"

definition MirrorIdentifiersForAgent :: "string list \<Rightarrow> string \<Rightarrow> client_service \<Rightarrow> string set \<times> string set" where
  "MirrorIdentifiersForAgent order agentID s =
     (let cs = filter (\<lambda>c. cl_deletedAt c = None)
                 (List.map_filter (\<lambda>i. if inner (cs_deployments s) i agentID = None then None else cs_clients s i) order)
      in (set (map cl_name cs), set (filter (\<lambda>x. x \<noteq> []) (map cl_secret cs))))"

definition MirrorAssignmentsAndDeployments :: "string list \<Rightarrow> string \<Rightarrow> client_service \<Rightarrow> assignment list \<times> deployment list" where
  "MirrorAssignmentsAndDeployments order clientID s =
     (case cs_assignments s clientID of Some as \<Rightarrow> as | None \<Rightarrow> [], List.map_filter (inner (cs_deployments s) clientID) order)"

definition MirrorResolveIDByName :: "string list \<Rightarrow> string \<Rightarrow> string \<Rightarrow> string \<Rightarrow> client_service \<Rightarrow> string" where
  "MirrorResolveIDByName order agentID agentFleetGroupID clientName s =
     (case cs_names s clientName of None \<Rightarrow> []
      | Some ids \<Rightarrow>
          (case find (\<lambda>i. i \<in> ids \<and>
                 assignmentMatchesAgent (case cs_assignments s i of Some as \<Rightarrow> as | None \<Rightarrow> []) agentID agentFleetGroupID) order of
             Some i \<Rightarrow> i | None \<Rightarrow> []))"

definition ResolveBySubscriptionToken :: "string \<Rightarrow> client_db \<Rightarrow> store_error + client" where
  "ResolveBySubscriptionToken token db = (if token = [] then Inl ErrNotFound else GetBySubscriptionToken token db)"

subsection \<open>Writes\<close>

definition MirrorReplaceInMemory :: "client \<Rightarrow> assignment list \<Rightarrow> deployment list \<Rightarrow> client_service \<Rightarrow> client_service" where
  "MirrorReplaceInMemory c assignments deployments s =
     (let s1 = setMirrorClientLocked c s
      in s1\<lparr>cs_assignments := (cs_assignments s1)(cl_id c \<mapsto> assignments),
            cs_deployments := (cs_deployments s1)(cl_id c \<mapsto> by_agent deployments)\<rparr>)"

definition Save :: "vault_ops \<Rightarrow> client \<Rightarrow> client_service \<Rightarrow> client_db \<Rightarrow> client_error option \<times> client_service \<times> client_db" where
  "Save v c s db =
     (case encryptSecret v (cl_secret c) of None \<Rightarrow> (Some ErrVault, s, db)
      | Some sealed \<Rightarrow>
          (case repo_Save (c\<lparr>cl_secret := sealed\<rparr>) db of
             Inl _ \<Rightarrow> (Some ErrClientStore, s, db) | Inr db' \<Rightarrow> (None, setMirrorClientLocked c s, db')))"

definition SaveState ::
    "vault_ops \<Rightarrow> client \<Rightarrow> assignment list \<Rightarrow> deployment list \<Rightarrow> client_service \<Rightarrow> client_db \<Rightarrow>
     client_error option \<times> client_service \<times> client_db" where
  "SaveState v c assignments deployments s db =
     (case encryptSecret v (cl_secret c) of None \<Rightarrow> (Some ErrVault, s, db)
      | Some sealed \<Rightarrow>
          (case save_transaction (c\<lparr>cl_secret := sealed\<rparr>) assignments deployments db of
             Inl _ \<Rightarrow> (Some ErrClientStore, s, db)
           | Inr db' \<Rightarrow> (None, MirrorReplaceInMemory c assignments deployments s, db')))"

definition svc_Delete :: "gotime \<Rightarrow> string \<Rightarrow> client_service \<Rightarrow> client_db \<Rightarrow> client_error option \<times> client_service \<times> client_db" where
  "svc_Delete now i s db =
     (case repo_Delete now i db of Inl _ \<Rightarrow> (Some ErrClientStore, s, db)
      | Inr db' \<Rightarrow>
          let s1 = deleteMirrorClientLocked i s
          in (None, s1\<lparr>cs_assignments := (cs_assignments s1)(i := None), cs_deployments := (cs_deployments s1)(i := None),
                       cs_usage := (cs_usage s1)(i := None)\<rparr>, db'))"

definition PersistDeployment ::
    "deployment \<Rightarrow> client_service \<Rightarrow> client_db \<Rightarrow> store_error option \<times> client_service \<times> client_db" where
  "PersistDeployment d s db =
     (case PutDeployment d db of Inl e \<Rightarrow> (Some e, s, db)
      | Inr db' \<Rightarrow>
          (None, s\<lparr>cs_deployments := (cs_deployments s)
                     (dp_clientID d \<mapsto> (inner (cs_deployments s) (dp_clientID d))(dp_agentID d \<mapsto> d))\<rparr>, db'))"

definition UpsertUsage :: "usage \<Rightarrow> client_service \<Rightarrow> client_db \<Rightarrow> store_error option \<times> client_service \<times> client_db" where
  "UpsertUsage u s db =
     (let s1 = applyUsageMirrorLocked u s
      in case repo_UpsertUsage u db of Inl e \<Rightarrow> (Some e, s1, db) | Inr db' \<Rightarrow> (None, s1, db'))"

definition UpsertUsageBulk :: "usage list \<Rightarrow> client_service \<Rightarrow> client_db \<Rightarrow> store_error option \<times> client_service \<times> client_db" where
  "UpsertUsageBulk batch s db =
     (if batch = [] then (None, s, db)
      else let s1 = fold applyUsageMirrorLocked batch s
           in case bulkUpsertUsage batch db of Inl e \<Rightarrow> (Some e, s1, db) | Inr db' \<Rightarrow> (None, s1, db'))"

definition ZeroLiveGaugesForAgent :: "string \<Rightarrow> string set \<Rightarrow> client_service \<Rightarrow> client_service" where
  "ZeroLiveGaugesForAgent agentID seen s =
     s\<lparr>cs_usage := (\<lambda>i. if i \<in> seen then cs_usage s i
        else map_option (\<lambda>byAgent. case byAgent agentID of None \<Rightarrow> byAgent
               | Some e \<Rightarrow> byAgent(agentID \<mapsto> e\<lparr>ug_activeTCPConns := 0, ug_activeUniqueIPs := 0\<rparr>)) (cs_usage s i))\<rparr>"

definition DropAgentUsageMirror :: "string \<Rightarrow> client_service \<Rightarrow> client_service" where
  "DropAgentUsageMirror agentID s =
     s\<lparr>cs_usage := (\<lambda>i. case cs_usage s i of None \<Rightarrow> None
        | Some byAgent \<Rightarrow> if byAgent agentID = None then Some byAgent
            else let rest = byAgent(agentID := None) in if rest = Map.empty then None else Some rest)\<rparr>"

definition SeedUsageMirror :: "string \<Rightarrow> string \<Rightarrow> uint64 \<Rightarrow> int \<Rightarrow> int \<Rightarrow> gotime \<Rightarrow> client_service \<Rightarrow> client_service" where
  "SeedUsageMirror clientID agentID trafficBytes activeConns activeUniqueIPs observedAt s =
     (if inner (cs_usage s) clientID agentID \<noteq> None then s
      else applyUsageMirrorLocked
             \<lparr>ug_clientID = clientID, ug_agentID = agentID, ug_trafficUsedBytes = trafficBytes,
              ug_uniqueIPsUsed = activeUniqueIPs, ug_activeTCPConns = activeConns, ug_activeUniqueIPs = activeUniqueIPs,
              ug_quotaUsedBytes = 0, ug_quotaLastResetUnix = 0, ug_agentBootID = [], ug_lastTotalBytes = 0,
              ug_observedAt = observedAt\<rparr> s)"

fun backfill :: "vault_ops \<Rightarrow> (client \<times> string) list \<Rightarrow> client_service \<Rightarrow> client_db \<Rightarrow>
    nat \<times> client_error option \<times> client_service \<times> client_db" where
  "backfill v [] s db = (0, None, s, db)"
| "backfill v ((c, token) # rest) s db =
     (if cl_deletedAt c \<noteq> None \<or> cl_subscriptionToken c \<noteq> [] then backfill v rest s db
      else case Save v (c\<lparr>cl_subscriptionToken := token\<rparr>) s db of
          (Some e, s1, db1) \<Rightarrow> (0, Some e, s1, db1)
        | (None, s1, db1) \<Rightarrow> (case backfill v rest s1 db1 of (n, e, s2, db2) \<Rightarrow> (n + 1, e, s2, db2)))"

definition BackfillSubscriptionTokens ::
    "vault_ops \<Rightarrow> string list \<Rightarrow> string list \<Rightarrow> client_service \<Rightarrow> client_db \<Rightarrow>
     nat \<times> client_error option \<times> client_service \<times> client_db" where
  "BackfillSubscriptionTokens v order tokens s db = backfill v (zip (svc_List order s) tokens) s db"

text \<open>\<^verbatim>\<open>detailSnapshot\<close>: what an operation reads before it changes a client.\<close>

definition detailSnapshot ::
    "string list \<Rightarrow> string \<Rightarrow> client_service \<Rightarrow> (client \<times> assignment list \<times> deployment list) option" where
  "detailSnapshot order clientID s =
     (case cs_clients s clientID of None \<Rightarrow> None
      | Some c \<Rightarrow>
          Some (c, sort_key (\<lambda>a. (ca_createdAt a, ca_id a)) (case cs_assignments s clientID of Some as \<Rightarrow> as | None \<Rightarrow> []),
                sort_key dp_agentID (List.map_filter (inner (cs_deployments s) clientID) order)))"

end
