(* ===== verification/Client_Flows.thy ===== *)
theory Client_Flows
  imports Client_Service Job_Persist
begin

section \<open>Operator flows, job results and reconciliation (clients/flow.go, jobsdispatch.go, jobresult.go, reconcile.go)\<close>

text \<open>
  Every flow changes the mirror and the tables first and then hands a job to the job queue.
  The surroundings of the service are one record: the vault, the topology of the fleet, the
  JSON codecs of the payloads, the two operations of the job queue, and the orders in which
  the loops visit the maps they range over. The random values a flow draws are a record too.
  A panel is the mirror, the tables, the queue and the list of notifications it has sent.
\<close>

subsection \<open>Payloads and surroundings\<close>

record client_payload =
  pl_clientID :: string
  pl_name :: string
  pl_secret :: string
  pl_userADTag :: string
  pl_enabled :: bool
  pl_maxTCPConns :: int
  pl_maxUniqueIPs :: int
  pl_dataQuotaBytes :: int
  pl_expiration :: string
  pl_nameOwnerByAgent :: "string \<rightharpoonup> string"

record reset_quota_payload =
  rq_clientID :: string
  rq_name :: string

record 'q client_env =
  ce_vault :: vault_ops
  ce_topology :: topology
  ce_readOnly :: "string \<Rightarrow> bool"
  ce_ttl :: duration
  ce_parseTime :: "string \<Rightarrow> string option"
  ce_marshal :: "client_payload \<Rightarrow> string"
  ce_unmarshal :: "string \<Rightarrow> client_payload option"
  ce_marshalReset :: "reset_quota_payload \<Rightarrow> string"
  ce_unmarshalReset :: "string \<Rightarrow> reset_quota_payload option"
  ce_resultLinks :: "string \<Rightarrow> string list option"
  ce_resultReset :: "string \<Rightarrow> uint64 option"
  ce_enqueue :: "create_job_input \<Rightarrow> gotime \<Rightarrow> 'q \<Rightarrow> (enqueue_failure + job) \<times> 'q"
  ce_getJob :: "string \<Rightarrow> 'q \<Rightarrow> job option"
  ce_clients :: "string list"
  ce_agents :: "string list"
  ce_actions :: "action list"

record client_mint =
  mt_adTag :: string
  mt_secret :: string
  mt_token :: string

datatype client_notice = NotifyAgentSessions "string list" | PublishJobCreated job | PublishClientsUpdated string
  | AppendAudit string string string

record 'q panel =
  pn_svc :: client_service
  pn_db :: client_db
  pn_jobs :: 'q
  pn_notices :: "client_notice list"

definition notice :: "client_notice \<Rightarrow> 'q panel \<Rightarrow> 'q panel" where
  "notice n p = p\<lparr>pn_notices := pn_notices p @ [n]\<rparr>"

subsection \<open>Handing a job to the queue\<close>

definition int_string :: "int \<Rightarrow> string" where
  "int_string n = (if n < 0 then ''-'' @ dec_digits (nat (- n)) else dec_digits (nat n))"

definition unix_nano :: "gotime \<Rightarrow> int" where
  "unix_nano t = t - unix_epoch_seconds * second_ns"

definition client_job_key :: "action \<Rightarrow> string \<Rightarrow> gotime \<Rightarrow> string" where
  "client_job_key action clientID observedAt =
     action_string action @ '':'' @ clientID @ '':'' @ int_string (unix_nano observedAt)"

definition enqueueClientJobAndPublish ::
    "'q client_env \<Rightarrow> string \<Rightarrow> action \<Rightarrow> string \<Rightarrow> string list \<Rightarrow> string \<Rightarrow> gotime \<Rightarrow> 'q panel \<Rightarrow>
     (client_error + job) \<times> 'q panel" where
  "enqueueClientJobAndPublish env actorID action clientID targetAgentIDs payloadJSON observedAt p =
     (case ce_enqueue env
             \<lparr>in_action = action, in_targetAgentIDs = targetAgentIDs, in_ttl = ce_ttl env,
              in_key = client_job_key action clientID observedAt, in_actorID = actorID,
              in_readOnlyAgents = ce_readOnly env, in_payload = payloadJSON\<rparr> observedAt (pn_jobs p) of
        (Inl _, q) \<Rightarrow> (Inl ErrClientEnqueue, p\<lparr>pn_jobs := q\<rparr>)
      | (Inr job, q) \<Rightarrow>
          (Inr job, notice (PublishJobCreated job) (notice (NotifyAgentSessions (j_targetAgentIDs job)) (p\<lparr>pn_jobs := q\<rparr>))))"

text \<open>Which other living client owns the name on an agent; the last visited client wins.\<close>

definition owns_name :: "string \<Rightarrow> string \<Rightarrow> string \<Rightarrow> client_service \<Rightarrow> bool" where
  "owns_name excludeID agentID i s \<longleftrightarrow> i \<noteq> excludeID \<and>
     (case cs_clients s i of None \<Rightarrow> False | Some c \<Rightarrow> cl_deletedAt c = None) \<and>
     (case inner (cs_deployments s) i agentID of None \<Rightarrow> False | Some d \<Rightarrow> dp_desiredOperation d \<noteq> ActionClientDelete)"

definition nameOwnersByAgent ::
    "string list \<Rightarrow> string \<Rightarrow> string \<Rightarrow> string list \<Rightarrow> client_service \<Rightarrow> string \<rightharpoonup> string" where
  "nameOwnersByAgent order name excludeID agentIDs s =
     (if name = [] \<or> agentIDs = [] then Map.empty
      else case cs_names s name of None \<Rightarrow> Map.empty
        | Some ids \<Rightarrow>
            fold (\<lambda>i owners. fold (\<lambda>a m. if owns_name excludeID a i s then m(a \<mapsto> i) else m) agentIDs owners)
              (filter (\<lambda>i. i \<in> ids) order) Map.empty)"

definition client_payload_of :: "'q client_env \<Rightarrow> action \<Rightarrow> client \<Rightarrow> string list \<Rightarrow> client_service \<Rightarrow> client_payload" where
  "client_payload_of env action c targetAgentIDs s =
     \<lparr>pl_clientID = cl_id c, pl_name = cl_name c, pl_secret = cl_secret c, pl_userADTag = cl_userADTag c,
      pl_enabled = cl_enabled c, pl_maxTCPConns = cl_maxTCPConns c, pl_maxUniqueIPs = cl_maxUniqueIPs c,
      pl_dataQuotaBytes = cl_dataQuotaBytes c, pl_expiration = cl_expiration c,
      pl_nameOwnerByAgent =
        (if action = ActionClientDelete then nameOwnersByAgent (ce_clients env) (cl_name c) (cl_id c) targetAgentIDs s
         else Map.empty)\<rparr>"

definition EnqueueClientJob ::
    "'q client_env \<Rightarrow> string \<Rightarrow> action \<Rightarrow> client \<Rightarrow> string list \<Rightarrow> gotime \<Rightarrow> 'q panel \<Rightarrow> (client_error + job) \<times> 'q panel" where
  "EnqueueClientJob env actorID action c targetAgentIDs observedAt p =
     enqueueClientJobAndPublish env actorID action (cl_id c) targetAgentIDs
       (ce_marshal env (client_payload_of env action c targetAgentIDs (pn_svc p))) observedAt p"

definition EnqueueClientResetQuotaJob ::
    "'q client_env \<Rightarrow> string \<Rightarrow> client \<Rightarrow> string list \<Rightarrow> gotime \<Rightarrow> 'q panel \<Rightarrow> (client_error + job) \<times> 'q panel" where
  "EnqueueClientResetQuotaJob env actorID c targetAgentIDs observedAt p =
     enqueueClientJobAndPublish env actorID ActionClientResetQuota (cl_id c) targetAgentIDs
       (ce_marshalReset env \<lparr>rq_clientID = cl_id c, rq_name = cl_name c\<rparr>) observedAt p"

definition DispatchClientUpdateJobs ::
    "'q client_env \<Rightarrow> string \<Rightarrow> client \<Rightarrow> deployment list \<Rightarrow> string list \<Rightarrow> gotime \<Rightarrow> 'q panel \<Rightarrow>
     client_error option \<times> 'q panel" where
  "DispatchClientUpdateJobs env actorID c currentDeployments targetAgentIDs observedAt p =
     (let first = (if targetAgentIDs = [] then (None, p)
                   else case EnqueueClientJob env actorID ActionClientUpdate c targetAgentIDs observedAt p of
                       (Inl e, p1) \<Rightarrow> (Some e, p1) | (Inr _, p1) \<Rightarrow> (None, p1))
      in case first of (Some e, p1) \<Rightarrow> (Some e, p1)
         | (None, p1) \<Rightarrow>
             let removed = RemovedTargetAgentIDs currentDeployments targetAgentIDs
             in if removed = [] then (None, p1)
                else case EnqueueClientJob env actorID ActionClientDelete c removed observedAt p1 of
                    (Inl e, p2) \<Rightarrow> (Some e, p2) | (Inr _, p2) \<Rightarrow> (None, p2))"

text \<open>The rule the job queue is given to find competing jobs (jobsupersede.go).\<close>

definition JobSupersedeKey :: "(string \<Rightarrow> client_payload option) \<Rightarrow> action \<Rightarrow> string \<Rightarrow> string" where
  "JobSupersedeKey unmarshal action payloadJSON =
     (if \<not> client_action action then []
      else if payloadJSON = [] then []
      else case unmarshal payloadJSON of None \<Rightarrow> [] | Some probe \<Rightarrow> pl_clientID probe)"

subsection \<open>Operator flows\<close>

record mutation_input =
  mi_name :: string
  mi_secret :: string
  mi_enabled :: "bool option"
  mi_userADTag :: string
  mi_userADTagAuto :: "bool option"
  mi_maxTCPConns :: int
  mi_maxUniqueIPs :: int
  mi_dataQuotaBytes :: int
  mi_expiration :: string
  mi_fleetGroupIDs :: "string list"
  mi_agentIDs :: "string list"

type_synonym flow_result = "client \<times> assignment list \<times> deployment list"

definition saveStateAndPublish ::
    "'q client_env \<Rightarrow> client \<Rightarrow> assignment list \<Rightarrow> deployment list \<Rightarrow> 'q panel \<Rightarrow> client_error option \<times> 'q panel" where
  "saveStateAndPublish env c assignments deployments p =
     (case SaveState (ce_vault env) c assignments deployments (pn_svc p) (pn_db p) of
        (Some e, s, db) \<Rightarrow> (Some e, p\<lparr>pn_svc := s, pn_db := db\<rparr>)
      | (None, s, db) \<Rightarrow> (None, notice (PublishClientsUpdated (cl_id c)) (p\<lparr>pn_svc := s, pn_db := db\<rparr>)))"

definition resolveUserADTagForMutation :: "string \<Rightarrow> mutation_input \<Rightarrow> string \<Rightarrow> client_error + string" where
  "resolveUserADTagForMutation fresh input fallback =
     (if mi_userADTagAuto input = Some False then ResolveUserADTagExplicit (mi_userADTag input)
      else ResolveUserADTag fresh (mi_userADTag input) fallback)"

fun assign_each ::
    "(string \<Rightarrow> string \<Rightarrow> assignment) \<Rightarrow> string list \<Rightarrow> client_service \<Rightarrow> assignment list \<times> client_service" where
  "assign_each mk [] s = ([], s)"
| "assign_each mk (x # xs) s =
     (let (i, s1) = NextAssignmentID s; (as, s2) = assign_each mk xs s1 in (mk i x # as, s2))"

definition buildClientAssignments ::
    "string \<Rightarrow> mutation_input \<Rightarrow> gotime \<Rightarrow> client_service \<Rightarrow> assignment list \<times> client_service" where
  "buildClientAssignments clientID input observedAt s =
     (let (gs, s1) = assign_each (\<lambda>i g. \<lparr>ca_id = i, ca_clientID = clientID, ca_targetType = TargetTypeFleetGroup,
                                         ca_fleetGroupID = g, ca_agentID = [], ca_createdAt = observedAt\<rparr>)
                       (NormalizedIDs (mi_fleetGroupIDs input)) s;
          (as, s2) = assign_each (\<lambda>i a. \<lparr>ca_id = i, ca_clientID = clientID, ca_targetType = TargetTypeAgent,
                                         ca_fleetGroupID = [], ca_agentID = a, ca_createdAt = observedAt\<rparr>)
                       (NormalizedIDs (mi_agentIDs input)) s1
      in (gs @ as, s2))"

definition create_secret :: "client_mint \<Rightarrow> mutation_input \<Rightarrow> client_error + string" where
  "create_secret mint input =
     (let secret = TrimSpace (mi_secret input)
      in if secret \<noteq> [] then (if IsValidHexSecret secret then Inr secret else Inl ErrInvalidSecret)
         else Inr (mt_secret mint))"

text \<open>The checks of \<^verbatim>\<open>Create\<close> in their order; they end with the fields of the new client.\<close>

definition create_checks ::
    "'q client_env \<Rightarrow> client_mint \<Rightarrow> mutation_input \<Rightarrow> gotime \<Rightarrow> client_service \<Rightarrow> client_error + client" where
  "create_checks env mint input observedAt s =
     (let name = TrimSpace (mi_name input)
      in if name = [] then Inl ErrNameRequired
         else if \<not> clientNameRegex name then Inl ErrNameInvalid
         else if NameTaken name [] s then Inl ErrNameTaken
         else case resolveUserADTagForMutation (mt_adTag mint) input [] of Inl e \<Rightarrow> Inl e
           | Inr tag \<Rightarrow>
             (case create_secret mint input of Inl e \<Rightarrow> Inl e
              | Inr secret \<Rightarrow>
                (case NormalizeExpiration (ce_parseTime env) (mi_expiration input) of Inl e \<Rightarrow> Inl e
                 | Inr expiration \<Rightarrow>
                   (case validateClientLimits (mi_maxTCPConns input) (mi_maxUniqueIPs input) (mi_dataQuotaBytes input) of
                      Some e \<Rightarrow> Inl e
                    | None \<Rightarrow>
                        Inr \<lparr>cl_id = [], cl_name = name, cl_secret = secret, cl_userADTag = tag,
                             cl_enabled = (case mi_enabled input of Some b \<Rightarrow> b | None \<Rightarrow> True),
                             cl_maxTCPConns = mi_maxTCPConns input, cl_maxUniqueIPs = mi_maxUniqueIPs input,
                             cl_dataQuotaBytes = mi_dataQuotaBytes input, cl_expiration = expiration,
                             cl_subscriptionToken = mt_token mint, cl_createdAt = observedAt, cl_updatedAt = observedAt,
                             cl_deletedAt = None\<rparr>))))"

definition create_commit ::
    "'q client_env \<Rightarrow> string \<Rightarrow> mutation_input \<Rightarrow> gotime \<Rightarrow> client \<Rightarrow> 'q panel \<Rightarrow> (client_error + flow_result) \<times> 'q panel" where
  "create_commit env actorID input observedAt draft p =
     (let (i, s1) = NextClientID (pn_svc p);
          c = draft\<lparr>cl_id := i\<rparr>;
          (assignments, s2) = buildClientAssignments i input observedAt s1;
          p2 = p\<lparr>pn_svc := s2\<rparr>;
          targets = ResolveTargetAgentIDs assignments (ce_topology env);
          deployments = BuildDeployments [] i targets ActionClientCreate ActionClientDelete observedAt
      in if targets = [] then (Inl ErrTargetsRequired, p2)
         else case saveStateAndPublish env c assignments deployments p2 of
             (Some e, p3) \<Rightarrow> (Inl e, p3)
           | (None, p3) \<Rightarrow>
               (case EnqueueClientJob env actorID ActionClientCreate c targets observedAt p3 of
                  (Inl e, p4) \<Rightarrow> (Inl e, p4) | (Inr _, p4) \<Rightarrow> (Inr (c, assignments, deployments), p4)))"

definition Create ::
    "'q client_env \<Rightarrow> client_mint \<Rightarrow> string \<Rightarrow> mutation_input \<Rightarrow> gotime \<Rightarrow> 'q panel \<Rightarrow> (client_error + flow_result) \<times> 'q panel" where
  "Create env mint actorID input observedAt p =
     (case create_checks env mint input observedAt (pn_svc p) of
        Inl e \<Rightarrow> (Inl e, p) | Inr draft \<Rightarrow> create_commit env actorID input observedAt draft p)"

definition applyClientMutationFields ::
    "'q client_env \<Rightarrow> client_mint \<Rightarrow> client \<Rightarrow> mutation_input \<Rightarrow> gotime \<Rightarrow> client_error + client" where
  "applyClientMutationFields env mint c input observedAt =
     (case resolveUserADTagForMutation (mt_adTag mint) input (cl_userADTag c) of Inl e \<Rightarrow> Inl e
      | Inr tag \<Rightarrow>
          (case NormalizeExpiration (ce_parseTime env) (mi_expiration input) of Inl e \<Rightarrow> Inl e
           | Inr expiration \<Rightarrow>
               (case validateClientLimits (mi_maxTCPConns input) (mi_maxUniqueIPs input) (mi_dataQuotaBytes input) of
                  Some e \<Rightarrow> Inl e
                | None \<Rightarrow>
                    Inr (c\<lparr>cl_userADTag := tag, cl_enabled := (case mi_enabled input of Some b \<Rightarrow> b | None \<Rightarrow> cl_enabled c),
                           cl_maxTCPConns := mi_maxTCPConns input, cl_maxUniqueIPs := mi_maxUniqueIPs input,
                           cl_dataQuotaBytes := mi_dataQuotaBytes input, cl_expiration := expiration,
                           cl_updatedAt := observedAt\<rparr>))))"

text \<open>What every flow on an existing client starts with: a deleted client is not found.\<close>

definition living_snapshot ::
    "'q client_env \<Rightarrow> string \<Rightarrow> 'q panel \<Rightarrow> client_error + flow_result" where
  "living_snapshot env clientID p =
     (case detailSnapshot (ce_agents env) clientID (pn_svc p) of None \<Rightarrow> Inl ErrClientNotFound
      | Some (c, assignments, deployments) \<Rightarrow>
          if cl_deletedAt c \<noteq> None then Inl ErrClientNotFound else Inr (c, assignments, deployments))"

definition Update ::
    "'q client_env \<Rightarrow> client_mint \<Rightarrow> string \<Rightarrow> string \<Rightarrow> mutation_input \<Rightarrow> gotime \<Rightarrow> 'q panel \<Rightarrow>
     (client_error + flow_result) \<times> 'q panel" where
  "Update env mint clientID actorID input observedAt p =
     (case living_snapshot env clientID p of Inl e \<Rightarrow> (Inl e, p)
      | Inr (current, _, currentDeployments) \<Rightarrow>
          let name = TrimSpace (mi_name input)
          in if name = [] then (Inl ErrNameRequired, p)
             else if name \<noteq> cl_name current then (Inl ErrNameImmutable, p)
             else case applyClientMutationFields env mint current input observedAt of Inl e \<Rightarrow> (Inl e, p)
               | Inr c \<Rightarrow>
                   let (assignments, s1) = buildClientAssignments clientID input observedAt (pn_svc p);
                       p1 = p\<lparr>pn_svc := s1\<rparr>;
                       targets = ResolveTargetAgentIDs assignments (ce_topology env);
                       deployments = BuildDeployments currentDeployments clientID targets ActionClientUpdate ActionClientDelete observedAt
                   in case saveStateAndPublish env c assignments deployments p1 of
                        (Some e, p2) \<Rightarrow> (Inl e, p2)
                      | (None, p2) \<Rightarrow>
                          (case DispatchClientUpdateJobs env actorID c currentDeployments targets observedAt p2 of
                             (Some e, p3) \<Rightarrow> (Inl e, p3) | (None, p3) \<Rightarrow> (Inr (c, assignments, deployments), p3)))"

definition Redeploy ::
    "'q client_env \<Rightarrow> string \<Rightarrow> string \<Rightarrow> gotime \<Rightarrow> 'q panel \<Rightarrow> (client_error + flow_result) \<times> 'q panel" where
  "Redeploy env clientID actorID observedAt p =
     (case living_snapshot env clientID p of Inl e \<Rightarrow> (Inl e, p)
      | Inr (c, assignments, current) \<Rightarrow>
          let targets = ResolveTargetAgentIDs assignments (ce_topology env)
          in if targets = [] then (Inr (c, assignments, current), p)
             else let deployments = BuildDeployments current clientID targets ActionClientCreate ActionClientDelete observedAt
                  in case saveStateAndPublish env c assignments deployments p of
                       (Some e, p1) \<Rightarrow> (Inl e, p1)
                     | (None, p1) \<Rightarrow>
                         (case EnqueueClientJob env actorID ActionClientCreate c targets observedAt p1 of
                            (Inl e, p2) \<Rightarrow> (Inl e, p2) | (Inr _, p2) \<Rightarrow> (Inr (c, assignments, deployments), p2)))"

definition RotateSecret ::
    "'q client_env \<Rightarrow> client_mint \<Rightarrow> string \<Rightarrow> string \<Rightarrow> gotime \<Rightarrow> 'q panel \<Rightarrow> (client_error + flow_result) \<times> 'q panel" where
  "RotateSecret env mint clientID actorID observedAt p =
     (case living_snapshot env clientID p of Inl e \<Rightarrow> (Inl e, p)
      | Inr (current, assignments, currentDeployments) \<Rightarrow>
          let c = current\<lparr>cl_secret := mt_secret mint, cl_updatedAt := observedAt\<rparr>;
              targets = ResolveTargetAgentIDs assignments (ce_topology env);
              deployments = BuildDeployments currentDeployments clientID targets ActionClientRotateSecret ActionClientDelete observedAt
          in case saveStateAndPublish env c assignments deployments p of
               (Some e, p1) \<Rightarrow> (Inl e, p1)
             | (None, p1) \<Rightarrow>
                 if targets = [] then (Inr (c, assignments, deployments), p1)
                 else case EnqueueClientJob env actorID ActionClientRotateSecret c targets observedAt p1 of
                     (Inl e, p2) \<Rightarrow> (Inl e, p2) | (Inr _, p2) \<Rightarrow> (Inr (c, assignments, deployments), p2))"

definition RotateSubscriptionToken ::
    "'q client_env \<Rightarrow> client_mint \<Rightarrow> string \<Rightarrow> gotime \<Rightarrow> 'q panel \<Rightarrow> (client_error + flow_result) \<times> 'q panel" where
  "RotateSubscriptionToken env mint clientID observedAt p =
     (case living_snapshot env clientID p of Inl e \<Rightarrow> (Inl e, p)
      | Inr (current, assignments, deployments) \<Rightarrow>
          let c = current\<lparr>cl_subscriptionToken := mt_token mint, cl_updatedAt := observedAt\<rparr>
          in case saveStateAndPublish env c assignments deployments p of
               (Some e, p1) \<Rightarrow> (Inl e, p1) | (None, p1) \<Rightarrow> (Inr (c, assignments, deployments), p1))"

definition ResetQuota ::
    "'q client_env \<Rightarrow> string \<Rightarrow> string \<Rightarrow> string \<Rightarrow> gotime \<Rightarrow> 'q panel \<Rightarrow> (client_error + flow_result \<times> job option) \<times> 'q panel" where
  "ResetQuota env clientID targetAgentID actorID observedAt p =
     (case living_snapshot env clientID p of Inl e \<Rightarrow> (Inl e, p)
      | Inr (c, assignments, deployments) \<Rightarrow>
          let deploymentAgents = DeploymentAgentIDs deployments
          in if targetAgentID \<noteq> [] \<and> targetAgentID \<notin> set deploymentAgents then (Inl ErrClientNotFound, p)
             else let targets = (if targetAgentID = [] then deploymentAgents else [targetAgentID])
                  in if targets = [] then (Inr ((c, assignments, deployments), None), p)
                     else case EnqueueClientResetQuotaJob env actorID c targets observedAt p of
                         (Inl e, p1) \<Rightarrow> (Inl e, p1) | (Inr job, p1) \<Rightarrow> (Inr ((c, assignments, deployments), Some job), p1))"

definition DeleteFlow ::
    "'q client_env \<Rightarrow> string \<Rightarrow> string \<Rightarrow> gotime \<Rightarrow> 'q panel \<Rightarrow> client_error option \<times> 'q panel" where
  "DeleteFlow env clientID actorID observedAt p =
     (case living_snapshot env clientID p of Inl e \<Rightarrow> (Some e, p)
      | Inr (current, assignments, currentDeployments) \<Rightarrow>
          let c = current\<lparr>cl_enabled := False, cl_updatedAt := observedAt, cl_deletedAt := Some observedAt\<rparr>;
              resolved = ResolveTargetAgentIDs assignments (ce_topology env);
              targets = (if resolved = [] then DeploymentAgentIDs currentDeployments else resolved);
              deployments = BuildDeployments currentDeployments clientID targets ActionClientDelete ActionClientDelete observedAt
          in case saveStateAndPublish env c assignments deployments p of
               (Some e, p1) \<Rightarrow> (Some e, p1)
             | (None, p1) \<Rightarrow>
                 if targets = [] then (None, p1)
                 else case EnqueueClientJob env actorID ActionClientDelete c targets observedAt p1 of
                     (Inl e, p2) \<Rightarrow> (Some e, p2) | (Inr _, p2) \<Rightarrow> (None, p2))"

end
