(* ===== verification/Client_Reconcile.thy ===== *)
theory Client_Reconcile
  imports Client_Flows
begin

section \<open>Job results, expiry and the reconciler (clients/jobresult.go, reconcile.go)\<close>

text \<open>
  What comes back from the agents and what the panel sends on its own. The reconciler works
  on a copy of the maps; between the copy and a send other flows may run, so the pass over
  the copy and the sending of one job are separate definitions, and the whole pass is their
  composition.
\<close>

subsection \<open>Throttling\<close>

definition clientReconcileMinInterval :: duration where
  "clientReconcileMinInterval = 10 * minute_ns"

definition reconcileKey :: "string \<Rightarrow> string \<Rightarrow> string" where
  "reconcileKey clientID agentID = clientID @ ''|'' @ agentID"

definition shouldRetry :: "string \<Rightarrow> gotime \<Rightarrow> client_service \<Rightarrow> nat option \<times> client_service" where
  "shouldRetry key now s =
     (if (case cs_lastTry s key of Some prev \<Rightarrow> time_sub now prev < clientReconcileMinInterval | None \<Rightarrow> False)
      then (None, s)
      else let n = map_get 0 (cs_attempts s) key + 1
           in (Some n, s\<lparr>cs_lastTry := (cs_lastTry s)(key \<mapsto> now), cs_attempts := (cs_attempts s)(key \<mapsto> n)\<rparr>))"

definition confirm :: "string \<Rightarrow> client_service \<Rightarrow> client_service" where
  "confirm key s = s\<lparr>cs_lastTry := (cs_lastTry s)(key := None), cs_attempts := (cs_attempts s)(key := None)\<rparr>"

subsection \<open>Results\<close>

definition staleLinkDiagnostic :: string where
  "staleLinkDiagnostic = ''apply succeeded but the node returned no connection links; existing links may be stale''"

definition clientJobExpiredMessage :: string where
  "clientJobExpiredMessage = ''node did not confirm before the job expired; will retry on reconnect''"

definition parseClientJobResultLinks :: "'q client_env \<Rightarrow> string \<Rightarrow> string list" where
  "parseClientJobResultLinks env resultJSON =
     (if TrimSpace resultJSON = [] then []
      else case ce_resultLinks env resultJSON of None \<Rightarrow> [] | Some links \<Rightarrow> links)"

definition applyClientJobOutcome ::
    "'q client_env \<Rightarrow> action \<Rightarrow> bool \<Rightarrow> string \<Rightarrow> string \<Rightarrow> gotime \<Rightarrow> deployment \<Rightarrow> deployment" where
  "applyClientJobOutcome env action success message resultJSON observedAt d =
     (if \<not> success then d\<lparr>dp_status := DeploymentStatusFailed, dp_lastError := message\<rparr>
      else let d1 = d\<lparr>dp_status := DeploymentStatusSucceeded, dp_lastError := [], dp_lastAppliedAt := Some observedAt\<rparr>
           in if action = ActionClientDelete then d1\<lparr>dp_connectionLinks := [], dp_linkDiagnostic := []\<rparr>
              else let links = parseClientJobResultLinks env resultJSON
                   in if links \<noteq> [] then d1\<lparr>dp_connectionLinks := links, dp_linkDiagnostic := []\<rparr>
                      else d1\<lparr>dp_linkDiagnostic := staleLinkDiagnostic\<rparr>)"

definition applyClientJobDeployment ::
    "'q client_env \<Rightarrow> string \<Rightarrow> string \<Rightarrow> job \<Rightarrow> bool \<Rightarrow> string \<Rightarrow> string \<Rightarrow> gotime \<Rightarrow> client_service \<Rightarrow> deployment option" where
  "applyClientJobDeployment env clientID agentID job success message resultJSON observedAt s =
     (if \<not> MirrorClientExists clientID s then None
      else let d = (case MirrorDeployment clientID agentID s of Some d \<Rightarrow> d | None \<Rightarrow> zero_deployment)
           in Some (applyClientJobOutcome env (j_action job) success message resultJSON observedAt
                (d\<lparr>dp_clientID := clientID, dp_agentID := agentID, dp_desiredOperation := j_action job, dp_updatedAt := observedAt\<rparr>)))"

definition persist_deployment :: "deployment \<Rightarrow> 'q panel \<Rightarrow> store_error option \<times> 'q panel" where
  "persist_deployment d p =
     (case PersistDeployment d (pn_svc p) (pn_db p) of (e, s, db) \<Rightarrow> (e, p\<lparr>pn_svc := s, pn_db := db\<rparr>))"

definition recordClientResetQuotaTimestamp ::
    "string \<Rightarrow> string \<Rightarrow> uint64 \<Rightarrow> gotime \<Rightarrow> client_service \<Rightarrow> deployment option" where
  "recordClientResetQuotaTimestamp clientID agentID lastResetEpochSecs observedAt s =
     (if \<not> MirrorClientExists clientID s then None
      else map_option (\<lambda>d. d\<lparr>dp_lastResetEpochSecs := lastResetEpochSecs, dp_updatedAt := observedAt\<rparr>)
             (MirrorDeployment clientID agentID s))"

definition applyClientResetQuotaResult ::
    "'q client_env \<Rightarrow> string \<Rightarrow> job \<Rightarrow> bool \<Rightarrow> string \<Rightarrow> gotime \<Rightarrow> 'q panel \<Rightarrow> 'q panel" where
  "applyClientResetQuotaResult env agentID job success resultJSON observedAt p =
     (if \<not> success then p
      else case ce_unmarshalReset env (j_payload job) of None \<Rightarrow> p
        | Some payload \<Rightarrow>
            let fallback = word_of_int (toUnix observedAt);
                epoch = (if TrimSpace resultJSON = [] then fallback
                         else case ce_resultReset env resultJSON of
                             Some e \<Rightarrow> if e \<noteq> 0 then e else fallback | None \<Rightarrow> fallback)
            in case recordClientResetQuotaTimestamp (rq_clientID payload) agentID epoch observedAt (pn_svc p) of
                 None \<Rightarrow> p | Some d \<Rightarrow> snd (persist_deployment d p))"

definition RecordJobResult ::
    "'q client_env \<Rightarrow> string \<Rightarrow> string \<Rightarrow> bool \<Rightarrow> string \<Rightarrow> string \<Rightarrow> gotime \<Rightarrow> 'q panel \<Rightarrow> 'q panel" where
  "RecordJobResult env agentID jobID success message resultJSON observedAt p =
     (case ce_getJob env jobID (pn_jobs p) of None \<Rightarrow> p
      | Some job \<Rightarrow>
          if j_action job = ActionClientResetQuota then applyClientResetQuotaResult env agentID job success resultJSON observedAt p
          else if \<not> client_action (j_action job) then p
          else case ce_unmarshal env (j_payload job) of None \<Rightarrow> p
            | Some payload \<Rightarrow>
                (case applyClientJobDeployment env (pl_clientID payload) agentID job success message resultJSON observedAt (pn_svc p) of
                   None \<Rightarrow> p
                 | Some d \<Rightarrow>
                     let p1 = (if success then p\<lparr>pn_svc := confirm (reconcileKey (pl_clientID payload) agentID) (pn_svc p)\<rparr> else p)
                     in case persist_deployment d p1 of
                          (Some _, p2) \<Rightarrow> p2
                        | (None, p2) \<Rightarrow> notice (PublishClientsUpdated (pl_clientID payload)) p2))"

subsection \<open>Expiry\<close>

definition expire_deployment ::
    "'q client_env \<Rightarrow> gotime \<Rightarrow> job \<times> string \<Rightarrow> string list \<times> 'q panel \<Rightarrow> string list \<times> 'q panel" where
  "expire_deployment env now target ap =
     (case (target, ap) of ((job, agentID), (affected, p)) \<Rightarrow>
        if \<not> client_action (j_action job) then (affected, p)
        else case ce_unmarshal env (j_payload job) of None \<Rightarrow> (affected, p)
          | Some payload \<Rightarrow>
              (case MirrorDeployment (pl_clientID payload) agentID (pn_svc p) of None \<Rightarrow> (affected, p)
               | Some d \<Rightarrow>
                   if dp_status d = DeploymentStatusSucceeded then (affected, p)
                   else case persist_deployment (d\<lparr>dp_status := DeploymentStatusAwaitingNode, dp_lastError := clientJobExpiredMessage,
                                                   dp_updatedAt := now\<rparr>) p of
                       (Some _, p1) \<Rightarrow> (affected, p1)
                     | (None, p1) \<Rightarrow> (List.insert (pl_clientID payload) affected, p1)))"

definition OnClientJobsExpired :: "'q client_env \<Rightarrow> gotime \<Rightarrow> (job \<times> string) list \<Rightarrow> 'q panel \<Rightarrow> 'q panel" where
  "OnClientJobsExpired env now expired p =
     (let (affected, p1) = fold (expire_deployment env now) expired ([], p)
      in fold (\<lambda>i. notice (PublishClientsUpdated i)) affected p1)"

subsection \<open>Re-sending what is not confirmed\<close>

definition actorReconciler :: string where
  "actorReconciler = ''system:reconciler''"

text \<open>The agents of one client that are owed an operation and may be tried again now.\<close>

fun collect_pending ::
    "string \<Rightarrow> gotime \<Rightarrow> string \<Rightarrow> (string \<rightharpoonup> deployment) \<Rightarrow> string list \<Rightarrow> client_service \<Rightarrow>
     (action \<times> string) list \<times> client_service" where
  "collect_pending agentFilter now clientID byAgent [] s = ([], s)"
| "collect_pending agentFilter now clientID byAgent (a # as) s =
     (case (if agentFilter \<noteq> [] \<and> a \<noteq> agentFilter then None
            else case byAgent a of None \<Rightarrow> None | Some d \<Rightarrow> divergentDeploymentAction d) of
        None \<Rightarrow> collect_pending agentFilter now clientID byAgent as s
      | Some action \<Rightarrow>
          (case shouldRetry (reconcileKey clientID a) now s of
             (None, s1) \<Rightarrow> collect_pending agentFilter now clientID byAgent as s1
           | (Some _, s1) \<Rightarrow>
               let (rest, s2) = collect_pending agentFilter now clientID byAgent as s1 in ((action, a) # rest, s2)))"

definition agents_owed :: "(action \<times> string) list \<Rightarrow> action \<Rightarrow> string list" where
  "agents_owed pending action = map snd (filter (\<lambda>(x, _). x = action) pending)"

text \<open>One send: the client is read again, so that the payload is the newest committed one.\<close>

definition reconcile_send ::
    "'q client_env \<Rightarrow> gotime \<Rightarrow> client \<Rightarrow> action \<Rightarrow> string list \<Rightarrow> 'q panel \<Rightarrow> nat \<times> 'q panel" where
  "reconcile_send env now seen action agentIDs p =
     (case svc_Get (cl_id seen) (pn_svc p) of None \<Rightarrow> (0, p)
      | Some fresh \<Rightarrow>
          if cl_deletedAt fresh \<noteq> None \<and> cl_deletedAt seen = None then (0, p)
          else case EnqueueClientJob env actorReconciler action fresh agentIDs now p of
              (Inl _, p1) \<Rightarrow> (0, p1) | (Inr _, p1) \<Rightarrow> (1, p1))"

fun send_actions ::
    "'q client_env \<Rightarrow> gotime \<Rightarrow> client \<Rightarrow> (action \<times> string) list \<Rightarrow> action list \<Rightarrow> 'q panel \<Rightarrow> nat \<times> 'q panel" where
  "send_actions env now c pending [] p = (0, p)"
| "send_actions env now c pending (action # rest) p =
     (let agentIDs = agents_owed pending action
      in if agentIDs = [] then send_actions env now c pending rest p
         else let (n, p1) = reconcile_send env now c action agentIDs p;
                  (m, p2) = send_actions env now c pending rest p1
              in (n + m, p2))"

definition reconcile_client ::
    "'q client_env \<Rightarrow> string \<Rightarrow> gotime \<Rightarrow> client_service \<Rightarrow> string \<Rightarrow> 'q panel \<Rightarrow> nat \<times> 'q panel" where
  "reconcile_client env agentFilter now snap clientID p =
     (case (cs_deployments snap clientID, cs_clients snap clientID) of
        (Some byAgent, Some c) \<Rightarrow>
          let (pending, s1) = collect_pending agentFilter now clientID byAgent (ce_agents env) (pn_svc p)
          in send_actions env now c pending (ce_actions env) (p\<lparr>pn_svc := s1\<rparr>)
      | _ \<Rightarrow> (0, p))"

fun reconcile_each ::
    "'q client_env \<Rightarrow> string \<Rightarrow> gotime \<Rightarrow> client_service \<Rightarrow> string list \<Rightarrow> 'q panel \<Rightarrow> nat \<times> 'q panel" where
  "reconcile_each env agentFilter now snap [] p = (0, p)"
| "reconcile_each env agentFilter now snap (i # is) p =
     (let (n, p1) = reconcile_client env agentFilter now snap i p;
          (m, p2) = reconcile_each env agentFilter now snap is p1
      in (n + m, p2))"

definition ReconcileDeployments :: "'q client_env \<Rightarrow> string \<Rightarrow> gotime \<Rightarrow> 'q panel \<Rightarrow> nat \<times> 'q panel" where
  "ReconcileDeployments env agentFilter now p = reconcile_each env agentFilter now (pn_svc p) (ce_clients env) p"

subsection \<open>Topology\<close>

definition deploymentsForClient :: "string list \<Rightarrow> client_service \<Rightarrow> string \<Rightarrow> deployment list" where
  "deploymentsForClient order mirror clientID = List.map_filter (inner (cs_deployments mirror) clientID) order"

definition reconcileTopologyClient ::
    "'q client_env \<Rightarrow> string \<Rightarrow> gotime \<Rightarrow> 'q panel \<Rightarrow>
     (client_error + (client \<times> deployment list \<times> string list) option) \<times> 'q panel" where
  "reconcileTopologyClient env clientID observedAt p =
     (case living_snapshot env clientID p of Inl _ \<Rightarrow> (Inr None, p)
      | Inr (c, assignments, deployments) \<Rightarrow>
          let targets = ResolveTargetAgentIDs assignments (ce_topology env)
          in if sameAgentSet (DeploymentAgentIDs deployments) targets then (Inr None, p)
             else let nxt = BuildDeployments deployments clientID targets ActionClientUpdate ActionClientDelete observedAt
                  in case SaveState (ce_vault env) c assignments nxt (pn_svc p) (pn_db p) of
                       (Some e, s, db) \<Rightarrow> (Inl e, p\<lparr>pn_svc := s, pn_db := db\<rparr>)
                     | (None, s, db) \<Rightarrow> (Inr (Some (c, deployments, targets)), p\<lparr>pn_svc := s, pn_db := db\<rparr>))"

definition topology_step ::
    "'q client_env \<Rightarrow> string \<Rightarrow> gotime \<Rightarrow> client_service \<Rightarrow> string \<Rightarrow> 'q panel \<Rightarrow> 'q panel" where
  "topology_step env actorID observedAt mirror clientID p =
     (case cs_clients mirror clientID of None \<Rightarrow> p
      | Some c \<Rightarrow>
          if cl_deletedAt c \<noteq> None then p
          else let assignments = (case cs_assignments mirror clientID of Some as \<Rightarrow> as | None \<Rightarrow> []);
                   deployments = deploymentsForClient (ce_agents env) mirror clientID;
                   targets = ResolveTargetAgentIDs assignments (ce_topology env)
               in if sameAgentSet (DeploymentAgentIDs deployments) targets then p
                  else case reconcileTopologyClient env clientID observedAt p of
                      (Inl _, p1) \<Rightarrow> p1
                    | (Inr None, p1) \<Rightarrow> p1
                    | (Inr (Some (fresh, freshDeployments, freshTargets)), p1) \<Rightarrow>
                        snd (DispatchClientUpdateJobs env actorID fresh freshDeployments freshTargets observedAt
                              (notice (PublishClientsUpdated (cl_id fresh)) p1)))"

definition ReconcileTopology :: "'q client_env \<Rightarrow> string \<Rightarrow> gotime \<Rightarrow> 'q panel \<Rightarrow> 'q panel" where
  "ReconcileTopology env actorID observedAt p = fold (topology_step env actorID observedAt (pn_svc p)) (ce_clients env) p"

end
