(* ===== verification/Secret_Vault.thy ===== *)
theory Secret_Vault
  imports Client_Service
begin

section \<open>The secret vault (internal/controlplane/secretvault)\<close>

text \<open>
  Sensitive columns are sealed under per-domain data keys (DEKs), the data keys are wrapped
  under a key derived from the operator's passphrase (KEK) and kept in the table cp_secrets.
  Argon2id, HKDF, SHA-256, AES-GCM and base64 are library functions: the record
  \<^verbatim>\<open>crypto_lib\<close>, with what the code relies on in \<open>crypto_ok\<close>. Random bytes are arguments. The
  table is a map; a missing row reads as the empty value, and its reads and writes succeed.
\<close>

subsection \<open>Library functions\<close>

record crypto_lib =
  cy_IDKey :: "string \<Rightarrow> string \<Rightarrow> nat \<Rightarrow> nat \<Rightarrow> nat \<Rightarrow> nat \<Rightarrow> string"
  cy_hkdf :: "string \<Rightarrow> string \<Rightarrow> string \<Rightarrow> nat \<Rightarrow> string"
  cy_sha256 :: "string \<Rightarrow> string"
  cy_Seal :: "string \<Rightarrow> string \<Rightarrow> string \<Rightarrow> string \<Rightarrow> string"
  cy_Open :: "string \<Rightarrow> string \<Rightarrow> string \<Rightarrow> string \<Rightarrow> string option"
  cy_encode :: "string \<Rightarrow> string"
  cy_decode :: "string \<Rightarrow> string option"
  cy_encodeStd :: "string \<Rightarrow> string"
  cy_decodeStd :: "string \<Rightarrow> string option"

text \<open>\<^verbatim>\<open>aes.NewCipher\<close> accepts keys of 16, 24 and 32 bytes; the nonce of GCM has 12 bytes.\<close>

definition newGCM :: "string \<Rightarrow> bool" where
  "newGCM key \<longleftrightarrow> length key \<in> {16, 24, 32}"

definition gcm_NonceSize :: nat where "gcm_NonceSize = 12"

text \<open>\<^verbatim>\<open>strconv.Itoa\<close>, \<^verbatim>\<open>strconv.Atoi\<close>, \<^verbatim>\<open>strings.HasPrefix\<close> and \<^verbatim>\<open>strings.IndexByte\<close>.\<close>

definition Itoa :: "nat \<Rightarrow> string" where "Itoa n = dec_digits n"

definition Atoi :: "string \<Rightarrow> int option" where
  "Atoi s =
     (let (neg, ds) = (case s of [] \<Rightarrow> (False, []) | c # cs \<Rightarrow> if c = CHR ''-'' then (True, cs) else if c = CHR ''+'' then (False, cs) else (False, s))
      in if ds = [] \<or> \<not> list_all is_digit ds then None
         else let n = (if neg then - int (dec_value ds) else int (dec_value ds))
              in if - (2 ^ 63) \<le> n \<and> n < 2 ^ 63 then Some n else None)"

definition HasPrefix :: "string \<Rightarrow> string \<Rightarrow> bool" where
  "HasPrefix s p \<longleftrightarrow> take (length p) s = p"

definition cut_at :: "char \<Rightarrow> string \<Rightarrow> (string \<times> string) option" where
  "cut_at c s = (if c \<in> set s then Some (takeWhile (\<lambda>x. x \<noteq> c) s, tl (dropWhile (\<lambda>x. x \<noteq> c) s)) else None)"

subsection \<open>State\<close>

datatype vault_error =
    ErrPassphraseRequired
  | ErrUnknownDomain
  | ErrCorrupted
  | ErrEnvelopeWrongKEK
  | ErrVaultDisabled
  | ErrEnvelopeMissing
  | ErrEmptySalt
  | ErrEmptyDomain
  | ErrDuplicateDomain
  | ErrCipher
  | ErrSamePassphrase
  | ErrActiveVersion
  | ErrCacheKey

record envelope =
  ev_activeVersion :: "string \<rightharpoonup> nat"
  ev_deks :: "string \<rightharpoonup> string"

record vault =
  vt_enabled :: bool
  vt_keys :: "string \<rightharpoonup> string"
  vt_envelope :: "envelope option"
  vt_kek :: string

type_synonym cp_secrets = "string \<rightharpoonup> string"

definition GetCPSecret :: "string \<Rightarrow> cp_secrets \<Rightarrow> string" where
  "GetCPSecret key store = map_get [] store key"

definition PutCPSecret :: "string \<Rightarrow> string \<Rightarrow> cp_secrets \<Rightarrow> cp_secrets" where
  "PutCPSecret key v store = store(key \<mapsto> v)"

subsection \<open>Domains and names\<close>

definition DomainClientSecret :: string where "DomainClientSecret = ''client_secret''"
definition DomainTOTP :: string where "DomainTOTP = ''totp_secret''"
definition DomainWebhookSecret :: string where "DomainWebhookSecret = ''webhook_secret''"
definition DomainIntegrationConfig :: string where "DomainIntegrationConfig = ''integration_config''"

definition AllDomains :: "string list" where
  "AllDomains = [DomainClientSecret, DomainTOTP, DomainWebhookSecret, DomainIntegrationConfig]"

definition Prefix2 :: string where "Prefix2 = ''PVS2:''"
definition Prefix3 :: string where "Prefix3 = ''PVS3:''"
definition masterSalt :: string where "masterSalt = ''panvex-secretvault-master-v1''"
definition keyLen :: nat where "keyLen = 32"
definition dekVersion :: nat where "dekVersion = 1"
definition cpSecretKEKFingerprint :: string where "cpSecretKEKFingerprint = ''vault_kek_fp''"

definition dekCacheKey :: "string \<Rightarrow> nat \<Rightarrow> string" where
  "dekCacheKey domain version = domain @ ''|v'' @ Itoa version"

definition wrapAAD :: "string \<Rightarrow> nat \<Rightarrow> string" where
  "wrapAAD domain version = domain @ ''|v'' @ Itoa version"

definition activeKey :: "string \<Rightarrow> string" where
  "activeKey domain = ''vault_dek_'' @ domain @ ''_active''"

definition wrappedKey :: "string \<Rightarrow> nat \<Rightarrow> string" where
  "wrappedKey domain version = ''vault_dek_'' @ domain @ ''_v'' @ Itoa version @ ''_wrapped''"

definition parseDEKCacheKey :: "string \<Rightarrow> vault_error + string \<times> nat" where
  "parseDEKCacheKey s =
     (case cut_at (CHR ''|'') s of None \<Rightarrow> Inl ErrCacheKey
      | Some (domain, rest) \<Rightarrow>
          if domain = [] then Inl ErrCacheKey
          else if length rest < 2 \<or> hd rest \<noteq> CHR ''v'' then Inl ErrCacheKey
          else case Atoi (tl rest) of None \<Rightarrow> Inl ErrCacheKey
            | Some n \<Rightarrow> Inr (domain, nat n))"

subsection \<open>Keys\<close>

definition deriveKEK :: "crypto_lib \<Rightarrow> string \<Rightarrow> string" where
  "deriveKEK lib passphrase = cy_IDKey lib passphrase masterSalt 3 (64 * 1024) 2 keyLen"

definition deriveDomainKey :: "crypto_lib \<Rightarrow> string \<Rightarrow> string \<Rightarrow> string \<Rightarrow> string" where
  "deriveDomainKey lib masterKey salt domain = cy_hkdf lib masterKey salt domain keyLen"

fun domain_keys :: "crypto_lib \<Rightarrow> string \<Rightarrow> string \<Rightarrow> string list \<Rightarrow> (string \<rightharpoonup> string) \<Rightarrow> vault_error + (string \<rightharpoonup> string)" where
  "domain_keys lib masterKey salt [] keys = Inr keys"
| "domain_keys lib masterKey salt (d # ds) keys =
     (if TrimSpace d = [] then Inl ErrEmptyDomain
      else if keys d \<noteq> None then Inl ErrDuplicateDomain
      else domain_keys lib masterKey salt ds (keys(d \<mapsto> deriveDomainKey lib masterKey salt d)))"

definition NewWithSalt :: "crypto_lib \<Rightarrow> string \<Rightarrow> string list \<Rightarrow> string \<Rightarrow> vault_error + vault" where
  "NewWithSalt lib passphrase domains salt =
     (if TrimSpace passphrase = [] then Inr \<lparr>vt_enabled = False, vt_keys = Map.empty, vt_envelope = None, vt_kek = []\<rparr>
      else if salt = [] then Inl ErrEmptySalt
      else case domain_keys lib (deriveKEK lib passphrase) salt domains Map.empty of Inl e \<Rightarrow> Inl e
        | Inr keys \<Rightarrow> Inr \<lparr>vt_enabled = True, vt_keys = keys, vt_envelope = None, vt_kek = []\<rparr>)"

definition wrapDEK :: "crypto_lib \<Rightarrow> string \<Rightarrow> string \<Rightarrow> string \<Rightarrow> string \<Rightarrow> nat \<Rightarrow> vault_error + string" where
  "wrapDEK lib nonce kek dek domain version =
     (if newGCM kek then Inr (nonce @ cy_Seal lib kek nonce dek (wrapAAD domain version)) else Inl ErrCipher)"

definition unwrapDEK :: "crypto_lib \<Rightarrow> string \<Rightarrow> string \<Rightarrow> string \<Rightarrow> nat \<Rightarrow> vault_error + string" where
  "unwrapDEK lib kek wrapped domain version =
     (if \<not> newGCM kek then Inl ErrCipher
      else if length wrapped < gcm_NonceSize then Inl ErrCorrupted
      else case cy_Open lib kek (take gcm_NonceSize wrapped) (drop gcm_NonceSize wrapped) (wrapAAD domain version) of
          None \<Rightarrow> Inl ErrCorrupted | Some dek \<Rightarrow> Inr dek)"

definition verifyOrStoreKEKFingerprint :: "crypto_lib \<Rightarrow> string \<Rightarrow> cp_secrets \<Rightarrow> vault_error + cp_secrets" where
  "verifyOrStoreKEKFingerprint lib kek store =
     (let want = cy_sha256 lib kek; got = GetCPSecret cpSecretKEKFingerprint store
      in if got = [] then Inr (PutCPSecret cpSecretKEKFingerprint want store)
         else if got \<noteq> want then Inl ErrEnvelopeWrongKEK else Inr store)"

definition readActiveVersion :: "string \<Rightarrow> cp_secrets \<Rightarrow> vault_error + nat" where
  "readActiveVersion domain store =
     (let raw = GetCPSecret (activeKey domain) store
      in if raw = [] then Inr 0
         else case Atoi raw of None \<Rightarrow> Inl ErrActiveVersion
           | Some n \<Rightarrow> if n < 1 then Inl ErrActiveVersion else Inr (nat n))"

text \<open>The random bytes of a domain: its data key and the nonce it is wrapped with.\<close>

definition mintFirstDEK ::
    "crypto_lib \<Rightarrow> string \<times> string \<Rightarrow> string \<Rightarrow> string \<Rightarrow> envelope \<times> cp_secrets \<Rightarrow> vault_error + envelope \<times> cp_secrets" where
  "mintFirstDEK lib draw kek domain es =
     (case (draw, es) of ((dek, nonce), (env, store)) \<Rightarrow>
        case wrapDEK lib nonce kek dek domain dekVersion of Inl e \<Rightarrow> Inl e
        | Inr wrapped \<Rightarrow>
            Inr (env\<lparr>ev_activeVersion := (ev_activeVersion env)(domain \<mapsto> dekVersion),
                     ev_deks := (ev_deks env)(dekCacheKey domain dekVersion \<mapsto> dek)\<rparr>,
                 PutCPSecret (activeKey domain) (Itoa dekVersion) (PutCPSecret (wrappedKey domain dekVersion) wrapped store)))"

fun load_versions ::
    "crypto_lib \<Rightarrow> string \<Rightarrow> string \<Rightarrow> cp_secrets \<Rightarrow> nat list \<Rightarrow> (string \<rightharpoonup> string) \<Rightarrow> vault_error + (string \<rightharpoonup> string)" where
  "load_versions lib kek domain store [] deks = Inr deks"
| "load_versions lib kek domain store (v # vs) deks =
     (let wrapped = GetCPSecret (wrappedKey domain v) store
      in if wrapped = [] then load_versions lib kek domain store vs deks
         else case unwrapDEK lib kek wrapped domain v of Inl e \<Rightarrow> Inl e
           | Inr dek \<Rightarrow> load_versions lib kek domain store vs (deks(dekCacheKey domain v \<mapsto> dek)))"

fun loadOrInitDEKs ::
    "crypto_lib \<Rightarrow> (string \<Rightarrow> string \<times> string) \<Rightarrow> string \<Rightarrow> string list \<Rightarrow> envelope \<times> cp_secrets \<Rightarrow>
     vault_error + envelope \<times> cp_secrets" where
  "loadOrInitDEKs lib draws kek [] es = Inr es"
| "loadOrInitDEKs lib draws kek (domain # domains) es =
     (case readActiveVersion domain (snd es) of Inl e \<Rightarrow> Inl e
      | Inr active \<Rightarrow>
          if active = 0 then
            (case mintFirstDEK lib (draws domain) kek domain es of Inl e \<Rightarrow> Inl e
             | Inr es' \<Rightarrow> loadOrInitDEKs lib draws kek domains es')
          else
            (case load_versions lib kek domain (snd es) [1..<Suc active] (ev_deks (fst es)) of Inl e \<Rightarrow> Inl e
             | Inr deks \<Rightarrow>
                 loadOrInitDEKs lib draws kek domains
                   ((fst es)\<lparr>ev_deks := deks, ev_activeVersion := (ev_activeVersion (fst es))(domain \<mapsto> active)\<rparr>, snd es)))"

definition empty_envelope :: envelope where
  "empty_envelope = \<lparr>ev_activeVersion = Map.empty, ev_deks = Map.empty\<rparr>"

definition NewWithEnvelope ::
    "crypto_lib \<Rightarrow> (string \<Rightarrow> string \<times> string) \<Rightarrow> string \<Rightarrow> string list \<Rightarrow> string \<Rightarrow> cp_secrets \<Rightarrow> vault_error + vault \<times> cp_secrets" where
  "NewWithEnvelope lib draws passphrase domains salt store =
     (case NewWithSalt lib passphrase domains salt of Inl e \<Rightarrow> Inl e
      | Inr v \<Rightarrow>
          if \<not> vt_enabled v then Inr (v, store)
          else let kek = deriveKEK lib passphrase
               in case verifyOrStoreKEKFingerprint lib kek store of Inl e \<Rightarrow> Inl e
                  | Inr store1 \<Rightarrow>
                      (case loadOrInitDEKs lib draws kek domains (empty_envelope, store1) of Inl e \<Rightarrow> Inl e
                       | Inr (env, store2) \<Rightarrow> Inr (v\<lparr>vt_envelope := Some env, vt_kek := kek\<rparr>, store2)))"

subsection \<open>Sealing and opening a value\<close>

definition activeDEK :: "vault \<Rightarrow> string \<Rightarrow> (nat \<times> string) option" where
  "activeDEK v domain =
     (case vt_envelope v of None \<Rightarrow> None
      | Some env \<Rightarrow>
          (case ev_activeVersion env domain of None \<Rightarrow> None
           | Some version \<Rightarrow> map_option (Pair version) (ev_deks env (dekCacheKey domain version))))"

definition encryptEnvelope :: "crypto_lib \<Rightarrow> string \<Rightarrow> vault \<Rightarrow> string \<Rightarrow> string \<Rightarrow> vault_error + string" where
  "encryptEnvelope lib nonce v domain plaintext =
     (case activeDEK v domain of None \<Rightarrow> Inl ErrUnknownDomain
      | Some (version, dek) \<Rightarrow>
          if \<not> newGCM dek then Inl ErrCipher
          else Inr (Prefix3 @ ''v'' @ Itoa version @ '':'' @ cy_encode lib (nonce @ cy_Seal lib dek nonce plaintext domain)))"

definition open_blob :: "crypto_lib \<Rightarrow> string \<Rightarrow> string \<Rightarrow> string \<Rightarrow> vault_error + string" where
  "open_blob lib key domain body =
     (case cy_decode lib body of None \<Rightarrow> Inl ErrCorrupted
      | Some blob \<Rightarrow>
          if \<not> newGCM key then Inl ErrCipher
          else if length blob < gcm_NonceSize then Inl ErrCorrupted
          else case cy_Open lib key (take gcm_NonceSize blob) (drop gcm_NonceSize blob) domain of
              None \<Rightarrow> Inl ErrCorrupted | Some plain \<Rightarrow> Inr plain)"

definition decryptEnvelope :: "crypto_lib \<Rightarrow> vault \<Rightarrow> string \<Rightarrow> string \<Rightarrow> vault_error + string" where
  "decryptEnvelope lib v domain body =
     (case vt_envelope v of None \<Rightarrow> Inl ErrEnvelopeMissing
      | Some env \<Rightarrow>
          (case cut_at (CHR '':'') body of None \<Rightarrow> Inl ErrCorrupted
           | Some (head, rest) \<Rightarrow>
               if length head < 2 \<or> hd head \<noteq> CHR ''v'' then Inl ErrCorrupted
               else if length head - 1 > 4 then Inl ErrCorrupted
               else case Atoi (tl head) of None \<Rightarrow> Inl ErrCorrupted
                 | Some version \<Rightarrow>
                     if version < 1 then Inl ErrCorrupted
                     else case ev_deks env (dekCacheKey domain (nat version)) of None \<Rightarrow> Inl ErrUnknownDomain
                       | Some dek \<Rightarrow> open_blob lib dek domain rest))"

definition Encrypt :: "crypto_lib \<Rightarrow> string \<Rightarrow> vault \<Rightarrow> string \<Rightarrow> string \<Rightarrow> vault_error + string" where
  "Encrypt lib nonce v domain plaintext =
     (if plaintext = [] then Inr []
      else if \<not> vt_enabled v then Inr plaintext
      else if vt_envelope v \<noteq> None then encryptEnvelope lib nonce v domain plaintext
      else case vt_keys v domain of None \<Rightarrow> Inl ErrUnknownDomain
        | Some key \<Rightarrow>
            if \<not> newGCM key then Inl ErrCipher
            else Inr (Prefix2 @ cy_encode lib (nonce @ cy_Seal lib key nonce plaintext domain)))"

definition decryptWithKey :: "crypto_lib \<Rightarrow> vault \<Rightarrow> string \<Rightarrow> string \<Rightarrow> vault_error + string" where
  "decryptWithKey lib v domain body =
     (if \<not> vt_enabled v then Inl ErrVaultDisabled
      else case vt_keys v domain of None \<Rightarrow> Inl ErrUnknownDomain | Some key \<Rightarrow> open_blob lib key domain body)"

fun digits_then_colon :: "nat \<Rightarrow> string \<Rightarrow> bool" where
  "digits_then_colon n [] = False"
| "digits_then_colon n (c # cs) = (if is_digit c then digits_then_colon (Suc n) cs else c = CHR '':'' \<and> n > 0)"

definition hasVaultPrefix :: "string \<Rightarrow> bool" where
  "hasVaultPrefix v = (case cut_prefix v ''PVS'' of None \<Rightarrow> False | Some rest \<Rightarrow> digits_then_colon 0 rest)"

definition Decrypt :: "crypto_lib \<Rightarrow> vault \<Rightarrow> string \<Rightarrow> string \<Rightarrow> vault_error + string" where
  "Decrypt lib v domain value =
     (if HasPrefix value Prefix3 then decryptEnvelope lib v domain (drop 5 value)
      else if HasPrefix value Prefix2 then decryptWithKey lib v domain (drop 5 value)
      else if hasVaultPrefix value then Inl ErrCorrupted
      else Inr value)"

definition IsEncrypted :: "string \<Rightarrow> bool" where
  "IsEncrypted value \<longleftrightarrow> HasPrefix value Prefix2 \<or> HasPrefix value Prefix3"

definition EncryptIfEnabled :: "crypto_lib \<Rightarrow> string \<Rightarrow> vault \<Rightarrow> string \<Rightarrow> string \<Rightarrow> vault_error + string" where
  "EncryptIfEnabled lib nonce v domain plaintext =
     (if \<not> vt_enabled v \<or> plaintext = [] \<or> IsEncrypted plaintext then Inr plaintext
      else Encrypt lib nonce v domain plaintext)"

subsection \<open>Rotation\<close>

fun rewrap_rows ::
    "crypto_lib \<Rightarrow> (string \<Rightarrow> string) \<Rightarrow> string \<Rightarrow> (string \<times> string) list \<Rightarrow> vault_error + (string \<times> string) list" where
  "rewrap_rows lib nonces newKEK [] = Inr []"
| "rewrap_rows lib nonces newKEK ((cacheKey, dek) # rest) =
     (case parseDEKCacheKey cacheKey of Inl e \<Rightarrow> Inl e
      | Inr (domain, version) \<Rightarrow>
          (case wrapDEK lib (nonces cacheKey) newKEK dek domain version of Inl e \<Rightarrow> Inl e
           | Inr wrapped \<Rightarrow>
               (case rewrap_rows lib nonces newKEK rest of Inl e \<Rightarrow> Inl e
                | Inr rows \<Rightarrow> Inr ((wrappedKey domain version, wrapped) # rows))))"

definition RotateKEK ::
    "crypto_lib \<Rightarrow> (string \<Rightarrow> string) \<Rightarrow> string list \<Rightarrow> vault \<Rightarrow> string \<Rightarrow> cp_secrets \<Rightarrow>
     vault_error + (nat \<times> vault \<times> cp_secrets)" where
  "RotateKEK lib nonces order v newPassphrase store =
     (if \<not> vt_enabled v then Inl ErrVaultDisabled
      else case vt_envelope v of None \<Rightarrow> Inl ErrEnvelopeMissing
        | Some env \<Rightarrow>
            if TrimSpace newPassphrase = [] then Inl ErrPassphraseRequired
            else let newKEK = deriveKEK lib newPassphrase
                 in if newKEK = vt_kek v then Inl ErrSamePassphrase
                    else case rewrap_rows lib nonces newKEK
                              (List.map_filter (\<lambda>k. map_option (Pair k) (ev_deks env k)) order) of Inl e \<Rightarrow> Inl e
                      | Inr rows \<Rightarrow>
                          let store1 = fold (\<lambda>(k, w). PutCPSecret k w) rows store;
                              store2 = PutCPSecret cpSecretKEKFingerprint (cy_sha256 lib newKEK) store1
                          in Inr (length rows, v\<lparr>vt_kek := newKEK\<rparr>, store2))"

subsection \<open>What the code relies on\<close>

definition crypto_ok :: "crypto_lib \<Rightarrow> bool" where
  "crypto_ok lib \<longleftrightarrow>
     (\<forall>p s t m q n. length (cy_IDKey lib p s t m q n) = n) \<and>
     (\<forall>k s d n. length (cy_hkdf lib k s d n) = n) \<and>
     (\<forall>k n x aad. newGCM k \<and> length n = gcm_NonceSize \<longrightarrow> cy_Open lib k n (cy_Seal lib k n x aad) aad = Some x) \<and>
     (\<forall>b. cy_decode lib (cy_encode lib b) = Some b) \<and>
     (\<forall>b. cy_decodeStd lib (cy_encodeStd lib b) = Some b) \<and>
     (\<forall>b. cy_sha256 lib b \<noteq> [])"

definition draws_ok :: "(string \<Rightarrow> string \<times> string) \<Rightarrow> bool" where
  "draws_ok draws \<longleftrightarrow> (\<forall>d. length (fst (draws d)) = keyLen \<and> length (snd (draws d)) = gcm_NonceSize)"

definition nonces_ok :: "(string \<Rightarrow> string) \<Rightarrow> bool" where
  "nonces_ok nonces \<longleftrightarrow> (\<forall>k. length (nonces k) = gcm_NonceSize)"

lemma crypto_laws:
  assumes "crypto_ok lib"
  shows "newGCM (deriveKEK lib p)" "newGCM (deriveDomainKey lib m s d)"
    "newGCM k \<Longrightarrow> length n = gcm_NonceSize \<Longrightarrow> cy_Open lib k n (cy_Seal lib k n x aad) aad = Some x"
    "cy_decode lib (cy_encode lib b) = Some b" "cy_sha256 lib b \<noteq> []" "cy_decodeStd lib (cy_encodeStd lib b) = Some b"
    "length (cy_IDKey lib p' s t m' q n') = n'"
  using assms by (simp_all add: crypto_ok_def newGCM_def deriveKEK_def deriveDomainKey_def keyLen_def)

lemma wrap_unwrap:
  assumes "crypto_ok lib" "length nonce = gcm_NonceSize" "wrapDEK lib nonce kek dek d v = Inr w"
  shows "unwrapDEK lib kek w d v = Inr dek" "w \<noteq> []"
  using assms by (auto simp: wrapDEK_def unwrapDEK_def crypto_laws gcm_NonceSize_def split: if_splits)

subsection \<open>Names do not collide\<close>

lemma Itoa_inject [simp]: "Itoa n = Itoa m \<longleftrightarrow> n = m"
  unfolding Itoa_def by (metis dec_digits_props(1))

lemma Itoa_head: "Itoa n \<noteq> []" "list_all is_digit (Itoa n)"
  using dec_digits_props [of n] by (auto simp: Itoa_def)

lemma Atoi_Itoa: "n < 2 ^ 63 \<Longrightarrow> Atoi (Itoa n) = Some (int n)"
proof -
  assume n: "n < 2 ^ 63"
  obtain c cs where ds: "Itoa n = c # cs" using Itoa_head(1) by (cases "Itoa n") auto
  have "is_digit c" using Itoa_head(2) [of n] by (simp add: ds)
  then have "c \<noteq> CHR ''-''" "c \<noteq> CHR ''+''" by (auto simp: is_digit_def)
  moreover have "dec_value (c # cs) = n" using dec_digits_props(1) [of n] by (simp add: ds [symmetric] Itoa_def)
  moreover have "list_all is_digit (c # cs)" using Itoa_head(2) [of n] by (simp add: ds)
  moreover have "int n < 2 ^ 63" using n by (metis of_nat_less_iff of_nat_numeral of_nat_power)
  ultimately show ?thesis by (simp add: Atoi_def ds)
qed

definition domain_ok :: "string list \<Rightarrow> bool" where
  "domain_ok domains \<longleftrightarrow> distinct domains \<and>
     list_all (\<lambda>d. d \<noteq> [] \<and> CHR ''|'' \<notin> set d \<and> list_all (\<lambda>e. hd d = hd e \<longrightarrow> d = e) domains) domains"

lemma AllDomains_ok: "domain_ok AllDomains"
  by (simp add: domain_ok_def AllDomains_def DomainClientSecret_def DomainTOTP_def DomainWebhookSecret_def
      DomainIntegrationConfig_def)

lemma domain_okD:
  assumes "domain_ok D" "d \<in> set D"
  shows "d \<noteq> []" "CHR ''|'' \<notin> set d" "e \<in> set D \<Longrightarrow> hd d = hd e \<Longrightarrow> d = e"
  using assms by (auto simp: domain_ok_def list_all_iff)

lemma keys_separate:
  assumes "domain_ok D" "d \<in> set D" "e \<in> set D"
  shows "wrappedKey d v = wrappedKey e w \<longleftrightarrow> d = e \<and> v = w" "activeKey d = activeKey e \<longleftrightarrow> d = e"
    "wrappedKey d v \<noteq> activeKey e" "activeKey e \<noteq> wrappedKey d v"
    "wrappedKey d v \<noteq> cpSecretKEKFingerprint" "activeKey d \<noteq> cpSecretKEKFingerprint"
    "dekCacheKey d v = dekCacheKey e w \<longleftrightarrow> d = e \<and> v = w"
proof -
  have ne: "d \<noteq> []" "e \<noteq> []" using domain_okD(1) [OF assms(1)] assms(2,3) by auto
  have head: "d @ x = e @ y \<Longrightarrow> d = e" for x y
    using ne domain_okD(3) [OF assms(1,2,3)] by (cases d; cases e) auto
  have tails: "d @ x = e @ y \<longleftrightarrow> d = e \<and> x = y" for x y
    using head by auto
  show "wrappedKey d v = wrappedKey e w \<longleftrightarrow> d = e \<and> v = w" "activeKey d = activeKey e \<longleftrightarrow> d = e"
    by (simp_all add: wrappedKey_def activeKey_def tails del: append_assoc append.assoc)
  show wa: "wrappedKey d v \<noteq> activeKey e"
  proof
    assume "wrappedKey d v = activeKey e"
    then have eq: "d @ ''_v'' @ Itoa v @ ''_wrapped'' = e @ ''_active''" by (simp add: wrappedKey_def activeKey_def)
    then have "d = e" by (rule head)
    with eq show False by simp
  qed
  then show "activeKey e \<noteq> wrappedKey d v" by simp
  show "wrappedKey d v \<noteq> cpSecretKEKFingerprint" "activeKey d \<noteq> cpSecretKEKFingerprint"
    by (simp_all add: wrappedKey_def activeKey_def cpSecretKEKFingerprint_def)
  show "dekCacheKey d v = dekCacheKey e w \<longleftrightarrow> d = e \<and> v = w" by (simp add: dekCacheKey_def tails)
qed

lemma cut_at_append: "c \<notin> set s \<Longrightarrow> cut_at c (s @ c # t) = Some (s, t)"
  by (simp add: cut_at_def takeWhile_append dropWhile_append)

lemma parse_cache_key:
  assumes "domain_ok D" "d \<in> set D" "v < 2 ^ 63"
  shows "parseDEKCacheKey (dekCacheKey d v) = Inr (d, v)"
proof -
  have "cut_at (CHR ''|'') (dekCacheKey d v) = Some (d, CHR ''v'' # Itoa v)"
    using cut_at_append [OF domain_okD(2) [OF assms(1,2)], of "CHR ''v'' # Itoa v"] by (simp add: dekCacheKey_def)
  then show ?thesis
    using domain_okD(1) [OF assms(1,2)] Atoi_Itoa [OF assms(3)] Itoa_head(1) [of v]
    by (cases "Itoa v") (simp_all add: parseDEKCacheKey_def)
qed

subsection \<open>The cached keys are the stored keys\<close>

text \<open>
  For one domain: the cache has the active version of the table and, for every version up to
  it, the data key the stored row opens to, or nothing when the row is missing.
\<close>

definition version_matches :: "crypto_lib \<Rightarrow> string \<Rightarrow> string \<Rightarrow> cp_secrets \<Rightarrow> (string \<rightharpoonup> string) \<Rightarrow> nat \<Rightarrow> bool" where
  "version_matches lib kek d store deks v \<longleftrightarrow>
     (let w = GetCPSecret (wrappedKey d v) store
      in case deks (dekCacheKey d v) of None \<Rightarrow> w = [] | Some dek \<Rightarrow> w \<noteq> [] \<and> unwrapDEK lib kek w d v = Inr dek)"

definition domain_matches :: "crypto_lib \<Rightarrow> string \<Rightarrow> envelope \<Rightarrow> cp_secrets \<Rightarrow> string \<Rightarrow> bool" where
  "domain_matches lib kek env store d \<longleftrightarrow>
     (\<exists>n. 1 \<le> n \<and> n < 2 ^ 63 \<and> ev_activeVersion env d = Some n \<and> readActiveVersion d store = Inr n \<and>
        (\<forall>v. 1 \<le> v \<and> v \<le> n \<longrightarrow> version_matches lib kek d store (ev_deks env) v))"

definition cached_keys :: "envelope \<Rightarrow> string set" where
  "cached_keys env = {dekCacheKey d v | d v. \<exists>n. ev_activeVersion env d = Some n \<and> 1 \<le> v \<and> v \<le> n}"

definition env_matches :: "crypto_lib \<Rightarrow> string \<Rightarrow> string set \<Rightarrow> envelope \<Rightarrow> cp_secrets \<Rightarrow> bool" where
  "env_matches lib kek D env store \<longleftrightarrow>
     dom (ev_activeVersion env) = D \<and> dom (ev_deks env) \<subseteq> cached_keys env \<and> (\<forall>d \<in> D. domain_matches lib kek env store d)"

lemma Atoi_bound: "Atoi s = Some n \<Longrightarrow> n < 2 ^ 63"
  by (auto simp: Atoi_def Let_def split: if_splits list.splits prod.splits)

lemma readActive_bound: "readActiveVersion d store = Inr n \<Longrightarrow> n < 2 ^ 63"
  by (auto simp: readActiveVersion_def Let_def nat_less_iff dest!: Atoi_bound split: if_splits option.splits)

lemma matches_cong:
  assumes "readActiveVersion d store' = readActiveVersion d store"
    and "\<And>v. GetCPSecret (wrappedKey d v) store' = GetCPSecret (wrappedKey d v) store"
    and "ev_activeVersion env' d = ev_activeVersion env d"
    and "\<And>v. ev_deks env' (dekCacheKey d v) = ev_deks env (dekCacheKey d v)"
  shows "domain_matches lib kek env' store' d = domain_matches lib kek env store d"
  by (simp add: domain_matches_def version_matches_def assms)

lemma load_versions_spec:
  assumes "domain_ok D" "d \<in> set D" "load_versions lib kek d store vs deks = Inr deks'" "distinct vs"
    "\<forall>v \<in> set vs. deks (dekCacheKey d v) = None"
  shows "\<forall>v \<in> set vs. version_matches lib kek d store deks' v"
    "\<And>k. k \<notin> dekCacheKey d ` set vs \<Longrightarrow> deks' k = deks k"
  using assms(3-)
proof (induction vs arbitrary: deks)
  case (Cons v vs)
  let ?w = "GetCPSecret (wrappedKey d v) store"
  note sep = keys_separate(7) [OF assms(1,2,2)]
  {
    case 1
    then have new: "dekCacheKey d v \<notin> dekCacheKey d ` set vs" by (auto simp: sep)
    show ?case
    proof (cases "?w = []")
      case True
      with 1 have r: "load_versions lib kek d store vs deks = Inr deks'" by (simp add: Let_def)
      have "deks' (dekCacheKey d v) = None"
        using Cons.IH(2) [OF new r] 1 by simp
      with Cons.IH(1) [OF r] 1 True show ?thesis by (simp add: version_matches_def)
    next
      case False
      with 1 obtain dek where u: "unwrapDEK lib kek ?w d v = Inr dek"
          and r: "load_versions lib kek d store vs (deks(dekCacheKey d v \<mapsto> dek)) = Inr deks'"
        by (auto simp: Let_def split: sum.splits)
      have rest: "\<forall>x \<in> set vs. (deks(dekCacheKey d v \<mapsto> dek)) (dekCacheKey d x) = None"
        using 1 by (auto simp: sep)
      have "deks' (dekCacheKey d v) = Some dek"
        using Cons.IH(2) [OF new r _ rest] 1 by simp
      with Cons.IH(1) [OF r _ rest] 1 u False show ?thesis by (simp add: version_matches_def)
    qed
  next
    case 2
    show ?case
    proof (cases "?w = []")
      case True
      with 2 show ?thesis using Cons.IH(2) [of k deks] by (simp add: Let_def)
    next
      case False
      with 2 obtain dek where
          r: "load_versions lib kek d store vs (deks(dekCacheKey d v \<mapsto> dek)) = Inr deks'"
        by (auto simp: Let_def split: sum.splits)
      have rest: "\<forall>x \<in> set vs. (deks(dekCacheKey d v \<mapsto> dek)) (dekCacheKey d x) = None"
        using 2 by (auto simp: sep)
      show ?thesis using Cons.IH(2) [OF _ r _ rest, of k] 2 by auto
    qed
  }
qed simp_all

lemma GetCPSecret_Put [simp]: "GetCPSecret k (PutCPSecret j v store) = (if k = j then v else GetCPSecret k store)"
  by (simp add: GetCPSecret_def PutCPSecret_def map_get_def)

text \<open>Taking in one more domain.\<close>

lemma cached_keys_new:
  assumes "ev_activeVersion env d = None" "ev_activeVersion env' = (ev_activeVersion env)(d \<mapsto> n)"
  shows "cached_keys env' = cached_keys env \<union> dekCacheKey d ` {1..<Suc n}"
proof (intro set_eqI iffI)
  fix k assume "k \<in> cached_keys env'"
  then show "k \<in> cached_keys env \<union> dekCacheKey d ` {1..<Suc n}"
    by (auto simp: cached_keys_def assms(2) split: if_splits)
next
  fix k assume "k \<in> cached_keys env \<union> dekCacheKey d ` {1..<Suc n}"
  then show "k \<in> cached_keys env'"
  proof
    assume "k \<in> cached_keys env"
    then obtain e v m where e: "k = dekCacheKey e v" "ev_activeVersion env e = Some m" "1 \<le> v" "v \<le> m"
      unfolding cached_keys_def by blast
    moreover have "e \<noteq> d" using e(2) assms(1) by auto
    ultimately have "ev_activeVersion env' e = Some m" using assms(2) by simp
    with e show ?thesis unfolding cached_keys_def by blast
  next
    assume "k \<in> dekCacheKey d ` {1..<Suc n}"
    then obtain v where "k = dekCacheKey d v" "1 \<le> v" "v \<le> n" by auto
    moreover have "ev_activeVersion env' d = Some n" using assms(2) by simp
    ultimately show ?thesis unfolding cached_keys_def by blast
  qed
qed

lemma mint_matches:
  assumes ok: "crypto_ok lib" "draws_ok draws" and D: "domain_ok D" "S \<subseteq> set D" "d \<in> set D" "d \<notin> S"
    and m: "env_matches lib kek S env store" and mint: "mintFirstDEK lib (draws d) kek d (env, store) = Inr (env', store')"
  shows "env_matches lib kek (insert d S) env' store'"
    "GetCPSecret cpSecretKEKFingerprint store' = GetCPSecret cpSecretKEKFingerprint store"
proof -
  obtain dek nonce where draw: "draws d = (dek, nonce)" by (cases "draws d")
  with mint obtain w where w: "wrapDEK lib nonce kek dek d 1 = Inr w"
      and env': "env' = env\<lparr>ev_activeVersion := (ev_activeVersion env)(d \<mapsto> 1), ev_deks := (ev_deks env)(dekCacheKey d 1 \<mapsto> dek)\<rparr>"
      and store': "store' = PutCPSecret (activeKey d) (Itoa 1) (PutCPSecret (wrappedKey d 1) w store)"
    by (auto simp: mintFirstDEK_def dekVersion_def split: sum.splits)
  have "length nonce = gcm_NonceSize" using ok(2) draw by (metis draws_ok_def snd_conv)
  note opens = wrap_unwrap [OF ok(1) this w]
  note sep = keys_separate [OF D(1)]
  have self: "domain_matches lib kek env' store' d"
    using opens D(3) Atoi_Itoa [of 1] Itoa_head(1) [of 1]
    by (auto simp: domain_matches_def version_matches_def readActiveVersion_def env' store' sep intro!: exI [of _ 1])
  have other: "domain_matches lib kek env' store' e" if "e \<in> S" for e
  proof -
    have "domain_matches lib kek env' store' e = domain_matches lib kek env store e"
      using that D by (intro matches_cong) (auto simp: readActiveVersion_def env' store' sep subset_iff)
    then show ?thesis using m that by (simp add: env_matches_def)
  qed
  have dom: "dom (ev_activeVersion env) = S" "dom (ev_deks env) \<subseteq> cached_keys env" using m by (simp_all add: env_matches_def)
  then have "ev_activeVersion env d = None" using D(4) by blast
  from cached_keys_new [OF this, of env' 1] have "cached_keys env' = cached_keys env \<union> {dekCacheKey d 1}" by (simp add: env')
  then have "dom (ev_deks env') \<subseteq> cached_keys env'" using dom(2) by (auto simp: env')
  then show "env_matches lib kek (insert d S) env' store'"
    using self other dom(1) by (auto simp: env_matches_def env')
  show "GetCPSecret cpSecretKEKFingerprint store' = GetCPSecret cpSecretKEKFingerprint store"
    using sep(5,6) [OF D(3,3), THEN not_sym] by (simp add: store')
qed

lemma load_matches:
  assumes D: "domain_ok D" "S \<subseteq> set D" "d \<in> set D" "d \<notin> S"
    and m: "env_matches lib kek S env store" and n: "readActiveVersion d store = Inr n" "n \<noteq> 0"
    and load: "load_versions lib kek d store [1..<Suc n] (ev_deks env) = Inr deks"
  shows "env_matches lib kek (insert d S) (env\<lparr>ev_deks := deks, ev_activeVersion := (ev_activeVersion env)(d \<mapsto> n)\<rparr>) store"
    (is "env_matches _ _ _ ?env _")
proof -
  note sep = keys_separate [OF D(1)]
  have dom: "dom (ev_activeVersion env) = S" "dom (ev_deks env) \<subseteq> cached_keys env" using m by (simp_all add: env_matches_def)
  have none: "ev_deks env (dekCacheKey d v) = None" for v
  proof (rule ccontr)
    assume "ev_deks env (dekCacheKey d v) \<noteq> None"
    then have "dekCacheKey d v \<in> cached_keys env" using dom(2) by blast
    then obtain e w where e: "dekCacheKey d v = dekCacheKey e w" "e \<in> S" using dom(1) by (auto simp: cached_keys_def)
    moreover have "e \<in> set D" using e(2) D(2) by blast
    ultimately show False using sep(7) [OF D(3)] D(4) by blast
  qed
  note spec = load_versions_spec [OF D(1,3) load]
  have old: "deks k = ev_deks env k" if "k \<notin> dekCacheKey d ` {1..<Suc n}" for k
    using spec(2) none that by (simp del: upt_Suc)
  have self: "domain_matches lib kek ?env store d"
    using spec(1) none n readActive_bound [OF n(1)] by (auto simp: domain_matches_def simp del: upt_Suc)
  have other: "domain_matches lib kek ?env store e" if "e \<in> S" for e
  proof -
    have "e \<in> set D" "e \<noteq> d" using that D by auto
    then have "deks (dekCacheKey e v) = ev_deks env (dekCacheKey e v)" for v
      by (intro old) (auto simp: sep(7) [OF _ D(3)])
    then have "domain_matches lib kek ?env store e = domain_matches lib kek env store e"
      using \<open>e \<noteq> d\<close> by (intro matches_cong) simp_all
    then show ?thesis using m that by (simp add: env_matches_def)
  qed
  have "ev_activeVersion env d = None" using dom(1) D(4) by blast
  from cached_keys_new [OF this, of ?env n] have "cached_keys ?env = cached_keys env \<union> dekCacheKey d ` {1..<Suc n}" by simp
  moreover have "k \<in> dekCacheKey d ` {1..<Suc n} \<or> k \<in> dom (ev_deks env)" if "k \<in> dom deks" for k
    using old [of k] that by force
  ultimately have "dom deks \<subseteq> cached_keys ?env" using dom(2) by blast
  then show ?thesis using self other dom(1) by (auto simp: env_matches_def)
qed

lemma loadOrInit_matches:
  assumes ok: "crypto_ok lib" "draws_ok draws" and "domain_ok D"
    and "loadOrInitDEKs lib draws kek ds (env, store) = Inr (env', store')"
    and "env_matches lib kek S env store" "S \<union> set ds \<subseteq> set D" "distinct ds" "S \<inter> set ds = {}"
  shows "env_matches lib kek (S \<union> set ds) env' store' \<and>
    GetCPSecret cpSecretKEKFingerprint store' = GetCPSecret cpSecretKEKFingerprint store"
  using assms(4-)
proof (induction ds arbitrary: env store S)
  case (Cons d ds)
  have d: "S \<subseteq> set D" "d \<in> set D" "d \<notin> S" "insert d S \<union> set ds \<subseteq> set D" "distinct ds" "insert d S \<inter> set ds = {}"
    using Cons.prems by auto
  from Cons.prems(1) obtain n where n: "readActiveVersion d store = Inr n" by (auto split: sum.splits)
  show ?case
  proof (cases "n = 0")
    case True
    with Cons.prems(1) n obtain es1 where
        mint: "mintFirstDEK lib (draws d) kek d (env, store) = Inr es1"
        and r: "loadOrInitDEKs lib draws kek ds es1 = Inr (env', store')"
      by (auto split: sum.splits)
    obtain env1 store1 where es1: "es1 = (env1, store1)" by (cases es1)
    note step = mint_matches [OF ok assms(3) d(1,2,3) Cons.prems(2) mint [unfolded es1]]
    from Cons.IH [OF r [unfolded es1] step(1) d(4,5,6)] step(2) show ?thesis by simp
  next
    case False
    with Cons.prems(1) n obtain deks where
        load: "load_versions lib kek d store [1..<Suc n] (ev_deks env) = Inr deks"
        and r: "loadOrInitDEKs lib draws kek ds (env\<lparr>ev_deks := deks, ev_activeVersion := (ev_activeVersion env)(d \<mapsto> n)\<rparr>, store) = Inr (env', store')"
      by (auto simp del: upt_Suc split: sum.splits)
    note step = load_matches [OF assms(3) d(1,2,3) Cons.prems(2) n False load]
    from Cons.IH [OF r step d(4,5,6)] show ?thesis by simp
  qed
qed simp

text \<open>Loading a table again gives the same cache and leaves the table alone.\<close>

lemma load_versions_succeeds:
  assumes "\<forall>v \<in> set vs. version_matches lib kek d store deks0 v"
  shows "\<exists>deks'. load_versions lib kek d store vs deks = Inr deks'"
  using assms
  by (induction vs arbitrary: deks) (auto simp: version_matches_def Let_def split: option.splits)

lemma loadOrInit_succeeds:
  assumes "\<forall>d \<in> set ds. domain_matches lib kek env0 store d"
  shows "\<exists>env'. loadOrInitDEKs lib draws kek ds (env, store) = Inr (env', store)"
  using assms
proof (induction ds arbitrary: env)
  case (Cons d ds)
  from Cons.prems obtain n where n: "1 \<le> n" "readActiveVersion d store = Inr n"
      "\<forall>v \<in> set [1..<Suc n]. version_matches lib kek d store (ev_deks env0) v"
    by (auto simp: domain_matches_def simp del: upt_Suc)
  from load_versions_succeeds [OF n(3), of "ev_deks env"] obtain deks where
    "load_versions lib kek d store [1..<Suc n] (ev_deks env) = Inr deks" ..
  with Cons n show ?case by (simp del: upt_Suc)
qed simp

lemma env_matches_unique:
  assumes "env_matches lib kek S env1 store" "env_matches lib kek S env2 store"
  shows "env1 = env2"
proof -
  have same: "ev_activeVersion env1 d = ev_activeVersion env2 d" for d
  proof (cases "d \<in> S")
    case True
    with assms have "domain_matches lib kek env1 store d" "domain_matches lib kek env2 store d" by (auto simp: env_matches_def)
    then show ?thesis by (auto simp: domain_matches_def)
  next
    case False
    then have "d \<notin> dom (ev_activeVersion env1)" "d \<notin> dom (ev_activeVersion env2)"
      using assms by (auto simp: env_matches_def)
    then show ?thesis by (simp add: domIff)
  qed
  then have active: "ev_activeVersion env1 = ev_activeVersion env2" by (rule ext)
  have deks: "ev_deks env1 k = ev_deks env2 k" for k
  proof (cases "k \<in> cached_keys env1")
    case True
    then obtain d v n where k: "k = dekCacheKey d v" "ev_activeVersion env1 d = Some n" "1 \<le> v" "v \<le> n"
      unfolding cached_keys_def by blast
    then have "d \<in> S" using assms(1) by (auto simp: env_matches_def)
    with assms have "domain_matches lib kek env1 store d" "domain_matches lib kek env2 store d" by (auto simp: env_matches_def)
    with k active have "version_matches lib kek d store (ev_deks env1) v" "version_matches lib kek d store (ev_deks env2) v"
      by (auto simp: domain_matches_def)
    then show ?thesis by (auto simp: version_matches_def k(1) Let_def split: option.splits)
  next
    case False
    moreover from False have "k \<notin> cached_keys env2" by (simp add: cached_keys_def active)
    ultimately have "k \<notin> dom (ev_deks env1)" "k \<notin> dom (ev_deks env2)" using assms by (auto simp: env_matches_def)
    then show ?thesis by (simp add: domIff)
  qed
  show ?thesis using active deks by (simp add: ext)
qed

lemma empty_matches: "env_matches lib kek {} empty_envelope store"
  by (simp add: env_matches_def empty_envelope_def)

lemma reload:
  assumes ok: "crypto_ok lib" "draws_ok draws" and D: "domain_ok D" and m: "env_matches lib kek (set D) env store"
  shows "loadOrInitDEKs lib draws kek D (empty_envelope, store) = Inr (env, store)"
proof -
  have "\<forall>d \<in> set D. domain_matches lib kek env store d" using m by (simp add: env_matches_def)
  from loadOrInit_succeeds [OF this] obtain env' where r: "loadOrInitDEKs lib draws kek D (empty_envelope, store) = Inr (env', store)"
    by blast
  have "env_matches lib kek (set D) env' store"
    using loadOrInit_matches [OF ok D r empty_matches] D by (simp add: domain_ok_def)
  with m have "env' = env" by (metis env_matches_unique)
  with r show ?thesis by simp
qed

subsection \<open>Rotation keeps the data keys\<close>

definition put_rows :: "(string \<times> string) list \<Rightarrow> cp_secrets \<Rightarrow> cp_secrets" where
  "put_rows rows store = fold (\<lambda>(k, w). PutCPSecret k w) rows store"

lemma put_rows_Cons [simp]: "put_rows ((k, w) # rows) store = put_rows rows (PutCPSecret k w store)"
  and put_rows_Nil [simp]: "put_rows [] store = store"
  by (simp_all add: put_rows_def)

lemma put_rows_other: "k \<notin> fst ` set rows \<Longrightarrow> GetCPSecret k (put_rows rows store) = GetCPSecret k store"
  by (induction rows arbitrary: store) auto

definition cache_entries :: "string list \<Rightarrow> (string \<times> string) list \<Rightarrow> bool" where
  "cache_entries D pairs \<longleftrightarrow> distinct (map fst pairs) \<and>
     (\<forall>(k, dek) \<in> set pairs. \<exists>d \<in> set D. \<exists>v < 2 ^ 63. k = dekCacheKey d v)"

text \<open>The rows a rotation writes: one per cached key, each opening to that key under the new KEK.\<close>

definition rewrapped :: "crypto_lib \<Rightarrow> string \<Rightarrow> string list \<Rightarrow> (string \<times> string) list \<Rightarrow> (string \<times> string) list \<Rightarrow> bool" where
  "rewrapped lib kek D pairs rows \<longleftrightarrow> length rows = length pairs \<and>
     fst ` set rows = {wrappedKey d v | d v. d \<in> set D \<and> dekCacheKey d v \<in> fst ` set pairs} \<and>
     (\<forall>d \<in> set D. \<forall>v dek store. (dekCacheKey d v, dek) \<in> set pairs \<longrightarrow>
        GetCPSecret (wrappedKey d v) (put_rows rows store) \<noteq> [] \<and>
        unwrapDEK lib kek (GetCPSecret (wrappedKey d v) (put_rows rows store)) d v = Inr dek)"

lemma rewrapped_Cons:
  assumes D: "domain_ok D" "d \<in> set D" and new: "dekCacheKey d v \<notin> fst ` set pairs"
    and w: "unwrapDEK lib kek w d v = Inr dek" "w \<noteq> []" and rows: "rewrapped lib kek D pairs rows"
  shows "rewrapped lib kek D ((dekCacheKey d v, dek) # pairs) ((wrappedKey d v, w) # rows)"
proof -
  note sep = keys_separate [OF D(1)]
  have ids: "fst ` set rows = {wrappedKey d v | d v. d \<in> set D \<and> dekCacheKey d v \<in> fst ` set pairs}"
    using rows by (simp add: rewrapped_def)
  have keep: "wrappedKey d v \<notin> fst ` set rows"
  proof
    assume "wrappedKey d v \<in> fst ` set rows"
    then obtain e u where "wrappedKey d v = wrappedKey e u" "e \<in> set D" "dekCacheKey e u \<in> fst ` set pairs"
      unfolding ids by blast
    with new sep(1) [OF D(2), of e v u] show False by simp
  qed
  have "wrappedKey e u = wrappedKey d v" if "e \<in> set D" "dekCacheKey e u = dekCacheKey d v" for e u
    using that sep(7) [OF that(1) D(2), of u v] by simp
  then have "fst ` set ((wrappedKey d v, w) # rows) =
      {wrappedKey e u | e u. e \<in> set D \<and> dekCacheKey e u \<in> fst ` set ((dekCacheKey d v, dek) # pairs)}"
    using D(2) unfolding list.set image_insert ids fst_conv by blast
  moreover have "GetCPSecret (wrappedKey e u) (put_rows ((wrappedKey d v, w) # rows) store) \<noteq> [] \<and>
      unwrapDEK lib kek (GetCPSecret (wrappedKey e u) (put_rows ((wrappedKey d v, w) # rows) store)) e u = Inr dek'"
    if e: "e \<in> set D" "(dekCacheKey e u, dek') \<in> set ((dekCacheKey d v, dek) # pairs)" for e u dek' store
  proof (cases "(dekCacheKey e u, dek') = (dekCacheKey d v, dek)")
    case True
    with sep(7) [OF e(1) D(2)] have "e = d" "u = v" "dek' = dek" by auto
    with w put_rows_other [OF keep] show ?thesis by simp
  next
    case False
    with e(2) have "(dekCacheKey e u, dek') \<in> set pairs" by auto
    with e(1) rows show ?thesis by (simp add: rewrapped_def)
  qed
  ultimately show ?thesis using rows by (simp add: rewrapped_def)
qed

lemma rewrap_spec:
  assumes lib: "crypto_ok lib" "nonces_ok nonces" and D: "domain_ok D" and "cache_entries D pairs"
  shows "\<exists>rows. rewrap_rows lib nonces (deriveKEK lib p) pairs = Inr rows \<and> rewrapped lib (deriveKEK lib p) D pairs rows"
  using assms(4)
proof (induction pairs)
  case Nil
  show ?case by (simp add: rewrapped_def)
next
  case (Cons x pairs)
  obtain d v dek where x: "x = (dekCacheKey d v, dek)" and d: "d \<in> set D" and v: "v < 2 ^ 63"
    using Cons.prems by (cases x) (auto simp: cache_entries_def)
  obtain w where w: "wrapDEK lib (nonces (fst x)) (deriveKEK lib p) dek d v = Inr w"
    using lib(1) by (simp add: wrapDEK_def crypto_laws)
  have opens: "unwrapDEK lib (deriveKEK lib p) w d v = Inr dek" "w \<noteq> []"
    using wrap_unwrap [OF lib(1) _ w] lib(2) by (simp_all add: nonces_ok_def)
  have "cache_entries D pairs" using Cons.prems by (simp add: cache_entries_def)
  from Cons.IH [OF this] obtain rows where
    rows: "rewrap_rows lib nonces (deriveKEK lib p) pairs = Inr rows" "rewrapped lib (deriveKEK lib p) D pairs rows"
    by (elim exE conjE)
  have new: "dekCacheKey d v \<notin> fst ` set pairs" using Cons.prems by (simp add: cache_entries_def x)
  have "rewrap_rows lib nonces (deriveKEK lib p) (x # pairs) = Inr ((wrappedKey d v, w) # rows)"
    using w rows(1) parse_cache_key [OF D d v] by (simp add: x)
  with rewrapped_Cons [OF D d new opens rows(2)] show ?case by (simp add: x)
qed

lemma rotated_matches:
  assumes D: "domain_ok D" and m: "env_matches lib kek (set D) env store"
    and pairs: "set pairs = {(k, dek). ev_deks env k = Some dek}" and rows: "rewrapped lib kek' D pairs rows"
  shows "env_matches lib kek' (set D) env (PutCPSecret cpSecretKEKFingerprint fp (put_rows rows store))"
    (is "env_matches _ _ _ _ ?store")
proof -
  note sep = keys_separate [OF D]
  have ids: "fst ` set rows = {wrappedKey d v | d v. d \<in> set D \<and> dekCacheKey d v \<in> fst ` set pairs}"
    using rows by (simp add: rewrapped_def)
  have active: "readActiveVersion d ?store = readActiveVersion d store" if d: "d \<in> set D" for d
  proof -
    have "activeKey d \<notin> fst ` set rows" unfolding ids using sep(4) [OF _ d] by blast
    then show ?thesis using sep(6) [OF d d] by (simp add: readActiveVersion_def put_rows_other)
  qed
  have version: "version_matches lib kek' d ?store (ev_deks env) v"
    if d: "d \<in> set D" and v: "version_matches lib kek d store (ev_deks env) v" for d v
  proof (cases "ev_deks env (dekCacheKey d v)")
    case None
    then have "dekCacheKey d v \<notin> fst ` set pairs" by (auto simp: pairs)
    have "wrappedKey d v \<notin> fst ` set rows"
    proof
      assume "wrappedKey d v \<in> fst ` set rows"
      then obtain e u where "wrappedKey d v = wrappedKey e u" "e \<in> set D" "dekCacheKey e u \<in> fst ` set pairs"
        unfolding ids by blast
      with sep(1) [OF d, of e v u] \<open>dekCacheKey d v \<notin> fst ` set pairs\<close> show False by simp
    qed
    with None v sep(5) [OF d d] show ?thesis by (simp add: version_matches_def put_rows_other)
  next
    case (Some dek)
    then have "(dekCacheKey d v, dek) \<in> set pairs" by (simp add: pairs)
    with d rows sep(5) [OF d d] Some show ?thesis by (simp add: version_matches_def rewrapped_def Let_def)
  qed
  show ?thesis using m version active by (auto simp: env_matches_def domain_matches_def)
qed

text \<open>The pairs a rotation visits are the cached keys, and each names its domain and version.\<close>

lemma visited_pairs:
  assumes "range_order m order"
  shows "set (List.map_filter (\<lambda>k. map_option (Pair k) (m k)) order) = {(k, x). m k = Some x}"
    "distinct (map fst (List.map_filter (\<lambda>k. map_option (Pair k) (m k)) order))"
proof -
  show "set (List.map_filter (\<lambda>k. map_option (Pair k) (m k)) order) = {(k, x). m k = Some x}"
    using range_order_set [OF assms] by (force simp: List.map_filter_def)
  have "map fst (List.map_filter (\<lambda>k. map_option (Pair k) (m k)) ks) = filter (\<lambda>k. m k \<noteq> None) ks" for ks
    by (induction ks) (auto simp: map_filter_simps split: option.splits)
  then show "distinct (map fst (List.map_filter (\<lambda>k. map_option (Pair k) (m k)) order))"
    using range_order_distinct [OF assms] by simp
qed

lemma cache_entries_of:
  assumes "domain_ok D" "env_matches lib kek (set D) env store" "range_order (ev_deks env) order"
  shows "cache_entries D (List.map_filter (\<lambda>k. map_option (Pair k) (ev_deks env k)) order)"
proof -
  have "\<exists>d \<in> set D. \<exists>v < 2 ^ 63. k = dekCacheKey d v" if "ev_deks env k = Some dek" for k dek
  proof -
    have "k \<in> cached_keys env" using assms(2) that by (auto simp: env_matches_def)
    then obtain d v n where k: "k = dekCacheKey d v" "ev_activeVersion env d = Some n" "1 \<le> v" "v \<le> n"
      unfolding cached_keys_def by blast
    moreover have "d \<in> set D" using k(2) assms(2) by (auto simp: env_matches_def)
    moreover have "n < 2 ^ 63" using \<open>d \<in> set D\<close> k(2) assms(2) by (auto simp: env_matches_def domain_matches_def)
    ultimately show ?thesis using le_less_trans [OF k(4)] by blast
  qed
  with visited_pairs [OF assms(3)] show ?thesis by (auto simp: cache_entries_def)
qed

subsection \<open>Booting\<close>

lemma domain_keys_indep:
  assumes "domain_keys lib m salt D keys = Inr out" "dom keys = dom keys'"
  shows "\<exists>out'. domain_keys lib m' salt' D keys' = Inr out'"
  using assms
proof (induction D arbitrary: keys keys')
  case (Cons d D)
  have same: "keys d = None \<longleftrightarrow> keys' d = None" using Cons.prems(2) by (metis domIff)
  have d: "TrimSpace d \<noteq> []" "keys d = None"
    and r: "domain_keys lib m salt D (keys(d \<mapsto> deriveDomainKey lib m salt d)) = Inr out"
    using Cons.prems(1) by (simp_all split: if_splits)
  have "dom (keys(d \<mapsto> deriveDomainKey lib m salt d)) = dom (keys'(d \<mapsto> deriveDomainKey lib m' salt' d))"
    using Cons.prems(2) by simp
  from Cons.IH [OF r this] d same show ?case by (simp only: domain_keys.simps if_False simp_thms)
qed simp

lemma boot_matches:
  assumes ok: "crypto_ok lib" "draws_ok draws" "domain_ok D"
    and boot: "NewWithEnvelope lib draws p D salt store = Inr (v, store1)" "vt_enabled v"
  obtains env where "vt_envelope v = Some env" "vt_kek v = deriveKEK lib p" "TrimSpace p \<noteq> []" "salt \<noteq> []"
    "env_matches lib (deriveKEK lib p) (set D) env store1"
    "GetCPSecret cpSecretKEKFingerprint store1 = cy_sha256 lib (deriveKEK lib p)"
    "\<exists>keys. domain_keys lib (deriveKEK lib p) salt D Map.empty = Inr keys"
proof -
  from boot(1) obtain v0 where v0: "NewWithSalt lib p D salt = Inr v0" by (auto simp: NewWithEnvelope_def split: sum.splits)
  have en: "vt_enabled v0"
    using boot v0 by (auto simp: NewWithEnvelope_def Let_def split: if_splits sum.splits)
  then have p: "TrimSpace p \<noteq> []" "salt \<noteq> []" "\<exists>keys. domain_keys lib (deriveKEK lib p) salt D Map.empty = Inr keys"
    using v0 by (auto simp: NewWithSalt_def split: if_splits sum.splits)
  from boot(1) v0 en obtain s0 env where
      fp: "verifyOrStoreKEKFingerprint lib (deriveKEK lib p) store = Inr s0"
      and load: "loadOrInitDEKs lib draws (deriveKEK lib p) D (empty_envelope, s0) = Inr (env, store1)"
      and v: "v = v0\<lparr>vt_envelope := Some env, vt_kek := deriveKEK lib p\<rparr>"
    by (auto simp: NewWithEnvelope_def Let_def split: sum.splits)
  have "GetCPSecret cpSecretKEKFingerprint s0 = cy_sha256 lib (deriveKEK lib p)"
    using fp by (auto simp: verifyOrStoreKEKFingerprint_def Let_def split: if_splits)
  with loadOrInit_matches [OF ok load empty_matches] ok(3) p v that show thesis
    by (simp add: domain_ok_def)
qed

lemma reboot:
  assumes ok: "crypto_ok lib" "draws_ok draws" "domain_ok D" and p: "TrimSpace p \<noteq> []" "salt \<noteq> []"
    and keys: "\<exists>keys. domain_keys lib m salt' D Map.empty = Inr keys"
    and m: "env_matches lib (deriveKEK lib p) (set D) env store"
    and fp: "GetCPSecret cpSecretKEKFingerprint store = cy_sha256 lib (deriveKEK lib p)"
  shows "\<exists>v. NewWithEnvelope lib draws p D salt store = Inr (v, store) \<and> vt_envelope v = Some env \<and> vt_enabled v"
proof -
  from keys domain_keys_indep obtain ks where ks: "domain_keys lib (deriveKEK lib p) salt D Map.empty = Inr ks" by metis
  have "verifyOrStoreKEKFingerprint lib (deriveKEK lib p) store = Inr store"
    using fp crypto_laws(5) [OF ok(1)] by (simp add: verifyOrStoreKEKFingerprint_def)
  with reload [OF ok m] p ks show ?thesis by (simp add: NewWithEnvelope_def NewWithSalt_def)
qed

subsection \<open>Sealed values open again\<close>

definition versions_fit :: "envelope \<Rightarrow> bool" where
  "versions_fit env \<longleftrightarrow> (\<forall>d n. ev_activeVersion env d = Some n \<longrightarrow> n < 10000)"

lemma HasPrefix_simps [simp]: "HasPrefix (p @ s) p"
  by (simp add: HasPrefix_def)

lemma length_Itoa: "n < 10000 \<Longrightarrow> length (Itoa n) \<le> 4"
  unfolding Itoa_def by (rule length_dec_digits) simp_all

lemma Itoa_no_colon: "CHR '':'' \<notin> set (Itoa n)"
  using Itoa_head(2) [of n] by (auto simp: list_all_iff is_digit_def)

lemma open_sealed:
  assumes "crypto_ok lib" "newGCM key" "length nonce = gcm_NonceSize"
  shows "open_blob lib key d (cy_encode lib (nonce @ cy_Seal lib key nonce x d)) = Inr x"
  using assms by (simp add: open_blob_def crypto_laws)

lemma decrypt_encrypt:
  assumes lib: "crypto_ok lib" "length nonce = gcm_NonceSize"
    and v: "vt_enabled v" "vt_envelope v = Some env" "versions_fit env" "vt_envelope v' = Some env"
    and active: "\<And>n. ev_activeVersion env d = Some n \<Longrightarrow> 1 \<le> n"
    and x: "x \<noteq> []" "Encrypt lib nonce v d x = Inr ct"
  shows "Decrypt lib v' d ct = Inr x"
proof -
  from x v(1,2) obtain n dek where n: "ev_activeVersion env d = Some n" "ev_deks env (dekCacheKey d n) = Some dek"
      "newGCM dek" "ct = Prefix3 @ ''v'' @ Itoa n @ '':'' @ cy_encode lib (nonce @ cy_Seal lib dek nonce x d)"
    by (auto simp: Encrypt_def encryptEnvelope_def activeDEK_def split: if_splits option.splits prod.splits)
  have small: "n < 10000" "1 \<le> n" using v(3) n(1) active by (auto simp: versions_fit_def)
  let ?body = "(CHR ''v'' # Itoa n) @ CHR '':'' # cy_encode lib (nonce @ cy_Seal lib dek nonce x d)"
  have body: "drop 5 ct = ?body" "HasPrefix ct Prefix3" by (simp_all add: n(4) Prefix3_def HasPrefix_def)
  have "cut_at (CHR '':'') ?body = Some (CHR ''v'' # Itoa n, cy_encode lib (nonce @ cy_Seal lib dek nonce x d))"
    using Itoa_no_colon by (intro cut_at_append) simp
  then have "decryptEnvelope lib v' d (drop 5 ct) = Inr x"
    using v(4) n(2) small length_Itoa [OF small(1)] Itoa_head(1) [of n] Atoi_Itoa [of n] open_sealed [OF lib(1) n(3) lib(2)]
    by (cases "Itoa n") (simp_all add: decryptEnvelope_def body(1))
  then show ?thesis using body(2) by (simp add: Decrypt_def)
qed

end
