(* ===== verification/Client_Invariant.thy ===== *)
theory Client_Invariant
  imports Client_Reconcile Secret_Vault
begin

section \<open>The mirror and the tables agree\<close>

text \<open>
  What every flow of the client domain keeps: the index of names is exact, no two living
  clients share a name, and the tables hold what the mirror holds, up to the precision of the
  stored instants. The secret of a client is stored sealed; what the flows need of the
  vault is the interface \<open>secret_box\<close>, which the vault of \<open>Secret_Vault\<close> provides.
\<close>

subsection \<open>The vault as the clients use it\<close>

definition vault_ops_of :: "crypto_lib \<Rightarrow> string \<Rightarrow> vault \<Rightarrow> vault_ops" where
  "vault_ops_of lib nonce v =
     \<lparr>vo_enabled = vt_enabled v,
      vo_seal = (\<lambda>x. case EncryptIfEnabled lib nonce v DomainClientSecret x of Inl _ \<Rightarrow> None | Inr c \<Rightarrow> Some c),
      vo_open = (\<lambda>c. case Decrypt lib v DomainClientSecret c of Inl _ \<Rightarrow> None | Inr x \<Rightarrow> Some x),
      vo_isEncrypted = IsEncrypted\<rparr>"

text \<open>A value that no version of the vault has produced.\<close>

definition plain_secret :: "string \<Rightarrow> bool" where
  "plain_secret x \<longleftrightarrow> \<not> IsEncrypted x"

locale secret_box =
  fixes usable :: "vault_ops \<Rightarrow> bool"
  assumes opens_sealed: "usable v \<Longrightarrow> plain_secret x \<Longrightarrow> encryptSecret v x = Some c \<Longrightarrow> decryptSecretFully v c = Some x"

definition vault_usable :: "vault_ops \<Rightarrow> bool" where
  "vault_usable ops \<longleftrightarrow> (\<exists>lib nonce v. ops = vault_ops_of lib nonce v \<and> crypto_ok lib \<and> length nonce = gcm_NonceSize \<and>
     (\<forall>env. vt_envelope v = Some env \<longrightarrow> versions_fit env \<and> (\<forall>n. ev_activeVersion env DomainClientSecret = Some n \<longrightarrow> 1 \<le> n)))"

lemma sealed_prefix:
  assumes "Encrypt lib nonce v d x = Inr c" "x \<noteq> []" "vt_enabled v"
  shows "IsEncrypted c"
  using assms by (auto simp: Encrypt_def encryptEnvelope_def IsEncrypted_def split: if_splits option.splits prod.splits)

lemma decrypt_legacy:
  assumes "crypto_ok lib" "length nonce = gcm_NonceSize" "vt_enabled v" "vt_envelope v = None" "x \<noteq> []" "Encrypt lib nonce v d x = Inr c"
  shows "Decrypt lib v d c = Inr x"
proof -
  from assms(3-6) obtain key where k: "vt_keys v d = Some key" "newGCM key"
      "c = Prefix2 @ cy_encode lib (nonce @ cy_Seal lib key nonce x d)"
    by (auto simp: Encrypt_def split: if_splits option.splits)
  have "HasPrefix c Prefix2" "\<not> HasPrefix c Prefix3" "drop 5 c = cy_encode lib (nonce @ cy_Seal lib key nonce x d)"
    by (simp_all add: k(3) HasPrefix_def Prefix2_def Prefix3_def)
  then show ?thesis using k(1) assms(3) open_sealed [OF assms(1) k(2) assms(2)] by (simp add: Decrypt_def decryptWithKey_def)
qed

lemma decrypt_layers_sealed:
  assumes "vo_open v c = Some x" "\<not> vo_isEncrypted v x" "vo_isEncrypted v c" "vo_enabled v" "c \<noteq> []"
  shows "decryptSecretFully v c = Some x"
proof -
  have "x \<noteq> c" using assms(2,3) by auto
  with assms show ?thesis by (simp add: decryptSecretFully_def decryptSecret_def numeral_eq_Suc)
qed

interpretation vaulted: secret_box vault_usable
proof
  fix ops x c
  assume u: "vault_usable ops" and x: "plain_secret x" and e: "encryptSecret ops x = Some c"
  from u obtain lib nonce v where ops: "ops = vault_ops_of lib nonce v" and lib: "crypto_ok lib" "length nonce = gcm_NonceSize"
      and env: "\<And>env. vt_envelope v = Some env \<Longrightarrow> versions_fit env \<and> (\<forall>n. ev_activeVersion env DomainClientSecret = Some n \<longrightarrow> 1 \<le> n)"
    unfolding vault_usable_def by blast
  show "decryptSecretFully ops c = Some x"
  proof (cases "vt_enabled v \<and> x \<noteq> []")
    case False
    then have "c = x" using e by (auto simp: ops encryptSecret_def vault_ops_of_def EncryptIfEnabled_def)
    with False x show ?thesis by (auto simp: ops decryptSecretFully_def vault_ops_of_def plain_secret_def numeral_eq_Suc)
  next
    case True
    then have enc: "Encrypt lib nonce v DomainClientSecret x = Inr c"
      using e x by (auto simp: ops encryptSecret_def vault_ops_of_def EncryptIfEnabled_def plain_secret_def split: sum.splits)
    have "Decrypt lib v DomainClientSecret c = Inr x"
    proof (cases "vt_envelope v")
      case None
      with decrypt_legacy [OF lib] True enc show ?thesis by blast
    next
      case (Some ev)
      with decrypt_encrypt [OF lib _ Some _ Some _ _ enc] env [OF Some] True show ?thesis by blast
    qed
    moreover have "IsEncrypted c" using sealed_prefix [OF enc] True by simp
    moreover then have "c \<noteq> []" by (auto simp: IsEncrypted_def HasPrefix_def Prefix2_def Prefix3_def)
    ultimately show ?thesis using x True
      by (intro decrypt_layers_sealed) (simp_all add: ops vault_ops_of_def plain_secret_def)
  qed
qed

subsection \<open>The index of names\<close>

definition names_of :: "client_service \<Rightarrow> string \<Rightarrow> string set" where
  "names_of s n = {i. \<exists>c. cs_clients s i = Some c \<and> cl_name c = n}"

definition index_of :: "(string \<rightharpoonup> string set) \<Rightarrow> (string \<Rightarrow> string set) \<Rightarrow> bool" where
  "index_of m N \<longleftrightarrow> (\<forall>n. m n = (if N n = {} then None else Some (N n)))"

definition names_ok :: "client_service \<Rightarrow> bool" where
  "names_ok s \<longleftrightarrow> index_of (cs_names s) (names_of s)"

definition living :: "client_service \<Rightarrow> string \<Rightarrow> client \<Rightarrow> bool" where
  "living s i c \<longleftrightarrow> cs_clients s i = Some c \<and> cl_deletedAt c = None"

definition unique_names :: "client_service \<Rightarrow> bool" where
  "unique_names s \<longleftrightarrow> (\<forall>i j c d. living s i c \<longrightarrow> living s j d \<longrightarrow> cl_name c = cl_name d \<longrightarrow> i = j)"

lemma index_remove:
  "index_of (cs_names s) N \<Longrightarrow> index_of (cs_names (removeNameIndexLocked name i s)) (N(name := N name - {i}))"
  by (auto simp: index_of_def removeNameIndexLocked_def split: option.splits)

lemma index_insert:
  "index_of m N \<Longrightarrow> index_of (m(n \<mapsto> insert i (case m n of Some ids \<Rightarrow> ids | None \<Rightarrow> {}))) (N(n := insert i (N n)))"
  by (auto simp: index_of_def)

lemma remove_clients [simp]: "cs_clients (removeNameIndexLocked n i s) = cs_clients s"
  "cs_deployments (removeNameIndexLocked n i s) = cs_deployments s"
  by (simp_all add: removeNameIndexLocked_def split: option.splits)

lemma names_ok_set:
  assumes "names_ok s"
  shows "names_ok (setMirrorClientLocked c s)"
proof -
  let ?i = "cl_id c" and ?n = "cl_name c"
  obtain r :: client_service where r: "index_of (cs_names r) (\<lambda>n. if n = ?n then names_of s n else names_of s n - {?i})"
      and t: "cs_names (setMirrorClientLocked c s) = (cs_names r)(?n \<mapsto> insert ?i (case cs_names r ?n of Some ids \<Rightarrow> ids | None \<Rightarrow> {}))"
  proof (cases "\<exists>p. cs_clients s ?i = Some p \<and> cl_name p \<noteq> ?n")
    case True
    then obtain p where p: "cs_clients s ?i = Some p" "cl_name p \<noteq> ?n" by blast
    have "index_of (cs_names (removeNameIndexLocked (cl_name p) ?i s)) ((names_of s)(cl_name p := names_of s (cl_name p) - {?i}))"
      using assms by (intro index_remove) (simp add: names_ok_def)
    moreover have "(names_of s)(cl_name p := names_of s (cl_name p) - {?i}) = (\<lambda>n. if n = ?n then names_of s n else names_of s n - {?i})"
      using p by (auto simp: names_of_def fun_eq_iff)
    ultimately show ?thesis using p that [of "removeNameIndexLocked (cl_name p) ?i s"] by (simp add: setMirrorClientLocked_def Let_def)
  next
    case False
    then have "(\<lambda>n. if n = ?n then names_of s n else names_of s n - {?i}) = names_of s" by (auto simp: names_of_def fun_eq_iff)
    moreover have "cs_names (setMirrorClientLocked c s) = (cs_names s)(?n \<mapsto> insert ?i (case cs_names s ?n of Some ids \<Rightarrow> ids | None \<Rightarrow> {}))"
      using False by (cases "cs_clients s ?i") (auto simp: setMirrorClientLocked_def Let_def)
    ultimately show ?thesis using assms that [of s] by (simp add: names_ok_def)
  qed
  have clients: "cs_clients (setMirrorClientLocked c s) = (cs_clients s)(?i \<mapsto> c)"
    by (auto simp: setMirrorClientLocked_def Let_def split: option.splits)
  have "names_of (setMirrorClientLocked c s) = (\<lambda>n. if n = ?n then names_of s n else names_of s n - {?i})(?n := insert ?i (names_of s ?n))"
    by (auto simp: names_of_def clients fun_eq_iff split: if_splits)
  with index_insert [OF r, of ?n ?i] t show ?thesis by (simp add: names_ok_def)
qed

text \<open>The answer about a name is exact.\<close>

lemma NameTaken_iff:
  assumes "names_ok s"
  shows "NameTaken name excl s \<longleftrightarrow> (\<exists>i c. living s i c \<and> cl_name c = name \<and> i \<noteq> excl)"
proof -
  have "cs_names s name = (if names_of s name = {} then None else Some (names_of s name))"
    using assms by (simp add: names_ok_def index_of_def)
  then have "NameTaken name excl s \<longleftrightarrow> (\<exists>i \<in> names_of s name. i \<noteq> excl \<and> (case cs_clients s i of Some c \<Rightarrow> cl_deletedAt c = None | None \<Rightarrow> False))"
    by (auto simp: NameTaken_def)
  then show ?thesis by (force simp: names_of_def living_def split: option.splits)
qed

lemma set_clients [simp]:
  "cs_clients (setMirrorClientLocked c s) = (cs_clients s)(cl_id c \<mapsto> c)"
  "cs_deployments (setMirrorClientLocked c s) = cs_deployments s"
  by (auto simp: setMirrorClientLocked_def Let_def split: option.splits)

lemma living_set: "living (setMirrorClientLocked c s) i d \<longleftrightarrow> (if i = cl_id c then d = c \<and> cl_deletedAt c = None else living s i d)"
  by (auto simp: living_def)

lemma unique_names_set:
  assumes u: "unique_names s" and c: "\<And>j d. cl_deletedAt c = None \<Longrightarrow> living s j d \<Longrightarrow> cl_name d = cl_name c \<Longrightarrow> j = cl_id c"
  shows "unique_names (setMirrorClientLocked c s)"
  unfolding unique_names_def living_set
proof (intro allI impI)
  fix i j x y
  assume x: "if i = cl_id c then x = c \<and> cl_deletedAt c = None else living s i x"
    and y: "if j = cl_id c then y = c \<and> cl_deletedAt c = None else living s j y" and n: "cl_name x = cl_name y"
  consider "i = cl_id c" "j = cl_id c" | "i = cl_id c" "j \<noteq> cl_id c" | "i \<noteq> cl_id c" "j = cl_id c" | "i \<noteq> cl_id c" "j \<noteq> cl_id c"
    by blast
  then show "i = j"
  proof cases
    case 2
    then have "x = c" "cl_deletedAt c = None" "living s j y" using x y by auto
    with c n 2(1) show ?thesis by metis
  next
    case 3
    then have "y = c" "cl_deletedAt c = None" "living s i x" using x y by auto
    with c n 3(2) show ?thesis by metis
  next
    case 4
    then have "living s i x" "living s j y" using x y by auto
    with u n show ?thesis unfolding unique_names_def by blast
  qed simp
qed

subsection \<open>Agreement\<close>

definition row_agrees :: "vault_ops \<Rightarrow> client \<Rightarrow> client \<Rightarrow> bool" where
  "row_agrees v c row \<longleftrightarrow> decryptSecretFully v (cl_secret row) = Some (cl_secret c) \<and>
     row\<lparr>cl_secret := [], cl_createdAt := 0\<rparr> = (stored_client c)\<lparr>cl_secret := [], cl_createdAt := 0\<rparr>"

definition clients_agree :: "vault_ops \<Rightarrow> client_service \<Rightarrow> client_db \<Rightarrow> bool" where
  "clients_agree v s db \<longleftrightarrow> distinct (map cl_id (cd_clients db)) \<and>
     (\<forall>i c. cs_clients s i = Some c \<longrightarrow> i \<noteq> [] \<and> cl_id c = i \<and> plain_secret (cl_secret c) \<and>
        (\<exists>row. row_of cl_id i (cd_clients db) = Some row \<and> row_agrees v c row)) \<and>
     (\<forall>row \<in> set (cd_clients db). cl_deletedAt row = None \<longrightarrow> cs_clients s (cl_id row) \<noteq> None)"

definition deployments_agree :: "client_service \<Rightarrow> client_db \<Rightarrow> bool" where
  "deployments_agree s db \<longleftrightarrow> distinct (map dep_key (cd_deployments db)) \<and>
     (\<forall>i a d. inner (cs_deployments s) i a = Some d \<longrightarrow> dep_key d = (i, a)) \<and>
     (\<forall>i a. cs_clients s i \<noteq> None \<longrightarrow> row_of dep_key (i, a) (cd_deployments db) = map_option stored_deployment (inner (cs_deployments s) i a))"

definition client_inv :: "vault_ops \<Rightarrow> client_service \<Rightarrow> client_db \<Rightarrow> bool" where
  "client_inv v s db \<longleftrightarrow> names_ok s \<and> unique_names s \<and> clients_agree v s db \<and> deployments_agree s db"

lemma client_invD:
  assumes "client_inv v s db"
  shows "names_ok s" "unique_names s" "clients_agree v s db" "deployments_agree s db"
  using assms by (simp_all add: client_inv_def)

lemma client_inv_cong:
  assumes "cs_clients s' = cs_clients s" "cs_names s' = cs_names s" "cs_deployments s' = cs_deployments s"
  shows "client_inv v s' db = client_inv v s db"
proof -
  have "names_of s' = names_of s" by (simp add: names_of_def assms fun_eq_iff)
  then show ?thesis
    by (simp add: client_inv_def names_ok_def unique_names_def living_def clients_agree_def deployments_agree_def assms)
qed

subsection \<open>Rows of a unit of work\<close>

lemma dep_key_stored [simp]: "dep_key (stored_deployment d) = dep_key d"
  by (simp add: dep_key_def stored_deployment_def)

lemma upsertDeployment_Inr:
  "upsertDeployment d db = Inr db' \<Longrightarrow> db' = db\<lparr>cd_deployments := upsert dep_key (stored_deployment d) (cd_deployments db)\<rparr>"
  by (auto simp: upsertDeployment_def split: if_splits)

lemma by_agent_Cons: "by_agent (d # ds) a = (case by_agent ds a of Some e \<Rightarrow> Some e | None \<Rightarrow> if a = dp_agentID d then Some d else None)"
proof -
  have "fold (\<lambda>d m. m(dp_agentID d \<mapsto> d)) ds m a = (case by_agent ds a of Some e \<Rightarrow> Some e | None \<Rightarrow> m a)" for m
  proof (induction ds rule: rev_induct)
    case (snoc x xs)
    then show ?case by (simp add: by_agent_def)
  qed (simp add: by_agent_def)
  from this [of "Map.empty(dp_agentID d \<mapsto> d)"] show ?thesis by (auto simp: by_agent_def split: option.splits)
qed

lemma each_deployment:
  assumes "each_row upsertDeployment ds db = Inr db'" "\<forall>d \<in> set ds. dp_clientID d = i"
    "distinct (map dep_key (cd_deployments db))"
  shows "cd_clients db' = cd_clients db \<and> distinct (map dep_key (cd_deployments db')) \<and>
    (\<forall>j a. row_of dep_key (j, a) (cd_deployments db') =
       (if j = i \<and> a \<in> dp_agentID ` set ds then map_option stored_deployment (by_agent ds a) else row_of dep_key (j, a) (cd_deployments db)))"
  using assms
proof (induction ds arbitrary: db)
  case (Cons d ds)
  from Cons.prems(1) obtain db1 where db1: "upsertDeployment d db = Inr db1" "each_row upsertDeployment ds db1 = Inr db'"
    by (auto split: sum.splits)
  note eq = upsertDeployment_Inr [OF db1(1)]
  have ds: "\<forall>d \<in> set ds. dp_clientID d = i" "distinct (map dep_key (cd_deployments db1))"
    using Cons.prems(2,3) by (auto simp: eq intro: distinct_rows_upsert)
  note IH = Cons.IH [OF db1(2) ds]
  have absent: "by_agent ds a = None" if "a \<notin> dp_agentID ` set ds" for a using that by (simp add: by_agent_dom)
  have keyd: "dep_key d = (i, dp_agentID d)" using Cons.prems(2) by (simp add: dep_key_def)
  have head: "by_agent (d # ds) a = (if a \<in> dp_agentID ` set ds then by_agent ds a else if a = dp_agentID d then Some d else None)" for a
    using by_agent_dom [of ds a] by (auto simp: by_agent_Cons absent)
  show ?case using IH unfolding head by (auto simp: eq keyd)
qed simp

lemma SaveDeployments_rows:
  assumes "SaveDeployments i ds db = Inr db'" "\<forall>d \<in> set ds. dp_clientID d = i"
    "distinct (map dep_key (cd_deployments db))"
  shows "cd_clients db' = cd_clients db \<and> distinct (map dep_key (cd_deployments db')) \<and>
    (\<forall>j a. row_of dep_key (j, a) (cd_deployments db') =
       (if j = i then map_option stored_deployment (by_agent ds a) else row_of dep_key (j, a) (cd_deployments db)))"
proof -
  let ?db = "deleteDeploymentsRaw i db"
  have del: "cd_deployments ?db = filter (\<lambda>d. fst (dep_key d) \<noteq> i) (cd_deployments db)" "cd_clients ?db = cd_clients db"
    by (simp_all add: deleteDeploymentsRaw_def dep_key_def)
  have "distinct (map dep_key (cd_deployments ?db))" unfolding del by (rule distinct_map_filter) (rule assms(3))
  from each_deployment [OF assms(1) [unfolded SaveDeployments_def] assms(2) this]
  show ?thesis unfolding del row_of_filter [where P = "\<lambda>k. fst k \<noteq> i"] by (auto simp: by_agent_dom)
qed

lemma each_assignment_keeps:
  "each_row insertAssignment as db = Inr db' \<Longrightarrow> cd_clients db' = cd_clients db \<and> cd_deployments db' = cd_deployments db"
  by (induction as arbitrary: db) (auto simp: insertAssignment_def split: sum.splits if_splits)

lemma SaveAssignments_keeps:
  "SaveAssignments i as db = Inr db' \<Longrightarrow> cd_clients db' = cd_clients db \<and> cd_deployments db' = cd_deployments db"
  unfolding SaveAssignments_def by (drule each_assignment_keeps) (simp add: deleteAssignmentsRaw_def)

subsection \<open>Writes keep the invariant\<close>

text \<open>The name of a saved client belongs to no other living client.\<close>

definition name_free :: "client_service \<Rightarrow> client \<Rightarrow> bool" where
  "name_free s c \<longleftrightarrow> (cl_deletedAt c = None \<longrightarrow> (\<forall>j d. living s j d \<longrightarrow> cl_name d = cl_name c \<longrightarrow> j = cl_id c))"

definition deployments_for :: "string \<Rightarrow> deployment list \<Rightarrow> bool" where
  "deployments_for i ds \<longleftrightarrow> (\<forall>d \<in> set ds. dp_clientID d = i)"

lemma repo_Save_clients:
  assumes "repo_Save c db = Inr db'" "distinct (map cl_id (cd_clients db))"
  shows "\<exists>row. cd_clients db' = upsert cl_id row (cd_clients db) \<and> cl_id row = cl_id c \<and> cl_secret row = cl_secret c \<and>
    row\<lparr>cl_secret := [], cl_createdAt := 0\<rparr> = (stored_client c)\<lparr>cl_secret := [], cl_createdAt := 0\<rparr> \<and>
    cd_deployments db' = cd_deployments db"
  using assms by (auto simp: repo_Save_def Let_def stored_client_def split: if_splits option.splits)

context secret_box
begin

lemma clients_agree_save:
  assumes v: "usable v" "plain_secret (cl_secret c)" "encryptSecret v (cl_secret c) = Some sealed" and named: "cl_id c \<noteq> []"
    and inv: "clients_agree v s db" and save: "repo_Save (c\<lparr>cl_secret := sealed\<rparr>) db = Inr db'"
    and s': "cs_clients s' = (cs_clients s)(cl_id c \<mapsto> c)" and db'': "cd_clients db'' = cd_clients db'"
  shows "clients_agree v s' db''"
proof -
  have d: "distinct (map cl_id (cd_clients db))" using inv by (simp add: clients_agree_def)
  from repo_Save_clients [OF save this] obtain row where
    row: "cd_clients db' = upsert cl_id row (cd_clients db)" "cl_id row = cl_id c" "cl_secret row = sealed"
      "row\<lparr>cl_secret := [], cl_createdAt := 0\<rparr> = (stored_client (c\<lparr>cl_secret := sealed\<rparr>))\<lparr>cl_secret := [], cl_createdAt := 0\<rparr>" by auto
  have "(stored_client (c\<lparr>cl_secret := sealed\<rparr>))\<lparr>cl_secret := [], cl_createdAt := 0\<rparr> = (stored_client c)\<lparr>cl_secret := [], cl_createdAt := 0\<rparr>"
    by (simp add: stored_client_def)
  then have agree: "row_agrees v c row"
    using opens_sealed [OF v] row(3,4) by (simp add: row_agrees_def)
  have "distinct (map cl_id (cd_clients db''))" using d by (simp add: db'' row(1) distinct_rows_upsert)
  moreover have "\<forall>i x. cs_clients s' i = Some x \<longrightarrow> i \<noteq> [] \<and> cl_id x = i \<and> plain_secret (cl_secret x) \<and>
      (\<exists>r. row_of cl_id i (cd_clients db'') = Some r \<and> row_agrees v x r)"
    using inv v(2) agree named by (auto simp: clients_agree_def s' db'' row(1,2))
  moreover have "\<forall>r \<in> set (cd_clients db''). cl_deletedAt r = None \<longrightarrow> cs_clients s' (cl_id r) \<noteq> None"
    using inv by (auto simp: clients_agree_def s' db'' row(1,2) dest!: in_rows_upsert)
  ultimately show ?thesis by (simp add: clients_agree_def)
qed

lemma SaveState_inv:
  assumes v: "usable v" "plain_secret (cl_secret c)" "cl_id c \<noteq> []" and inv: "client_inv v s db"
    and ds: "deployments_for (cl_id c) ds" and free: "name_free s c"
    and save: "SaveState v c as ds s db = (r, s', db')"
  shows "client_inv v s' db'"
proof (cases r)
  case (Some e)
  then have "s' = s" "db' = db" using save by (auto simp: SaveState_def split: option.splits sum.splits)
  with inv show ?thesis by simp
next
  case None
  with save obtain sealed db1 db2 where
    steps: "encryptSecret v (cl_secret c) = Some sealed" "repo_Save (c\<lparr>cl_secret := sealed\<rparr>) db = Inr db1"
      "SaveAssignments (cl_id c) as db1 = Inr db2" "SaveDeployments (cl_id c) ds db2 = Inr db'"
      and s': "s' = MirrorReplaceInMemory c as ds s"
    by (auto simp: SaveState_def save_transaction_def split: option.splits sum.splits)
  have mirror: "cs_clients s' = (cs_clients s)(cl_id c \<mapsto> c)" "cs_deployments s' = (cs_deployments s)(cl_id c \<mapsto> by_agent ds)"
    "cs_names s' = cs_names (setMirrorClientLocked c s)" by (simp_all add: s' MirrorReplaceInMemory_def Let_def)
  have same: "names_of s' = names_of (setMirrorClientLocked c s)" "living s' = living (setMirrorClientLocked c s)"
    by (simp_all add: names_of_def living_def mirror(1) fun_eq_iff)
  note invs = client_invD [OF inv]
  have names: "names_ok s'" "unique_names s'"
    using names_ok_set [OF invs(1), of c] unique_names_set [OF invs(2), of c] free
    by (simp_all add: names_ok_def unique_names_def same mirror(3) name_free_def)
  have dist: "distinct (map cl_id (cd_clients db))" using invs(3) by (simp add: clients_agree_def)
  from repo_Save_clients [OF steps(2) dist] have deps: "cd_deployments db1 = cd_deployments db" by auto
  note asg = SaveAssignments_keeps [OF steps(3)]
  have "distinct (map dep_key (cd_deployments db2))" using invs(4) deps asg by (simp add: deployments_agree_def)
  from SaveDeployments_rows [OF steps(4) _ this] ds asg deps have rows: "cd_clients db' = cd_clients db1"
      "distinct (map dep_key (cd_deployments db'))"
      "\<And>j a. row_of dep_key (j, a) (cd_deployments db') =
       (if j = cl_id c then map_option stored_deployment (by_agent ds a) else row_of dep_key (j, a) (cd_deployments db))"
    by (simp_all add: deployments_for_def)
  have "clients_agree v s' db'" using v(1,2) steps(1) v(3) invs(3) steps(2) mirror(1) rows(1) by (rule clients_agree_save)
  moreover have "deployments_agree s' db'"
    using invs(4) rows ds by (auto simp: deployments_agree_def mirror inner_def dep_key_def deployments_for_def dest: by_agent_id)
  ultimately show ?thesis using names by (simp add: client_inv_def)
qed

lemma Save_inv:
  assumes v: "usable v" "plain_secret (cl_secret c)" "cl_id c \<noteq> []" and inv: "client_inv v s db" and free: "name_free s c"
    and known: "cs_clients s (cl_id c) \<noteq> None" and save: "Save v c s db = (r, s', db')"
  shows "client_inv v s' db'"
proof (cases r)
  case (Some e)
  then have "s' = s" "db' = db" using save by (auto simp: Save_def split: option.splits sum.splits)
  with inv show ?thesis by simp
next
  case None
  with save obtain sealed where
    steps: "encryptSecret v (cl_secret c) = Some sealed" "repo_Save (c\<lparr>cl_secret := sealed\<rparr>) db = Inr db'" and s': "s' = setMirrorClientLocked c s"
    by (auto simp: Save_def split: option.splits sum.splits)
  note invs = client_invD [OF inv]
  have dist: "distinct (map cl_id (cd_clients db))" using invs(3) by (simp add: clients_agree_def)
  from repo_Save_clients [OF steps(2) dist] have deps: "cd_deployments db' = cd_deployments db" by auto
  have "clients_agree v s' db'" using v(1,2) steps(1) v(3) invs(3) steps(2) set_clients(1) [of c s, folded s'] refl by (rule clients_agree_save)
  moreover have "deployments_agree s' db'" using invs(4) known by (auto simp: deployments_agree_def deps s')
  ultimately show ?thesis
    using names_ok_set [OF invs(1), of c] unique_names_set [OF invs(2), of c] free by (simp add: client_inv_def name_free_def s')
qed

end

lemma PersistDeployment_inv:
  assumes inv: "client_inv v s db" and p: "PersistDeployment d s db = (r, s', db')"
  shows "client_inv v s' db'"
proof (cases r)
  case (Some e)
  then have "s' = s" "db' = db" using p by (auto simp: PersistDeployment_def split: sum.splits)
  with inv show ?thesis by simp
next
  case None
  with p have db': "db' = db\<lparr>cd_deployments := upsert dep_key (stored_deployment d) (cd_deployments db)\<rparr>"
    and s': "s' = s\<lparr>cs_deployments := (cs_deployments s)(dp_clientID d \<mapsto> (inner (cs_deployments s) (dp_clientID d))(dp_agentID d \<mapsto> d))\<rparr>"
    by (auto simp: PersistDeployment_def PutDeployment_def dest: upsertDeployment_Inr split: sum.splits)
  note invs = client_invD [OF inv]
  have same: "names_of s' = names_of s" "living s' = living s" by (simp_all add: s' names_of_def living_def fun_eq_iff)
  have "deployments_agree s' db'"
    using invs(4) by (auto simp: deployments_agree_def s' db' inner_def dep_key_def [of d] distinct_rows_upsert)
  moreover have "clients_agree v s' db'" using invs(3) by (simp add: clients_agree_def s' db')
  moreover have "names_ok s'" "unique_names s'" using invs(1,2) by (simp_all add: names_ok_def unique_names_def same) (simp add: s')
  ultimately show ?thesis by (simp add: client_inv_def)
qed

end
