(* ===== verification/Client_Steps.thy ===== *)
theory Client_Steps
  imports Client_Invariant
begin

section \<open>Every flow keeps the invariant\<close>

text \<open>
  The flows of the client domain as the steps of one panel. A flow is one step here; the two
  halves of \<^verbatim>\<open>Create\<close> that other flows can come between are treated in
  \<open>Client_Properties\<close>.
\<close>

subsection \<open>What a flow leaves alone\<close>

lemma notice_fields [simp]:
  "pn_svc (notice n p) = pn_svc p" "pn_db (notice n p) = pn_db p" "pn_jobs (notice n p) = pn_jobs p"
  by (simp_all add: notice_def)

lemma enqueue_keeps [simp]:
  "pn_svc (snd (enqueueClientJobAndPublish env actor action i ts payload t p)) = pn_svc p"
  "pn_db (snd (enqueueClientJobAndPublish env actor action i ts payload t p)) = pn_db p"
  by (auto simp: enqueueClientJobAndPublish_def split: prod.splits sum.splits)

lemma client_job_keeps [simp]:
  "pn_svc (snd (EnqueueClientJob env actor action c ts t p)) = pn_svc p"
  "pn_db (snd (EnqueueClientJob env actor action c ts t p)) = pn_db p"
  "pn_svc (snd (EnqueueClientResetQuotaJob env actor c ts t p)) = pn_svc p"
  "pn_db (snd (EnqueueClientResetQuotaJob env actor c ts t p)) = pn_db p"
  by (simp_all add: EnqueueClientJob_def EnqueueClientResetQuotaJob_def)

lemma client_job_cases:
  assumes "EnqueueClientJob env actor action c ts t p = (r, p')"
  shows "pn_svc p' = pn_svc p \<and> pn_db p' = pn_db p"
  using client_job_keeps(1,2) [of env actor action c ts t p] assms by simp_all

lemma reset_job_cases:
  assumes "EnqueueClientResetQuotaJob env actor c ts t p = (r, p')"
  shows "pn_svc p' = pn_svc p \<and> pn_db p' = pn_db p"
  using client_job_keeps(3,4) [of env actor c ts t p] assms by simp_all

lemma dispatch_keeps:
  "DispatchClientUpdateJobs env actor c cur ts t p = (r, p') \<Longrightarrow> pn_svc p' = pn_svc p \<and> pn_db p' = pn_db p"
  by (auto simp: DispatchClientUpdateJobs_def Let_def dest!: client_job_cases split: if_splits prod.splits sum.splits option.splits)

lemma dispatch_snd:
  "pn_svc (snd (DispatchClientUpdateJobs env actor c cur ts t p)) = pn_svc p \<and>
   pn_db (snd (DispatchClientUpdateJobs env actor c cur ts t p)) = pn_db p"
  by (metis dispatch_keeps prod.collapse)

definition panel_inv :: "vault_ops \<Rightarrow> 'q panel \<Rightarrow> bool" where
  "panel_inv v p \<longleftrightarrow> client_inv v (pn_svc p) (pn_db p)"

lemma panel_inv_cong: "pn_svc p' = pn_svc p \<Longrightarrow> pn_db p' = pn_db p \<Longrightarrow> panel_inv v p' = panel_inv v p"
  by (simp add: panel_inv_def)

subsection \<open>Deployments of one client\<close>

lemma BuildDeployments_for:
  assumes "deployments_for i cur"
  shows "deployments_for i (BuildDeployments cur i ts op del t)"
proof -
  let ?b = "BuildDeployments cur i ts op del t"
  note spec = BuildDeployments_spec [of cur i ts op del t]
  have "dp_clientID d = i" if "d \<in> set ?b" for d
  proof -
    have row: "by_agent ?b (dp_agentID d) = Some d" using that spec(3) by (intro by_agent_distinct)
    have cur: "dp_clientID e = i" if "by_agent cur a = Some e" for a e
      using assms by_agent_id [OF that] by (simp add: deployments_for_def)
    show ?thesis
    proof (cases "dp_agentID d \<in> set ts")
      case True
      with row spec(1) have "d = target_row i op t (dp_agentID d) (by_agent cur (dp_agentID d))" by simp
      then show ?thesis by (metis target_row_fields(2))
    next
      case False
      with row spec(1) [of "dp_agentID d"] obtain e where "by_agent cur (dp_agentID d) = Some e" "dp_clientID d = dp_clientID e"
        by (auto split: if_splits)
      with cur show ?thesis by simp
    qed
  qed
  then show ?thesis using spec(3) by (simp add: deployments_for_def)
qed

lemma snapshot_deployments:
  assumes "deployments_agree s db" "distinct order"
  shows "deployments_for i (sort_key dp_agentID (List.map_filter (inner (cs_deployments s) i) order))"
proof -
  have key: "dp_agentID d = a \<and> dp_clientID d = i" if "inner (cs_deployments s) i a = Some d" for a d
    using assms(1) that by (auto simp: deployments_agree_def dep_key_def)
  have "map dp_agentID (List.map_filter (inner (cs_deployments s) i) order) = filter (\<lambda>a. inner (cs_deployments s) i a \<noteq> None) order"
    by (rule map_filter_agents(1)) (simp add: key)
  moreover have "dp_clientID d = i" if "d \<in> set (List.map_filter (inner (cs_deployments s) i) order)" for d
    using that key by (auto simp: List.map_filter_def)
  ultimately have "deployments_for i (List.map_filter (inner (cs_deployments s) i) order)"
    using assms(2) by (simp add: deployments_for_def)
  then show ?thesis by (simp add: deployments_for_def distinct_map)
qed

lemma living_snapshotD:
  assumes "living_snapshot env i p = Inr (c, as, ds)" "panel_inv v p" "distinct (ce_agents env)"
  shows "living (pn_svc p) i c" "cl_id c = i" "plain_secret (cl_secret c)" "i \<noteq> []" "deployments_for i ds"
    "\<And>d. cl_id d = i \<Longrightarrow> cl_name d = cl_name c \<Longrightarrow> name_free (pn_svc p) d"
proof -
  note invs = client_invD [OF assms(2) [unfolded panel_inv_def]]
  show l: "living (pn_svc p) i c"
    using assms(1) by (auto simp: living_snapshot_def detailSnapshot_def living_def split: option.splits if_splits)
  then show "cl_id c = i" "plain_secret (cl_secret c)" "i \<noteq> []" using invs(3) by (auto simp: clients_agree_def living_def)
  show "deployments_for i ds"
    using assms(1) snapshot_deployments [OF invs(4) assms(3)]
    by (auto simp: living_snapshot_def detailSnapshot_def split: option.splits if_splits)
  show "name_free (pn_svc p) d" if "cl_id d = i" "cl_name d = cl_name c" for d
    using invs(2) l that unfolding name_free_def unique_names_def by metis
qed

subsection \<open>Saving\<close>

lemma save_publish_inv:
  assumes "vault_usable (ce_vault env)" "plain_secret (cl_secret c)" "cl_id c \<noteq> []" "panel_inv (ce_vault env) p"
    "deployments_for (cl_id c) ds" "name_free (pn_svc p) c" "saveStateAndPublish env c as ds p = (r, p')"
  shows "panel_inv (ce_vault env) p'"
proof -
  obtain e s db where sv: "SaveState (ce_vault env) c as ds (pn_svc p) (pn_db p) = (e, s, db)" by (cases "SaveState (ce_vault env) c as ds (pn_svc p) (pn_db p)") auto
  have "client_inv (ce_vault env) s db"
    using assms(4) vaulted.SaveState_inv [OF assms(1-3) _ assms(5,6) sv] by (simp add: panel_inv_def)
  then show ?thesis using assms(7) sv by (auto simp: saveStateAndPublish_def panel_inv_def split: option.splits)
qed

lemma sequences_keep:
  "cs_clients (snd (NextClientID s)) = cs_clients s" "cs_names (snd (NextClientID s)) = cs_names s"
  "cs_deployments (snd (NextClientID s)) = cs_deployments s"
  "cs_clients (snd (NextAssignmentID s)) = cs_clients s" "cs_names (snd (NextAssignmentID s)) = cs_names s"
  "cs_deployments (snd (NextAssignmentID s)) = cs_deployments s"
  by (simp_all add: NextClientID_def NextAssignmentID_def Let_def)

lemma assign_each_keeps:
  "assign_each mk xs s = (as, s') \<Longrightarrow> cs_clients s' = cs_clients s \<and> cs_names s' = cs_names s \<and> cs_deployments s' = cs_deployments s"
  by (induction xs arbitrary: s as) (auto simp: NextAssignmentID_def Let_def split: prod.splits)

lemma buildClientAssignments_keeps:
  "buildClientAssignments i input t s = (as, s') \<Longrightarrow> cs_clients s' = cs_clients s \<and> cs_names s' = cs_names s \<and> cs_deployments s' = cs_deployments s"
  by (auto simp: buildClientAssignments_def Let_def split: prod.splits dest!: assign_each_keeps)

lemma inv_svc:
  assumes "cs_clients s' = cs_clients (pn_svc p)" "cs_names s' = cs_names (pn_svc p)" "cs_deployments s' = cs_deployments (pn_svc p)"
  shows "panel_inv v (p\<lparr>pn_svc := s'\<rparr>) = panel_inv v p" "name_free s' c = name_free (pn_svc p) c"
  using client_inv_cong [OF assms] by (simp_all add: panel_inv_def name_free_def living_def assms)

subsection \<open>The flows\<close>

definition mint_ok :: "client_mint \<Rightarrow> bool" where
  "mint_ok mint \<longleftrightarrow> plain_secret (mt_secret mint)"

definition env_ok :: "vault_ops \<Rightarrow> 'q client_env \<Rightarrow> bool" where
  "env_ok v env \<longleftrightarrow> ce_vault env = v \<and> vault_usable v \<and> distinct (ce_agents env)"

lemma hex_plain: "IsValidHexSecret x \<Longrightarrow> plain_secret x"
proof -
  assume h: "IsValidHexSecret x"
  have "\<not> IsEncrypted x"
  proof
    assume "IsEncrypted x"
    then obtain ys where "x = CHR ''P'' # ys" by (cases x) (auto simp: IsEncrypted_def HasPrefix_def Prefix2_def Prefix3_def)
    with h show False by (simp add: IsValidHexSecret_def is_hex_def)
  qed
  then show ?thesis by (simp add: plain_secret_def)
qed

lemma create_checksD:
  assumes "create_checks env mint input t s = Inr draft" "mint_ok mint" "names_ok s"
  shows "plain_secret (cl_secret draft)" "cl_deletedAt draft = None" "\<And>j d. living s j d \<Longrightarrow> cl_name d = cl_name draft \<Longrightarrow> j = []"
proof -
  from assms(1) have d: "create_secret mint input = Inr (cl_secret draft)" "cl_deletedAt draft = None" "\<not> NameTaken (cl_name draft) [] s"
    by (auto simp: create_checks_def Let_def split: if_splits sum.splits option.splits)
  show "plain_secret (cl_secret draft)"
    using d(1) assms(2) by (auto simp: create_secret_def Let_def mint_ok_def dest: hex_plain split: if_splits)
  show "cl_deletedAt draft = None" by (rule d(2))
  show "j = []" if "living s j d" "cl_name d = cl_name draft" for j d
    using d(3) NameTaken_iff [OF assms(3)] that by blast
qed

lemma no_empty_id: "panel_inv v p \<Longrightarrow> \<not> living (pn_svc p) [] c"
  by (auto simp: panel_inv_def client_inv_def clients_agree_def living_def)

lemma Create_inv:
  assumes env: "env_ok v env" and "mint_ok mint" and inv: "panel_inv v p" and flow: "Create env mint actor input t p = (r, p')"
  shows "panel_inv v p'"
proof (cases "create_checks env mint input t (pn_svc p)")
  case (Inl e)
  with flow inv show ?thesis by (simp add: Create_def)
next
  case (Inr draft)
  have names: "names_ok (pn_svc p)" using inv by (simp add: panel_inv_def client_inv_def)
  note checks = create_checksD [OF Inr assms(2) names]
  obtain i s1 where id: "NextClientID (pn_svc p) = (i, s1)" by (cases "NextClientID (pn_svc p)")
  obtain as s2 where asg: "buildClientAssignments i input t s1 = (as, s2)" by (cases "buildClientAssignments i input t s1")
  have keep: "cs_clients s2 = cs_clients (pn_svc p)" "cs_names s2 = cs_names (pn_svc p)" "cs_deployments s2 = cs_deployments (pn_svc p)"
    using sequences_keep(1-3) [of "pn_svc p"] buildClientAssignments_keeps [OF asg] id by simp_all
  note p2 = inv_svc [OF keep]
  let ?c = "draft\<lparr>cl_id := i\<rparr>" and ?p2 = "p\<lparr>pn_svc := s2\<rparr>"
  let ?ts = "ResolveTargetAgentIDs as (ce_topology env)"
  let ?ds = "BuildDeployments [] i ?ts ActionClientCreate ActionClientDelete t"
  have i: "i \<noteq> []" using id by (auto simp: NextClientID_def newSequenceID_def Let_def)
  have free: "name_free (pn_svc ?p2) ?c"
    using checks(3) no_empty_id [OF inv] p2(2) [of ?c] by (auto simp: name_free_def)
  have ds: "deployments_for (cl_id ?c) ?ds" using BuildDeployments_for [of i "[]"] by (simp add: deployments_for_def)
  have pl: "plain_secret (cl_secret ?c)" using checks(1) by simp
  have inv2: "panel_inv (ce_vault env) ?p2" "vault_usable (ce_vault env)" "ce_vault env = v"
    using inv p2(1) env by (simp_all add: env_ok_def)
  have "panel_inv v p3" if "saveStateAndPublish env ?c as ?ds ?p2 = (e, p3)" for e p3
    using save_publish_inv [OF inv2(2) pl _ inv2(1) ds free that] i inv2(3) by simp
  with flow Inr id asg inv2(1,3) show ?thesis
    by (auto simp: Create_def create_commit_def Let_def panel_inv_def dest!: client_job_cases split: if_splits prod.splits option.splits sum.splits)
qed

text \<open>What the flows on an existing client share: a save of a client with the old name, then jobs.\<close>

lemma resave_inv:
  assumes env: "env_ok v env" and inv: "panel_inv v p" and snap: "living_snapshot env i p = Inr (cur, as0, ds0)"
    and c: "cl_id c = i" "cl_name c = cl_name cur" "plain_secret (cl_secret c)" and ds: "deployments_for i ds"
    and keep: "cs_clients s1 = cs_clients (pn_svc p)" "cs_names s1 = cs_names (pn_svc p)" "cs_deployments s1 = cs_deployments (pn_svc p)"
    and save: "saveStateAndPublish env c as ds (p\<lparr>pn_svc := s1\<rparr>) = (r, p')"
  shows "panel_inv v p'"
proof -
  have e: "ce_vault env = v" "vault_usable (ce_vault env)" "distinct (ce_agents env)" using env by (auto simp: env_ok_def)
  note snap' = living_snapshotD [OF snap inv e(3)]
  note p1 = inv_svc [OF keep]
  have "panel_inv (ce_vault env) (p\<lparr>pn_svc := s1\<rparr>)" using inv p1(1) e(1) by simp
  moreover have "name_free (pn_svc (p\<lparr>pn_svc := s1\<rparr>)) c" using snap'(6) [OF c(1,2)] p1(2) by simp
  moreover have "cl_id c \<noteq> []" using c(1) snap'(4) by simp
  ultimately show ?thesis using save_publish_inv [OF e(2) c(3) _ _ _ _ save] ds c(1) e(1) by simp
qed

lemma Update_inv:
  assumes env: "env_ok v env" and inv: "panel_inv v p" and flow: "Update env mint i actor input t p = (r, p')"
  shows "panel_inv v p'"
proof (cases "living_snapshot env i p")
  case (Inl e)
  with flow inv show ?thesis by (simp add: Update_def)
next
  case (Inr snap)
  obtain cur as0 ds0 where snap: "living_snapshot env i p = Inr (cur, as0, ds0)" using Inr by (cases snap) auto
  have dist: "distinct (ce_agents env)" using env by (simp add: env_ok_def)
  note snap' = living_snapshotD [OF snap inv dist]
  show ?thesis
  proof (cases "\<exists>c. applyClientMutationFields env mint cur input t = Inr c \<and> TrimSpace (mi_name input) = cl_name cur \<and> TrimSpace (mi_name input) \<noteq> []")
    case False
    with flow snap inv show ?thesis by (auto simp: Update_def Let_def split: if_splits sum.splits prod.splits)
  next
    case True
    then obtain c where c: "applyClientMutationFields env mint cur input t = Inr c" "TrimSpace (mi_name input) = cl_name cur"
        "TrimSpace (mi_name input) \<noteq> []" by blast
    have fields: "cl_id c = i" "cl_name c = cl_name cur" "plain_secret (cl_secret c)"
      using c(1) snap'(2,3) by (auto simp: applyClientMutationFields_def split: sum.splits option.splits)
    obtain as s1 where asg: "buildClientAssignments i input t (pn_svc p) = (as, s1)"
      by (cases "buildClientAssignments i input t (pn_svc p)")
    let ?ts = "ResolveTargetAgentIDs as (ce_topology env)"
    let ?ds = "BuildDeployments ds0 i ?ts ActionClientUpdate ActionClientDelete t"
    have ds: "deployments_for i ?ds" using snap'(5) by (rule BuildDeployments_for)
    have "panel_inv v p2" if "saveStateAndPublish env c as ?ds (p\<lparr>pn_svc := s1\<rparr>) = (e, p2)" for e p2
      using resave_inv [OF env inv snap fields ds _ _ _ that] buildClientAssignments_keeps [OF asg] by simp
    with flow snap asg c show ?thesis
      by (auto simp: Update_def Let_def panel_inv_def dest!: dispatch_keeps split: if_splits prod.splits option.splits sum.splits)
  qed
qed

lemma resave_flow:
  assumes env: "env_ok v env" and inv: "panel_inv v p" and snap: "living_snapshot env i p = Inr (cur, as, ds0)"
    and c: "cl_id c = cl_id cur" "cl_name c = cl_name cur" "plain_secret (cl_secret cur) \<Longrightarrow> plain_secret (cl_secret c)"
    and ds: "ds = ds0 \<or> (\<exists>ts op del t. ds = BuildDeployments ds0 i ts op del t)"
    and save: "saveStateAndPublish env c as ds p = (r, p')"
  shows "panel_inv v p'"
proof -
  have dist: "distinct (ce_agents env)" using env by (simp add: env_ok_def)
  note snap' = living_snapshotD [OF snap inv dist]
  have "deployments_for i ds" using ds snap'(5) BuildDeployments_for by auto
  moreover have "cl_id c = i" "plain_secret (cl_secret c)" using c snap' by auto
  ultimately show ?thesis using resave_inv [OF env inv snap _ c(2) _ _ refl refl refl] save by simp
qed

lemma Redeploy_inv:
  assumes env: "env_ok v env" and inv: "panel_inv v p" and flow: "Redeploy env i actor t p = (r, p')"
  shows "panel_inv v p'"
proof (cases "living_snapshot env i p")
  case (Inl e)
  with flow inv show ?thesis by (simp add: Redeploy_def)
next
  case (Inr snap)
  obtain cur as0 ds0 where snap: "living_snapshot env i p = Inr (cur, as0, ds0)" using Inr by (cases snap) auto
  have "panel_inv v p2" if "saveStateAndPublish env cur as0 (BuildDeployments ds0 i (ResolveTargetAgentIDs as0 (ce_topology env)) ActionClientCreate ActionClientDelete t) p = (e, p2)" for e p2
    using resave_flow [OF env inv snap _ _ _ _ that] by (auto)
  with flow snap inv show ?thesis
    by (auto simp: Redeploy_def Let_def panel_inv_def dest!: client_job_cases split: if_splits prod.splits option.splits sum.splits)
qed

lemma RotateSecret_inv:
  assumes env: "env_ok v env" and inv: "panel_inv v p" and mint: "mint_ok mint" and flow: "RotateSecret env mint i actor t p = (r, p')"
  shows "panel_inv v p'"
proof (cases "living_snapshot env i p")
  case (Inl e)
  with flow inv show ?thesis by (simp add: RotateSecret_def)
next
  case (Inr snap)
  obtain cur as0 ds0 where snap: "living_snapshot env i p = Inr (cur, as0, ds0)" using Inr by (cases snap) auto
  have "panel_inv v p2" if "saveStateAndPublish env (cur\<lparr>cl_secret := mt_secret mint, cl_updatedAt := t\<rparr>) as0 (BuildDeployments ds0 i (ResolveTargetAgentIDs as0 (ce_topology env)) ActionClientRotateSecret ActionClientDelete t) p = (e, p2)" for e p2
    using resave_flow [OF env inv snap _ _ _ _ that] mint by (auto simp: mint_ok_def)
  with flow snap inv show ?thesis
    by (auto simp: RotateSecret_def Let_def panel_inv_def dest!: client_job_cases split: if_splits prod.splits option.splits sum.splits)
qed

lemma RotateSubscriptionToken_inv:
  assumes env: "env_ok v env" and inv: "panel_inv v p" and flow: "RotateSubscriptionToken env mint i t p = (r, p')"
  shows "panel_inv v p'"
proof (cases "living_snapshot env i p")
  case (Inl e)
  with flow inv show ?thesis by (simp add: RotateSubscriptionToken_def)
next
  case (Inr snap)
  obtain cur as0 ds0 where snap: "living_snapshot env i p = Inr (cur, as0, ds0)" using Inr by (cases snap) auto
  have "panel_inv v p2" if "saveStateAndPublish env (cur\<lparr>cl_subscriptionToken := mt_token mint, cl_updatedAt := t\<rparr>) as0 ds0 p = (e, p2)" for e p2
    using resave_flow [OF env inv snap _ _ _ _ that] by (auto)
  with flow snap inv show ?thesis
    by (auto simp: RotateSubscriptionToken_def Let_def panel_inv_def dest!: client_job_cases split: if_splits prod.splits option.splits sum.splits)
qed

lemma DeleteFlow_inv:
  assumes env: "env_ok v env" and inv: "panel_inv v p" and flow: "DeleteFlow env i actor t p = (r, p')"
  shows "panel_inv v p'"
proof (cases "living_snapshot env i p")
  case (Inl e)
  with flow inv show ?thesis by (simp add: DeleteFlow_def)
next
  case (Inr snap)
  obtain cur as0 ds0 where snap: "living_snapshot env i p = Inr (cur, as0, ds0)" using Inr by (cases snap) auto
  let ?ts = "if ResolveTargetAgentIDs as0 (ce_topology env) = [] then DeploymentAgentIDs ds0 else ResolveTargetAgentIDs as0 (ce_topology env)"
  have "panel_inv v p2" if "saveStateAndPublish env (cur\<lparr>cl_enabled := False, cl_updatedAt := t, cl_deletedAt := Some t\<rparr>) as0 (BuildDeployments ds0 i ?ts ActionClientDelete ActionClientDelete t) p = (e, p2)" for e p2
    using resave_flow [OF env inv snap _ _ _ _ that] by (auto)
  with flow snap inv show ?thesis
    by (auto simp: DeleteFlow_def Let_def panel_inv_def dest!: client_job_cases split: if_splits prod.splits option.splits sum.splits)
qed

lemma ResetQuota_inv:
  assumes inv: "panel_inv v p" and flow: "ResetQuota env i a actor t p = (r, p')"
  shows "panel_inv v p'"
  using flow inv
  by (auto simp: ResetQuota_def Let_def panel_inv_def dest!: reset_job_cases split: if_splits prod.splits option.splits sum.splits)

subsection \<open>Results, expiry and the reconciler\<close>

lemma persist_inv:
  assumes "panel_inv v p" "persist_deployment d p = (e, p')"
  shows "panel_inv v p'"
proof -
  obtain e' s db where "PersistDeployment d (pn_svc p) (pn_db p) = (e', s, db)" by (cases "PersistDeployment d (pn_svc p) (pn_db p)") auto
  with PersistDeployment_inv [OF _ this] assms show ?thesis by (auto simp: persist_deployment_def panel_inv_def)
qed

lemma reconciler_keeps:
  "cs_clients (confirm k s) = cs_clients s" "cs_names (confirm k s) = cs_names s" "cs_deployments (confirm k s) = cs_deployments s"
  by (simp_all add: confirm_def)

lemma confirm_inv: "panel_inv v (p\<lparr>pn_svc := confirm k (pn_svc p)\<rparr>) = panel_inv v p"
  by (rule inv_svc(1)) (simp_all add: reconciler_keeps)

lemma notice_inv [simp]: "panel_inv v (notice n p) = panel_inv v p"
  by (simp add: panel_inv_def)

lemma RecordJobResult_inv:
  assumes "panel_inv v p"
  shows "panel_inv v (RecordJobResult env a jid success msg json t p)"
proof -
  have persisted: "panel_inv v (snd (persist_deployment d q))" if "panel_inv v q" for d and q :: "'a panel"
    using persist_inv [OF that] by (cases "persist_deployment d q") auto
  have "panel_inv v (applyClientResetQuotaResult env a job success json t p)" for job
    using assms persisted by (auto simp: applyClientResetQuotaResult_def Let_def split: option.splits)
  moreover have "panel_inv v (case persist_deployment d q of (Some _, p2) \<Rightarrow> p2 | (None, p2) \<Rightarrow> notice n p2)"
    if "panel_inv v q" for d n and q :: "'a panel"
    using persist_inv [OF that] by (auto split: prod.splits option.splits)
  ultimately show ?thesis
    using assms by (auto simp: RecordJobResult_def Let_def confirm_inv split: option.splits)
qed

lemma expire_inv:
  assumes "panel_inv v (snd ap)"
  shows "panel_inv v (snd (expire_deployment env t target ap))"
  using assms
  by (auto simp: expire_deployment_def dest!: persist_inv [rotated] split: prod.splits option.splits)

lemma fold_notice_inv: "panel_inv v (fold (\<lambda>i. notice (f i)) is p) = panel_inv v p"
  by (induction "is" arbitrary: p) simp_all

lemma OnClientJobsExpired_inv:
  assumes "panel_inv v p"
  shows "panel_inv v (OnClientJobsExpired env t expired p)"
proof -
  have "panel_inv v (snd (fold (expire_deployment env t) expired ([], p)))"
    using assms by (intro fold_invariant [where P = "\<lambda>ap. panel_inv v (snd ap)"] expire_inv) simp_all
  then show ?thesis by (auto simp: OnClientJobsExpired_def fold_notice_inv split: prod.splits)
qed

lemma shouldRetry_keeps:
  "shouldRetry k t s = (n, s') \<Longrightarrow> cs_clients s' = cs_clients s \<and> cs_names s' = cs_names s \<and> cs_deployments s' = cs_deployments s"
  by (auto simp: shouldRetry_def Let_def split: if_splits)

lemma collect_keeps:
  "collect_pending flt t i m as s = (ps, s') \<Longrightarrow> cs_clients s' = cs_clients s \<and> cs_names s' = cs_names s \<and> cs_deployments s' = cs_deployments s"
proof (induction as arbitrary: s ps)
  case (Cons a as)
  then show ?case
    by (auto simp: Let_def dest!: shouldRetry_keeps split: if_splits option.splits prod.splits)
qed simp

lemma send_keeps:
  "pn_svc (snd (reconcile_send env t c action as p)) = pn_svc p \<and> pn_db (snd (reconcile_send env t c action as p)) = pn_db p"
  by (auto simp: reconcile_send_def dest!: client_job_cases split: option.splits prod.splits sum.splits)

lemma send_actions_keep:
  "pn_svc (snd (send_actions env t c pending acts p)) = pn_svc p \<and> pn_db (snd (send_actions env t c pending acts p)) = pn_db p"
proof (induction acts arbitrary: p)
  case (Cons x acts)
  then show ?case using send_keeps [of env t c x "agents_owed pending x" p] by (simp add: Let_def case_prod_beta)
qed simp

lemma reconcile_client_inv:
  assumes "panel_inv v p"
  shows "panel_inv v (snd (reconcile_client env flt t snap i p))"
proof (cases "cs_deployments snap i = None \<or> cs_clients snap i = None")
  case True
  with assms show ?thesis by (auto simp: reconcile_client_def split: option.splits)
next
  case False
  then obtain m c where mc: "cs_deployments snap i = Some m" "cs_clients snap i = Some c" by auto
  obtain ps s1 where col: "collect_pending flt t i m (ce_agents env) (pn_svc p) = (ps, s1)"
    by (cases "collect_pending flt t i m (ce_agents env) (pn_svc p)")
  have "panel_inv v (p\<lparr>pn_svc := s1\<rparr>)" using assms inv_svc(1) collect_keeps [OF col] by metis
  then show ?thesis
    using send_actions_keep [of env t c ps "ce_actions env" "p\<lparr>pn_svc := s1\<rparr>"] by (simp add: reconcile_client_def mc col panel_inv_def)
qed

lemma ReconcileDeployments_inv:
  assumes "panel_inv v p"
  shows "panel_inv v (snd (ReconcileDeployments env flt t p))"
proof -
  have "panel_inv v (snd (reconcile_each env flt t snap is q))" if "panel_inv v q" for snap "is" and q :: "'a panel"
    using that
  proof (induction "is" arbitrary: q)
    case (Cons i "is")
    then show ?case using reconcile_client_inv [OF Cons.prems, of env flt t snap i] by (simp add: Let_def case_prod_beta)
  qed simp
  with assms show ?thesis by (simp add: ReconcileDeployments_def)
qed

lemma topology_client_inv:
  assumes env: "env_ok v env" and inv: "panel_inv v p" and flow: "reconcileTopologyClient env i t p = (r, p')"
  shows "panel_inv v p'"
proof (cases "living_snapshot env i p")
  case (Inl e)
  with flow inv show ?thesis by (simp add: reconcileTopologyClient_def)
next
  case (Inr snap)
  obtain c as ds where snap: "living_snapshot env i p = Inr (c, as, ds)" using Inr by (cases snap) auto
  have e: "ce_vault env = v" "vault_usable v" "distinct (ce_agents env)" using env by (auto simp: env_ok_def)
  note snap' = living_snapshotD [OF snap inv e(3)]
  let ?nxt = "BuildDeployments ds i (ResolveTargetAgentIDs as (ce_topology env)) ActionClientUpdate ActionClientDelete t"
  have ds: "deployments_for (cl_id c) ?nxt" using BuildDeployments_for [OF snap'(5)] snap'(2) by simp
  have ci: "client_inv v (pn_svc p) (pn_db p)" using inv by (simp add: panel_inv_def)
  have "client_inv v s db" if "SaveState v c as ?nxt (pn_svc p) (pn_db p) = (e', s, db)" for e' s db
    using vaulted.SaveState_inv [OF e(2) snap'(3) _ ci ds _ that] snap'(2,4,6) by simp
  with flow snap inv e(1) show ?thesis
    by (auto simp: reconcileTopologyClient_def Let_def panel_inv_def split: if_splits prod.splits option.splits)
qed

lemma ReconcileTopology_inv:
  assumes env: "env_ok v env" and inv: "panel_inv v p"
  shows "panel_inv v (ReconcileTopology env actor t p)"
proof -
  have "panel_inv v (topology_step env actor t mirror i q)" if "panel_inv v q" for mirror i and q :: "'a panel"
  proof -
    obtain r q1 where r: "reconcileTopologyClient env i t q = (r, q1)" by (cases "reconcileTopologyClient env i t q")
    note q1 = topology_client_inv [OF env that r]
    have "panel_inv v (snd (DispatchClientUpdateJobs env actor c ds ts t (notice n q1)))" for c ds ts n
      using q1 dispatch_snd [of env actor c ds ts t "notice n q1"] by (simp add: panel_inv_def)
    note sent = this
    consider e where "r = Inl e" | "r = Inr None" | c ds ts where "r = Inr (Some (c, ds, ts))"
      by (metis option.exhaust prod_cases3 sum.exhaust)
    then show ?thesis
    proof cases
      case 1
      with that q1 r show ?thesis by (simp add: topology_step_def Let_def split: option.split)
    next
      case 2
      with that q1 r show ?thesis by (simp add: topology_step_def Let_def split: option.split)
    next
      case 3
      with that sent r show ?thesis by (simp add: topology_step_def Let_def split: option.split)
    qed
  qed
  note step = this
  show ?thesis unfolding ReconcileTopology_def by (rule fold_invariant [where P = "panel_inv v"]) (rule inv, rule step)
qed

end
