(* ===== verification/Client_Restart.thy ===== *)
theory Client_Restart
  imports Client_Steps
begin

section \<open>Restarts\<close>

text \<open>
  \<^verbatim>\<open>Restore\<close> rebuilds the mirror from the tables at boot. For the living clients the new mirror is
  the old one up to the precision of the tables, and the invariant holds again.
\<close>

subsection \<open>Looking up rows\<close>

lemma row_of_iff: "distinct (map key xs) \<Longrightarrow> row_of key k xs = Some r \<longleftrightarrow> r \<in> set xs \<and> key r = k"
  using row_of_distinct [of key xs] row_of_key [of key k xs] by auto

lemma to_seconds_idem [simp]: "to_seconds (to_seconds t) = to_seconds t"
  by (simp add: to_seconds_def)

lemma stored_deployment_idem [simp]: "stored_deployment (stored_deployment d) = stored_deployment d"
  by (simp add: stored_deployment_def option.map_comp comp_def)

lemma by_agent_rows:
  assumes "distinct (map dep_key (cd_deployments db))"
  shows "by_agent (ListDeployments i db) a = row_of dep_key (i, a) (cd_deployments db)"
proof -
  let ?rows = "filter (\<lambda>d. dp_clientID d = i) (cd_deployments db)"
  have "inj_on dp_agentID (set ?rows)" "distinct ?rows"
    using assms by (auto simp: distinct_map inj_on_def dep_key_def)
  then have d: "distinct (map dp_agentID (ListDeployments i db))" by (simp add: ListDeployments_def distinct_map)
  show ?thesis
  proof (cases "row_of dep_key (i, a) (cd_deployments db)")
    case None
    then have "a \<notin> dp_agentID ` set (ListDeployments i db)" by (auto simp: row_of_None ListDeployments_def dep_key_def)
    with None show ?thesis by (simp add: by_agent_dom [THEN iffD2])
  next
    case (Some d)
    then have "d \<in> set (ListDeployments i db)" "dp_agentID d = a"
      using row_of_key [OF Some] by (auto simp: ListDeployments_def dep_key_def)
    with by_agent_distinct [OF \<open>distinct (map dp_agentID (ListDeployments i db))\<close>] Some show ?thesis by auto
  qed
qed

lemma repo_List_row:
  assumes "distinct (map cl_id (cd_clients db))"
  shows "row_of cl_id i (repo_List db) = (case row_of cl_id i (cd_clients db) of None \<Rightarrow> None
     | Some c \<Rightarrow> if cl_deletedAt c = None then Some c else None)" "distinct (map cl_id (repo_List db))"
proof -
  have inj: "inj_on cl_id (set (cd_clients db))" "distinct (cd_clients db)" using assms by (auto simp: distinct_map)
  then show d: "distinct (map cl_id (repo_List db))" by (auto simp: repo_List_def distinct_map inj_on_def)
  have mem: "c \<in> set (repo_List db) \<longleftrightarrow> c \<in> set (cd_clients db) \<and> cl_deletedAt c = None" for c
    by (auto simp: repo_List_def)
  show "row_of cl_id i (repo_List db) = (case row_of cl_id i (cd_clients db) of None \<Rightarrow> None
     | Some c \<Rightarrow> if cl_deletedAt c = None then Some c else None)"
  proof (cases "row_of cl_id i (cd_clients db)")
    case None
    then have "row_of cl_id i (repo_List db) = None" using mem by (auto simp: row_of_None)
    with None show ?thesis by simp
  next
    case (Some c)
    then have c: "c \<in> set (cd_clients db)" "cl_id c = i" using row_of_key [OF Some] by auto
    show ?thesis
    proof (cases "cl_deletedAt c = None")
      case True
      with c mem d have "row_of cl_id i (repo_List db) = Some c" by (simp add: row_of_iff)
      with True Some show ?thesis by simp
    next
      case False
      have "row_of cl_id i (repo_List db) = None"
      proof (rule ccontr)
        assume "row_of cl_id i (repo_List db) \<noteq> None"
        then obtain x where "x \<in> set (repo_List db)" "cl_id x = i" by (auto simp: row_of_None)
        then have "x = c" using inj(1) c mem by (auto simp: inj_on_def)
        with \<open>x \<in> set (repo_List db)\<close> mem False show False by simp
      qed
      with False Some show ?thesis by simp
    qed
  qed
qed

subsection \<open>Rebuilding the mirror\<close>

lemma restore_clients_spec:
  assumes "\<forall>c \<in> set cs. decryptSecretFully v (cl_secret c) = Some (f c)" "distinct (map cl_id cs)" "names_ok s"
  shows "\<exists>s'. restore_clients v db cs s = Inr s' \<and> names_ok s' \<and>
    (\<forall>i. cs_clients s' i = (case row_of cl_id i cs of Some c \<Rightarrow> Some (c\<lparr>cl_secret := f c\<rparr>) | None \<Rightarrow> cs_clients s i)) \<and>
    (\<forall>i. cs_deployments s' i = (case row_of cl_id i cs of Some c \<Rightarrow> Some (by_agent (ListDeployments i db)) | None \<Rightarrow> cs_deployments s i))"
  using assms
proof (induction cs arbitrary: s)
  case Nil
  then show ?case by (simp add: row_of_def)
next
  case (Cons c cs)
  let ?s = "restore_client db (c\<lparr>cl_secret := f c\<rparr>) s"
  have fields: "cs_clients ?s = (cs_clients s)(cl_id c \<mapsto> c\<lparr>cl_secret := f c\<rparr>)"
    "cs_deployments ?s = (cs_deployments s)(cl_id c \<mapsto> by_agent (ListDeployments (cl_id c) db))"
    "cs_names ?s = cs_names (setMirrorClientLocked (c\<lparr>cl_secret := f c\<rparr>) s)"
    by (simp_all add: restore_client_def Let_def)
  have "names_of ?s = names_of (setMirrorClientLocked (c\<lparr>cl_secret := f c\<rparr>) s)" by (simp add: names_of_def fields(1) fun_eq_iff)
  then have names: "names_ok ?s" using names_ok_set [OF Cons.prems(3)] by (simp add: names_ok_def fields(3))
  have "\<forall>c \<in> set cs. decryptSecretFully v (cl_secret c) = Some (f c)" "distinct (map cl_id cs)" using Cons.prems by auto
  from Cons.IH [OF this names] obtain s' where s': "restore_clients v db cs ?s = Inr s'" "names_ok s'"
      "\<And>i. cs_clients s' i = (case row_of cl_id i cs of Some c \<Rightarrow> Some (c\<lparr>cl_secret := f c\<rparr>) | None \<Rightarrow> cs_clients ?s i)"
      "\<And>i. cs_deployments s' i = (case row_of cl_id i cs of Some c \<Rightarrow> Some (by_agent (ListDeployments i db)) | None \<Rightarrow> cs_deployments ?s i)"
    by blast
  have new: "row_of cl_id (cl_id c) cs = None" using Cons.prems(2) by (auto simp: row_of_None)
  have cons: "row_of cl_id i (c # cs) = (if cl_id c = i then Some c else row_of cl_id i cs)" for i
    by (simp add: row_of_def)
  show ?case
    using s' new Cons.prems(1) by (intro exI [of _ s']) (auto simp: cons fields split: option.splits)
qed

lemma recovered_fields:
  "cs_clients (recoverSequencesLocked a b c s) = cs_clients s" "cs_names (recoverSequencesLocked a b c s) = cs_names s"
  "cs_deployments (recoverSequencesLocked a b c s) = cs_deployments s"
  by (simp_all add: recoverSequencesLocked_def)

lemma usage_fold_fields:
  "cs_clients (fold applyUsageMirrorLocked us s) = cs_clients s" "cs_names (fold applyUsageMirrorLocked us s) = cs_names s"
  "cs_deployments (fold applyUsageMirrorLocked us s) = cs_deployments s"
  by (induction us arbitrary: s) (simp_all add: applyUsageMirrorLocked_def)

lemma row_fields:
  assumes "row_agrees v c row"
  shows "cl_id row = cl_id c" "cl_name row = cl_name c" "cl_deletedAt row = map_option to_seconds (cl_deletedAt c)"
    "stored_client (row\<lparr>cl_secret := x\<rparr>) = (stored_client row)\<lparr>cl_secret := x\<rparr>"
    "(stored_client row)\<lparr>cl_createdAt := y\<rparr> = row\<lparr>cl_createdAt := y\<rparr>"
proof -
  have eq: "row\<lparr>cl_secret := [], cl_createdAt := 0\<rparr> = (stored_client c)\<lparr>cl_secret := [], cl_createdAt := 0\<rparr>"
    using assms by (simp add: row_agrees_def)
  from arg_cong [OF eq, of cl_id] arg_cong [OF eq, of cl_name] arg_cong [OF eq, of cl_deletedAt] arg_cong [OF eq, of cl_updatedAt]
  have f: "cl_id row = cl_id c" "cl_name row = cl_name c" "cl_deletedAt row = map_option to_seconds (cl_deletedAt c)"
    "cl_updatedAt row = to_seconds (cl_updatedAt c)"
    by (simp_all add: stored_client_def)
  then show "cl_id row = cl_id c" "cl_name row = cl_name c" "cl_deletedAt row = map_option to_seconds (cl_deletedAt c)" by blast+
  show "stored_client (row\<lparr>cl_secret := x\<rparr>) = (stored_client row)\<lparr>cl_secret := x\<rparr>" by (simp add: stored_client_def)
  show "(stored_client row)\<lparr>cl_createdAt := y\<rparr> = row\<lparr>cl_createdAt := y\<rparr>"
    using f(3,4) by (simp add: stored_client_def option.map_comp comp_def)
qed

lemma agreeD:
  assumes "clients_agree v s db" "cs_clients s i = Some c" "row_of cl_id i (cd_clients db) = Some row"
  shows "row_agrees v c row" "plain_secret (cl_secret c)" "i \<noteq> []" "cl_id c = i"
proof -
  from assms(1) [unfolded clients_agree_def] assms(2) have
    f: "i \<noteq> []" "cl_id c = i" "plain_secret (cl_secret c)" "\<exists>row. row_of cl_id i (cd_clients db) = Some row \<and> row_agrees v c row" by blast+
  then show "row_agrees v c row" "plain_secret (cl_secret c)" "i \<noteq> []" "cl_id c = i" using assms(3) by auto
qed

lemma living_row:
  assumes "clients_agree v s db" "row_of cl_id i (cd_clients db) = Some row" "cl_deletedAt row = None"
  obtains c where "living s i c" "row_agrees v c row" "plain_secret (cl_secret c)" "i \<noteq> []"
proof -
  have "row \<in> set (cd_clients db)" "cl_id row = i" using row_of_key [OF assms(2)] by auto
  with assms(1,3) obtain c where c: "cs_clients s i = Some c" by (auto simp: clients_agree_def)
  note a = agreeD [OF assms(1) c assms(2)]
  have "cl_deletedAt c = None" using row_fields(3) [OF a(1)] assms(3) by simp
  with that a c show thesis by (simp add: living_def)
qed

text \<open>The secrets of the living rows open, each to the secret the mirror had.\<close>

definition mirror_secret :: "client_service \<Rightarrow> client \<Rightarrow> string" where
  "mirror_secret s row = (case cs_clients s (cl_id row) of Some c \<Rightarrow> cl_secret c | None \<Rightarrow> [])"

lemma rows_open:
  assumes "clients_agree v s db" "row \<in> set (repo_List db)"
  shows "decryptSecretFully v (cl_secret row) = Some (mirror_secret s row)"
proof -
  have "row_of cl_id (cl_id row) (cd_clients db) = Some row" "cl_deletedAt row = None"
    using assms by (auto simp: repo_List_def row_of_iff clients_agree_def)
  from living_row [OF assms(1) this] obtain c where "living s (cl_id row) c" "row_agrees v c row" by blast
  then show ?thesis by (simp add: mirror_secret_def living_def row_agrees_def)
qed

lemma restored_mirror:
  assumes "clients_agree v s db" and readable: "readable_rows (cd_discovered db)"
  shows "\<exists>s'. svc_Restore v db s0 = Inr s' \<and> names_ok s' \<and>
    (\<forall>i. cs_clients s' i = map_option (\<lambda>row. row\<lparr>cl_secret := mirror_secret s row\<rparr>) (row_of cl_id i (repo_List db))) \<and>
    (\<forall>i. cs_deployments s' i = map_option (\<lambda>_. by_agent (ListDeployments i db)) (row_of cl_id i (repo_List db)))"
proof -
  let ?s0 = "s0\<lparr>cs_clients := Map.empty, cs_assignments := Map.empty, cs_deployments := Map.empty, cs_usage := Map.empty, cs_names := Map.empty\<rparr>"
  have dist: "distinct (map cl_id (cd_clients db))" using assms by (simp add: clients_agree_def)
  have names0: "names_ok ?s0" by (simp add: names_ok_def index_of_def names_of_def)
  have none: "cs_clients ?s0 = Map.empty" "cs_deployments ?s0 = Map.empty" by simp_all
  have opens: "\<forall>c \<in> set (repo_List db). decryptSecretFully v (cl_secret c) = Some (mirror_secret s c)"
    using rows_open [OF assms(1)] by blast
  from restore_clients_spec [OF opens repo_List_row(2) [OF dist] names0, of db, unfolded none] obtain s1 where
    s1: "restore_clients v db (repo_List db) ?s0 = Inr s1" "names_ok s1"
      "\<forall>i. cs_clients s1 i = (case row_of cl_id i (repo_List db) of Some c \<Rightarrow> Some (c\<lparr>cl_secret := mirror_secret s c\<rparr>) | None \<Rightarrow> None)"
      "\<forall>i. cs_deployments s1 i = (case row_of cl_id i (repo_List db) of Some c \<Rightarrow> Some (by_agent (ListDeployments i db)) | None \<Rightarrow> None)"
    by blast
  obtain s' where s': "svc_Restore v db s0 = Inr s'" "cs_clients s' = cs_clients s1" "cs_names s' = cs_names s1" "cs_deployments s' = cs_deployments s1"
    by (simp add: svc_Restore_def disc_List_readable readable s1(1) Let_def recovered_fields usage_fold_fields)
  have "names_of s' = names_of s1" by (simp add: names_of_def s'(2) fun_eq_iff)
  with s' s1 show ?thesis by (auto simp: names_ok_def split: option.splits)
qed

text \<open>What a client of the restored mirror comes from.\<close>

lemma restored_client:
  assumes inv: "clients_agree v s db"
    and s': "\<forall>i. cs_clients s' i = map_option (\<lambda>row. row\<lparr>cl_secret := mirror_secret s row\<rparr>) (row_of cl_id i (repo_List db))"
  shows "cs_clients s' i = Some x \<longleftrightarrow> (\<exists>row c. row_of cl_id i (cd_clients db) = Some row \<and> living s i c \<and> row_agrees v c row \<and>
     x = row\<lparr>cl_secret := cl_secret c\<rparr>)"
proof -
  have dist: "distinct (map cl_id (cd_clients db))" using inv by (simp add: clients_agree_def)
  show ?thesis
  proof (cases "row_of cl_id i (cd_clients db)")
    case None
    then show ?thesis using s' by (simp add: repo_List_row(1) [OF dist])
  next
    case (Some row)
    have id: "cl_id row = i" using row_of_key [OF Some] by simp
    show ?thesis
    proof (cases "cl_deletedAt row = None")
      case True
      from living_row [OF inv Some True] obtain c where c: "living s i c" "row_agrees v c row" by blast
      then have "mirror_secret s row = cl_secret c" by (simp add: mirror_secret_def living_def id)
      then have found: "cs_clients s' i = Some (row\<lparr>cl_secret := cl_secret c\<rparr>)"
        using s' [THEN spec, of i] Some True by (simp add: repo_List_row(1) [OF dist])
      have one: "d = c" if "living s i d" for d using that c(1) by (simp add: living_def)
      show ?thesis
      proof
        assume "cs_clients s' i = Some x"
        with found Some c show
          "\<exists>row c. row_of cl_id i (cd_clients db) = Some row \<and> living s i c \<and> row_agrees v c row \<and> x = row\<lparr>cl_secret := cl_secret c\<rparr>" by auto
      next
        assume "\<exists>row c. row_of cl_id i (cd_clients db) = Some row \<and> living s i c \<and> row_agrees v c row \<and> x = row\<lparr>cl_secret := cl_secret c\<rparr>"
        then obtain r d where "row_of cl_id i (cd_clients db) = Some r" "living s i d" "x = r\<lparr>cl_secret := cl_secret d\<rparr>" by blast
        with Some one [of d] found show "cs_clients s' i = Some x" by simp
      qed
    next
      case False
      have "\<not> (living s i c \<and> row_agrees v c row)" for c
        using False row_fields(3) [of v c row] by (auto simp: living_def)
      moreover have "cs_clients s' i = None" using s' [THEN spec, of i] Some False by (simp add: repo_List_row(1) [OF dist])
      ultimately show ?thesis using Some by auto
    qed
  qed
qed

subsection \<open>The restored panel\<close>

text \<open>The mirror after a restart, seen from the mirror before.\<close>

definition restored :: "client_service \<Rightarrow> client_service \<Rightarrow> bool" where
  "restored s s' \<longleftrightarrow>
     (\<forall>i. (\<exists>x. cs_clients s' i = Some x) \<longleftrightarrow> (\<exists>c. living s i c)) \<and>
     (\<forall>i c x. living s i c \<and> cs_clients s' i = Some x \<longrightarrow> x\<lparr>cl_createdAt := 0\<rparr> = (stored_client c)\<lparr>cl_createdAt := 0\<rparr>) \<and>
     (\<forall>i a. (\<exists>c. living s i c) \<longrightarrow> inner (cs_deployments s') i a = map_option stored_deployment (inner (cs_deployments s) i a))"

lemma restored_agrees:
  assumes "row_agrees v c row" "living s i c"
  shows "row_agrees v (row\<lparr>cl_secret := cl_secret c\<rparr>) row"
    "(row\<lparr>cl_secret := cl_secret c\<rparr>)\<lparr>cl_createdAt := 0\<rparr> = (stored_client c)\<lparr>cl_createdAt := 0\<rparr>"
proof -
  have eq: "row\<lparr>cl_secret := [], cl_createdAt := 0\<rparr> = (stored_client c)\<lparr>cl_secret := [], cl_createdAt := 0\<rparr>"
    using assms(1) by (simp add: row_agrees_def)
  have "(stored_client (row\<lparr>cl_secret := cl_secret c\<rparr>))\<lparr>cl_secret := [], cl_createdAt := 0\<rparr> = (stored_client row)\<lparr>cl_createdAt := 0\<rparr>\<lparr>cl_secret := []\<rparr>"
    by (simp add: stored_client_def)
  also have "\<dots> = row\<lparr>cl_secret := [], cl_createdAt := 0\<rparr>" unfolding row_fields(5) [OF assms(1)] by simp
  finally show "row_agrees v (row\<lparr>cl_secret := cl_secret c\<rparr>) row" using assms(1) by (simp add: row_agrees_def)
  have "row\<lparr>cl_secret := cl_secret c, cl_createdAt := 0\<rparr> = (row\<lparr>cl_secret := [], cl_createdAt := 0\<rparr>)\<lparr>cl_secret := cl_secret c\<rparr>" by simp
  also have "\<dots> = (stored_client c)\<lparr>cl_createdAt := 0\<rparr>" unfolding eq by (simp add: stored_client_def)
  finally show "(row\<lparr>cl_secret := cl_secret c\<rparr>)\<lparr>cl_createdAt := 0\<rparr> = (stored_client c)\<lparr>cl_createdAt := 0\<rparr>" by simp
qed

text \<open>The mirror that the rows give, with the secrets of the old mirror.\<close>

definition mirrors_rows :: "client_service \<Rightarrow> client_db \<Rightarrow> client_service \<Rightarrow> bool" where
  "mirrors_rows s db s' \<longleftrightarrow>
     (\<forall>i. cs_clients s' i = map_option (\<lambda>row. row\<lparr>cl_secret := mirror_secret s row\<rparr>) (row_of cl_id i (repo_List db))) \<and>
     (\<forall>i. cs_deployments s' i = map_option (\<lambda>_. by_agent (ListDeployments i db)) (row_of cl_id i (repo_List db)))"

lemma mirrors_client:
  assumes "clients_agree v s db" "mirrors_rows s db s'" "cs_clients s' i = Some x"
  obtains row c where "row_of cl_id i (cd_clients db) = Some row" "living s i c" "row_agrees v c row" "x = row\<lparr>cl_secret := cl_secret c\<rparr>"
  using assms(3) restored_client [OF assms(1), of s'] assms(2) unfolding mirrors_rows_def by blast

lemma mirrors_living:
  assumes inv: "clients_agree v s db" and m: "mirrors_rows s db s'"
  shows "(\<exists>x. cs_clients s' i = Some x) \<longleftrightarrow> (\<exists>c. living s i c)"
proof
  assume "\<exists>x. cs_clients s' i = Some x"
  with mirrors_client [OF inv m] show "\<exists>c. living s i c" by blast
next
  assume "\<exists>c. living s i c"
  then obtain c where c: "living s i c" by blast
  with inv obtain row where "row_of cl_id i (cd_clients db) = Some row" "row_agrees v c row"
    by (auto simp: clients_agree_def living_def)
  with c restored_client [OF inv, of s' i] m show "\<exists>x. cs_clients s' i = Some x" unfolding mirrors_rows_def by blast
qed

lemma mirrors_deployments:
  assumes inv: "deployments_agree s db" and m: "mirrors_rows s db s'"
  shows "cs_clients s' i = Some x \<Longrightarrow> inner (cs_deployments s') i a = row_of dep_key (i, a) (cd_deployments db)"
    "inner (cs_deployments s') i a = Some d \<Longrightarrow> cs_clients s' i \<noteq> None"
    "living s i c \<Longrightarrow> row_of dep_key (i, a) (cd_deployments db) = map_option stored_deployment (inner (cs_deployments s) i a)"
proof -
  have dist: "distinct (map dep_key (cd_deployments db))" using inv by (simp add: deployments_agree_def)
  have s': "cs_clients s' i = map_option (\<lambda>row. row\<lparr>cl_secret := mirror_secret s row\<rparr>) (row_of cl_id i (repo_List db))"
    "cs_deployments s' i = map_option (\<lambda>_. by_agent (ListDeployments i db)) (row_of cl_id i (repo_List db))"
    using m by (simp_all add: mirrors_rows_def)
  show "inner (cs_deployments s') i a = row_of dep_key (i, a) (cd_deployments db)" if "cs_clients s' i = Some x"
    using that s' by (auto simp: inner_def by_agent_rows [OF dist])
  show "cs_clients s' i \<noteq> None" if "inner (cs_deployments s') i a = Some d"
    using that s' by (cases "row_of cl_id i (repo_List db)") (auto simp: inner_def)
  show "row_of dep_key (i, a) (cd_deployments db) = map_option stored_deployment (inner (cs_deployments s) i a)" if "living s i c"
  proof -
    from that have "cs_clients s i \<noteq> None" by (simp add: living_def)
    with inv show ?thesis unfolding deployments_agree_def by blast
  qed
qed

lemma mirrors_restored:
  assumes c: "clients_agree v s db" and d: "deployments_agree s db" and m: "mirrors_rows s db s'"
  shows "restored s s'"
  unfolding restored_def
proof (intro conjI allI impI)
  show "(\<exists>x. cs_clients s' i = Some x) \<longleftrightarrow> (\<exists>c. living s i c)" for i by (rule mirrors_living [OF c m])
next
  fix i a
  assume "\<exists>c. living s i c"
  then obtain y where y: "living s i y" by (rule exE)
  from mirrors_living [OF c m, of i] \<open>\<exists>c. living s i c\<close> obtain x where "cs_clients s' i = Some x" by blast
  from mirrors_deployments(1) [OF d m this] mirrors_deployments(3) [OF d m y]
  show "inner (cs_deployments s') i a = map_option stored_deployment (inner (cs_deployments s) i a)" by simp
next
  fix i y x
  assume a: "living s i y \<and> cs_clients s' i = Some x"
  from mirrors_client [OF c m conjunct2 [OF a]] obtain row z where
    "living s i z" "row_agrees v z row" "x = row\<lparr>cl_secret := cl_secret z\<rparr>" by blast
  moreover have "z = y" using a calculation(1) by (simp add: living_def)
  ultimately show "x\<lparr>cl_createdAt := 0\<rparr> = (stored_client y)\<lparr>cl_createdAt := 0\<rparr>" using restored_agrees(2) by blast
qed

lemma mirrors_unique:
  assumes inv: "clients_agree v s db" "unique_names s" and m: "mirrors_rows s db s'"
  shows "unique_names s'"
  unfolding unique_names_def
proof (intro allI impI)
  fix i j x y assume xy: "living s' i x" "living s' j y" "cl_name x = cl_name y"
  then have "cs_clients s' i = Some x" "cs_clients s' j = Some y" by (simp_all add: living_def)
  from mirrors_client [OF inv(1) m this(1)] mirrors_client [OF inv(1) m this(2)] obtain r c r2 d where
    *: "living s i c" "row_agrees v c r" "x = r\<lparr>cl_secret := cl_secret c\<rparr>"
       "living s j d" "row_agrees v d r2" "y = r2\<lparr>cl_secret := cl_secret d\<rparr>" by metis
  have "cl_name c = cl_name d" using xy(3) *(3,6) row_fields(2) [OF *(2)] row_fields(2) [OF *(5)] by simp
  with inv(2) *(1,4) show "i = j" unfolding unique_names_def by blast
qed

lemma mirrors_clients_agree:
  assumes inv: "clients_agree v s db" and m: "mirrors_rows s db s'"
  shows "clients_agree v s' db"
proof -
  have dist: "distinct (map cl_id (cd_clients db))" using inv by (simp add: clients_agree_def)
  have "i \<noteq> [] \<and> cl_id x = i \<and> plain_secret (cl_secret x) \<and> (\<exists>row. row_of cl_id i (cd_clients db) = Some row \<and> row_agrees v x row)"
    if "cs_clients s' i = Some x" for i x
  proof -
    from mirrors_client [OF inv m that] obtain row c where *: "row_of cl_id i (cd_clients db) = Some row" "living s i c" "row_agrees v c row"
        "x = row\<lparr>cl_secret := cl_secret c\<rparr>" by blast
    from *(2) have "cs_clients s i = Some c" by (simp add: living_def)
    note a = agreeD [OF inv this *(1)]
    show ?thesis using a(2-4) *(1,4) restored_agrees(1) [OF *(3,2)] row_fields(1) [OF *(3)] by simp
  qed
  moreover have "cs_clients s' (cl_id row) \<noteq> None" if "row \<in> set (cd_clients db)" "cl_deletedAt row = None" for row
    using that m dist by (simp add: mirrors_rows_def repo_List_row(1) [OF dist] row_of_distinct)
  ultimately show ?thesis using dist by (simp add: clients_agree_def)
qed

lemma mirrors_deployments_agree:
  assumes inv: "clients_agree v s db" "deployments_agree s db" and m: "mirrors_rows s db s'"
  shows "deployments_agree s' db"
proof -
  have "dep_key d = (i, a)" if "inner (cs_deployments s') i a = Some d" for i a d
  proof -
    from mirrors_deployments(2) [OF inv(2) m that] obtain x where "cs_clients s' i = Some x" by blast
    from mirrors_deployments(1) [OF inv(2) m this, of a] that have "row_of dep_key (i, a) (cd_deployments db) = Some d" by simp
    then show ?thesis by (rule row_of_key [THEN conjunct1])
  qed
  moreover have "row_of dep_key (i, a) (cd_deployments db) = map_option stored_deployment (inner (cs_deployments s') i a)"
    if "cs_clients s' i \<noteq> None" for i a
  proof -
    from that obtain x where x: "cs_clients s' i = Some x" by blast
    from mirrors_client [OF inv(1) m x] obtain c where "living s i c" by blast
    from mirrors_deployments(3) [OF inv(2) m this, of a] mirrors_deployments(1) [OF inv(2) m x, of a]
    show ?thesis by (simp add: option.map_comp comp_def)
  qed
  ultimately show ?thesis using inv(2) by (simp add: deployments_agree_def)
qed

lemma Restore_reads: "svc_Restore v db s0 = Inr s' \<Longrightarrow> readable_rows (cd_discovered db)"
  by (auto simp: svc_Restore_def disc_List_readable Let_def split: if_splits)

lemma Restore_inv:
  assumes inv: "client_inv v s db" and readable: "readable_rows (cd_discovered db)"
  shows "\<exists>s'. svc_Restore v db s0 = Inr s' \<and> client_inv v s' db \<and> restored s s'"
proof -
  note invs = client_invD [OF inv]
  from restored_mirror [OF invs(3) readable, of s0] obtain s' where s': "svc_Restore v db s0 = Inr s'" "names_ok s'" "mirrors_rows s db s'"
    unfolding mirrors_rows_def by blast
  note m = mirrors_clients_agree [OF invs(3) s'(3)] mirrors_deployments_agree [OF invs(3,4) s'(3)]
    mirrors_unique [OF invs(3,2) s'(3)] mirrors_restored [OF invs(3,4) s'(3)]
  show ?thesis using s' m by (auto simp: client_inv_def)
qed

lemma Restore_absent:
  assumes inv: "client_inv v s db" and s': "svc_Restore v db s0 = Inr s'" and none: "cs_clients s' i = None"
  shows "cs_deployments s' i = None"
proof -
  from restored_mirror [OF client_invD(3) [OF inv] Restore_reads [OF s'], of s0] s' have
    "cs_clients s' i = map_option (\<lambda>row. row\<lparr>cl_secret := mirror_secret s row\<rparr>) (row_of cl_id i (repo_List db))"
    "cs_deployments s' i = map_option (\<lambda>_. by_agent (ListDeployments i db)) (row_of cl_id i (repo_List db))" by auto
  with none show ?thesis by simp
qed

end
