(* ===== verification/Client_Queue.thy ===== *)
theory Client_Queue
  imports Client_Steps
begin

section \<open>The client domain on top of the job queue\<close>

text \<open>
  The flows of the client domain use one operation of the job queue. What they rely on is the
  locale \<open>job_queue\<close>: when an input is accepted, what the new job carries, and that an input
  stays acceptable while others are taken. \<^verbatim>\<open>Enqueue\<close> of the job service provides it. Inside the
  locale stands what one pass of the reconciler sends.
\<close>

subsection \<open>The interface\<close>

definition answers :: "job \<Rightarrow> create_job_input \<Rightarrow> bool" where
  "answers j input \<longleftrightarrow> j_action j = in_action input \<and> j_targetAgentIDs j = in_targetAgentIDs input \<and> j_payload j = in_payload input"

definition aims_at_read_only :: "create_job_input \<Rightarrow> bool" where
  "aims_at_read_only input \<longleftrightarrow> isMutatingAction (in_action input) \<and> list_ex (in_readOnlyAgents input) (in_targetAgentIDs input)"

locale job_queue =
  fixes enqueue :: "create_job_input \<Rightarrow> gotime \<Rightarrow> 'q \<Rightarrow> (enqueue_failure + job) \<times> 'q"
    and accepts :: "'q \<Rightarrow> create_job_input \<Rightarrow> bool"
  assumes accepted: "accepts q input \<Longrightarrow> \<exists>j q'. enqueue input t q = (Inr j, q') \<and> answers j input"
    and carries: "enqueue input t q = (Inr j, q') \<Longrightarrow> answers j input"
    and kept: "enqueue input t q = (r, q') \<Longrightarrow> in_key input \<noteq> in_key other \<Longrightarrow> in_key input \<noteq> [] \<Longrightarrow> accepts q other \<Longrightarrow> accepts q' other"
    and read_only: "aims_at_read_only input \<Longrightarrow> \<exists>e. enqueue input t q = (Inl e, q)"

subsection \<open>The job service behind it\<close>

text \<open>The order is the one in which the map of the jobs is visited.\<close>

definition panel_enqueue ::
    "(job \<Rightarrow> 'db \<Rightarrow> store_error option \<times> 'db) \<Rightarrow> (service \<Rightarrow> string list) \<Rightarrow> create_job_input \<Rightarrow> gotime \<Rightarrow> service \<times> 'db \<Rightarrow>
     (enqueue_failure + job) \<times> service \<times> 'db" where
  "panel_enqueue persist order input now q = Enqueue persist (order (fst q)) input [] now (fst q) (snd q)"

definition queue_accepts :: "(job \<Rightarrow> 'db \<Rightarrow> store_error option \<times> 'db) \<Rightarrow> service \<times> 'db \<Rightarrow> create_job_input \<Rightarrow> bool" where
  "queue_accepts persist q input \<longleftrightarrow> in_key input \<noteq> [] \<and> sv_keys (fst q) (in_key input) = None \<and> \<not> aims_at_read_only input \<and>
     (\<forall>job db. fst (persist job db) = None)"

lemma supersede_keys: "sv_keys (snd (fold (supersede_step p key now) order cs)) = sv_keys (snd cs)"
proof (induction order arbitrary: cs)
  case (Cons i order)
  have "sv_keys (snd (supersede_step p key now i cs)) = sv_keys (snd cs)"
    by (auto simp: supersede_step_def Let_def case_prod_beta commit_keys default_commit_def split: option.split)
  with Cons show ?case by simp
qed simp

lemma finalize_keys: "sv_keys (snd (enqueue_finalize order p now s)) = (sv_keys s)(j_key p \<mapsto> j_id p)"
  by (simp add: enqueue_finalize_def supersedePendingJobsLocked_def Let_def supersede_keys publish_fields)

lemma Enqueue_keys:
  assumes "Enqueue persist order input [] now s db = (r, s', db')" "k \<noteq> in_key input" "in_key input \<noteq> []"
  shows "sv_keys s' k = sv_keys s k"
proof (cases "fst (enqueue_reserve input [] now s)")
  case (Inl e)
  with assms(1) show ?thesis by (auto simp: Enqueue_def enqueue_reserve_def Let_def split: if_splits)
next
  case (Inr j)
  then have j: "enqueue_reserve input [] now s = (Inr j, s\<lparr>sv_sequence := sv_sequence s + 1, sv_keys := (sv_keys s)(in_key input \<mapsto> [])\<rparr>)"
      "j_key j = in_key input"
    using assms(3) by (auto simp: enqueue_reserve_def enqueue_key_def new_job_def Let_def split: if_splits)
  with assms show ?thesis
    by (auto simp: Enqueue_def enqueue_rollback_def finalize_keys Let_def case_prod_beta split: option.splits prod.splits if_splits)
qed

interpretation panel_queue: job_queue "panel_enqueue persist order" "queue_accepts persist" for persist order
proof
  show "\<exists>j q'. panel_enqueue persist order input t q = (Inr j, q') \<and> answers j input"
    if "queue_accepts persist q input" for q input t
    using that
    by (auto simp: panel_enqueue_def queue_accepts_def aims_at_read_only_def Enqueue_def enqueue_reserve_def enqueue_key_def Let_def answers_def
        new_job_def case_prod_beta split: prod.split option.split)
  show "answers j input" if "panel_enqueue persist order input t q = (Inr j, q')" for input t q j q'
    using that
    by (auto simp: panel_enqueue_def Enqueue_def enqueue_reserve_def answers_def new_job_def Let_def
        split: if_splits prod.splits option.splits)
  show "queue_accepts persist q' other" if "panel_enqueue persist order input t q = (r, q')" "in_key input \<noteq> in_key other" "in_key input \<noteq> []"
      "queue_accepts persist q other" for input t q r q' other
    using that Enqueue_keys [of persist "order (fst q)" input t "fst q" "snd q" r "fst q'" "snd q'" "in_key other"]
    by (simp add: panel_enqueue_def queue_accepts_def)
  show "\<exists>e. panel_enqueue persist order input t q = (Inl e, q)" if "aims_at_read_only input" for input t q
    using that by (auto simp: panel_enqueue_def Enqueue_def enqueue_reserve_def aims_at_read_only_def Let_def)
qed

subsection \<open>What the flows hand over\<close>

definition client_input :: "'q client_env \<Rightarrow> string \<Rightarrow> action \<Rightarrow> string \<Rightarrow> string list \<Rightarrow> string \<Rightarrow> gotime \<Rightarrow> create_job_input" where
  "client_input env actor action i targets payload t =
     \<lparr>in_action = action, in_targetAgentIDs = targets, in_ttl = ce_ttl env, in_key = client_job_key action i t, in_actorID = actor,
      in_readOnlyAgents = ce_readOnly env, in_payload = payload\<rparr>"

lemma client_input_fields [simp]:
  "in_key (client_input env actor action i targets payload t) = client_job_key action i t"
  "in_action (client_input env actor action i targets payload t) = action"
  "in_targetAgentIDs (client_input env actor action i targets payload t) = targets"
  "in_readOnlyAgents (client_input env actor action i targets payload t) = ce_readOnly env"
  "in_payload (client_input env actor action i targets payload t) = payload"
  by (simp_all add: client_input_def)

lemma first_separator:
  "c \<notin> set xs \<Longrightarrow> c \<notin> set xs' \<Longrightarrow> xs @ c # ys = xs' @ c # ys' \<Longrightarrow> xs = xs' \<and> ys = ys'"
proof (induction xs arbitrary: xs')
  case Nil
  then show ?case by (cases xs') auto
next
  case (Cons x xs)
  then show ?case by (cases xs') auto
qed

lemma client_job_key_eq:
  assumes "client_action x" "client_action y"
  shows "client_job_key x i t = client_job_key y j t \<longleftrightarrow> x = y \<and> i = j"
proof
  assume eq: "client_job_key x i t = client_job_key y j t"
  have colon: "CHR '':'' \<notin> set (action_string z)" if "client_action z" for z using that by (auto simp: client_action_def)
  have "action_string x @ CHR '':'' # (i @ '':'' @ int_string (unix_nano t)) = action_string y @ CHR '':'' # (j @ '':'' @ int_string (unix_nano t))"
    using eq by (simp add: client_job_key_def)
  from first_separator [OF colon [OF assms(1)] colon [OF assms(2)] this]
  have "action_string x = action_string y" "i = j" by auto
  with assms show "x = y \<and> i = j" by (auto simp: client_action_def)
qed simp

lemma client_job_key_nonempty [simp]: "client_job_key x i t \<noteq> []"
  by (simp add: client_job_key_def)

lemma reconcileKey_eq:
  assumes "CHR ''|'' \<notin> set i" "CHR ''|'' \<notin> set j"
  shows "reconcileKey i a = reconcileKey j b \<longleftrightarrow> i = j \<and> a = b"
  using first_separator [OF assms, of a b] by (auto simp: reconcileKey_def)

subsection \<open>Which pairs a pass takes up\<close>

definition may_retry :: "string \<Rightarrow> gotime \<Rightarrow> client_service \<Rightarrow> bool" where
  "may_retry key now s \<longleftrightarrow> (case cs_lastTry s key of Some prev \<Rightarrow> clientReconcileMinInterval \<le> time_sub now prev | None \<Rightarrow> True)"

lemma shouldRetry_cases:
  "shouldRetry key now s = (if may_retry key now s
     then (Some (map_get 0 (cs_attempts s) key + 1),
           s\<lparr>cs_lastTry := (cs_lastTry s)(key \<mapsto> now), cs_attempts := (cs_attempts s)(key \<mapsto> map_get 0 (cs_attempts s) key + 1)\<rparr>)
     else (None, s))"
  by (auto simp: shouldRetry_def may_retry_def Let_def split: option.splits)

lemma collect_lastTry:
  "collect_pending flt now i m as s = (ps, s') \<Longrightarrow> \<forall>a \<in> set as. k \<noteq> reconcileKey i a \<Longrightarrow> cs_lastTry s' k = cs_lastTry s k"
proof (induction as arbitrary: s ps)
  case (Cons a as)
  then show ?case
    by (auto simp: Let_def shouldRetry_cases split: if_splits option.splits prod.splits)
qed simp

text \<open>The pending list of a pass over all agents.\<close>

lemma collect_pending_spec:
  assumes "distinct as" and "collect_pending [] now i m as s = (ps, s')"
  shows "(op, a) \<in> set ps \<longleftrightarrow> a \<in> set as \<and> (\<exists>d. m a = Some d \<and> divergentDeploymentAction d = Some op) \<and> may_retry (reconcileKey i a) now s"
  using assms
proof (induction as arbitrary: s ps)
  case (Cons b as)
  let ?k = "reconcileKey i b"
  have other: "reconcileKey i a \<noteq> ?k" if "a \<in> set as" for a using Cons.prems(1) that by (auto simp: reconcileKey_def)
  show ?case
  proof (cases "\<exists>d x. m b = Some d \<and> divergentDeploymentAction d = Some x")
    case False
    then have "collect_pending [] now i m as s = (ps, s')" using Cons.prems(2) by (auto split: option.splits)
    with Cons.IH Cons.prems(1) False show ?thesis by auto
  next
    case True
    then obtain d x where d: "m b = Some d" "divergentDeploymentAction d = Some x" by blast
    show ?thesis
    proof (cases "may_retry ?k now s")
      case False
      then have "collect_pending [] now i m as s = (ps, s')" using Cons.prems(2) d by (simp add: shouldRetry_cases)
      with Cons.IH Cons.prems(1) d False show ?thesis by auto
    next
      case retry: True
      let ?s = "s\<lparr>cs_lastTry := (cs_lastTry s)(?k \<mapsto> now), cs_attempts := (cs_attempts s)(?k \<mapsto> map_get 0 (cs_attempts s) ?k + 1)\<rparr>"
      from retry Cons.prems(2) d obtain qs where qs: "collect_pending [] now i m as ?s = (qs, s')" "ps = (x, b) # qs"
        by (auto simp: shouldRetry_cases Let_def split: prod.splits)
      have "may_retry (reconcileKey i a) now ?s = may_retry (reconcileKey i a) now s" if "a \<in> set as" for a
        using other [OF that] by (simp add: may_retry_def)
      with Cons.IH [OF _ qs(1)] Cons.prems(1) d retry qs(2) show ?thesis by auto
    qed
  qed
qed simp

lemma agents_owed_iff: "a \<in> set (agents_owed ps op) \<longleftrightarrow> (op, a) \<in> set ps"
  by (force simp: agents_owed_def)

subsection \<open>Notifications only grow\<close>

lemma job_notices: "set (pn_notices p) \<subseteq> set (pn_notices (snd (EnqueueClientJob env actor op c ts t p)))"
  by (auto simp: EnqueueClientJob_def enqueueClientJobAndPublish_def notice_def split: prod.split sum.split)

lemma send_notices: "set (pn_notices p) \<subseteq> set (pn_notices (snd (reconcile_send env t c op as p)))"
  using job_notices [of p env actorReconciler op _ as t]
  by (auto simp: reconcile_send_def split: option.split prod.split sum.split) (metis snd_conv subsetD)+

lemma send_actions_notices: "set (pn_notices p) \<subseteq> set (pn_notices (snd (send_actions env t c ps acts p)))"
proof (induction acts arbitrary: p)
  case (Cons x acts)
  then show ?case using send_notices [of p env t c x "agents_owed ps x"] by (simp add: Let_def case_prod_beta) blast
qed simp

lemma reconcile_client_notices: "set (pn_notices p) \<subseteq> set (pn_notices (snd (reconcile_client env flt t snap i p)))"
  using send_actions_notices [of "p\<lparr>pn_svc := _\<rparr>"] by (auto simp: reconcile_client_def split: option.split prod.split)

lemma reconcile_each_notices: "set (pn_notices p) \<subseteq> set (pn_notices (snd (reconcile_each env flt t snap is p)))"
proof (induction "is" arbitrary: p)
  case (Cons i "is")
  then show ?case using reconcile_client_notices [of p env flt t snap i] by (simp add: Let_def case_prod_beta) blast
qed simp

subsection \<open>What a pass sends\<close>

text \<open>The queue would take a job for the client and the action, aimed at agents of the set.\<close>

definition ready_for ::
    "('q \<Rightarrow> create_job_input \<Rightarrow> bool) \<Rightarrow> 'q client_env \<Rightarrow> string set \<Rightarrow> action \<Rightarrow> string \<Rightarrow> gotime \<Rightarrow> 'q \<Rightarrow> bool" where
  "ready_for accepts env A op i t q \<longleftrightarrow> (\<forall>ts payload. set ts \<subseteq> A \<longrightarrow> accepts q (client_input env actorReconciler op i ts payload t))"

definition keyed :: "client_service \<Rightarrow> bool" where
  "keyed s \<longleftrightarrow> (\<forall>i c. cs_clients s i = Some c \<longrightarrow> cl_id c = i)"

definition same_mirror :: "client_service \<Rightarrow> client_service \<Rightarrow> bool" where
  "same_mirror s s' \<longleftrightarrow> cs_clients s' = cs_clients s \<and> cs_names s' = cs_names s \<and> cs_deployments s' = cs_deployments s"

lemma payload_same:
  assumes "same_mirror s s'"
  shows "client_payload_of env op c ts s' = client_payload_of env op c ts s"
proof -
  have owns: "owns_name e a i s' = owns_name e a i s" for e a i using assms by (simp add: same_mirror_def owns_name_def)
  have names: "cs_names s' = cs_names s" using assms by (simp add: same_mirror_def)
  have "nameOwnersByAgent order n e as s' = nameOwnersByAgent order n e as s" for order n e as
    unfolding nameOwnersByAgent_def owns names ..
  then show ?thesis by (simp add: client_payload_of_def)
qed

definition job_sent :: "'q client_env \<Rightarrow> gotime \<Rightarrow> action \<Rightarrow> client \<Rightarrow> string \<Rightarrow> client_service \<Rightarrow> 'q panel \<Rightarrow> bool" where
  "job_sent env t op c a s p \<longleftrightarrow> (\<exists>job ts. PublishJobCreated job \<in> set (pn_notices p) \<and> a \<in> set ts \<and> j_action job = op \<and>
     j_targetAgentIDs job = ts \<and> j_payload job = ce_marshal env (client_payload_of env op c ts s))"

lemma job_sent_mono: "job_sent env t op c a s p \<Longrightarrow> set (pn_notices p) \<subseteq> set (pn_notices p') \<Longrightarrow> job_sent env t op c a s p'"
  unfolding job_sent_def by blast

lemma enqueue_client_job:
  "EnqueueClientJob env actor op c ts t p =
     (case ce_enqueue env (client_input env actor op (cl_id c) ts (ce_marshal env (client_payload_of env op c ts (pn_svc p))) t) t (pn_jobs p) of
        (Inl _, q) \<Rightarrow> (Inl ErrClientEnqueue, p\<lparr>pn_jobs := q\<rparr>)
      | (Inr job, q) \<Rightarrow> (Inr job, notice (PublishJobCreated job) (notice (NotifyAgentSessions (j_targetAgentIDs job)) (p\<lparr>pn_jobs := q\<rparr>))))"
  by (simp add: EnqueueClientJob_def enqueueClientJobAndPublish_def client_input_def)

context job_queue
begin

lemma send_ok:
  assumes env: "ce_enqueue env = enqueue" and c: "cs_clients (pn_svc p) (cl_id c) = Some c"
    and ready: "ready_for accepts env A op (cl_id c) t (pn_jobs p)" and as: "set as \<subseteq> A" "a \<in> set as"
  shows "job_sent env t op c a (pn_svc p) (snd (reconcile_send env t c op as p))"
proof -
  let ?in = "client_input env actorReconciler op (cl_id c) as (ce_marshal env (client_payload_of env op c as (pn_svc p))) t"
  have "accepts (pn_jobs p) ?in" using ready as(1) by (simp add: ready_for_def)
  from accepted [OF this, of t] obtain j q where "enqueue ?in t (pn_jobs p) = (Inr j, q)" "answers j ?in" by blast
  with env c as(2) show ?thesis
    by (auto simp: reconcile_send_def svc_Get_def enqueue_client_job job_sent_def notice_def answers_def)
qed

lemma send_keeps_ready:
  assumes env: "ce_enqueue env = enqueue" and "keyed (pn_svc p)" and ops: "client_action x" "client_action op" "(x, cl_id c) \<noteq> (op, i)"
    and ready: "ready_for accepts env A op i t (pn_jobs p)"
  shows "ready_for accepts env A op i t (pn_jobs (snd (reconcile_send env t c x as p)))"
proof (cases "cs_clients (pn_svc p) (cl_id c)")
  case (Some fresh)
  then have "cl_id fresh = cl_id c" using assms(2) by (simp add: keyed_def)
  then have key: "client_job_key x (cl_id fresh) t \<noteq> client_job_key op i t" using ops by (auto simp: client_job_key_eq)
  let ?in = "client_input env actorReconciler x (cl_id fresh) as (ce_marshal env (client_payload_of env x fresh as (pn_svc p))) t"
  obtain r q where q: "enqueue ?in t (pn_jobs p) = (r, q)" by (cases "enqueue ?in t (pn_jobs p)")
  have "ready_for accepts env A op i t q"
    using ready kept [OF q] key by (simp add: ready_for_def)
  with ready env Some q show ?thesis
    by (auto simp: reconcile_send_def svc_Get_def enqueue_client_job notice_def split: sum.split)
qed (use ready in \<open>simp add: reconcile_send_def svc_Get_def\<close>)

lemma send_actions_keep_ready:
  assumes env: "ce_enqueue env = enqueue" and "keyed (pn_svc p)" and ops: "\<forall>x \<in> set acts. client_action x" "client_action op"
    and other: "op \<notin> set acts \<or> cl_id c \<noteq> i" and ready: "ready_for accepts env A op i t (pn_jobs p)"
  shows "ready_for accepts env A op i t (pn_jobs (snd (send_actions env t c ps acts p)))"
  using assms(2-)
proof (induction acts arbitrary: p)
  case (Cons x acts)
  have "ready_for accepts env A op i t (pn_jobs (snd (reconcile_send env t c x (agents_owed ps x) p)))"
    using Cons.prems by (intro send_keeps_ready [OF env]) auto
  moreover have "keyed (pn_svc (snd (reconcile_send env t c x (agents_owed ps x) p)))" using Cons.prems(1) send_keeps by metis
  moreover have "op \<notin> set acts \<or> cl_id c \<noteq> i" "\<forall>x \<in> set acts. client_action x" using Cons.prems by auto
  ultimately show ?case using Cons.IH Cons.prems(1,3,5) by (simp add: Let_def case_prod_beta)
qed simp

lemma send_actions_ok:
  assumes env: "ce_enqueue env = enqueue" and k: "keyed (pn_svc p)" and c: "cs_clients (pn_svc p) (cl_id c) = Some c"
    and ops: "\<forall>x \<in> set acts. client_action x" "distinct acts" "op \<in> set acts"
    and ready: "ready_for accepts env A op (cl_id c) t (pn_jobs p)"
    and owed: "set (agents_owed ps op) \<subseteq> A" "a \<in> set (agents_owed ps op)"
  shows "job_sent env t op c a (pn_svc p) (snd (send_actions env t c ps acts p))"
  using k c ops ready
proof (induction acts arbitrary: p)
  case (Cons x acts)
  let ?p = "snd (reconcile_send env t c x (agents_owed ps x) p)"
  have p: "pn_svc ?p = pn_svc p" using send_keeps by blast
  show ?case
  proof (cases "x = op")
    case True
    have "job_sent env t op c a (pn_svc p) ?p"
      using send_ok [OF env Cons.prems(2,6) owed] True by simp
    from job_sent_mono [OF this send_actions_notices] True owed(2) show ?thesis by (auto simp: Let_def case_prod_beta)
  next
    case False
    have rest: "\<forall>x \<in> set acts. client_action x" "distinct acts" "op \<in> set acts" using Cons.prems(3-5) False by auto
    have "ready_for accepts env A op (cl_id c) t (pn_jobs ?p)"
      using False Cons.prems by (intro send_keeps_ready [OF env]) auto
    from Cons.IH [OF _ _ rest this] Cons.IH [OF Cons.prems(1,2) rest Cons.prems(6)] Cons.prems(1,2) show ?thesis
      by (simp add: Let_def case_prod_beta p)
  qed
qed simp

lemma reconcile_client_other:
  assumes env: "ce_enqueue env = enqueue" and k: "keyed (pn_svc p)" "keyed snap" and ops: "\<forall>x \<in> set (ce_actions env). client_action x" "client_action op"
    and ij: "i \<noteq> j" "CHR ''|'' \<notin> set i" "CHR ''|'' \<notin> set j"
    and ready: "ready_for accepts env A op i t (pn_jobs p)" and p': "p' = snd (reconcile_client env [] t snap j p)"
  shows "same_mirror (pn_svc p) (pn_svc p') \<and> ready_for accepts env A op i t (pn_jobs p') \<and>
    cs_lastTry (pn_svc p') (reconcileKey i a) = cs_lastTry (pn_svc p) (reconcileKey i a)"
proof (cases "cs_deployments snap j = None \<or> cs_clients snap j = None")
  case True
  then have "p' = p" by (auto simp: p' reconcile_client_def split: option.split)
  with ready show ?thesis by (simp add: same_mirror_def)
next
  case False
  then obtain m c where mc: "cs_deployments snap j = Some m" "cs_clients snap j = Some c" by auto
  then have cj: "cl_id c = j" using k(2) by (simp add: keyed_def)
  obtain ps s1 where col: "collect_pending [] t j m (ce_agents env) (pn_svc p) = (ps, s1)"
    by (cases "collect_pending [] t j m (ce_agents env) (pn_svc p)")
  let ?p1 = "p\<lparr>pn_svc := s1\<rparr>"
  have eq: "p' = snd (send_actions env t c ps (ce_actions env) ?p1)" by (simp add: p' reconcile_client_def mc col)
  have m: "same_mirror (pn_svc p) s1" using collect_keeps [OF col] by (simp add: same_mirror_def)
  have k1: "keyed (pn_svc ?p1)" using k(1) m by (simp add: keyed_def same_mirror_def)
  have "ready_for accepts env A op i t (pn_jobs p')"
    unfolding eq using ops k1 cj ij(1) ready by (intro send_actions_keep_ready [OF env]) auto
  moreover have "pn_svc p' = s1" using send_actions_keep [of env t c ps "ce_actions env" ?p1] by (simp add: eq)
  moreover have "cs_lastTry s1 (reconcileKey i a) = cs_lastTry (pn_svc p) (reconcileKey i a)"
    using ij by (intro collect_lastTry [OF col]) (simp add: reconcileKey_eq)
  ultimately show ?thesis using m by simp
qed

lemma reconcile_client_ok:
  assumes env: "ce_enqueue env = enqueue" "distinct (ce_agents env)" "\<forall>x \<in> set (ce_actions env). client_action x" "distinct (ce_actions env)"
    and k: "keyed snap" "same_mirror snap (pn_svc p)"
    and c: "cs_clients snap i = Some c" and d: "inner (cs_deployments snap) i a = Some d" "divergentDeploymentAction d = Some op"
    and a: "a \<in> set (ce_agents env)" "op \<in> set (ce_actions env)" "may_retry (reconcileKey i a) t (pn_svc p)"
    and ready: "ready_for accepts env {b. inner (cs_deployments snap) i b \<noteq> None} op i t (pn_jobs p)"
  shows "job_sent env t op c a snap (snd (reconcile_client env [] t snap i p))"
proof -
  obtain m where m: "cs_deployments snap i = Some m" "inner (cs_deployments snap) i = m"
    using d(1) by (cases "cs_deployments snap i") (simp_all add: inner_def)
  obtain ps s1 where col: "collect_pending [] t i m (ce_agents env) (pn_svc p) = (ps, s1)"
    by (cases "collect_pending [] t i m (ce_agents env) (pn_svc p)")
  note owed = collect_pending_spec [OF env(2) col]
  have mir: "same_mirror snap s1" using collect_keeps [OF col] k(2) by (simp add: same_mirror_def)
  have ci: "cl_id c = i" using k(1) c by (simp add: keyed_def)
  have k1: "keyed s1" "cs_clients s1 (cl_id c) = Some c" using k(1) mir c ci by (simp_all add: keyed_def same_mirror_def)
  have "set (agents_owed ps op) \<subseteq> {b. inner (cs_deployments snap) i b \<noteq> None}" by (auto simp: agents_owed_iff owed m(2))
  moreover have "a \<in> set (agents_owed ps op)" using a d m(2) by (auto simp: agents_owed_iff owed)
  ultimately have "job_sent env t op c a s1 (snd (send_actions env t c ps (ce_actions env) (p\<lparr>pn_svc := s1\<rparr>)))"
    using send_actions_ok [OF env(1), of "p\<lparr>pn_svc := s1\<rparr>" c "ce_actions env" op] k1 env(3,4) a(2) ready ci by simp
  then show ?thesis unfolding job_sent_def payload_same [OF mir] by (simp add: reconcile_client_def m(1) c col)
qed

lemma reconcile_each_ok:
  assumes env: "ce_enqueue env = enqueue" "distinct (ce_agents env)" "\<forall>x \<in> set (ce_actions env). client_action x" "distinct (ce_actions env)"
    and k: "keyed snap" "same_mirror snap (pn_svc p)" and i: "i \<in> set is" "distinct is" "\<forall>j \<in> set is. CHR ''|'' \<notin> set j"
    and c: "cs_clients snap i = Some c" and d: "inner (cs_deployments snap) i a = Some d" "divergentDeploymentAction d = Some op"
    and a: "a \<in> set (ce_agents env)" "op \<in> set (ce_actions env)" "may_retry (reconcileKey i a) t (pn_svc p)"
    and ready: "ready_for accepts env {b. inner (cs_deployments snap) i b \<noteq> None} op i t (pn_jobs p)"
  shows "job_sent env t op c a snap (snd (reconcile_each env [] t snap is p))"
  using k(2) i a(3) ready
proof (induction "is" arbitrary: p)
  case (Cons j "is")
  let ?p = "snd (reconcile_client env [] t snap j p)"
  show ?case
  proof (cases "j = i")
    case True
    have "job_sent env t op c a snap ?p"
      using reconcile_client_ok [OF env k(1) Cons.prems(1) c d a(1,2) Cons.prems(5,6)] True by simp
    from job_sent_mono [OF this reconcile_each_notices] show ?thesis by (simp add: Let_def case_prod_beta)
  next
    case False
    have kp: "keyed (pn_svc p)" using k(1) Cons.prems(1) by (simp add: keyed_def same_mirror_def)
    have "i \<noteq> j" "CHR ''|'' \<notin> set i" "CHR ''|'' \<notin> set j" "client_action op" using Cons.prems(2-4) False a(2) env(3) by auto
    from reconcile_client_other [OF env(1) kp k(1) env(3) this(4,1-3) Cons.prems(6) refl, of a]
    have o: "same_mirror (pn_svc p) (pn_svc ?p)" "ready_for accepts env {b. inner (cs_deployments snap) i b \<noteq> None} op i t (pn_jobs ?p)"
      "cs_lastTry (pn_svc ?p) (reconcileKey i a) = cs_lastTry (pn_svc p) (reconcileKey i a)" by blast+
    have "same_mirror snap (pn_svc ?p)" using Cons.prems(1) o(1) by (simp add: same_mirror_def)
    moreover have "may_retry (reconcileKey i a) t (pn_svc ?p)" using Cons.prems(5) o(3) by (simp add: may_retry_def)
    ultimately show ?thesis using Cons.IH [OF _ _ _ _ _ o(2)] Cons.prems False by (simp add: Let_def case_prod_beta)
  qed
qed simp

text \<open>A job for the action that is aimed at a read-only agent is not sent to anyone.\<close>

lemma send_read_only:
  assumes env: "ce_enqueue env = enqueue" and b: "b \<in> set as" "ce_readOnly env b" "client_action op"
  shows "reconcile_send env t c op as p = (0, p)"
proof -
  have "aims_at_read_only (client_input env actorReconciler op i as payload t)" for i payload
    using b by (auto simp: aims_at_read_only_def client_action_def list_ex_iff)
  note aims = this
  have "EnqueueClientJob env actorReconciler op f as t p = (Inl ErrClientEnqueue, p)" for f
  proof -
    from read_only [OF aims, of "cl_id f" "ce_marshal env (client_payload_of env op f as (pn_svc p))" t "pn_jobs p"]
    obtain e where "enqueue (client_input env actorReconciler op (cl_id f) as (ce_marshal env (client_payload_of env op f as (pn_svc p))) t)
      t (pn_jobs p) = (Inl e, pn_jobs p)" by blast
    then show ?thesis by (simp add: enqueue_client_job env)
  qed
  then show ?thesis by (simp add: reconcile_send_def split: option.split)
qed

lemma send_new:
  assumes "ce_enqueue env = enqueue" "PublishJobCreated job \<in> set (pn_notices (snd (reconcile_send env t c x as p)))"
  shows "PublishJobCreated job \<in> set (pn_notices p) \<or> j_action job = x"
proof -
  have carried: "j_action j = in_action input" if "ce_enqueue env input t q = (Inr j, q')" for input q j q'
    using carries [OF that [unfolded assms(1)]] by (simp add: answers_def)
  show ?thesis
    using assms(2) by (auto simp: reconcile_send_def enqueue_client_job notice_def dest: carried split: option.splits if_splits prod.splits sum.splits)
qed

lemma send_actions_blocked:
  assumes env: "ce_enqueue env = enqueue" and op: "client_action op" and b: "b \<in> set (agents_owed ps op)" "ce_readOnly env b"
    and job: "PublishJobCreated job \<in> set (pn_notices (snd (send_actions env t c ps acts p)))" "j_action job = op"
  shows "PublishJobCreated job \<in> set (pn_notices p)"
  using job(1)
proof (induction acts arbitrary: p)
  case (Cons x acts)
  let ?p = "snd (reconcile_send env t c x (agents_owed ps x) p)"
  have "PublishJobCreated job \<in> set (pn_notices p)" if "PublishJobCreated job \<in> set (pn_notices ?p)"
  proof (cases "x = op")
    case True
    with that show ?thesis using send_read_only [OF env b op, of t c p] by simp
  next
    case False
    with send_new [OF env that] job(2) show ?thesis by simp
  qed
  with Cons show ?case by (auto simp: Let_def case_prod_beta split: if_splits)
qed simp

end

lemma collect_marks:
  assumes "distinct as" "collect_pending [] now i m as s = (ps, s')" "(op, a) \<in> set ps"
  shows "cs_lastTry s' (reconcileKey i a) = Some now"
  using assms
proof (induction as arbitrary: s ps)
  case (Cons b as)
  show ?case
  proof (cases "\<exists>d x. m b = Some d \<and> divergentDeploymentAction d = Some x \<and> may_retry (reconcileKey i b) now s")
    case False
    then have "collect_pending [] now i m as s = (ps, s')" using Cons.prems(2) by (auto simp: shouldRetry_cases split: option.splits)
    with Cons show ?thesis by simp
  next
    case True
    let ?s = "s\<lparr>cs_lastTry := (cs_lastTry s)(reconcileKey i b \<mapsto> now), cs_attempts := (cs_attempts s)(reconcileKey i b \<mapsto> map_get 0 (cs_attempts s) (reconcileKey i b) + 1)\<rparr>"
    from True Cons.prems(2) obtain qs x where qs: "collect_pending [] now i m as ?s = (qs, s')" "ps = (x, b) # qs"
      by (auto simp: shouldRetry_cases Let_def split: prod.splits)
    show ?thesis
    proof (cases "a = b")
      case True
      with Cons.prems(1) have "\<forall>c \<in> set as. reconcileKey i a \<noteq> reconcileKey i c" by (auto simp: reconcileKey_def)
      from collect_lastTry [OF qs(1) this] True show ?thesis by simp
    next
      case False
      with Cons.IH [OF _ qs(1)] Cons.prems(1,3) qs(2) show ?thesis by simp
    qed
  qed
qed simp

end
