(* ===== verification/Key_Encrypt.thy ===== *)
theory Key_Encrypt
  imports Secret_Vault Password_Hash
begin

section \<open>The key of the certificate authority at rest (server/keyencrypt.go, authority.go)\<close>

text \<open>
  The private key of the panel's certificate authority is sealed under a key derived straight
  from the operator's passphrase; it is not part of the envelope of the vault. X.509 and PEM
  are library functions: a parsed authority is what \<^verbatim>\<open>parse\<close> makes of the two texts of the
  row. The theory also has the command that changes the passphrase
  (cmd/control-plane/rotate_encryption_key.go) and the part of the boot that needs it.
\<close>

subsection \<open>Format\<close>

definition encryptedPEMPrefix :: string where "encryptedPEMPrefix = ''ENC:''"
definition encryptedPEMPrefixV2 :: string where "encryptedPEMPrefixV2 = ''ENC2:''"
definition encryptedPEMPrefixV3 :: string where "encryptedPEMPrefixV3 = ''ENC3:''"
definition argon2SaltLen :: nat where "argon2SaltLen = 16"
definition enc3HeaderLen :: nat where "enc3HeaderLen = 9"
definition maxKeyIter :: nat where "maxKeyIter = 16"
definition maxKeyMemKiB :: nat where "maxKeyMemKiB = 512 * 1024"
definition maxKeyPar :: nat where "maxKeyPar = 8"

text \<open>\<^verbatim>\<open>binary.BigEndian.PutUint32\<close> and \<^verbatim>\<open>Uint32\<close>.\<close>

definition be32 :: "nat \<Rightarrow> string" where
  "be32 n = map (\<lambda>k. char_of (n div 256 ^ k)) [3, 2, 1, 0]"

definition read_be :: "string \<Rightarrow> nat" where
  "read_be s = foldl (\<lambda>acc c. acc * 256 + of_char c) 0 s"

datatype key_error =
    ErrBase64
  | ErrShortSalt
  | ErrParamsRange
  | ErrShortCiphertext
  | ErrDecryption
  | ErrLegacyV1
  | ErrStoredPlaintext
  | ErrKeyCipher
  | ErrPlaintextCAPersistDenied
  | ErrParseAuthority
  | ErrAuthorityExpired

definition deriveKeyV2 :: "crypto_lib \<Rightarrow> string \<Rightarrow> string \<Rightarrow> string" where
  "deriveKeyV2 lib passphrase salt = cy_IDKey lib passphrase salt 4 (96 * 1024) 2 32"

definition deriveKeyV3 :: "crypto_lib \<Rightarrow> string \<Rightarrow> string \<Rightarrow> nat \<Rightarrow> nat \<Rightarrow> nat \<Rightarrow> string" where
  "deriveKeyV3 lib passphrase salt iter mem par = cy_IDKey lib passphrase salt iter mem par 32"

definition encryptPEM :: "crypto_lib \<Rightarrow> kdf_profile \<Rightarrow> string \<Rightarrow> string \<Rightarrow> string \<Rightarrow> string \<Rightarrow> key_error + string" where
  "encryptPEM lib p salt nonce plainPEM passphrase =
     (let key = deriveKeyV3 lib passphrase salt (kp_Time p) (kp_MemoryKiB p) (kp_Threads p)
      in if \<not> newGCM key then Inl ErrKeyCipher
         else Inr (encryptedPEMPrefixV3 @ cy_encodeStd lib
                (be32 (kp_Time p) @ be32 (kp_MemoryKiB p) @ [char_of (kp_Threads p)] @ salt @ nonce @ cy_Seal lib key nonce plainPEM [])))"

definition openPEMEnvelope :: "crypto_lib \<Rightarrow> string \<Rightarrow> string \<Rightarrow> key_error + string" where
  "openPEMEnvelope lib key remainder =
     (if \<not> newGCM key then Inl ErrKeyCipher
      else if length remainder < gcm_NonceSize then Inl ErrShortCiphertext
      else case cy_Open lib key (take gcm_NonceSize remainder) (drop gcm_NonceSize remainder) [] of
          None \<Rightarrow> Inl ErrDecryption | Some x \<Rightarrow> Inr x)"

definition decryptPEMv3 :: "crypto_lib \<Rightarrow> string \<Rightarrow> string \<Rightarrow> key_error + string" where
  "decryptPEMv3 lib stored passphrase =
     (case cy_decodeStd lib (drop 5 stored) of None \<Rightarrow> Inl ErrBase64
      | Some d \<Rightarrow>
          if length d < enc3HeaderLen + argon2SaltLen then Inl ErrShortSalt
          else let iter = read_be (take 4 d); mem = read_be (take 4 (drop 4 d)); par = of_char (d ! 8)
               in if iter = 0 \<or> iter > maxKeyIter \<or> mem = 0 \<or> mem > maxKeyMemKiB \<or> par = 0 \<or> par > maxKeyPar
                  then Inl ErrParamsRange
                  else openPEMEnvelope lib (deriveKeyV3 lib passphrase (take argon2SaltLen (drop enc3HeaderLen d)) iter mem par)
                         (drop (enc3HeaderLen + argon2SaltLen) d))"

definition decryptPEMv2 :: "crypto_lib \<Rightarrow> string \<Rightarrow> string \<Rightarrow> key_error + string" where
  "decryptPEMv2 lib stored passphrase =
     (case cy_decodeStd lib (drop 5 stored) of None \<Rightarrow> Inl ErrBase64
      | Some d \<Rightarrow>
          if length d < argon2SaltLen then Inl ErrShortSalt
          else openPEMEnvelope lib (deriveKeyV2 lib passphrase (take argon2SaltLen d)) (drop argon2SaltLen d))"

definition decryptPEM :: "crypto_lib \<Rightarrow> string \<Rightarrow> string \<Rightarrow> key_error + string" where
  "decryptPEM lib stored passphrase =
     (if HasPrefix stored encryptedPEMPrefixV3 then decryptPEMv3 lib stored passphrase
      else if HasPrefix stored encryptedPEMPrefixV2 then decryptPEMv2 lib stored passphrase
      else if HasPrefix stored encryptedPEMPrefix then Inl ErrLegacyV1
      else if passphrase \<noteq> [] then Inl ErrStoredPlaintext
      else Inr stored)"

definition isEncryptedPEM :: "string \<Rightarrow> bool" where
  "isEncryptedPEM stored \<longleftrightarrow> HasPrefix stored encryptedPEMPrefix \<or> HasPrefix stored encryptedPEMPrefixV2 \<or> HasPrefix stored encryptedPEMPrefixV3"

definition needsReEncryption :: "string \<Rightarrow> bool" where
  "needsReEncryption stored \<longleftrightarrow> \<not> HasPrefix stored encryptedPEMPrefixV2 \<and> \<not> HasPrefix stored encryptedPEMPrefixV3"

subsection \<open>The authority\<close>

record authority =
  at_caPEM :: string
  at_keyPEM :: string
  at_notAfter :: gotime

record ca_record =
  cr_caPEM :: string
  cr_privateKeyPEM :: string
  cr_updatedAt :: gotime

record ca_env =
  cv_lib :: crypto_lib
  cv_profile :: kdf_profile
  cv_salt :: string
  cv_nonce :: string
  cv_parse :: "string \<Rightarrow> string \<Rightarrow> authority option"
  cv_plaintextAllowed :: bool

definition authority_record :: "ca_env \<Rightarrow> authority \<Rightarrow> gotime \<Rightarrow> string \<Rightarrow> key_error + ca_record" where
  "authority_record ev a now encryptionKey =
     (if encryptionKey \<noteq> [] then
        (case encryptPEM (cv_lib ev) (cv_profile ev) (cv_salt ev) (cv_nonce ev) (at_keyPEM a) encryptionKey of Inl e \<Rightarrow> Inl e
         | Inr enc \<Rightarrow> Inr \<lparr>cr_caPEM = at_caPEM a, cr_privateKeyPEM = enc, cr_updatedAt = now\<rparr>)
      else if \<not> cv_plaintextAllowed ev then Inl ErrPlaintextCAPersistDenied
      else Inr \<lparr>cr_caPEM = at_caPEM a, cr_privateKeyPEM = at_keyPEM a, cr_updatedAt = now\<rparr>)"

definition reEncryptCertificateAuthority :: "ca_env \<Rightarrow> authority \<Rightarrow> gotime \<Rightarrow> string \<Rightarrow> ca_record \<Rightarrow> ca_record" where
  "reEncryptCertificateAuthority ev a now encryptionKey row =
     (case authority_record ev a now encryptionKey of Inl _ \<Rightarrow> row | Inr r \<Rightarrow> r)"

definition loadExistingCertificateAuthority ::
    "ca_env \<Rightarrow> ca_record \<Rightarrow> gotime \<Rightarrow> string \<Rightarrow> key_error + authority \<times> ca_record" where
  "loadExistingCertificateAuthority ev row now encryptionKey =
     (let stored = cr_privateKeyPEM row
      in if isEncryptedPEM stored \<and> needsReEncryption stored then Inl ErrLegacyV1
         else case (if encryptionKey \<noteq> [] then decryptPEM (cv_lib ev) stored encryptionKey else Inr stored) of Inl e \<Rightarrow> Inl e
           | Inr keyPEM \<Rightarrow>
               (case cv_parse ev (cr_caPEM row) keyPEM of None \<Rightarrow> Inl ErrParseAuthority
                | Some a \<Rightarrow>
                    if time_sub (at_notAfter a) now \<le> 0 then Inl ErrAuthorityExpired
                    else Inr (a, if encryptionKey \<noteq> [] \<and> needsReEncryption stored
                                 then reEncryptCertificateAuthority ev a now encryptionKey row else row)))"

text \<open>The freshly generated authority is an argument.\<close>

definition persistNewCertificateAuthority :: "ca_env \<Rightarrow> authority \<Rightarrow> gotime \<Rightarrow> string \<Rightarrow> key_error + authority \<times> ca_record" where
  "persistNewCertificateAuthority ev fresh now encryptionKey =
     (case authority_record ev fresh now encryptionKey of Inl e \<Rightarrow> Inl e | Inr row \<Rightarrow> Inr (fresh, row))"

definition loadOrCreateCertificateAuthority ::
    "ca_env \<Rightarrow> authority \<Rightarrow> gotime \<Rightarrow> string \<Rightarrow> ca_record option \<Rightarrow> key_error + authority \<times> ca_record" where
  "loadOrCreateCertificateAuthority ev fresh now encryptionKey row =
     (case row of Some r \<Rightarrow> loadExistingCertificateAuthority ev r now encryptionKey
      | None \<Rightarrow> persistNewCertificateAuthority ev fresh now encryptionKey)"

subsection \<open>Boot and change of passphrase\<close>

record panel_secrets =
  ps_cp :: cp_secrets
  ps_ca :: "ca_record option"
  ps_columns :: "string list"

datatype boot_error = VaultError vault_error | AuthorityError key_error

text \<open>The secrets part of the boot (server/lifecycle.go): the vault, then the authority.\<close>

definition boot_secrets ::
    "ca_env \<Rightarrow> (string \<Rightarrow> string \<times> string) \<Rightarrow> authority \<Rightarrow> string \<Rightarrow> gotime \<Rightarrow> string \<Rightarrow> panel_secrets \<Rightarrow>
     boot_error + (vault \<times> authority \<times> panel_secrets)" where
  "boot_secrets ev draws fresh salt now key st =
     (case NewWithEnvelope (cv_lib ev) draws key AllDomains salt (ps_cp st) of Inl e \<Rightarrow> Inl (VaultError e)
      | Inr (v, cp) \<Rightarrow>
          (case loadOrCreateCertificateAuthority ev fresh now key (ps_ca st) of Inl e \<Rightarrow> Inl (AuthorityError e)
           | Inr (a, row) \<Rightarrow> Inr (v, a, st\<lparr>ps_cp := cp, ps_ca := Some row\<rparr>)))"

datatype rotate_error =
    RotateEmptyCurrent
  | RotateVault vault_error
  | RotatePassThrough
  | RotateLegacyPresent nat
  | RotateEmptyNew
  | RotateSameNew
  | RotateUnconfirmed

text \<open>The columns are the stored secrets of clients, users and webhook endpoints.\<close>

definition countLegacyCiphertexts :: "string list \<Rightarrow> nat" where
  "countLegacyCiphertexts columns = length (filter (\<lambda>x. HasPrefix x Prefix2) columns)"

definition runRotateEncryptionKey ::
    "crypto_lib \<Rightarrow> (string \<Rightarrow> string \<times> string) \<Rightarrow> (string \<Rightarrow> string) \<Rightarrow> (vault \<Rightarrow> string list) \<Rightarrow> string \<Rightarrow> bool \<Rightarrow>
     string \<Rightarrow> string \<Rightarrow> string \<Rightarrow> panel_secrets \<Rightarrow> (rotate_error + nat) \<times> panel_secrets" where
  "runRotateEncryptionKey lib draws nonces order salt allowLegacy currentPass newPass confirmPass st =
     (if TrimSpace currentPass = [] then (Inl RotateEmptyCurrent, st)
      else case NewWithEnvelope lib draws currentPass AllDomains salt (ps_cp st) of Inl e \<Rightarrow> (Inl (RotateVault e), st)
      | Inr (v, cp) \<Rightarrow>
          let st1 = st\<lparr>ps_cp := cp\<rparr>
          in if vt_envelope v = None then (Inl RotatePassThrough, st1)
             else if \<not> allowLegacy \<and> countLegacyCiphertexts (ps_columns st1) > 0
               then (Inl (RotateLegacyPresent (countLegacyCiphertexts (ps_columns st1))), st1)
             else if TrimSpace newPass = [] then (Inl RotateEmptyNew, st1)
             else if newPass = currentPass then (Inl RotateSameNew, st1)
             else if confirmPass \<noteq> newPass then (Inl RotateUnconfirmed, st1)
             else case RotateKEK lib nonces (order v) v newPass cp of
                 Inl e \<Rightarrow> (Inl (RotateVault e), st1)
               | Inr (n, _, cp2) \<Rightarrow> (Inr n, st1\<lparr>ps_cp := cp2\<rparr>))"

subsection \<open>The key file format\<close>

lemma four_digits:
  fixes n :: nat
  assumes "m0 + 256 * a = n" "m1 + 256 * b = a" "m2 + 256 * c = b" "m3 = c"
  shows "((m3 * 256 + m2) * 256 + m1) * 256 + m0 = n"
  using assms by simp

lemma read_be32: "n < 2 ^ 32 \<Longrightarrow> read_be (be32 n) = n"
proof -
  assume n: "n < 2 ^ 32"
  then have top: "n div 256 div 256 div 256 < 256" by (simp add: div_mult2_eq [symmetric] less_mult_imp_div_less)
  have "((n div 256 div 256 div 256 * 256 + n div 256 div 256 mod 256) * 256 + n div 256 mod 256) * 256 + n mod 256 = n"
    by (intro four_digits [where a = "n div 256" and b = "n div 256 div 256" and c = "n div 256 div 256 div 256"]) simp_all
  then show ?thesis using top by (simp add: read_be_def be32_def of_char_of div_mult2_eq [symmetric])
qed

definition profile_ok :: "kdf_profile \<Rightarrow> bool" where
  "profile_ok p \<longleftrightarrow> 0 < kp_Time p \<and> kp_Time p \<le> maxKeyIter \<and> 0 < kp_MemoryKiB p \<and> kp_MemoryKiB p \<le> maxKeyMemKiB \<and>
     0 < kp_Threads p \<and> kp_Threads p \<le> maxKeyPar"

lemma key_profiles_ok: "profile_ok Default_profile" "profile_ok LowMemory_profile"
  by (simp_all add: profile_ok_def Default_profile_def LowMemory_profile_def maxKeyIter_def maxKeyMemKiB_def maxKeyPar_def)

text \<open>Opening a sealed key file: the parameters come from the file, whatever the profile is now.\<close>

lemma decryptPEM_sealed:
  assumes lib: "crypto_ok lib" and p: "profile_ok p" and len: "length salt = argon2SaltLen" "length nonce = gcm_NonceSize"
    and enc: "encryptPEM lib p salt nonce plain pass = Inr stored"
  shows "decryptPEM lib stored q =
    (case cy_Open lib (deriveKeyV3 lib q salt (kp_Time p) (kp_MemoryKiB p) (kp_Threads p)) nonce
       (cy_Seal lib (deriveKeyV3 lib pass salt (kp_Time p) (kp_MemoryKiB p) (kp_Threads p)) nonce plain []) [] of
       None \<Rightarrow> Inl ErrDecryption | Some x \<Rightarrow> Inr x)"
proof -
  let ?key = "\<lambda>x. deriveKeyV3 lib x salt (kp_Time p) (kp_MemoryKiB p) (kp_Threads p)"
  let ?tail = "salt @ nonce @ cy_Seal lib (?key pass) nonce plain []"
  let ?blob = "be32 (kp_Time p) @ be32 (kp_MemoryKiB p) @ [char_of (kp_Threads p)] @ ?tail"
  have key: "newGCM (?key x)" for x using lib by (simp add: deriveKeyV3_def newGCM_def crypto_laws)
  have stored: "stored = encryptedPEMPrefixV3 @ cy_encodeStd lib ?blob"
    using enc key by (simp add: encryptPEM_def Let_def)
  have b4: "length (be32 n) = 4" for n by (simp add: be32_def)
  have parts: "take 4 ?blob = be32 (kp_Time p)" "take 4 (drop 4 ?blob) = be32 (kp_MemoryKiB p)"
    "?blob ! 8 = char_of (kp_Threads p)" "drop 9 ?blob = ?tail" "drop (9 + 16) ?blob = nonce @ cy_Seal lib (?key pass) nonce plain []"
    using b4 len by (simp_all add: nth_append argon2SaltLen_def)
  have small: "kp_Time p < 2 ^ 32" "kp_MemoryKiB p < 2 ^ 32" "kp_Threads p < 256"
    using p by (simp_all add: profile_ok_def maxKeyIter_def maxKeyMemKiB_def maxKeyPar_def)
  have fields: "read_be (take 4 ?blob) = kp_Time p" "read_be (take 4 (drop 4 ?blob)) = kp_MemoryKiB p"
    "of_char (?blob ! 8) = kp_Threads p"
    unfolding parts using small by (simp_all add: read_be32 of_char_of)
  have dec: "cy_decodeStd lib (drop 5 stored) = Some ?blob"
    using lib by (simp add: stored encryptedPEMPrefixV3_def crypto_laws)
  have range: "\<not> (kp_Time p = 0 \<or> kp_Time p > maxKeyIter \<or> kp_MemoryKiB p = 0 \<or> kp_MemoryKiB p > maxKeyMemKiB \<or>
      kp_Threads p = 0 \<or> kp_Threads p > maxKeyPar)" using p by (auto simp: profile_ok_def)
  have "\<not> length ?blob < enc3HeaderLen + argon2SaltLen" using b4 len by (simp add: enc3HeaderLen_def)
  with dec have "decryptPEMv3 lib stored q = openPEMEnvelope lib (?key q) (nonce @ cy_Seal lib (?key pass) nonce plain [])"
    using range parts(4,5) len
    unfolding decryptPEMv3_def Let_def fields [simplified] enc3HeaderLen_def argon2SaltLen_def
    by (simp add: fields [simplified] del: append_assoc)
  moreover have "HasPrefix stored encryptedPEMPrefixV3" by (simp add: stored)
  ultimately show ?thesis using key len by (simp add: decryptPEM_def openPEMEnvelope_def)
qed

end
