(* ===== verification/Vault_Properties.thy ===== *)
theory Vault_Properties
  imports Key_Encrypt
begin

section \<open>Changing the passphrase\<close>

text \<open>
  What a change of the passphrase keeps and what it loses: the sealed columns stay readable,
  the key of the certificate authority does not. The instance at the end is a toy cipher with
  the laws the theorems ask of the library.
\<close>

subsection \<open>The change\<close>

lemma rotate_matches:
  assumes lib: "crypto_ok lib" "nonces_ok nonces" and D: "domain_ok D" and m: "env_matches lib kek (set D) env store"
    and v: "vt_enabled v" "vt_envelope v = Some env" "vt_kek v \<noteq> deriveKEK lib p'" and p': "TrimSpace p' \<noteq> []"
    and order: "range_order (ev_deks env) order"
  shows "\<exists>n store2. RotateKEK lib nonces order v p' store = Inr (n, v\<lparr>vt_kek := deriveKEK lib p'\<rparr>, store2) \<and>
    env_matches lib (deriveKEK lib p') (set D) env store2 \<and>
    GetCPSecret cpSecretKEKFingerprint store2 = cy_sha256 lib (deriveKEK lib p')"
proof -
  let ?pairs = "List.map_filter (\<lambda>k. map_option (Pair k) (ev_deks env k)) order"
  from rewrap_spec [OF lib D cache_entries_of [OF D m order], of p'] obtain rows where
    rows: "rewrap_rows lib nonces (deriveKEK lib p') ?pairs = Inr rows" "rewrapped lib (deriveKEK lib p') D ?pairs rows"
    by (elim exE conjE)
  let ?store = "PutCPSecret cpSecretKEKFingerprint (cy_sha256 lib (deriveKEK lib p')) (put_rows rows store)"
  have "RotateKEK lib nonces order v p' store = Inr (length rows, v\<lparr>vt_kek := deriveKEK lib p'\<rparr>, ?store)"
    using v p' rows(1) by (auto simp: RotateKEK_def Let_def put_rows_def)
  moreover have "env_matches lib (deriveKEK lib p') (set D) env ?store"
    using D m visited_pairs(1) [OF order] rows(2) by (rule rotated_matches)
  moreover have "GetCPSecret cpSecretKEKFingerprint ?store = cy_sha256 lib (deriveKEK lib p')" by simp
  ultimately show ?thesis by blast
qed

text \<open>The command on a panel that has booted: it succeeds and leaves the data keys under the new passphrase.\<close>

lemma command_matches:
  assumes lib: "crypto_ok lib" "draws_ok draws" "draws_ok draws'" "nonces_ok nonces"
    and boot: "NewWithEnvelope lib draws p AllDomains salt store = Inr (v, cp)" "vt_enabled v" "vt_envelope v = Some env"
    and p': "TrimSpace p' \<noteq> []" "deriveKEK lib p' \<noteq> deriveKEK lib p"
    and st: "ps_cp st = cp" "countLegacyCiphertexts (ps_columns st) = 0"
    and order: "\<forall>v'. vt_envelope v' = Some env \<longrightarrow> range_order (ev_deks env) (order v')"
  shows "\<exists>n cp2. runRotateEncryptionKey lib draws' nonces order salt allow p p' p' st = (Inr n, st\<lparr>ps_cp := cp2\<rparr>) \<and>
    env_matches lib (deriveKEK lib p') (set AllDomains) env cp2 \<and>
    GetCPSecret cpSecretKEKFingerprint cp2 = cy_sha256 lib (deriveKEK lib p')"
proof -
  from boot_matches [OF lib(1,2) AllDomains_ok boot(1,2)] boot(3)
  have m: "TrimSpace p \<noteq> []" "salt \<noteq> []" "env_matches lib (deriveKEK lib p) (set AllDomains) env cp"
    "GetCPSecret cpSecretKEKFingerprint cp = cy_sha256 lib (deriveKEK lib p)"
    "\<exists>keys. domain_keys lib (deriveKEK lib p) salt AllDomains Map.empty = Inr keys"
    by (metis option.inject)+
  from reboot [OF lib(1,3) AllDomains_ok m(1,2,5,3,4)] obtain v' where
    v': "NewWithEnvelope lib draws' p AllDomains salt cp = Inr (v', cp)" "vt_envelope v' = Some env" "vt_enabled v'"
    by blast
  from boot_matches [OF lib(1,3) AllDomains_ok v'(1,3)] have kek: "vt_kek v' = deriveKEK lib p" by blast
  then have ne: "vt_kek v' \<noteq> deriveKEK lib p'" using p'(2) by simp
  from rotate_matches [OF lib(1,4) AllDomains_ok m(3) v'(3,2) ne p'(1) order [rule_format, OF v'(2)]] obtain n cp2 where
    r: "RotateKEK lib nonces (order v') v' p' cp = Inr (n, v'\<lparr>vt_kek := deriveKEK lib p'\<rparr>, cp2)"
      "env_matches lib (deriveKEK lib p') (set AllDomains) env cp2"
      "GetCPSecret cpSecretKEKFingerprint cp2 = cy_sha256 lib (deriveKEK lib p')"
    by (elim exE conjE)
  have "p' \<noteq> p" using p'(2) by auto
  then have "runRotateEncryptionKey lib draws' nonces order salt allow p p' p' st = (Inr n, st\<lparr>ps_cp := cp2\<rparr>)"
    using v' r(1) st p'(1) m(1) by (simp add: runRotateEncryptionKey_def Let_def)
  with r(2,3) show ?thesis by blast
qed

subsection \<open>A fresh installation boots\<close>

lemma fresh_loads:
  assumes lib: "crypto_ok lib" and D: "domain_ok D" "set ds \<subseteq> set D" "distinct ds"
    and empty: "\<forall>d \<in> set ds. GetCPSecret (activeKey d) store = []"
  shows "\<exists>env' store'. loadOrInitDEKs lib draws (deriveKEK lib p) ds (env, store) = Inr (env', store') \<and>
    ev_activeVersion env' = fold (\<lambda>d m. m(d \<mapsto> 1)) ds (ev_activeVersion env) \<and>
    ev_deks env' = fold (\<lambda>d m. m(dekCacheKey d 1 \<mapsto> fst (draws d))) ds (ev_deks env)"
  using D(2,3) empty
proof (induction ds arbitrary: env store)
  case (Cons d ds)
  let ?dek = "fst (draws d)" and ?nonce = "snd (draws d)"
  let ?env = "env\<lparr>ev_activeVersion := (ev_activeVersion env)(d \<mapsto> 1), ev_deks := (ev_deks env)(dekCacheKey d 1 \<mapsto> ?dek)\<rparr>"
  let ?w = "?nonce @ cy_Seal lib (deriveKEK lib p) ?nonce ?dek (wrapAAD d 1)"
  let ?store = "PutCPSecret (activeKey d) (Itoa 1) (PutCPSecret (wrappedKey d 1) ?w store)"
  have mint: "mintFirstDEK lib (draws d) (deriveKEK lib p) d (env, store) = Inr (?env, ?store)"
    using lib by (simp add: mintFirstDEK_def wrapDEK_def dekVersion_def crypto_laws split: prod.split)
  note sep = keys_separate [OF D(1)]
  have d: "d \<in> set D" using Cons.prems(1) by simp
  have rest: "\<forall>e \<in> set ds. GetCPSecret (activeKey e) ?store = []"
  proof
    fix e assume that: "e \<in> set ds"
    have e: "e \<in> set D" "e \<noteq> d" using that Cons.prems(1,2) by auto
    with Cons.prems(3) that sep(2) [OF e(1) d] sep(4) [OF d e(1)] show "GetCPSecret (activeKey e) ?store = []" by simp
  qed
  have ds: "set ds \<subseteq> set D" "distinct ds" using Cons.prems by auto
  from Cons.IH [OF ds rest, of ?env] mint Cons.prems(3) show ?case
    by (simp add: readActiveVersion_def)
qed simp

lemma domain_keys_succeeds:
  assumes "distinct D" "\<forall>d \<in> set D. TrimSpace d \<noteq> [] \<and> keys d = None"
  shows "\<exists>out. domain_keys lib m salt D keys = Inr out"
  using assms
proof (induction D arbitrary: keys)
  case (Cons d D)
  have "\<forall>e \<in> set D. TrimSpace e \<noteq> [] \<and> (keys(d \<mapsto> deriveDomainKey lib m salt d)) e = None" using Cons.prems by auto
  from Cons.IH [OF _ this] Cons.prems show ?case by (simp only: domain_keys.simps distinct.simps list.set ball_simps if_False simp_thms)
qed simp

lemma fresh_boot:
  assumes lib: "crypto_ok lib" and p: "TrimSpace p \<noteq> []" "salt \<noteq> []"
  shows "\<exists>v cp env. NewWithEnvelope lib draws p AllDomains salt Map.empty = Inr (v, cp) \<and> vt_enabled v \<and> vt_envelope v = Some env \<and>
    ev_activeVersion env = fold (\<lambda>d m. m(d \<mapsto> 1)) AllDomains Map.empty \<and>
    ev_deks env = fold (\<lambda>d m. m(dekCacheKey d 1 \<mapsto> fst (draws d))) AllDomains Map.empty"
proof -
  let ?fp = "PutCPSecret cpSecretKEKFingerprint (cy_sha256 lib (deriveKEK lib p)) Map.empty"
  have fp: "verifyOrStoreKEKFingerprint lib (deriveKEK lib p) Map.empty = Inr ?fp"
    by (simp add: verifyOrStoreKEKFingerprint_def GetCPSecret_def)
  have "GetCPSecret (activeKey d) ?fp = []" if "d \<in> set AllDomains" for d
    using keys_separate(6) [OF AllDomains_ok that that] by (simp add: GetCPSecret_def PutCPSecret_def map_get_def)
  from fresh_loads [OF lib AllDomains_ok subset_refl, of ?fp draws p empty_envelope] this AllDomains_ok
  obtain env cp where load: "loadOrInitDEKs lib draws (deriveKEK lib p) AllDomains (empty_envelope, ?fp) = Inr (env, cp)"
      "ev_activeVersion env = fold (\<lambda>d m. m(d \<mapsto> 1)) AllDomains Map.empty"
      "ev_deks env = fold (\<lambda>d m. m(dekCacheKey d 1 \<mapsto> fst (draws d))) AllDomains Map.empty"
    by (auto simp: domain_ok_def empty_envelope_def)
  have solid: "TrimSpace d = d" if "d \<in> set AllDomains" for d
    using that by (intro TrimSpace_solid)
      (auto simp: AllDomains_def DomainClientSecret_def DomainTOTP_def DomainWebhookSecret_def DomainIntegrationConfig_def solid_def)
  have "\<exists>keys. domain_keys lib (deriveKEK lib p) salt AllDomains Map.empty = Inr keys"
    using solid AllDomains_ok by (intro domain_keys_succeeds) (auto simp: domain_ok_def list_all_iff)
  with load fp p show ?thesis by (auto simp: NewWithEnvelope_def NewWithSalt_def)
qed

subsection \<open>An instance of the library\<close>

definition toy_lib :: crypto_lib where
  "toy_lib = \<lparr>cy_IDKey = (\<lambda>p s t m q n. take n (p @ replicate n CHR ''.'')),
     cy_hkdf = (\<lambda>k s d n. take n (d @ replicate n CHR ''.'')), cy_sha256 = (\<lambda>b. CHR ''#'' # b),
     cy_Seal = (\<lambda>k n x aad. k @ aad @ x),
     cy_Open = (\<lambda>k n ct aad. if take (length (k @ aad)) ct = k @ aad then Some (drop (length (k @ aad)) ct) else None),
     cy_encode = (\<lambda>b. b), cy_decode = Some, cy_encodeStd = (\<lambda>b. b), cy_decodeStd = Some\<rparr>"

definition toy_nonce :: string where "toy_nonce = replicate 12 CHR ''n''"

definition toy_draws :: "string \<Rightarrow> string \<times> string" where
  "toy_draws d = (replicate 32 CHR ''k'', toy_nonce)"

definition toy_order :: "vault \<Rightarrow> string list" where
  "toy_order v = map (\<lambda>d. dekCacheKey d 1) AllDomains"

lemma toy_ok: "crypto_ok toy_lib" "draws_ok toy_draws" "nonces_ok (\<lambda>_. toy_nonce)" "length toy_nonce = gcm_NonceSize"
  by (simp_all add: crypto_ok_def toy_lib_def draws_ok_def toy_draws_def nonces_ok_def toy_nonce_def keyLen_def gcm_NonceSize_def min_def)

lemma toy_pass: "TrimSpace ''old'' = ''old''" "TrimSpace ''new'' = ''new''"
  by (rule TrimSpace_solid, simp add: solid_def)+

lemma toy_kek: "deriveKEK toy_lib ''old'' = ''old'' @ replicate 29 CHR ''.''" "deriveKEK toy_lib ''new'' = ''new'' @ replicate 29 CHR ''.''"
  by (simp_all add: deriveKEK_def toy_lib_def keyLen_def)

text \<open>A first boot with the instance, with what it caches.\<close>

lemma toy_boot:
  obtains v cp env where "NewWithEnvelope toy_lib toy_draws ''old'' AllDomains ''salt'' Map.empty = Inr (v, cp)"
    "vt_enabled v" "vt_envelope v = Some env" "versions_fit env" "\<forall>v'. vt_envelope v' = Some env \<longrightarrow> range_order (ev_deks env) (toy_order v')"
    "activeDEK v DomainTOTP = Some (1, replicate 32 CHR ''k'')"
proof -
  from fresh_boot [OF toy_ok(1), of "''old''" "''salt''" toy_draws] toy_pass(1) obtain v cp env where
    b: "NewWithEnvelope toy_lib toy_draws ''old'' AllDomains ''salt'' Map.empty = Inr (v, cp)" "vt_enabled v" "vt_envelope v = Some env"
      "ev_activeVersion env = fold (\<lambda>d m. m(d \<mapsto> 1)) AllDomains Map.empty"
      "ev_deks env = fold (\<lambda>d m. m(dekCacheKey d 1 \<mapsto> fst (toy_draws d))) AllDomains Map.empty" by auto
  have "versions_fit env" by (auto simp: versions_fit_def b(4) AllDomains_def split: if_splits)
  moreover have "range_order (ev_deks env) (toy_order v')" for v'
    using AllDomains_ok keys_separate(7) [OF AllDomains_ok]
    by (intro range_orderI) (auto simp: b(5) toy_order_def AllDomains_def domain_ok_def distinct_map inj_on_def split: if_splits)
  moreover have "activeDEK v DomainTOTP = Some (1, replicate 32 CHR ''k'')"
    by (simp add: activeDEK_def b(3,4,5) AllDomains_def DomainClientSecret_def DomainTOTP_def DomainWebhookSecret_def
        DomainIntegrationConfig_def dekCacheKey_def toy_draws_def)
  ultimately show thesis using that b(1-3) by blast
qed



subsection \<open>The key of the authority is left behind\<close>

lemma TrimSpace_nonempty: "TrimSpace p \<noteq> [] \<Longrightarrow> p \<noteq> []"
  using TrimSpace_solid [of "[]"] by auto

lemma old_passphrase_refused:
  assumes "crypto_ok lib" "TrimSpace p \<noteq> []" "salt \<noteq> []"
    "\<exists>keys. domain_keys lib (deriveKEK lib p) salt D Map.empty = Inr keys"
    "GetCPSecret cpSecretKEKFingerprint store = cy_sha256 lib k" "cy_sha256 lib k \<noteq> cy_sha256 lib (deriveKEK lib p)"
  shows "NewWithEnvelope lib draws p D salt store = Inl ErrEnvelopeWrongKEK"
  using assms by (auto simp: NewWithEnvelope_def NewWithSalt_def verifyOrStoreKEKFingerprint_def Let_def crypto_laws)

text \<open>
  C40: After the documented change of the passphrase the panel does not start any more. The
  command re-wraps the data keys only; the private key of the certificate authority stays
  sealed under the old passphrase. With the new passphrase the boot fails to open the
  authority, with the old one the vault refuses its fingerprint.\<close>

theorem passphrase_change_locks_panel_out:
  assumes lib: "crypto_ok (cv_lib ev)" "draws_ok draws" "draws_ok draws'" "nonces_ok nonces" "profile_ok (cv_profile ev)"
      "length (cv_salt ev) = argon2SaltLen" "length (cv_nonce ev) = gcm_NonceSize"
    and boot: "boot_secrets ev draws fresh salt now p st = Inr (v, a, st1)" "ps_ca st = None" "TrimSpace p \<noteq> []"
      "vt_envelope v = Some env" "countLegacyCiphertexts (ps_columns st) = 0"
    and p': "TrimSpace p' \<noteq> []" "cy_sha256 (cv_lib ev) (deriveKEK (cv_lib ev) p') \<noteq> cy_sha256 (cv_lib ev) (deriveKEK (cv_lib ev) p)"
    and wrong: "\<forall>iter mem par x. cy_Open (cv_lib ev) (deriveKeyV3 (cv_lib ev) p' (cv_salt ev) iter mem par) (cv_nonce ev)
      (cy_Seal (cv_lib ev) (deriveKeyV3 (cv_lib ev) p (cv_salt ev) iter mem par) (cv_nonce ev) x []) [] = None"
    and order: "\<forall>v'. vt_envelope v' = Some env \<longrightarrow> range_order (ev_deks env) (order v')"
  shows "\<exists>n st2. runRotateEncryptionKey (cv_lib ev) draws' nonces order salt allow p p' p' st1 = (Inr n, st2) \<and>
    boot_secrets ev draws' fresh' salt now' p' st2 = Inl (AuthorityError ErrDecryption) \<and>
    boot_secrets ev draws' fresh' salt now' p st2 = Inl (VaultError ErrEnvelopeWrongKEK)"
proof -
  let ?lib = "cv_lib ev"
  from boot(1,2) obtain cp row where vault: "NewWithEnvelope ?lib draws p AllDomains salt (ps_cp st) = Inr (v, cp)"
      and row: "authority_record ev fresh now p = Inr row" and st1: "st1 = st\<lparr>ps_cp := cp, ps_ca := Some row\<rparr>"
    by (auto simp: boot_secrets_def loadOrCreateCertificateAuthority_def persistNewCertificateAuthority_def split: sum.splits)
  from row boot(3) obtain enc where
    enc: "encryptPEM ?lib (cv_profile ev) (cv_salt ev) (cv_nonce ev) (at_keyPEM fresh) p = Inr enc" "cr_privateKeyPEM row = enc"
    by (auto simp: authority_record_def dest: TrimSpace_nonempty split: if_splits sum.splits)
  have en: "vt_enabled v"
    using vault boot(3) by (auto simp: NewWithEnvelope_def NewWithSalt_def Let_def split: if_splits sum.splits)
  have kek: "deriveKEK ?lib p' \<noteq> deriveKEK ?lib p" using p'(2) by auto
  have cols: "ps_cp st1 = cp" "countLegacyCiphertexts (ps_columns st1) = 0" using boot(5) by (simp_all add: st1)
  from command_matches [OF lib(1-4) vault en boot(4) p'(1) kek cols order] obtain n cp2 where
    r: "runRotateEncryptionKey ?lib draws' nonces order salt allow p p' p' st1 = (Inr n, st1\<lparr>ps_cp := cp2\<rparr>)"
      "env_matches ?lib (deriveKEK ?lib p') (set AllDomains) env cp2"
      "GetCPSecret cpSecretKEKFingerprint cp2 = cy_sha256 ?lib (deriveKEK ?lib p')" by blast
  from boot_matches [OF lib(1,2) AllDomains_ok vault en] have
    keys: "salt \<noteq> []" "\<exists>keys. domain_keys ?lib (deriveKEK ?lib p) salt AllDomains Map.empty = Inr keys" by blast+
  from reboot [OF lib(1,3) AllDomains_ok p'(1) keys r(2,3)] obtain v2 where
    v2: "NewWithEnvelope ?lib draws' p' AllDomains salt cp2 = Inr (v2, cp2)" by blast
  have stays: "HasPrefix enc encryptedPEMPrefixV3"
    using enc(1) by (auto simp: encryptPEM_def Let_def split: if_splits)
  have "decryptPEM ?lib enc p' = Inl ErrDecryption"
    using decryptPEM_sealed [OF lib(1,5,6,7) enc(1), of p'] wrong by simp
  then have "boot_secrets ev draws' fresh' salt now' p' (st1\<lparr>ps_cp := cp2\<rparr>) = Inl (AuthorityError ErrDecryption)"
    using v2 stays TrimSpace_nonempty [OF p'(1)]
    by (simp add: boot_secrets_def loadOrCreateCertificateAuthority_def loadExistingCertificateAuthority_def st1 enc(2)
        needsReEncryption_def Let_def)
  moreover have "boot_secrets ev draws' fresh' salt now' p (st1\<lparr>ps_cp := cp2\<rparr>) = Inl (VaultError ErrEnvelopeWrongKEK)"
    using old_passphrase_refused [OF lib(1) boot(3) keys r(3) p'(2)] by (simp add: boot_secrets_def)
  ultimately show ?thesis using r(1) by blast
qed

definition toy_ca :: ca_env where
  "toy_ca = \<lparr>cv_lib = toy_lib, cv_profile = Default_profile, cv_salt = replicate 16 CHR ''s'', cv_nonce = toy_nonce,
     cv_parse = (\<lambda>c k. Some \<lparr>at_caPEM = c, at_keyPEM = k, at_notAfter = 10 ^ 9\<rparr>), cv_plaintextAllowed = False\<rparr>"

definition toy_authority :: authority where
  "toy_authority = \<lparr>at_caPEM = ''cert'', at_keyPEM = ''key'', at_notAfter = 10 ^ 9\<rparr>"

theorem passphrase_change_locks_panel_out_witness:
  "\<exists>v a st1 n st2.
     boot_secrets toy_ca toy_draws toy_authority ''salt'' 1 ''old'' \<lparr>ps_cp = Map.empty, ps_ca = None, ps_columns = []\<rparr> = Inr (v, a, st1) \<and>
     runRotateEncryptionKey toy_lib toy_draws (\<lambda>_. toy_nonce) toy_order ''salt'' False ''old'' ''new'' ''new'' st1 = (Inr n, st2) \<and>
     boot_secrets toy_ca toy_draws toy_authority ''salt'' 2 ''new'' st2 = Inl (AuthorityError ErrDecryption) \<and>
     boot_secrets toy_ca toy_draws toy_authority ''salt'' 2 ''old'' st2 = Inl (VaultError ErrEnvelopeWrongKEK)"
proof -
  obtain v cp env where b: "NewWithEnvelope toy_lib toy_draws ''old'' AllDomains ''salt'' Map.empty = Inr (v, cp)"
    "vt_enabled v" "vt_envelope v = Some env" "versions_fit env" "\<forall>v'. vt_envelope v' = Some env \<longrightarrow> range_order (ev_deks env) (toy_order v')"
    "activeDEK v DomainTOTP = Some (1, replicate 32 CHR ''k'')" by (rule toy_boot)
  let ?st = "\<lparr>ps_cp = Map.empty, ps_ca = None, ps_columns = []\<rparr>"
  have lib: "cv_lib toy_ca = toy_lib" "profile_ok (cv_profile toy_ca)" "length (cv_salt toy_ca) = argon2SaltLen"
    "length (cv_nonce toy_ca) = gcm_NonceSize"
    using toy_ok(4) key_profiles_ok(1) by (simp_all add: toy_ca_def argon2SaltLen_def)
  obtain a row where boot: "boot_secrets toy_ca toy_draws toy_authority ''salt'' 1 ''old'' ?st = Inr (v, a, ?st\<lparr>ps_cp := cp, ps_ca := Some row\<rparr>)"
    using b(1) by (simp add: boot_secrets_def lib(1) loadOrCreateCertificateAuthority_def persistNewCertificateAuthority_def
        authority_record_def encryptPEM_def deriveKeyV3_def newGCM_def toy_lib_def Let_def)
  have sha: "cy_sha256 (cv_lib toy_ca) (deriveKEK (cv_lib toy_ca) ''new'') \<noteq> cy_sha256 (cv_lib toy_ca) (deriveKEK (cv_lib toy_ca) ''old'')"
    unfolding lib(1) toy_kek by (simp add: toy_lib_def)
  have wrong: "\<forall>iter mem par x. cy_Open (cv_lib toy_ca) (deriveKeyV3 (cv_lib toy_ca) ''new'' (cv_salt toy_ca) iter mem par) (cv_nonce toy_ca)
      (cy_Seal (cv_lib toy_ca) (deriveKeyV3 (cv_lib toy_ca) ''old'' (cv_salt toy_ca) iter mem par) (cv_nonce toy_ca) x []) [] = None"
    unfolding lib(1) by (simp add: toy_lib_def deriveKeyV3_def)
  have legacy: "countLegacyCiphertexts (ps_columns ?st) = 0" by (simp add: countLegacyCiphertexts_def)
  have pass: "TrimSpace ''old'' \<noteq> []" "TrimSpace ''new'' \<noteq> []" by (simp_all add: toy_pass)
  from passphrase_change_locks_panel_out [OF _ toy_ok(2,2,3) lib(2-4) boot _ pass(1) b(3) legacy pass(2) sha wrong b(5),
      where allow = False and fresh' = toy_authority and now' = 2] toy_ok(1) boot
  show ?thesis unfolding lib(1) by auto
qed

end
