(* ===== verification/Client_Demo.thy ===== *)
theory Client_Demo
  imports Client_Restart Client_Queue Vault_Properties
begin

section \<open>A small panel\<close>

text \<open>
  One panel on which the properties of the client domain are applied: two agents, a vault in
  pass-through mode, the job service as queue. The codecs keep the client id and the name of a payload.
\<close>

definition site_vault :: vault_ops where
  "site_vault = vault_ops_of toy_lib toy_nonce \<lparr>vt_enabled = False, vt_keys = Map.empty, vt_envelope = None, vt_kek = []\<rparr>"

lemma site_vault_plain [simp]:
  "encryptSecret site_vault x = Some x" "decryptSecretFully site_vault x = Some x" "vo_enabled site_vault = False"
  by (simp_all add: site_vault_def vault_ops_of_def encryptSecret_def EncryptIfEnabled_def Encrypt_def decryptSecretFully_def eval_nat_numeral)

lemma site_vault_usable: "vault_usable site_vault"
  unfolding vault_usable_def site_vault_def
  by (intro exI conjI) (rule refl, rule toy_ok(1), rule toy_ok(4), simp)

definition site_persist :: "job \<Rightarrow> unit \<Rightarrow> store_error option \<times> unit" where
  "site_persist job db = (None, ())"

definition site_codec :: "client_payload \<Rightarrow> string" where
  "site_codec pl = pl_clientID pl @ ''|'' @ pl_name pl"

definition site_order :: "service \<Rightarrow> string list" where
  "site_order s = map (\<lambda>n. job_id_of (of_nat n)) [1..<unat (sv_sequence s) + 2]"

definition site_env :: "(service \<times> unit) client_env" where
  "site_env = \<lparr>ce_vault = site_vault,
     ce_topology = \<lparr>tp_registered = [''a1'', ''a2''], tp_fleetMembers = (\<lambda>_. [])\<rparr>,
     ce_readOnly = (\<lambda>_. False), ce_ttl = 600 * second_ns, ce_parseTime = (\<lambda>_. None),
     ce_marshal = site_codec,
     ce_unmarshal = (\<lambda>x. case cut_at (CHR ''|'') x of None \<Rightarrow> None
        | Some (i, n) \<Rightarrow> Some \<lparr>pl_clientID = i, pl_name = n, pl_secret = [], pl_userADTag = [], pl_enabled = False, pl_maxTCPConns = 0,
            pl_maxUniqueIPs = 0, pl_dataQuotaBytes = 0, pl_expiration = [], pl_nameOwnerByAgent = Map.empty\<rparr>),
     ce_marshalReset = rq_clientID, ce_unmarshalReset = (\<lambda>_. None), ce_resultLinks = (\<lambda>_. None), ce_resultReset = (\<lambda>_. None),
     ce_enqueue = panel_enqueue site_persist site_order, ce_getJob = (\<lambda>i q. Get i (fst q)),
     ce_clients = [''client-0000001'', ''client-0000002''], ce_agents = [''a1'', ''a2''],
     ce_actions = [ActionClientCreate, ActionClientUpdate, ActionClientDelete, ActionClientRotateSecret]\<rparr>"

definition site_mint :: client_mint where
  "site_mint = \<lparr>mt_adTag = ''tag'', mt_secret = ''s1'', mt_token = ''t1''\<rparr>"

definition site_input :: mutation_input where
  "site_input = \<lparr>mi_name = ''alice'', mi_secret = [], mi_enabled = None, mi_userADTag = [], mi_userADTagAuto = None, mi_maxTCPConns = 1,
     mi_maxUniqueIPs = 1, mi_dataQuotaBytes = 0, mi_expiration = [], mi_fleetGroupIDs = [], mi_agentIDs = [''a1'']\<rparr>"

definition site_db :: client_db where
  "site_db = \<lparr>cd_clients = [], cd_assignments = [], cd_deployments = [], cd_usage = [], cd_agents = [''a1'', ''a2''], cd_groups = [], cd_discovered = []\<rparr>"

definition site_panel :: "(service \<times> unit) panel" where
  "site_panel = \<lparr>pn_svc = Client_Service.NewService, pn_db = site_db, pn_jobs = (Job_Service.NewService, ()), pn_notices = []\<rparr>"

definition site_time :: gotime where
  "site_time = 63000000000 * second_ns"

definition site_create :: "(client_error + flow_result) \<times> (service \<times> unit) panel" where
  "site_create = Create site_env site_mint ''root'' site_input site_time site_panel"

definition site_client :: client where
  "site_client = \<lparr>cl_id = ''client-0000001'', cl_name = ''alice'', cl_secret = ''s1'', cl_userADTag = ''tag'', cl_enabled = True, cl_maxTCPConns = 1,
     cl_maxUniqueIPs = 1, cl_dataQuotaBytes = 0, cl_expiration = [], cl_subscriptionToken = ''t1'', cl_createdAt = site_time,
     cl_updatedAt = site_time, cl_deletedAt = None\<rparr>"

definition site_assignment :: assignment where
  "site_assignment = \<lparr>ca_id = ''client-assignment-0000001'', ca_clientID = ''client-0000001'', ca_targetType = TargetTypeAgent, ca_fleetGroupID = [],
     ca_agentID = ''a1'', ca_createdAt = site_time\<rparr>"

definition site_deployment :: deployment where
  "site_deployment = target_row ''client-0000001'' ActionClientCreate site_time ''a1'' None"

lemma site_trim: "TrimSpace ''alice'' = ''alice''" "TrimSpace ''a1'' = ''a1''" "TrimSpace [] = []"
  by (rule TrimSpace_solid, simp add: solid_def)+

lemma site_checks:
  "create_checks site_env site_mint site_input site_time Client_Service.NewService = Inr (site_client\<lparr>cl_id := []\<rparr>)"
  by (simp add: create_checks_def site_input_def site_trim clientNameRegex_def name_char_def NameTaken_def Client_Service.NewService_def
      resolveUserADTagForMutation_def ResolveUserADTag_def create_secret_def NormalizeExpiration_def validateClientLimits_def site_mint_def site_client_def)

lemma site_ids: "newSequenceID ''client'' 1 = ''client-0000001''" "newSequenceID ''client'' 2 = ''client-0000002''"
  "newSequenceID ''client-assignment'' 1 = ''client-assignment-0000001''" "newSequenceID ''client-assignment'' 2 = ''client-assignment-0000002''"
  by code_simp+

text \<open>Saving the new client on the empty panel.\<close>

definition site_saved_svc :: client_service where
  "site_saved_svc = MirrorReplaceInMemory site_client [site_assignment] [site_deployment]
     (Client_Service.NewService\<lparr>cs_clientSeq := 1, cs_assignmentSeq := 1\<rparr>)"

definition site_saved_db :: client_db where
  "site_saved_db = site_db\<lparr>cd_clients := [stored_client site_client], cd_assignments := [site_assignment\<lparr>ca_createdAt := to_seconds site_time\<rparr>],
     cd_deployments := [stored_deployment site_deployment]\<rparr>"

lemma site_save:
  "SaveState site_vault site_client [site_assignment] [site_deployment] (Client_Service.NewService\<lparr>cs_clientSeq := 1, cs_assignmentSeq := 1\<rparr>) site_db =
     (None, site_saved_svc, site_saved_db)"
  by (simp add: SaveState_def save_transaction_def repo_Save_def site_db_def row_of_def upsert_def SaveAssignments_def deleteAssignmentsRaw_def
      insertAssignment_def has_client_def SaveDeployments_def deleteDeploymentsRaw_def upsertDeployment_def site_saved_svc_def site_saved_db_def
      site_assignment_def site_deployment_def site_client_def stored_client_def Let_def)

lemma site_assignments:
  "buildClientAssignments ''client-0000001'' site_input site_time (Client_Service.NewService\<lparr>cs_clientSeq := 1\<rparr>) =
     ([site_assignment], Client_Service.NewService\<lparr>cs_clientSeq := 1, cs_assignmentSeq := 1\<rparr>)"
  by (simp add: buildClientAssignments_def NormalizedIDs_def site_input_def site_trim site_assignment_def NextAssignmentID_def
      Client_Service.NewService_def site_ids Let_def)

lemma site_targets: "ResolveTargetAgentIDs [site_assignment] (ce_topology site_env) = [''a1'']"
  by (simp add: ResolveTargetAgentIDs_def site_env_def site_assignment_def assignment_agents_def)

lemma site_build: "BuildDeployments [] ''client-0000001'' [''a1''] ActionClientCreate ActionClientDelete site_time = [site_deployment]"
  by (simp add: BuildDeployments_def queue_target_def site_deployment_def target_row_def List.map_filter_def Let_def)

lemma site_env_fields [simp]:
  "ce_vault site_env = site_vault" "ce_enqueue site_env = panel_enqueue site_persist site_order" "ce_readOnly site_env = (\<lambda>_. False)"
  "ce_agents site_env = [''a1'', ''a2'']" "ce_clients site_env = [''client-0000001'', ''client-0000002'']"
  "ce_actions site_env = [ActionClientCreate, ActionClientUpdate, ActionClientDelete, ActionClientRotateSecret]"
  by (simp_all add: site_env_def)

text \<open>A job for a key that is not taken is accepted, and the mirror and the tables stay.\<close>

lemma site_enqueued:
  assumes "sv_keys (fst (pn_jobs p)) (client_job_key op (cl_id c) t) = None"
  shows "\<exists>j p'. EnqueueClientJob site_env actor op c ts t p = (Inr j, p') \<and> pn_svc p' = pn_svc p \<and> pn_db p' = pn_db p \<and>
    (\<forall>k. k \<noteq> client_job_key op (cl_id c) t \<longrightarrow> sv_keys (fst (pn_jobs p')) k = sv_keys (fst (pn_jobs p)) k)"
proof -
  let ?in = "client_input site_env actor op (cl_id c) ts (ce_marshal site_env (client_payload_of site_env op c ts (pn_svc p))) t"
  have "queue_accepts site_persist (pn_jobs p) ?in"
    using assms by (auto simp: queue_accepts_def aims_at_read_only_def site_persist_def list_ex_iff)
  from panel_queue.accepted [OF this, of site_order t] obtain j q where "panel_enqueue site_persist site_order ?in t (pn_jobs p) = (Inr j, q)" by blast
  moreover have "sv_keys (fst q) k = sv_keys (fst (pn_jobs p)) k" if "k \<noteq> client_job_key op (cl_id c) t" for k
    using Enqueue_keys [of site_persist "site_order (fst (pn_jobs p))" ?in t "fst (pn_jobs p)" "snd (pn_jobs p)" "Inr j" "fst q" "snd q" k]
      calculation that by (cases q) (simp add: panel_enqueue_def)
  ultimately show ?thesis by (simp add: enqueue_client_job)
qed

lemma site_created:
  obtains p where "site_create = (Inr (site_client, [site_assignment], [site_deployment]), p)" "pn_svc p = site_saved_svc" "pn_db p = site_saved_db"
    "\<forall>k. k \<noteq> client_job_key ActionClientCreate ''client-0000001'' site_time \<longrightarrow> sv_keys (fst (pn_jobs p)) k = None"
proof -
  have panel: "pn_svc site_panel = Client_Service.NewService" "pn_db site_panel = site_db" "pn_jobs site_panel = (Job_Service.NewService, ())"
    by (simp_all add: site_panel_def)
  let ?p3 = "notice (PublishClientsUpdated ''client-0000001'') (site_panel\<lparr>pn_svc := site_saved_svc, pn_db := site_saved_db\<rparr>)"
  have next_id: "NextClientID Client_Service.NewService = (''client-0000001'', Client_Service.NewService\<lparr>cs_clientSeq := 1\<rparr>)"
    by (simp add: NextClientID_def Client_Service.NewService_def site_ids Let_def)
  have named: "site_client\<lparr>cl_id := ''client-0000001''\<rparr> = site_client" "cl_id site_client = ''client-0000001''" by (simp_all add: site_client_def)
  have "\<exists>j p'. EnqueueClientJob site_env ''root'' ActionClientCreate site_client [''a1''] site_time ?p3 = (Inr j, p') \<and> pn_svc p' = pn_svc ?p3 \<and> pn_db p' = pn_db ?p3 \<and>
      (\<forall>k. k \<noteq> client_job_key ActionClientCreate (cl_id site_client) site_time \<longrightarrow> sv_keys (fst (pn_jobs p')) k = sv_keys (fst (pn_jobs ?p3)) k)"
    by (rule site_enqueued) (simp add: notice_def site_panel_def Job_Service.NewService_def)
  then obtain j p' where "EnqueueClientJob site_env ''root'' ActionClientCreate site_client [''a1''] site_time ?p3 = (Inr j, p')"
      "pn_svc p' = site_saved_svc" "pn_db p' = site_saved_db"
      "\<forall>k. k \<noteq> client_job_key ActionClientCreate ''client-0000001'' site_time \<longrightarrow> sv_keys (fst (pn_jobs p')) k = None"
    by (auto simp: named panel Job_Service.NewService_def)
  with that show thesis
    by (simp add: site_create_def Create_def panel site_checks create_commit_def next_id site_assignments named site_targets site_build
        saveStateAndPublish_def site_save Let_def)
qed

subsection \<open>Deleting the client\<close>

definition site_later :: gotime where
  "site_later = site_time + 3600 * second_ns"

definition site_gone :: client where
  "site_gone = site_client\<lparr>cl_enabled := False, cl_updatedAt := site_later, cl_deletedAt := Some site_later\<rparr>"

definition site_owed :: deployment where
  "site_owed = target_row ''client-0000001'' ActionClientDelete site_later ''a1'' (Some site_deployment)"

definition site_deleted_svc :: client_service where
  "site_deleted_svc = MirrorReplaceInMemory site_gone [site_assignment] [site_owed] site_saved_svc"

definition site_deleted_db :: client_db where
  "site_deleted_db = site_db\<lparr>cd_clients := [(stored_client site_gone)\<lparr>cl_createdAt := to_seconds site_time\<rparr>],
     cd_assignments := [site_assignment\<lparr>ca_createdAt := to_seconds site_time\<rparr>], cd_deployments := [stored_deployment site_owed]\<rparr>"

lemma site_client_fields:
  "cs_clients site_saved_svc = [''client-0000001'' \<mapsto> site_client]" "cs_assignments site_saved_svc = [''client-0000001'' \<mapsto> [site_assignment]]"
  "inner (cs_deployments site_saved_svc) ''client-0000001'' = [''a1'' \<mapsto> site_deployment]"
  "cl_id site_client = ''client-0000001''" "cl_deletedAt site_client = None" "cl_name site_client = ''alice''"
  by (simp_all add: site_saved_svc_def MirrorReplaceInMemory_def Client_Service.NewService_def site_client_def inner_def site_deployment_def
      by_agent_def setMirrorClientLocked_def Let_def)

lemma site_snapshot:
  assumes "pn_svc p = site_saved_svc"
  shows "living_snapshot site_env ''client-0000001'' p = Inr (site_client, [site_assignment], [site_deployment])"
  by (simp add: living_snapshot_def assms detailSnapshot_def site_client_fields List.map_filter_def)

lemma site_delete_save:
  "SaveState site_vault site_gone [site_assignment] [site_owed] site_saved_svc site_saved_db = (None, site_deleted_svc, site_deleted_db)"
  by (simp add: SaveState_def save_transaction_def repo_Save_def site_saved_db_def site_db_def row_of_def upsert_def SaveAssignments_def
      deleteAssignmentsRaw_def insertAssignment_def has_client_def SaveDeployments_def deleteDeploymentsRaw_def upsertDeployment_def
      site_deleted_svc_def site_deleted_db_def site_assignment_def site_owed_def site_deployment_def site_gone_def site_client_def stored_client_def
      stored_deployment_def target_row_def queue_op_def Let_def)

definition site_delete :: "client_error option \<times> (service \<times> unit) panel" where
  "site_delete = DeleteFlow site_env ''client-0000001'' ''root'' site_later (snd site_create)"

lemma site_reads_saved: "readable_rows (cd_discovered site_saved_db)" "readable_rows (cd_discovered site_deleted_db)"
  by (simp_all add: readable_rows_def site_saved_db_def site_deleted_db_def site_db_def)

lemma site_deleted: "pn_svc (snd site_delete) = site_deleted_svc" "pn_db (snd site_delete) = site_deleted_db"
proof -
  obtain p where p: "site_create = (Inr (site_client, [site_assignment], [site_deployment]), p)" "pn_svc p = site_saved_svc" "pn_db p = site_saved_db"
    by (rule site_created)
  have build: "BuildDeployments [site_deployment] ''client-0000001'' [''a1''] ActionClientDelete ActionClientDelete site_later = [site_owed]"
    by (simp add: BuildDeployments_def by_agent_def site_deployment_def queue_target_def site_owed_def target_row_def queue_op_def List.map_filter_def Let_def)
  have gone: "site_client\<lparr>cl_enabled := False, cl_updatedAt := site_later, cl_deletedAt := Some site_later\<rparr> = site_gone" by (simp add: site_gone_def)
  obtain r p' where e: "DeleteFlow site_env ''client-0000001'' ''root'' site_later p = (r, p')" by (cases "DeleteFlow site_env ''client-0000001'' ''root'' site_later p")
  have "pn_svc p' = site_deleted_svc \<and> pn_db p' = site_deleted_db"
    using e by (auto simp: DeleteFlow_def site_snapshot [OF p(2)] gone site_targets build saveStateAndPublish_def p site_delete_save Let_def
        dest!: client_job_cases split: prod.splits sum.splits)
  then show "pn_svc (snd site_delete) = site_deleted_svc" "pn_db (snd site_delete) = site_deleted_db"
    unfolding site_delete_def p(1) snd_conv e by simp_all
qed

lemma site_reads: "readable_rows (cd_discovered (pn_db (snd site_create)))" "readable_rows (cd_discovered (pn_db (snd site_delete)))"
proof -
  obtain p where p: "site_create = (Inr (site_client, [site_assignment], [site_deployment]), p)" "pn_db p = site_saved_db" by (rule site_created)
  have "pn_db (snd site_create) = site_saved_db" by (simp only: p snd_conv)
  then show "readable_rows (cd_discovered (pn_db (snd site_create)))" "readable_rows (cd_discovered (pn_db (snd site_delete)))"
    using site_reads_saved by (simp_all add: site_deleted)
qed

end
