(* ===== verification/Client_Discovery.thy ===== *)
theory Client_Discovery
  imports Client_Flows
begin

section \<open>Discovered clients and their adoption (clients/discoveryflow.go)\<close>

text \<open>
  An agent reports the full list of users of its node. A user the panel does not manage becomes
  a row to review; the operator adopts or ignores it. Adoption makes a managed client out of
  every row with the same name and secret, or adds their nodes to a client that
  already has both. The lock of the adoptions makes one adoption a single step. Log lines are
  left out; an entry of the audit trail is a notification.
\<close>

subsection \<open>Reports\<close>

definition clientIsLiveManaged :: "string \<Rightarrow> client_service \<Rightarrow> bool" where
  "clientIsLiveManaged panelID s \<longleftrightarrow> (case svc_Get panelID s of None \<Rightarrow> False | Some c \<Rightarrow> cl_deletedAt c = None)"

definition recordDiscoveredOrphan :: "string \<Rightarrow> string \<Rightarrow> 'q panel \<Rightarrow> 'q panel" where
  "recordDiscoveredOrphan agentID panelID p =
     (let key = agentID @ ''|'' @ panelID
      in if key \<in> cs_orphanSeen (pn_svc p) then p
         else notice (AppendAudit ''system'' ''clients.discovery_orphan'' panelID)
                (p\<lparr>pn_svc := (pn_svc p)\<lparr>cs_orphanSeen := insert key (cs_orphanSeen (pn_svc p))\<rparr>\<rparr>))"

definition discovered_of :: "string \<Rightarrow> string \<Rightarrow> client_detail \<Rightarrow> discovered_status \<Rightarrow> gotime \<Rightarrow> gotime \<Rightarrow> discovered" where
  "discovered_of i agentID record status firstSeen observedAt =
     \<lparr>dc_id = i, dc_agentID = agentID, dc_clientName = cr_clientName record, dc_secret = cr_secret record, dc_status = status,
      dc_userADTag = cr_userADTag record, dc_enabled = cr_enabled record, dc_totalOctets = cr_totalOctets record,
      dc_currentConnections = word_of_int (cr_currentConnections record), dc_activeUniqueIPs = word_of_int (cr_activeUniqueIPs record),
      dc_connectionLinks = cr_connectionLinks record, dc_maxTCPConns = cr_maxTCPConns record, dc_maxUniqueIPs = cr_maxUniqueIPs record,
      dc_dataQuotaBytes = sint (cr_dataQuotaBytes record), dc_expiration = cr_expiration record,
      dc_firstSeen = firstSeen, dc_updatedAt = observedAt\<rparr>"

definition upsertDiscoveredClient :: "string \<Rightarrow> client_detail \<Rightarrow> gotime \<Rightarrow> 'q panel \<Rightarrow> 'q panel" where
  "upsertDiscoveredClient agentID record observedAt p =
     (case GetByAgentAndName agentID (cr_clientName record) (pn_db p) of
        Inr existing \<Rightarrow>
          (case disc_Save (discovered_of (dc_id existing) agentID record (dc_status existing) (dc_firstSeen existing) observedAt) (pn_db p) of
             Inl _ \<Rightarrow> p | Inr db \<Rightarrow> p\<lparr>pn_db := db\<rparr>)
      | Inl ErrNotFound \<Rightarrow>
          (let (i, s) = NextDiscoveredID (pn_svc p)
           in case disc_Save (discovered_of i agentID record StatusPending observedAt observedAt) (pn_db p) of
                Inl _ \<Rightarrow> p\<lparr>pn_svc := s\<rparr>
              | Inr db \<Rightarrow> notice (AppendAudit ''system'' ''clients.discovered'' i) (p\<lparr>pn_svc := s, pn_db := db\<rparr>))
      | Inl _ \<Rightarrow> p)"

definition prune_row :: "string \<Rightarrow> string set \<Rightarrow> discovered \<Rightarrow> client_db \<Rightarrow> client_db" where
  "prune_row agentID seenNames dc db =
     (if dc_agentID dc \<noteq> agentID \<or> dc_status dc \<noteq> StatusPending then db
      else if dc_clientName dc \<in> seenNames then db
      else case disc_Delete (dc_id dc) db of Inl _ \<Rightarrow> db | Inr db' \<Rightarrow> db')"

definition pruneStaleDiscoveredForAgent :: "string \<Rightarrow> string set \<Rightarrow> 'q panel \<Rightarrow> 'q panel" where
  "pruneStaleDiscoveredForAgent agentID seenNames p =
     (case disc_List (pn_db p) of Inl _ \<Rightarrow> p
      | Inr rows \<Rightarrow> p\<lparr>pn_db := fold (prune_row agentID seenNames) rows (pn_db p)\<rparr>)"

definition discover_record :: "string set \<Rightarrow> string set \<Rightarrow> string \<Rightarrow> gotime \<Rightarrow> client_detail \<Rightarrow> 'q panel \<Rightarrow> 'q panel" where
  "discover_record managedNames managedSecrets agentID observedAt record p =
     (let clientName = TrimSpace (cr_clientName record);
          secret = TrimSpace (cr_secret record);
          panelID = TrimSpace (cr_clientID record)
      in if clientName = [] then p
         else if clientName \<in> managedNames then p
         else if secret \<noteq> [] \<and> secret \<in> managedSecrets then p
         else if panelID \<noteq> [] then
           (if clientIsLiveManaged panelID (pn_svc p) then p else recordDiscoveredOrphan agentID panelID p)
         else upsertDiscoveredClient agentID record observedAt p)"

definition seen_names :: "client_detail list \<Rightarrow> string set" where
  "seen_names records = set (filter (\<lambda>n. n \<noteq> []) (map (\<lambda>r. TrimSpace (cr_clientName r)) records))"

definition ReconcileDiscovered :: "'q client_env \<Rightarrow> string \<Rightarrow> client_detail list \<Rightarrow> bool \<Rightarrow> gotime \<Rightarrow> 'q panel \<Rightarrow> 'q panel" where
  "ReconcileDiscovered env agentID records telemtUnreachable observedAt p =
     (if telemtUnreachable then p
      else if records = [] then p
      else let (managedNames, managedSecrets) = MirrorIdentifiersForAgent (ce_clients env) agentID (pn_svc p)
           in pruneStaleDiscoveredForAgent agentID (seen_names records)
                (fold (discover_record managedNames managedSecrets agentID observedAt) records p))"

subsection \<open>Adoption\<close>

fun siblings_of :: "discovered \<Rightarrow> string set \<Rightarrow> discovered list \<Rightarrow> discovered list" where
  "siblings_of primary seenAgents [] = []"
| "siblings_of primary seenAgents (dc # rest) =
     (if dc_id dc = dc_id primary \<or> dc_status dc = StatusAdopted then siblings_of primary seenAgents rest
      else if dc_secret dc \<noteq> dc_secret primary \<or> dc_clientName dc \<noteq> dc_clientName primary then siblings_of primary seenAgents rest
      else if dc_agentID dc \<in> seenAgents then siblings_of primary seenAgents rest
      else dc # siblings_of primary (insert (dc_agentID dc) seenAgents) rest)"

definition collectAdoptSiblings :: "discovered \<Rightarrow> client_db \<Rightarrow> discovered list" where
  "collectAdoptSiblings primary db =
     (if TrimSpace (dc_secret primary) = [] then []
      else case disc_List db of Inl _ \<Rightarrow> [] | Inr rows \<Rightarrow> siblings_of primary {dc_agentID primary} rows)"

definition normalizedAdoptSecret :: "client_mint \<Rightarrow> string \<Rightarrow> client_error + string" where
  "normalizedAdoptSecret mint raw =
     (let secret = TrimSpace raw
      in if secret = [] then Inr (mt_secret mint)
         else if IsValidHexSecret secret then Inr secret else Inl ErrInvalidSecret)"

definition agent_assignment :: "string \<Rightarrow> gotime \<Rightarrow> string \<Rightarrow> string \<Rightarrow> assignment" where
  "agent_assignment clientID observedAt i agentID =
     \<lparr>ca_id = i, ca_clientID = clientID, ca_targetType = TargetTypeAgent, ca_fleetGroupID = [], ca_agentID = agentID,
      ca_createdAt = observedAt\<rparr>"

definition adopted_deployment :: "string \<Rightarrow> gotime \<Rightarrow> discovered \<Rightarrow> deployment" where
  "adopted_deployment clientID observedAt dc =
     zero_deployment\<lparr>dp_clientID := clientID, dp_agentID := dc_agentID dc, dp_desiredOperation := OtherAction ''adopt'',
       dp_status := DeploymentStatusSucceeded, dp_connectionLinks := dc_connectionLinks dc,
       dp_lastAppliedAt := Some observedAt, dp_updatedAt := observedAt\<rparr>"

definition buildAdoptedClientState ::
    "client_mint \<Rightarrow> discovered \<Rightarrow> discovered list \<Rightarrow> string \<Rightarrow> string \<Rightarrow> gotime \<Rightarrow> client_service \<Rightarrow>
     (client \<times> assignment list \<times> deployment list) \<times> client_service" where
  "buildAdoptedClientState mint record siblings secret expiration observedAt s =
     (let (i, s1) = NextClientID s;
          c = \<lparr>cl_id = i, cl_name = dc_clientName record, cl_secret = secret, cl_userADTag = dc_userADTag record,
               cl_enabled = dc_enabled record, cl_maxTCPConns = dc_maxTCPConns record, cl_maxUniqueIPs = dc_maxUniqueIPs record,
               cl_dataQuotaBytes = dc_dataQuotaBytes record, cl_expiration = expiration, cl_subscriptionToken = mt_token mint,
               cl_createdAt = observedAt, cl_updatedAt = observedAt, cl_deletedAt = None\<rparr>;
          rows = record # filter (\<lambda>sib. dc_agentID sib \<noteq> [] \<and> dc_agentID sib \<noteq> dc_agentID record) siblings;
          (as, s2) = assign_each (agent_assignment i observedAt) (map dc_agentID rows) s1
      in ((c, as, map (adopted_deployment i observedAt) rows), s2))"

definition collectDuplicateDiscoveredIDs :: "discovered list \<Rightarrow> string \<Rightarrow> string \<Rightarrow> string \<Rightarrow> string list" where
  "collectDuplicateDiscoveredIDs rows excludeID name secret =
     (if secret = [] then []
      else map dc_id (filter (\<lambda>dc. dc_id dc \<noteq> excludeID \<and> dc_secret dc = secret \<and> dc_clientName dc = name \<and> dc_status dc \<noteq> StatusAdopted) rows))"

definition flipDuplicateDiscoveredToAdopted ::
    "string \<Rightarrow> string \<Rightarrow> string \<Rightarrow> gotime \<Rightarrow> client_db \<Rightarrow> store_error + client_db" where
  "flipDuplicateDiscoveredToAdopted excludeID name secret observedAt db =
     (case disc_List db of Inl e \<Rightarrow> Inl e
      | Inr rows \<Rightarrow>
          let ids = collectDuplicateDiscoveredIDs rows excludeID name secret
          in if ids = [] then Inr db else disc_UpdateStatusBulk ids StatusAdopted observedAt db)"

definition adopt_store_error :: "store_error \<Rightarrow> client_error" where
  "adopt_store_error e = (if e = ErrNotFound then ErrClientNotFound else ErrClientStore)"

text \<open>One transaction: it applies all of its statements or none.\<close>

definition persistAdoptedClient ::
    "vault_ops \<Rightarrow> string \<Rightarrow> client \<Rightarrow> assignment list \<Rightarrow> deployment list \<Rightarrow> gotime \<Rightarrow> client_db \<Rightarrow> client_error + client_db" where
  "persistAdoptedClient v discoveredID c assignments deployments observedAt db =
     (case encryptSecret v (cl_secret c) of None \<Rightarrow> Inl ErrVault
      | Some sealed \<Rightarrow>
          (case disc_Get discoveredID db of Inl e \<Rightarrow> Inl (adopt_store_error e)
           | Inr fresh \<Rightarrow>
               if dc_status fresh = StatusAdopted then Inl ErrAlreadyAdopted
               else case save_transaction (c\<lparr>cl_secret := sealed\<rparr>) assignments deployments db of Inl e \<Rightarrow> Inl (adopt_store_error e)
                 | Inr db1 \<Rightarrow>
                     (case disc_UpdateStatus discoveredID StatusAdopted observedAt db1 of Inl e \<Rightarrow> Inl (adopt_store_error e)
                      | Inr db2 \<Rightarrow>
                          if dc_secret fresh = [] then Inr db2
                          else case flipDuplicateDiscoveredToAdopted discoveredID (dc_clientName fresh) (dc_secret fresh) observedAt db2 of
                              Inl e \<Rightarrow> Inl (adopt_store_error e) | Inr db3 \<Rightarrow> Inr db3)))"

text \<open>The seed of the traffic counter is written through; a failed write is only logged.\<close>

definition seedClientUsage :: "string \<Rightarrow> gotime \<Rightarrow> discovered \<Rightarrow> 'q panel \<Rightarrow> 'q panel" where
  "seedClientUsage clientID observedAt dc p =
     (case UpsertUsage
             \<lparr>ug_clientID = clientID, ug_agentID = dc_agentID dc, ug_trafficUsedBytes = dc_totalOctets dc,
              ug_uniqueIPsUsed = uint (dc_activeUniqueIPs dc), ug_activeTCPConns = uint (dc_currentConnections dc),
              ug_activeUniqueIPs = uint (dc_activeUniqueIPs dc), ug_quotaUsedBytes = 0, ug_quotaLastResetUnix = 0,
              ug_agentBootID = [], ug_lastTotalBytes = 0, ug_observedAt = observedAt\<rparr> (pn_svc p) (pn_db p) of
        (_, s, db) \<Rightarrow> p\<lparr>pn_svc := s, pn_db := db\<rparr>)"

fun uncovered :: "string set \<Rightarrow> discovered list \<Rightarrow> discovered list" where
  "uncovered covered [] = []"
| "uncovered covered (dc # rest) =
     (if dc_agentID dc = [] \<or> dc_agentID dc \<in> covered then uncovered covered rest
      else dc # uncovered (insert (dc_agentID dc) covered) rest)"

definition covered_agents :: "assignment list \<Rightarrow> string set" where
  "covered_agents assignments = set (map ca_agentID (filter (\<lambda>a. ca_targetType a = TargetTypeAgent \<and> ca_agentID a \<noteq> []) assignments))"

text \<open>After the save of the merged client, errors of the discovered table are only logged.\<close>

definition mark_merged :: "string \<Rightarrow> discovered \<Rightarrow> gotime \<Rightarrow> client_db \<Rightarrow> client_db" where
  "mark_merged discoveredID record observedAt db =
     (let db1 = (case disc_UpdateStatus discoveredID StatusAdopted observedAt db of Inl _ \<Rightarrow> db | Inr db1 \<Rightarrow> db1)
      in if dc_secret record = [] then db1
         else case flipDuplicateDiscoveredToAdopted discoveredID (dc_clientName record) (dc_secret record) observedAt db1 of
             Inl _ \<Rightarrow> db1 | Inr db2 \<Rightarrow> db2)"

definition mergeAdoptIntoExistingClient ::
    "'q client_env \<Rightarrow> client \<Rightarrow> discovered \<Rightarrow> discovered list \<Rightarrow> string \<Rightarrow> string \<Rightarrow> gotime \<Rightarrow> 'q panel \<Rightarrow>
     (client_error + client) \<times> 'q panel" where
  "mergeAdoptIntoExistingClient env existing record siblings actorID discoveredID observedAt p =
     (let (as0, ds0) = MirrorAssignmentsAndDeployments (ce_agents env) (cl_id existing) (pn_svc p);
          fresh = uncovered (covered_agents as0) (record # siblings);
          (as1, s1) = assign_each (agent_assignment (cl_id existing) observedAt) (map dc_agentID fresh) (pn_svc p);
          c = existing\<lparr>cl_updatedAt := observedAt\<rparr>
      in case saveStateAndPublish env c (as0 @ as1) (ds0 @ map (adopted_deployment (cl_id existing) observedAt) fresh) (p\<lparr>pn_svc := s1\<rparr>) of
           (Some e, p1) \<Rightarrow> (Inl e, p1)
         | (None, p1) \<Rightarrow>
             let p2 = fold (seedClientUsage (cl_id existing) observedAt)
                        (record # filter (\<lambda>sib. dc_agentID sib \<noteq> dc_agentID record) siblings) p1
             in (Inr c, notice (AppendAudit actorID ''clients.adopted_merge'' discoveredID)
                          (p2\<lparr>pn_db := mark_merged discoveredID record observedAt (pn_db p2)\<rparr>)))"

definition adopt_as_new ::
    "'q client_env \<Rightarrow> client_mint \<Rightarrow> discovered \<Rightarrow> discovered list \<Rightarrow> string \<Rightarrow> string \<Rightarrow> string \<Rightarrow> string \<Rightarrow> gotime \<Rightarrow> 'q panel \<Rightarrow>
     (client_error + client) \<times> 'q panel" where
  "adopt_as_new env mint record siblings secret expiration i actorID observedAt p =
     (case buildAdoptedClientState mint record siblings secret expiration observedAt (pn_svc p) of
        ((c, as, ds), s1) \<Rightarrow>
          (case persistAdoptedClient (ce_vault env) i c as ds observedAt (pn_db p) of
             Inl e \<Rightarrow> (Inl e, p\<lparr>pn_svc := s1\<rparr>)
           | Inr db \<Rightarrow>
               let p1 = notice (PublishClientsUpdated (cl_id c)) (p\<lparr>pn_svc := MirrorReplaceInMemory c as ds s1, pn_db := db\<rparr>)
               in (Inr c, notice (AppendAudit actorID ''clients.adopted'' i)
                            (fold (seedClientUsage (cl_id c) observedAt) (record # siblings) p1))))"

definition adoptDiscoveredClientLocked ::
    "'q client_env \<Rightarrow> client_mint \<Rightarrow> string \<Rightarrow> string \<Rightarrow> gotime \<Rightarrow> 'q panel \<Rightarrow> (client_error + client) \<times> 'q panel" where
  "adoptDiscoveredClientLocked env mint i actorID observedAt p =
     (case disc_Get i (pn_db p) of Inl e \<Rightarrow> (Inl (adopt_store_error e), p)
      | Inr record \<Rightarrow>
          if dc_status record = StatusAdopted then (Inl ErrAlreadyAdopted, p)
          else case normalizedAdoptSecret mint (dc_secret record) of Inl e \<Rightarrow> (Inl e, p)
            | Inr secret \<Rightarrow>
                (case NormalizeExpiration (ce_parseTime env) (dc_expiration record) of Inl e \<Rightarrow> (Inl e, p)
                 | Inr expiration \<Rightarrow>
                     let siblings = collectAdoptSiblings record (pn_db p)
                     in case MirrorFindClientByNameAndSecret (ce_clients env) (dc_clientName record) secret (pn_svc p) of
                          Some existing \<Rightarrow> mergeAdoptIntoExistingClient env existing record siblings actorID i observedAt p
                        | None \<Rightarrow>
                            if NameTaken (dc_clientName record) [] (pn_svc p) then (Inl ErrNameTaken, p)
                            else adopt_as_new env mint record siblings secret expiration i actorID observedAt p))"

definition AdoptDiscovered ::
    "'q client_env \<Rightarrow> client_mint \<Rightarrow> string \<Rightarrow> string \<Rightarrow> gotime \<Rightarrow> 'q panel \<Rightarrow> (client_error + client) \<times> 'q panel" where
  "AdoptDiscovered = adoptDiscoveredClientLocked"

datatype bulk_status = BulkAdopted | BulkAlreadyAdopted | BulkError

record bulk_adopt_result =
  ba_id :: string
  ba_status :: bulk_status
  ba_clientID :: string
  ba_name :: string
  ba_message :: "client_error option"

definition bulk_result :: "string \<Rightarrow> client_error + client \<Rightarrow> bulk_adopt_result" where
  "bulk_result i r =
     (case r of
        Inr c \<Rightarrow> \<lparr>ba_id = i, ba_status = BulkAdopted, ba_clientID = cl_id c, ba_name = cl_name c, ba_message = None\<rparr>
      | Inl e \<Rightarrow>
          if e = ErrAlreadyAdopted then \<lparr>ba_id = i, ba_status = BulkAlreadyAdopted, ba_clientID = [], ba_name = [], ba_message = None\<rparr>
          else \<lparr>ba_id = i, ba_status = BulkError, ba_clientID = [], ba_name = [], ba_message = Some e\<rparr>)"

text \<open>Each adoption of a batch draws random values of its own.\<close>

fun BulkAdoptDiscovered ::
    "'q client_env \<Rightarrow> (string \<times> client_mint) list \<Rightarrow> string \<Rightarrow> gotime \<Rightarrow> 'q panel \<Rightarrow> bulk_adopt_result list \<times> 'q panel" where
  "BulkAdoptDiscovered env [] actorID observedAt p = ([], p)"
| "BulkAdoptDiscovered env ((i, mint) # rest) actorID observedAt p =
     (let (r, p1) = adoptDiscoveredClientLocked env mint i actorID observedAt p;
          (rs, p2) = BulkAdoptDiscovered env rest actorID observedAt p1
      in (bulk_result i r # rs, p2))"

definition IgnoreDiscovered :: "string \<Rightarrow> string \<Rightarrow> gotime \<Rightarrow> 'q panel \<Rightarrow> client_error option \<times> 'q panel" where
  "IgnoreDiscovered i actorID observedAt p =
     (case disc_UpdateStatus i StatusIgnored observedAt (pn_db p) of Inl e \<Rightarrow> (Some (adopt_store_error e), p)
      | Inr db \<Rightarrow> (None, notice (AppendAudit actorID ''clients.discovery_ignored'' i) (p\<lparr>pn_db := db\<rparr>)))"

definition ListDiscovered :: "'q panel \<Rightarrow> store_error + discovered list" where
  "ListDiscovered p = disc_List (pn_db p)"

text \<open>
  \<^verbatim>\<open>seedUsageFromDiscovered\<close> (server/clients_state.go) after a restart: an agent assigned by id
  that has no usage row gets the counters of the discovered row with the client's name.
\<close>

definition seed_assignment :: "client_service \<Rightarrow> discovered list \<Rightarrow> client \<Rightarrow> string \<Rightarrow> assignment \<Rightarrow> client_service \<Rightarrow> client_service" where
  "seed_assignment snap rows c i a s =
     (if ca_agentID a = [] then s
      else if inner (cs_usage snap) i (ca_agentID a) \<noteq> None then s
      else case row_of disc_key (ca_agentID a, cl_name c) (rev rows) of None \<Rightarrow> s
        | Some dc \<Rightarrow>
            SeedUsageMirror i (ca_agentID a) (dc_totalOctets dc) (uint (dc_currentConnections dc)) (uint (dc_activeUniqueIPs dc)) (dc_updatedAt dc) s)"

definition seedUsageFromDiscovered :: "string list \<Rightarrow> client_db \<Rightarrow> client_service \<Rightarrow> client_service" where
  "seedUsageFromDiscovered order db s =
     (case disc_List db of Inl _ \<Rightarrow> s
      | Inr rows \<Rightarrow>
          fold (\<lambda>i t. case cs_clients s i of None \<Rightarrow> t
                  | Some c \<Rightarrow> fold (seed_assignment s rows c i) (case cs_assignments s i of Some as \<Rightarrow> as | None \<Rightarrow> []) t) order s)"

end
