(* ===== verification/Client_Adoption.thy ===== *)
theory Client_Adoption
  imports Client_Steps Client_Discovery
begin

section \<open>Discovery and adoption keep the invariant\<close>

text \<open>
  Reports, adoptions and the operator's decision to ignore a row are further steps of the panel.
  The table of discovered clients is touched by no other flow, so most lemmas here say what an
  operation leaves alone; the two ways to adopt are a save of a new client and a save of an existing one.
\<close>

subsection \<open>What the table operations leave alone\<close>

definition only_discovered :: "client_db \<Rightarrow> client_db \<Rightarrow> bool" where
  "only_discovered db db' \<longleftrightarrow> db' = db\<lparr>cd_discovered := cd_discovered db'\<rparr>"

lemma only_discovered_refl [simp]: "only_discovered db db"
  by (simp add: only_discovered_def)

lemma only_discovered_set [simp]: "only_discovered db (db\<lparr>cd_discovered := rows\<rparr>)"
  by (simp add: only_discovered_def)

lemma only_discovered_trans: "only_discovered a b \<Longrightarrow> only_discovered b c \<Longrightarrow> only_discovered a c"
  unfolding only_discovered_def by (cases a; cases b; cases c) simp

lemma only_discoveredD:
  assumes "only_discovered db db'"
  shows "cd_clients db' = cd_clients db" "cd_deployments db' = cd_deployments db" "cd_assignments db' = cd_assignments db"
    "cd_usage db' = cd_usage db" "cd_agents db' = cd_agents db"
  using assms unfolding only_discovered_def by (cases db; cases db'; simp)+

lemma disc_writes:
  "disc_Save dc db = Inr db' \<Longrightarrow> only_discovered db db'"
  "disc_UpdateStatus i st t db = Inr db' \<Longrightarrow> only_discovered db db'"
  "disc_UpdateStatusBulk ids st t db = Inr db' \<Longrightarrow> only_discovered db db'"
  "disc_Delete i db = Inr db' \<Longrightarrow> only_discovered db db'"
  by (auto simp: disc_Save_def disc_UpdateStatus_def disc_UpdateStatusBulk_def disc_Delete_def Let_def split: if_splits option.splits)

lemma flip_writes: "flipDuplicateDiscoveredToAdopted i n x t db = Inr db' \<Longrightarrow> only_discovered db db'"
  by (auto simp: flipDuplicateDiscoveredToAdopted_def Let_def dest: disc_writes split: sum.splits if_splits)

lemma mark_merged_only: "only_discovered db (mark_merged i record t db)"
  by (auto simp: mark_merged_def Let_def split: sum.splits dest!: disc_writes(2) flip_writes intro: only_discovered_trans)

lemma prune_only: "only_discovered db (fold (prune_row a seen) rows db)"
proof (induction rows arbitrary: db)
  case (Cons r rows)
  have "only_discovered db (prune_row a seen r db)" by (auto simp: prune_row_def dest: disc_writes(4) split: sum.splits)
  then show ?case using Cons.IH [of "prune_row a seen r db"] only_discovered_trans by simp
qed simp

subsection \<open>Panels that agree on clients\<close>

definition same_clients :: "'q panel \<Rightarrow> 'q panel \<Rightarrow> bool" where
  "same_clients p p' \<longleftrightarrow> cs_clients (pn_svc p') = cs_clients (pn_svc p) \<and> cs_names (pn_svc p') = cs_names (pn_svc p) \<and>
     cs_deployments (pn_svc p') = cs_deployments (pn_svc p) \<and> cd_clients (pn_db p') = cd_clients (pn_db p) \<and>
     cd_deployments (pn_db p') = cd_deployments (pn_db p)"

lemma same_clients_refl [simp]: "same_clients p p"
  by (simp add: same_clients_def)

lemma same_clients_trans: "same_clients p q \<Longrightarrow> same_clients q r \<Longrightarrow> same_clients p r"
  by (simp add: same_clients_def)

lemma same_clients_notice [simp]: "same_clients p (notice n q) = same_clients p q"
  by (simp add: same_clients_def)

lemma same_clients_inv:
  assumes "same_clients p p'"
  shows "panel_inv v p' = panel_inv v p"
proof -
  have "client_inv v (pn_svc p') (pn_db p') = client_inv v (pn_svc p) (pn_db p')"
    using assms by (intro client_inv_cong) (simp_all add: same_clients_def)
  also have "\<dots> = client_inv v (pn_svc p) (pn_db p)"
    using assms by (simp add: same_clients_def client_inv_def clients_agree_def deployments_agree_def)
  finally show ?thesis by (simp add: panel_inv_def)
qed

lemma same_clients_fold: "(\<And>x q. x \<in> set xs \<Longrightarrow> same_clients q (f x q)) \<Longrightarrow> same_clients p (fold f xs p)"
proof (induction xs arbitrary: p)
  case (Cons x xs)
  have "same_clients (f x p) (fold f xs (f x p))" using Cons.prems by (intro Cons.IH) simp
  with Cons.prems [of x p] show ?case using same_clients_trans by simp blast
qed simp

lemma upsert_discovered_same: "same_clients p (upsertDiscoveredClient a record t p)"
  by (auto simp: upsertDiscoveredClient_def same_clients_def NextDiscoveredID_def Let_def
      dest!: disc_writes(1) dest: only_discoveredD split: sum.splits store_error.splits)

lemma discover_record_same: "same_clients p (discover_record names secrets a t record p)"
  using upsert_discovered_same [of p a "record" t]
  by (auto simp: discover_record_def recordDiscoveredOrphan_def same_clients_def Let_def)

lemma prune_same: "same_clients p (pruneStaleDiscoveredForAgent a seen p)"
  using only_discoveredD [OF prune_only [of "pn_db p" a seen]]
  by (auto simp: pruneStaleDiscoveredForAgent_def same_clients_def split: sum.splits)

lemma ReconcileDiscovered_inv: "panel_inv v p \<Longrightarrow> panel_inv v (ReconcileDiscovered env a records unreachable t p)"
proof -
  have "same_clients p (ReconcileDiscovered env a records unreachable t p)"
    unfolding ReconcileDiscovered_def Let_def
    by (auto split: prod.splits intro: same_clients_trans [OF same_clients_fold prune_same] discover_record_same)
  then show "panel_inv v p \<Longrightarrow> ?thesis" by (simp add: same_clients_inv)
qed

lemma seed_same: "same_clients p (seedClientUsage i t dc p)"
  by (auto simp: seedClientUsage_def UpsertUsage_def repo_UpsertUsage_def upsertUsageRow_def applyUsageMirrorLocked_def same_clients_def Let_def
      split: sum.splits if_splits)

lemma IgnoreDiscovered_inv: "panel_inv v p \<Longrightarrow> panel_inv v (snd (IgnoreDiscovered i actor t p))"
proof -
  have "same_clients p (snd (IgnoreDiscovered i actor t p))"
    by (auto simp: IgnoreDiscovered_def same_clients_def dest!: disc_writes(2) dest: only_discoveredD split: sum.splits)
  then show "panel_inv v p \<Longrightarrow> ?thesis" by (simp add: same_clients_inv)
qed

subsection \<open>Adoption as a new client\<close>

lemma buildAdopted_keeps:
  assumes "buildAdoptedClientState mint record sibs secret ex t s = ((c, as, ds), s1)"
  shows "cs_clients s1 = cs_clients s" "cs_names s1 = cs_names s" "cs_deployments s1 = cs_deployments s"
    "cl_name c = dc_clientName record" "cl_secret c = secret" "cl_deletedAt c = None" "cl_id c \<noteq> []" "deployments_for (cl_id c) ds"
proof -
  obtain i s0 where i: "NextClientID s = (i, s0)" by (cases "NextClientID s")
  with assms obtain as' s' where a: "assign_each (agent_assignment i t)
      (map dc_agentID (record # filter (\<lambda>sib. dc_agentID sib \<noteq> [] \<and> dc_agentID sib \<noteq> dc_agentID record) sibs)) s0 = (as', s')" "s1 = s'"
    by (auto simp: buildAdoptedClientState_def Let_def split: prod.splits)
  note k = assign_each_keeps [OF a(1)] sequences_keep(1-3) [of s]
  show "cs_clients s1 = cs_clients s" "cs_names s1 = cs_names s" "cs_deployments s1 = cs_deployments s" using k a(2) i by simp_all
  show "cl_name c = dc_clientName record" "cl_secret c = secret" "cl_deletedAt c = None"
    using assms by (auto simp: buildAdoptedClientState_def Let_def split: prod.splits)
  have ci: "cl_id c = i" using assms i by (auto simp: buildAdoptedClientState_def Let_def split: prod.splits)
  show "cl_id c \<noteq> []" using i ci by (auto simp: NextClientID_def newSequenceID_def Let_def)
  show "deployments_for (cl_id c) ds"
    using assms i by (auto simp: buildAdoptedClientState_def deployments_for_def adopted_deployment_def Let_def split: prod.splits)
qed

lemma persistAdopted_saves:
  assumes "persistAdoptedClient v i c as ds t db = Inr db'"
  obtains sealed db1 where "encryptSecret v (cl_secret c) = Some sealed" "save_transaction (c\<lparr>cl_secret := sealed\<rparr>) as ds db = Inr db1"
    "only_discovered db1 db'"
  using assms by (auto simp: persistAdoptedClient_def dest!: disc_writes(2) flip_writes split: option.splits sum.splits if_splits
      intro: only_discovered_trans)

lemma adopt_as_new_inv:
  assumes env: "env_ok v env" and inv: "panel_inv v p" and plain: "plain_secret secret"
    and free: "\<not> NameTaken (dc_clientName record) [] (pn_svc p)"
    and flow: "adopt_as_new env mint record sibs secret ex i actor t p = (r, p')"
  shows "panel_inv v p'"
proof -
  obtain c as ds s1 where b: "buildAdoptedClientState mint record sibs secret ex t (pn_svc p) = ((c, as, ds), s1)"
    by (metis prod.collapse)
  note k = buildAdopted_keeps [OF b]
  have p1: "panel_inv v (p\<lparr>pn_svc := s1\<rparr>)" using inv inv_svc(1) [OF k(1-3)] by simp
  have e: "ce_vault env = v" "vault_usable v" using env by (simp_all add: env_ok_def)
  show ?thesis
  proof (cases "persistAdoptedClient v i c as ds t (pn_db p)")
    case (Inl err)
    with flow b p1 e show ?thesis by (simp add: adopt_as_new_def)
  next
    case (Inr db)
    then obtain sealed db1 where sv: "encryptSecret v (cl_secret c) = Some sealed"
        "save_transaction (c\<lparr>cl_secret := sealed\<rparr>) as ds (pn_db p) = Inr db1" and od: "only_discovered db1 db"
      by (rule persistAdopted_saves)
    have "\<forall>j d. \<not> living (pn_svc p) j d \<or> cl_name d \<noteq> dc_clientName record"
      using free NameTaken_iff client_invD(1) [OF inv [unfolded panel_inv_def]] no_empty_id [OF inv] by blast
    then have nf: "name_free s1 c" using k(1,4) unfolding name_free_def living_def by metis
    have saved: "SaveState v c as ds s1 (pn_db p) = (None, MirrorReplaceInMemory c as ds s1, db1)" by (simp add: SaveState_def sv)
    have pl: "plain_secret (cl_secret c)" and ci: "client_inv v s1 (pn_db p)" using plain k(5) p1 by (simp_all add: panel_inv_def)
    have "client_inv v (MirrorReplaceInMemory c as ds s1) db1"
      by (rule vaulted.SaveState_inv [OF e(2) pl k(7) ci k(8) nf saved])
    then have "client_inv v (MirrorReplaceInMemory c as ds s1) db"
      using only_discoveredD [OF od] by (simp add: client_inv_def clients_agree_def deployments_agree_def)
    then have q: "panel_inv v (p\<lparr>pn_svc := MirrorReplaceInMemory c as ds s1, pn_db := db\<rparr>)" by (simp add: panel_inv_def)
    let ?q = "notice (PublishClientsUpdated (cl_id c)) (p\<lparr>pn_svc := MirrorReplaceInMemory c as ds s1, pn_db := db\<rparr>)"
    have "same_clients ?q (fold (seedClientUsage (cl_id c) t) (record # sibs) ?q)" by (rule same_clients_fold) (rule seed_same)
    with q flow b Inr e show ?thesis by (auto simp: adopt_as_new_def same_clients_inv)
  qed
qed

subsection \<open>Adoption into an existing client\<close>

lemma found_in: "find P xs = Some x \<Longrightarrow> x \<in> set xs \<and> P x"
  by (auto simp: find_Some_iff)

lemma find_living:
  assumes "MirrorFindClientByNameAndSecret order name secret s = Some c" "clients_agree v s db"
  shows "living s (cl_id c) c" "cl_name c = name" "cl_secret c = secret" "cl_id c \<noteq> []" "plain_secret (cl_secret c)"
proof -
  from assms(1) obtain i where i: "cs_clients s i = Some c" "cl_deletedAt c = None" "cl_name c = name" "cl_secret c = secret"
    by (auto simp: MirrorFindClientByNameAndSecret_def svc_List_def List.map_filter_def dest!: found_in)
  with assms(2) have "cl_id c = i" "i \<noteq> []" "plain_secret (cl_secret c)" by (auto simp: clients_agree_def)
  with i show "living s (cl_id c) c" "cl_name c = name" "cl_secret c = secret" "cl_id c \<noteq> []" "plain_secret (cl_secret c)"
    by (simp_all add: living_def)
qed

lemma merge_inv:
  assumes env: "env_ok v env" and inv: "panel_inv v p"
    and found: "MirrorFindClientByNameAndSecret order name secret (pn_svc p) = Some c"
    and flow: "mergeAdoptIntoExistingClient env c record sibs actor i t p = (r, p')"
  shows "panel_inv v p'"
proof -
  note invs = client_invD [OF inv [unfolded panel_inv_def]]
  note c = find_living [OF found invs(3)]
  obtain as0 ds0 where m: "MirrorAssignmentsAndDeployments (ce_agents env) (cl_id c) (pn_svc p) = (as0, ds0)" by (metis prod.collapse)
  let ?fresh = "uncovered (covered_agents as0) (record # sibs)"
  let ?ds = "ds0 @ map (adopted_deployment (cl_id c) t) ?fresh"
  obtain as1 s1 where a: "assign_each (agent_assignment (cl_id c) t) (map dc_agentID ?fresh) (pn_svc p) = (as1, s1)" by (metis prod.collapse)
  note k = assign_each_keeps [OF a]
  let ?c = "c\<lparr>cl_updatedAt := t\<rparr>"
  have e: "ce_vault env = v" "vault_usable (ce_vault env)" using env by (simp_all add: env_ok_def)
  have "\<forall>d \<in> set ds0. dp_clientID d = cl_id c"
    using m invs(4) by (auto simp: MirrorAssignmentsAndDeployments_def List.map_filter_def deployments_agree_def dep_key_def)
  then have ds: "deployments_for (cl_id ?c) ?ds" by (auto simp: deployments_for_def adopted_deployment_def)
  have p1: "panel_inv (ce_vault env) (p\<lparr>pn_svc := s1\<rparr>)" using inv k inv_svc(1) [of s1 p v] e(1) by simp
  have nf: "name_free (pn_svc (p\<lparr>pn_svc := s1\<rparr>)) ?c"
    using invs(2) c(1) k unfolding name_free_def unique_names_def living_def by (simp add: k) metis
  have pl: "plain_secret (cl_secret ?c)" "cl_id ?c \<noteq> []" using c by simp_all
  obtain er q where sv: "saveStateAndPublish env ?c (as0 @ as1) ?ds (p\<lparr>pn_svc := s1\<rparr>) = (er, q)" by (metis prod.collapse)
  have q: "panel_inv v q" using save_publish_inv [OF e(2) pl p1 ds nf sv] e(1) by simp
  show ?thesis
  proof (cases er)
    case (Some x)
    with flow m a sv q show ?thesis by (simp add: mergeAdoptIntoExistingClient_def)
  next
    case None
    let ?q2 = "fold (seedClientUsage (cl_id c) t) (record # filter (\<lambda>sib. dc_agentID sib \<noteq> dc_agentID record) sibs) q"
    have "same_clients q ?q2" by (rule same_clients_fold) (rule seed_same)
    moreover have "same_clients ?q2 (?q2\<lparr>pn_db := mark_merged i record t (pn_db ?q2)\<rparr>)"
      using only_discoveredD [OF mark_merged_only [of "pn_db ?q2" i "record" t]] by (simp add: same_clients_def)
    ultimately have "same_clients q (?q2\<lparr>pn_db := mark_merged i record t (pn_db ?q2)\<rparr>)" by (rule same_clients_trans)
    with q None flow m a sv show ?thesis by (auto simp: mergeAdoptIntoExistingClient_def Let_def same_clients_inv)
  qed
qed

lemma AdoptDiscovered_inv:
  assumes env: "env_ok v env" and mint: "mint_ok mint" and inv: "panel_inv v p"
    and flow: "adoptDiscoveredClientLocked env mint i actor t p = (r, p')"
  shows "panel_inv v p'"
proof -
  have plain: "plain_secret x" if "normalizedAdoptSecret mint y = Inr x" for x y
    using that mint by (auto simp: normalizedAdoptSecret_def Let_def mint_ok_def dest: hex_plain split: if_splits)
  show ?thesis
    using flow inv adopt_as_new_inv [OF env inv plain] merge_inv [OF env inv]
    by (auto simp: adoptDiscoveredClientLocked_def Let_def split: sum.splits if_splits option.splits)
qed

lemma BulkAdoptDiscovered_inv:
  assumes "env_ok v env" "\<forall>x \<in> set ids. mint_ok (snd x)" "panel_inv v p"
  shows "panel_inv v (snd (BulkAdoptDiscovered env ids actor t p))"
  using assms(2,3)
proof (induction ids arbitrary: p)
  case (Cons x ids)
  obtain i mint where x: "x = (i, mint)" by (cases x)
  obtain r p1 where a: "adoptDiscoveredClientLocked env mint i actor t p = (r, p1)" by (metis prod.collapse)
  have "panel_inv v p1" using AdoptDiscovered_inv [OF assms(1) _ Cons.prems(2) a] Cons.prems(1) x by simp
  then show ?case using Cons.IH [of p1] Cons.prems(1) by (simp add: x a Let_def case_prod_beta)
qed simp

end
