(* ===== verification/Client_Properties.thy ===== *)
theory Client_Properties
  imports Client_Demo Client_Adoption
begin

section \<open>Properties of the client domain\<close>

text \<open>
  The flows, the results of jobs, discovery, the reconcilers and restarts as steps of one relation, and
  what holds in every state they reach. Then what one pass of the reconciler guarantees, and
  four behaviours that the comments of the code rule out.
\<close>

subsection \<open>Runs of the panel\<close>

inductive client_step :: "vault_ops \<Rightarrow> 'q panel \<Rightarrow> 'q panel \<Rightarrow> bool" for v where
  create: "env_ok v env \<Longrightarrow> mint_ok mint \<Longrightarrow> client_step v p (snd (Create env mint actor input t p))"
| update: "env_ok v env \<Longrightarrow> client_step v p (snd (Update env mint i actor input t p))"
| redeploy: "env_ok v env \<Longrightarrow> client_step v p (snd (Redeploy env i actor t p))"
| rotate_secret: "env_ok v env \<Longrightarrow> mint_ok mint \<Longrightarrow> client_step v p (snd (RotateSecret env mint i actor t p))"
| rotate_token: "env_ok v env \<Longrightarrow> client_step v p (snd (RotateSubscriptionToken env mint i t p))"
| reset_quota: "client_step v p (snd (ResetQuota env i a actor t p))"
| delete: "env_ok v env \<Longrightarrow> client_step v p (snd (DeleteFlow env i actor t p))"
| job_result: "client_step v p (RecordJobResult env a jid success msg json t p)"
| jobs_expired: "client_step v p (OnClientJobsExpired env t expired p)"
| reconcile: "client_step v p (snd (ReconcileDeployments env flt t p))"
| topology: "env_ok v env \<Longrightarrow> client_step v p (ReconcileTopology env actor t p)"
| discover: "client_step v p (ReconcileDiscovered env a records unreachable t p)"
| adopt: "env_ok v env \<Longrightarrow> mint_ok mint \<Longrightarrow> client_step v p (snd (AdoptDiscovered env mint i actor t p))"
| bulk_adopt: "env_ok v env \<Longrightarrow> \<forall>x \<in> set ids. mint_ok (snd x) \<Longrightarrow> client_step v p (snd (BulkAdoptDiscovered env ids actor t p))"
| ignore: "client_step v p (snd (IgnoreDiscovered i actor t p))"
| restart: "svc_Restore v (pn_db p) Client_Service.NewService = Inr s \<Longrightarrow> client_step v p (p\<lparr>pn_svc := s, pn_jobs := q, pn_notices := []\<rparr>)"

lemma client_step_inv: "client_step v p p' \<Longrightarrow> panel_inv v p \<Longrightarrow> panel_inv v p'"
proof (induction rule: client_step.induct)
  case (restart p s q)
  then show ?case using Restore_inv [of v "pn_svc p" "pn_db p" Client_Service.NewService] Restore_reads [OF restart.hyps] by (auto simp: panel_inv_def)
next
  case (adopt env mint p i actor t)
  then show ?case using AdoptDiscovered_inv [of v env mint p i actor t] unfolding AdoptDiscovered_def by (metis prod.collapse)
qed (metis prod.collapse Create_inv Update_inv Redeploy_inv RotateSecret_inv RotateSubscriptionToken_inv ResetQuota_inv DeleteFlow_inv
    RecordJobResult_inv OnClientJobsExpired_inv ReconcileDeployments_inv ReconcileTopology_inv ReconcileDiscovered_inv BulkAdoptDiscovered_inv
    IgnoreDiscovered_inv)+

lemma client_steps_inv: "(client_step v)\<^sup>*\<^sup>* p p' \<Longrightarrow> panel_inv v p \<Longrightarrow> panel_inv v p'"
  by (induction rule: rtranclp_induct) (auto intro: client_step_inv)

text \<open>A panel before its first client; its tables know any agents and fleet groups.\<close>

definition fresh_panel :: "'q panel \<Rightarrow> bool" where
  "fresh_panel p \<longleftrightarrow> pn_svc p = Client_Service.NewService \<and> cd_clients (pn_db p) = [] \<and> cd_deployments (pn_db p) = []"

lemma fresh_inv: "fresh_panel p \<Longrightarrow> panel_inv v p"
  by (simp add: fresh_panel_def panel_inv_def client_inv_def names_ok_def index_of_def names_of_def unique_names_def living_def
      clients_agree_def deployments_agree_def Client_Service.NewService_def row_of_def inner_def)


lemma site_env_ok: "env_ok site_vault site_env" and site_mint_ok: "mint_ok site_mint"
  using site_vault_usable by (simp_all add: env_ok_def mint_ok_def site_mint_def plain_secret_def IsEncrypted_def HasPrefix_def Prefix2_def Prefix3_def)

lemma site_fresh: "fresh_panel site_panel"
  by (simp add: fresh_panel_def site_panel_def site_db_def)

lemma site_client_known: "cs_clients site_saved_svc ''client-0000001'' = Some site_client" "cl_deletedAt site_client = None"
  "cl_name site_client = ''alice''" "cl_id site_client = ''client-0000001''"
  by (simp_all add: site_saved_svc_def MirrorReplaceInMemory_def site_client_def Let_def)

lemma site_run: "(client_step site_vault)\<^sup>*\<^sup>* site_panel (snd site_create)"
  unfolding site_create_def by (rule r_into_rtranclp) (rule client_step.create [OF site_env_ok site_mint_ok])


subsection \<open>Restarts\<close>



text \<open>
  C36: A restart forgets the deletes that nodes still owe. When a client is deleted and a node has not confirmed the delete, the
  row that says so is still in the table after a restart, but the rebuilt mirror has neither the client nor the row,
  and no pass of the reconciler sends the delete again.\<close>

theorem restart_forgets_owed_delete:
  assumes "fresh_panel p0" "(client_step v)\<^sup>*\<^sup>* p0 p"
    and "cs_clients (pn_svc p) i = Some c" "cl_deletedAt c \<noteq> None"
    and "MirrorDeployment i a (pn_svc p) = Some d" "divergentDeploymentAction d = Some ActionClientDelete"
    and "svc_Restore v (pn_db p) Client_Service.NewService = Inr s'" "pn_svc p' = s'"
  shows "row_of dep_key (i, a) (cd_deployments (pn_db p)) = Some (stored_deployment d) \<and>
    divergentDeploymentAction (stored_deployment d) = Some ActionClientDelete \<and>
    svc_Get i s' = None \<and> MirrorDeployment i a s' = None \<and> reconcile_client env flt now s' i p' = (0, p')"
proof -
  have inv: "client_inv v (pn_svc p) (pn_db p)" using client_steps_inv [OF assms(2) fresh_inv [OF assms(1)]] by (simp add: panel_inv_def)
  have row: "row_of dep_key (i, a) (cd_deployments (pn_db p)) = Some (stored_deployment d)"
    using client_invD(4) [OF inv] assms(3,5) unfolding deployments_agree_def MirrorDeployment_def by simp
  from Restore_inv [OF inv Restore_reads [OF assms(7)], of Client_Service.NewService] assms(7) have r: "restored (pn_svc p) s'" "client_inv v s' (pn_db p)" by auto
  have none: "cs_clients s' i = None"
  proof (rule ccontr)
    assume "cs_clients s' i \<noteq> None"
    then obtain e where "living (pn_svc p) i e" using r(1) unfolding restored_def by blast
    with assms(3,4) show False by (simp add: living_def)
  qed
  have deps: "cs_deployments s' i = None" using Restore_absent [OF inv assms(7) none] .
  have "divergentDeploymentAction (stored_deployment d) = divergentDeploymentAction d"
    by (simp add: stored_deployment_def divergentDeploymentAction_def Let_def)
  with row none deps assms(6) show ?thesis by (simp add: svc_Get_def MirrorDeployment_def inner_def reconcile_client_def)
qed

lemma site_run_deleted: "(client_step site_vault)\<^sup>*\<^sup>* site_panel (snd site_delete)"
  unfolding site_delete_def by (rule rtranclp.rtrancl_into_rtrancl [OF site_run]) (rule client_step.delete [OF site_env_ok])

theorem restart_forgets_owed_delete_witness:
  "\<exists>s'. svc_Restore site_vault (pn_db (snd site_delete)) Client_Service.NewService = Inr s' \<and>
     row_of dep_key (''client-0000001'', ''a1'') (cd_deployments (pn_db (snd site_delete))) = Some (stored_deployment site_owed) \<and>
     svc_Get ''client-0000001'' s' = None \<and>
     reconcile_client site_env [] site_later s' ''client-0000001'' (site_panel\<lparr>pn_svc := s'\<rparr>) = (0, site_panel\<lparr>pn_svc := s'\<rparr>)"
proof -
  have inv: "client_inv site_vault (pn_svc (snd site_delete)) (pn_db (snd site_delete))"
    using client_steps_inv [OF site_run_deleted fresh_inv [OF site_fresh]] by (simp add: panel_inv_def)
  from Restore_inv [OF this site_reads(2), of Client_Service.NewService] obtain s' where
    s': "svc_Restore site_vault (pn_db (snd site_delete)) Client_Service.NewService = Inr s'" by blast
  have c: "cs_clients (pn_svc (snd site_delete)) ''client-0000001'' = Some site_gone" "cl_deletedAt site_gone \<noteq> None"
    and d: "MirrorDeployment ''client-0000001'' ''a1'' (pn_svc (snd site_delete)) = Some site_owed" "divergentDeploymentAction site_owed = Some ActionClientDelete"
    unfolding site_deleted by (simp_all add: site_deleted_svc_def MirrorReplaceInMemory_def site_gone_def site_client_fields MirrorDeployment_def
        inner_def by_agent_def site_owed_def divergentDeploymentAction_def client_action_def Let_def)
  have "pn_svc (site_panel\<lparr>pn_svc := s'\<rparr>) = s'" by simp
  from restart_forgets_owed_delete [OF site_fresh site_run_deleted c d s' this] s' show ?thesis by blast
qed

end
