(* ===== verification/Client_Delivery.thy ===== *)
theory Client_Delivery
  imports Client_Properties
begin

section \<open>What reaches the nodes\<close>

text \<open>
  The reconciler on top of the job service: what one pass sends, and three ways in which an operation that a
  node still owes is not sent again.
\<close>

lemma inv_keyed: "client_inv v s db \<Longrightarrow> keyed s"
  by (auto simp: client_inv_def clients_agree_def keyed_def)

lemma run_keyed: "fresh_panel p0 \<Longrightarrow> (client_step v)\<^sup>*\<^sup>* p0 p \<Longrightarrow> keyed (pn_svc p)"
  using client_steps_inv [OF _ fresh_inv] inv_keyed unfolding panel_inv_def by blast

subsection \<open>A pass sends everything that is owed\<close>


text \<open>The small panel after a restart, with an empty queue: the node has never confirmed the new client.\<close>

lemma restored_throttle: "svc_Restore v db s0 = Inr s' \<Longrightarrow> cs_lastTry s' = cs_lastTry s0"
proof -
  have "restore_clients v db cs s = Inr r \<Longrightarrow> cs_lastTry r = cs_lastTry s" for cs s r
    by (induction cs arbitrary: s) (auto simp: restore_client_def setMirrorClientLocked_def removeNameIndexLocked_def Let_def split: option.splits if_splits)
  moreover have "cs_lastTry (fold applyUsageMirrorLocked us s) = cs_lastTry s" for us s
    by (induction us arbitrary: s) (simp_all add: applyUsageMirrorLocked_def)
  ultimately show "svc_Restore v db s0 = Inr s' \<Longrightarrow> cs_lastTry s' = cs_lastTry s0"
    by (auto simp: svc_Restore_def recoverSequencesLocked_def Let_def split: sum.splits)
qed

definition site_reboot :: "client_service \<Rightarrow> (service \<times> unit) panel" where
  "site_reboot s = (snd site_create)\<lparr>pn_svc := s, pn_jobs := (Job_Service.NewService, ()), pn_notices := []\<rparr>"

lemma site_rebooted:
  obtains s c where "svc_Restore site_vault site_saved_db Client_Service.NewService = Inr s" "(client_step site_vault)\<^sup>*\<^sup>* site_panel (site_reboot s)"
    "cs_clients s ''client-0000001'' = Some c" "cl_secret c = ''s1''" "cl_name c = ''alice''" "cl_id c = ''client-0000001''" "cs_lastTry s = Map.empty"
    "MirrorDeployment ''client-0000001'' ''a1'' s = Some (stored_deployment site_deployment)" "MirrorDeployment ''client-0000001'' ''a2'' s = None"
proof -
  obtain p where p: "site_create = (Inr (site_client, [site_assignment], [site_deployment]), p)" "pn_svc p = site_saved_svc" "pn_db p = site_saved_db"
    by (rule site_created)
  have db: "pn_db (snd site_create) = site_saved_db" "pn_svc (snd site_create) = site_saved_svc" by (simp_all only: p snd_conv)
  have "client_inv site_vault (pn_svc (snd site_create)) (pn_db (snd site_create))"
    using client_steps_inv [OF site_run fresh_inv [OF site_fresh]] by (simp add: panel_inv_def)
  from Restore_inv [OF this site_reads(1), of Client_Service.NewService, unfolded db] obtain s where
    s: "svc_Restore site_vault site_saved_db Client_Service.NewService = Inr s" "restored site_saved_svc s" by blast
  have alive: "living site_saved_svc ''client-0000001'' site_client" by (simp add: living_def site_client_fields)
  with s(2) obtain c where c: "cs_clients s ''client-0000001'' = Some c" "c\<lparr>cl_createdAt := 0\<rparr> = (stored_client site_client)\<lparr>cl_createdAt := 0\<rparr>"
    unfolding restored_def by blast
  from arg_cong [OF c(2), of cl_secret] arg_cong [OF c(2), of cl_name] arg_cong [OF c(2), of cl_id]
  have f: "cl_secret c = ''s1''" "cl_name c = ''alice''" "cl_id c = ''client-0000001''" by (simp_all add: stored_client_def site_client_def)
  have dep: "MirrorDeployment ''client-0000001'' a s = map_option stored_deployment (inner (cs_deployments site_saved_svc) ''client-0000001'' a)" for a
    using s(2) alive unfolding restored_def MirrorDeployment_def by blast
  have step: "client_step site_vault (snd site_create) (site_reboot s)"
    unfolding site_reboot_def by (rule client_step.restart) (unfold db, rule s(1))
  show thesis
    using rtranclp.rtrancl_into_rtrancl [OF site_run step] dep restored_throttle [OF s(1)]
    by (intro that [OF s(1) _ c(1) f]) (simp_all add: site_client_fields Client_Service.NewService_def)
qed

lemma site_reboot_fields [simp]: "pn_svc (site_reboot s) = s" "pn_jobs (site_reboot s) = (Job_Service.NewService, ())" "pn_notices (site_reboot s) = []"
  by (simp_all add: site_reboot_def)

lemma site_owes: "divergentDeploymentAction (stored_deployment site_deployment) = Some ActionClientCreate"
  by (simp add: divergentDeploymentAction_def stored_deployment_def site_deployment_def client_action_def target_row_def queue_op_def Let_def)


subsection \<open>One read-only node\<close>



subsection \<open>Late results\<close>

text \<open>
  C37: A late result of an older job cancels a delete that a node still owes. When the success of a create, update or rotation
  arrives for a pair that owes a delete, the row takes the older operation as desired and as
  succeeded; the reconciler finds nothing owed any more, and when the delete job expires undelivered
  the row is left alone because it counts as answered.\<close>

theorem late_result_cancels_owed_delete:
  assumes job: "ce_getJob env jid (pn_jobs p) = Some job" "client_action (j_action job)" "j_action job \<noteq> ActionClientDelete"
      "ce_unmarshal env (j_payload job) = Some payload" "pl_clientID payload = i"
    and del: "client_action (j_action del)" "ce_unmarshal env (j_payload del) = Some payload'" "pl_clientID payload' = i"
    and mirror: "MirrorClientExists i (pn_svc p)" "MirrorDeployment i a (pn_svc p) = Some d" "divergentDeploymentAction d = Some ActionClientDelete"
    and tables: "has_client i (pn_db p)" "a \<in> set (cd_agents (pn_db p))"
    and p': "p' = RecordJobResult env a jid True msg json t p"
  shows "\<exists>d'. MirrorDeployment i a (pn_svc p') = Some d' \<and> dp_desiredOperation d' = j_action job \<and>
    divergentDeploymentAction d' = None \<and> OnClientJobsExpired env now [(del, a)] p' = p'"
proof -
  have other: "j_action job \<noteq> ActionClientResetQuota" using job(2) by (auto simp: client_action_def)
  let ?d = "applyClientJobOutcome env (j_action job) True msg json t
    (d\<lparr>dp_clientID := i, dp_agentID := a, dp_desiredOperation := j_action job, dp_updatedAt := t\<rparr>)"
  have f: "dp_clientID ?d = i" "dp_agentID ?d = a" "dp_desiredOperation ?d = j_action job" "dp_status ?d = DeploymentStatusSucceeded"
    using job(3) by (simp_all add: applyClientJobOutcome_def Let_def)
  have made: "applyClientJobDeployment env i a job True msg json t (pn_svc p) = Some ?d"
    using mirror(1,2) by (simp add: applyClientJobDeployment_def)
  have "MirrorDeployment i a (pn_svc p') = Some ?d"
    using tables f made job(1,2,4,5) other unfolding p'
    by (simp add: RecordJobResult_def persist_deployment_def PersistDeployment_def PutDeployment_def upsertDeployment_def Let_def MirrorDeployment_def inner_def)
  moreover have "OnClientJobsExpired env now [(del, a)] p' = p'"
    using calculation del f(4) by (simp add: OnClientJobsExpired_def expire_deployment_def)
  moreover have "divergentDeploymentAction ?d = None" using f(4) by (simp add: divergentDeploymentAction_def Let_def)
  ultimately show ?thesis using f(3) by blast
qed

definition site_job :: "action \<Rightarrow> string \<Rightarrow> job" where
  "site_job op jid = new_job (client_input site_env ''root'' op ''client-0000001'' [''a1''] ''client-0000001|alice'' site_time) ''key'' jid site_time"

definition site_waiting :: "(service \<times> unit) panel" where
  "site_waiting = (snd site_delete)\<lparr>pn_jobs := (Job_Service.NewService\<lparr>sv_jobs :=
     [''job-1'' \<mapsto> site_job ActionClientCreate ''job-1'', ''job-2'' \<mapsto> site_job ActionClientDelete ''job-2'']\<rparr>, ())\<rparr>"

theorem late_result_cancels_owed_delete_witness:
  "\<exists>d'. MirrorDeployment ''client-0000001'' ''a1'' (pn_svc (RecordJobResult site_env ''a1'' ''job-1'' True [] [] site_later site_waiting)) = Some d' \<and>
     dp_desiredOperation d' = ActionClientCreate \<and> divergentDeploymentAction d' = None"
proof -
  have jobs: "ce_getJob site_env ''job-1'' (pn_jobs site_waiting) = Some (site_job ActionClientCreate ''job-1'')"
    by (simp add: site_env_def site_waiting_def Job_Dispatch.Get_def)
  have acts: "j_action (site_job op jid) = op" "j_payload (site_job op jid) = ''client-0000001|alice''" for op jid
    by (simp_all add: site_job_def new_job_def)
  have cut: "cut_at (CHR ''|'') ''client-0000001|alice'' = Some (''client-0000001'', ''alice'')" by (simp add: cut_at_def)
  obtain payload where pl: "ce_unmarshal site_env (j_payload (site_job op jid)) = Some payload" "pl_clientID payload = ''client-0000001''" for op jid
    unfolding acts by (simp add: site_env_def cut)
  have mirror: "MirrorClientExists ''client-0000001'' (pn_svc site_waiting)" "MirrorDeployment ''client-0000001'' ''a1'' (pn_svc site_waiting) = Some site_owed"
    "divergentDeploymentAction site_owed = Some ActionClientDelete" "has_client ''client-0000001'' (pn_db site_waiting)" "''a1'' \<in> set (cd_agents (pn_db site_waiting))"
    by (simp_all add: site_waiting_def site_deleted)
      (simp_all add: site_deleted_svc_def site_deleted_db_def site_db_def MirrorClientExists_def MirrorDeployment_def MirrorReplaceInMemory_def site_gone_def
        site_client_fields inner_def by_agent_def site_owed_def divergentDeploymentAction_def client_action_def has_client_def row_of_def stored_client_def Let_def)
  have ca: "client_action (j_action (site_job ActionClientCreate ''job-1''))" "client_action (j_action (site_job ActionClientDelete ''job-2''))"
    "j_action (site_job ActionClientCreate ''job-1'') \<noteq> ActionClientDelete" by (simp_all add: acts client_action_def)
  from late_result_cancels_owed_delete [OF jobs ca(1,3) pl ca(2) pl mirror refl, of "[]" "[]" site_later site_later]
  show ?thesis unfolding acts by blast
qed

subsection \<open>Two creates at once\<close>

lemma assign_each_seq: "cs_clientSeq (snd (assign_each mk xs s)) = cs_clientSeq s"
  by (induction xs arbitrary: s) (simp_all add: NextAssignmentID_def Let_def case_prod_beta)

lemma assignments_seq: "cs_clientSeq (snd (buildClientAssignments i input t s)) = cs_clientSeq s"
  by (simp add: buildClientAssignments_def Let_def case_prod_beta assign_each_seq)

lemma create_commit_mirror:
  assumes "create_commit env actor input t draft p = (Inr (d, as, ds), p')"
  shows "d = draft\<lparr>cl_id := newSequenceID ''client'' (cs_clientSeq (pn_svc p) + 1)\<rparr> \<and>
    cs_clients (pn_svc p') = (cs_clients (pn_svc p))(cl_id d \<mapsto> d) \<and> cs_clientSeq (pn_svc p') = cs_clientSeq (pn_svc p) + 1"
proof -
  let ?i = "newSequenceID ''client'' (cs_clientSeq (pn_svc p) + 1)" and ?s = "(pn_svc p)\<lparr>cs_clientSeq := cs_clientSeq (pn_svc p) + 1\<rparr>"
  obtain bs s2 where asg: "buildClientAssignments ?i input t ?s = (bs, s2)" by (cases "buildClientAssignments ?i input t ?s")
  from buildClientAssignments_keeps [OF asg] assignments_seq [of ?i input t ?s] asg
  have s2: "cs_clients s2 = cs_clients (pn_svc p)" "cs_clientSeq s2 = cs_clientSeq (pn_svc p) + 1" by simp_all
  have seq: "cs_clientSeq (setMirrorClientLocked c s) = cs_clientSeq s" for c s
    by (simp add: setMirrorClientLocked_def removeNameIndexLocked_def Let_def split: option.split)
  have saved: "cs_clients s3 = (cs_clients s)(cl_id c \<mapsto> c) \<and> cs_clientSeq s3 = cs_clientSeq s"
    if "SaveState v c x y s db = (None, s3, db3)" for v c x y s db s3 db3
    using that by (auto simp: SaveState_def seq MirrorReplaceInMemory_def Let_def split: option.splits sum.splits)
  from assms show ?thesis
    by (auto simp: create_commit_def NextClientID_def asg s2 saveStateAndPublish_def Let_def dest!: saved client_job_cases
        split: if_splits prod.splits option.splits sum.splits)
qed

text \<open>
  Two creates with the same name that overlap both succeed. The name is checked before, and not under the lock of, the save: when
  both requests pass the check before either saves, both clients are stored, and two
  living clients have the same name.\<close>

theorem racing_creates_share_name:
  assumes checks: "create_checks env m1 in1 t1 (pn_svc p) = Inr c1" "create_checks env m2 in2 t2 (pn_svc p) = Inr c2" "cl_name c1 = cl_name c2"
    and commits: "create_commit env actor1 in1 t1 c1 p = (Inr (d1, as1, ds1), p1)" "create_commit env actor2 in2 t2 c2 p1 = (Inr (d2, as2, ds2), p2)"
  shows "cl_id d1 \<noteq> cl_id d2 \<and> living (pn_svc p2) (cl_id d1) d1 \<and> living (pn_svc p2) (cl_id d2) d2 \<and> cl_name d1 = cl_name d2"
proof -
  have alive: "cl_deletedAt c = None" if "create_checks env m input t s = Inr c" for m input t s c
    using that by (auto simp: create_checks_def Let_def split: if_splits sum.splits option.splits)
  note a = create_commit_mirror [OF commits(1)] and b = create_commit_mirror [OF commits(2)]
  have "cs_clientSeq (pn_svc p) + 1 \<noteq> cs_clientSeq (pn_svc p) + 1 + 1" by simp
  then have "newSequenceID ''client'' (cs_clientSeq (pn_svc p) + 1) \<noteq> newSequenceID ''client'' (cs_clientSeq (pn_svc p) + 1 + 1)"
    by (simp only: newSequenceID_def same_append_eq append_assoc pad_zero_inject unsigned_word_eqI word_unat_eq_iff [symmetric]) simp
  with a b alive [OF checks(1)] alive [OF checks(2)] checks(3) show ?thesis by (simp add: living_def)
qed

definition site_mint2 :: client_mint where
  "site_mint2 = site_mint\<lparr>mt_token := ''t2''\<rparr>"

definition site_second :: client where
  "site_second = site_client\<lparr>cl_id := ''client-0000002'', cl_subscriptionToken := ''t2''\<rparr>"

lemma site_second_committed:
  assumes p: "pn_svc p = site_saved_svc" "pn_db p = site_saved_db"
    and keys: "\<forall>k. k \<noteq> client_job_key ActionClientCreate ''client-0000001'' site_time \<longrightarrow> sv_keys (fst (pn_jobs p)) k = None"
  shows "\<exists>as ds p2. create_commit site_env ''root'' site_input site_time (site_second\<lparr>cl_id := []\<rparr>) p = (Inr (site_second, as, ds), p2)"
proof -
  let ?s1 = "site_saved_svc\<lparr>cs_clientSeq := 2\<rparr>" and ?as = "[site_assignment\<lparr>ca_id := ''client-assignment-0000002'', ca_clientID := ''client-0000002''\<rparr>]"
  have seq: "cs_clientSeq site_saved_svc = 1" "cs_assignmentSeq site_saved_svc = 1"
    by (simp_all add: site_saved_svc_def MirrorReplaceInMemory_def setMirrorClientLocked_def Client_Service.NewService_def Let_def)
  have next_id: "NextClientID site_saved_svc = (''client-0000002'', ?s1)" by (simp add: NextClientID_def seq site_ids Let_def)
  have asg: "buildClientAssignments ''client-0000002'' site_input site_time ?s1 = (?as, ?s1\<lparr>cs_assignmentSeq := 2\<rparr>)"
    by (simp add: buildClientAssignments_def NormalizedIDs_def site_input_def site_trim site_assignment_def NextAssignmentID_def seq site_ids Let_def)
  have targets: "ResolveTargetAgentIDs ?as (ce_topology site_env) = [''a1'']"
    by (simp add: ResolveTargetAgentIDs_def site_env_def site_assignment_def assignment_agents_def)
  let ?ds = "BuildDeployments [] ''client-0000002'' [''a1''] ActionClientCreate ActionClientDelete site_time"
  have ds: "?ds = [target_row ''client-0000002'' ActionClientCreate site_time ''a1'' None]"
    by (simp add: BuildDeployments_def queue_target_def target_row_def List.map_filter_def Let_def)
  have named: "site_second\<lparr>cl_id := ''client-0000002''\<rparr> = site_second" "cl_id site_second = ''client-0000002''" by (simp_all add: site_second_def)
  obtain s3 db3 where save: "SaveState site_vault site_second ?as ?ds (?s1\<lparr>cs_assignmentSeq := 2\<rparr>) site_saved_db = (None, s3, db3)"
    unfolding ds
    by (simp add: SaveState_def save_transaction_def repo_Save_def site_saved_db_def site_db_def row_of_def upsert_def SaveAssignments_def
      deleteAssignmentsRaw_def insertAssignment_def has_client_def SaveDeployments_def deleteDeploymentsRaw_def upsertDeployment_def
      site_assignment_def site_second_def site_client_def stored_client_def Let_def)
  let ?p3 = "notice (PublishClientsUpdated ''client-0000002'') (p\<lparr>pn_svc := s3, pn_db := db3\<rparr>)"
  have ne: "client_job_key ActionClientCreate ''client-0000002'' site_time \<noteq> client_job_key ActionClientCreate ''client-0000001'' site_time"
    by (simp add: client_job_key_eq client_action_def)
  have "sv_keys (fst (pn_jobs ?p3)) (client_job_key ActionClientCreate (cl_id site_second) site_time) = None"
    using keys ne by (simp add: notice_def named(2))
  from site_enqueued [OF this, of "''root''" "[''a1'']"] obtain j p4 where
    "EnqueueClientJob site_env ''root'' ActionClientCreate site_second [''a1''] site_time ?p3 = (Inr j, p4)" by blast
  then show ?thesis by (simp add: create_commit_def p next_id asg named targets saveStateAndPublish_def save Let_def)
qed

theorem racing_creates_share_name_witness:
  "\<exists>d1 as1 ds1 p1 d2 as2 ds2 p2.
     create_commit site_env ''root'' site_input site_time (site_client\<lparr>cl_id := []\<rparr>) site_panel = (Inr (d1, as1, ds1), p1) \<and>
     create_commit site_env ''root'' site_input site_time (site_second\<lparr>cl_id := []\<rparr>) p1 = (Inr (d2, as2, ds2), p2) \<and>
     cl_id d1 \<noteq> cl_id d2 \<and> living (pn_svc p2) (cl_id d1) d1 \<and> living (pn_svc p2) (cl_id d2) d2 \<and> cl_name d1 = cl_name d2"
proof -
  have svc: "pn_svc site_panel = Client_Service.NewService" by (simp add: site_panel_def)
  have checks: "create_checks site_env site_mint site_input site_time (pn_svc site_panel) = Inr (site_client\<lparr>cl_id := []\<rparr>)"
    "create_checks site_env site_mint2 site_input site_time (pn_svc site_panel) = Inr (site_second\<lparr>cl_id := []\<rparr>)"
    "cl_name (site_client\<lparr>cl_id := []\<rparr>) = cl_name (site_second\<lparr>cl_id := []\<rparr>)"
    unfolding svc using site_checks
    by (simp_all add: site_second_def create_checks_def site_mint2_def create_secret_def Let_def split: if_splits sum.splits option.splits)
      (auto simp: site_client_def)
  obtain p1 where p1: "site_create = (Inr (site_client, [site_assignment], [site_deployment]), p1)" "pn_svc p1 = site_saved_svc" "pn_db p1 = site_saved_db"
    "\<forall>k. k \<noteq> client_job_key ActionClientCreate ''client-0000001'' site_time \<longrightarrow> sv_keys (fst (pn_jobs p1)) k = None" by (rule site_created)
  have one: "create_commit site_env ''root'' site_input site_time (site_client\<lparr>cl_id := []\<rparr>) site_panel = (Inr (site_client, [site_assignment], [site_deployment]), p1)"
    using p1(1) checks(1) by (simp add: site_create_def Create_def)
  from site_second_committed [OF p1(2-4)] obtain as ds p2 where
    two: "create_commit site_env ''root'' site_input site_time (site_second\<lparr>cl_id := []\<rparr>) p1 = (Inr (site_second, as, ds), p2)" by blast
  from racing_creates_share_name [OF checks one two] one two show ?thesis by blast
qed

subsection \<open>Identifiers after a restart\<close>

lemma deployments_keep_clients: "each_row upsertDeployment ds db = Inr db' \<Longrightarrow> cd_clients db' = cd_clients db"
  by (induction ds arbitrary: db) (auto simp: upsertDeployment_def split: sum.splits if_splits)

lemma SaveState_client_row:
  assumes "SaveState v c as ds s db = (None, s', db')" "row_of cl_id (cl_id c) (cd_clients db) = Some old"
  shows "\<exists>row. row_of cl_id (cl_id c) (cd_clients db') = Some row \<and> cl_deletedAt row = map_option to_seconds (cl_deletedAt c) \<and>
    cl_createdAt row = cl_createdAt old \<and> length (cd_clients db') = length (cd_clients db)"
proof -
  from assms(1) obtain x db1 db2 where
    st: "repo_Save (c\<lparr>cl_secret := x\<rparr>) db = Inr db1" "SaveAssignments (cl_id c) as db1 = Inr db2" "SaveDeployments (cl_id c) ds db2 = Inr db'"
    by (auto simp: SaveState_def save_transaction_def split: option.splits sum.splits)
  have "cd_clients db' = cd_clients db1"
    using SaveAssignments_keeps [OF st(2)] deployments_keep_clients [of ds "deleteDeploymentsRaw (cl_id c) db2" db'] st(3)
    by (simp add: SaveDeployments_def deleteDeploymentsRaw_def)
  moreover have "length (upsert cl_id r (cd_clients db)) = length (cd_clients db)" if "cl_id r = cl_id c" for r
    using assms(2) that by (simp add: upsert_def)
  ultimately show ?thesis
    using st(1) assms(2) by (auto simp: repo_Save_def Let_def stored_client_def split: if_splits)
qed

text \<open>
  A restart hands out the identifiers of deleted clients again. The sequence is restored from the living clients only; when the
  panel restarts with no living client, the next client gets the first identifier, and its save
  overwrites the row that records the deleted client, whose creation instant the new client then has.\<close>

theorem restart_reuses_client_id:
  assumes gone: "\<forall>row \<in> set (cd_clients db). cl_deletedAt row \<noteq> None" "row_of cl_id ''client-0000001'' (cd_clients db) = Some old"
    and boot: "svc_Restore v db Client_Service.NewService = Inr s'" "pn_svc p = s'" "pn_db p = db"
    and new: "Create env mint actor input t p = (Inr (c, as, ds), p')"
  shows "cl_id c = ''client-0000001'' \<and>
    (\<exists>row. row_of cl_id ''client-0000001'' (cd_clients (pn_db p')) = Some row \<and> cl_deletedAt row = None \<and> cl_createdAt row = cl_createdAt old) \<and>
    length (cd_clients (pn_db p')) = length (cd_clients db)"
proof -
  have none: "repo_List db = []" using gone(1) by (simp add: repo_List_def filter_empty_conv)
  have useq: "cs_clientSeq (fold applyUsageMirrorLocked us s) = cs_clientSeq s" for us s
    by (induction us arbitrary: s) (simp_all add: applyUsageMirrorLocked_def)
  have seq: "cs_clientSeq (pn_svc p) = 0"
    using boot by (auto simp: svc_Restore_def none recoverSequencesLocked_def useq Client_Service.NewService_def Let_def split: sum.splits
        dest!: arg_cong [where f = cs_clientSeq])
  from new obtain draft where draft: "create_checks env mint input t (pn_svc p) = Inr draft" "create_commit env actor input t draft p = (Inr (c, as, ds), p')"
    by (auto simp: Create_def split: sum.splits)
  from create_commit_mirror [OF draft(2)] have c: "c = draft\<lparr>cl_id := ''client-0000001''\<rparr>" by (simp add: seq site_ids)
  have alive: "cl_deletedAt draft = None"
    using draft(1) by (auto simp: create_checks_def Let_def split: if_splits sum.splits option.splits)
  from draft(2) obtain s2 s3 where "SaveState (ce_vault env) c as ds s2 (pn_db p) = (None, s3, pn_db p')"
    by (auto simp: create_commit_def saveStateAndPublish_def Let_def dest!: client_job_cases split: if_splits prod.splits option.splits sum.splits)
  from SaveState_client_row [OF this] gone(2) boot(3) c alive show ?thesis by auto
qed

lemma site_empty_boot: "svc_Restore site_vault site_deleted_db Client_Service.NewService = Inr Client_Service.NewService"
  by (simp add: svc_Restore_def disc_List_def disc_order_def repo_List_def site_deleted_db_def site_db_def stored_client_def site_gone_def ListUsage_def
      recoverSequencesLocked_def Client_Service.NewService_def Let_def)

definition site_again :: "(client_error + flow_result) \<times> (service \<times> unit) panel" where
  "site_again = Create site_env site_mint2 ''root'' site_input site_time (site_panel\<lparr>pn_db := site_deleted_db\<rparr>)"

lemma site_again_created: "\<exists>c as ds p. site_again = (Inr (c, as, ds), p)"
proof -
  let ?c = "site_client\<lparr>cl_subscriptionToken := ''t2''\<rparr>"
  have checks: "create_checks site_env site_mint2 site_input site_time Client_Service.NewService = Inr (?c\<lparr>cl_id := []\<rparr>)"
    using site_checks by (simp add: create_checks_def site_mint2_def create_secret_def Let_def split: if_splits sum.splits option.splits) (auto simp: site_client_def)
  have id: "?c\<lparr>cl_id := ''client-0000001''\<rparr> = ?c" "cl_id ?c = ''client-0000001''" by (simp_all add: site_client_def)
  obtain s3 db3 where save: "SaveState site_vault ?c [site_assignment] [site_deployment] (Client_Service.NewService\<lparr>cs_clientSeq := 1, cs_assignmentSeq := 1\<rparr>)
      site_deleted_db = (None, s3, db3)"
    by (simp add: SaveState_def save_transaction_def repo_Save_def site_deleted_db_def site_db_def row_of_def upsert_def SaveAssignments_def
      deleteAssignmentsRaw_def insertAssignment_def has_client_def SaveDeployments_def deleteDeploymentsRaw_def upsertDeployment_def
      site_assignment_def site_deployment_def site_gone_def site_client_def stored_client_def stored_deployment_def site_owed_def target_row_def queue_op_def Let_def)
  have next_id: "NextClientID Client_Service.NewService = (''client-0000001'', Client_Service.NewService\<lparr>cs_clientSeq := 1\<rparr>)"
    by (simp add: NextClientID_def Client_Service.NewService_def site_ids Let_def)
  let ?p3 = "notice (PublishClientsUpdated ''client-0000001'') (site_panel\<lparr>pn_svc := s3, pn_db := db3\<rparr>)"
  have "sv_keys (fst (pn_jobs ?p3)) (client_job_key ActionClientCreate (cl_id ?c) site_time) = None"
    by (simp add: notice_def site_panel_def Job_Service.NewService_def)
  from site_enqueued [OF this, of "''root''" "[''a1'']"] obtain j p4 where
    "EnqueueClientJob site_env ''root'' ActionClientCreate ?c [''a1''] site_time ?p3 = (Inr j, p4)" by blast
  moreover have "pn_svc site_panel = Client_Service.NewService" by (simp add: site_panel_def)
  ultimately show ?thesis
    by (simp add: site_again_def Create_def checks create_commit_def next_id site_assignments id site_targets site_build saveStateAndPublish_def save Let_def)
qed

theorem restart_reuses_client_id_witness:
  "\<exists>c as ds p. Create site_env site_mint2 ''root'' site_input site_time (site_panel\<lparr>pn_db := site_deleted_db\<rparr>) = (Inr (c, as, ds), p) \<and>
     cl_id c = ''client-0000001'' \<and> length (cd_clients (pn_db p)) = 1"
proof -
  from site_again_created obtain c as ds p where new: "Create site_env site_mint2 ''root'' site_input site_time (site_panel\<lparr>pn_db := site_deleted_db\<rparr>) = (Inr (c, as, ds), p)"
    unfolding site_again_def by blast
  have gone: "\<forall>row \<in> set (cd_clients site_deleted_db). cl_deletedAt row \<noteq> None"
    "row_of cl_id ''client-0000001'' (cd_clients site_deleted_db) = Some ((stored_client site_gone)\<lparr>cl_createdAt := to_seconds site_time\<rparr>)"
    "length (cd_clients site_deleted_db) = 1"
    by (simp_all add: site_deleted_db_def stored_client_def site_gone_def row_of_def site_client_def)
  have "pn_svc (site_panel\<lparr>pn_db := site_deleted_db\<rparr>) = Client_Service.NewService" "pn_db (site_panel\<lparr>pn_db := site_deleted_db\<rparr>) = site_deleted_db"
    by (simp_all add: site_panel_def)
  from restart_reuses_client_id [OF gone(1,2) site_empty_boot this new] new gone(3) show ?thesis by auto
qed

subsection \<open>Deregistered agents\<close>

text \<open>What deregistering an agent does to the clients: its rows go by cascade, its usage leaves the mirror.\<close>

definition deregister_agent :: "string \<Rightarrow> 'q panel \<Rightarrow> 'q panel" where
  "deregister_agent agentID p =
     (case DeleteAgent agentID (pn_db p) of Inl _ \<Rightarrow> p
      | Inr db \<Rightarrow> p\<lparr>pn_db := db, pn_svc := DropAgentUsageMirror agentID (pn_svc p)\<rparr>)"

lemma unknown_agent_refused:
  assumes "d \<in> set ds" "dp_agentID d \<notin> set (cd_agents db)"
  shows "\<exists>e. each_row upsertDeployment ds db = Inl e"
  using assms
proof (induction ds arbitrary: db)
  case (Cons x ds)
  show ?case
  proof (cases "upsertDeployment x db")
    case (Inr db1)
    then have "dp_agentID x \<in> set (cd_agents db)" "cd_agents db1 = cd_agents db" by (auto simp: upsertDeployment_def split: if_splits)
    with Cons Inr show ?thesis by auto
  qed simp
qed simp

lemma assignments_keep_agents: "each_row insertAssignment xs db = Inr db' \<Longrightarrow> cd_agents db' = cd_agents db"
  by (induction xs arbitrary: db) (auto simp: insertAssignment_def split: if_splits sum.splits)

lemma unknown_agent_save:
  assumes "d \<in> set ds" "dp_agentID d \<notin> set (cd_agents db)"
  shows "\<exists>e. SaveState v c as ds s db = (Some e, s, db)"
proof (rule ccontr)
  assume "\<nexists>e. SaveState v c as ds s db = (Some e, s, db)"
  then obtain x db1 db2 db' where
    st: "repo_Save (c\<lparr>cl_secret := x\<rparr>) db = Inr db1" "SaveAssignments (cl_id c) as db1 = Inr db2" "SaveDeployments (cl_id c) ds db2 = Inr db'"
    by (auto simp: SaveState_def save_transaction_def split: option.splits sum.splits)
  have "cd_agents db1 = cd_agents db" using st(1) by (auto simp: repo_Save_def Let_def split: if_splits)
  moreover have "cd_agents db2 = cd_agents db1"
    using assignments_keep_agents [OF st(2) [unfolded SaveAssignments_def]] by (simp add: deleteAssignmentsRaw_def)
  ultimately show False
    using unknown_agent_refused [of d ds "deleteDeploymentsRaw (cl_id c) db2"] assms st(3) by (simp add: SaveDeployments_def deleteDeploymentsRaw_def)
qed

lemma BuildDeployments_keeps_agent:
  assumes "d \<in> set cur" shows "\<exists>d' \<in> set (BuildDeployments cur i ts op del t). dp_agentID d' = dp_agentID d"
proof -
  have "by_agent cur (dp_agentID d) \<noteq> None" using assms by (simp add: by_agent_dom)
  then have "by_agent (BuildDeployments cur i ts op del t) (dp_agentID d) \<noteq> None" by (simp add: BuildDeployments_spec(1))
  then show ?thesis by (auto simp: by_agent_dom)
qed

text \<open>
  C39: A deregistered agent makes its clients unchangeable. Deregistering leaves the deployments of the agent in the mirror; every later
  save of such a client writes them again, the foreign key refuses the row, and so rotating the secret and deleting
  the client fail and change nothing, until the panel restarts.\<close>

theorem deregistered_agent_blocks_client:
  assumes c: "cs_clients (pn_svc p) i = Some c" "cl_deletedAt c = None"
    and a: "MirrorDeployment i a (pn_svc p) = Some d" "dp_agentID d = a" "a \<in> set (ce_agents env)" "a \<in> set (cd_agents (pn_db p))"
    and q: "q = deregister_agent a p"
  shows "(\<exists>e. fst (RotateSecret env mint i actor t q) = Inl e) \<and> pn_db (snd (RotateSecret env mint i actor t q)) = pn_db q \<and>
    (\<exists>e. fst (DeleteFlow env i actor t q) = Some e) \<and> pn_db (snd (DeleteFlow env i actor t q)) = pn_db q"
proof -
  have q': "cs_clients (pn_svc q) = cs_clients (pn_svc p)" "cs_deployments (pn_svc q) = cs_deployments (pn_svc p)" "a \<notin> set (cd_agents (pn_db q))"
    using a(4) by (auto simp: q deregister_agent_def DeleteAgent_def DropAgentUsageMirror_def)
  have mem: "d \<in> set (List.map_filter (inner (cs_deployments (pn_svc p)) i) (ce_agents env))"
    using a(1,3) by (force simp: MirrorDeployment_def List.map_filter_def)
  obtain as ds where snap: "living_snapshot env i q = Inr (c, as, ds)" "d \<in> set ds"
    using c mem by (simp add: living_snapshot_def detailSnapshot_def q')
  have fails: "\<exists>e. saveStateAndPublish env x as (BuildDeployments ds i ts op del t) q = (Some e, q)" for x ts op del
  proof -
    from BuildDeployments_keeps_agent [OF snap(2), of i ts op del t] a(2) obtain d' where
      "d' \<in> set (BuildDeployments ds i ts op del t)" "dp_agentID d' = a" by auto
    from unknown_agent_save [of d', OF this(1), of "pn_db q" "ce_vault env" x as "pn_svc q"] this(2) q'(3)
    show ?thesis by (auto simp: saveStateAndPublish_def)
  qed
  have "\<exists>e. RotateSecret env mint i actor t q = (Inl e, q)"
    using fails [of "c\<lparr>cl_secret := mt_secret mint, cl_updatedAt := t\<rparr>" "ResolveTargetAgentIDs as (ce_topology env)" ActionClientRotateSecret ActionClientDelete]
    by (auto simp: RotateSecret_def snap(1) Let_def)
  moreover have "\<exists>e. DeleteFlow env i actor t q = (Some e, q)"
    using fails [of "c\<lparr>cl_enabled := False, cl_updatedAt := t, cl_deletedAt := Some t\<rparr>" _ ActionClientDelete ActionClientDelete]
    by (simp add: DeleteFlow_def snap(1) Let_def) (metis (no_types, lifting) case_prod_conv option.simps(5))
  ultimately show ?thesis by auto
qed

theorem deregistered_agent_blocks_client_witness:
  "\<exists>e f. fst (RotateSecret site_env site_mint ''client-0000001'' ''root'' site_later (deregister_agent ''a1'' (snd site_create))) = Inl e \<and>
     fst (DeleteFlow site_env ''client-0000001'' ''root'' site_later (deregister_agent ''a1'' (snd site_create))) = Some f"
proof -
  obtain p where p: "site_create = (Inr (site_client, [site_assignment], [site_deployment]), p)" "pn_svc p = site_saved_svc" "pn_db p = site_saved_db"
    by (rule site_created)
  have m: "cs_clients (pn_svc p) ''client-0000001'' = Some site_client" "MirrorDeployment ''client-0000001'' ''a1'' (pn_svc p) = Some site_deployment"
    "dp_agentID site_deployment = ''a1''" "''a1'' \<in> set (ce_agents site_env)" "''a1'' \<in> set (cd_agents (pn_db p))"
    unfolding p(2,3) by (simp_all add: MirrorDeployment_def site_client_fields site_deployment_def site_saved_db_def site_db_def)
  from deregistered_agent_blocks_client [OF m(1) site_client_known(2) m(2-5) refl, of site_mint "''root''" site_later]
  show ?thesis unfolding p(1) snd_conv by blast
qed

end
