(* ===== verification/Discovery_Properties.thy ===== *)
theory Discovery_Properties
  imports Client_Properties
begin

section \<open>Properties of discovery and adoption\<close>

text \<open>
  What one adoption and one report do to the managed clients and to the table of discovered
  clients, and four behaviours that the comments of the code rule out.
\<close>

subsection \<open>The nodes of an adoption\<close>

definition same_user :: "discovered \<Rightarrow> discovered \<Rightarrow> bool" where
  "same_user r x \<longleftrightarrow> dc_clientName x = dc_clientName r \<and> dc_secret x = dc_secret r"

lemma siblings_agents:
  "dc_agentID ` set (siblings_of r seen rows) =
   {dc_agentID x | x. x \<in> set rows \<and> dc_id x \<noteq> dc_id r \<and> dc_status x \<noteq> StatusAdopted \<and> same_user r x} - seen"
proof (induction r seen rows rule: siblings_of.induct)
  case (2 r seen x rest)
  then show ?case by (auto simp: same_user_def split: if_splits)
qed simp

lemma siblings_sub: "set (siblings_of r seen rows) \<subseteq> set rows"
  by (induction r seen rows rule: siblings_of.induct) auto

lemma seed_fields:
  "cs_clients (pn_svc (seedClientUsage i t r p)) = cs_clients (pn_svc p)"
  "cs_deployments (pn_svc (seedClientUsage i t r p)) = cs_deployments (pn_svc p)"
  "cd_discovered (pn_db (seedClientUsage i t r p)) = cd_discovered (pn_db p)"
  by (auto simp: seedClientUsage_def UpsertUsage_def repo_UpsertUsage_def upsertUsageRow_def applyUsageMirrorLocked_def Let_def
      split: sum.splits if_splits)

lemma fold_seed_mirror:
  "cs_deployments (pn_svc (fold (seedClientUsage i t) rows p)) = cs_deployments (pn_svc p)"
  "cs_clients (pn_svc (fold (seedClientUsage i t) rows p)) = cs_clients (pn_svc p)"
  "cd_discovered (pn_db (fold (seedClientUsage i t) rows p)) = cd_discovered (pn_db p)"
  by (induction rows arbitrary: p) (simp_all add: seed_fields)

lemma save_transaction_discovered:
  assumes "save_transaction c as ds db = Inr db'"
  shows "cd_discovered db' = cd_discovered db"
proof -
  have "each_row insertAssignment as db1 = Inr db2 \<Longrightarrow> cd_discovered db2 = cd_discovered db1" for as db1 db2
    by (induction as arbitrary: db1) (auto simp: insertAssignment_def split: sum.splits if_splits)
  moreover have "each_row upsertDeployment ds db1 = Inr db2 \<Longrightarrow> cd_discovered db2 = cd_discovered db1" for ds db1 db2
    by (induction ds arbitrary: db1) (auto simp: upsertDeployment_def split: sum.splits if_splits)
  ultimately show ?thesis
    using assms by (fastforce simp: save_transaction_def SaveAssignments_def SaveDeployments_def repo_Save_def deleteAssignmentsRaw_def
        deleteDeploymentsRaw_def Let_def split: sum.splits if_splits)
qed

lemma set_disc_status_keys [simp]: "map dc_id (set_disc_status ids st t rows) = map dc_id rows"
  by (simp add: set_disc_status_def)

lemma set_disc_status_in: "x \<in> set (set_disc_status ids st t rows) \<Longrightarrow> dc_id x \<in> ids \<Longrightarrow> dc_status x = st"
  by (induction rows) (auto simp: set_disc_status_def split: if_splits)

lemma set_disc_status_readable [simp]: "readable_rows (set_disc_status ids st t rows) = readable_rows rows"
  by (induction rows) (simp_all add: readable_rows_def set_disc_status_def)

lemma disc_order_set [simp]: "set (disc_order rows) = set rows"
  by (simp add: disc_order_def)

text \<open>After the duplicates have been marked, every row of the user is adopted.\<close>

lemma flip_adopts_all:
  assumes "flipDuplicateDiscoveredToAdopted i name secret t db = Inr db'" "secret \<noteq> []"
    and "\<forall>x \<in> set (cd_discovered db). dc_id x = i \<longrightarrow> dc_status x = StatusAdopted"
  shows "\<forall>x \<in> set (cd_discovered db'). dc_clientName x = name \<and> dc_secret x = secret \<longrightarrow> dc_status x = StatusAdopted"
    "readable_rows (cd_discovered db)"
proof -
  let ?rows = "cd_discovered db"
  let ?ids = "collectDuplicateDiscoveredIDs (disc_order ?rows) i name secret"
  show r: "readable_rows ?rows"
    using assms(1) by (auto simp: flipDuplicateDiscoveredToAdopted_def disc_List_readable split: if_splits)
  have ids: "set ?ids = {dc_id x | x. x \<in> set ?rows \<and> dc_id x \<noteq> i \<and> dc_secret x = secret \<and> dc_clientName x = name \<and> dc_status x \<noteq> StatusAdopted}"
    using assms(2) by (auto simp: collectDuplicateDiscoveredIDs_def)
  have "cd_discovered db' = set_disc_status (set ?ids) StatusAdopted t ?rows"
  proof (cases "?ids = []")
    case True
    with assms(1) r have "db' = db" by (simp add: flipDuplicateDiscoveredToAdopted_def disc_List_readable)
    with True show ?thesis by (simp add: set_disc_status_def)
  next
    case False
    with assms(1) r show ?thesis
      by (auto simp: flipDuplicateDiscoveredToAdopted_def disc_List_readable disc_UpdateStatusBulk_def disc_status_ok_def Let_def split: if_splits)
  qed
  then show "\<forall>x \<in> set (cd_discovered db'). dc_clientName x = name \<and> dc_secret x = secret \<longrightarrow> dc_status x = StatusAdopted"
    using assms(3) by (auto simp: set_disc_status_def ids)
qed

lemma flip_keys:
  "flipDuplicateDiscoveredToAdopted i name secret t db = Inr db' \<Longrightarrow> map dc_id (cd_discovered db') = map dc_id (cd_discovered db)"
  "flipDuplicateDiscoveredToAdopted i name secret t db = Inr db' \<Longrightarrow> readable_rows (cd_discovered db') = readable_rows (cd_discovered db)"
  by (auto simp: flipDuplicateDiscoveredToAdopted_def disc_UpdateStatusBulk_def Let_def split: sum.splits if_splits)

lemma adopted_rows:
  assumes "persistAdoptedClient v i c as ds t db = Inr db'" "distinct (map dc_id (cd_discovered db))" "disc_Get i db = Inr r" "dc_secret r \<noteq> []"
  shows "\<forall>x \<in> set (cd_discovered db'). same_user r x \<longrightarrow> dc_status x = StatusAdopted" "readable_rows (cd_discovered db)"
    "map dc_id (cd_discovered db') = map dc_id (cd_discovered db)" "readable_rows (cd_discovered db')"
proof -
  from assms(1,3,4) obtain sealed db1 db2 where sv: "save_transaction (c\<lparr>cl_secret := sealed\<rparr>) as ds db = Inr db1"
      and db2: "disc_UpdateStatus i StatusAdopted t db1 = Inr db2"
      and db3: "flipDuplicateDiscoveredToAdopted i (dc_clientName r) (dc_secret r) t db2 = Inr db'"
    by (auto simp: persistAdoptedClient_def split: option.splits sum.splits if_splits)
  note db1 = save_transaction_discovered [OF sv]
  have rows: "cd_discovered db2 = set_disc_status {i} StatusAdopted t (cd_discovered db)"
    using db2 by (auto simp: disc_UpdateStatus_def db1 split: if_splits)
  have "\<forall>x \<in> set (cd_discovered db2). dc_id x = i \<longrightarrow> dc_status x = StatusAdopted"
    using set_disc_status_in [of _ "{i}"] by (simp add: rows)
  note all = flip_adopts_all [OF db3 assms(4) this]
  show "\<forall>x \<in> set (cd_discovered db'). same_user r x \<longrightarrow> dc_status x = StatusAdopted" using all(1) by (simp add: same_user_def)
  show "readable_rows (cd_discovered db)" using all(2) by (simp add: rows)
  show "map dc_id (cd_discovered db') = map dc_id (cd_discovered db)" using flip_keys(1) [OF db3] rows by simp
  show "readable_rows (cd_discovered db')" using flip_keys(2) [OF db3] all(2) by simp
qed


text \<open>
  C6: Adopting a discovered user that the panel does not know yet makes one client of it for all nodes. When the adoption
  succeeds, the new client is in the mirror with the name and the secret that the node reported; it is deployed on exactly the nodes
  that have a row with this name and secret that was not adopted before, rows the operator had set to ignored included; every row of the user is
  adopted; and adopting any of them again is refused and changes nothing.\<close>

theorem adoption_takes_every_node:
  assumes keys: "distinct (map dc_id (cd_discovered (pn_db p)))" "[] \<notin> set (cd_agents (pn_db p))"
      "\<forall>x \<in> set (cd_discovered (pn_db p)). dc_agentID x \<in> set (cd_agents (pn_db p))"
    and r: "disc_Get i (pn_db p) = Inr r" "TrimSpace (dc_secret r) \<noteq> []"
    and new: "MirrorFindClientByNameAndSecret (ce_clients env) (dc_clientName r) (TrimSpace (dc_secret r)) (pn_svc p) = None"
    and adopt: "AdoptDiscovered env mint i actor t p = (Inr c, p')"
  shows "svc_Get (cl_id c) (pn_svc p') = Some c \<and> cl_name c = dc_clientName r \<and> cl_secret c = TrimSpace (dc_secret r) \<and>
    (\<forall>a. MirrorDeployment (cl_id c) a (pn_svc p') \<noteq> None \<longleftrightarrow>
       (\<exists>x \<in> set (cd_discovered (pn_db p)). dc_agentID x = a \<and> same_user r x \<and> dc_status x \<noteq> StatusAdopted)) \<and>
    (\<forall>x \<in> set (cd_discovered (pn_db p')). same_user r x \<longrightarrow>
       dc_status x = StatusAdopted \<and> AdoptDiscovered env mint' (dc_id x) actor' t' p' = (Inl ErrAlreadyAdopted, p'))"
proof -
  let ?rows = "cd_discovered (pn_db p)" and ?sibs = "collectAdoptSiblings r (pn_db p)"
  have sec: "dc_secret r \<noteq> []" using r(2) TrimSpace_solid [of "[]"] by auto
  have rid: "r \<in> set ?rows" "dc_id r = i" using r(1)
    by (auto simp: disc_Get_def scanDiscoveredClient_def dest!: row_of_key split: option.splits if_splits)
  from adopt r new obtain ex where ex: "adopt_as_new env mint r ?sibs (TrimSpace (dc_secret r)) ex i actor t p = (Inr c, p')"
      and open_row: "dc_status r \<noteq> StatusAdopted"
    by (auto simp: AdoptDiscovered_def adoptDiscoveredClientLocked_def normalizedAdoptSecret_def Let_def split: if_splits sum.splits)
  obtain c0 as ds s1 where b: "buildAdoptedClientState mint r ?sibs (TrimSpace (dc_secret r)) ex t (pn_svc p) = ((c0, as, ds), s1)"
    by (metis prod.collapse)
  with ex obtain db where per: "persistAdoptedClient (ce_vault env) i c as ds t (pn_db p) = Inr db" and c0: "c0 = c"
      and p': "cs_clients (pn_svc p') = (cs_clients s1)(cl_id c \<mapsto> c)" "cs_deployments (pn_svc p') = (cs_deployments s1)(cl_id c \<mapsto> by_agent ds)"
        "cd_discovered (pn_db p') = cd_discovered db"
    by (auto simp: adopt_as_new_def Let_def fold_seed_mirror seed_fields MirrorReplaceInMemory_def split: sum.splits)
  note rows = adopted_rows [OF per keys(1) r(1) sec]
  have sibs: "dc_agentID ` set ?sibs = {dc_agentID x | x. x \<in> set ?rows \<and> dc_id x \<noteq> i \<and> dc_status x \<noteq> StatusAdopted \<and> same_user r x} - {dc_agentID r}"
    using siblings_agents [of r "{dc_agentID r}" "disc_order ?rows"] r(2) rows(2) rid(2) by (simp add: collectAdoptSiblings_def disc_List_readable)
  have "set ?sibs \<subseteq> set ?rows"
    using siblings_sub [of r "{dc_agentID r}" "disc_order ?rows"] by (auto simp: collectAdoptSiblings_def disc_List_readable)
  then have "\<forall>x \<in> set ?sibs. dc_agentID x \<noteq> []" using keys(2,3) by (metis subsetD)
  moreover have "dc_agentID r \<notin> dc_agentID ` set ?sibs" unfolding sibs by simp
  ultimately have every: "{x \<in> set ?sibs. dc_agentID x \<noteq> [] \<and> dc_agentID x \<noteq> dc_agentID r} = set ?sibs"
    by (auto simp: image_iff)
  have "dp_agentID ` set ds = insert (dc_agentID r) (dc_agentID ` {x \<in> set ?sibs. dc_agentID x \<noteq> [] \<and> dc_agentID x \<noteq> dc_agentID r})"
    using b by (auto simp: buildAdoptedClientState_def adopted_deployment_def image_image Let_def split: prod.splits)
  then have "dp_agentID ` set ds = insert (dc_agentID r) (dc_agentID ` set ?sibs)" unfolding every .
  also have "\<dots> = {dc_agentID x | x. x \<in> set ?rows \<and> same_user r x \<and> dc_status x \<noteq> StatusAdopted}"
  proof -
    have one: "\<forall>x \<in> set ?rows. dc_id x = i \<longrightarrow> x = r" using keys(1) rid by (metis row_of_distinct option.inject)
    have self: "same_user r r" by (simp add: same_user_def)
    show ?thesis unfolding sibs insert_Diff_single using rid(1) open_row one self by blast
  qed
  finally have agents: "dp_agentID ` set ds = {dc_agentID x | x. x \<in> set ?rows \<and> same_user r x \<and> dc_status x \<noteq> StatusAdopted}" .
  have "AdoptDiscovered env mint' (dc_id x) actor' t' p' = (Inl ErrAlreadyAdopted, p')"
    if x: "x \<in> set (cd_discovered db)" "dc_status x = StatusAdopted" for x
  proof -
    have "row_of dc_id (dc_id x) (cd_discovered db) = Some x" using x(1) keys(1) rows(3) by (intro row_of_distinct) simp_all
    moreover have "readable_rows (cd_discovered db)" using rows(4) .
    ultimately have "disc_Get (dc_id x) (pn_db p') = Inr x" using x(1)
      by (simp add: disc_Get_def p'(3) scanDiscoveredClient_def readable_rows_def list_all_iff)
    with x(2) show ?thesis by (simp add: AdoptDiscovered_def adoptDiscoveredClientLocked_def)
  qed
  with rows(1) have again: "\<forall>x \<in> set (cd_discovered (pn_db p')). same_user r x \<longrightarrow>
       dc_status x = StatusAdopted \<and> AdoptDiscovered env mint' (dc_id x) actor' t' p' = (Inl ErrAlreadyAdopted, p')" by (simp add: p'(3))
  have deployed: "MirrorDeployment (cl_id c) a (pn_svc p') \<noteq> None \<longleftrightarrow>
       (\<exists>x \<in> set ?rows. dc_agentID x = a \<and> same_user r x \<and> dc_status x \<noteq> StatusAdopted)" for a
    using agents by (auto simp: MirrorDeployment_def inner_def p'(2) by_agent_dom)
  note k = buildAdopted_keeps(4,5) [OF b, unfolded c0]
  show ?thesis using again deployed k by (simp add: svc_Get_def p'(1))
qed

subsection \<open>A user on two nodes\<close>

text \<open>The user bob on both nodes of the example panel; the operator ignored him on the second.\<close>

definition hex32 :: string where
  "hex32 = replicate 32 (CHR ''a'')"

definition found_row :: "string \<Rightarrow> string \<Rightarrow> discovered_status \<Rightarrow> gotime \<Rightarrow> discovered" where
  "found_row i a st t = \<lparr>dc_id = i, dc_agentID = a, dc_clientName = ''bob'', dc_secret = hex32, dc_status = st, dc_userADTag = [], dc_enabled = True,
     dc_totalOctets = 5, dc_currentConnections = 0, dc_activeUniqueIPs = 0, dc_connectionLinks = [], dc_maxTCPConns = 0, dc_maxUniqueIPs = 0,
     dc_dataQuotaBytes = 0, dc_expiration = [], dc_firstSeen = t, dc_updatedAt = t\<rparr>"

definition found_db :: client_db where
  "found_db = site_db\<lparr>cd_discovered := [found_row ''discovered-0000001'' ''a1'' StatusPending (site_time + second_ns),
                                        found_row ''discovered-0000002'' ''a2'' StatusIgnored site_time]\<rparr>"

definition found_panel :: "(service \<times> unit) panel" where
  "found_panel = site_panel\<lparr>pn_db := found_db\<rparr>"

lemma hex32_ok: "TrimSpace hex32 = hex32" "IsValidHexSecret hex32" "hex32 \<noteq> []"
proof -
  show "TrimSpace hex32 = hex32" by (rule TrimSpace_solid) (simp add: hex32_def solid_def numeral_eq_Suc)
  show "IsValidHexSecret hex32" by (simp add: hex32_def IsValidHexSecret_def is_hex_def list_all_iff)
  show "hex32 \<noteq> []" by (simp add: hex32_def)
qed

lemma found_list:
  "disc_order (cd_discovered found_db) = cd_discovered found_db" "readable_rows (cd_discovered found_db)"
  by (simp_all add: found_db_def disc_order_def readable_rows_def found_row_def second_ns_def less_eq_prod_def less_prod_def)

abbreviation found1 :: discovered where
  "found1 \<equiv> found_row ''discovered-0000001'' ''a1'' StatusPending (site_time + second_ns)"

abbreviation found2 :: discovered where
  "found2 \<equiv> found_row ''discovered-0000002'' ''a2'' StatusIgnored site_time"

lemma found_row_fields [simp]:
  "dc_id (found_row i a st t) = i" "dc_agentID (found_row i a st t) = a" "dc_clientName (found_row i a st t) = ''bob''"
  "dc_secret (found_row i a st t) = hex32" "dc_status (found_row i a st t) = st" "dc_expiration (found_row i a st t) = []"
  by (simp_all add: found_row_def)

lemma found_rows: "cd_discovered found_db = [found1, found2]"
  by (simp add: found_db_def)

lemma found_get: "disc_Get ''discovered-0000001'' found_db = Inr found1"
  by (simp add: disc_Get_def found_rows row_of_def scanDiscoveredClient_def) (simp add: found_row_def)

lemma found_siblings: "collectAdoptSiblings found1 found_db = [found2]"
  unfolding collectAdoptSiblings_def disc_List_readable found_list using found_list(2) by (simp add: found_rows hex32_ok)

definition found_client :: client where
  "found_client = \<lparr>cl_id = ''client-0000001'', cl_name = ''bob'', cl_secret = hex32, cl_userADTag = [], cl_enabled = True, cl_maxTCPConns = 0,
     cl_maxUniqueIPs = 0, cl_dataQuotaBytes = 0, cl_expiration = [], cl_subscriptionToken = ''t1'', cl_createdAt = site_time,
     cl_updatedAt = site_time, cl_deletedAt = None\<rparr>"

definition found_assignments :: "assignment list" where
  "found_assignments = [agent_assignment ''client-0000001'' site_time ''client-assignment-0000001'' ''a1'',
                        agent_assignment ''client-0000001'' site_time ''client-assignment-0000002'' ''a2'']"

definition found_deployments :: "deployment list" where
  "found_deployments = map (adopted_deployment ''client-0000001'' site_time) [found1, found2]"

lemma found_built:
  "buildAdoptedClientState site_mint found1 [found2] hex32 [] site_time Client_Service.NewService =
     ((found_client, found_assignments, found_deployments), Client_Service.NewService\<lparr>cs_clientSeq := 1, cs_assignmentSeq := 2\<rparr>)"
  by (simp add: buildAdoptedClientState_def NextClientID_def NextAssignmentID_def Client_Service.NewService_def site_ids found_client_def
      found_assignments_def found_deployments_def site_mint_def Let_def) (simp add: found_row_def)

lemma found_saved:
  "\<exists>db. save_transaction found_client found_assignments found_deployments found_db = Inr db \<and> cd_discovered db = [found1, found2]"
  by (simp add: save_transaction_def repo_Save_def found_db_def site_db_def row_of_def upsert_def SaveAssignments_def deleteAssignmentsRaw_def
      insertAssignment_def has_client_def SaveDeployments_def deleteDeploymentsRaw_def upsertDeployment_def found_assignments_def found_deployments_def
      agent_assignment_def adopted_deployment_def found_client_def stored_client_def zero_deployment_def Let_def)

lemma found_adopted:
  obtains p' where "AdoptDiscovered site_env site_mint ''discovered-0000001'' ''root'' site_time found_panel = (Inr found_client, p')"
proof -
  have svc: "pn_svc found_panel = Client_Service.NewService" "pn_db found_panel = found_db" by (simp_all add: found_panel_def site_panel_def)
  obtain db where sv: "save_transaction found_client found_assignments found_deployments found_db = Inr db" "cd_discovered db = [found1, found2]"
    using found_saved by blast
  have plain: "found_client\<lparr>cl_secret := cl_secret found_client\<rparr> = found_client" by simp
  have get: "disc_Get ''discovered-0000001'' found_db = Inr found1" by (rule found_get)
  have upd: "disc_UpdateStatus ''discovered-0000001'' StatusAdopted site_time db =
      Inr (db\<lparr>cd_discovered := set_disc_status {''discovered-0000001''} StatusAdopted site_time [found1, found2]\<rparr>)"
    by (simp add: disc_UpdateStatus_def sv(2) row_of_def disc_status_ok_def)
  have "readable_rows [found1, found2]" using found_list(2) by (simp add: found_rows)
  then have "\<exists>db'. flipDuplicateDiscoveredToAdopted ''discovered-0000001'' ''bob'' hex32 site_time
      (db\<lparr>cd_discovered := set_disc_status {''discovered-0000001''} StatusAdopted site_time [found1, found2]\<rparr>) = Inr db'"
    by (simp add: flipDuplicateDiscoveredToAdopted_def disc_List_readable disc_UpdateStatusBulk_def disc_status_ok_def Let_def)
  then obtain db' where "persistAdoptedClient site_vault ''discovered-0000001'' found_client found_assignments found_deployments site_time found_db = Inr db'"
    by (auto simp: persistAdoptedClient_def get sv(1) upd plain hex32_ok)
  moreover have "MirrorFindClientByNameAndSecret [''client-0000001'', ''client-0000002''] ''bob'' hex32 Client_Service.NewService = None"
      "\<not> NameTaken ''bob'' [] Client_Service.NewService"
    by (simp_all add: MirrorFindClientByNameAndSecret_def svc_List_def List.map_filter_def NameTaken_def Client_Service.NewService_def)
  moreover have "NormalizeExpiration (ce_parseTime site_env) [] = Inr []" by (simp add: NormalizeExpiration_def site_trim)
  ultimately show thesis
    using that by (simp add: AdoptDiscovered_def adoptDiscoveredClientLocked_def svc get normalizedAdoptSecret_def hex32_ok found_siblings
        adopt_as_new_def found_built Let_def)
qed

theorem adoption_takes_every_node_witness:
  "\<exists>p'. AdoptDiscovered site_env site_mint ''discovered-0000001'' ''root'' site_time found_panel = (Inr found_client, p') \<and>
     svc_Get ''client-0000001'' (pn_svc p') = Some found_client \<and>
     MirrorDeployment ''client-0000001'' ''a1'' (pn_svc p') \<noteq> None \<and> MirrorDeployment ''client-0000001'' ''a2'' (pn_svc p') \<noteq> None"
proof -
  obtain p' where p': "AdoptDiscovered site_env site_mint ''discovered-0000001'' ''root'' site_time found_panel = (Inr found_client, p')"
    by (rule found_adopted)
  have svc: "pn_svc found_panel = Client_Service.NewService" "pn_db found_panel = found_db" by (simp_all add: found_panel_def site_panel_def)
  have none: "MirrorFindClientByNameAndSecret (ce_clients site_env) (dc_clientName found1) (TrimSpace (dc_secret found1)) (pn_svc found_panel) = None"
    by (simp add: svc MirrorFindClientByNameAndSecret_def svc_List_def List.map_filter_def Client_Service.NewService_def)
  have keys: "distinct (map dc_id (cd_discovered (pn_db found_panel)))" "[] \<notin> set (cd_agents (pn_db found_panel))"
      "\<forall>x \<in> set (cd_discovered (pn_db found_panel)). dc_agentID x \<in> set (cd_agents (pn_db found_panel))"
    by (simp_all add: svc found_rows) (simp_all add: found_db_def site_db_def)
  have r: "disc_Get ''discovered-0000001'' (pn_db found_panel) = Inr found1" "TrimSpace (dc_secret found1) \<noteq> []"
    by (simp_all add: svc found_get hex32_ok)
  note all = adoption_takes_every_node [OF keys r none p']
  have id: "cl_id found_client = ''client-0000001''" by (simp add: found_client_def)
  from all have "MirrorDeployment ''client-0000001'' a (pn_svc p') \<noteq> None \<longleftrightarrow>
       (\<exists>x \<in> set [found1, found2]. dc_agentID x = a \<and> same_user found1 x \<and> dc_status x \<noteq> StatusAdopted)" for a
    by (simp only: id svc found_rows)
  then have "MirrorDeployment ''client-0000001'' ''a1'' (pn_svc p') \<noteq> None" "MirrorDeployment ''client-0000001'' ''a2'' (pn_svc p') \<noteq> None"
    by (simp_all add: same_user_def)
  with all p' id show ?thesis by simp
qed

subsection \<open>The traffic counter of a merged client\<close>

lemma seed_usage:
  "MirrorUsageEntryFor j b (pn_svc (seedClientUsage i t r p)) =
     (if j = i \<and> b = dc_agentID r
      then Some \<lparr>ug_clientID = i, ug_agentID = dc_agentID r, ug_trafficUsedBytes = dc_totalOctets r,
              ug_uniqueIPsUsed = uint (dc_activeUniqueIPs r), ug_activeTCPConns = uint (dc_currentConnections r),
              ug_activeUniqueIPs = uint (dc_activeUniqueIPs r), ug_quotaUsedBytes = 0, ug_quotaLastResetUnix = 0,
              ug_agentBootID = [], ug_lastTotalBytes = 0, ug_observedAt = t\<rparr>
      else MirrorUsageEntryFor j b (pn_svc p))"
  by (auto simp: seedClientUsage_def UpsertUsage_def applyUsageMirrorLocked_def MirrorUsageEntryFor_def inner_def Let_def split: sum.splits option.splits)

lemma fold_seed_other: "\<forall>x \<in> set rows. dc_agentID x \<noteq> b \<Longrightarrow>
  MirrorUsageEntryFor j b (pn_svc (fold (seedClientUsage i t) rows p)) = MirrorUsageEntryFor j b (pn_svc p)"
  by (induction rows arbitrary: p) (auto simp: seed_usage)

text \<open>
  Adopting a row of a user that is managed on this node already resets the traffic of the client. The adoption finds the client and writes the octets of
  the row over the counter that the panel had accumulated for the node, together with an empty watermark and a cleared quota, whatever they were.\<close>

theorem merge_overwrites_traffic:
  fixes p :: "'q panel"
  assumes r: "disc_Get i (pn_db p) = Inr r" "TrimSpace (dc_secret r) \<noteq> []"
    and found: "MirrorFindClientByNameAndSecret (ce_clients env) (dc_clientName r) (TrimSpace (dc_secret r)) (pn_svc p) = Some c"
    and adopt: "AdoptDiscovered env mint i actor t p = (Inr c', p')"
  shows "\<exists>u. MirrorUsageEntryFor (cl_id c) (dc_agentID r) (pn_svc p') = Some u \<and> ug_trafficUsedBytes u = dc_totalOctets r \<and>
    ug_quotaUsedBytes u = 0 \<and> ug_agentBootID u = [] \<and> ug_lastTotalBytes u = 0"
proof -
  let ?sibs = "collectAdoptSiblings r (pn_db p)"
  have merged: "mergeAdoptIntoExistingClient env c r ?sibs actor i t p = (Inr c', p')"
    using adopt r found by (auto simp: AdoptDiscovered_def adoptDiscoveredClientLocked_def normalizedAdoptSecret_def Let_def split: if_splits sum.splits)
  then have "\<exists>q :: 'q panel. pn_svc p' = pn_svc (fold (seedClientUsage (cl_id c) t) (filter (\<lambda>x. dc_agentID x \<noteq> dc_agentID r) ?sibs) (seedClientUsage (cl_id c) t r q))"
    by (auto simp: mergeAdoptIntoExistingClient_def Let_def split: prod.splits option.splits)
  then obtain q :: "'q panel" where "pn_svc p' = pn_svc (fold (seedClientUsage (cl_id c) t) (filter (\<lambda>x. dc_agentID x \<noteq> dc_agentID r) ?sibs) (seedClientUsage (cl_id c) t r q))"
    by blast
  then show ?thesis by (simp add: MirrorUsageEntryFor_def [symmetric] fold_seed_other seed_usage)
qed

text \<open>Bob is managed on both nodes and has used a thousand bytes on the first, whose old row still waits for review.\<close>

definition merge_svc :: client_service where
  "merge_svc = (MirrorReplaceInMemory found_client found_assignments found_deployments (Client_Service.NewService\<lparr>cs_clientSeq := 1, cs_assignmentSeq := 2\<rparr>))
     \<lparr>cs_usage := [''client-0000001'' \<mapsto> [''a1'' \<mapsto> \<lparr>ug_clientID = ''client-0000001'', ug_agentID = ''a1'', ug_trafficUsedBytes = 1000, ug_uniqueIPsUsed = 0,
        ug_activeTCPConns = 0, ug_activeUniqueIPs = 0, ug_quotaUsedBytes = 1000, ug_quotaLastResetUnix = 0, ug_agentBootID = ''b'', ug_lastTotalBytes = 1000,
        ug_observedAt = site_time\<rparr>]]\<rparr>"

definition merge_panel :: "(service \<times> unit) panel" where
  "merge_panel = site_panel\<lparr>pn_svc := merge_svc, pn_db := site_db\<lparr>cd_clients := [stored_client found_client], cd_discovered := [found1]\<rparr>\<rparr>"

lemma merge_fields:
  "cs_clients merge_svc = [''client-0000001'' \<mapsto> found_client]" "cs_assignments merge_svc = [''client-0000001'' \<mapsto> found_assignments]"
  "inner (cs_deployments merge_svc) ''client-0000001'' = by_agent found_deployments"
  by (simp_all add: merge_svc_def MirrorReplaceInMemory_def setMirrorClientLocked_def Client_Service.NewService_def found_client_def inner_def Let_def)

lemma merge_deployments:
  "MirrorAssignmentsAndDeployments [''a1'', ''a2''] ''client-0000001'' merge_svc = (found_assignments, found_deployments)"
  by (simp add: MirrorAssignmentsAndDeployments_def merge_fields) (simp add: found_deployments_def by_agent_def adopted_deployment_def List.map_filter_def)

lemma merge_saved:
  "\<exists>db. SaveState site_vault (found_client\<lparr>cl_updatedAt := site_later\<rparr>) found_assignments found_deployments merge_svc (pn_db merge_panel) =
     (None, MirrorReplaceInMemory (found_client\<lparr>cl_updatedAt := site_later\<rparr>) found_assignments found_deployments merge_svc, db)"
  by (simp add: SaveState_def save_transaction_def merge_panel_def repo_Save_def site_db_def row_of_def upsert_def SaveAssignments_def deleteAssignmentsRaw_def
      insertAssignment_def has_client_def SaveDeployments_def deleteDeploymentsRaw_def upsertDeployment_def found_assignments_def found_deployments_def
      agent_assignment_def adopted_deployment_def found_client_def stored_client_def zero_deployment_def Let_def)

theorem merge_overwrites_traffic_witness:
  "\<exists>c' p' u. MirrorUsageEntryFor ''client-0000001'' ''a1'' (pn_svc merge_panel) \<noteq> None \<and>
     AdoptDiscovered site_env site_mint ''discovered-0000001'' ''root'' site_later merge_panel = (Inr c', p') \<and>
     MirrorUsageEntryFor ''client-0000001'' ''a1'' (pn_svc p') = Some u \<and> ug_trafficUsedBytes u = 5"
proof -
  have get: "disc_Get ''discovered-0000001'' (pn_db merge_panel) = Inr found1"
    by (simp add: merge_panel_def disc_Get_def row_of_def scanDiscoveredClient_def) (simp add: found_row_def)
  have svc: "pn_svc merge_panel = merge_svc" by (simp add: merge_panel_def)
  have found: "MirrorFindClientByNameAndSecret (ce_clients site_env) (dc_clientName found1) (TrimSpace (dc_secret found1)) (pn_svc merge_panel) = Some found_client"
    by (simp add: svc MirrorFindClientByNameAndSecret_def svc_List_def List.map_filter_def merge_fields hex32_ok) (simp add: found_client_def)
  have sec: "TrimSpace (dc_secret found1) \<noteq> []" by (simp add: hex32_ok)
  have "NormalizeExpiration (ce_parseTime site_env) [] = Inr []" by (simp add: NormalizeExpiration_def site_trim)
  moreover obtain db where "SaveState site_vault (found_client\<lparr>cl_updatedAt := site_later\<rparr>) found_assignments found_deployments merge_svc (pn_db merge_panel) =
     (None, MirrorReplaceInMemory (found_client\<lparr>cl_updatedAt := site_later\<rparr>) found_assignments found_deployments merge_svc, db)" using merge_saved by blast
  moreover have "covered_agents found_assignments = {''a1'', ''a2''}" by (simp add: covered_agents_def found_assignments_def agent_assignment_def)
  moreover have "collectAdoptSiblings found1 (pn_db merge_panel) = []"
    by (simp add: collectAdoptSiblings_def merge_panel_def disc_List_readable disc_order_def)
  moreover have "cl_id found_client = ''client-0000001''" by (simp add: found_client_def)
  ultimately obtain c' p' where a: "AdoptDiscovered site_env site_mint ''discovered-0000001'' ''root'' site_later merge_panel = (Inr c', p')"
    using found by (simp add: AdoptDiscovered_def adoptDiscoveredClientLocked_def get normalizedAdoptSecret_def hex32_ok mergeAdoptIntoExistingClient_def
        svc merge_deployments saveStateAndPublish_def Let_def)
  have "MirrorUsageEntryFor ''client-0000001'' ''a1'' (pn_svc merge_panel) \<noteq> None" by (simp add: svc merge_svc_def MirrorUsageEntryFor_def inner_def)
  moreover have "dc_totalOctets found1 = 5" by (simp add: found_row_def)
  ultimately show ?thesis using merge_overwrites_traffic [OF get sec found a] a \<open>cl_id found_client = _\<close> by auto
qed

end
