(* ===== verification/Discovery_Reports.thy ===== *)
theory Discovery_Reports
  imports Discovery_Properties
begin

section \<open>What a report does to the table of discovered clients\<close>

text \<open>
  The table after one report of a node: first the effect of one user of the report, then of the
  clean-up at its end, then of the whole report; and two reports the code does not cope with.
\<close>

subsection \<open>One user\<close>

text \<open>
  The constraints of the table, rows that can be read, an agent the panel knows, and identifiers that the sequence
  has not reached.
\<close>

definition rows_wf :: "discovered list \<Rightarrow> bool" where
  "rows_wf rows \<longleftrightarrow> distinct (map dc_id rows) \<and> distinct (map disc_key rows) \<and> readable_rows rows \<and> list_all (\<lambda>r. disc_status_ok (dc_status r)) rows"

definition ids_below :: "uint64 \<Rightarrow> discovered list \<Rightarrow> bool" where
  "ids_below n rows \<longleftrightarrow> (\<forall>m. n < m \<longrightarrow> newSequenceID ''discovered'' m \<notin> dc_id ` set rows)"

definition table_ok :: "string \<Rightarrow> 'q panel \<Rightarrow> bool" where
  "table_ok a p \<longleftrightarrow> rows_wf (cd_discovered (pn_db p)) \<and> a \<in> set (cd_agents (pn_db p)) \<and>
     ids_below (cs_discoveredSeq (pn_svc p)) (cd_discovered (pn_db p))"

text \<open>The row carries what the node reported.\<close>

definition carries :: "string \<Rightarrow> client_detail \<Rightarrow> discovered \<Rightarrow> bool" where
  "carries a r x \<longleftrightarrow> disc_key x = (a, cr_clientName r) \<and> dc_secret x = cr_secret r \<and> dc_totalOctets x = cr_totalOctets r \<and>
     dc_connectionLinks x = cr_connectionLinks r \<and> dc_maxTCPConns x = cr_maxTCPConns r \<and> dc_maxUniqueIPs x = cr_maxUniqueIPs r \<and>
     dc_dataQuotaBytes x = sint (cr_dataQuotaBytes r) \<and> dc_expiration x = cr_expiration r \<and> dc_userADTag x = cr_userADTag r \<and>
     dc_enabled x = cr_enabled r"

definition status_before :: "discovered option \<Rightarrow> discovered_status" where
  "status_before old = (case old of None \<Rightarrow> StatusPending | Some x \<Rightarrow> dc_status x)"

lemma newSequenceID_inject: "newSequenceID p n = newSequenceID p m \<longleftrightarrow> n = m"
  by (simp add: newSequenceID_def pad_zero_inject word_unat_eq_iff)

lemma row_of_set: "distinct (map key rows) \<Longrightarrow> row_of key k rows = Some x \<longleftrightarrow> x \<in> set rows \<and> key x = k"
  using row_of_distinct row_of_key by metis

text \<open>Replacing a row by one with the same two keys.\<close>

lemma replace_row:
  assumes wf: "rows_wf rows" and old: "old \<in> set rows" and r: "dc_id r = dc_id old" "disc_key r = disc_key old"
    "uint (dc_totalOctets r) < 2 ^ 63" "disc_status_ok (dc_status r)"
  shows "rows_wf (upsert dc_id r rows)"
    "row_of disc_key k (upsert dc_id r rows) = (if k = disc_key r then Some r else row_of disc_key k rows)"
    "dc_id ` set (upsert dc_id r rows) = dc_id ` set rows"
    "filter (\<lambda>x. dc_agentID x \<noteq> dc_agentID r) (upsert dc_id r rows) = filter (\<lambda>x. dc_agentID x \<noteq> dc_agentID r) rows"
proof -
  let ?f = "\<lambda>x. if dc_id x = dc_id r then r else x"
  have up: "upsert dc_id r rows = map ?f rows" using old r(1) by (auto simp: upsert_def row_of_None)
  have one: "dc_id x = dc_id r \<longleftrightarrow> x = old" if "x \<in> set rows" for x
    using wf old r(1) that unfolding rows_wf_def by (metis row_of_distinct option.inject)
  have ids: "map dc_id (map ?f rows) = map dc_id rows" by simp
  have keys: "map disc_key (map ?f rows) = map disc_key rows" using one r(2) by simp
  have kd: "distinct (map disc_key rows)" using wf by (simp add: rows_wf_def)
  have keyd: "disc_key x = disc_key r \<longleftrightarrow> x = old" if "x \<in> set rows" for x
    using kd old r(2) that by (metis row_of_distinct option.inject)
  show "rows_wf (upsert dc_id r rows)"
    using wf r(3,4) unfolding up rows_wf_def ids keys by (auto simp: readable_rows_def list_all_iff)
  show "dc_id ` set (upsert dc_id r rows) = dc_id ` set rows" unfolding up using ids by (metis list.set_map)
  have eq: "map ?f rows = map (\<lambda>x. if disc_key x = disc_key r then r else x) rows" using one keyd by simp
  show "row_of disc_key k (upsert dc_id r rows) = (if k = disc_key r then Some r else row_of disc_key k rows)"
    unfolding up eq row_of_map using row_of_distinct [OF kd old] r(2) by simp
  have "dc_agentID old = dc_agentID r" using r(2) by (simp add: disc_key_def)
  then show "filter (\<lambda>x. dc_agentID x \<noteq> dc_agentID r) (upsert dc_id r rows) = filter (\<lambda>x. dc_agentID x \<noteq> dc_agentID r) rows"
    unfolding up using one by (induction rows) auto
qed

lemma append_row:
  assumes wf: "rows_wf rows" and r: "dc_id r \<notin> dc_id ` set rows" "row_of disc_key (disc_key r) rows = None"
    "uint (dc_totalOctets r) < 2 ^ 63" "disc_status_ok (dc_status r)"
  shows "rows_wf (rows @ [r])" "row_of disc_key k (rows @ [r]) = (if k = disc_key r then Some r else row_of disc_key k rows)"
proof -
  show "rows_wf (rows @ [r])" using assms by (auto simp: rows_wf_def readable_rows_def row_of_None)
  have "row_of disc_key k [r] = (if k = disc_key r then Some r else None)" by (simp add: row_of_def)
  then show "row_of disc_key k (rows @ [r]) = (if k = disc_key r then Some r else row_of disc_key k rows)"
    using r(2) by (auto simp: row_of_append split: option.split)
qed

text \<open>What one unmanaged user of a report does to the table.\<close>

lemma upsert_discovered:
  assumes ok: "table_ok a p" and small: "uint (cr_totalOctets r) < 2 ^ 63" and seq: "unat (cs_discoveredSeq (pn_svc p)) + 1 < 2 ^ 64"
    and p': "p' = upsertDiscoveredClient a r t p"
  shows "table_ok a p'" "unat (cs_discoveredSeq (pn_svc p')) \<le> unat (cs_discoveredSeq (pn_svc p)) + 1"
    "\<exists>x. row_of disc_key (a, cr_clientName r) (cd_discovered (pn_db p')) = Some x \<and> carries a r x \<and>
       dc_status x = status_before (row_of disc_key (a, cr_clientName r) (cd_discovered (pn_db p)))"
    "k \<noteq> (a, cr_clientName r) \<Longrightarrow> row_of disc_key k (cd_discovered (pn_db p')) = row_of disc_key k (cd_discovered (pn_db p))"
    "filter (\<lambda>x. dc_agentID x \<noteq> a) (cd_discovered (pn_db p')) = filter (\<lambda>x. dc_agentID x \<noteq> a) (cd_discovered (pn_db p))"
proof -
  let ?rows = "cd_discovered (pn_db p)" and ?k = "(a, cr_clientName r)"
  have wf: "rows_wf ?rows" and known: "a \<in> set (cd_agents (pn_db p))" and below: "ids_below (cs_discoveredSeq (pn_svc p)) ?rows"
    using ok by (simp_all add: table_ok_def)
  have kd: "distinct (map disc_key ?rows)" "distinct (map dc_id ?rows)" using wf by (simp_all add: rows_wf_def)
  have scan: "scanDiscoveredClient x = Inr x" "disc_status_ok (dc_status x)" if "x \<in> set ?rows" for x
    using wf that by (auto simp: rows_wf_def readable_rows_def list_all_iff scanDiscoveredClient_def)
  have goal: "table_ok a p' \<and> unat (cs_discoveredSeq (pn_svc p')) \<le> unat (cs_discoveredSeq (pn_svc p)) + 1 \<and>
    (\<exists>x. row_of disc_key ?k (cd_discovered (pn_db p')) = Some x \<and> carries a r x \<and> dc_status x = status_before (row_of disc_key ?k ?rows)) \<and>
    (k \<noteq> ?k \<longrightarrow> row_of disc_key k (cd_discovered (pn_db p')) = row_of disc_key k ?rows) \<and>
    filter (\<lambda>x. dc_agentID x \<noteq> a) (cd_discovered (pn_db p')) = filter (\<lambda>x. dc_agentID x \<noteq> a) ?rows"
  proof (cases "row_of disc_key ?k ?rows")
    case (Some old)
    then have old: "old \<in> set ?rows" "disc_key old = ?k" using row_of_key by metis+
    let ?dc = "discovered_of (dc_id old) a r (dc_status old) (dc_firstSeen old) t"
    define x where "x = ?dc\<lparr>dc_firstSeen := to_seconds (dc_firstSeen ?dc), dc_updatedAt := to_seconds (dc_updatedAt ?dc)\<rparr>"
    have r: "dc_id x = dc_id old" "disc_key x = disc_key old" "uint (dc_totalOctets x) < 2 ^ 63" "disc_status_ok (dc_status x)"
      using old(2) small scan(2) [OF old(1)] by (simp_all add: x_def discovered_of_def disc_key_def)
    note rep = replace_row [OF wf old(1) r]
    have "x\<lparr>dc_agentID := dc_agentID old, dc_clientName := dc_clientName old\<rparr> = x" using old(2) by (simp add: x_def discovered_of_def disc_key_def)
    moreover have "\<not> list_ex (\<lambda>x. dc_id x \<noteq> dc_id ?dc \<and> disc_key x = disc_key ?dc) ?rows"
      using kd(1) old by (auto simp: list_ex_iff discovered_of_def disc_key_def) (metis row_of_distinct disc_key_def option.inject)
    moreover have "row_of dc_id (dc_id ?dc) ?rows = Some old" using row_of_distinct [OF kd(2) old(1)] by (simp add: discovered_of_def)
    moreover have "disc_status_ok (dc_status ?dc)" using r(4) by (simp add: x_def)
    ultimately have "disc_Save ?dc (pn_db p) = Inr ((pn_db p)\<lparr>cd_discovered := upsert dc_id x ?rows\<rparr>)"
      by (simp add: disc_Save_def Let_def x_def)
    then have p'': "p' = p\<lparr>pn_db := (pn_db p)\<lparr>cd_discovered := upsert dc_id x ?rows\<rparr>\<rparr>"
      by (simp add: p' upsertDiscoveredClient_def GetByAgentAndName_def Some scan(1) [OF old(1)])
    have "carries a r x" "dc_status x = dc_status old" "disc_key x = ?k" "dc_agentID x = a"
      by (simp_all add: carries_def disc_key_def discovered_of_def x_def)
    then show ?thesis using rep wf known below Some by (simp add: p'' table_ok_def ids_below_def status_before_def)
  next
    case None
    let ?n = "cs_discoveredSeq (pn_svc p) + 1"
    let ?dc = "discovered_of (newSequenceID ''discovered'' ?n) a r StatusPending t t"
    define x where "x = ?dc\<lparr>dc_firstSeen := to_seconds (dc_firstSeen ?dc), dc_updatedAt := to_seconds (dc_updatedAt ?dc)\<rparr>"
    have upn: "unat ?n = unat (cs_discoveredSeq (pn_svc p)) + 1" using seq by (simp add: unat_word_ariths)
    then have up: "cs_discoveredSeq (pn_svc p) < ?n" by (simp add: word_less_nat_alt)
    have new: "newSequenceID ''discovered'' ?n \<notin> dc_id ` set ?rows" using below up by (simp add: ids_below_def)
    have r: "dc_id x \<notin> dc_id ` set ?rows" "row_of disc_key (disc_key x) ?rows = None" "uint (dc_totalOctets x) < 2 ^ 63" "disc_status_ok (dc_status x)"
      using new None small by (simp_all add: x_def discovered_of_def disc_key_def disc_status_ok_def)
    note app = append_row [OF wf r]
    have "disc_Save ?dc (pn_db p) = Inr ((pn_db p)\<lparr>cd_discovered := ?rows @ [x]\<rparr>)"
    proof -
      have "\<not> list_ex (\<lambda>y. dc_id y \<noteq> dc_id ?dc \<and> disc_key y = disc_key ?dc) ?rows"
        using None by (auto simp: list_ex_iff row_of_None discovered_of_def disc_key_def)
      moreover have "row_of dc_id (dc_id ?dc) ?rows = None" using new by (simp add: row_of_None discovered_of_def)
      moreover have "dc_agentID ?dc = a" "disc_status_ok (dc_status ?dc)" by (simp_all add: discovered_of_def disc_status_ok_def)
      ultimately show ?thesis using known by (simp add: disc_Save_def Let_def x_def)
    qed
    then have p'': "p' = notice (AppendAudit ''system'' ''clients.discovered'' (newSequenceID ''discovered'' ?n))
        (p\<lparr>pn_svc := (pn_svc p)\<lparr>cs_discoveredSeq := ?n\<rparr>, pn_db := (pn_db p)\<lparr>cd_discovered := ?rows @ [x]\<rparr>\<rparr>)"
      by (simp add: p' upsertDiscoveredClient_def GetByAgentAndName_def None NextDiscoveredID_def Let_def)
    have f: "carries a r x" "dc_status x = StatusPending" "disc_key x = ?k" "dc_agentID x = a" "dc_id x = newSequenceID ''discovered'' ?n"
      by (simp_all add: x_def carries_def disc_key_def discovered_of_def)
    have "ids_below ?n (?rows @ [x])" using below up f(5) by (auto simp: ids_below_def newSequenceID_inject)
    then show ?thesis using app wf known None f upn by (simp add: p'' table_ok_def status_before_def)
  qed
  then show "table_ok a p'" "unat (cs_discoveredSeq (pn_svc p')) \<le> unat (cs_discoveredSeq (pn_svc p)) + 1"
    "\<exists>x. row_of disc_key ?k (cd_discovered (pn_db p')) = Some x \<and> carries a r x \<and> dc_status x = status_before (row_of disc_key ?k ?rows)"
    "filter (\<lambda>x. dc_agentID x \<noteq> a) (cd_discovered (pn_db p')) = filter (\<lambda>x. dc_agentID x \<noteq> a) ?rows" by blast+
  show "k \<noteq> ?k \<Longrightarrow> row_of disc_key k (cd_discovered (pn_db p')) = row_of disc_key k ?rows" using goal by blast
qed

subsection \<open>The clean-up\<close>

definition stale :: "string \<Rightarrow> string set \<Rightarrow> discovered \<Rightarrow> bool" where
  "stale a seen x \<longleftrightarrow> dc_agentID x = a \<and> dc_status x = StatusPending \<and> dc_clientName x \<notin> seen"

lemma prune_row_rows:
  "cd_discovered (prune_row a seen x db) = filter (\<lambda>y. \<not> (stale a seen x \<and> dc_id y = dc_id x)) (cd_discovered db)"
proof (cases "row_of dc_id (dc_id x) (cd_discovered db)")
  case None
  then have "filter (\<lambda>y. \<not> (stale a seen x \<and> dc_id y = dc_id x)) (cd_discovered db) = cd_discovered db"
    by (intro filter_True) (auto simp: row_of_None image_iff)
  with None show ?thesis by (simp add: prune_row_def disc_Delete_def stale_def)
next
  case (Some y)
  then show ?thesis by (auto simp: prune_row_def disc_Delete_def stale_def)
qed

lemma fold_prune_rows:
  "cd_discovered (fold (prune_row a seen) xs db) = filter (\<lambda>y. \<not> (\<exists>x \<in> set xs. stale a seen x \<and> dc_id y = dc_id x)) (cd_discovered db)"
proof (induction xs arbitrary: db)
  case (Cons x xs)
  show ?case by (simp add: Cons.IH prune_row_rows)
qed simp

lemma prune_rows:
  assumes "distinct (map dc_id (cd_discovered (pn_db p)))" "readable_rows (cd_discovered (pn_db p))"
  shows "cd_discovered (pn_db (pruneStaleDiscoveredForAgent a seen p)) = filter (\<lambda>x. \<not> stale a seen x) (cd_discovered (pn_db p))"
proof -
  let ?rows = "cd_discovered (pn_db p)"
  have "(\<exists>x \<in> set ?rows. stale a seen x \<and> dc_id y = dc_id x) \<longleftrightarrow> stale a seen y" if "y \<in> set ?rows" for y
    using that assms(1) by (metis row_of_distinct option.inject)
  then show ?thesis
    using assms(2) by (auto simp: pruneStaleDiscoveredForAgent_def disc_List_readable fold_prune_rows intro!: filter_cong)
qed

subsection \<open>A whole report\<close>

text \<open>The users of a report that get a row.\<close>

definition unmanaged :: "string set \<Rightarrow> string set \<Rightarrow> client_detail \<Rightarrow> bool" where
  "unmanaged names secrets r \<longleftrightarrow> TrimSpace (cr_clientName r) \<noteq> [] \<and> TrimSpace (cr_clientName r) \<notin> names \<and>
     \<not> (TrimSpace (cr_secret r) \<noteq> [] \<and> TrimSpace (cr_secret r) \<in> secrets) \<and> TrimSpace (cr_clientID r) = []"

lemma discover_unmanaged: "unmanaged names secrets r \<Longrightarrow> discover_record names secrets a t r p = upsertDiscoveredClient a r t p"
  by (auto simp: discover_record_def unmanaged_def Let_def)

lemma discover_other:
  assumes "\<not> unmanaged names secrets r"
  shows "pn_db (discover_record names secrets a t r p) = pn_db p"
    "cs_discoveredSeq (pn_svc (discover_record names secrets a t r p)) = cs_discoveredSeq (pn_svc p)"
  using assms by (auto simp: discover_record_def unmanaged_def recordDiscoveredOrphan_def Let_def)

lemma discover_records:
  assumes "table_ok a p" "list_all (\<lambda>r. uint (cr_totalOctets r) < 2 ^ 63) rs" "distinct (map cr_clientName rs)"
    "unat (cs_discoveredSeq (pn_svc p)) + length rs < 2 ^ 64" "p' = fold (discover_record names secrets a t) rs p"
  shows "table_ok a p' \<and>
    filter (\<lambda>x. dc_agentID x \<noteq> a) (cd_discovered (pn_db p')) = filter (\<lambda>x. dc_agentID x \<noteq> a) (cd_discovered (pn_db p)) \<and>
    (\<forall>r \<in> set rs. unmanaged names secrets r \<longrightarrow> (\<exists>x. row_of disc_key (a, cr_clientName r) (cd_discovered (pn_db p')) = Some x \<and> carries a r x \<and>
       dc_status x = status_before (row_of disc_key (a, cr_clientName r) (cd_discovered (pn_db p))))) \<and>
    (\<forall>k. (\<forall>r \<in> set rs. k \<noteq> (a, cr_clientName r)) \<longrightarrow> row_of disc_key k (cd_discovered (pn_db p')) = row_of disc_key k (cd_discovered (pn_db p)))"
  using assms
proof (induction rs arbitrary: p)
  case (Cons r rs)
  let ?q = "discover_record names secrets a t r p"
  have step: "table_ok a ?q \<and> unat (cs_discoveredSeq (pn_svc ?q)) \<le> unat (cs_discoveredSeq (pn_svc p)) + 1 \<and>
      filter (\<lambda>x. dc_agentID x \<noteq> a) (cd_discovered (pn_db ?q)) = filter (\<lambda>x. dc_agentID x \<noteq> a) (cd_discovered (pn_db p)) \<and>
      (unmanaged names secrets r \<longrightarrow> (\<exists>x. row_of disc_key (a, cr_clientName r) (cd_discovered (pn_db ?q)) = Some x \<and> carries a r x \<and>
         dc_status x = status_before (row_of disc_key (a, cr_clientName r) (cd_discovered (pn_db p))))) \<and>
      (\<forall>k. k \<noteq> (a, cr_clientName r) \<longrightarrow> row_of disc_key k (cd_discovered (pn_db ?q)) = row_of disc_key k (cd_discovered (pn_db p)))"
  proof (cases "unmanaged names secrets r")
    case True
    have "uint (cr_totalOctets r) < 2 ^ 63" "unat (cs_discoveredSeq (pn_svc p)) + 1 < 2 ^ 64" using Cons.prems(2,4) by simp_all
    from upsert_discovered [OF Cons.prems(1) this refl, where t = t] show ?thesis unfolding discover_unmanaged [OF True] by blast
  next
    case False
    with Cons.prems(1) show ?thesis by (simp add: discover_other table_ok_def)
  qed
  have rest: "list_all (\<lambda>r. uint (cr_totalOctets r) < 2 ^ 63) rs" "distinct (map cr_clientName rs)"
      "unat (cs_discoveredSeq (pn_svc ?q)) + length rs < 2 ^ 64" "p' = fold (discover_record names secrets a t) rs ?q"
    using Cons.prems step by simp_all
  note IH = Cons.IH [OF conjunct1 [OF step] rest]
  have head: "\<forall>x \<in> set rs. (a, cr_clientName x) \<noteq> (a, cr_clientName r)" using Cons.prems(3) by (auto simp: image_iff)
  then have old: "\<forall>x \<in> set rs. row_of disc_key (a, cr_clientName x) (cd_discovered (pn_db ?q)) = row_of disc_key (a, cr_clientName x) (cd_discovered (pn_db p))"
    using step by blast
  have mine: "row_of disc_key (a, cr_clientName r) (cd_discovered (pn_db p')) = row_of disc_key (a, cr_clientName r) (cd_discovered (pn_db ?q))"
    using IH head by metis
  have "\<forall>x \<in> set (r # rs). unmanaged names secrets x \<longrightarrow> (\<exists>y. row_of disc_key (a, cr_clientName x) (cd_discovered (pn_db p')) = Some y \<and> carries a x y \<and>
       dc_status y = status_before (row_of disc_key (a, cr_clientName x) (cd_discovered (pn_db p))))"
    using IH old step mine by simp
  moreover have "\<forall>k. (\<forall>x \<in> set (r # rs). k \<noteq> (a, cr_clientName x)) \<longrightarrow>
      row_of disc_key k (cd_discovered (pn_db p')) = row_of disc_key k (cd_discovered (pn_db p))" using IH step by simp
  ultimately show ?case using IH step by metis
qed simp

lemma report_unfold:
  assumes "records \<noteq> []" "MirrorIdentifiersForAgent (ce_clients env) a (pn_svc p) = (names, secrets)"
  shows "ReconcileDiscovered env a records False t p =
    pruneStaleDiscoveredForAgent a (seen_names records) (fold (discover_record names secrets a t) records p)"
  using assms by (simp add: ReconcileDiscovered_def)


subsection \<open>Reports the code does not cope with\<close>

lemma report_one:
  assumes "unmanaged names secrets r" "MirrorIdentifiersForAgent (ce_clients env) a (pn_svc p) = (names, secrets)"
  shows "ReconcileDiscovered env a [r] False t p = pruneStaleDiscoveredForAgent a {TrimSpace (cr_clientName r)} (upsertDiscoveredClient a r t p)"
  using assms by (simp add: ReconcileDiscovered_def discover_unmanaged) (simp add: seen_names_def unmanaged_def)

lemma upsert_new:
  assumes "row_of disc_key (a, cr_clientName r) (cd_discovered (pn_db p)) = None" "a \<in> set (cd_agents (pn_db p))"
    "newSequenceID ''discovered'' (cs_discoveredSeq (pn_svc p) + 1) \<notin> dc_id ` set (cd_discovered (pn_db p))"
  obtains x where "upsertDiscoveredClient a r t p = notice (AppendAudit ''system'' ''clients.discovered'' (newSequenceID ''discovered'' (cs_discoveredSeq (pn_svc p) + 1)))
      (p\<lparr>pn_svc := (pn_svc p)\<lparr>cs_discoveredSeq := cs_discoveredSeq (pn_svc p) + 1\<rparr>, pn_db := (pn_db p)\<lparr>cd_discovered := cd_discovered (pn_db p) @ [x]\<rparr>\<rparr>)"
    "carries a r x" "dc_status x = StatusPending" "dc_id x = newSequenceID ''discovered'' (cs_discoveredSeq (pn_svc p) + 1)"
proof -
  let ?i = "newSequenceID ''discovered'' (cs_discoveredSeq (pn_svc p) + 1)"
  let ?dc = "discovered_of ?i a r StatusPending t t"
  let ?x = "?dc\<lparr>dc_firstSeen := to_seconds (dc_firstSeen ?dc), dc_updatedAt := to_seconds (dc_updatedAt ?dc)\<rparr>"
  have "\<not> list_ex (\<lambda>y. dc_id y \<noteq> dc_id ?dc \<and> disc_key y = disc_key ?dc) (cd_discovered (pn_db p))"
    using assms(1) by (auto simp: list_ex_iff row_of_None discovered_of_def disc_key_def)
  moreover have "row_of dc_id (dc_id ?dc) (cd_discovered (pn_db p)) = None" using assms(3) by (simp add: row_of_None discovered_of_def)
  moreover have "dc_agentID ?dc = a" "disc_status_ok (dc_status ?dc)" by (simp_all add: discovered_of_def disc_status_ok_def)
  ultimately have "disc_Save ?dc (pn_db p) = Inr ((pn_db p)\<lparr>cd_discovered := cd_discovered (pn_db p) @ [?x]\<rparr>)"
    using assms(2) by (simp add: disc_Save_def Let_def)
  then show thesis
    by (intro that [of ?x]) (simp_all add: upsertDiscoveredClient_def GetByAgentAndName_def assms(1) NextDiscoveredID_def Let_def
        carries_def disc_key_def discovered_of_def)
qed

text \<open>
  A node whose user name has white space around it is reported in vain. The row is stored under the name as reported, and the clean-up of the
  same report compares trimmed names: it removes the row at once. The user never waits for review, and every report adds an entry for
  a new identifier to the audit trail.\<close>

theorem padded_name_never_listed:
  assumes "table_ok a p" "unat (cs_discoveredSeq (pn_svc p)) + 1 < 2 ^ 64"
    and "unmanaged names secrets r" "MirrorIdentifiersForAgent (ce_clients env) a (pn_svc p) = (names, secrets)"
    and "TrimSpace (cr_clientName r) \<noteq> cr_clientName r" "uint (cr_totalOctets r) < 2 ^ 63"
    and "row_of disc_key (a, cr_clientName r) (cd_discovered (pn_db p)) = None" "p' = ReconcileDiscovered env a [r] False t p"
  shows "pn_notices p' = pn_notices p @ [AppendAudit ''system'' ''clients.discovered'' (newSequenceID ''discovered'' (cs_discoveredSeq (pn_svc p) + 1))] \<and>
    cs_discoveredSeq (pn_svc p') = cs_discoveredSeq (pn_svc p) + 1 \<and>
    row_of disc_key (a, cr_clientName r) (cd_discovered (pn_db p')) = None"
proof -
  let ?q = "upsertDiscoveredClient a r t p" and ?n = "cs_discoveredSeq (pn_svc p) + 1"
  have "cs_discoveredSeq (pn_svc p) < ?n" using assms(2) by (simp add: word_less_nat_alt unat_word_ariths)
  then have new: "newSequenceID ''discovered'' ?n \<notin> dc_id ` set (cd_discovered (pn_db p))" "a \<in> set (cd_agents (pn_db p))"
    using assms(1) by (auto simp: table_ok_def ids_below_def)
  from upsert_new [OF assms(7) new(2,1), where t = t] obtain x where
    q: "?q = notice (AppendAudit ''system'' ''clients.discovered'' (newSequenceID ''discovered'' ?n))
      (p\<lparr>pn_svc := (pn_svc p)\<lparr>cs_discoveredSeq := ?n\<rparr>, pn_db := (pn_db p)\<lparr>cd_discovered := cd_discovered (pn_db p) @ [x]\<rparr>\<rparr>)"
      and x: "carries a r x" "dc_status x = StatusPending" by blast
  note up = upsert_discovered(1) [OF assms(1,6,2) refl, where t = t]
  have qr: "distinct (map dc_id (cd_discovered (pn_db ?q)))" "readable_rows (cd_discovered (pn_db ?q))"
    using up by (auto simp: table_ok_def rows_wf_def)
  have p': "p' = pruneStaleDiscoveredForAgent a {TrimSpace (cr_clientName r)} ?q" using assms(8) report_one [OF assms(3,4)] by simp
  have rows: "cd_discovered (pn_db p') = filter (\<lambda>y. \<not> stale a {TrimSpace (cr_clientName r)} y) (cd_discovered (pn_db p) @ [x])"
    unfolding p' prune_rows [OF qr] by (simp add: q)
  have "stale a {TrimSpace (cr_clientName r)} x" using x assms(5) by (simp add: stale_def carries_def disc_key_def)
  moreover have "(a, cr_clientName r) \<notin> disc_key ` set (cd_discovered (pn_db p))" using assms(7) by (simp add: row_of_None)
  ultimately have "row_of disc_key (a, cr_clientName r) (cd_discovered (pn_db p')) = None" unfolding row_of_None rows by auto
  moreover have "pn_notices p' = pn_notices ?q" "pn_svc p' = pn_svc ?q"
    unfolding p' by (simp_all add: pruneStaleDiscoveredForAgent_def split: sum.splits)
  ultimately show ?thesis by (simp add: q notice_def)
qed

text \<open>
  C35: One report of one node can keep the panel from starting. When a node reports a counter of 2 to the power of 63 or more for a user the panel does not manage, the row
  is stored with a negative column; from then on the list of discovered clients cannot be read, and the restore at the next start fails.\<close>

theorem huge_counter_blocks_start:
  assumes "a \<in> set (cd_agents (pn_db p))" "newSequenceID ''discovered'' (cs_discoveredSeq (pn_svc p) + 1) \<notin> dc_id ` set (cd_discovered (pn_db p))"
    and "unmanaged names secrets r" "MirrorIdentifiersForAgent (ce_clients env) a (pn_svc p) = (names, secrets)"
    and "2 ^ 63 \<le> uint (cr_totalOctets r)" "row_of disc_key (a, cr_clientName r) (cd_discovered (pn_db p)) = None"
    and "p' = ReconcileDiscovered env a [r] False t p"
  shows "ListDiscovered p' = Inl ScanError \<and> svc_Restore v (pn_db p') Client_Service.NewService = Inl ErrClientStore"
proof -
  from upsert_new [OF assms(6,1,2), where t = t] obtain x where
    u: "upsertDiscoveredClient a r t p = notice (AppendAudit ''system'' ''clients.discovered'' (newSequenceID ''discovered'' (cs_discoveredSeq (pn_svc p) + 1)))
      (p\<lparr>pn_svc := (pn_svc p)\<lparr>cs_discoveredSeq := cs_discoveredSeq (pn_svc p) + 1\<rparr>, pn_db := (pn_db p)\<lparr>cd_discovered := cd_discovered (pn_db p) @ [x]\<rparr>\<rparr>)"
      and x: "carries a r x" by blast
  have q: "pn_db (upsertDiscoveredClient a r t p) = (pn_db p)\<lparr>cd_discovered := cd_discovered (pn_db p) @ [x]\<rparr>" by (simp add: u)
  have "\<not> readable_rows (cd_discovered (pn_db p) @ [x])" using x assms(5) by (simp add: readable_rows_def carries_def)
  then have bad: "disc_List (pn_db (upsertDiscoveredClient a r t p)) = Inl ScanError" by (simp add: disc_List_readable q)
  then have "pn_db p' = pn_db (upsertDiscoveredClient a r t p)"
    using assms(7) report_one [OF assms(3,4)] by (simp add: pruneStaleDiscoveredForAgent_def)
  with bad show ?thesis by (simp add: ListDiscovered_def svc_Restore_def Let_def)
qed

subsection \<open>Reports of one node\<close>

definition bob_report :: "string \<Rightarrow> uint64 \<Rightarrow> client_detail" where
  "bob_report n octets = \<lparr>cr_clientID = [], cr_clientName = n, cr_secret = hex32, cr_userADTag = [], cr_enabled = True, cr_totalOctets = octets,
     cr_currentConnections = 0, cr_activeUniqueIPs = 0, cr_connectionLinks = [], cr_maxTCPConns = 0, cr_maxUniqueIPs = 0, cr_dataQuotaBytes = 0,
     cr_expiration = []\<rparr>"

lemma bob_trim: "TrimSpace ''bob'' = ''bob''" "TrimSpace '' bob'' = ''bob''"
  by code_simp+

lemma bob_unmanaged: "unmanaged {} {} (bob_report ''bob'' n)" "unmanaged {} {} (bob_report '' bob'' n)"
  by (simp_all add: unmanaged_def bob_report_def bob_trim site_trim)

lemma bob_site: "table_ok ''a1'' site_panel" "cd_discovered (pn_db site_panel) = []" "cs_discoveredSeq (pn_svc site_panel) = 0"
  "MirrorIdentifiersForAgent (ce_clients site_env) ''a1'' (pn_svc site_panel) = ({}, {})" "''a1'' \<in> set (cd_agents (pn_db site_panel))"
  by (simp_all add: table_ok_def site_panel_def site_db_def rows_wf_def readable_rows_def ids_below_def Client_Service.NewService_def
      MirrorIdentifiersForAgent_def List.map_filter_def Let_def)


theorem padded_name_never_listed_witness:
  "\<exists>p'. p' = ReconcileDiscovered site_env ''a1'' [bob_report '' bob'' 7] False site_time site_panel \<and>
     pn_notices p' = [AppendAudit ''system'' ''clients.discovered'' ''discovered-0000001''] \<and> row_of disc_key (''a1'', '' bob'') (cd_discovered (pn_db p')) = None"
proof -
  have name: "cr_clientName (bob_report '' bob'' 7) = '' bob''" by (simp add: bob_report_def)
  have "unat (cs_discoveredSeq (pn_svc site_panel)) + 1 < 2 ^ 64" "TrimSpace (cr_clientName (bob_report '' bob'' 7)) \<noteq> cr_clientName (bob_report '' bob'' 7)"
      "uint (cr_totalOctets (bob_report '' bob'' 7)) < 2 ^ 63" "row_of disc_key (''a1'', cr_clientName (bob_report '' bob'' 7)) (cd_discovered (pn_db site_panel)) = None"
    by (simp_all add: bob_site bob_report_def bob_trim row_of_def)
  note all = padded_name_never_listed [OF bob_site(1) this(1) bob_unmanaged(2) bob_site(4) this(2-4) refl, where t = site_time]
  have "newSequenceID ''discovered'' 1 = ''discovered-0000001''" "pn_notices site_panel = []" by (code_simp, simp add: site_panel_def)
  with all show ?thesis by (simp add: name bob_site)
qed

theorem huge_counter_blocks_start_witness:
  "svc_Restore site_vault (pn_db (ReconcileDiscovered site_env ''a1'' [bob_report ''bob'' (2 ^ 63)] False site_time site_panel)) Client_Service.NewService = Inl ErrClientStore"
proof -
  have "newSequenceID ''discovered'' (cs_discoveredSeq (pn_svc site_panel) + 1) \<notin> dc_id ` set (cd_discovered (pn_db site_panel))"
      "2 ^ 63 \<le> uint (cr_totalOctets (bob_report ''bob'' (2 ^ 63)))" "row_of disc_key (''a1'', cr_clientName (bob_report ''bob'' (2 ^ 63))) (cd_discovered (pn_db site_panel)) = None"
    by (simp_all add: bob_site bob_report_def row_of_def)
  from huge_counter_blocks_start [OF bob_site(5) this(1) bob_unmanaged(1) bob_site(4) this(2,3) refl, where t = site_time and v = site_vault] show ?thesis by simp
qed

end
