(* ===== verification/Client_Usage.thy ===== *)
theory Client_Usage
  imports Client_Service Batch_Writer
begin

section \<open>Accounting of client traffic (server/agent_flow.go)\<close>

text \<open>
  An agent reports, per client, the bytes counted since it booted. The panel keeps per client
  and agent the accumulated traffic and a watermark (boot id and last total) and adds what is
  new. The database driver is the argument \<^verbatim>\<open>driver\<close>: its own failure at the n-th attempt, if any.
\<close>

record usage_report =
  ur_clientID :: string
  ur_totalBytes :: uint64
  ur_uniqueIPsUsed :: int
  ur_activeTCPConns :: int
  ur_activeUniqueIPs :: int
  ur_quotaUsedBytes :: uint64
  ur_quotaLastResetUnix :: uint64
  ur_observedAt :: gotime

subsection \<open>Merging\<close>

definition usage_delta :: "string \<Rightarrow> uint64 \<Rightarrow> usage option \<Rightarrow> uint64" where
  "usage_delta agentBootID totalBytes current =
     (case current of None \<Rightarrow> totalBytes
      | Some u \<Rightarrow>
          if ug_agentBootID u = [] then 0
          else if ug_agentBootID u \<noteq> agentBootID then totalBytes
          else if ug_lastTotalBytes u \<le> totalBytes then totalBytes - ug_lastTotalBytes u
          else 0)"

definition merged_usage :: "string \<Rightarrow> string \<Rightarrow> usage_report \<Rightarrow> usage option \<Rightarrow> usage" where
  "merged_usage agentID agentBootID r current =
     \<lparr>ug_clientID = ur_clientID r, ug_agentID = agentID,
      ug_trafficUsedBytes = (case current of Some u \<Rightarrow> ug_trafficUsedBytes u | None \<Rightarrow> 0) + usage_delta agentBootID (ur_totalBytes r) current,
      ug_uniqueIPsUsed = ur_uniqueIPsUsed r, ug_activeTCPConns = ur_activeTCPConns r, ug_activeUniqueIPs = ur_activeUniqueIPs r,
      ug_quotaUsedBytes = ur_quotaUsedBytes r, ug_quotaLastResetUnix = ur_quotaLastResetUnix r,
      ug_agentBootID = agentBootID, ug_lastTotalBytes = ur_totalBytes r, ug_observedAt = ur_observedAt r\<rparr>"

definition mergeClientUsageBatch :: "string \<Rightarrow> string \<Rightarrow> usage_report list \<Rightarrow> client_service \<Rightarrow> string set \<times> usage list" where
  "mergeClientUsageBatch agentID agentBootID reports s =
     (ur_clientID ` set reports,
      map (\<lambda>r. merged_usage agentID agentBootID r (MirrorUsageEntryFor (ur_clientID r) agentID s)) reports)"

subsection \<open>Adopting resets\<close>

definition reset_advance :: "string \<Rightarrow> client_service \<Rightarrow> usage_report \<Rightarrow> deployment option" where
  "reset_advance agentID s r =
     (if ur_quotaLastResetUnix r = 0 then None
      else case MirrorDeployment (ur_clientID r) agentID s of None \<Rightarrow> None
        | Some d \<Rightarrow>
            if ur_quotaLastResetUnix r \<le> dp_lastResetEpochSecs d then None
            else Some (d\<lparr>dp_lastResetEpochSecs := ur_quotaLastResetUnix r, dp_updatedAt := ur_observedAt r\<rparr>))"

definition advanceDeploymentsFromTelemtReset :: "string \<Rightarrow> usage_report list \<Rightarrow> client_service \<Rightarrow> deployment list" where
  "advanceDeploymentsFromTelemtReset agentID reports s = List.map_filter (reset_advance agentID s) reports"

definition persistDeploymentsAfterReset :: "deployment list \<Rightarrow> client_service \<times> client_db \<Rightarrow> client_service \<times> client_db" where
  "persistDeploymentsAfterReset ds = fold (\<lambda>d (s, db). snd (PersistDeployment d s db)) ds"

subsection \<open>Writing\<close>

definition maxUsagePersistAttempts :: nat where
  "maxUsagePersistAttempts = 3"

definition fk_error :: go_error where
  "fk_error = GoError OtherError ''constraint failed: FOREIGN KEY constraint failed (787)'' None"

definition usage_attempt ::
    "go_error option \<Rightarrow> usage list \<Rightarrow> client_service \<times> client_db \<Rightarrow> go_error option \<times> client_service \<times> client_db" where
  "usage_attempt failure batch sd =
     (case sd of (s, db) \<Rightarrow>
        case failure of Some e \<Rightarrow> (Some e, fold applyUsageMirrorLocked batch s, db)
        | None \<Rightarrow> (case UpsertUsageBulk batch s db of (None, r) \<Rightarrow> (None, r) | (Some _, r) \<Rightarrow> (Some fk_error, r)))"

text \<open>The counter runs down from the number of attempts, so the loop ends.\<close>

fun usage_attempts ::
    "nat \<Rightarrow> (nat \<Rightarrow> go_error option) \<Rightarrow> usage list \<Rightarrow> client_service \<times> client_db \<Rightarrow> go_error option \<times> client_service \<times> client_db" where
  "usage_attempts 0 driver batch sd = (None, sd)"
| "usage_attempts (Suc left) driver batch sd =
     (case usage_attempt (driver (maxUsagePersistAttempts - Suc left)) batch sd of
        (None, sd1) \<Rightarrow> (None, sd1)
      | (Some e, sd1) \<Rightarrow>
          if left = 0 \<or> ClassifyFlushError (Some e) = Persistent then (Some e, sd1)
          else usage_attempts left driver batch sd1)"

definition persistClientUsageRecords ::
    "(nat \<Rightarrow> go_error option) \<Rightarrow> usage list \<Rightarrow> client_service \<times> client_db \<Rightarrow> client_service \<times> client_db" where
  "persistClientUsageRecords driver batch sd =
     (if batch = [] then sd else snd (usage_attempts maxUsagePersistAttempts driver batch sd))"

definition applyClientUsageSnapshot ::
    "(nat \<Rightarrow> go_error option) \<Rightarrow> string \<Rightarrow> string \<Rightarrow> usage_report list \<Rightarrow> client_service \<times> client_db \<Rightarrow> client_service \<times> client_db" where
  "applyClientUsageSnapshot driver agentID agentBootID reports sd =
     (let (seen, toPersist) = mergeClientUsageBatch agentID agentBootID reports (fst sd);
          ds = advanceDeploymentsFromTelemtReset agentID reports (fst sd);
          (s, db) = persistDeploymentsAfterReset ds (persistClientUsageRecords driver toPersist sd)
      in (ZeroLiveGaugesForAgent agentID seen s, db))"

definition agentTotalTraffic :: "string list \<Rightarrow> string \<Rightarrow> client_service \<Rightarrow> uint64" where
  "agentTotalTraffic order agentID s = MirrorAgentTotalTraffic order agentID s"

subsection \<open>What one snapshot does to a watermark\<close>

lemma entry_apply [simp]:
  "MirrorUsageEntryFor c a (applyUsageMirrorLocked u s) =
     (if (c, a) = usage_key u then Some u else MirrorUsageEntryFor c a s)"
  by (auto simp: MirrorUsageEntryFor_def applyUsageMirrorLocked_def inner_def usage_key_def)

lemma entry_fold:
  "c \<notin> ug_clientID ` set us \<Longrightarrow> MirrorUsageEntryFor c a (fold applyUsageMirrorLocked us s) = MirrorUsageEntryFor c a s"
  by (induction us arbitrary: s) (auto simp: usage_key_def)

lemma entry_fold_distinct:
  assumes "distinct (map ug_clientID us)" and "u \<in> set us"
  shows "MirrorUsageEntryFor (ug_clientID u) (ug_agentID u) (fold applyUsageMirrorLocked us s) = Some u"
  using assms by (induction us arbitrary: s) (auto simp: entry_fold usage_key_def)

lemma entry_deployments:
  "MirrorUsageEntryFor c a (fst (snd (PersistDeployment d s db))) = MirrorUsageEntryFor c a s"
  by (simp add: PersistDeployment_def MirrorUsageEntryFor_def split: sum.splits)

lemma entry_after_reset:
  "MirrorUsageEntryFor c a (fst (persistDeploymentsAfterReset ds sd)) = MirrorUsageEntryFor c a (fst sd)"
  unfolding persistDeploymentsAfterReset_def
  by (induction ds arbitrary: sd) (simp_all add: entry_deployments split: prod.splits)

text \<open>However the attempts end, the mirror has taken the batch.\<close>

lemma usage_attempt_mirror:
  "batch \<noteq> [] \<Longrightarrow> fst (snd (usage_attempt failure batch sd)) = fold applyUsageMirrorLocked batch (fst sd)"
  by (auto simp: usage_attempt_def UpsertUsageBulk_def Let_def split: prod.splits option.splits sum.splits)

text \<open>The attempts differ only in the writes to the table, so each repeats the first one on the mirror.\<close>

lemma apply_apply_same: "applyUsageMirrorLocked u (applyUsageMirrorLocked u s) = applyUsageMirrorLocked u s"
  by (simp add: applyUsageMirrorLocked_def inner_def)

lemma usage_attempts_entry:
  assumes "distinct (map ug_clientID batch)" "u \<in> set batch" "left \<noteq> 0"
  shows "MirrorUsageEntryFor (ug_clientID u) (ug_agentID u) (fst (snd (usage_attempts left driver batch sd))) = Some u"
  using assms
proof (induction left arbitrary: sd)
  case (Suc left)
  have "batch \<noteq> []" using Suc.prems(2) by auto
  note first = usage_attempt_mirror [OF this, of "driver (maxUsagePersistAttempts - Suc left)" sd]
  show ?case
    using Suc first entry_fold_distinct [OF Suc.prems(1,2), of "fst sd"]
    by (auto split: prod.splits option.splits)
qed simp

lemma usage_attempts_absent:
  assumes "c \<notin> ug_clientID ` set batch" "batch \<noteq> []"
  shows "MirrorUsageEntryFor c a (fst (snd (usage_attempts left driver batch sd))) = MirrorUsageEntryFor c a (fst sd)"
proof (induction left arbitrary: sd)
  case (Suc left)
  note first = usage_attempt_mirror [OF assms(2), of "driver (maxUsagePersistAttempts - Suc left)" sd]
  show ?case
    using Suc first entry_fold [OF assms(1), of a "fst sd"] by (auto split: prod.splits option.splits)
qed simp

lemma entry_zeroed:
  "MirrorUsageEntryFor c a (ZeroLiveGaugesForAgent b seen s) =
     (if a = b \<and> c \<notin> seen
      then map_option (\<lambda>u. u\<lparr>ug_activeTCPConns := 0, ug_activeUniqueIPs := 0\<rparr>) (MirrorUsageEntryFor c a s)
      else MirrorUsageEntryFor c a s)"
  by (auto simp: MirrorUsageEntryFor_def ZeroLiveGaugesForAgent_def inner_def split: option.splits)

lemma snapshot_entry:
  assumes "distinct (map ur_clientID reports)" "r \<in> set reports"
  shows "MirrorUsageEntryFor (ur_clientID r) a (fst (applyClientUsageSnapshot driver a boot reports sd)) =
    Some (merged_usage a boot r (MirrorUsageEntryFor (ur_clientID r) a (fst sd)))"
proof -
  let ?b = "snd (mergeClientUsageBatch a boot reports (fst sd))"
  let ?u = "merged_usage a boot r (MirrorUsageEntryFor (ur_clientID r) a (fst sd))"
  have ids: "map ug_clientID ?b = map ur_clientID reports"
    by (simp add: mergeClientUsageBatch_def merged_usage_def)
  have u: "?u \<in> set ?b" "ug_clientID ?u = ur_clientID r" "ug_agentID ?u = a"
    using assms(2) by (auto simp: mergeClientUsageBatch_def merged_usage_def)
  have seen: "ur_clientID r \<in> fst (mergeClientUsageBatch a boot reports (fst sd))"
    using assms(2) by (simp add: mergeClientUsageBatch_def)
  have "MirrorUsageEntryFor (ur_clientID r) a (fst (persistClientUsageRecords driver ?b sd)) = Some ?u"
    using usage_attempts_entry [of ?b ?u maxUsagePersistAttempts driver sd] ids assms(1) u
    by (auto simp: persistClientUsageRecords_def maxUsagePersistAttempts_def)
  with seen show ?thesis
    by (auto simp: applyClientUsageSnapshot_def Let_def entry_zeroed split: prod.splits)
      (metis (no_types, lifting) entry_after_reset fst_conv snd_conv)+
qed

lemma snapshot_absent:
  assumes "c \<notin> ur_clientID ` set reports"
  shows "MirrorUsageEntryFor c a (fst (applyClientUsageSnapshot driver a boot reports sd)) =
    map_option (\<lambda>u. u\<lparr>ug_activeTCPConns := 0, ug_activeUniqueIPs := 0\<rparr>) (MirrorUsageEntryFor c a (fst sd))"
proof -
  let ?b = "snd (mergeClientUsageBatch a boot reports (fst sd))"
  have absent: "c \<notin> ug_clientID ` set ?b"
    using assms by (auto simp: mergeClientUsageBatch_def merged_usage_def)
  have seen: "c \<notin> fst (mergeClientUsageBatch a boot reports (fst sd))"
    using assms by (simp add: mergeClientUsageBatch_def)
  have "MirrorUsageEntryFor c a (fst (persistClientUsageRecords driver ?b sd)) = MirrorUsageEntryFor c a (fst sd)"
    using usage_attempts_absent [OF absent] by (simp add: persistClientUsageRecords_def)
  with seen show ?thesis
    by (auto simp: applyClientUsageSnapshot_def Let_def entry_zeroed split: prod.splits)
      (metis (no_types, lifting) entry_after_reset fst_conv snd_conv)+
qed

subsection \<open>Runs of snapshots\<close>

text \<open>A snapshot as it arrives: what the driver does, the boot id and the reports.\<close>

type_synonym usage_snapshot = "(nat \<Rightarrow> go_error option) \<times> string \<times> usage_report list"

definition usage_run :: "string \<Rightarrow> usage_snapshot list \<Rightarrow> client_service \<times> client_db \<Rightarrow> client_service \<times> client_db" where
  "usage_run agentID snaps = fold (\<lambda>(driver, boot, reports). applyClientUsageSnapshot driver agentID boot reports) snaps"

definition totals_of :: "string \<Rightarrow> usage_snapshot \<Rightarrow> (string \<times> uint64) list" where
  "totals_of c snap = (case snap of (_, boot, reports) \<Rightarrow>
     map (\<lambda>r. (boot, ur_totalBytes r)) (filter (\<lambda>r. ur_clientID r = c) reports))"

type_synonym watermark = "(uint64 \<times> string \<times> uint64) option"

definition watermark :: "string \<Rightarrow> string \<Rightarrow> client_service \<Rightarrow> watermark" where
  "watermark c a s = map_option (\<lambda>u. (ug_trafficUsedBytes u, ug_agentBootID u, ug_lastTotalBytes u)) (MirrorUsageEntryFor c a s)"

fun advance :: "string \<times> uint64 \<Rightarrow> watermark \<Rightarrow> watermark" where
  "advance (boot, n) None = Some (n, boot, n)"
| "advance (boot, n) (Some (used, b, seen)) =
     Some (used + (if b = [] then 0 else if b \<noteq> boot then n else if seen \<le> n then n - seen else 0), boot, n)"

lemma distinct_filter_one:
  "distinct (map f xs) \<Longrightarrow> x \<in> set xs \<Longrightarrow> filter (\<lambda>y. f y = f x) xs = [x]"
  by (induction xs) (auto simp: image_iff filter_empty_conv)

lemma watermark_snapshot:
  assumes "distinct (map ur_clientID reports)"
  shows "watermark c a (fst (applyClientUsageSnapshot driver a boot reports sd)) =
    fold advance (totals_of c (driver, boot, reports)) (watermark c a (fst sd))"
proof (cases "c \<in> ur_clientID ` set reports")
  case True
  then obtain r where r: "r \<in> set reports" "ur_clientID r = c" by auto
  have one: "filter (\<lambda>x. ur_clientID x = c) reports = [r]"
    using distinct_filter_one [OF assms r(1)] r(2) by simp
  show ?thesis
    using snapshot_entry [OF assms r(1), of a driver boot sd] unfolding r(2)
    by (cases "MirrorUsageEntryFor c a (fst sd)")
      (auto simp: watermark_def totals_of_def one merged_usage_def usage_delta_def)
next
  case False
  moreover from False have "filter (\<lambda>x. ur_clientID x = c) reports = []" by (auto simp: filter_empty_conv)
  ultimately show ?thesis
    using snapshot_absent [OF False, of a driver boot sd]
    by (simp add: watermark_def totals_of_def option.map_comp comp_def)
qed

definition one_report_each :: "usage_snapshot \<Rightarrow> bool" where
  "one_report_each snap \<longleftrightarrow> distinct (map ur_clientID (snd (snd snap)))"

lemma watermark_run:
  assumes "list_all one_report_each snaps"
  shows "watermark c a (fst (usage_run a snaps sd)) =
    fold advance (concat (map (totals_of c) snaps)) (watermark c a (fst sd))"
  using assms
proof (induction snaps arbitrary: sd)
  case (Cons x xs)
  obtain driver boot reports where x: "x = (driver, boot, reports)" by (cases x) auto
  have "distinct (map ur_clientID reports)" using Cons.prems by (simp add: x one_report_each_def)
  from watermark_snapshot [OF this] Cons.IH Cons.prems show ?case by (simp add: usage_run_def x)
qed (simp add: usage_run_def)

subsection \<open>Every byte once\<close>

lemma advance_boot:
  assumes "sorted (seen # ts)" "boot \<noteq> []"
  shows "fold advance (map (Pair boot) ts) (Some (used, boot, seen)) =
    Some (used + (last (seen # ts) - seen), boot, last (seen # ts))"
  using assms
proof (induction ts arbitrary: used seen)
  case (Cons t ts)
  then show ?case by (simp add: algebra_simps)
qed simp

definition boots_ok :: "(string \<times> uint64 list) list \<Rightarrow> bool" where
  "boots_ok boots \<longleftrightarrow> list_all (\<lambda>(b, ts). b \<noteq> [] \<and> ts \<noteq> [] \<and> sorted ts) boots \<and> successively (\<noteq>) (map fst boots)"

lemma advance_boots:
  assumes "boots_ok boots" and "boots = [] \<or> b \<noteq> fst (hd boots)" and "b \<noteq> []"
  shows "\<exists>b' n. fold advance (concat (map (\<lambda>(b, ts). map (Pair b) ts) boots)) (Some (used, b, seen)) =
    Some (used + sum_list (map (last \<circ> snd) boots), b', n)"
  using assms
proof (induction boots arbitrary: used b seen)
  case (Cons x boots)
  obtain boot t ts where x: "x = (boot, t # ts)" "boot \<noteq> []" "sorted (t # ts)" "b \<noteq> boot"
    using Cons.prems by (cases x; cases "snd x") (auto simp: boots_ok_def)
  have ok: "boots_ok boots" "boots = [] \<or> boot \<noteq> fst (hd boots)"
    using Cons.prems x by (cases boots; auto simp: boots_ok_def successively_Cons)+
  have "fold advance (map (Pair boot) (t # ts)) (Some (used, b, seen)) = Some (used + last (t # ts), boot, last (t # ts))"
    using advance_boot [OF x(3,2), of "used + t"] Cons.prems(3) x(4) by (simp add: algebra_simps)
  with Cons.IH [OF ok x(2), of "used + last (t # ts)" "last (t # ts)"] show ?case
    by (simp add: x(1) algebra_simps split: if_splits)
qed simp

lemma advance_fresh:
  assumes "boots_ok boots" and "boots \<noteq> []"
  shows "\<exists>b' n. fold advance (concat (map (\<lambda>(b, ts). map (Pair b) ts) boots)) None =
    Some (sum_list (map (last \<circ> snd) boots), b', n)"
proof -
  from assms obtain boot t ts rest where b: "boots = (boot, t # ts) # rest" "boot \<noteq> []" "sorted (t # ts)"
    by (cases boots; cases "snd (hd boots)") (auto simp: boots_ok_def)
  have ok: "boots_ok rest" "rest = [] \<or> boot \<noteq> fst (hd rest)"
    using assms(1) b by (cases rest; auto simp: boots_ok_def successively_Cons)+
  have "fold advance (map (Pair boot) (t # ts)) None = Some (last (t # ts), boot, last (t # ts))"
    using advance_boot [OF b(3,2), of t] by simp
  with advance_boots [OF ok b(2), of "last (t # ts)" "last (t # ts)"] show ?thesis
    by (simp add: b(1) split: if_splits)
qed

text \<open>
  C9: Traffic is counted once. When a client is new on an agent and every snapshot has at most one report per client, then after any
  run of snapshots in which the totals of each boot of the agent never fall, however the database
  answered meanwhile, the traffic of the client on the agent is the sum over the boots of the last total the agent reported in each.\<close>

theorem traffic_counted_once:
  assumes "MirrorUsageEntryFor c a (fst sd) = None" "list_all one_report_each snaps" "boots_ok boots" "boots \<noteq> []"
    and "concat (map (totals_of c) snaps) = concat (map (\<lambda>(b, ts). map (Pair b) ts) boots)"
  shows "\<exists>u. MirrorUsageEntryFor c a (fst (usage_run a snaps sd)) = Some u \<and> ug_trafficUsedBytes u = sum_list (map (last \<circ> snd) boots)"
proof -
  have "watermark c a (fst sd) = None" using assms(1) by (simp add: watermark_def)
  with watermark_run [OF assms(2), of c a sd] advance_fresh [OF assms(3,4)] assms(5)
  show ?thesis by (auto simp: watermark_def)
qed

definition toy_report :: "uint64 \<Rightarrow> usage_report" where
  "toy_report n = \<lparr>ur_clientID = ''c'', ur_totalBytes = n, ur_uniqueIPsUsed = 0, ur_activeTCPConns = 0, ur_activeUniqueIPs = 0, ur_quotaUsedBytes = 0,
     ur_quotaLastResetUnix = 0, ur_observedAt = 0\<rparr>"

definition toy_tables :: client_db where
  "toy_tables = \<lparr>cd_clients = [], cd_assignments = [], cd_deployments = [], cd_usage = [], cd_agents = [''a''], cd_groups = [], cd_discovered = []\<rparr>"

definition toy_snapshots :: "usage_snapshot list" where
  "toy_snapshots = [(\<lambda>_. None, ''b1'', [toy_report 5]), (\<lambda>_. Some fk_error, ''b1'', [toy_report 7]), (\<lambda>_. None, ''b1'', []),
     (\<lambda>_. None, ''b1'', [toy_report 7]), (\<lambda>_. None, ''b2'', [toy_report 3])]"

theorem traffic_counted_once_witness:
  "\<exists>u. MirrorUsageEntryFor ''c'' ''a'' (fst (usage_run ''a'' toy_snapshots (Client_Service.NewService, toy_tables))) = Some u \<and> ug_trafficUsedBytes u = 10"
proof -
  have "\<exists>u. MirrorUsageEntryFor ''c'' ''a'' (fst (usage_run ''a'' toy_snapshots (Client_Service.NewService, toy_tables))) = Some u \<and>
      ug_trafficUsedBytes u = sum_list (map (last \<circ> snd) [(''b1'', [5, 7, 7]), (''b2'', [3])])"
    by (rule traffic_counted_once)
      (simp_all add: MirrorUsageEntryFor_def Client_Service.NewService_def inner_def one_report_each_def toy_snapshots_def toy_report_def boots_ok_def totals_of_def)
  then show ?thesis by simp
qed

end
