(* ===== verification/Spec2Isabelle.thy ===== *)
theory Spec2Isabelle
  imports
    Job_Store_Properties
    Session_Properties
    Presence
    Runtime_Events
    Agent_Jobs
    Event_Hub
    Audit_Properties
    Audit_Pipeline
    Writer_Streams
    Fallback_State
    Auth_Properties
    Client_Delivery
    Discovery_Reports
    Client_Usage
begin

text \<open>
  \<^bold>\<open>Panvex: verification of the control plane and of the agent's job execution.\<close>

  Panvex is a control panel (internal/controlplane) for a fleet of proxy nodes; on each node runs
  an agent (internal/agent). Operators manage \<^emph>\<open>clients\<close> (accounts of the proxy) through an HTTP
  interface. A change of a client is saved, and a \<^emph>\<open>job\<close> is put into a queue for every agent the
  client is meant for. The panel hands the jobs to the agents over a stream; an agent executes
  them in lanes and reports results, which move the deployment of the client forward; a
  background reconciler sends again what agents still owe. Agents also report runtime state,
  traffic and events. Around this the panel guards the login, keeps an audit trail as a hash
  chain, seals secrets at rest, buffers writes to SQL tables and broadcasts events to dashboards.

  \<^bold>\<open>How Go is represented.\<close> (\<^verbatim>\<open>Panvex_Prelude\<close>, \<^verbatim>\<open>Go_Strings\<close>, \<^verbatim>\<open>Seqid\<close>)
  A struct is a record, an enumeration of texts a datatype with one constructor for any other
  text, \<^verbatim>\<open>time.Time\<close> a number of nanoseconds from the zero instant, a counter of type \<^verbatim>\<open>uint64\<close>
  a 64-bit word, a Go map a partial function. A loop over a map takes its visiting order as an
  argument and every theorem holds for all orders. Errors are values of a sum type, a panic of
  the runtime is a flag of the state. Code with locks is cut into its critical sections; the
  sections are the steps of an inductive relation, so that the theorems cover every
  interleaving. A SQL table is the list of its rows, its constraints are error results, and a
  transaction applies all statements or none. \<^verbatim>\<open>Seqid\<close> is internal/seqid: the numbers in
  identifiers such as job-000017.

  \<^bold>\<open>The job queue.\<close> (internal/controlplane/jobs/service.go, storage/sqlite/jobs.go)
  \<^verbatim>\<open>Job_Types\<close> has jobs, targets and their rows; \<^verbatim>\<open>Job_Service\<close> the state of \<^verbatim>\<open>Service\<close> and every
  operation that changes it, with \<^verbatim>\<open>Enqueue\<close> cut where it releases the lock; \<^verbatim>\<open>Job_Dispatch\<close> the
  read paths and the dispatch query; \<^verbatim>\<open>Recency_Heap\<close> the bounded heap of the newest-first listing;
  \<^verbatim>\<open>Job_Store\<close> the tables; \<^verbatim>\<open>Job_Persist\<close> the write path, with the store as the interface
  \<^verbatim>\<open>job_store\<close>. \<^verbatim>\<open>Job_Invariant\<close> and \<^verbatim>\<open>Job_Preservation\<close> show that every critical section keeps the
  maps of the service consistent, \<^verbatim>\<open>Job_Queue\<close> lifts this to interleavings, \<^verbatim>\<open>Job_Scenario\<close> is a
  concrete run. \<^verbatim>\<open>Job_Properties\<close> has the consequences: what the dispatch query returns, unique
  idempotency keys, targets that only advance, superseding. \<^verbatim>\<open>Job_Store_Properties\<close> has cursor
  pagination, retention, and the listing limit that start-up depends on.

  \<^bold>\<open>Login guards.\<close> (internal/controlplane/sessions)
  \<^verbatim>\<open>Lockout\<close> (lockout_core.go, lockout.go, totp_lockout.go and the mirror table), \<^verbatim>\<open>Ip_Lockout\<close> and
  \<^verbatim>\<open>Rate_Limit\<close> interpret one interface, \<^verbatim>\<open>Guess_Limit\<close>: within a span the budget a key has used is
  never given back. \<^verbatim>\<open>Session_Properties\<close> draws the bounds on guesses and shows that a restart
  keeps lockouts.

  \<^bold>\<open>Authentication.\<close> (internal/controlplane/auth, kdf, storage/sqlite/users.go, sessions.go)
  \<^verbatim>\<open>Password_Hash\<close>, \<^verbatim>\<open>Auth_Store\<close> and \<^verbatim>\<open>Auth_Service\<close> model policy, tables, accounts, sessions and
  the second factor; \<^verbatim>\<open>Auth_System\<close> the runs, with logins in flight and restarts. \<^verbatim>\<open>Auth_Invariant\<close>,
  \<^verbatim>\<open>Auth_Preservation\<close>, \<^verbatim>\<open>Auth_Revocation\<close> and \<^verbatim>\<open>Auth_Admins\<close> prepare \<^verbatim>\<open>Auth_Properties\<close>: revoked users
  stay out, a login rotates the session, the last administrator stays, and two races.

  \<^bold>\<open>Clients.\<close> (internal/controlplane/clients, storage/sqlite/clients_repository.go,
  server/agent_flow.go)
  \<^verbatim>\<open>Client_Types\<close> (data and pure functions), \<^verbatim>\<open>Client_Store\<close> (tables), \<^verbatim>\<open>Client_Service\<close> (the mirror in
  memory and the restore), \<^verbatim>\<open>Client_Flows\<close> (operator flows), \<^verbatim>\<open>Client_Reconcile\<close> (job results, expiry,
  reconcilers), \<^verbatim>\<open>Client_Usage\<close> (traffic). \<^verbatim>\<open>Client_Invariant\<close>, \<^verbatim>\<open>Client_Steps\<close> and \<^verbatim>\<open>Client_Restart\<close>
  show that mirror and tables agree after every flow, on error paths too; the vault is the
  interface \<^verbatim>\<open>secret_box\<close>, the queue the interface \<^verbatim>\<open>job_queue\<close> (\<^verbatim>\<open>Client_Queue\<close>), which the \<^verbatim>\<open>Enqueue\<close> of
  the job service interprets. \<^verbatim>\<open>Client_Properties\<close> and \<^verbatim>\<open>Client_Delivery\<close> have the consequences and
  the behaviours that the comments of the code rule out; \<^verbatim>\<open>Client_Demo\<close> is a concrete panel.
  \<^verbatim>\<open>Client_Discovery\<close> (clients/discoveryflow.go, storage/sqlite/discovered_repository.go) has the reports of users the
  panel does not manage and their adoption; \<^verbatim>\<open>Client_Adoption\<close> shows that they keep the same invariant,
  \<^verbatim>\<open>Discovery_Properties\<close> and \<^verbatim>\<open>Discovery_Reports\<close> what one adoption and one report do.

  \<^bold>\<open>Secrets.\<close> (internal/controlplane/secretvault, server/keyencrypt.go, authority.go,
  cmd/control-plane/rotate_encryption_key.go)
  \<^verbatim>\<open>Secret_Vault\<close> has the envelope of data keys and their wrapping, \<^verbatim>\<open>Key_Encrypt\<close> the key of the
  certificate authority and the command that changes the passphrase, \<^verbatim>\<open>Vault_Properties\<close> what the
  change keeps readable and what it locks out.

  \<^bold>\<open>Audit trail.\<close> (internal/controlplane/audit, server/audit_trail.go, audit_hash_chain.go,
  storage/sqlite/audit.go, cmd/control-plane/verify_audit_chain.go)
  \<^verbatim>\<open>Canonical_Json\<close> is the encoder and its injectivity, \<^verbatim>\<open>Audit_Chain\<close> producer, table, restore and
  verifier, \<^verbatim>\<open>Audit_Properties\<close> what acceptance means, \<^verbatim>\<open>Audit_Pipeline\<close> the way of an event through
  the batch writer to the table or the dead-letter file.

  \<^bold>\<open>Batch writer.\<close> (internal/controlplane/batchwriter/writer.go, storage/sqlite/bulk.go)
  \<^verbatim>\<open>Batch_Buffer\<close> refines a bounded drop-oldest queue (interface \<^verbatim>\<open>drop_oldest\<close>), \<^verbatim>\<open>Batch_Writer\<close> has
  the classification of errors and the retry schedule, \<^verbatim>\<open>Writer_Streams\<close> the flush functions of the
  streams, \<^verbatim>\<open>Fallback_State\<close> one stream from the transition to the restore.

  \<^bold>\<open>Services in memory.\<close> \<^verbatim>\<open>Presence\<close> (presence/tracker.go), \<^verbatim>\<open>Runtime_Events\<close> (the event buffers of the
  agent and of the panel, both instances of \<^verbatim>\<open>bounded_log\<close>), \<^verbatim>\<open>Event_Hub\<close> (eventbus/hub.go),
  \<^verbatim>\<open>Agent_Sessions\<close> (agents/sessions.go), \<^verbatim>\<open>Node_Severity\<close> (telemetry/projections.go) and, on the agent,
  \<^verbatim>\<open>Agent_Jobs\<close> (internal/agent/jobs/jobs.go and the teardown in connection.go).

  \<^bold>\<open>Parameters.\<close> Code that is not in the repository is an argument: SHA-256, HKDF, AES-GCM, Argon2,
  HMAC, base64, X.509, the JSON codecs of payloads, RFC 3339 rendering, \<^verbatim>\<open>json_valid\<close> of the
  database, the answer of the database driver to the n-th call, the file system below the
  dead-letter spool, random values and the clock. What a theorem needs of them is a hypothesis
  on the argument (a decryption inverts its encryption, an encoding is injective), and its witness
  gives a concrete function.

  \<^bold>\<open>Bounds.\<close> All functions are total; no loop has fuel. Retry loops recurse on the number of
  attempts that the source fixes, sift operations on the index, cursor pagination on the
  number of pages, of which the theorem shows that few enough suffice. The statements about
  instants assume where needed that they fit the range of \<^verbatim>\<open>time.Duration\<close>.

  \<^bold>\<open>Not modelled.\<close> The PostgreSQL store (the same statements through generated code) and the generated
  packages; HTTP routing, decoding and response encoding; gRPC and TLS plumbing; metrics, tracing,
  log lines; downloads and process control of the updater; the agent's access to the local
  daemon and its files; flag parsing of the commands; the web dashboard. The Go scheduler and
  memory model are represented by the interleaving of critical sections.
\<close>

end
